(* ===== verification/Nachos_Prelude.thy ===== *)
theory Nachos_Prelude
  imports Main "HOL-Library.Word" "HOL-Library.Signed_Division"
begin

text \<open>
  Shared vocabulary of the development: the fault values that stand for the abnormal ends of
  the C++ code (a failed \<open>ASSERT\<close> of \<open>threads/utility.h\<close>, undefined behaviour such as a NULL
  dereference or an access outside an array, the machine being halted), the result type and
  its bind, checked array access, the arithmetic macros of \<open>threads/utility.h\<close>, and generic
  lemmas on lists and results that the component theories use.
\<close>

section \<open>Faults and results\<close>

datatype fault = ASSERT_FAILED | UNDEFINED | HALTED | OUT_OF_FUEL

type_synonym 'a result = "fault + 'a"

named_theorems result_simps \<open>rewriting of results\<close>

fun bind_result :: "'a result \<Rightarrow> ('a \<Rightarrow> 'b result) \<Rightarrow> 'b result" where
  "bind_result (Inl e) f = Inl e"
| "bind_result (Inr x) f = f x"

text \<open>The \<open>ASSERT\<close> macro: execution goes on when the condition holds, and aborts otherwise.\<close>

definition ASSERT :: "bool \<Rightarrow> unit result" where
  "ASSERT c = (if c then Inr () else Inl ASSERT_FAILED)"

lemma ASSERT_simps [simp]:
  "ASSERT True = Inr ()" "ASSERT False = Inl ASSERT_FAILED"
  by (simp_all add: ASSERT_def)

lemma ASSERT_eq_Inr [simp]: "ASSERT c = Inr u \<longleftrightarrow> c"
  by (simp add: ASSERT_def)

lemma bind_result_eq_Inr [result_simps]:
  "bind_result m f = Inr y \<longleftrightarrow> (\<exists>x. m = Inr x \<and> f x = Inr y)"
  by (cases m) auto

lemma bind_result_eq_Inl [result_simps]:
  "bind_result m f = Inl e \<longleftrightarrow> m = Inl e \<or> (\<exists>x. m = Inr x \<and> f x = Inl e)"
  by (cases m) auto

lemma bind_result_assoc:
  "bind_result (bind_result m f) g = bind_result m (\<lambda>x. bind_result (f x) g)"
  by (cases m) auto

lemma bind_result_cong [fundef_cong]:
  "m = m' \<Longrightarrow> (\<And>x. m' = Inr x \<Longrightarrow> f x = f' x) \<Longrightarrow> bind_result m f = bind_result m' f'"
  by (cases m') auto

text \<open>The same sequencing for programs whose abnormal ends are other values.\<close>

fun bind_sum :: "'e + 'a \<Rightarrow> ('a \<Rightarrow> 'e + 'b) \<Rightarrow> 'e + 'b" where
  "bind_sum (Inl e) f = Inl e"
| "bind_sum (Inr x) f = f x"

lemma bind_sum_eq_Inr [result_simps]: "bind_sum m f = Inr y \<longleftrightarrow> (\<exists>x. m = Inr x \<and> f x = Inr y)"
  by (cases m) auto

text \<open>
  \<open>ensures m P\<close>: if \<open>m\<close> has a result, it satisfies \<open>P\<close>. The rules push a postcondition through
  a sequence of calls.
\<close>

definition ensures :: "'a result \<Rightarrow> ('a \<Rightarrow> bool) \<Rightarrow> bool" where
  "ensures m P \<longleftrightarrow> (\<forall>x. m = Inr x \<longrightarrow> P x)"

lemma ensures_simps [simp]:
  "ensures (Inr x) P = P x" "ensures (Inl e) P"
  "ensures (bind_result m f) P = ensures m (\<lambda>x. ensures (f x) P)"
  "ensures m (\<lambda>x. True)"
  by (cases m; auto simp: ensures_def)+

lemma ensures_if [simp]:
  "ensures (if b then m else m') P \<longleftrightarrow> (b \<longrightarrow> ensures m P) \<and> (\<not> b \<longrightarrow> ensures m' P)"
  by simp

lemma ensures_mono: "ensures m P \<Longrightarrow> (\<And>x. P x \<Longrightarrow> Q x) \<Longrightarrow> ensures m Q"
  by (auto simp: ensures_def)

lemma ensuresD: "ensures m P \<Longrightarrow> m = Inr x \<Longrightarrow> P x"
  by (auto simp: ensures_def)

section \<open>Counting loops\<close>

text \<open>A \<open>for\<close> loop over the given values of its variable; the body may fail.\<close>

fun for_each :: "'i list \<Rightarrow> ('i \<Rightarrow> 's \<Rightarrow> 's result) \<Rightarrow> 's \<Rightarrow> 's result" where
  "for_each [] body s = Inr s"
| "for_each (i # is) body s = bind_result (body i s) (for_each is body)"

lemma for_each_append:
  "for_each (is @ js) body s = bind_result (for_each is body s) (for_each js body)"
proof (induction "is" arbitrary: s)
  case (Cons i "is")
  then show ?case by (cases "body i s") simp_all
qed simp

text \<open>The rule for loops with an invariant of the values that are done.\<close>

lemma for_each_inv:
  assumes "I [] s"
    and "\<And>xs x s. \<exists>ys. is = xs @ x # ys \<Longrightarrow> I xs s \<Longrightarrow> \<exists>s'. body x s = Inr s' \<and> I (xs @ [x]) s'"
  shows "\<exists>s'. for_each is body s = Inr s' \<and> I is s'"
proof -
  have "\<exists>s'. for_each xs body s = Inr s' \<and> I xs s'" if "\<exists>ys. is = xs @ ys" for xs
    using that
  proof (induction xs rule: rev_induct)
    case Nil
    then show ?case using assms(1) by simp
  next
    case (snoc x xs)
    then obtain ys where "is = xs @ x # ys" by auto
    with snoc.IH obtain s' where "for_each xs body s = Inr s'" "I xs s'" by auto
    with assms(2) [of xs x s'] \<open>is = xs @ x # ys\<close> show ?case by (auto simp: for_each_append)
  qed
  from this [of "is"] show ?thesis by simp
qed

text \<open>A loop that assigns every element of an array once.\<close>

lemma for_each_fill:
  assumes "length (get s) = n"
    and body: "\<And>i s. 0 \<le> i \<Longrightarrow> i < int n \<Longrightarrow> length (get s) = n \<Longrightarrow> body i s = Inr (put ((get s)[nat i := f i]) s)"
    and put: "\<And>r s. get (put r s) = r" "\<And>r r' s. put r (put r' s) = put r s" "put (get s) s = s"
  shows "for_each [0..int n - 1] body s = Inr (put (map (\<lambda>i. f (int i)) [0..<n]) s)"
proof -
  let ?I = "\<lambda>xs s'. \<exists>r. s' = put r s \<and> length r = n \<and> (\<forall>i \<in> set xs. r ! nat i = f i)"
  have "\<exists>s'. for_each [0..int n - 1] body s = Inr s' \<and> ?I [0..int n - 1] s'"
  proof (rule for_each_inv)
    show "?I [] s" using assms(1) put(3) by (intro exI [of _ "get s"]) simp
  next
    fix xs x s' assume x: "\<exists>ys. [0..int n - 1] = xs @ x # ys" and I: "?I xs s'"
    then obtain ys where "[0..int n - 1] = xs @ x # ys" by blast
    then have "set xs \<subseteq> {0..int n - 1} \<and> x \<in> {0..int n - 1}" by (metis set_upto set_append Un_upper1 in_set_conv_decomp)
    then have b: "0 \<le> x" "x < int n" "\<forall>i \<in> set xs. 0 \<le> i" by auto
    from I obtain r where r: "s' = put r s" "length r = n" "\<forall>i \<in> set xs. r ! nat i = f i" by blast
    have "?I (xs @ [x]) (put (r[nat x := f x]) s)"
      using r b by (intro exI [of _ "r[nat x := f x]"]) (auto simp: nth_list_update eq_nat_nat_iff)
    then show "\<exists>s''. body x s' = Inr s'' \<and> ?I (xs @ [x]) s''" using body [OF b(1,2), of s'] r put(1,2) by simp
  qed
  then obtain r where r: "for_each [0..int n - 1] body s = Inr (put r s)" "length r = n" "\<forall>i \<in> {0..int n - 1}. r ! nat i = f i" by auto
  have "r = map (\<lambda>i. f (int i)) [0..<n]"
  proof (rule nth_equalityI)
    fix i assume "i < length r"
    then have "int i \<in> {0..int n - 1}" using r(2) by auto
    then show "r ! i = map (\<lambda>i. f (int i)) [0..<n] ! i" using r(2,3) \<open>i < length r\<close> by fastforce
  qed (simp add: r(2))
  with r(1) show ?thesis by simp
qed

text \<open>A loop that cannot fail is a fold on what its states stand for.\<close>

lemma for_each_fold:
  assumes "\<And>i x. i \<in> set is \<Longrightarrow> body i (S x) = Inr (S (g i x))"
  shows "for_each is body (S x) = Inr (S (fold g is x))"
  using assms by (induction "is" arbitrary: x) simp_all

lemma upto_upt: "[int a..int b - 1] = map int [a..<b]"
proof (cases "a \<le> b")
  case True
  then show ?thesis
  proof (induction b rule: dec_induct)
    case (step b)
    have "[int a..int b] = [int a..int b - 1] @ [int b]" using upto_rec2 [of "int a" "int b"] step by simp
    then show ?case using step by simp
  qed simp
qed simp

lemma for_each_upto:
  assumes "\<And>i x. i < n \<Longrightarrow> body (int i) (S x) = Inr (S (g i x))"
  shows "for_each [0..int n - 1] body (S x) = Inr (S (fold g [0..<n] x))"
proof -
  have "for_each (map int [0..<n]) body (S x) = Inr (S (fold (\<lambda>i. g (nat i)) (map int [0..<n]) x))"
    by (rule for_each_fold) (use assms in auto)
  then show ?thesis using upto_upt [of 0 n] by (simp add: fold_map comp_def)
qed

section \<open>Checked arrays\<close>

text \<open>
  An array access \<open>a[i]\<close> with a C++ \<open>int\<close> index. Outside the bounds the behaviour of the
  code is undefined, which the model records as a fault instead of inventing a value.
\<close>

definition array_get :: "'a list \<Rightarrow> int \<Rightarrow> 'a result" where
  "array_get xs i = (if 0 \<le> i \<and> i < int (length xs) then Inr (xs ! nat i) else Inl UNDEFINED)"

definition array_set :: "'a list \<Rightarrow> int \<Rightarrow> 'a \<Rightarrow> 'a list result" where
  "array_set xs i v =
     (if 0 \<le> i \<and> i < int (length xs) then Inr (xs[nat i := v]) else Inl UNDEFINED)"

lemma array_get_ok [simp]:
  "0 \<le> i \<Longrightarrow> i < int (length xs) \<Longrightarrow> array_get xs i = Inr (xs ! nat i)"
  by (simp add: array_get_def)

lemma array_set_ok [simp]:
  "0 \<le> i \<Longrightarrow> i < int (length xs) \<Longrightarrow> array_set xs i v = Inr (xs[nat i := v])"
  by (simp add: array_set_def)

lemma array_get_eq_Inr:
  "array_get xs i = Inr v \<longleftrightarrow> 0 \<le> i \<and> i < int (length xs) \<and> v = xs ! nat i"
  by (auto simp: array_get_def)

lemma array_set_eq_Inr:
  "array_set xs i v = Inr ys \<longleftrightarrow> 0 \<le> i \<and> i < int (length xs) \<and> ys = xs[nat i := v]"
  by (auto simp: array_set_def)

section \<open>Arithmetic of \<open>utility.h\<close>\<close>

text \<open>
  C++ \<open>/\<close> and \<open>%\<close> truncate towards zero: \<open>sdiv\<close> and \<open>smod\<close> of
  \<open>HOL-Library.Signed_Division\<close>.
\<close>

definition divRoundDown :: "int \<Rightarrow> int \<Rightarrow> int" where
  "divRoundDown n s = n sdiv s"

definition divRoundUp :: "int \<Rightarrow> int \<Rightarrow> int" where
  "divRoundUp n s = n sdiv s + (if n smod s > 0 then 1 else 0)"

lemma sdiv_nonneg: "0 \<le> n \<Longrightarrow> 0 < s \<Longrightarrow> n sdiv s = n div (s::int)"
  by (cases "n = 0") (auto simp: signed_divide_int_def)

lemma smod_nonneg: "0 \<le> n \<Longrightarrow> 0 < s \<Longrightarrow> n smod s = n mod (s::int)"
  using minus_div_mult_eq_mod [of n s] by (simp add: smod_int_alt_def sgn_if)

lemma divRoundDown_nonneg: "0 \<le> n \<Longrightarrow> 0 < s \<Longrightarrow> divRoundDown n s = n div s"
  by (simp add: divRoundDown_def sdiv_nonneg)

lemma divRoundUp_nonneg:
  "0 \<le> n \<Longrightarrow> 0 < s \<Longrightarrow> divRoundUp n s = n div s + (if n mod s = 0 then 0 else 1)"
  using pos_mod_sign [of s n] by (auto simp: divRoundUp_def sdiv_nonneg smod_nonneg
      order.order_iff_strict)

lemma divRoundUp_bounds:
  assumes "0 \<le> n" "0 < s"
  shows "n \<le> divRoundUp n s * s" "divRoundUp n s * s < n + s" "0 \<le> divRoundUp n s"
proof -
  obtain q where q: "n div s = q" by simp
  obtain r where r: "n mod s = r" by simp
  have eq: "n = s * q + r" unfolding q [symmetric] r [symmetric] by simp
  have bnd: "0 \<le> r" "r < s" unfolding r [symmetric] using assms by auto
  show "n \<le> divRoundUp n s * s" "divRoundUp n s * s < n + s"
    using bnd unfolding divRoundUp_nonneg [OF assms] q r by (auto simp: eq algebra_simps)
  show "0 \<le> divRoundUp n s"
    using assms by (simp add: divRoundUp_nonneg pos_imp_zdiv_nonneg_iff)
qed

section \<open>Lists\<close>

lemma last_takeWhile_sorted_split:
  "xs = takeWhile P xs @ dropWhile P xs"
  by simp

lemma distinct_nth_update_set:
  "i < length xs \<Longrightarrow> distinct xs \<Longrightarrow> set (xs[i := y]) = insert y (set xs - {xs ! i})"
  by (rule set_update_distinct)

end
