(* ===== verification/Linked_List.thy ===== *)
theory Linked_List
  imports Nachos_Prelude "HOL-Library.Multiset"
begin

text \<open>
  The singly linked list of \<open>threads/list.cc\<close>, modelled at the level of its pointers: the
  \<open>ListElement\<close> cells live in an explicit heap, \<open>first\<close> and \<open>last\<close> are pointers that may be
  NULL, and every operation of the class is one definition that follows the pointer
  assignments of the source. The well-formedness invariant says that the cells reachable from
  \<open>first\<close> form an acyclic chain that ends in \<open>last\<close>. The refinement lemmas show that every
  operation returns (no NULL is dereferenced, no loop runs forever) and acts on the sequence
  of elements as the functional list operations at the end of the theory do. The locale
  \<open>nachos_list\<close> states that contract for the clients (ready list, wait queues, pending
  interrupts) and is interpreted both on the pointer structure and on the functional lists
  that the kernel theories use.
\<close>

section \<open>The data structure\<close>

type_synonym addr = nat

text \<open>\<open>item\<close> is a \<open>void *\<close>: \<open>None\<close> is the NULL pointer.\<close>

record 'a ListElement =
  next_elt :: "addr option"
  key :: int
  item :: "'a option"

type_synonym 'a cells = "addr \<Rightarrow> 'a ListElement option"

text \<open>
  A \<open>List\<close> object with the memory its cells live in. \<open>brk\<close> is the allocator's state:
  \<open>new\<close> returns an address that was never handed out before.
\<close>

record 'a List =
  heap :: "'a cells"
  brk :: addr
  first_elt :: "addr option"
  last_elt :: "addr option"

definition List_ctor :: "'a List" where
  "List_ctor = \<lparr>heap = (\<lambda>_. None), brk = 0, first_elt = None, last_elt = None\<rparr>"

definition new_ListElement :: "'a option \<Rightarrow> int \<Rightarrow> 'a List \<Rightarrow> 'a List \<times> addr" where
  "new_ListElement itemPtr sortKey l =
     (l\<lparr>heap := (heap l)(brk l \<mapsto> \<lparr>next_elt = None, key = sortKey, item = itemPtr\<rparr>),
        brk := Suc (brk l)\<rparr>, brk l)"

text \<open>Reading through a pointer and assigning \<open>p->next\<close>.\<close>

definition deref :: "'a List \<Rightarrow> addr option \<Rightarrow> 'a ListElement result" where
  "deref l p =
     (case p of None \<Rightarrow> Inl UNDEFINED
      | Some a \<Rightarrow> (case heap l a of None \<Rightarrow> Inl UNDEFINED | Some e \<Rightarrow> Inr e))"

definition set_next :: "'a List \<Rightarrow> addr option \<Rightarrow> addr option \<Rightarrow> 'a List result" where
  "set_next l p q =
     (case p of None \<Rightarrow> Inl UNDEFINED
      | Some a \<Rightarrow>
          (case heap l a of None \<Rightarrow> Inl UNDEFINED
           | Some e \<Rightarrow> Inr (l\<lparr>heap := (heap l)(a \<mapsto> e\<lparr>next_elt := q\<rparr>)\<rparr>)))"

definition IsEmpty :: "'a List \<Rightarrow> bool" where
  "IsEmpty l \<longleftrightarrow> first_elt l = None"

definition Append :: "'a option \<Rightarrow> 'a List \<Rightarrow> 'a List result" where
  "Append x l0 =
     (let (l, element) = new_ListElement x 0 l0
      in if IsEmpty l
         then Inr (l\<lparr>first_elt := Some element, last_elt := Some element\<rparr>)
         else bind_result (set_next l (last_elt l) (Some element))
                (\<lambda>l. Inr (l\<lparr>last_elt := Some element\<rparr>)))"

definition Prepend :: "'a option \<Rightarrow> 'a List \<Rightarrow> 'a List result" where
  "Prepend x l0 =
     (let (l, element) = new_ListElement x 0 l0
      in if IsEmpty l
         then Inr (l\<lparr>first_elt := Some element, last_elt := Some element\<rparr>)
         else bind_result (set_next l (Some element) (first_elt l))
                (\<lambda>l. Inr (l\<lparr>first_elt := Some element\<rparr>)))"

text \<open>
  The \<open>for\<close> loop of \<open>SortedInsert\<close>, from the element \<open>ptr\<close> on. A list with \<open>brk\<close> cells
  has no longer chain than \<open>brk\<close>, so that fuel is never used up on a well-formed list.
\<close>

fun SortedInsert_loop :: "nat \<Rightarrow> 'a List \<Rightarrow> addr option \<Rightarrow> int \<Rightarrow> addr \<Rightarrow> 'a List result" where
  "SortedInsert_loop 0 l ptr sortKey element = Inl OUT_OF_FUEL"
| "SortedInsert_loop (Suc n) l ptr sortKey element =
     bind_result (deref l ptr) (\<lambda>c.
       if next_elt c \<noteq> None
       then bind_result (deref l (next_elt c)) (\<lambda>d.
              if sortKey < key d
              then bind_result (set_next l (Some element) (next_elt c)) (\<lambda>l.
                     set_next l ptr (Some element))
              else SortedInsert_loop n l (next_elt c) sortKey element)
       else bind_result (set_next l (last_elt l) (Some element))
              (\<lambda>l. Inr (l\<lparr>last_elt := Some element\<rparr>)))"

definition SortedInsert :: "'a option \<Rightarrow> int \<Rightarrow> 'a List \<Rightarrow> 'a List result" where
  "SortedInsert x sortKey l0 =
     (let (l, element) = new_ListElement x sortKey l0
      in if IsEmpty l
         then Inr (l\<lparr>first_elt := Some element, last_elt := Some element\<rparr>)
         else bind_result (deref l (first_elt l)) (\<lambda>f.
                if sortKey < key f
                then bind_result (set_next l (Some element) (first_elt l))
                       (\<lambda>l. Inr (l\<lparr>first_elt := Some element\<rparr>))
                else SortedInsert_loop (brk l) l (first_elt l) sortKey element))"

text \<open>
  The returned triple: the item (\<open>None\<close> is NULL), what is stored in \<open>*keyPtr\<close> (nothing
  when the list is empty) and the list after \<open>delete element\<close>.
\<close>

definition SortedRemove :: "'a List \<Rightarrow> ('a option \<times> int option \<times> 'a List) result" where
  "SortedRemove l =
     (if IsEmpty l then Inr (None, None, l)
      else bind_result (deref l (first_elt l)) (\<lambda>element.
        let thing = item element;
            l1 = (if first_elt l = last_elt l
                  then l\<lparr>first_elt := None, last_elt := None\<rparr>
                  else l\<lparr>first_elt := next_elt element\<rparr>);
            l2 = l1\<lparr>heap := (heap l1)(the (first_elt l) := None)\<rparr>
        in Inr (thing, Some (key element), l2)))"

definition Remove :: "'a List \<Rightarrow> ('a option \<times> 'a List) result" where
  "Remove l = bind_result (SortedRemove l) (\<lambda>(thing, _, l'). Inr (thing, l'))"

text \<open>\<open>Mapcar\<close> walks the list and calls \<open>func\<close> on every item; \<open>s\<close> is what \<open>func\<close> acts on.\<close>

fun Mapcar_loop :: "nat \<Rightarrow> ('a option \<Rightarrow> 's \<Rightarrow> 's) \<Rightarrow> 'a List \<Rightarrow> addr option \<Rightarrow> 's \<Rightarrow> 's result" where
  "Mapcar_loop 0 func l ptr s = Inl OUT_OF_FUEL"
| "Mapcar_loop (Suc n) func l ptr s =
     (if ptr = None then Inr s
      else bind_result (deref l ptr) (\<lambda>c. Mapcar_loop n func l (next_elt c) (func (item c) s)))"

definition Mapcar :: "('a option \<Rightarrow> 's \<Rightarrow> 's) \<Rightarrow> 'a List \<Rightarrow> 's \<Rightarrow> 's result" where
  "Mapcar func l s = Mapcar_loop (Suc (brk l)) func l (first_elt l) s"

text \<open>The destructor: \<open>while (Remove() != NULL) ;\<close>.\<close>

fun List_dtor_loop :: "nat \<Rightarrow> 'a List \<Rightarrow> 'a List result" where
  "List_dtor_loop 0 l = Inl OUT_OF_FUEL"
| "List_dtor_loop (Suc n) l =
     bind_result (Remove l) (\<lambda>(thing, l'). if thing \<noteq> None then List_dtor_loop n l' else Inr l')"

definition List_dtor :: "'a List \<Rightarrow> 'a List result" where
  "List_dtor l = List_dtor_loop (Suc (brk l)) l"

section \<open>Chains of cells, well-formedness and contents\<close>

primrec path :: "'a cells \<Rightarrow> addr option \<Rightarrow> addr list \<Rightarrow> addr option \<Rightarrow> bool" where
  "path h p [] q \<longleftrightarrow> p = q"
| "path h p (a # as) q \<longleftrightarrow> p = Some a \<and> (\<exists>e. h a = Some e \<and> path h (next_elt e) as q)"

definition chain :: "'a List \<Rightarrow> addr list \<Rightarrow> bool" where
  "chain l as \<longleftrightarrow>
     path (heap l) (first_elt l) as None \<and> distinct as \<and> (\<forall>a \<in> set as. a < brk l) \<and>
     last_elt l = (if as = [] then None else Some (last as))"

definition wf_list :: "'a List \<Rightarrow> bool" where
  "wf_list l \<longleftrightarrow> (\<exists>as. chain l as)"

text \<open>The element sequence of a list, collected by walking from \<open>first\<close>.\<close>

fun walk :: "nat \<Rightarrow> 'a cells \<Rightarrow> addr option \<Rightarrow> (int \<times> 'a option) list" where
  "walk 0 h p = []"
| "walk (Suc n) h p =
     (case p of None \<Rightarrow> []
      | Some a \<Rightarrow> (case h a of None \<Rightarrow> []
                   | Some e \<Rightarrow> (key e, item e) # walk n h (next_elt e)))"

definition elems :: "'a List \<Rightarrow> (int \<times> 'a option) list" where
  "elems l = walk (brk l) (heap l) (first_elt l)"

definition cell :: "'a cells \<Rightarrow> addr \<Rightarrow> int \<times> 'a option" where
  "cell h a = (key (the (h a)), item (the (h a)))"

lemma cell_Some: "h a = Some e \<Longrightarrow> cell h a = (key e, item e)"
  by (simp add: cell_def)

lemma path_append:
  "path h p (as @ bs) q \<longleftrightarrow> (\<exists>r. path h p as r \<and> path h r bs q)"
  by (induction as arbitrary: p) auto

lemma path_upd [simp]:
  "a \<notin> set as \<Longrightarrow> path (h(a := e)) p as q = path h p as q"
  by (induction as arbitrary: p) auto

lemma map_cell_upd [simp]:
  "a \<notin> set as \<Longrightarrow> map (cell (h(a := e))) as = map (cell h) as"
  by (induction as) (auto simp: cell_def)

lemma path_allocated: "path h p as q \<Longrightarrow> a \<in> set as \<Longrightarrow> \<exists>e. h a = Some e"
  by (induction as arbitrary: p) auto

lemma path_first: "path h p as None \<Longrightarrow> as \<noteq> [] \<Longrightarrow> p = Some (hd as)"
  by (cases as) auto

lemma path_set_next_last:
  assumes "path h p (as @ [a]) q" "a \<notin> set as" "h a = Some e"
  shows "path (h(a \<mapsto> e\<lparr>next_elt := r\<rparr>)) p (as @ [a]) r"
  using assms by (auto simp: path_append)

lemma cell_set_next [simp]:
  "h a = Some e \<Longrightarrow> cell (h(a \<mapsto> e\<lparr>next_elt := r\<rparr>)) = cell h"
  by (auto simp: cell_def fun_eq_iff)

lemma walk_path: "path h p as None \<Longrightarrow> length as \<le> n \<Longrightarrow> walk n h p = map (cell h) as"
proof (induction as arbitrary: p n)
  case Nil
  then show ?case by (cases n) auto
next
  case (Cons a as)
  then show ?case by (cases n) (auto simp: cell_def)
qed

lemma chain_length: "chain l as \<Longrightarrow> length as \<le> brk l"
  using card_mono [of "{..<brk l}" "set as"] by (auto simp: chain_def distinct_card)

lemma elems_chain: "chain l as \<Longrightarrow> elems l = map (cell (heap l)) as"
  by (simp add: elems_def walk_path chain_def chain_length)

lemma chain_empty: "chain l as \<Longrightarrow> first_elt l = None \<longleftrightarrow> as = []"
  by (cases as) (auto simp: chain_def)

lemma wf_listE:
  assumes "wf_list l"
  obtains as where "chain l as" "elems l = map (cell (heap l)) as"
  using assms by (auto simp: wf_list_def elems_chain)

lemma wf_listI: "chain l as \<Longrightarrow> wf_list l"
  by (auto simp: wf_list_def)

lemma IsEmpty_elems: "wf_list l \<Longrightarrow> IsEmpty l \<longleftrightarrow> elems l = []"
  by (auto elim!: wf_listE simp: IsEmpty_def chain_empty)

lemma List_ctor_chain: "chain List_ctor []"
  by (simp add: chain_def List_ctor_def)

lemma elems_List_ctor [simp]: "elems List_ctor = []"
  using elems_chain [OF List_ctor_chain] by simp


section \<open>Refinement: every operation acts on the element sequence\<close>

text \<open>The position where \<open>SortedInsert\<close> puts a key: behind every key that is not bigger.\<close>

definition insert_behind :: "int \<Rightarrow> 'b \<Rightarrow> (int \<times> 'b) list \<Rightarrow> (int \<times> 'b) list" where
  "insert_behind k x xs =
     takeWhile (\<lambda>(k', _). k' \<le> k) xs @ (k, x) # dropWhile (\<lambda>(k', _). k' \<le> k) xs"

lemma chain_new:
  assumes "chain l as" "new_ListElement x k l = (l', a)"
  shows "chain l' as" "a = brk l" "a \<notin> set as"
    and "heap l' = (heap l)(a \<mapsto> \<lparr>next_elt = None, key = k, item = x\<rparr>)"
    and "brk l' = Suc (brk l)" "first_elt l' = first_elt l" "last_elt l' = last_elt l"
    and "map (cell (heap l')) as = map (cell (heap l)) as"
    and "heap l' a = Some \<lparr>next_elt = None, key = k, item = x\<rparr>"
    and "cell (heap l') a = (k, x)"
  using assms by (force simp: chain_def new_ListElement_def cell_def)+

lemma deref_Some [simp]: "heap l a = Some e \<Longrightarrow> deref l (Some a) = Inr e"
  by (simp add: deref_def)

lemma set_next_Some [simp]:
  "heap l a = Some e \<Longrightarrow>
   set_next l (Some a) q = Inr (l\<lparr>heap := (heap l)(a \<mapsto> e\<lparr>next_elt := q\<rparr>)\<rparr>)"
  by (simp add: set_next_def)

text \<open>
  Linking a fresh cell behind the last cell: the common tail of \<open>Append\<close> and
  \<open>SortedInsert\<close>.
\<close>

lemma link_last:
  assumes ch: "chain l as" "as \<noteq> []" and fresh: "heap l a = Some \<lparr>next_elt = None, key = k, item = x\<rparr>"
    "a \<notin> set as" "a < brk l"
  shows "\<exists>l'. bind_result (set_next l (last_elt l) (Some a)) (\<lambda>l. Inr (l\<lparr>last_elt := Some a\<rparr>)) = Inr l'
           \<and> chain l' (as @ [a]) \<and> elems l' = map (cell (heap l)) as @ [(k, x)]"
proof -
  obtain bs b where as: "as = bs @ [b]" using ch(2) by (cases as rule: rev_cases) auto
  from ch(1) as have p: "path (heap l) (first_elt l) (bs @ [b]) None" and d: "b \<notin> set bs"
    and last: "last_elt l = Some b"
    by (auto simp: chain_def)
  from p obtain e where e: "heap l b = Some e" using path_allocated [OF p] by auto
  let ?h = "(heap l)(b \<mapsto> e\<lparr>next_elt := Some a\<rparr>)"
  let ?l = "l\<lparr>heap := ?h, last_elt := Some a\<rparr>"
  have ab: "a \<noteq> b" using fresh as by auto
  have "path ?h (first_elt l) (bs @ [b]) (Some a)" by (rule path_set_next_last [OF p d e])
  moreover have "path ?h (Some a) [a] None" using fresh ab by simp
  ultimately have "path ?h (first_elt l) (as @ [a]) None" unfolding as path_append by blast
  then have ch': "chain ?l (as @ [a])" using ch fresh by (auto simp: chain_def)
  moreover have "elems ?l = map (cell (heap l)) as @ [(k, x)]"
    unfolding elems_chain [OF ch'] using e fresh by (simp add: cell_def)
  ultimately show ?thesis using e last by (auto intro!: exI [of _ ?l])
qed

lemma link_only:
  assumes "chain l []" "heap l a = Some \<lparr>next_elt = None, key = k, item = x\<rparr>" "a < brk l"
  shows "chain (l\<lparr>first_elt := Some a, last_elt := Some a\<rparr>) [a]"
    and "elems (l\<lparr>first_elt := Some a, last_elt := Some a\<rparr>) = [(k, x)]"
proof -
  show ch: "chain (l\<lparr>first_elt := Some a, last_elt := Some a\<rparr>) [a]"
    using assms by (simp add: chain_def)
  show "elems (l\<lparr>first_elt := Some a, last_elt := Some a\<rparr>) = [(k, x)]"
    unfolding elems_chain [OF ch] using assms by (simp add: cell_def)
qed

lemma link_front:
  assumes ch: "chain l as" "as \<noteq> []" and fresh: "heap l a = Some \<lparr>next_elt = None, key = k, item = x\<rparr>"
    "a \<notin> set as" "a < brk l"
  shows "\<exists>l'. bind_result (set_next l (Some a) (first_elt l)) (\<lambda>l. Inr (l\<lparr>first_elt := Some a\<rparr>)) = Inr l'
           \<and> chain l' (a # as) \<and> elems l' = (k, x) # map (cell (heap l)) as"
proof -
  let ?h = "(heap l)(a \<mapsto> \<lparr>next_elt = first_elt l, key = k, item = x\<rparr>)"
  let ?l = "l\<lparr>heap := ?h, first_elt := Some a\<rparr>"
  have ch': "chain ?l (a # as)" using ch fresh by (auto simp: chain_def)
  moreover have "elems ?l = (k, x) # map (cell (heap l)) as"
    unfolding elems_chain [OF ch'] using fresh by (simp add: cell_def)
  ultimately show ?thesis using fresh by (auto intro!: exI [of _ ?l])
qed

lemma Append_refines:
  assumes "wf_list l"
  shows "\<exists>l'. Append x l = Inr l' \<and> wf_list l' \<and> elems l' = elems l @ [(0, x)]"
proof -
  obtain as where ch: "chain l as" and el: "elems l = map (cell (heap l)) as"
    using assms by (rule wf_listE)
  obtain l1 a where new: "new_ListElement x 0 l = (l1, a)" by fastforce
  note n = chain_new [OF ch new]
  show ?thesis
  proof (cases "as = []")
    case True
    then show ?thesis
      using n link_only [of l1 a 0 x] el
      by (auto simp: Append_def new IsEmpty_def chain_empty [OF ch] intro: wf_listI)
  next
    case False
    from link_last [OF n(1) False n(9) n(3)] n obtain l' where
      "bind_result (set_next l1 (last_elt l1) (Some a)) (\<lambda>l. Inr (l\<lparr>last_elt := Some a\<rparr>)) = Inr l'"
      "chain l' (as @ [a])" "elems l' = map (cell (heap l)) as @ [(0, x)]" by auto
    with False el show ?thesis
      using n by (auto simp: Append_def new IsEmpty_def chain_empty [OF ch] intro: wf_listI)
  qed
qed

lemma Prepend_refines:
  assumes "wf_list l"
  shows "\<exists>l'. Prepend x l = Inr l' \<and> wf_list l' \<and> elems l' = (0, x) # elems l"
proof -
  obtain as where ch: "chain l as" and el: "elems l = map (cell (heap l)) as"
    using assms by (rule wf_listE)
  obtain l1 a where new: "new_ListElement x 0 l = (l1, a)" by fastforce
  note n = chain_new [OF ch new]
  show ?thesis
  proof (cases "as = []")
    case True
    then show ?thesis
      using n link_only [of l1 a 0 x] el
      by (auto simp: Prepend_def new IsEmpty_def chain_empty [OF ch] intro: wf_listI)
  next
    case False
    from link_front [OF n(1) False n(9) n(3)] n obtain l' where
      "bind_result (set_next l1 (Some a) (first_elt l1)) (\<lambda>l. Inr (l\<lparr>first_elt := Some a\<rparr>)) = Inr l'"
      "chain l' (a # as)" "elems l' = (0, x) # map (cell (heap l)) as" by auto
    with False el show ?thesis
      using n by (auto simp: Prepend_def new IsEmpty_def chain_empty [OF ch] intro: wf_listI)
  qed
qed

lemma SortedRemove_refines:
  assumes "wf_list l"
  shows "\<exists>l'. SortedRemove l =
           Inr (case elems l of [] \<Rightarrow> None | (k, x) # _ \<Rightarrow> x,
                case elems l of [] \<Rightarrow> None | (k, x) # _ \<Rightarrow> Some k, l')
         \<and> wf_list l' \<and> elems l' = tl (elems l)"
proof -
  obtain as where ch: "chain l as" and el: "elems l = map (cell (heap l)) as"
    using assms by (rule wf_listE)
  show ?thesis
  proof (cases as)
    case Nil
    then show ?thesis
      using el ch by (auto simp: SortedRemove_def IsEmpty_def chain_empty [OF ch] intro: wf_listI)
  next
    case (Cons a bs)
    from ch Cons obtain e where e: "heap l a = Some e" "path (heap l) (next_elt e) bs None"
      and f: "first_elt l = Some a" and a: "a \<notin> set bs" "distinct bs" "\<forall>b \<in> set bs. b < brk l"
      and la: "last_elt l = Some (last as)"
      by (auto simp: chain_def)
    have one: "first_elt l = last_elt l \<longleftrightarrow> bs = []"
      using a Cons by (auto simp: f la)
    let ?l = "(if bs = [] then l\<lparr>first_elt := None, last_elt := None\<rparr>
               else l\<lparr>first_elt := next_elt e\<rparr>)\<lparr>heap := (heap l)(a := None)\<rparr>"
    have ch': "chain ?l bs"
      using e a la Cons by (auto simp: chain_def)
    have "elems ?l = tl (elems l)"
      using elems_chain [OF ch'] a by (simp add: el Cons)
    moreover have "SortedRemove l = Inr (item e, Some (key e), ?l)"
      using e f one by (simp add: SortedRemove_def IsEmpty_def Let_def)
    moreover have "wf_list ?l" by (rule wf_listI [OF ch'])
    ultimately show ?thesis
      using e by (auto simp: el Cons cell_def)
  qed
qed


text \<open>Linking a fresh cell between two cells of the chain.\<close>

lemma link_between:
  assumes ch: "chain l (bs @ p # c # cs)"
    and fresh: "heap l a = Some \<lparr>next_elt = None, key = k, item = x\<rparr>"
      "a \<notin> set (bs @ p # c # cs)" "a < brk l"
  shows "\<exists>l'. bind_result (set_next l (Some a) (Some c)) (\<lambda>l. set_next l (Some p) (Some a)) = Inr l'
           \<and> wf_list l'
           \<and> elems l' = map (cell (heap l)) (bs @ [p]) @ (k, x) # map (cell (heap l)) (c # cs)"
proof -
  from ch obtain e where e: "heap l p = Some e" and pc: "path (heap l) (Some c) (c # cs) None"
    and pp: "path (heap l) (first_elt l) (bs @ [p]) (Some c)"
    and d: "p \<notin> set bs" "p \<notin> set (c # cs)"
    by (auto simp: chain_def path_append)
  let ?h1 = "(heap l)(a \<mapsto> \<lparr>next_elt = Some c, key = k, item = x\<rparr>)"
  let ?h = "?h1(p \<mapsto> e\<lparr>next_elt := Some a\<rparr>)"
  let ?l = "l\<lparr>heap := ?h\<rparr>"
  have ap: "a \<noteq> p" using fresh by auto
  have "path ?h (first_elt l) (bs @ [p]) (Some a)"
    using pp fresh d e by (auto intro!: path_set_next_last [where q = "Some c"])
  moreover have "path ?h (Some a) (a # c # cs) None"
    using pc fresh d ap by auto
  ultimately have "path ?h (first_elt l) ((bs @ [p]) @ (a # c # cs)) None"
    unfolding path_append by blast
  then have ch': "chain ?l (bs @ p # a # c # cs)"
    using ch fresh by (auto simp: chain_def)
  have "elems ?l = map (cell (heap l)) (bs @ [p]) @ (k, x) # map (cell (heap l)) (c # cs)"
    unfolding elems_chain [OF ch'] using fresh d e ap by (auto simp: cell_def)
  then show ?thesis
    using fresh e ap wf_listI [OF ch'] by (auto intro!: exI [of _ ?l])
qed

lemma SortedInsert_loop_refines:
  assumes "chain l (bs @ p # cs)"
    and "heap l a = Some \<lparr>next_elt = None, key = k, item = x\<rparr>"
    and "a \<notin> set (bs @ p # cs)" "a < brk l" "length cs < n"
  shows "\<exists>l'. SortedInsert_loop n l (Some p) k a = Inr l' \<and> wf_list l'
           \<and> elems l' = map (cell (heap l)) (bs @ [p]) @ insert_behind k x (map (cell (heap l)) cs)"
  using assms
proof (induction cs arbitrary: bs p n)
  case Nil
  then obtain m where n: "n = Suc m" by (cases n) auto
  from Nil.prems(1) obtain e where e: "heap l p = Some e" "next_elt e = None"
    by (auto simp: chain_def path_append)
  from link_last [OF Nil.prems(1) _ Nil.prems(2-4)] obtain l' where
    "bind_result (set_next l (last_elt l) (Some a)) (\<lambda>l. Inr (l\<lparr>last_elt := Some a\<rparr>)) = Inr l'"
    "wf_list l'" "elems l' = map (cell (heap l)) (bs @ [p]) @ [(k, x)]" by (auto intro: wf_listI)
  then show ?case using n e by (simp add: insert_behind_def)
next
  case (Cons c cs)
  then obtain m where n: "n = Suc m" and m: "length cs < m" by (cases n) auto
  from Cons.prems(1) obtain e d where e: "heap l p = Some e" "next_elt e = Some c"
    and d: "heap l c = Some d"
    by (auto simp: chain_def path_append)
  show ?case
  proof (cases "k < key d")
    case True
    from link_between [OF Cons.prems(1-4)] obtain l' where
      "bind_result (set_next l (Some a) (Some c)) (\<lambda>l. set_next l (Some p) (Some a)) = Inr l'"
      "wf_list l'"
      "elems l' = map (cell (heap l)) (bs @ [p]) @ (k, x) # map (cell (heap l)) (c # cs)" by auto
    then show ?thesis using n e d True by (simp add: insert_behind_def cell_Some)
  next
    case False
    have "chain l ((bs @ [p]) @ c # cs)" using Cons.prems(1) by simp
    from Cons.IH [OF this Cons.prems(2) _ Cons.prems(4) m] Cons.prems(3) obtain l' where
      "SortedInsert_loop m l (Some c) k a = Inr l'" "wf_list l'"
      "elems l' = map (cell (heap l)) ((bs @ [p]) @ [c]) @ insert_behind k x (map (cell (heap l)) cs)"
      by auto
    then show ?thesis using n e d False by (simp add: insert_behind_def cell_Some)
  qed
qed

lemma SortedInsert_refines:
  assumes "wf_list l"
  shows "\<exists>l'. SortedInsert x k l = Inr l' \<and> wf_list l' \<and> elems l' = insert_behind k x (elems l)"
proof -
  obtain as where ch: "chain l as" and el: "elems l = map (cell (heap l)) as"
    using assms by (rule wf_listE)
  obtain l1 a where new: "new_ListElement x k l = (l1, a)" by fastforce
  note n = chain_new [OF ch new]
  have a1: "a < brk l1" using n by simp
  show ?thesis
  proof (cases as)
    case Nil
    then show ?thesis
      using n link_only [of l1 a k x] el
      by (auto simp: SortedInsert_def new IsEmpty_def chain_empty [OF ch] insert_behind_def
          intro: wf_listI)
  next
    case (Cons f bs)
    from n(1) Cons obtain e where f: "first_elt l1 = Some f" and e: "heap l1 f = Some e"
      by (auto simp: chain_def)
    have ek: "cell (heap l) f = (key e, item e)" using e n Cons by (auto simp: cell_def)
    show ?thesis
    proof (cases "k < key e")
      case True
      from link_front [OF n(1) _ n(9) n(3) a1] Cons obtain l' where
        "bind_result (set_next l1 (Some a) (first_elt l1)) (\<lambda>l. Inr (l\<lparr>first_elt := Some a\<rparr>)) = Inr l'"
        "wf_list l'" "elems l' = (k, x) # map (cell (heap l1)) as"
        by (auto intro: wf_listI)
      then show ?thesis
        unfolding n(8) using True f e ek el Cons
        by (auto simp: SortedInsert_def new IsEmpty_def insert_behind_def)
    next
      case False
      have "chain l1 ([] @ f # bs)" "a \<notin> set ([] @ f # bs)" using n Cons by auto
      moreover have "length bs < brk l1" using chain_length [OF ch] n Cons by simp
      ultimately obtain l' where
        "SortedInsert_loop (brk l1) l1 (Some f) k a = Inr l'" "wf_list l'"
        "elems l' = cell (heap l1) f # insert_behind k x (map (cell (heap l1)) bs)"
        using SortedInsert_loop_refines [OF _ n(9) _ a1, of "[]" f bs] by auto
      moreover have "map (cell (heap l1)) bs = map (cell (heap l)) bs"
        "cell (heap l1) f = cell (heap l) f"
        using n(8) Cons by simp_all
      ultimately have "SortedInsert_loop (brk l1) l1 (Some f) k a = Inr l'" "wf_list l'"
        "elems l' = cell (heap l) f # insert_behind k x (map (cell (heap l)) bs)"
        by simp_all
      then show ?thesis
        using False f e ek el Cons
        by (auto simp: SortedInsert_def new IsEmpty_def insert_behind_def)
    qed
  qed
qed

lemma Remove_refines:
  assumes "wf_list l"
  shows "\<exists>l'. Remove l = Inr (case elems l of [] \<Rightarrow> None | (k, x) # _ \<Rightarrow> x, l')
         \<and> wf_list l' \<and> elems l' = tl (elems l)"
  using SortedRemove_refines [OF assms] by (auto simp: Remove_def)

lemma Mapcar_loop_path:
  "path (heap l) p as None \<Longrightarrow> length as < n \<Longrightarrow>
   Mapcar_loop n func l p s = Inr (fold func (map (snd \<circ> cell (heap l)) as) s)"
proof (induction as arbitrary: p n s)
  case Nil
  then show ?case by (cases n) auto
next
  case (Cons a as)
  then show ?case by (cases n) (auto simp: cell_def)
qed

lemma Mapcar_refines:
  assumes "wf_list l"
  shows "Mapcar func l s = Inr (fold func (map snd (elems l)) s)"
  using assms
  by (auto elim!: wf_listE simp: Mapcar_def Mapcar_loop_path chain_def chain_length less_Suc_eq_le
      simp del: Mapcar_loop.simps)


lemma List_dtor_loop_refines:
  assumes "wf_list l" "length (elems l) < n" "None \<notin> snd ` set (elems l)"
  shows "\<exists>l'. List_dtor_loop n l = Inr l' \<and> wf_list l' \<and> elems l' = []"
  using assms
proof (induction n arbitrary: l)
  case 0
  then show ?case by simp
next
  case (Suc n)
  from Remove_refines [OF Suc.prems(1)] obtain l' where
    r: "Remove l = Inr (case elems l of [] \<Rightarrow> None | (k, x) # _ \<Rightarrow> x, l')" "wf_list l'"
       "elems l' = tl (elems l)" by auto
  show ?case
  proof (cases "elems l")
    case Nil
    then show ?thesis using r by simp
  next
    case (Cons y ys)
    then have "\<exists>l''. List_dtor_loop n l' = Inr l'' \<and> wf_list l'' \<and> elems l'' = []"
      using Suc.prems r by (intro Suc.IH) auto
    then show ?thesis using r Cons Suc.prems(3) by (cases y) force
  qed
qed

lemma length_elems: "wf_list l \<Longrightarrow> length (elems l) \<le> brk l"
  by (auto elim!: wf_listE simp: chain_length)

section \<open>The functional lists of the kernel model\<close>

text \<open>
  What the other components of the model keep where the code keeps a \<open>List\<close>: the sequence of
  keyed items. The operations are the images of the pointer operations above. The queues that
  never use keys are kept as the list of their items.
\<close>

type_synonym 'a keyed = "(int \<times> 'a) list"

definition seq_Append :: "'a \<Rightarrow> 'a keyed \<Rightarrow> 'a keyed result" where
  "seq_Append x xs = Inr (xs @ [(0, x)])"

definition seq_Prepend :: "'a \<Rightarrow> 'a keyed \<Rightarrow> 'a keyed result" where
  "seq_Prepend x xs = Inr ((0, x) # xs)"

definition seq_SortedInsert :: "'a \<Rightarrow> int \<Rightarrow> 'a keyed \<Rightarrow> 'a keyed result" where
  "seq_SortedInsert x k xs = Inr (insert_behind k x xs)"

fun seq_SortedRemove :: "'a keyed \<Rightarrow> ('a option \<times> int option \<times> 'a keyed) result" where
  "seq_SortedRemove [] = Inr (None, None, [])"
| "seq_SortedRemove ((k, x) # xs) = Inr (Some x, Some k, xs)"

lemma insert_behind_map:
  "insert_behind k (f x) (map (\<lambda>(k, x). (k, f x)) xs) = map (\<lambda>(k, x). (k, f x)) (insert_behind k x xs)"
  by (induction xs) (auto simp: insert_behind_def)

lemma mset_insert_behind [simp]: "mset (insert_behind k x xs) = add_mset (k, x) (mset xs)"
proof -
  have "mset xs = mset (takeWhile (\<lambda>(k', _). k' \<le> k) xs @ dropWhile (\<lambda>(k', _). k' \<le> k) xs)"
    by simp
  then show ?thesis unfolding mset_append by (simp add: insert_behind_def)
qed

lemma set_insert_behind [simp]: "set (insert_behind k x xs) = insert (k, x) (set xs)"
  using mset_insert_behind [of k x xs] by (metis set_mset_add_mset_insert set_mset_mset)

lemma insert_behind_Nil [simp]: "insert_behind k x [] = [(k, x)]"
  by (simp add: insert_behind_def)

lemma insert_behind_Cons:
  "insert_behind k x ((k', y) # xs) =
     (if k' \<le> k then (k', y) # insert_behind k x xs else (k, x) # (k', y) # xs)"
  by (simp add: insert_behind_def)

lemma sorted_insert_behind:
  "sorted (map fst xs) \<Longrightarrow> sorted (map fst (insert_behind k x xs))"
  by (induction xs) (force simp: insert_behind_Cons split: if_splits)+

text \<open>Elements with an equal key keep their order of arrival.\<close>

lemma filter_insert_behind:
  assumes "sorted (map fst xs)"
  shows "filter (\<lambda>(k', _). k' = j) (insert_behind k x xs) =
           filter (\<lambda>(k', _). k' = j) xs @ (if j = k then [(k, x)] else [])"
  using assms
proof (induction xs)
  case Nil
  then show ?case by simp
next
  case (Cons y xs)
  obtain k' z where y: "y = (k', z)" by fastforce
  have "\<not> k' \<le> k \<Longrightarrow> filter (\<lambda>(k', _). k' = k) xs = []"
    using Cons.prems y by (force simp: filter_empty_conv)
  with Cons y show ?case by (auto simp: insert_behind_Cons)
qed

section \<open>The contract clients rely on\<close>

fun insert_all :: "('a \<Rightarrow> int \<Rightarrow> 'l \<Rightarrow> 'l result) \<Rightarrow> (int \<times> 'a) list \<Rightarrow> 'l \<Rightarrow> 'l result" where
  "insert_all ins [] l = Inr l"
| "insert_all ins ((k, x) # xs) l = bind_result (ins x k l) (insert_all ins xs)"

fun append_all :: "('a \<Rightarrow> 'l \<Rightarrow> 'l result) \<Rightarrow> 'a list \<Rightarrow> 'l \<Rightarrow> 'l result" where
  "append_all app [] l = Inr l"
| "append_all app (x # xs) l = bind_result (app x l) (append_all app xs)"

fun remove_n :: "('l \<Rightarrow> ('a option \<times> int option \<times> 'l) result) \<Rightarrow> nat \<Rightarrow> 'l \<Rightarrow> ((int \<times> 'a) list \<times> 'l) result" where
  "remove_n rem 0 l = Inr ([], l)"
| "remove_n rem (Suc n) l =
     bind_result (rem l) (\<lambda>(x, k, l').
       case (x, k) of
         (Some x, Some k) \<Rightarrow> bind_result (remove_n rem n l') (\<lambda>(ys, l''). Inr ((k, x) # ys, l''))
       | _ \<Rightarrow> Inr ([], l'))"

locale nachos_list =
  fixes mk :: "'l"
    and app :: "'a \<Rightarrow> 'l \<Rightarrow> 'l result"
    and pre :: "'a \<Rightarrow> 'l \<Rightarrow> 'l result"
    and ins :: "'a \<Rightarrow> int \<Rightarrow> 'l \<Rightarrow> 'l result"
    and rem :: "'l \<Rightarrow> ('a option \<times> int option \<times> 'l) result"
    and emp :: "'l \<Rightarrow> bool"
    and seq :: "'l \<Rightarrow> (int \<times> 'a) list"
    and inv :: "'l \<Rightarrow> bool"
  assumes inv_mk: "inv mk" and seq_mk: "seq mk = []"
    and app_ok: "inv l \<Longrightarrow> \<exists>l'. app x l = Inr l' \<and> inv l' \<and> seq l' = seq l @ [(0, x)]"
    and pre_ok: "inv l \<Longrightarrow> \<exists>l'. pre x l = Inr l' \<and> inv l' \<and> seq l' = (0, x) # seq l"
    and ins_ok: "inv l \<Longrightarrow> \<exists>l'. ins x k l = Inr l' \<and> inv l' \<and> seq l' = insert_behind k x (seq l)"
    and rem_empty: "inv l \<Longrightarrow> seq l = [] \<Longrightarrow> \<exists>l'. rem l = Inr (None, None, l') \<and> inv l' \<and> seq l' = []"
    and rem_first: "inv l \<Longrightarrow> seq l = (k, x) # xs \<Longrightarrow>
                      \<exists>l'. rem l = Inr (Some x, Some k, l') \<and> inv l' \<and> seq l' = xs"
    and emp_ok: "inv l \<Longrightarrow> emp l \<longleftrightarrow> seq l = []"
begin

lemma append_all_ok:
  "inv l \<Longrightarrow> \<exists>l'. append_all app xs l = Inr l' \<and> inv l' \<and> seq l' = seq l @ map (Pair 0) xs"
proof (induction xs arbitrary: l)
  case Nil
  then show ?case by simp
next
  case (Cons x xs)
  from app_ok [OF Cons.prems] obtain l1 where
    l1: "app x l = Inr l1" "inv l1" "seq l1 = seq l @ [(0, x)]" by auto
  from Cons.IH [OF l1(2)] l1 show ?case by auto
qed

lemma insert_all_ok:
  "inv l \<Longrightarrow> sorted (map fst (seq l)) \<Longrightarrow>
   \<exists>l'. insert_all ins xs l = Inr l' \<and> inv l' \<and> sorted (map fst (seq l'))
        \<and> mset (seq l') = mset (seq l) + mset xs
        \<and> (\<forall>j. filter (\<lambda>(k, _). k = j) (seq l') =
                filter (\<lambda>(k, _). k = j) (seq l) @ filter (\<lambda>(k, _). k = j) xs)"
proof (induction xs arbitrary: l)
  case Nil
  then show ?case by simp
next
  case (Cons y xs)
  obtain k x where y: "y = (k, x)" by fastforce
  from ins_ok [OF Cons.prems(1), of x k] obtain l1 where
    l1: "ins x k l = Inr l1" "inv l1" "seq l1 = insert_behind k x (seq l)" by auto
  have "sorted (map fst (seq l1))" using l1 Cons.prems by (simp add: sorted_insert_behind)
  from Cons.IH [OF l1(2) this] l1 y Cons.prems(2) show ?case
    by (auto simp: filter_insert_behind)
qed

lemma remove_n_ok:
  "inv l \<Longrightarrow> length (seq l) = n \<Longrightarrow>
   \<exists>l'. remove_n rem n l = Inr (seq l, l') \<and> inv l' \<and> seq l' = []"
proof (induction n arbitrary: l)
  case 0
  then show ?case by simp
next
  case (Suc n)
  then obtain k x xs where s: "seq l = (k, x) # xs" by (cases "seq l") auto
  from rem_first [OF Suc.prems(1) s] obtain l1 where
    "rem l = Inr (Some x, Some k, l1)" "inv l1" "seq l1 = xs" by auto
  then show ?case using Suc.IH [of l1] Suc.prems(2) s by auto
qed

text \<open>First in, first out.\<close>

lemma fifo:
  "\<exists>l l'. append_all app xs mk = Inr l \<and> remove_n rem (length xs) l = Inr (map (Pair 0) xs, l')
        \<and> emp l'"
proof -
  from append_all_ok [OF inv_mk, of xs] obtain l where
    l: "append_all app xs mk = Inr l" "inv l" "seq l = map (Pair 0) xs" by (auto simp: seq_mk)
  from remove_n_ok [OF l(2)] l(3) obtain l' where
    "remove_n rem (length xs) l = Inr (map (Pair 0) xs, l')" "inv l'" "seq l' = []" by auto
  with l(1) show ?thesis by (auto simp: emp_ok)
qed

text \<open>Sorted insertion followed by removal is a stable sort by key.\<close>

lemma priority_order:
  "\<exists>l ys l'. insert_all ins xs mk = Inr l \<and> remove_n rem (length xs) l = Inr (ys, l') \<and> emp l'
        \<and> sorted (map fst ys) \<and> mset ys = mset xs
        \<and> (\<forall>j. filter (\<lambda>(k, _). k = j) ys = filter (\<lambda>(k, _). k = j) xs)"
proof -
  from insert_all_ok [OF inv_mk, of xs] obtain l where
    l: "insert_all ins xs mk = Inr l" "inv l" "sorted (map fst (seq l))" "mset (seq l) = mset xs"
       "\<forall>j. filter (\<lambda>(k, _). k = j) (seq l) = filter (\<lambda>(k, _). k = j) xs"
    by (auto simp: seq_mk)
  have "length (seq l) = length xs" using l(4) by (metis size_mset)
  from remove_n_ok [OF l(2) this] obtain l' where
    "remove_n rem (length xs) l = Inr (seq l, l')" "inv l'" "seq l' = []" by auto
  with l show ?thesis by (auto simp: emp_ok)
qed

end

section \<open>The pointer lists and the functional lists meet the contract\<close>

definition nonnull_list :: "'a List \<Rightarrow> bool" where
  "nonnull_list l \<longleftrightarrow> wf_list l \<and> None \<notin> snd ` set (elems l)"

definition list_seq :: "'a List \<Rightarrow> (int \<times> 'a) list" where
  "list_seq l = map (\<lambda>(k, x). (k, the x)) (elems l)"

lemma elems_list_seq:
  "nonnull_list l \<Longrightarrow> elems l = map (\<lambda>(k, x). (k, Some x)) (list_seq l)"
proof -
  assume "nonnull_list l"
  then have "x \<noteq> None" if "(k, x) \<in> set (elems l)" for k x
    using that by (force simp: nonnull_list_def)
  then have "\<forall>y \<in> set (elems l). (\<lambda>(k, x). (k, Some (the x))) y = y"
    by auto
  then show ?thesis by (simp add: list_seq_def comp_def case_prod_unfold map_idI)
qed

lemma list_seqI:
  "wf_list l \<Longrightarrow> elems l = map (\<lambda>(k, x). (k, Some x)) xs \<Longrightarrow> nonnull_list l \<and> list_seq l = xs"
  by (force simp: nonnull_list_def list_seq_def comp_def case_prod_unfold)

lemma nonnull_wf: "nonnull_list l \<Longrightarrow> wf_list l"
  by (simp add: nonnull_list_def)

interpretation plist: nachos_list List_ctor "\<lambda>x. Append (Some x)" "\<lambda>x. Prepend (Some x)"
  "\<lambda>x. SortedInsert (Some x)" SortedRemove IsEmpty list_seq nonnull_list
proof (unfold_locales, goal_cases)
  case 1
  show ?case by (simp add: nonnull_list_def wf_listI [OF List_ctor_chain])
next
  case 2
  show ?case by (simp add: list_seq_def)
next
  case (3 l x)
  with Append_refines [OF nonnull_wf, of l "Some x"] show ?case
    by (force simp: elems_list_seq intro!: list_seqI)
next
  case (4 l x)
  with Prepend_refines [OF nonnull_wf, of l "Some x"] show ?case
    by (force simp: elems_list_seq intro!: list_seqI)
next
  case (5 l x k)
  with SortedInsert_refines [OF nonnull_wf, of l "Some x" k] show ?case
    by (force simp: elems_list_seq insert_behind_map intro!: list_seqI)
next
  case (6 l)
  with SortedRemove_refines [OF nonnull_wf, of l] show ?case
    by (force simp: elems_list_seq intro!: list_seqI)
next
  case (7 l k x xs)
  with SortedRemove_refines [OF nonnull_wf, of l] show ?case
    by (force simp: elems_list_seq intro!: list_seqI)
next
  case (8 l)
  then show ?case by (simp add: IsEmpty_elems nonnull_wf elems_list_seq)
qed

interpretation slist: nachos_list "[]" seq_Append seq_Prepend seq_SortedInsert seq_SortedRemove
  "\<lambda>xs. xs = []" "\<lambda>xs. xs" "\<lambda>_. True"
  by unfold_locales (simp_all add: seq_Append_def seq_Prepend_def seq_SortedInsert_def)

section \<open>Properties\<close>

text \<open>
  A list is a FIFO queue: after any sequence of \<open>Append\<close>s to a new list, removing as many
  elements returns the appended items in the same order and leaves the list empty.
\<close>

theorem list_fifo:
  "\<exists>l l'. append_all (\<lambda>x. Append (Some x)) xs List_ctor = Inr l \<and>
     remove_n SortedRemove (length xs) l = Inr (map (Pair 0) xs, l') \<and> IsEmpty l'"
  by (rule plist.fifo)

text \<open>
  Sorted insertion followed by removal is a stable sort: after any sequence of
  \<open>SortedInsert\<close>s into a new list, \<open>SortedRemove\<close> returns the items in the order of their keys,
  loses none, and returns items with equal keys in the order of their insertion. Neither
  routine follows a NULL or dangling pointer.
\<close>

theorem list_priority_order:
  "\<exists>l ys l'. insert_all (\<lambda>x. SortedInsert (Some x)) xs List_ctor = Inr l \<and>
     remove_n SortedRemove (length xs) l = Inr (ys, l') \<and> IsEmpty l' \<and>
     sorted (map fst ys) \<and> mset ys = mset xs \<and>
     (\<forall>j. filter (\<lambda>(k, _). k = j) ys = filter (\<lambda>(k, _). k = j) xs)"
  by (rule plist.priority_order)

text \<open>
  C9: On a well-formed pointer structure \<open>SortedInsert\<close> succeeds, keeps it well-formed and
  puts the item behind all elements with a key that is not bigger, wherever that is: at the
  front, in the middle or at the end.
\<close>

theorem SortedInsert_refinement:
  assumes "wf_list l"
  shows "\<exists>l'. SortedInsert x k l = Inr l' \<and> wf_list l' \<and>
     elems l' = takeWhile (\<lambda>(k', _). k' \<le> k) (elems l) @ (k, x) # dropWhile (\<lambda>(k', _). k' \<le> k) (elems l)"
  using SortedInsert_refines [OF assms, of x k] by (simp add: insert_behind_def)

theorem SortedInsert_refinement_witness:
  "\<exists>l l'. Append (Some (5::nat)) List_ctor = Inr l \<and> elems l = [(0, Some 5)] \<and>
     SortedInsert (Some 7) (- 3) l = Inr l' \<and> elems l' = [(- 3, Some 7), (0, Some 5)]"
proof -
  from Append_refines [OF wf_listI [OF List_ctor_chain], of "Some (5::nat)"] obtain l where
    l: "Append (Some 5) List_ctor = Inr l" "wf_list l" "elems l = [(0, Some (5::nat))]" by auto
  from SortedInsert_refinement [OF l(2), of "Some 7" "- 3"] l show ?thesis by auto
qed

text \<open>
  The destructor's loop ends and empties the list, for lists that hold no NULL item.
\<close>

theorem List_dtor_empties:
  assumes "nonnull_list l"
  shows "\<exists>l'. List_dtor l = Inr l' \<and> wf_list l' \<and> elems l' = []"
  using List_dtor_loop_refines [of l "Suc (brk l)"] length_elems [OF nonnull_wf [OF assms]] assms
  by (simp add: List_dtor_def nonnull_list_def less_Suc_eq_le del: List_dtor_loop.simps)

theorem List_dtor_empties_witness:
  "\<exists>l l'. Append (Some (5::nat)) List_ctor = Inr l \<and> elems l = [(0, Some 5)] \<and>
     List_dtor l = Inr l' \<and> elems l' = []"
proof -
  from Append_refines [OF wf_listI [OF List_ctor_chain], of "Some (5::nat)"] obtain l where
    l: "Append (Some 5) List_ctor = Inr l" "wf_list l" "elems l = [(0, Some (5::nat))]" by auto
  then have "nonnull_list l" by (simp add: nonnull_list_def)
  from List_dtor_empties [OF this] l show ?thesis by auto
qed

end
