(* ===== verification/Kernel_State.thy ===== *)
theory Kernel_State
  imports Linked_List
begin

text \<open>
  The state of the Nachos kernel: the interrupt simulation (\<open>machine/interrupt.h\<close>), the
  statistics (\<open>machine/stats.h\<close>), the threads and the ready list (\<open>threads/thread.h\<close>,
  \<open>threads/scheduler.h\<close>), the synchronization objects (\<open>threads/synch.h\<close>) and the global
  variables of \<open>threads/system.cc\<close>. Pointers to threads and synchronization objects are
  identifiers; \<open>None\<close> is NULL. Where the code keeps a \<open>List\<close>, the record keeps the sequence
  that \<open>Linked_List\<close> shows the pointer structure to represent; the queues of threads use no
  keys and keep the items only.

  A thread that gives up the CPU continues later in the middle of the functions it had
  called. Its execution stack is modelled by the frames that remain to be executed, the top
  frame first: one constructor per program point to which \<open>SWITCH\<close> or a call returns.
\<close>

section \<open>Interrupts and statistics\<close>

datatype IntStatus = IntOff | IntOn

datatype MachineStatus = IdleMode | SystemMode | UserMode

datatype IntType = TimerInt | DiskInt | ConsoleWriteInt | ConsoleReadInt
  | NetworkSendInt | NetworkRecvInt

text \<open>A handler is a function pointer: \<open>'h\<close> names the functions that may be pointed to.\<close>

record 'h PendingInterrupt =
  handler :: 'h
  arg :: int
  due :: int
  type :: IntType

record 'h Interrupt =
  level :: IntStatus
  pending :: "'h PendingInterrupt keyed"
  inHandler :: bool
  yieldOnReturn :: bool
  status :: MachineStatus

definition Interrupt_ctor :: "'h Interrupt" where
  "Interrupt_ctor =
     \<lparr>level = IntOff, pending = [], inHandler = False, yieldOnReturn = False,
      status = SystemMode\<rparr>"

record Statistics =
  totalTicks :: int
  idleTicks :: int
  systemTicks :: int
  userTicks :: int
  numDiskReads :: int
  numDiskWrites :: int
  numConsoleCharsRead :: int
  numConsoleCharsWritten :: int
  numPageFaults :: int
  numPacketsSent :: int
  numPacketsRecvd :: int

definition Statistics_ctor :: Statistics where
  "Statistics_ctor =
     \<lparr>totalTicks = 0, idleTicks = 0, systemTicks = 0, userTicks = 0, numDiskReads = 0,
      numDiskWrites = 0, numConsoleCharsRead = 0, numConsoleCharsWritten = 0,
      numPageFaults = 0, numPacketsSent = 0, numPacketsRecvd = 0\<rparr>"

text \<open>The tick constants of \<open>stats.h\<close>.\<close>

definition UserTick :: int where "UserTick = 1"
definition SystemTick :: int where "SystemTick = 10"
definition RotationTime :: int where "RotationTime = 500"
definition SeekTime :: int where "SeekTime = 500"
definition ConsoleTime :: int where "ConsoleTime = 100"
definition NetworkTime :: int where "NetworkTime = 100"
definition TimerTicks :: int where "TimerTicks = 100"

lemmas tick_defs = UserTick_def SystemTick_def RotationTime_def SeekTime_def ConsoleTime_def
  NetworkTime_def TimerTicks_def

section \<open>Threads\<close>

type_synonym tid = nat
type_synonym sid = nat
type_synonym lid = nat
type_synonym cid = nat

datatype ThreadStatus = JUST_CREATED | RUNNING | READY | BLOCKED

text \<open>
  The program points at which a thread can be suspended or be about to continue:
  \<^item> \<open>AfterRun\<close>: the part of \<open>Scheduler::Run\<close> behind \<open>SWITCH\<close>;
  \<^item> \<open>RestoreLevel l\<close>: the call \<open>interrupt->SetLevel(l)\<close> at the end of an atomic routine;
  \<^item> \<open>TickDone st\<close>: the assignment \<open>status = old\<close> behind the \<open>Yield\<close> of \<open>OneTick\<close>;
  \<^item> \<open>SleepLoop\<close>: the loop of \<open>Thread::Sleep\<close> that looks for a thread to run;
  \<^item> \<open>P_loop s\<close>: the loop of \<open>Semaphore::P\<close>;
  \<^item> \<open>Wait_Acquire l\<close>: the \<open>conditionLock->Acquire\<close> of \<open>Condition::Wait\<close>;
  \<^item> \<open>InterruptEnable\<close>, \<open>ThreadBody\<close>, \<open>ThreadFinish\<close>: the three calls of \<open>ThreadRoot\<close>.
\<close>

datatype frame = AfterRun | RestoreLevel IntStatus | TickDone MachineStatus | SleepLoop
  | P_loop sid | Wait_Acquire lid | InterruptEnable | ThreadBody | ThreadFinish

text \<open>\<open>stack\<close> is NULL for the main thread; otherwise the word at the overflow fencepost.\<close>

record Thread =
  name :: string
  stack :: "int option"
  tstatus :: ThreadStatus
  frames :: "frame list"

definition STACK_FENCEPOST :: int where "STACK_FENCEPOST = 3735928559"

section \<open>Synchronization objects\<close>

record Semaphore =
  sem_value :: int
  sem_queue :: "tid list"

record Lock =
  acquired :: bool
  owner :: "tid option"
  lock_queue :: "tid list"

record Condition =
  waitQueue :: "tid list"
  waitingLock :: "lid option"

section \<open>The kernel\<close>

text \<open>
  \<open>randCount\<close> counts the calls of \<open>Random()\<close>: the host's generator is a parameter of the
  definitions that draw from it. \<open>devs\<close> holds the devices of the machine.
\<close>

record ('h, 'd) kernel =
  intr :: "'h Interrupt"
  stats :: Statistics
  currentThread :: tid
  threadToBeDestroyed :: "tid option"
  readyList :: "tid list"
  threads :: "tid \<Rightarrow> Thread option"
  semaphores :: "sid \<Rightarrow> Semaphore"
  locks :: "lid \<Rightarrow> Lock"
  conditions :: "cid \<Rightarrow> Condition"
  randCount :: nat
  devs :: 'd

text \<open>A function pointer table: what calling a handler with an argument does to the kernel.\<close>

type_synonym ('h, 'd) calls = "'h \<Rightarrow> int \<Rightarrow> ('h, 'd) kernel \<Rightarrow> ('h, 'd) kernel result"

abbreviation upd_intr where "upd_intr f k \<equiv> k\<lparr>intr := f (intr k)\<rparr>"
abbreviation upd_stats where "upd_stats f k \<equiv> k\<lparr>stats := f (stats k)\<rparr>"
abbreviation now where "now k \<equiv> totalTicks (stats k)"

definition upd_thread :: "tid \<Rightarrow> (Thread \<Rightarrow> Thread) \<Rightarrow> ('h, 'd) kernel \<Rightarrow> ('h, 'd) kernel" where
  "upd_thread t f k = k\<lparr>threads := (threads k)(t := map_option f (threads k t))\<rparr>"

definition push :: "frame \<Rightarrow> ('h, 'd) kernel \<Rightarrow> ('h, 'd) kernel" where
  "push f k = upd_thread (currentThread k) (\<lambda>th. th\<lparr>frames := f # frames th\<rparr>) k"

definition pop :: "('h, 'd) kernel \<Rightarrow> ('h, 'd) kernel" where
  "pop k = upd_thread (currentThread k) (\<lambda>th. th\<lparr>frames := tl (frames th)\<rparr>) k"

definition frames_of :: "('h, 'd) kernel \<Rightarrow> tid \<Rightarrow> frame list" where
  "frames_of k t = (case threads k t of None \<Rightarrow> [] | Some th \<Rightarrow> frames th)"

definition status_of :: "('h, 'd) kernel \<Rightarrow> tid \<Rightarrow> ThreadStatus option" where
  "status_of k t = map_option tstatus (threads k t)"

lemma kernel_upd_id [simp]:
  fixes k :: "('h, 'd) kernel"
  shows "k\<lparr>intr := intr k\<rparr> = k" "k\<lparr>stats := stats k\<rparr> = k" "k\<lparr>intr := i, stats := stats k\<rparr> = k\<lparr>intr := i\<rparr>"
  by (cases k; simp)+

lemma Interrupt_upd_id [simp]:
  fixes i :: "'h Interrupt"
  shows "i\<lparr>pending := pending i\<rparr> = i" "i\<lparr>level := level i\<rparr> = i" "i\<lparr>status := status i\<rparr> = i"
  by (cases i; simp)+

lemma upd_thread_simps [simp]:
  "intr (upd_thread t f k) = intr k" "stats (upd_thread t f k) = stats k"
  "currentThread (upd_thread t f k) = currentThread k"
  "threadToBeDestroyed (upd_thread t f k) = threadToBeDestroyed k"
  "readyList (upd_thread t f k) = readyList k" "semaphores (upd_thread t f k) = semaphores k"
  "locks (upd_thread t f k) = locks k" "conditions (upd_thread t f k) = conditions k"
  "randCount (upd_thread t f k) = randCount k" "devs (upd_thread t f k) = devs k"
  "threads (upd_thread t f k) = (threads k)(t := map_option f (threads k t))"
  by (simp_all add: upd_thread_def)

lemma push_simps [simp]:
  "intr (push f k) = intr k" "stats (push f k) = stats k"
  "currentThread (push f k) = currentThread k"
  "threadToBeDestroyed (push f k) = threadToBeDestroyed k"
  "readyList (push f k) = readyList k" "semaphores (push f k) = semaphores k"
  "locks (push f k) = locks k" "conditions (push f k) = conditions k"
  "randCount (push f k) = randCount k" "devs (push f k) = devs k"
  "status_of (push f k) = status_of k"
  "threads (push f k) t = None \<longleftrightarrow> threads k t = None"
  by (simp_all add: push_def status_of_def fun_eq_iff option.map_comp comp_def)

lemma pop_simps [simp]:
  "intr (pop k) = intr k" "stats (pop k) = stats k"
  "currentThread (pop k) = currentThread k"
  "threadToBeDestroyed (pop k) = threadToBeDestroyed k"
  "readyList (pop k) = readyList k" "semaphores (pop k) = semaphores k"
  "locks (pop k) = locks k" "conditions (pop k) = conditions k"
  "randCount (pop k) = randCount k" "devs (pop k) = devs k"
  "status_of (pop k) = status_of k"
  "threads (pop k) t = None \<longleftrightarrow> threads k t = None"
  by (simp_all add: pop_def status_of_def fun_eq_iff option.map_comp comp_def)

lemma frames_of_push [simp]:
  "threads k (currentThread k) \<noteq> None \<Longrightarrow>
   frames_of (push f k) t =
     (if t = currentThread k then f # frames_of k t else frames_of k t)"
  by (auto simp: frames_of_def push_def upd_thread_def)

lemma frames_of_pop [simp]:
  "frames_of (pop k) t = (if t = currentThread k then tl (frames_of k t) else frames_of k t)"
  by (auto simp: frames_of_def pop_def upd_thread_def split: option.splits)

lemma status_of_None: "status_of k t = None \<longleftrightarrow> threads k t = None"
  by (simp add: status_of_def)

end
