(* ===== verification/Interrupts.thy ===== *)
theory Interrupts
  imports Kernel_State
begin

text \<open>
  The simulated interrupt hardware of \<open>machine/interrupt.cc\<close>: scheduling of pending
  interrupts, the check whether one is due, the loop that fires all of them, and idling. The
  handlers are called through the table \<open>call\<close>, since the code calls them through function
  pointers. The field \<open>due\<close> of a pending interrupt is the code's \<open>when\<close>.

  The invariant \<open>pending_wf\<close> says that the pending list is sorted by the time of the
  interrupts; the lemmas show that \<open>Schedule\<close> and \<open>CheckIfDue\<close> keep it, that an interrupt
  never fires before its time and always in order, that time never runs backwards, and that
  the \<open>while (CheckIfDue(FALSE))\<close> loops end. The locale \<open>handlers\<close> states what the loop
  relies on: a handler may schedule new interrupts (and \<open>Schedule\<close> asserts that they lie in
  the future) and wake threads, but it does not take interrupts off the list or set the clock.
\<close>

section \<open>Operations\<close>

text \<open>\<open>ChangeLevel\<close>; the argument \<open>old\<close> only feeds a debug message.\<close>

definition ChangeLevel :: "IntStatus \<Rightarrow> ('h, 'd) kernel \<Rightarrow> ('h, 'd) kernel" where
  "ChangeLevel l k = upd_intr (\<lambda>i. i\<lparr>level := l\<rparr>) k"

definition YieldOnReturn :: "('h, 'd) kernel \<Rightarrow> ('h, 'd) kernel result" where
  "YieldOnReturn k =
     bind_result (ASSERT (inHandler (intr k)))
       (\<lambda>_. Inr (upd_intr (\<lambda>i. i\<lparr>yieldOnReturn := True\<rparr>) k))"

definition Schedule ::
  "'h \<Rightarrow> int \<Rightarrow> int \<Rightarrow> IntType \<Rightarrow> ('h, 'd) kernel \<Rightarrow> ('h, 'd) kernel result" where
  "Schedule h a fromNow t k =
     (let w = now k + fromNow;
          toOccur = \<lparr>handler = h, arg = a, due = w, type = t\<rparr>
      in bind_result (ASSERT (fromNow > 0))
           (\<lambda>_. Inr (upd_intr (\<lambda>i. i\<lparr>pending := insert_behind w toOccur (pending i)\<rparr>) k)))"

text \<open>
  \<open>CheckIfDue\<close>: the returned flag says whether a handler was fired. The pattern match on the
  pending list is \<open>pending->SortedRemove(&when)\<close>.
\<close>

definition fire :: "('h, 'd) calls \<Rightarrow> 'h PendingInterrupt \<Rightarrow> ('h, 'd) kernel \<Rightarrow> ('h, 'd) kernel result" where
  "fire call toOccur k =
     (let old = status (intr k);
          k1 = upd_intr (\<lambda>i. i\<lparr>inHandler := True, status := SystemMode\<rparr>) k
      in bind_result (call (handler toOccur) (arg toOccur) k1)
           (\<lambda>k2. Inr (upd_intr (\<lambda>i. i\<lparr>status := old, inHandler := False\<rparr>) k2)))"

definition CheckIfDue ::
  "('h, 'd) calls \<Rightarrow> bool \<Rightarrow> ('h, 'd) kernel \<Rightarrow> (bool \<times> ('h, 'd) kernel) result" where
  "CheckIfDue call advanceClock k =
     bind_result (ASSERT (level (intr k) = IntOff)) (\<lambda>_.
       case pending (intr k) of
         [] \<Rightarrow> Inr (False, k)
       | (w, toOccur) # rest \<Rightarrow>
           let k1 = upd_intr (\<lambda>i. i\<lparr>pending := rest\<rparr>) k;
               put_back = (\<lambda>k. upd_intr (\<lambda>i. i\<lparr>pending := insert_behind w toOccur rest\<rparr>) k)
           in if \<not> advanceClock \<and> w > now k1 then Inr (False, put_back k1)
              else
                let k2 = (if advanceClock \<and> w > now k1
                          then upd_stats (\<lambda>s. s\<lparr>idleTicks := idleTicks s + (w - totalTicks s),
                                                totalTicks := w\<rparr>) k1
                          else k1)
                in if status (intr k2) = IdleMode \<and> type toOccur = TimerInt \<and> rest = []
                   then Inr (False, put_back k2)
                   else bind_result (fire call toOccur k2) (\<lambda>k3. Inr (True, k3)))"

text \<open>
  The loop \<open>while (CheckIfDue(FALSE)) ;\<close>. Every round takes one interrupt off the list and
  handlers only add interrupts in the future, so one round more than there are pending
  interrupts is enough (\<open>fire_due_returns\<close> below).
\<close>

fun fire_due_loop :: "nat \<Rightarrow> ('h, 'd) calls \<Rightarrow> ('h, 'd) kernel \<Rightarrow> ('h, 'd) kernel result" where
  "fire_due_loop 0 call k = Inl OUT_OF_FUEL"
| "fire_due_loop (Suc n) call k =
     bind_result (CheckIfDue call False k)
       (\<lambda>(fired, k'). if fired then fire_due_loop n call k' else Inr k')"

definition fire_due :: "('h, 'd) calls \<Rightarrow> ('h, 'd) kernel \<Rightarrow> ('h, 'd) kernel result" where
  "fire_due call k = fire_due_loop (Suc (length (pending (intr k)))) call k"

text \<open>\<open>Halt\<close> prints the statistics and exits the program.\<close>

definition Halt :: "('h, 'd) kernel \<Rightarrow> ('h, 'd) kernel result" where
  "Halt k = Inl HALTED"

definition Idle :: "('h, 'd) calls \<Rightarrow> ('h, 'd) kernel \<Rightarrow> ('h, 'd) kernel result" where
  "Idle call k =
     bind_result (CheckIfDue call True (upd_intr (\<lambda>i. i\<lparr>status := IdleMode\<rparr>) k))
       (\<lambda>(fired, k1).
          if fired
          then bind_result (fire_due call k1)
                 (\<lambda>k2. Inr (upd_intr (\<lambda>i. i\<lparr>yieldOnReturn := False, status := SystemMode\<rparr>) k2))
          else Halt k1)"

text \<open>The clock part of \<open>OneTick\<close>.\<close>

definition advance_clock :: "('h, 'd) kernel \<Rightarrow> ('h, 'd) kernel" where
  "advance_clock k =
     (if status (intr k) = SystemMode
      then upd_stats (\<lambda>s. s\<lparr>totalTicks := totalTicks s + SystemTick,
                           systemTicks := systemTicks s + SystemTick\<rparr>) k
      else upd_stats (\<lambda>s. s\<lparr>totalTicks := totalTicks s + UserTick,
                           userTicks := userTicks s + UserTick\<rparr>) k)"

section \<open>Invariant and contracts\<close>

definition pending_wf :: "('h, 'd) kernel \<Rightarrow> bool" where
  "pending_wf k \<longleftrightarrow>
     sorted (map fst (pending (intr k))) \<and> (\<forall>(w, p) \<in> set (pending (intr k)). due p = w)"

definition due_list :: "('h, 'd) kernel \<Rightarrow> 'h PendingInterrupt keyed" where
  "due_list k = filter (\<lambda>(w, _). w \<le> now k) (pending (intr k))"

text \<open>What a handler may change in the interrupt state: only add future interrupts.\<close>

definition handler_effect :: "('h, 'd) kernel \<Rightarrow> ('h, 'd) kernel \<Rightarrow> bool" where
  "handler_effect k k' \<longleftrightarrow>
     pending_wf k' \<and> due_list k' = due_list k \<and> now k' = now k \<and>
     level (intr k') = level (intr k) \<and> inHandler (intr k') = inHandler (intr k) \<and>
     status (intr k') = status (intr k) \<and> idleTicks (stats k') = idleTicks (stats k) \<and>
     systemTicks (stats k') = systemTicks (stats k) \<and> userTicks (stats k') = userTicks (stats k)"

lemma handler_effect_refl: "pending_wf k \<Longrightarrow> handler_effect k k"
  by (simp add: handler_effect_def)

lemma handler_effect_trans:
  "handler_effect k k' \<Longrightarrow> handler_effect k' k'' \<Longrightarrow> handler_effect k k''"
  by (simp add: handler_effect_def)

lemma Schedule_eq_Inr:
  "Schedule h a n t k = Inr k' \<longleftrightarrow> 0 < n \<and>
     k' = upd_intr (\<lambda>i. i\<lparr>pending := insert_behind (now k + n)
            \<lparr>handler = h, arg = a, due = now k + n, type = t\<rparr> (pending i)\<rparr>) k"
  by (auto simp: Schedule_def result_simps Let_def)

lemma filter_insert_behind_later:
  "c < k \<Longrightarrow> filter (\<lambda>(w, _). w \<le> c) (insert_behind k x xs) = filter (\<lambda>(w, _). w \<le> c) xs"
  by (induction xs) (auto simp: insert_behind_Cons)

lemma Schedule_effect:
  "pending_wf k \<Longrightarrow> Schedule h a n t k = Inr k' \<Longrightarrow> handler_effect k k'"
  by (auto simp: Schedule_eq_Inr handler_effect_def pending_wf_def due_list_def
      sorted_insert_behind filter_insert_behind_later)

lemma YieldOnReturn_effect:
  "pending_wf k \<Longrightarrow> YieldOnReturn k = Inr k' \<Longrightarrow> handler_effect k k'"
  by (auto simp: YieldOnReturn_def result_simps handler_effect_def pending_wf_def due_list_def)

text \<open>
  When nothing is due the check fires nothing and puts the earliest interrupt back; when
  something is due, the earliest pending interrupt is fired.
\<close>

lemma CheckIfDue_not_due:
  assumes "level (intr k) = IntOff" "pending_wf k" "due_list k = []"
  shows "\<exists>k'. CheckIfDue call False k = Inr (False, k') \<and> handler_effect k k'
           \<and> mset (pending (intr k')) = mset (pending (intr k))
           \<and> k' = k\<lparr>intr := (intr k)\<lparr>pending := pending (intr k')\<rparr>\<rparr>"
  using assms
  by (cases "pending (intr k)")
     (auto simp: CheckIfDue_def due_list_def handler_effect_def pending_wf_def Let_def
        sorted_insert_behind filter_insert_behind_later split: if_splits)

lemma due_list_Cons:
  assumes "pending_wf k" "due_list k \<noteq> []"
  obtains w p rest where "pending (intr k) = (w, p) # rest" "w \<le> now k"
    "due_list k = (w, p) # filter (\<lambda>(w, _). w \<le> now k) rest"
proof -
  from assms(2) obtain w p rest where r: "pending (intr k) = (w, p) # rest"
    by (cases "pending (intr k)") (auto simp: due_list_def)
  moreover have "w \<le> now k"
  proof (rule ccontr)
    assume "\<not> w \<le> now k"
    with assms(1) r have "\<forall>y \<in> set (pending (intr k)). \<not> fst y \<le> now k"
      by (force simp: pending_wf_def)
    then have "due_list k = []" by (auto simp: due_list_def filter_empty_conv)
    with assms(2) show False by simp
  qed
  ultimately show thesis using that by (auto simp: due_list_def)
qed

locale handlers =
  fixes call :: "('h, 'd) calls"
    and safe :: "('h, 'd) kernel \<Rightarrow> bool"
  assumes call_ok: "safe k \<Longrightarrow> pending_wf k \<Longrightarrow> inHandler (intr k) \<Longrightarrow> level (intr k) = IntOff \<Longrightarrow>
      \<exists>k'. call h a k = Inr k' \<and> safe k' \<and> handler_effect k k'"
    and safe_cong: "safe k \<Longrightarrow> safe (k\<lparr>intr := i, stats := s\<rparr>)"
begin

lemma safe_intr: "safe k \<Longrightarrow> safe (k\<lparr>intr := i\<rparr>)"
  using safe_cong [where k = k and i = i and s = "stats k"] by simp

lemma safe_stats: "safe k \<Longrightarrow> safe (k\<lparr>stats := s\<rparr>)"
  using safe_cong [where k = k and i = "intr k" and s = s] by simp

lemma fire_ok:
  assumes "safe k" "pending_wf k" "level (intr k) = IntOff"
  shows "\<exists>k'. fire call p k = Inr k' \<and> safe k' \<and> pending_wf k' \<and> due_list k' = due_list k
           \<and> now k' = now k \<and> level (intr k') = IntOff \<and> status (intr k') = status (intr k)
           \<and> \<not> inHandler (intr k')"
proof -
  let ?k = "upd_intr (\<lambda>i. i\<lparr>inHandler := True, status := SystemMode\<rparr>) k"
  have "pending_wf ?k" "due_list ?k = due_list k"
    using assms by (auto simp: pending_wf_def due_list_def)
  with call_ok [of ?k "handler p" "arg p"] assms obtain k1 where
    k1: "call (handler p) (arg p) ?k = Inr k1" "safe k1" "handler_effect ?k k1"
    by (auto intro: safe_intr)
  then show ?thesis using assms
    by (auto simp: fire_def Let_def handler_effect_def pending_wf_def due_list_def intro!: safe_intr)
qed

text \<open>
  A round of the loop: it ends the loop, either because nothing is due or because the machine
  is idle and only the timer is left, or it fires the earliest due interrupt.
\<close>

definition stop_state :: "('h, 'd) kernel \<Rightarrow> bool" where
  "stop_state k \<longleftrightarrow> due_list k = [] \<or>
     status (intr k) = IdleMode \<and> (\<exists>w p. pending (intr k) = [(w, p)] \<and> type p = TimerInt)"

lemma CheckIfDue_stop:
  assumes "safe k" "pending_wf k" "level (intr k) = IntOff" "stop_state k"
  shows "\<exists>k'. CheckIfDue call False k = Inr (False, k') \<and> safe k' \<and> handler_effect k k' \<and> stop_state k'"
proof (cases "due_list k = []")
  case True
  with CheckIfDue_not_due [of k call] assms obtain k' where
    k': "CheckIfDue call False k = Inr (False, k')" "handler_effect k k'"
    "k' = k\<lparr>intr := (intr k)\<lparr>pending := pending (intr k')\<rparr>\<rparr>" by auto
  moreover from k'(3) have "safe k'" using safe_intr [OF assms(1)] by metis
  ultimately show ?thesis using True by (auto simp: stop_state_def handler_effect_def)
next
  case False
  with assms(4) obtain w p where p: "pending (intr k) = [(w, p)]" "type p = TimerInt"
    "status (intr k) = IdleMode" by (auto simp: stop_state_def)
  have "k\<lparr>intr := intr k\<lparr>pending := [(w, p)]\<rparr>\<rparr> = k"
    unfolding p(1) [symmetric] by simp
  then have "CheckIfDue call False k = Inr (False, k)"
    using p False assms(3) by (simp add: CheckIfDue_def Let_def due_list_def split: if_splits)
  with assms show ?thesis by (auto intro: handler_effect_refl)
qed

lemma CheckIfDue_due:
  assumes "safe k" "pending_wf k" "level (intr k) = IntOff" "\<not> stop_state k"
  shows "\<exists>k'. CheckIfDue call False k = Inr (True, k') \<and> safe k' \<and> pending_wf k'
           \<and> due_list k' = tl (due_list k) \<and> now k' = now k \<and> level (intr k') = IntOff
           \<and> status (intr k') = status (intr k) \<and> \<not> inHandler (intr k')"
proof -
  from assms(4) have "due_list k \<noteq> []" by (simp add: stop_state_def)
  with assms(2) obtain w p rest where r: "pending (intr k) = (w, p) # rest" "w \<le> now k"
    "due_list k = (w, p) # filter (\<lambda>(w, _). w \<le> now k) rest" by (rule due_list_Cons)
  let ?k = "upd_intr (\<lambda>i. i\<lparr>pending := rest\<rparr>) k"
  have "safe ?k" "pending_wf ?k" "due_list ?k = tl (due_list k)"
    using assms(1,2) r by (auto simp: pending_wf_def due_list_def intro: safe_intr)
  with fire_ok [of ?k p] assms(3) obtain k' where
    "fire call p ?k = Inr k'" "safe k'" "pending_wf k'" "due_list k' = tl (due_list k)"
    "now k' = now k" "level (intr k') = IntOff" "status (intr k') = status (intr k)"
    "\<not> inHandler (intr k')" by auto
  moreover have "\<not> (status (intr k) = IdleMode \<and> type p = TimerInt \<and> rest = [])"
    using assms(4) r by (auto simp: stop_state_def)
  ultimately show ?thesis using r assms(3) by (auto simp: CheckIfDue_def Let_def)
qed

text \<open>
  The loop that fires all due interrupts ends, with the clock where it was, interrupts still
  off, and nothing left that is due (or an idle machine with only its timer left).
\<close>

lemma fire_due_loop_ok:
  assumes "safe k" "pending_wf k" "level (intr k) = IntOff" "length (due_list k) < n"
  shows "\<exists>k'. fire_due_loop n call k = Inr k' \<and> safe k' \<and> pending_wf k' \<and> stop_state k'
           \<and> now k' = now k \<and> level (intr k') = IntOff \<and> status (intr k') = status (intr k)
           \<and> (\<not> inHandler (intr k) \<longrightarrow> \<not> inHandler (intr k'))"
  using assms
proof (induction n arbitrary: k)
  case 0
  then show ?case by simp
next
  case (Suc n)
  show ?case
  proof (cases "stop_state k")
    case True
    from CheckIfDue_stop [OF Suc.prems(1-3) this] Suc.prems(3) show ?thesis
      by (auto simp: handler_effect_def)
  next
    case False
    then have ne: "due_list k \<noteq> []" by (simp add: stop_state_def)
    from CheckIfDue_due [OF Suc.prems(1-3) False] obtain k' where
      k': "CheckIfDue call False k = Inr (True, k')" "safe k'" "pending_wf k'"
      "due_list k' = tl (due_list k)" "now k' = now k" "level (intr k') = IntOff"
      "status (intr k') = status (intr k)" "\<not> inHandler (intr k')" by auto
    moreover have "length (due_list k') < n" using ne Suc.prems(4) k'(4) by (cases "due_list k") auto
    ultimately show ?thesis using Suc.IH [of k'] by auto
  qed
qed

lemma fire_due_ok:
  assumes "safe k" "pending_wf k" "level (intr k) = IntOff"
  shows "\<exists>k'. fire_due call k = Inr k' \<and> safe k' \<and> pending_wf k' \<and> stop_state k'
           \<and> now k' = now k \<and> level (intr k') = IntOff \<and> status (intr k') = status (intr k)
           \<and> (\<not> inHandler (intr k) \<longrightarrow> \<not> inHandler (intr k'))"
  unfolding fire_due_def using assms
  by (intro fire_due_loop_ok) (auto simp: due_list_def less_Suc_eq_le)

text \<open>
  Idling advances the clock to the earliest pending interrupt and fires it; the machine halts
  exactly when no interrupt is pending, or only the timer's.
\<close>

lemma Idle_fires:
  assumes "safe k" "pending_wf k" "level (intr k) = IntOff"
    and p: "pending (intr k) = (w, p) # rest" and "\<not> (type p = TimerInt \<and> rest = [])"
  shows "\<exists>k'. Idle call k = Inr k' \<and> safe k' \<and> pending_wf k' \<and> now k' = max w (now k)
           \<and> level (intr k') = IntOff \<and> status (intr k') = SystemMode \<and> \<not> yieldOnReturn (intr k')
           \<and> \<not> inHandler (intr k')"
proof -
  let ?k0 = "upd_intr (\<lambda>i. i\<lparr>status := IdleMode\<rparr>) k"
  let ?k1 = "upd_intr (\<lambda>i. i\<lparr>status := IdleMode, pending := rest\<rparr>) k"
  let ?k2 = "if w > now k then upd_stats (\<lambda>s. s\<lparr>idleTicks := idleTicks s + (w - totalTicks s),
                totalTicks := w\<rparr>) ?k1 else ?k1"
  have "safe ?k2" using assms(1) by (auto intro!: safe_stats safe_intr)
  moreover have "pending_wf ?k2" "level (intr ?k2) = IntOff" "now ?k2 = max w (now k)"
    using assms(2,3) p by (auto simp: pending_wf_def)
  ultimately obtain k3 where k3: "fire call p ?k2 = Inr k3" "safe k3" "pending_wf k3"
    "now k3 = max w (now k)" "level (intr k3) = IntOff" "\<not> inHandler (intr k3)"
    using fire_ok [of ?k2 p] by auto
  have chk: "CheckIfDue call True ?k0 = Inr (True, k3)"
    using assms(3,5) p k3(1) by (auto simp: CheckIfDue_def Let_def)
  from fire_due_ok [OF k3(2,3,5)] k3(4,6) obtain k4 where
    "fire_due call k3 = Inr k4" "safe k4" "pending_wf k4" "now k4 = max w (now k)"
    "level (intr k4) = IntOff" "\<not> inHandler (intr k4)" by auto
  with chk show ?thesis
    by (auto simp: Idle_def pending_wf_def intro!: safe_intr)
qed

lemma Idle_halts:
  assumes "level (intr k) = IntOff"
    and "pending (intr k) = [] \<or> (\<exists>w p. pending (intr k) = [(w, p)] \<and> type p = TimerInt)"
  shows "Idle call k = Inl HALTED"
  using assms by (auto simp: Idle_def CheckIfDue_def Let_def Halt_def)

end

lemma advance_clock_increases: "now k < now (advance_clock k)"
  by (simp add: advance_clock_def tick_defs)

end
