(* ===== verification/Threads.thy ===== *)
theory Threads
  imports Interrupts
begin

text \<open>
  The scheduler (\<open>threads/scheduler.cc\<close>), the thread operations (\<open>threads/thread.cc\<close>) and the
  two routines of \<open>machine/interrupt.cc\<close> that can switch threads, \<open>OneTick\<close> and \<open>SetLevel\<close>.
  \<open>SWITCH\<close> is modelled by making another thread current; what the old thread still has to do is
  in its frames (see \<open>Kernel_State\<close>). A \<open>Thread\<close> pointer that points to no thread is undefined
  behaviour.

  The operations are followed by lemmas that say exactly what each does to the thread that
  runs, the ready list and the queues. Their use is in the theory \<open>Synch\<close>, where the step
  relation of the whole kernel and its invariant are.
\<close>

section \<open>Scheduler\<close>

definition setStatus :: "tid \<Rightarrow> ThreadStatus \<Rightarrow> ('h, 'd) kernel \<Rightarrow> ('h, 'd) kernel" where
  "setStatus t st k = upd_thread t (\<lambda>th. th\<lparr>tstatus := st\<rparr>) k"

definition ReadyToRun :: "tid \<Rightarrow> ('h, 'd) kernel \<Rightarrow> ('h, 'd) kernel result" where
  "ReadyToRun t k =
     (if threads k t = None then Inl UNDEFINED
      else let k1 = setStatus t READY k in Inr (k1\<lparr>readyList := readyList k1 @ [t]\<rparr>))"

definition FindNextToRun :: "('h, 'd) kernel \<Rightarrow> tid option \<times> ('h, 'd) kernel" where
  "FindNextToRun k =
     (case readyList k of [] \<Rightarrow> (None, k) | t # ts \<Rightarrow> (Some t, k\<lparr>readyList := ts\<rparr>))"

definition CheckOverflow :: "tid \<Rightarrow> ('h, 'd) kernel \<Rightarrow> unit result" where
  "CheckOverflow t k =
     (case threads k t of None \<Rightarrow> Inl UNDEFINED
      | Some th \<Rightarrow> (case stack th of None \<Rightarrow> Inr () | Some w \<Rightarrow> ASSERT (w = STACK_FENCEPOST)))"

text \<open>\<open>Scheduler::Run\<close> up to \<open>SWITCH\<close>; the old thread will continue at \<open>AfterRun\<close>.\<close>

definition Run :: "tid \<Rightarrow> ('h, 'd) kernel \<Rightarrow> ('h, 'd) kernel result" where
  "Run nextThread k =
     bind_result (CheckOverflow (currentThread k) k) (\<lambda>_.
       if threads k nextThread = None then Inl UNDEFINED
       else Inr (setStatus nextThread RUNNING ((push AfterRun k)\<lparr>currentThread := nextThread\<rparr>)))"

text \<open>The destructor of a thread asserts that it is not the running one.\<close>

definition delete_thread :: "tid \<Rightarrow> ('h, 'd) kernel \<Rightarrow> ('h, 'd) kernel result" where
  "delete_thread t k =
     bind_result (ASSERT (t \<noteq> currentThread k)) (\<lambda>_. Inr (k\<lparr>threads := (threads k)(t := None)\<rparr>))"

text \<open>\<open>Scheduler::Run\<close> behind \<open>SWITCH\<close>.\<close>

definition Run_resume :: "('h, 'd) kernel \<Rightarrow> ('h, 'd) kernel result" where
  "Run_resume k =
     (case threadToBeDestroyed k of
        None \<Rightarrow> Inr k
      | Some t \<Rightarrow> bind_result (delete_thread t k) (\<lambda>k. Inr (k\<lparr>threadToBeDestroyed := None\<rparr>)))"

section \<open>Giving up the CPU\<close>

text \<open>
  \<open>Thread::Yield\<close>, called on the current thread. \<open>SetLevel(IntOff)\<close> never ticks: it is
  \<open>ChangeLevel\<close> (lemma \<open>SetLevel_IntOff\<close> below). The final \<open>SetLevel(oldLevel)\<close> is a frame,
  since other threads may run before it.
\<close>

definition Yield :: "('h, 'd) kernel \<Rightarrow> ('h, 'd) kernel result" where
  "Yield k =
     (let oldLevel = level (intr k);
          k1 = push (RestoreLevel oldLevel) (ChangeLevel IntOff k)
      in case FindNextToRun k1 of
           (None, k2) \<Rightarrow> Inr k2
         | (Some nextThread, k2) \<Rightarrow>
             bind_result (ReadyToRun (currentThread k2) k2) (Run nextThread))"

definition Sleep :: "('h, 'd) kernel \<Rightarrow> ('h, 'd) kernel result" where
  "Sleep k =
     bind_result (ASSERT (level (intr k) = IntOff))
       (\<lambda>_. Inr (push SleepLoop (setStatus (currentThread k) BLOCKED k)))"

text \<open>One round of the loop of \<open>Sleep\<close>, with \<open>SleepLoop\<close> the current frame.\<close>

definition Sleep_round :: "('h, 'd) calls \<Rightarrow> ('h, 'd) kernel \<Rightarrow> ('h, 'd) kernel result" where
  "Sleep_round call k =
     (case FindNextToRun k of
        (None, k1) \<Rightarrow> Idle call k1
      | (Some nextThread, k1) \<Rightarrow> Run nextThread (pop k1))"

definition Finish :: "('h, 'd) kernel \<Rightarrow> ('h, 'd) kernel result" where
  "Finish k =
     (let k1 = ChangeLevel IntOff k
      in Sleep (k1\<lparr>threadToBeDestroyed := Some (currentThread k1)\<rparr>))"

section \<open>Ticks and interrupt levels\<close>

definition OneTick :: "('h, 'd) calls \<Rightarrow> ('h, 'd) kernel \<Rightarrow> ('h, 'd) kernel result" where
  "OneTick call k =
     (let old = status (intr k);
          k1 = ChangeLevel IntOff (advance_clock k)
      in bind_result (fire_due call k1) (\<lambda>k2.
           let k3 = ChangeLevel IntOn k2
           in if yieldOnReturn (intr k3)
              then Yield (push (TickDone old)
                     (upd_intr (\<lambda>i. i\<lparr>yieldOnReturn := False, status := SystemMode\<rparr>) k3))
              else Inr k3))"

definition SetLevel :: "('h, 'd) calls \<Rightarrow> IntStatus \<Rightarrow> ('h, 'd) kernel \<Rightarrow> ('h, 'd) kernel result" where
  "SetLevel call l k =
     (let old = level (intr k)
      in bind_result (ASSERT (l = IntOff \<or> \<not> inHandler (intr k))) (\<lambda>_.
           let k1 = ChangeLevel l k
           in if l = IntOn \<and> old = IntOff then OneTick call k1 else Inr k1))"

lemma SetLevel_IntOff: "SetLevel call IntOff k = Inr (ChangeLevel IntOff k)"
  by (simp add: SetLevel_def)

section \<open>Creating threads\<close>

definition Thread_ctor :: "string \<Rightarrow> Thread" where
  "Thread_ctor debugName =
     \<lparr>name = debugName, stack = None, tstatus = JUST_CREATED, frames = []\<rparr>"

text \<open>\<open>new Thread\<close>: the allocator returns a pointer \<open>t\<close> to no existing thread.\<close>

definition new_Thread :: "tid \<Rightarrow> string \<Rightarrow> ('h, 'd) kernel \<Rightarrow> ('h, 'd) kernel" where
  "new_Thread t debugName k = k\<lparr>threads := (threads k)(t \<mapsto> Thread_ctor debugName)\<rparr>"

text \<open>
  \<open>StackAllocate\<close> sets the fencepost and the initial frame: \<open>ThreadRoot\<close> enables
  interrupts, calls the forked procedure and then \<open>Finish\<close>.
\<close>

definition StackAllocate :: "tid \<Rightarrow> ('h, 'd) kernel \<Rightarrow> ('h, 'd) kernel" where
  "StackAllocate t k =
     upd_thread t (\<lambda>th. th\<lparr>stack := Some STACK_FENCEPOST,
                          frames := [InterruptEnable, ThreadBody, ThreadFinish]\<rparr>) k"

definition Fork :: "('h, 'd) calls \<Rightarrow> tid \<Rightarrow> ('h, 'd) kernel \<Rightarrow> ('h, 'd) kernel result" where
  "Fork call t k =
     (let k1 = StackAllocate t k; oldLevel = level (intr k1)
      in bind_result (ReadyToRun t (ChangeLevel IntOff k1)) (SetLevel call oldLevel))"

section \<open>What the operations change\<close>

lemma ChangeLevel_simps [simp]:
  "level (intr (ChangeLevel l k)) = l" "pending (intr (ChangeLevel l k)) = pending (intr k)"
  "inHandler (intr (ChangeLevel l k)) = inHandler (intr k)"
  "yieldOnReturn (intr (ChangeLevel l k)) = yieldOnReturn (intr k)"
  "status (intr (ChangeLevel l k)) = status (intr k)"
  "stats (ChangeLevel l k) = stats k" "currentThread (ChangeLevel l k) = currentThread k"
  "threadToBeDestroyed (ChangeLevel l k) = threadToBeDestroyed k"
  "readyList (ChangeLevel l k) = readyList k" "threads (ChangeLevel l k) = threads k"
  "semaphores (ChangeLevel l k) = semaphores k" "locks (ChangeLevel l k) = locks k"
  "conditions (ChangeLevel l k) = conditions k" "devs (ChangeLevel l k) = devs k"
  "frames_of (ChangeLevel l k) = frames_of k" "status_of (ChangeLevel l k) = status_of k"
  by (simp_all add: ChangeLevel_def frames_of_def status_of_def fun_eq_iff)

lemma ChangeLevel_twice [simp]: "ChangeLevel a (ChangeLevel b k) = ChangeLevel a k"
  by (simp add: ChangeLevel_def)

lemma setStatus_simps [simp]:
  "intr (setStatus t st k) = intr k" "stats (setStatus t st k) = stats k"
  "currentThread (setStatus t st k) = currentThread k"
  "threadToBeDestroyed (setStatus t st k) = threadToBeDestroyed k"
  "readyList (setStatus t st k) = readyList k" "semaphores (setStatus t st k) = semaphores k"
  "locks (setStatus t st k) = locks k" "conditions (setStatus t st k) = conditions k"
  "devs (setStatus t st k) = devs k"
  "threads (setStatus t st k) u = None \<longleftrightarrow> threads k u = None"
  "frames_of (setStatus t st k) = frames_of k"
  "status_of (setStatus t st k) =
     (status_of k)(t := if threads k t = None then None else Some st)"
  by (auto simp: setStatus_def frames_of_def status_of_def fun_eq_iff split: option.splits)

text \<open>
  The scheduler's rule is first in, first out: the thread made ready last runs after those
  that were ready before, and \<open>FindNextToRun\<close> takes the one that has waited longest.
\<close>

lemma FindNextToRun_fifo:
  "readyList k = t # ts \<Longrightarrow> FindNextToRun k = (Some t, k\<lparr>readyList := ts\<rparr>)"
  "readyList k = [] \<Longrightarrow> FindNextToRun k = (None, k)"
  by (simp_all add: FindNextToRun_def)

lemma ReadyToRun_eq_Inr:
  "ReadyToRun t k = Inr k' \<longleftrightarrow>
     threads k t \<noteq> None \<and> k' = (setStatus t READY k)\<lparr>readyList := readyList k @ [t]\<rparr>"
  by (auto simp: ReadyToRun_def Let_def)

lemma Run_eq_Inr:
  "Run n k = Inr k' \<longleftrightarrow> CheckOverflow (currentThread k) k = Inr () \<and> threads k n \<noteq> None \<and>
     k' = setStatus n RUNNING ((push AfterRun k)\<lparr>currentThread := n\<rparr>)"
  by (auto simp: Run_def result_simps)

end
