(* ===== verification/Synch.thy ===== *)
theory Synch
  imports Threads
begin

text \<open>
  The synchronization routines of \<open>threads/synch.cc\<close>: semaphores, locks and condition
  variables. A routine that ends by restoring the interrupt level without having slept does so
  at once; one that sleeps leaves the rest of its work in the frames of the thread. Calls of
  the routines made with interrupts already off (from a handler, or of \<open>Release\<close> in \<open>Wait\<close>)
  never tick, by \<open>SetLevel_IntOff\<close>.

  \<open>exec_frame\<close> continues the current thread at its top frame and \<open>step\<close> is one step of the
  whole kernel: a frame is executed or, in the body of a thread, the thread calls one of the
  kernel's routines, whichever it likes. The theory \<open>Kernel_Run\<close> has the invariant.
\<close>

section \<open>Semaphores\<close>

definition Semaphore_ctor :: "int \<Rightarrow> Semaphore" where
  "Semaphore_ctor initialValue = \<lparr>sem_value = initialValue, sem_queue = []\<rparr>"

definition upd_sem :: "sid \<Rightarrow> (Semaphore \<Rightarrow> Semaphore) \<Rightarrow> ('h, 'd) kernel \<Rightarrow> ('h, 'd) kernel" where
  "upd_sem s f k = k\<lparr>semaphores := (semaphores k)(s := f (semaphores k s))\<rparr>"

definition P :: "sid \<Rightarrow> ('h, 'd) kernel \<Rightarrow> ('h, 'd) kernel result" where
  "P s k =
     (let oldLevel = level (intr k)
      in Inr (push (P_loop s) (push (RestoreLevel oldLevel) (ChangeLevel IntOff k))))"

text \<open>The test of the loop of \<open>P\<close>, with its body or with the decrement behind the loop.\<close>

definition P_round :: "sid \<Rightarrow> ('h, 'd) kernel \<Rightarrow> ('h, 'd) kernel result" where
  "P_round s k =
     (if sem_value (semaphores k s) = 0
      then Sleep (push (P_loop s)
             (upd_sem s (\<lambda>sem. sem\<lparr>sem_queue := sem_queue sem @ [currentThread k]\<rparr>) k))
      else Inr (upd_sem s (\<lambda>sem. sem\<lparr>sem_value := sem_value sem - 1\<rparr>) k))"

definition V :: "('h, 'd) calls \<Rightarrow> sid \<Rightarrow> ('h, 'd) kernel \<Rightarrow> ('h, 'd) kernel result" where
  "V call s k =
     (let oldLevel = level (intr k); k1 = ChangeLevel IntOff k
      in bind_result
           (case sem_queue (semaphores k1 s) of
              [] \<Rightarrow> Inr k1
            | thread # rest \<Rightarrow>
                ReadyToRun thread (upd_sem s (\<lambda>sem. sem\<lparr>sem_queue := rest\<rparr>) k1))
           (\<lambda>k2. SetLevel call oldLevel
              (upd_sem s (\<lambda>sem. sem\<lparr>sem_value := sem_value sem + 1\<rparr>) k2)))"

section \<open>Locks\<close>

text \<open>The constructor leaves \<open>owner\<close> uninitialised: it is whatever the memory held.\<close>

definition Lock_ctor :: "tid option \<Rightarrow> Lock" where
  "Lock_ctor garbage = \<lparr>acquired = False, owner = garbage, lock_queue = []\<rparr>"

definition upd_lock :: "lid \<Rightarrow> (Lock \<Rightarrow> Lock) \<Rightarrow> ('h, 'd) kernel \<Rightarrow> ('h, 'd) kernel" where
  "upd_lock l f k = k\<lparr>locks := (locks k)(l := f (locks k l))\<rparr>"

definition isHeldByCurrentThread :: "lid \<Rightarrow> ('h, 'd) kernel \<Rightarrow> bool" where
  "isHeldByCurrentThread l k \<longleftrightarrow> owner (locks k l) = Some (currentThread k)"

definition Acquire :: "('h, 'd) calls \<Rightarrow> lid \<Rightarrow> ('h, 'd) kernel \<Rightarrow> ('h, 'd) kernel result" where
  "Acquire call l k =
     (let oldLevel = level (intr k); k1 = ChangeLevel IntOff k
      in if isHeldByCurrentThread l k1 then SetLevel call oldLevel k1
         else if acquired (locks k1 l)
         then Sleep (push (RestoreLevel oldLevel)
                (upd_lock l (\<lambda>lk. lk\<lparr>lock_queue := lock_queue lk @ [currentThread k1]\<rparr>) k1))
         else SetLevel call oldLevel
                (upd_lock l (\<lambda>lk. lk\<lparr>owner := Some (currentThread k1), acquired := True\<rparr>) k1))"

definition Release :: "('h, 'd) calls \<Rightarrow> lid \<Rightarrow> ('h, 'd) kernel \<Rightarrow> ('h, 'd) kernel result" where
  "Release call l k =
     (let oldLevel = level (intr k);
          k1 = ChangeLevel IntOff k;
          k2 = (if isHeldByCurrentThread l k1
                then upd_lock l (\<lambda>lk. lk\<lparr>acquired := False, owner := None\<rparr>) k1
                else k1)
      in bind_result
           (case lock_queue (locks k2 l) of
              [] \<Rightarrow> Inr k2
            | thread # rest \<Rightarrow>
                ReadyToRun thread (upd_lock l (\<lambda>lk. lk\<lparr>lock_queue := rest\<rparr>) k2))
           (SetLevel call oldLevel))"

section \<open>Condition variables\<close>

text \<open>The constructor leaves \<open>waitingLock\<close> uninitialised.\<close>

definition Condition_ctor :: "lid option \<Rightarrow> Condition" where
  "Condition_ctor garbage = \<lparr>waitQueue = [], waitingLock = garbage\<rparr>"

definition upd_cond :: "cid \<Rightarrow> (Condition \<Rightarrow> Condition) \<Rightarrow> ('h, 'd) kernel \<Rightarrow> ('h, 'd) kernel" where
  "upd_cond c f k = k\<lparr>conditions := (conditions k)(c := f (conditions k c))\<rparr>"

definition Wait :: "('h, 'd) calls \<Rightarrow> cid \<Rightarrow> lid option \<Rightarrow> ('h, 'd) kernel \<Rightarrow> ('h, 'd) kernel result" where
  "Wait call c conditionLock k =
     (let oldLevel = level (intr k); k1 = ChangeLevel IntOff k
      in case conditionLock of
           None \<Rightarrow> SetLevel call oldLevel k1
         | Some l \<Rightarrow>
             if waitingLock (conditions k1 c) \<noteq> Some l \<and> waitingLock (conditions k1 c) \<noteq> None
             then SetLevel call oldLevel k1
             else bind_result
                    (Release call l (upd_cond c (\<lambda>cv. cv\<lparr>waitingLock := Some l\<rparr>) k1))
                    (\<lambda>k2. Sleep (push (Wait_Acquire l) (push (RestoreLevel oldLevel)
                       (upd_cond c (\<lambda>cv. cv\<lparr>waitQueue := waitQueue cv @ [currentThread k2]\<rparr>) k2)))))"

definition Signal :: "('h, 'd) calls \<Rightarrow> cid \<Rightarrow> lid option \<Rightarrow> ('h, 'd) kernel \<Rightarrow> ('h, 'd) kernel result" where
  "Signal call c conditionLock k =
     (let oldLevel = level (intr k); k1 = ChangeLevel IntOff k
      in case waitQueue (conditions k1 c) of
           [] \<Rightarrow> SetLevel call oldLevel k1
         | thread # rest \<Rightarrow>
             if waitingLock (conditions k1 c) \<noteq> conditionLock then SetLevel call oldLevel k1
             else bind_result
                    (ReadyToRun thread (upd_cond c (\<lambda>cv. cv\<lparr>waitQueue := rest\<rparr>) k1))
                    (SetLevel call oldLevel))"

text \<open>The loop of \<open>Broadcast\<close> over the threads on the wait queue.\<close>

fun Broadcast_loop :: "tid list \<Rightarrow> cid \<Rightarrow> ('h, 'd) kernel \<Rightarrow> ('h, 'd) kernel result" where
  "Broadcast_loop [] c k = Inr k"
| "Broadcast_loop (thread # rest) c k =
     bind_result (ReadyToRun thread (upd_cond c (\<lambda>cv. cv\<lparr>waitQueue := rest\<rparr>) k))
       (Broadcast_loop rest c)"

definition Broadcast :: "('h, 'd) calls \<Rightarrow> cid \<Rightarrow> lid option \<Rightarrow> ('h, 'd) kernel \<Rightarrow> ('h, 'd) kernel result" where
  "Broadcast call c conditionLock k =
     (let oldLevel = level (intr k); k1 = ChangeLevel IntOff k
      in bind_result (Broadcast_loop (waitQueue (conditions k1 c)) c k1) (SetLevel call oldLevel))"

section \<open>Steps of the kernel\<close>

text \<open>The current thread continues at its top frame.\<close>

definition exec_frame :: "('h, 'd) calls \<Rightarrow> frame \<Rightarrow> ('h, 'd) kernel \<Rightarrow> ('h, 'd) kernel result" where
  "exec_frame call f k =
     (case f of
        AfterRun \<Rightarrow> Run_resume (pop k)
      | RestoreLevel l \<Rightarrow> SetLevel call l (pop k)
      | TickDone st \<Rightarrow> Inr (upd_intr (\<lambda>i. i\<lparr>status := st\<rparr>) (pop k))
      | SleepLoop \<Rightarrow> Sleep_round call k
      | P_loop s \<Rightarrow> P_round s (pop k)
      | Wait_Acquire l \<Rightarrow> Acquire call l (pop k)
      | InterruptEnable \<Rightarrow> SetLevel call IntOn (pop k)
      | ThreadBody \<Rightarrow> Inr (pop k)
      | ThreadFinish \<Rightarrow> Finish (pop k))"

text \<open>What the body of a thread may ask of the kernel; \<open>None\<close> is its return.\<close>

datatype request = Do_P sid | Do_V sid | Do_Acquire lid | Do_Release lid
  | Do_Wait cid "lid option" | Do_Signal cid "lid option" | Do_Broadcast cid "lid option"
  | Do_Yield | Do_new_Thread tid string | Do_Fork tid

fun perform :: "('h, 'd) calls \<Rightarrow> request \<Rightarrow> ('h, 'd) kernel \<Rightarrow> ('h, 'd) kernel result" where
  "perform call (Do_P s) k = P s k"
| "perform call (Do_V s) k = V call s k"
| "perform call (Do_Acquire l) k = Acquire call l k"
| "perform call (Do_Release l) k = Release call l k"
| "perform call (Do_Wait c l) k = Wait call c l k"
| "perform call (Do_Signal c l) k = Signal call c l k"
| "perform call (Do_Broadcast c l) k = Broadcast call c l k"
| "perform call Do_Yield k = Yield k"
| "perform call (Do_new_Thread t n) k = Inr (new_Thread t n k)"
| "perform call (Do_Fork t) k = Fork call t k"

definition step :: "('h, 'd) calls \<Rightarrow> request option \<Rightarrow> ('h, 'd) kernel \<Rightarrow> ('h, 'd) kernel result" where
  "step call r k =
     (case frames_of k (currentThread k) of
        [] \<Rightarrow> Inl UNDEFINED
      | f # _ \<Rightarrow> (case (f, r) of (ThreadBody, Some q) \<Rightarrow> perform call q k | _ \<Rightarrow> exec_frame call f k))"

text \<open>
  What the callers of the kernel have to observe: \<open>new\<close> returns memory that no live object
  uses, and \<open>Fork\<close> is called once on a thread, after its construction (\<open>thread.h\<close>).
\<close>

fun allowed :: "request option \<Rightarrow> ('h, 'd) kernel \<Rightarrow> bool" where
  "allowed (Some (Do_new_Thread t n)) k \<longleftrightarrow> threads k t = None"
| "allowed (Some (Do_Fork t)) k \<longleftrightarrow> status_of k t = Some JUST_CREATED"
| "allowed _ k \<longleftrightarrow> True"

text \<open>The kernel as \<open>Initialize\<close> of \<open>threads/system.cc\<close> leaves it: the main thread runs.\<close>

definition boot :: "(sid \<Rightarrow> int) \<Rightarrow> (lid \<Rightarrow> tid option) \<Rightarrow> (cid \<Rightarrow> lid option) \<Rightarrow> 'd \<Rightarrow> ('h, 'd) kernel" where
  "boot values owners waiting d =
     \<lparr>intr = Interrupt_ctor, stats = Statistics_ctor, currentThread = 0,
      threadToBeDestroyed = None, readyList = [],
      threads = [0 \<mapsto> \<lparr>name = ''main'', stack = None, tstatus = RUNNING,
                      frames = [InterruptEnable, ThreadBody, ThreadFinish]\<rparr>],
      semaphores = (\<lambda>s. Semaphore_ctor (values s)), locks = (\<lambda>l. Lock_ctor (owners l)),
      conditions = (\<lambda>c. Condition_ctor (waiting c)), randCount = 0, devs = d\<rparr>"

text \<open>States the kernel reaches, whatever the threads ask for.\<close>

inductive reachable :: "('h, 'd) calls \<Rightarrow> ('h, 'd) kernel \<Rightarrow> ('h, 'd) kernel \<Rightarrow> bool"
  for call k0 where
  reachable_init: "reachable call k0 k0"
| reachable_step: "reachable call k0 k \<Longrightarrow> allowed r k \<Longrightarrow> step call r k = Inr k' \<Longrightarrow> reachable call k0 k'"

lemma upd_sync_simps [simp]:
  "intr (upd_sem s f k) = intr k" "stats (upd_sem s f k) = stats k"
  "currentThread (upd_sem s f k) = currentThread k"
  "threadToBeDestroyed (upd_sem s f k) = threadToBeDestroyed k"
  "readyList (upd_sem s f k) = readyList k" "threads (upd_sem s f k) = threads k"
  "semaphores (upd_sem s f k) = (semaphores k)(s := f (semaphores k s))"
  "locks (upd_sem s f k) = locks k" "conditions (upd_sem s f k) = conditions k"
  "frames_of (upd_sem s f k) = frames_of k" "status_of (upd_sem s f k) = status_of k"
  "intr (upd_lock l g k) = intr k" "stats (upd_lock l g k) = stats k"
  "currentThread (upd_lock l g k) = currentThread k"
  "threadToBeDestroyed (upd_lock l g k) = threadToBeDestroyed k"
  "readyList (upd_lock l g k) = readyList k" "threads (upd_lock l g k) = threads k"
  "semaphores (upd_lock l g k) = semaphores k"
  "locks (upd_lock l g k) = (locks k)(l := g (locks k l))"
  "conditions (upd_lock l g k) = conditions k"
  "frames_of (upd_lock l g k) = frames_of k" "status_of (upd_lock l g k) = status_of k"
  "intr (upd_cond c h k) = intr k" "stats (upd_cond c h k) = stats k"
  "currentThread (upd_cond c h k) = currentThread k"
  "threadToBeDestroyed (upd_cond c h k) = threadToBeDestroyed k"
  "readyList (upd_cond c h k) = readyList k" "threads (upd_cond c h k) = threads k"
  "semaphores (upd_cond c h k) = semaphores k" "locks (upd_cond c h k) = locks k"
  "conditions (upd_cond c h k) = (conditions k)(c := h (conditions k c))"
  "frames_of (upd_cond c h k) = frames_of k" "status_of (upd_cond c h k) = status_of k"
  by (simp_all add: upd_sem_def upd_lock_def upd_cond_def frames_of_def status_of_def fun_eq_iff)

end
