(* ===== verification/Kernel_Run.thy ===== *)
theory Kernel_Run
  imports Synch
begin

text \<open>
  The invariant of the running kernel and the proof that every step keeps it. It says that a
  thread is on at most one queue of the kernel and once only, that its status and its frames
  are those of a thread on that queue, that the frames of a thread fit the interrupt level at
  which they run, that semaphore values are never negative and that no wake-up of a semaphore
  is lost. It implies that the kernel never runs into a failed assertion or a dangling
  pointer: a step either succeeds or halts the machine.

  The locale \<open>kernel_calls\<close> is the interface between the kernel and the devices: what the
  kernel relies on when it lets a handler run. The theory \<open>Devices\<close> interprets it on the
  handlers of the machine's devices.
\<close>

section \<open>The invariant\<close>

datatype qname = ReadyQ | SemQ sid | LockQ lid | CondQ cid

fun queue :: "('h, 'd) kernel \<Rightarrow> qname \<Rightarrow> tid list" where
  "queue k ReadyQ = readyList k"
| "queue k (SemQ s) = sem_queue (semaphores k s)"
| "queue k (LockQ l) = lock_queue (locks k l)"
| "queue k (CondQ c) = waitQueue (conditions k c)"

declare queue.simps [simp del]

text \<open>The interrupt level at which a frame runs, and the one it leaves.\<close>

fun needs :: "frame \<Rightarrow> IntStatus" where
  "needs (TickDone st) = IntOn"
| "needs ThreadBody = IntOn"
| "needs ThreadFinish = IntOn"
| "needs _ = IntOff"

fun leaves :: "frame \<Rightarrow> IntStatus" where
  "leaves (RestoreLevel l) = l"
| "leaves (TickDone st) = IntOn"
| "leaves InterruptEnable = IntOn"
| "leaves ThreadBody = IntOn"
| "leaves _ = IntOff"

fun stack_ok :: "IntStatus \<Rightarrow> frame list \<Rightarrow> bool" where
  "stack_ok l [] = False"
| "stack_ok l (f # fs) \<longleftrightarrow> needs f = l \<and> SleepLoop \<notin> set fs \<and>
     (if f = ThreadFinish then fs = [] else stack_ok (leaves f) fs)"

definition fences_ok :: "('h, 'd) kernel \<Rightarrow> bool" where
  "fences_ok k \<longleftrightarrow> (\<forall>t. map_option stack (threads k t) \<in> {None, Some None, Some (Some STACK_FENCEPOST)})"

definition queued_ok :: "('h, 'd) kernel \<Rightarrow> qname \<Rightarrow> tid \<Rightarrow> bool" where
  "queued_ok k q t \<longleftrightarrow>
     status_of k t = Some (if q = ReadyQ then READY else BLOCKED) \<and>
     stack_ok IntOff (frames_of k t) \<and> threadToBeDestroyed k \<noteq> Some t \<and>
     (hd (frames_of k t) = SleepLoop \<longleftrightarrow> t = currentThread k) \<and>
     (\<forall>s. q = SemQ s \<longrightarrow> P_loop s \<in> set (frames_of k t))"

definition queues_ok :: "('h, 'd) kernel \<Rightarrow> bool" where
  "queues_ok k \<longleftrightarrow>
     (\<forall>q. distinct (queue k q)) \<and>
     (\<forall>q q' t. t \<in> set (queue k q) \<longrightarrow> t \<in> set (queue k q') \<longrightarrow> q = q') \<and>
     (\<forall>q. \<forall>t \<in> set (queue k q). queued_ok k q t)"

text \<open>The forked threads in \<open>P\<close> of semaphore \<open>s\<close> that are not asleep on it: they will test its value.\<close>

definition woken :: "('h, 'd) kernel \<Rightarrow> sid \<Rightarrow> tid set" where
  "woken k s = {t. status_of k t \<notin> {None, Some JUST_CREATED} \<and> P_loop s \<in> set (frames_of k t) \<and> t \<notin> set (queue k (SemQ s))}"

definition sem_ok :: "('h, 'd) kernel \<Rightarrow> sid \<Rightarrow> bool" where
  "sem_ok k s \<longleftrightarrow>
     0 \<le> sem_value (semaphores k s) \<and>
     (queue k (SemQ s) \<noteq> [] \<longrightarrow> sem_value (semaphores k s) \<le> int (card (woken k s)))"

definition doomed_ok :: "('h, 'd) kernel \<Rightarrow> bool" where
  "doomed_ok k \<longleftrightarrow>
     (\<forall>t. threadToBeDestroyed k = Some t \<longrightarrow> status_of k t = Some BLOCKED \<and>
        frames_of k t = [if t = currentThread k then SleepLoop else AfterRun])"

definition current_ok :: "('h, 'd) kernel \<Rightarrow> bool" where
  "current_ok k \<longleftrightarrow>
     frames_of k (currentThread k) \<noteq> [] \<and>
     (if hd (frames_of k (currentThread k)) = SleepLoop
      then status_of k (currentThread k) \<in> {Some BLOCKED, Some READY}
      else status_of k (currentThread k) = Some RUNNING)"

definition kinv :: "('h, 'd) kernel \<Rightarrow> bool" where
  "kinv k \<longleftrightarrow> fences_ok k \<and> finite (dom (status_of k)) \<and> queues_ok k \<and> (\<forall>s. sem_ok k s) \<and>
     doomed_ok k \<and> current_ok k"

definition levels_ok :: "('h, 'd) kernel \<Rightarrow> bool" where
  "levels_ok k \<longleftrightarrow>
     pending_wf k \<and> 0 \<le> now k \<and> \<not> inHandler (intr k) \<and>
     (if threadToBeDestroyed k = Some (currentThread k) then level (intr k) = IntOff
      else stack_ok (level (intr k)) (frames_of k (currentThread k)))"

definition kernel_inv :: "('h, 'd) kernel \<Rightarrow> bool" where
  "kernel_inv k \<longleftrightarrow> kinv k \<and> levels_ok k"

lemmas kinv_defs = kinv_def queues_ok_def queued_ok_def sem_ok_def doomed_ok_def current_ok_def

section \<open>Steps on the view of the invariant\<close>

lemma queue_cong:
  "readyList k' = readyList k \<Longrightarrow> semaphores k' = semaphores k \<Longrightarrow> locks k' = locks k \<Longrightarrow>
   conditions k' = conditions k \<Longrightarrow> queue k' = queue k"
proof
  fix q assume "readyList k' = readyList k" "semaphores k' = semaphores k" "locks k' = locks k"
    "conditions k' = conditions k"
  then show "queue k' q = queue k q" by (cases q) (simp_all add: queue.simps)
qed

lemma queue_simps [simp]:
  "queue (push f k) = queue k" "queue (pop k) = queue k" "queue (ChangeLevel l k) = queue k"
  "queue (setStatus t st k) = queue k" "queue (k\<lparr>intr := i\<rparr>) = queue k"
  "queue (k\<lparr>stats := x\<rparr>) = queue k" "queue (k\<lparr>currentThread := c\<rparr>) = queue k"
  "queue (k\<lparr>threadToBeDestroyed := d\<rparr>) = queue k" "queue (k\<lparr>threads := m\<rparr>) = queue k"
  "queue (upd_thread t g k) = queue k"
  by (rule queue_cong; simp)+

lemma queue_upd [simp]:
  "queue (k\<lparr>readyList := ts\<rparr>) = (queue k)(ReadyQ := ts)"
  "queue (upd_sem s f k) = (queue k)(SemQ s := sem_queue (f (semaphores k s)))"
  "queue (upd_lock l g k) = (queue k)(LockQ l := lock_queue (g (locks k l)))"
  "queue (upd_cond c h k) = (queue k)(CondQ c := waitQueue (h (conditions k c)))"
  by (rule ext, rename_tac q, case_tac q; simp add: queue.simps)+

lemma fences_upd_thread:
  assumes "\<And>th. stack (f th) = stack th"
  shows "fences_ok (upd_thread t f k) = fences_ok k"
proof -
  have "map_option stack (threads (upd_thread t f k) u) = map_option stack (threads k u)" for u
    using assms by (simp add: option.map_comp comp_def)
  then show ?thesis by (simp only: fences_ok_def)
qed

lemma fences_simps [simp]:
  "fences_ok (push f k) = fences_ok k" "fences_ok (pop k) = fences_ok k"
  "fences_ok (setStatus t st k) = fences_ok k"
  by (simp_all add: push_def pop_def setStatus_def fences_upd_thread)

lemma fences_field_simps [simp]:
  "fences_ok (ChangeLevel l k) = fences_ok k"
  "fences_ok (upd_sem s g k) = fences_ok k" "fences_ok (upd_lock l' g' k) = fences_ok k"
  "fences_ok (upd_cond c h k) = fences_ok k" "fences_ok (k\<lparr>intr := i\<rparr>) = fences_ok k"
  "fences_ok (k\<lparr>stats := x\<rparr>) = fences_ok k" "fences_ok (k\<lparr>currentThread := c'\<rparr>) = fences_ok k"
  "fences_ok (k\<lparr>threadToBeDestroyed := d\<rparr>) = fences_ok k" "fences_ok (k\<lparr>readyList := ts\<rparr>) = fences_ok k"
  by (simp_all add: fences_ok_def)

lemma view_upd [simp]:
  "status_of (k\<lparr>intr := i\<rparr>) = status_of k" "frames_of (k\<lparr>intr := i\<rparr>) = frames_of k"
  "status_of (k\<lparr>stats := x\<rparr>) = status_of k" "frames_of (k\<lparr>stats := x\<rparr>) = frames_of k"
  "status_of (k\<lparr>currentThread := c\<rparr>) = status_of k" "frames_of (k\<lparr>currentThread := c\<rparr>) = frames_of k"
  "status_of (k\<lparr>threadToBeDestroyed := d\<rparr>) = status_of k"
  "frames_of (k\<lparr>threadToBeDestroyed := d\<rparr>) = frames_of k"
  "status_of (k\<lparr>readyList := ts\<rparr>) = status_of k" "frames_of (k\<lparr>readyList := ts\<rparr>) = frames_of k"
  by (simp_all add: status_of_def frames_of_def fun_eq_iff)

lemma kinv_intr_stats [simp]:
  "kinv (k\<lparr>intr := i\<rparr>) = kinv k" "kinv (k\<lparr>stats := x\<rparr>) = kinv k" "kinv (ChangeLevel l k) = kinv k"
  by (simp_all add: kinv_def queues_ok_def queued_ok_def sem_ok_def woken_def doomed_ok_def
      current_ok_def ChangeLevel_def)


text \<open>A running thread is on no queue and not finishing.\<close>

lemma kinv_running:
  assumes "kinv k" "hd (frames_of k (currentThread k)) \<noteq> SleepLoop"
  shows "currentThread k \<notin> set (queue k q)" "threadToBeDestroyed k \<noteq> Some (currentThread k)"
    "status_of k (currentThread k) = Some RUNNING" "frames_of k (currentThread k) \<noteq> []"
  using assms by (auto simp: kinv_defs)

lemma woken_finite: "finite (dom (status_of k)) \<Longrightarrow> finite (woken k s)"
  by (rule finite_subset [of _ "dom (status_of k)"]) (auto simp: woken_def)

lemma sem_ok_mono:
  assumes "sem_ok k s" "finite (dom (status_of k'))" "woken k s \<subseteq> woken k' s"
    "queue k' (SemQ s) \<noteq> [] \<Longrightarrow> queue k (SemQ s) \<noteq> []"
    "sem_value (semaphores k' s) = sem_value (semaphores k s)"
  shows "sem_ok k' s"
  using assms(1,4,5) card_mono [OF woken_finite [OF assms(2)] assms(3)]
  by (auto simp: sem_ok_def)

lemma queues_okI:
  assumes "\<And>q. distinct (queue k q)"
    and "\<And>q q' t. t \<in> set (queue k q) \<Longrightarrow> t \<in> set (queue k q') \<Longrightarrow> q = q'"
    and "\<And>q t. t \<in> set (queue k q) \<Longrightarrow> queued_ok k q t"
  shows "queues_ok k"
  using assms by (auto simp: queues_ok_def)

lemma kinv_queues:
  assumes "kinv k"
  shows "distinct (queue k q)"
    and "t \<in> set (queue k q) \<Longrightarrow> t \<in> set (queue k q') \<Longrightarrow> q = q'"
    and "t \<in> set (queue k q) \<Longrightarrow> queued_ok k q t"
  using assms by (auto simp: kinv_def queues_ok_def)

lemma kinv_rest:
  assumes "kinv k"
  shows "finite (dom (status_of k))" "fences_ok k" "sem_ok k s" "doomed_ok k" "current_ok k"
  using assms by (auto simp: kinv_def)

lemma kinvI:
  "queues_ok k \<Longrightarrow> (\<And>s. sem_ok k s) \<Longrightarrow> doomed_ok k \<Longrightarrow> current_ok k \<Longrightarrow> fences_ok k \<Longrightarrow>
   finite (dom (status_of k)) \<Longrightarrow> kinv k"
  by (simp add: kinv_def)

text \<open>The current thread calls or returns: only its frames change.\<close>

lemma kinv_frames:
  assumes k: "kinv k" and run: "hd (frames_of k (currentThread k)) \<noteq> SleepLoop"
    and view: "queue k' = queue k" "status_of k' = status_of k" "currentThread k' = currentThread k"
    "threadToBeDestroyed k' = threadToBeDestroyed k" "fences_ok k'"
    "\<And>s. sem_value (semaphores k' s) = sem_value (semaphores k s)"
    and fs: "frames_of k' = (frames_of k)(currentThread k := fs)" "fs \<noteq> []" "hd fs \<noteq> SleepLoop"
    "\<And>s. P_loop s \<in> set (frames_of k (currentThread k)) \<Longrightarrow> P_loop s \<in> set fs"
  shows "kinv k'"
proof (rule kinvI)
  note r = kinv_running [OF k run]
  show "queues_ok k'"
  proof (rule queues_okI)
    fix q t assume "t \<in> set (queue k' q)"
    then have t: "t \<in> set (queue k q)" by (simp add: view)
    then have "t \<noteq> currentThread k" using r(1) by blast
    then show "queued_ok k' q t" using kinv_queues(3) [OF k t] by (simp add: queued_ok_def view fs)
  qed (use kinv_queues [OF k] in \<open>auto simp: view\<close>)
  show fin: "finite (dom (status_of k'))" using kinv_rest(1) [OF k] by (simp add: view)
  show "sem_ok k' s" for s
  proof (rule sem_ok_mono [OF kinv_rest(3) [OF k] fin])
    show "woken k s \<subseteq> woken k' s" using fs(4) [of s] by (auto simp: woken_def view fs(1))
  qed (simp_all add: view)
  show "doomed_ok k'"
    using kinv_rest(4) [OF k] r(2) by (auto simp: doomed_ok_def view fs(1))
  show "current_ok k'"
    using fs(2,3) r(3) by (simp add: current_ok_def view fs(1))
qed (simp add: view)

text \<open>A waiting thread is made ready; for a semaphore its value goes up by one.\<close>

lemma kinv_wake:
  assumes k: "kinv k" and q: "queue k q = t # rest" "q \<noteq> ReadyQ"
    and view: "queue k' = (queue k)(q := rest, ReadyQ := queue k ReadyQ @ [t])"
    "status_of k' = (status_of k)(t \<mapsto> READY)" "frames_of k' = frames_of k"
    "currentThread k' = currentThread k"
    "threadToBeDestroyed k' = threadToBeDestroyed k" "fences_ok k'"
    "\<And>s. sem_value (semaphores k' s) =
            sem_value (semaphores k s) + (if q = SemQ s then 1 else 0)"
  shows "kinv k'"
proof (rule kinvI)
  have t: "t \<in> set (queue k q)" using q by simp
  have qt: "queued_ok k q t" by (rule kinv_queues(3) [OF k t])
  have t': "t \<notin> set (queue k q')" if "q' \<noteq> q" for q' using kinv_queues(2) [OF k t] that by blast
  have tr: "t \<notin> set rest" "distinct rest" using kinv_queues(1) [OF k, of q] q by auto
  have old: "u \<in> set (queue k p) \<and> u \<noteq> t \<or> u = t \<and> p = ReadyQ" if "u \<in> set (queue k' p)" for u p
    using that tr q t' by (auto simp: view split: if_splits)
  show "queues_ok k'"
  proof (rule queues_okI)
    show "distinct (queue k' p)" for p
      using kinv_queues(1) [OF k, of p] tr q t' [of ReadyQ] by (auto simp: view)
    show "p = p'" if "u \<in> set (queue k' p)" "u \<in> set (queue k' p')" for p p' u
      using old [OF that(1)] old [OF that(2)] kinv_queues(2) [OF k] by blast
    show "queued_ok k' p u" if "u \<in> set (queue k' p)" for p u
      using old [OF that] kinv_queues(3) [OF k, of u p] qt
      by (auto simp: queued_ok_def view)
  qed
  show fin: "finite (dom (status_of k'))" using kinv_rest [OF k] by (simp add: view)
  show "sem_ok k' s" for s
  proof (cases "q = SemQ s")
    case True
    have "woken k' s = insert t (woken k s)" "t \<notin> woken k s"
      using True q tr qt by (auto simp: woken_def view queued_ok_def)
    then have "card (woken k' s) = Suc (card (woken k s))"
      using woken_finite [OF kinv_rest(1) [OF k]] by simp
    then show ?thesis using kinv_rest(3) [OF k, of s] True q by (auto simp: sem_ok_def view)
  next
    case False
    have "woken k s \<subseteq> woken k' s" using False by (auto simp: woken_def view)
    then show ?thesis using False
      by (rule_tac sem_ok_mono [OF kinv_rest(3) [OF k] fin]) (simp_all add: view)
  qed
  show "doomed_ok k'"
    using kinv_rest(4) [OF k] qt by (auto simp: doomed_ok_def queued_ok_def view)
  show "current_ok k'"
    using kinv_rest(5) [OF k] qt by (auto simp: current_ok_def queued_ok_def view)
qed (simp add: view)

text \<open>The running thread goes to sleep on a queue.\<close>

lemma kinv_block:
  assumes k: "kinv k" and run: "hd (frames_of k (currentThread k)) \<noteq> SleepLoop"
    and q: "q \<noteq> ReadyQ" "\<And>s. q = SemQ s \<Longrightarrow> sem_value (semaphores k s) = 0 \<and> P_loop s \<in> set fs"
    and view: "queue k' = (queue k)(q := queue k q @ [currentThread k])"
    "status_of k' = (status_of k)(currentThread k \<mapsto> BLOCKED)" "currentThread k' = currentThread k"
    "threadToBeDestroyed k' = threadToBeDestroyed k" "fences_ok k'"
    "\<And>s. sem_value (semaphores k' s) = sem_value (semaphores k s)"
    and fs: "frames_of k' = (frames_of k)(currentThread k := SleepLoop # fs)" "stack_ok IntOff (SleepLoop # fs)"
    "\<And>s. P_loop s \<in> set (frames_of k (currentThread k)) \<Longrightarrow> P_loop s \<in> set fs"
  shows "kinv k'"
proof (rule kinvI)
  note r = kinv_running [OF k run]
  have old: "u \<in> set (queue k p) \<and> u \<noteq> currentThread k \<or> u = currentThread k \<and> p = q"
    if "u \<in> set (queue k' p)" for u p
    using that r(1) by (auto simp: view split: if_splits)
  show "queues_ok k'"
  proof (rule queues_okI)
    show "distinct (queue k' p)" for p
      using kinv_queues(1) [OF k, of p] r(1) [of p] by (auto simp: view)
    show "p = p'" if "u \<in> set (queue k' p)" "u \<in> set (queue k' p')" for p p' u
      using old [OF that(1)] old [OF that(2)] kinv_queues(2) [OF k] by blast
    show "queued_ok k' p u" if "u \<in> set (queue k' p)" for p u
      using old [OF that] kinv_queues(3) [OF k, of u p] q r(2) fs(2)
      by (auto simp: queued_ok_def view fs(1))
  qed
  show fin: "finite (dom (status_of k'))" using kinv_rest(1) [OF k] by (simp add: view)
  show "sem_ok k' s" for s
  proof (cases "q = SemQ s")
    case True
    then show ?thesis using q by (simp add: sem_ok_def view)
  next
    case False
    have "woken k s \<subseteq> woken k' s" using False fs(3) [of s] by (auto simp: woken_def view fs(1))
    then show ?thesis using False
      by (rule_tac sem_ok_mono [OF kinv_rest(3) [OF k] fin]) (simp_all add: view)
  qed
  show "doomed_ok k'"
    using kinv_rest(4) [OF k] r(2) by (auto simp: doomed_ok_def view fs(1))
  show "current_ok k'" by (simp add: current_ok_def view fs(1))
qed (simp add: view)

text \<open>The sleeping thread gives the CPU to the first thread that is ready.\<close>

lemma kinv_dispatch:
  assumes k: "kinv k" and slp: "frames_of k (currentThread k) = SleepLoop # fs"
    and n: "queue k ReadyQ = n # ts"
    and view: "queue k' = (queue k)(ReadyQ := ts)" "status_of k' = (status_of k)(n \<mapsto> RUNNING)"
    "currentThread k' = n" "threadToBeDestroyed k' = threadToBeDestroyed k" "fences_ok k'"
    "\<And>s. sem_value (semaphores k' s) = sem_value (semaphores k s)"
    "frames_of k' = (frames_of k)(currentThread k := AfterRun # fs)"
  shows "kinv k'"
proof (rule kinvI)
  have nq: "n \<in> set (queue k ReadyQ)" using n by simp
  have qn: "queued_ok k ReadyQ n" by (rule kinv_queues(3) [OF k nq])
  have old: "u \<in> set (queue k p)" "u \<noteq> n" if "u \<in> set (queue k' p)" for u p
    using that n kinv_queues(1) [OF k, of ReadyQ] kinv_queues(2) [OF k nq, of p]
    by (auto simp: view split: if_splits)
  show "queues_ok k'"
  proof (rule queues_okI)
    show "distinct (queue k' p)" for p
      using kinv_queues(1) [OF k, of p] n by (auto simp: view)
    show "p = p'" if "u \<in> set (queue k' p)" "u \<in> set (queue k' p')" for p p' u
      using old [OF that(1)] old [OF that(2)] kinv_queues(2) [OF k] by blast
    show "queued_ok k' p u" if "u \<in> set (queue k' p)" for p u
      using old [OF that] kinv_queues(3) [OF k, of u p] slp by (auto simp: queued_ok_def view)
  qed
  show fin: "finite (dom (status_of k'))" using kinv_rest(1) [OF k] by (simp add: view)
  show "sem_ok k' s" for s
  proof (rule sem_ok_mono [OF kinv_rest(3) [OF k] fin])
    show "woken k s \<subseteq> woken k' s" using slp by (auto simp: woken_def view)
  qed (simp_all add: view)
  show "doomed_ok k'"
    using kinv_rest(4) [OF k] qn slp by (auto simp: doomed_ok_def queued_ok_def view)
  have "frames_of k n \<noteq> []" using qn by (auto simp: queued_ok_def)
  then show "current_ok k'" using qn by (auto simp: current_ok_def queued_ok_def view)
qed (simp add: view)

text \<open>The running thread gives the CPU to the first thread that is ready and stays ready.\<close>

lemma kinv_yield:
  assumes k: "kinv k" and run: "hd (frames_of k (currentThread k)) \<noteq> SleepLoop"
    and n: "queue k ReadyQ = n # ts"
    and view: "queue k' = (queue k)(ReadyQ := ts @ [currentThread k])"
    "status_of k' = (status_of k)(currentThread k \<mapsto> READY, n \<mapsto> RUNNING)"
    "currentThread k' = n" "threadToBeDestroyed k' = threadToBeDestroyed k" "fences_ok k'"
    "\<And>s. sem_value (semaphores k' s) = sem_value (semaphores k s)"
    and fs: "frames_of k' = (frames_of k)(currentThread k := AfterRun # fs)" "stack_ok IntOff (AfterRun # fs)"
    "\<And>s. P_loop s \<in> set (frames_of k (currentThread k)) \<Longrightarrow> P_loop s \<in> set fs"
  shows "kinv k'"
proof (rule kinvI)
  note r = kinv_running [OF k run]
  have nq: "n \<in> set (queue k ReadyQ)" using n by simp
  then have nc: "n \<noteq> currentThread k" using r(1) by blast
  have qn: "queued_ok k ReadyQ n" by (rule kinv_queues(3) [OF k nq])
  have old: "u \<in> set (queue k p) \<and> u \<noteq> n \<and> u \<noteq> currentThread k \<or> u = currentThread k \<and> p = ReadyQ"
    if "u \<in> set (queue k' p)" for u p
    using that n r(1) kinv_queues(1) [OF k, of ReadyQ] kinv_queues(2) [OF k nq, of p]
    by (auto simp: view split: if_splits)
  show "queues_ok k'"
  proof (rule queues_okI)
    show "distinct (queue k' p)" for p
      using kinv_queues(1) [OF k, of p] n r(1) [of ReadyQ] by (auto simp: view)
    show "p = p'" if "u \<in> set (queue k' p)" "u \<in> set (queue k' p')" for p p' u
      using old [OF that(1)] old [OF that(2)] kinv_queues(2) [OF k] by blast
    show "queued_ok k' p u" if "u \<in> set (queue k' p)" for p u
      using old [OF that] kinv_queues(3) [OF k, of u p] r(2) nc fs(2)
      by (auto simp: queued_ok_def view fs(1))
  qed
  show fin: "finite (dom (status_of k'))" using kinv_rest(1) [OF k] by (simp add: view)
  show "sem_ok k' s" for s
  proof (rule sem_ok_mono [OF kinv_rest(3) [OF k] fin])
    show "woken k s \<subseteq> woken k' s" using fs(3) [of s] by (auto simp: woken_def view fs(1))
  qed (simp_all add: view)
  show "doomed_ok k'"
    using kinv_rest(4) [OF k] qn r(2) by (auto simp: doomed_ok_def queued_ok_def view fs(1))
  have "frames_of k n \<noteq> []" using qn by (auto simp: queued_ok_def)
  then show "current_ok k'" using qn nc by (auto simp: current_ok_def queued_ok_def view fs(1))
qed (simp add: view)

text \<open>The running thread finishes.\<close>

lemma kinv_finish:
  assumes k: "kinv k" and run: "frames_of k (currentThread k) = [ThreadFinish]"
    and view: "queue k' = queue k" "status_of k' = (status_of k)(currentThread k \<mapsto> BLOCKED)"
    "currentThread k' = currentThread k" "threadToBeDestroyed k' = Some (currentThread k)"
    "fences_ok k'" "\<And>s. sem_value (semaphores k' s) = sem_value (semaphores k s)"
    "frames_of k' = (frames_of k)(currentThread k := [SleepLoop])"
  shows "kinv k'"
proof (rule kinvI)
  have "hd (frames_of k (currentThread k)) \<noteq> SleepLoop" by (simp add: run)
  note r = kinv_running [OF k this]
  show "queues_ok k'"
  proof (rule queues_okI)
    fix q t assume "t \<in> set (queue k' q)"
    then have t: "t \<in> set (queue k q)" by (simp add: view)
    then have "t \<noteq> currentThread k" using r(1) by blast
    then show "queued_ok k' q t" using kinv_queues(3) [OF k t] by (simp add: queued_ok_def view)
  qed (use kinv_queues [OF k] in \<open>auto simp: view\<close>)
  show fin: "finite (dom (status_of k'))" using kinv_rest(1) [OF k] by (simp add: view)
  show "sem_ok k' s" for s
  proof (rule sem_ok_mono [OF kinv_rest(3) [OF k] fin])
    show "woken k s \<subseteq> woken k' s" using run by (auto simp: woken_def view)
  qed (simp_all add: view)
qed (auto simp: doomed_ok_def current_ok_def view)

text \<open>The thread that has finished is deleted.\<close>

lemma kinv_delete:
  assumes k: "kinv k" and d: "threadToBeDestroyed k = Some t" "t \<noteq> currentThread k"
    and view: "queue k' = queue k" "status_of k' = (status_of k)(t := None)"
    "currentThread k' = currentThread k" "threadToBeDestroyed k' = None"
    "fences_ok k'" "\<And>s. sem_value (semaphores k' s) = sem_value (semaphores k s)"
    "frames_of k' = (frames_of k)(t := [])"
  shows "kinv k'"
proof (rule kinvI)
  have f: "frames_of k t = [AfterRun]" using kinv_rest(4) [OF k] d by (auto simp: doomed_ok_def)
  show "queues_ok k'"
  proof (rule queues_okI)
    fix q u assume "u \<in> set (queue k' q)"
    then have u: "u \<in> set (queue k q)" by (simp add: view)
    then show "queued_ok k' q u" using kinv_queues(3) [OF k u] d by (auto simp: queued_ok_def view)
  qed (use kinv_queues [OF k] in \<open>auto simp: view\<close>)
  show fin: "finite (dom (status_of k'))"
    using kinv_rest(1) [OF k] by (rule rev_finite_subset) (auto simp: view)
  show "sem_ok k' s" for s
  proof (rule sem_ok_mono [OF kinv_rest(3) [OF k] fin])
    show "woken k s \<subseteq> woken k' s" using f by (auto simp: woken_def view)
  qed (simp_all add: view)
  show "current_ok k'" using kinv_rest(5) [OF k] d by (auto simp: current_ok_def view)
qed (auto simp: doomed_ok_def view)

text \<open>A new thread is created; later it is forked.\<close>

lemma kinv_new:
  assumes k: "kinv k" and t: "status_of k t = None"
    and view: "queue k' = queue k" "status_of k' = (status_of k)(t \<mapsto> JUST_CREATED)"
    "currentThread k' = currentThread k" "threadToBeDestroyed k' = threadToBeDestroyed k"
    "fences_ok k'" "\<And>s. sem_value (semaphores k' s) = sem_value (semaphores k s)"
    "frames_of k' = frames_of k"
  shows "kinv k'"
proof (rule kinvI)
  show "queues_ok k'"
  proof (rule queues_okI)
    fix q u assume "u \<in> set (queue k' q)"
    then have u: "u \<in> set (queue k q)" by (simp add: view)
    then show "queued_ok k' q u" using kinv_queues(3) [OF k u] t by (auto simp: queued_ok_def view)
  qed (use kinv_queues [OF k] in \<open>auto simp: view\<close>)
  show fin: "finite (dom (status_of k'))" using kinv_rest(1) [OF k] by (simp add: view)
  show "sem_ok k' s" for s
  proof (rule sem_ok_mono [OF kinv_rest(3) [OF k] fin])
    show "woken k s \<subseteq> woken k' s" using t by (auto simp: woken_def view)
  qed (simp_all add: view)
  show "current_ok k'" using kinv_rest(5) [OF k] t by (auto simp: current_ok_def view split: if_splits)
  show "doomed_ok k'" using kinv_rest(4) [OF k] t by (auto simp: doomed_ok_def view)
qed (simp add: view)

lemma kinv_fork:
  assumes k: "kinv k" and t: "status_of k t = Some JUST_CREATED"
    and view: "queue k' = (queue k)(ReadyQ := queue k ReadyQ @ [t])"
    "status_of k' = (status_of k)(t \<mapsto> READY)"
    "currentThread k' = currentThread k" "threadToBeDestroyed k' = threadToBeDestroyed k"
    "fences_ok k'" "\<And>s. sem_value (semaphores k' s) = sem_value (semaphores k s)"
    and fs: "frames_of k' = (frames_of k)(t := fs)" "stack_ok IntOff fs" "hd fs \<noteq> SleepLoop"
  shows "kinv k'"
proof (rule kinvI)
  have tq: "t \<notin> set (queue k q)" for q using kinv_queues(3) [OF k, of t q] t by (auto simp: queued_ok_def split: if_splits)
  have tc: "t \<noteq> currentThread k" using kinv_rest(5) [OF k] t by (auto simp: current_ok_def split: if_splits)
  have td: "threadToBeDestroyed k \<noteq> Some t" using kinv_rest(4) [OF k] t by (auto simp: doomed_ok_def)
  have old: "u \<in> set (queue k p) \<and> u \<noteq> t \<or> u = t \<and> p = ReadyQ" if "u \<in> set (queue k' p)" for u p
    using that tq by (auto simp: view split: if_splits)
  show "queues_ok k'"
  proof (rule queues_okI)
    show "distinct (queue k' p)" for p
      using kinv_queues(1) [OF k, of p] tq [of ReadyQ] by (auto simp: view)
    show "p = p'" if "u \<in> set (queue k' p)" "u \<in> set (queue k' p')" for p p' u
      using old [OF that(1)] old [OF that(2)] kinv_queues(2) [OF k] by blast
    show "queued_ok k' p u" if "u \<in> set (queue k' p)" for p u
      using old [OF that] kinv_queues(3) [OF k, of u p] tc td fs(2,3)
      by (auto simp: queued_ok_def view fs(1))
  qed
  show fin: "finite (dom (status_of k'))" using kinv_rest(1) [OF k] by (simp add: view)
  show "sem_ok k' s" for s
  proof (rule sem_ok_mono [OF kinv_rest(3) [OF k] fin])
    show "woken k s \<subseteq> woken k' s" using t by (auto simp: woken_def view fs(1))
  qed (simp_all add: view)
  show "current_ok k'" using kinv_rest(5) [OF k] tc by (auto simp: current_ok_def view fs(1))
  show "doomed_ok k'" using kinv_rest(4) [OF k] td by (auto simp: doomed_ok_def view fs(1))
qed (simp add: view)

text \<open>\<open>P\<close> takes one from the value of a semaphore and returns.\<close>

lemma kinv_decrement:
  assumes k: "kinv k" and run: "frames_of k (currentThread k) = P_loop s # fs"
    and fs: "fs \<noteq> []" "hd fs \<noteq> SleepLoop" and pos: "0 < sem_value (semaphores k s)"
    and view: "queue k' = queue k" "status_of k' = status_of k" "currentThread k' = currentThread k"
    "threadToBeDestroyed k' = threadToBeDestroyed k" "fences_ok k'"
    "\<And>s'. sem_value (semaphores k' s') = sem_value (semaphores k s') - (if s' = s then 1 else 0)"
    "frames_of k' = (frames_of k)(currentThread k := fs)"
  shows "kinv k'"
proof (rule kinvI)
  have "hd (frames_of k (currentThread k)) \<noteq> SleepLoop" by (simp add: run)
  note r = kinv_running [OF k this]
  show "queues_ok k'"
  proof (rule queues_okI)
    fix q t assume "t \<in> set (queue k' q)"
    then have t: "t \<in> set (queue k q)" by (simp add: view)
    then have "t \<noteq> currentThread k" using r(1) by blast
    then show "queued_ok k' q t" using kinv_queues(3) [OF k t] by (simp add: queued_ok_def view)
  qed (use kinv_queues [OF k] in \<open>auto simp: view\<close>)
  show fin: "finite (dom (status_of k'))" using kinv_rest(1) [OF k] by (simp add: view)
  show "sem_ok k' s'" for s'
  proof (cases "s' = s")
    case True
    have "woken k s \<subseteq> insert (currentThread k) (woken k' s)" by (auto simp: woken_def view)
    then have "card (woken k s) \<le> Suc (card (woken k' s))"
      using woken_finite [OF fin] by (metis card_insert_le_m1 card_insert_if card_mono finite_insert le_SucI)
    then show ?thesis using kinv_rest(3) [OF k, of s] True pos by (auto simp: sem_ok_def view)
  next
    case False
    have "woken k s' \<subseteq> woken k' s'" using False run by (auto simp: woken_def view)
    then show ?thesis using False
      by (rule_tac sem_ok_mono [OF kinv_rest(3) [OF k] fin]) (simp_all add: view)
  qed
  show "doomed_ok k'" using kinv_rest(4) [OF k] r(2) by (auto simp: doomed_ok_def view)
  show "current_ok k'" using fs r(3) by (simp add: current_ok_def view)
qed (simp add: view)

section \<open>What the atomic routines do\<close>

text \<open>
  An atomic routine runs with interrupts off and leaves the running thread where it is; what
  it does to the queues keeps the invariant.
\<close>

definition same_run :: "('h, 'd) kernel \<Rightarrow> ('h, 'd) kernel \<Rightarrow> bool" where
  "same_run k k' \<longleftrightarrow> currentThread k' = currentThread k \<and>
     threadToBeDestroyed k' = threadToBeDestroyed k \<and> frames_of k' = frames_of k"

definition atomic :: "('h, 'd) kernel \<Rightarrow> ('h, 'd) kernel \<Rightarrow> bool" where
  "atomic k k' \<longleftrightarrow> kinv k' \<and> same_run k k' \<and> intr k' = (intr k)\<lparr>level := IntOff\<rparr> \<and> stats k' = stats k"

lemma ChangeLevel_intr: "intr (ChangeLevel l k) = (intr k)\<lparr>level := l\<rparr>"
  by (simp add: ChangeLevel_def)

lemmas atomic_simps = atomic_def same_run_def ReadyToRun_def ChangeLevel_intr queue.simps Let_def

lemma kinv_values:
  assumes k: "kinv k"
    and view: "queue k' = queue k" "status_of k' = status_of k" "frames_of k' = frames_of k"
    "currentThread k' = currentThread k" "threadToBeDestroyed k' = threadToBeDestroyed k"
    "fences_ok k'" and "\<And>s. sem_ok k' s"
  shows "kinv k'"
proof (rule kinvI)
  show "queues_ok k'" using kinv_queues [OF k]
    by (intro queues_okI) (auto simp: view queued_ok_def)
  show "doomed_ok k'" using kinv_rest(4) [OF k] unfolding doomed_ok_def view .
  show "current_ok k'" using kinv_rest(5) [OF k] unfolding current_ok_def view .
qed (use assms kinv_rest(1) [OF k] in simp_all)

lemma sem_ok_cong:
  "queue k' (SemQ s) = queue k (SemQ s) \<Longrightarrow> status_of k' = status_of k \<Longrightarrow> frames_of k' = frames_of k \<Longrightarrow>
   sem_value (semaphores k' s) = sem_value (semaphores k s) \<Longrightarrow> sem_ok k' s = sem_ok k s"
  by (simp add: sem_ok_def woken_def)

lemma kinv_upd_lock:
  assumes "kinv k" "lock_queue (f (locks k l)) = lock_queue (locks k l)"
  shows "kinv (upd_lock l f k)"
proof -
  have "queue (upd_lock l f k) = queue k" using assms(2) by (auto simp: queue.simps)
  then show ?thesis using kinv_rest [OF assms(1)]
    by (intro kinv_values [OF assms(1)]) (simp_all add: sem_ok_cong [of "upd_lock l f k" _ k])
qed

lemma kinv_upd_cond:
  assumes "kinv k" "waitQueue (f (conditions k c)) = waitQueue (conditions k c)"
  shows "kinv (upd_cond c f k)"
proof -
  have "queue (upd_cond c f k) = queue k" using assms(2) by (auto simp: queue.simps)
  then show ?thesis using kinv_rest [OF assms(1)]
    by (intro kinv_values [OF assms(1)]) (simp_all add: sem_ok_cong [of "upd_cond c f k" _ k])
qed

lemma kinv_increment_empty:
  assumes "kinv k" "queue k (SemQ s) = []"
  shows "kinv (upd_sem s (\<lambda>sem. sem\<lparr>sem_value := sem_value sem + 1\<rparr>) k)" (is "kinv ?k")
proof (rule kinv_values [OF assms(1)])
  show q: "queue ?k = queue k" using assms(2) by (auto simp: queue.simps)
  show "sem_ok ?k s'" for s'
    using kinv_rest(3) [OF assms(1), of s'] assms(2) by (auto simp: sem_ok_def woken_def q [simplified])
qed (use kinv_rest [OF assms(1)] in simp_all)

lemma queued_exists: "kinv k \<Longrightarrow> t \<in> set (queue k q) \<Longrightarrow> threads k t \<noteq> None"
  using kinv_queues(3) [of k t q] by (auto simp: queued_ok_def status_of_def)

lemma V_atomic:
  assumes "kinv k"
  shows "\<exists>k2. V call s k = SetLevel call (level (intr k)) k2 \<and> atomic k k2"
proof (cases "queue k (SemQ s)")
  case Nil
  then have "kinv (upd_sem s (\<lambda>sem. sem\<lparr>sem_value := sem_value sem + 1\<rparr>) (ChangeLevel IntOff k))"
    using assms by (intro kinv_increment_empty) simp_all
  with Nil show ?thesis
    by (intro exI [of _ "upd_sem s (\<lambda>sem. sem\<lparr>sem_value := sem_value sem + 1\<rparr>) (ChangeLevel IntOff k)"])
       (simp add: V_def atomic_simps)
next
  case (Cons t rest)
  then have t: "threads k t \<noteq> None" using queued_exists [OF assms, of t "SemQ s"] by simp
  let ?k = "upd_sem s (\<lambda>sem. sem\<lparr>sem_value := sem_value sem + 1\<rparr>)
     ((setStatus t READY (upd_sem s (\<lambda>sem. sem\<lparr>sem_queue := rest\<rparr>) (ChangeLevel IntOff k)))
        \<lparr>readyList := readyList k @ [t]\<rparr>)"
  have "kinv ?k"
    by (rule kinv_wake [OF assms Cons])
       (use t kinv_rest(2) [OF assms] in \<open>auto simp: queue.simps fun_eq_iff\<close>)
  then show ?thesis using Cons t
    by (intro exI [of _ ?k]) (auto simp: V_def atomic_simps)
qed

lemma Release_atomic:
  assumes "kinv k"
  shows "\<exists>k2. Release call l k = SetLevel call (level (intr k)) k2 \<and> atomic k k2"
proof -
  let ?k0 = "ChangeLevel IntOff k"
  let ?k1 = "if isHeldByCurrentThread l ?k0
             then upd_lock l (\<lambda>lk. lk\<lparr>acquired := False, owner := None\<rparr>) ?k0 else ?k0"
  have k1: "kinv ?k1" using assms by (simp add: kinv_upd_lock)
  show ?thesis
  proof (cases "queue k (LockQ l)")
    case Nil
    with k1 show ?thesis by (intro exI [of _ ?k1]) (simp add: Release_def atomic_simps)
  next
    case (Cons t rest)
    then have t: "threads k t \<noteq> None" using queued_exists [OF assms, of t "LockQ l"] by simp
    have q: "queue ?k1 (LockQ l) = t # rest" using Cons by (simp add: queue.simps)
    let ?k = "(setStatus t READY (upd_lock l (\<lambda>lk. lk\<lparr>lock_queue := rest\<rparr>) ?k1))
        \<lparr>readyList := readyList k @ [t]\<rparr>"
    have "kinv ?k"
      by (rule kinv_wake [OF k1 q])
         (use t kinv_rest(2) [OF k1] in \<open>auto simp: queue.simps fun_eq_iff\<close>)
    then show ?thesis using Cons t
      by (intro exI [of _ ?k]) (auto simp: Release_def atomic_simps)
  qed
qed

lemma Signal_atomic:
  assumes "kinv k"
  shows "\<exists>k2. Signal call c l k = SetLevel call (level (intr k)) k2 \<and> atomic k k2"
proof (cases "queue k (CondQ c) = [] \<or> waitingLock (conditions k c) \<noteq> l")
  case True
  with assms show ?thesis
    by (intro exI [of _ "ChangeLevel IntOff k"]) (auto simp: Signal_def atomic_simps split: list.splits)
next
  case False
  then obtain t rest where q: "queue k (CondQ c) = t # rest" by (cases "queue k (CondQ c)") auto
  then have t: "threads k t \<noteq> None" using queued_exists [OF assms, of t "CondQ c"] by simp
  let ?k = "(setStatus t READY (upd_cond c (\<lambda>cv. cv\<lparr>waitQueue := rest\<rparr>) (ChangeLevel IntOff k)))
      \<lparr>readyList := readyList k @ [t]\<rparr>"
  have "kinv ?k"
    by (rule kinv_wake [OF assms q])
       (use t kinv_rest(2) [OF assms] in \<open>auto simp: queue.simps fun_eq_iff\<close>)
  then show ?thesis using q False t
    by (intro exI [of _ ?k]) (auto simp: Signal_def atomic_simps)
qed

lemma Broadcast_loop_ok:
  assumes "kinv k" "queue k (CondQ c) = ts"
  shows "\<exists>k2. Broadcast_loop ts c k = Inr k2 \<and> kinv k2 \<and> same_run k k2 \<and> intr k2 = intr k \<and> stats k2 = stats k"
  using assms
proof (induction ts arbitrary: k)
  case Nil
  then show ?case by (simp add: same_run_def)
next
  case (Cons t rest)
  then have t: "threads k t \<noteq> None" using queued_exists [OF Cons.prems(1), of t "CondQ c"] by simp
  let ?k = "(setStatus t READY (upd_cond c (\<lambda>cv. cv\<lparr>waitQueue := rest\<rparr>) k))\<lparr>readyList := readyList k @ [t]\<rparr>"
  have "kinv ?k"
    by (rule kinv_wake [OF Cons.prems])
       (use t kinv_rest(2) [OF Cons.prems(1)] in \<open>auto simp: queue.simps fun_eq_iff\<close>)
  from Cons.IH [OF this] t show ?case by (auto simp: ReadyToRun_def Let_def same_run_def)
qed

lemma Broadcast_atomic:
  assumes "kinv k"
  shows "\<exists>k2. Broadcast call c l k = SetLevel call (level (intr k)) k2 \<and> atomic k k2"
  using Broadcast_loop_ok [of "ChangeLevel IntOff k" c] assms
  by (auto simp: Broadcast_def atomic_simps)

end
