(* ===== verification/Kernel_Safety.thy ===== *)
theory Kernel_Safety
  imports Kernel_Run
begin

text \<open>
  Every step of the kernel keeps the invariant of \<open>Kernel_Run\<close> and succeeds, unless it halts
  the machine. The locale \<open>kernel_calls\<close> states what the kernel relies on when an interrupt
  handler runs on the stack of whatever thread is current: the handler returns, it keeps the
  invariant, it leaves the running thread where it is, and it only adds future interrupts.
\<close>

definition safe_at :: "tid \<Rightarrow> tid option \<Rightarrow> (tid \<Rightarrow> frame list) \<Rightarrow> ('h, 'd) kernel \<Rightarrow> bool" where
  "safe_at c d F k \<longleftrightarrow> kinv k \<and> currentThread k = c \<and> threadToBeDestroyed k = d \<and> frames_of k = F"

lemma safe_at_self: "kinv k \<Longrightarrow> safe_at (currentThread k) (threadToBeDestroyed k) (frames_of k) k"
  by (simp add: safe_at_def)

lemma safe_at_same_run:
  "safe_at (currentThread k) (threadToBeDestroyed k) (frames_of k) k' \<longleftrightarrow> kinv k' \<and> same_run k k'"
  by (auto simp: safe_at_def same_run_def)

lemma pending_wf_simps [simp]:
  "pending_wf (push f k) = pending_wf k" "pending_wf (pop k) = pending_wf k"
  "pending_wf (setStatus t st k) = pending_wf k" "pending_wf (ChangeLevel l k) = pending_wf k"
  by (simp_all add: pending_wf_def)

text \<open>A thread that runs: the invariant holds, and its frames fit the level \<open>l\<close>.\<close>

definition running :: "IntStatus \<Rightarrow> ('h, 'd) kernel \<Rightarrow> bool" where
  "running l k \<longleftrightarrow> kinv k \<and> pending_wf k \<and> 0 \<le> now k \<and> \<not> inHandler (intr k) \<and>
     hd (frames_of k (currentThread k)) \<noteq> SleepLoop \<and> stack_ok l (frames_of k (currentThread k))"

lemma running_inv: "running (level (intr k)) k \<Longrightarrow> kernel_inv k"
  using kinv_running(2) [of k] by (auto simp: running_def kernel_inv_def levels_ok_def)

lemma inv_running:
  "kernel_inv k \<Longrightarrow> hd (frames_of k (currentThread k)) \<noteq> SleepLoop \<Longrightarrow> running (level (intr k)) k"
  using kinv_running(2) [of k] by (auto simp: running_def kernel_inv_def levels_ok_def split: if_splits)

lemma running_atomic:
  "running l k \<Longrightarrow> atomic k k' \<Longrightarrow> running l k'"
  by (auto simp: running_def atomic_def same_run_def pending_wf_def)

lemma running_ChangeLevel [simp]: "running l (ChangeLevel l' k) = running l k"
  by (simp add: running_def pending_wf_def)

lemma running_intr:
  "pending i = pending (intr k) \<Longrightarrow> inHandler i = inHandler (intr k) \<Longrightarrow> running l (k\<lparr>intr := i\<rparr>) = running l k"
  by (simp add: running_def pending_wf_def)

lemma frames_of_push_fun:
  "kinv k \<Longrightarrow> hd (frames_of k (currentThread k)) \<noteq> SleepLoop \<Longrightarrow>
   frames_of (push f k) = (frames_of k)(currentThread k := f # frames_of k (currentThread k))"
  using kinv_running(3) [of k] by (auto simp: fun_eq_iff status_of_def)

lemma frames_of_pop_fun:
  "frames_of (pop k) = (frames_of k)(currentThread k := tl (frames_of k (currentThread k)))"
  by (auto simp: fun_eq_iff)

lemma running_push:
  assumes "running l k" "needs f = l'" "leaves f = l" "f \<noteq> SleepLoop" "f \<noteq> ThreadFinish"
  shows "running l' (push f k)"
proof -
  have k: "kinv k" "hd (frames_of k (currentThread k)) \<noteq> SleepLoop" using assms(1) by (auto simp: running_def)
  have s: "SleepLoop \<notin> set (frames_of k (currentThread k))"
    using assms(1) by (cases "frames_of k (currentThread k)") (auto simp: running_def)
  have "kinv (push f k)"
    by (rule kinv_frames [OF k, where fs = "f # frames_of k (currentThread k)"])
       (use assms kinv_rest(2) [OF k(1)] in \<open>simp_all add: frames_of_push_fun [OF k]\<close>)
  then show ?thesis using assms s
    by (auto simp: running_def frames_of_push_fun [OF k] pending_wf_def)
qed

text \<open>Taking the top frame off, for frames other than the loop of \<open>P\<close>.\<close>

lemma running_pop:
  assumes "running l k" "frames_of k (currentThread k) = f # fs" "f \<noteq> ThreadFinish" "\<And>s. f \<noteq> P_loop s"
  shows "running (leaves f) (pop k)"
proof -
  have k: "kinv k" "hd (frames_of k (currentThread k)) \<noteq> SleepLoop" using assms(1) by (auto simp: running_def)
  have fs: "stack_ok (leaves f) fs" "SleepLoop \<notin> set fs"
    using assms by (auto simp: running_def)
  then have ne: "fs \<noteq> []" "hd fs \<noteq> SleepLoop" by (cases fs; auto)+
  have "kinv (pop k)"
    by (rule kinv_frames [OF k, where fs = fs])
       (use assms ne kinv_rest(2) [OF k(1)] in \<open>auto simp: frames_of_pop_fun\<close>)
  then show ?thesis using assms fs ne by (auto simp: running_def pending_wf_def)
qed

lemma CheckOverflow_ok: "fences_ok k \<Longrightarrow> threads k t \<noteq> None \<Longrightarrow> CheckOverflow t k = Inr ()"
  by (drule spec [of _ t, OF iffD1 [OF fences_ok_def]])
     (auto simp: CheckOverflow_def split: option.splits)

text \<open>The thread at the head of the ready list can run with interrupts off.\<close>

lemma dispatched_levels:
  assumes "kinv k" "n \<in> set (queue k ReadyQ)" "pending_wf k'" "0 \<le> now k'" "\<not> inHandler (intr k')" "level (intr k') = IntOff"
    "currentThread k' = n" "threadToBeDestroyed k' = threadToBeDestroyed k"
    "stack_ok IntOff (frames_of k n) \<Longrightarrow> stack_ok IntOff (frames_of k' n)"
  shows "levels_ok k'"
  using assms kinv_queues(3) [OF assms(1,2)] by (auto simp: levels_ok_def queued_ok_def)

text \<open>\<open>Yield\<close> succeeds and leaves the kernel in order.\<close>

lemma Yield_ok:
  assumes "running (level (intr k)) k"
  shows "\<exists>k'. Yield k = Inr k' \<and> kernel_inv k'"
proof -
  define k1 where "k1 = push (RestoreLevel (level (intr k))) (ChangeLevel IntOff k)"
  have k1: "running IntOff k1" unfolding k1_def by (rule running_push) (use assms in simp_all)
  then have inv: "kinv k1" "hd (frames_of k1 (currentThread k1)) \<noteq> SleepLoop"
    "stack_ok IntOff (frames_of k1 (currentThread k1))"
    and lv: "level (intr k1) = IntOff" "\<not> inHandler (intr k1)" "pending_wf k1" "0 \<le> now k1"
    by (auto simp: running_def k1_def)
  have Y: "Yield k = (case FindNextToRun k1 of (None, k2) \<Rightarrow> Inr k2
      | (Some nextThread, k2) \<Rightarrow> bind_result (ReadyToRun (currentThread k2) k2) (Run nextThread))"
    by (simp only: Yield_def Let_def k1_def)
  show ?thesis
  proof (cases "readyList k1")
    case Nil
    then show ?thesis using running_inv [of k1] k1 lv by (simp add: Y FindNextToRun_def)
  next
    case (Cons n ts)
    then have q: "queue k1 ReadyQ = n # ts" by (simp add: queue.simps)
    define c where "c = currentThread k1"
    define k3 where "k3 = (setStatus c READY (k1\<lparr>readyList := ts\<rparr>))\<lparr>readyList := ts @ [c]\<rparr>"
    define k' where "k' = setStatus n RUNNING ((push AfterRun k3)\<lparr>currentThread := n\<rparr>)"
    have nq: "n \<in> set (queue k1 ReadyQ)" by (simp add: q)
    have ex: "threads k1 c \<noteq> None" "threads k1 n \<noteq> None" "n \<noteq> c"
      using kinv_running(1) [OF inv(1,2), of ReadyQ] kinv_running(3) [OF inv(1,2)]
        queued_exists [OF inv(1) nq] nq
      by (auto simp: c_def status_of_def)
    have "CheckOverflow c k3 = Inr ()"
      by (rule CheckOverflow_ok) (use kinv_rest(2) [OF inv(1)] ex in \<open>simp_all add: k3_def\<close>)
    then have y: "Yield k = Inr k'" using Cons ex
      by (auto simp: Y FindNextToRun_def ReadyToRun_def Run_def Let_def k'_def k3_def c_def)
    have fr: "frames_of k' = (frames_of k1)(c := AfterRun # frames_of k1 c)"
      using ex by (auto simp: k'_def k3_def c_def fun_eq_iff)
    have sl: "stack_ok IntOff (AfterRun # frames_of k1 c)"
      using inv(2,3) by (cases "frames_of k1 c") (auto simp: c_def)
    have "kinv k'"
      by (rule kinv_yield [OF inv(1,2) q, where fs = "frames_of k1 c"])
         (use kinv_rest(2) [OF inv(1)] ex fr sl in \<open>simp_all add: c_def k'_def k3_def fun_eq_iff\<close>)
    moreover have "levels_ok k'"
      by (rule dispatched_levels [OF inv(1), of n])
         (use lv ex q fr in \<open>auto simp: k'_def k3_def pending_wf_def\<close>)
    ultimately show ?thesis using y by (simp add: kernel_inv_def)
  qed
qed

text \<open>\<open>Sleep\<close>, behind whatever put the running thread on a queue.\<close>

lemma block_ok:
  assumes k: "running l k"
    and q: "q \<noteq> ReadyQ" "\<And>s. q = SemQ s \<Longrightarrow> sem_value (semaphores k s) = 0 \<and> P_loop s \<in> set fs"
    and view: "queue k1 = (queue k)(q := queue k q @ [currentThread k])" "status_of k1 = status_of k"
    "currentThread k1 = currentThread k" "threadToBeDestroyed k1 = threadToBeDestroyed k"
    "fences_ok k1" "\<And>s. sem_value (semaphores k1 s) = sem_value (semaphores k s)"
    "level (intr k1) = IntOff" "\<not> inHandler (intr k1)" "pending_wf k1" "0 \<le> now k1"
    and fs: "frames_of k1 = (frames_of k)(currentThread k := fs)" "stack_ok IntOff (SleepLoop # fs)"
    "\<And>s. P_loop s \<in> set (frames_of k (currentThread k)) \<Longrightarrow> P_loop s \<in> set fs"
  shows "\<exists>k'. Sleep k1 = Inr k' \<and> kernel_inv k'"
proof -
  let ?k = "push SleepLoop (setStatus (currentThread k) BLOCKED k1)"
  have kk: "kinv k" "hd (frames_of k (currentThread k)) \<noteq> SleepLoop" using k by (auto simp: running_def)
  note r = kinv_running [OF kk]
  have ex: "threads k1 (currentThread k) \<noteq> None"
    using r(3) view(2) by (metis status_of_None option.distinct(1))
  have fr: "frames_of ?k = (frames_of k)(currentThread k := SleepLoop # fs)"
    using ex by (auto simp: fun_eq_iff view(3) fs(1))
  have "kinv ?k"
    by (rule kinv_block [OF kk q(1), where fs = fs]) (use q fr fs ex in \<open>auto simp: view\<close>)
  moreover have "levels_ok ?k"
    using fs(2) r(2) by (simp add: levels_ok_def fr view)
  ultimately show ?thesis by (simp add: Sleep_def view kernel_inv_def)
qed

section \<open>The handlers' contract\<close>

locale kernel_calls =
  fixes call :: "('h, 'd) calls"
  assumes handler_ok: "kinv k \<Longrightarrow> pending_wf k \<Longrightarrow> inHandler (intr k) \<Longrightarrow> level (intr k) = IntOff \<Longrightarrow>
    \<exists>k'. call h a k = Inr k' \<and> kinv k' \<and> same_run k k' \<and> handler_effect k k'"

sublocale kernel_calls \<subseteq> at: handlers call "safe_at c d F" for c d F
proof
  show "\<exists>k'. call h a k = Inr k' \<and> safe_at c d F k' \<and> handler_effect k k'"
    if "safe_at c d F k" "pending_wf k" "inHandler (intr k)" "level (intr k) = IntOff" for k h a
    using handler_ok [of k h a] that by (auto simp: safe_at_def same_run_def)
  show "safe_at c d F (k\<lparr>intr := i, stats := s\<rparr>)" if "safe_at c d F k" for k i s
    using that by (simp add: safe_at_def)
qed

context kernel_calls
begin

lemma fire_due_run:
  assumes "kinv k" "pending_wf k" "level (intr k) = IntOff" "\<not> inHandler (intr k)"
  shows "\<exists>k'. fire_due call k = Inr k' \<and> kinv k' \<and> same_run k k' \<and> pending_wf k' \<and>
    level (intr k') = IntOff \<and> \<not> inHandler (intr k') \<and> now k' = now k"
  using at.fire_due_ok [OF safe_at_self [OF assms(1)] assms(2,3)] assms(4)
  by (auto simp: safe_at_same_run)

lemma OneTick_ok:
  assumes "running IntOn k"
  shows "\<exists>k'. OneTick call k = Inr k' \<and> kernel_inv k'"
proof -
  let ?k1 = "ChangeLevel IntOff (advance_clock k)"
  have "kinv ?k1" "pending_wf ?k1" "\<not> inHandler (intr ?k1)" "level (intr ?k1) = IntOff" "same_run k ?k1"
    and t: "0 \<le> now ?k1"
    using assms by (auto simp: running_def advance_clock_def pending_wf_def same_run_def tick_defs)
  with fire_due_run [of ?k1] obtain k2 where k2: "fire_due call ?k1 = Inr k2" "kinv k2" "same_run k k2"
    "pending_wf k2" "\<not> inHandler (intr k2)" "now k2 = now ?k1" by (auto simp: same_run_def)
  then have r2: "running IntOn k2" using assms t by (auto simp: running_def same_run_def)
  let ?k3 = "upd_intr (\<lambda>i. i\<lparr>yieldOnReturn := False, status := SystemMode\<rparr>) (ChangeLevel IntOn k2)"
  have "running IntOn (push (TickDone (status (intr k))) ?k3)"
    by (rule running_push) (use r2 in \<open>simp_all add: running_intr\<close>)
  with Yield_ok [of "push (TickDone (status (intr k))) ?k3"]
  have "\<exists>k'. Yield (push (TickDone (status (intr k))) ?k3) = Inr k' \<and> kernel_inv k'" by simp
  moreover have "kernel_inv (ChangeLevel IntOn k2)" using r2 by (intro running_inv) simp
  ultimately show ?thesis using k2(1) by (simp add: OneTick_def Let_def)
qed

lemma SetLevel_ok:
  assumes "running l k"
  shows "\<exists>k'. SetLevel call l k = Inr k' \<and> kernel_inv k'"
proof -
  have "\<not> inHandler (intr k)" using assms by (simp add: running_def)
  moreover have "kernel_inv (ChangeLevel l k)" using assms by (intro running_inv) simp
  moreover have "l = IntOn \<Longrightarrow> \<exists>k'. OneTick call (ChangeLevel l k) = Inr k' \<and> kernel_inv k'"
    using OneTick_ok [of "ChangeLevel l k"] assms by simp
  ultimately show ?thesis by (auto simp: SetLevel_def Let_def)
qed

lemma atomic_ok:
  assumes "running (level (intr k)) k" "r = SetLevel call (level (intr k)) k2" "atomic k k2"
  shows "\<exists>k'. r = Inr k' \<and> kernel_inv k'"
  using SetLevel_ok [OF running_atomic [OF assms(1,3)]] assms(2) by simp

lemma Acquire_ok:
  assumes "running (level (intr k)) k"
  shows "\<exists>k'. Acquire call l k = Inr k' \<and> kernel_inv k'"
proof -
  let ?k1 = "ChangeLevel IntOff k"
  let ?w = "upd_lock l (\<lambda>lk. lk\<lparr>lock_queue := lock_queue lk @ [currentThread k]\<rparr>) ?k1"
  let ?o = "upd_lock l (\<lambda>lk. lk\<lparr>owner := Some (currentThread k), acquired := True\<rparr>) ?k1"
  have kk: "kinv k" "hd (frames_of k (currentThread k)) \<noteq> SleepLoop" using assms by (auto simp: running_def)
  have "\<exists>k'. SetLevel call (level (intr k)) ?k1 = Inr k' \<and> kernel_inv k'"
    using assms by (intro SetLevel_ok) simp
  moreover have "\<exists>k'. SetLevel call (level (intr k)) ?o = Inr k' \<and> kernel_inv k'"
    using assms kinv_upd_lock [of ?k1 "\<lambda>lk. lk\<lparr>owner := Some (currentThread k), acquired := True\<rparr>" l]
    by (intro SetLevel_ok) (auto simp: running_def pending_wf_def)
  moreover have "\<exists>k'. Sleep (push (RestoreLevel (level (intr k))) ?w) = Inr k' \<and> kernel_inv k'"
  proof (rule block_ok [OF assms, where q = "LockQ l" and fs = "RestoreLevel (level (intr k)) # frames_of k (currentThread k)"])
    show "frames_of (push (RestoreLevel (level (intr k))) ?w) =
      (frames_of k)(currentThread k := RestoreLevel (level (intr k)) # frames_of k (currentThread k))"
      using kinv_running(3) [OF kk] by (auto simp: fun_eq_iff status_of_def)
    show "stack_ok IntOff (SleepLoop # RestoreLevel (level (intr k)) # frames_of k (currentThread k))"
      using assms by (cases "frames_of k (currentThread k)") (auto simp: running_def)
  qed (use assms kinv_rest(2) [OF kk(1)] in \<open>auto simp: running_def pending_wf_def queue.simps\<close>)
  ultimately show ?thesis by (simp add: Acquire_def Let_def)
qed

lemma Wait_ok:
  assumes "running (level (intr k)) k"
  shows "\<exists>k'. Wait call c lo k = Inr k' \<and> kernel_inv k'"
proof -
  let ?k1 = "ChangeLevel IntOff k"
  have kk: "kinv k" using assms by (auto simp: running_def)
  have ret: "\<exists>k'. SetLevel call (level (intr k)) ?k1 = Inr k' \<and> kernel_inv k'"
    using assms by (intro SetLevel_ok) simp
  have blk: "\<exists>k'. bind_result (Release call l (upd_cond c (\<lambda>cv. cv\<lparr>waitingLock := Some l\<rparr>) ?k1))
      (\<lambda>k2. Sleep (push (Wait_Acquire l) (push (RestoreLevel (level (intr k)))
        (upd_cond c (\<lambda>cv. cv\<lparr>waitQueue := waitQueue cv @ [currentThread k2]\<rparr>) k2)))) = Inr k' \<and> kernel_inv k'" for l
  proof -
    let ?u = "upd_cond c (\<lambda>cv. cv\<lparr>waitingLock := Some l\<rparr>) ?k1"
    have "kinv ?u" using kk by (intro kinv_upd_cond) simp_all
    from Release_atomic [OF this, of call l] obtain k2 where
      R: "Release call l ?u = SetLevel call IntOff k2" and a: "atomic ?u k2" by auto
    let ?k2 = "ChangeLevel IntOff k2"
    have c2: "currentThread k2 = currentThread k" "frames_of k2 = frames_of k" "kinv k2"
      "\<not> inHandler (intr k2)" "pending_wf k2" "0 \<le> now k2"
      using a assms by (auto simp: atomic_def same_run_def running_def pending_wf_def)
    have r2: "running (level (intr k)) ?k2"
      using assms c2 by (simp add: running_def)
    have h2: "hd (frames_of k2 (currentThread k2)) \<noteq> SleepLoop" using assms c2 by (simp add: running_def)
    have ex: "threads k2 (currentThread k) \<noteq> None"
      using kinv_running(3) [OF c2(3) h2] c2(1) by (auto simp: status_of_def)
    let ?fs = "Wait_Acquire l # RestoreLevel (level (intr k)) # frames_of k (currentThread k)"
    have "\<exists>k'. Sleep (push (Wait_Acquire l) (push (RestoreLevel (level (intr k)))
        (upd_cond c (\<lambda>cv. cv\<lparr>waitQueue := waitQueue cv @ [currentThread k]\<rparr>) ?k2))) = Inr k' \<and> kernel_inv k'"
    proof (rule block_ok [OF r2, where q = "CondQ c" and fs = ?fs])
      show "stack_ok IntOff (SleepLoop # ?fs)"
        using assms by (cases "frames_of k (currentThread k)") (auto simp: running_def)
    qed (use c2 kinv_rest(2) [OF c2(3)] ex in \<open>auto simp: queue.simps fun_eq_iff pending_wf_def\<close>)
    then show ?thesis using R c2(1) by (simp add: SetLevel_IntOff)
  qed
  show ?thesis using ret blk by (auto simp: Wait_def Let_def split: option.splits)
qed

lemma P_ok:
  assumes "running (level (intr k)) k"
  shows "\<exists>k'. P s k = Inr k' \<and> kernel_inv k'"
proof -
  have "running IntOff (push (RestoreLevel (level (intr k))) (ChangeLevel IntOff k))"
    by (rule running_push) (use assms in simp_all)
  then have "running IntOff (push (P_loop s) (push (RestoreLevel (level (intr k))) (ChangeLevel IntOff k)))"
    by (rule running_push) simp_all
  then show ?thesis
    using running_inv [of "push (P_loop s) (push (RestoreLevel (level (intr k))) (ChangeLevel IntOff k))"]
    by (simp add: P_def Let_def)
qed

lemma P_round_ok:
  assumes k: "running (level (intr k)) k" and f: "frames_of k (currentThread k) = P_loop s # fs"
  shows "\<exists>k'. P_round s (pop k) = Inr k' \<and> kernel_inv k'"
proof -
  have kk: "kinv k" "level (intr k) = IntOff" "stack_ok IntOff fs" "SleepLoop \<notin> set fs"
    "pending_wf k" "\<not> inHandler (intr k)" "0 \<le> now k" using k f by (auto simp: running_def)
  then have ne: "fs \<noteq> []" "hd fs \<noteq> SleepLoop" by (cases fs; auto)+
  have ex: "threads k (currentThread k) \<noteq> None"
    using kinv_running(3) [OF kk(1)] f by (auto simp: status_of_def)
  show ?thesis
  proof (cases "sem_value (semaphores k s) = 0")
    case True
    let ?k1 = "push (P_loop s) (upd_sem s (\<lambda>sem. sem\<lparr>sem_queue := sem_queue sem @ [currentThread k]\<rparr>) (pop k))"
    have "\<exists>k'. Sleep ?k1 = Inr k' \<and> kernel_inv k'"
      by (rule block_ok [OF k, where q = "SemQ s" and fs = "P_loop s # fs"])
         (use True kk f ex kinv_rest(2) [OF kk(1)] in \<open>auto simp: queue.simps fun_eq_iff pending_wf_def\<close>)
    with True show ?thesis by (simp add: P_round_def)
  next
    case False
    then have pos: "0 < sem_value (semaphores k s)"
      using kinv_rest(3) [OF kk(1), of s] by (simp add: sem_ok_def)
    let ?k1 = "upd_sem s (\<lambda>sem. sem\<lparr>sem_value := sem_value sem - 1\<rparr>) (pop k)"
    have "kinv ?k1"
      by (rule kinv_decrement [OF kk(1) f ne pos])
         (use f kinv_rest(2) [OF kk(1)] in \<open>auto simp: queue.simps fun_eq_iff\<close>)
    then have "running IntOff ?k1" using kk f ne by (simp add: running_def pending_wf_def)
    then have "kernel_inv ?k1" using kk by (intro running_inv) simp
    with False show ?thesis by (simp add: P_round_def)
  qed
qed

lemma Run_resume_ok:
  assumes k: "running IntOff k" "level (intr k) = IntOff"
  shows "\<exists>k'. Run_resume k = Inr k' \<and> kernel_inv k'"
proof (cases "threadToBeDestroyed k")
  case None
  then show ?thesis using k running_inv [of k] by (simp add: Run_resume_def)
next
  case (Some t)
  have kk: "kinv k" "hd (frames_of k (currentThread k)) \<noteq> SleepLoop" using k by (auto simp: running_def)
  then have tc: "t \<noteq> currentThread k" using kinv_running(2) [OF kk] Some by simp
  let ?k = "k\<lparr>threads := (threads k)(t := None), threadToBeDestroyed := None\<rparr>"
  have "kinv ?k"
    by (rule kinv_delete [OF kk(1) Some tc])
       (use kinv_rest(2) [OF kk(1)] in \<open>auto simp: fun_eq_iff status_of_def frames_of_def fences_ok_def\<close>)
  then have "running IntOff ?k" using k(1) tc by (simp add: running_def pending_wf_def frames_of_def)
  then have "kernel_inv ?k" using k(2) by (intro running_inv) simp
  then show ?thesis using Some tc by (simp add: Run_resume_def delete_thread_def)
qed

lemma Finish_ok:
  assumes k: "running IntOn k" and f: "frames_of k (currentThread k) = [ThreadFinish]"
  shows "\<exists>k'. Finish (pop k) = Inr k' \<and> kernel_inv k'"
proof -
  have kk: "kinv k" "pending_wf k" "\<not> inHandler (intr k)" "0 \<le> now k" using k by (auto simp: running_def)
  have ex: "threads k (currentThread k) \<noteq> None"
    using kinv_running(3) [OF kk(1)] f by (auto simp: status_of_def)
  let ?k = "push SleepLoop (setStatus (currentThread k) BLOCKED
      ((ChangeLevel IntOff (pop k))\<lparr>threadToBeDestroyed := Some (currentThread k)\<rparr>))"
  have "kinv ?k"
    by (rule kinv_finish [OF kk(1) f])
       (use f ex kinv_rest(2) [OF kk(1)] in \<open>auto simp: fun_eq_iff status_of_None [symmetric]\<close>)
  then have "kernel_inv ?k" using kk by (simp add: kernel_inv_def levels_ok_def pending_wf_def)
  then show ?thesis by (simp add: Finish_def Sleep_def Let_def)
qed

lemma Sleep_round_ok:
  assumes k: "kernel_inv k" and f: "frames_of k (currentThread k) = SleepLoop # fs"
  shows "(\<exists>k'. Sleep_round call k = Inr k' \<and> kernel_inv k') \<or> Sleep_round call k = Inl HALTED"
proof (cases "readyList k")
  case Nil
  have kk: "kinv k" "pending_wf k" "\<not> inHandler (intr k)" "level (intr k) = IntOff" "0 \<le> now k"
    using k f by (auto simp: kernel_inv_def levels_ok_def split: if_splits)
  have "Idle call k = Inl HALTED \<or> (\<exists>k'. Idle call k = Inr k' \<and> kernel_inv k')"
  proof (cases "pending (intr k) = [] \<or> (\<exists>w p. pending (intr k) = [(w, p)] \<and> type p = TimerInt)")
    case True
    then show ?thesis using at.Idle_halts [OF kk(4)] by blast
  next
    case False
    then obtain w p rest where p: "pending (intr k) = (w, p) # rest" "\<not> (type p = TimerInt \<and> rest = [])"
      by (metis list.exhaust surj_pair)
    from at.Idle_fires [OF safe_at_self [OF kk(1)] kk(2,4) p] obtain k' where
      k': "Idle call k = Inr k'" "kinv k'" "same_run k k'" "pending_wf k'" "level (intr k') = IntOff"
      "\<not> inHandler (intr k')" "now k' = max w (now k)" unfolding safe_at_same_run by blast
    then have "kernel_inv k'" using k kk(4)
      by (auto simp: kernel_inv_def levels_ok_def same_run_def)
    with k'(1) show ?thesis by blast
  qed
  with Nil show ?thesis by (auto simp: Sleep_round_def FindNextToRun_def)
next
  case (Cons n ts)
  have kk: "kinv k" "pending_wf k" "\<not> inHandler (intr k)" "level (intr k) = IntOff" "0 \<le> now k"
    using k f by (auto simp: kernel_inv_def levels_ok_def split: if_splits)
  have q: "queue k ReadyQ = n # ts" using Cons by (simp add: queue.simps)
  then have nq: "n \<in> set (queue k ReadyQ)" by simp
  have ex: "threads k n \<noteq> None" "threads k (currentThread k) \<noteq> None"
    using queued_exists [OF kk(1) nq] kinv_rest(5) [OF kk(1)]
    by (auto simp: current_ok_def status_of_def split: if_splits)
  let ?k1 = "pop (k\<lparr>readyList := ts\<rparr>)"
  let ?k = "setStatus n RUNNING ((push AfterRun ?k1)\<lparr>currentThread := n\<rparr>)"
  have "CheckOverflow (currentThread k) ?k1 = Inr ()"
    by (rule CheckOverflow_ok) (use ex kinv_rest(2) [OF kk(1)] in simp_all)
  then have S: "Sleep_round call k = Inr ?k"
    using Cons ex by (simp add: Sleep_round_def FindNextToRun_def Run_def)
  have fr: "frames_of ?k = (frames_of k)(currentThread k := AfterRun # fs)"
    using f ex by (auto simp: fun_eq_iff)
  have "kinv ?k"
    by (rule kinv_dispatch [OF kk(1) f q])
       (use ex fr kinv_rest(2) [OF kk(1)] in \<open>auto simp: fun_eq_iff\<close>)
  moreover have "levels_ok ?k"
    by (rule dispatched_levels [OF kk(1) nq]) (use kk f fr in \<open>auto simp: pending_wf_def\<close>)
  ultimately show ?thesis using S by (simp add: kernel_inv_def)
qed

lemma new_Thread_ok:
  assumes k: "running (level (intr k)) k" and t: "threads k t = None"
  shows "kernel_inv (new_Thread t n k)"
proof -
  have kk: "kinv k" using k by (simp add: running_def)
  have tc: "t \<noteq> currentThread k" using kinv_running(3) [OF kk] k t by (auto simp: running_def status_of_def)
  have "kinv (new_Thread t n k)"
    by (rule kinv_new [OF kk, of t])
       (use t kinv_rest(2) [OF kk] in
         \<open>auto simp: new_Thread_def Thread_ctor_def fun_eq_iff status_of_def frames_of_def fences_ok_def\<close>)
  then have "running (level (intr k)) (new_Thread t n k)"
    using k tc by (auto simp: running_def new_Thread_def frames_of_def pending_wf_def)
  then show ?thesis by (intro running_inv) (simp add: new_Thread_def)
qed

lemma Fork_ok:
  assumes k: "running (level (intr k)) k" and t: "status_of k t = Some JUST_CREATED"
  shows "\<exists>k'. Fork call t k = Inr k' \<and> kernel_inv k'"
proof -
  have kk: "kinv k" using k by (simp add: running_def)
  have tc: "t \<noteq> currentThread k" using kinv_running(3) [OF kk] k t by (auto simp: running_def)
  have ex: "threads k t \<noteq> None" using t by (auto simp: status_of_def)
  let ?k1 = "ChangeLevel IntOff (StackAllocate t k)"
  let ?k = "(setStatus t READY ?k1)\<lparr>readyList := readyList k @ [t]\<rparr>"
  have v1: "queue ?k1 = queue k" "readyList ?k1 = readyList k" "status_of ?k1 = status_of k"
    "frames_of ?k1 = (frames_of k)(t := [InterruptEnable, ThreadBody, ThreadFinish])"
    "currentThread ?k1 = currentThread k" "threadToBeDestroyed ?k1 = threadToBeDestroyed k"
    "semaphores ?k1 = semaphores k" "threads ?k1 t \<noteq> None" "intr ?k1 = (intr k)\<lparr>level := IntOff\<rparr>" "stats ?k1 = stats k"
    using ex by (auto simp: StackAllocate_def fun_eq_iff status_of_def frames_of_def ChangeLevel_intr
        intro!: queue_cong)
  have f1: "fences_ok ?k1"
    using kinv_rest(2) [OF kk] by (auto simp: StackAllocate_def fences_ok_def)
  have "kinv ?k"
    by (rule kinv_fork [OF kk t, where fs = "[InterruptEnable, ThreadBody, ThreadFinish]"])
       (use v1 f1 in \<open>auto simp: queue.simps(1)\<close>)
  then have r: "running (level (intr k)) ?k"
    using k tc v1 by (simp add: running_def pending_wf_def)
  have "Fork call t k = SetLevel call (level (intr k)) ?k"
    using v1(2,8) by (auto simp: Fork_def Let_def ReadyToRun_def) (auto simp: StackAllocate_def)
  then show ?thesis using SetLevel_ok [OF r] by simp
qed

text \<open>Whatever a thread asks for, the kernel does it.\<close>

lemma perform_ok:
  assumes k: "running (level (intr k)) k" and a: "allowed (Some r) k"
  shows "\<exists>k'. perform call r k = Inr k' \<and> kernel_inv k'"
proof -
  have kk: "kinv k" using k by (simp add: running_def)
  show ?thesis
  proof (cases r)
    case (Do_V s) then show ?thesis using V_atomic [OF kk, of call s] atomic_ok [OF k] by auto
  next
    case (Do_Release l) then show ?thesis using Release_atomic [OF kk, of call l] atomic_ok [OF k] by auto
  next
    case (Do_Signal c l) then show ?thesis using Signal_atomic [OF kk, of call c l] atomic_ok [OF k] by auto
  next
    case (Do_Broadcast c l) then show ?thesis using Broadcast_atomic [OF kk, of call c l] atomic_ok [OF k] by auto
  qed (use k a P_ok Acquire_ok Wait_ok Yield_ok new_Thread_ok Fork_ok in auto)
qed

lemma exec_frame_ok:
  assumes k: "kernel_inv k" and f: "frames_of k (currentThread k) = f # fs"
  shows "(\<exists>k'. exec_frame call f k = Inr k' \<and> kernel_inv k') \<or> exec_frame call f k = Inl HALTED"
proof (cases "f = SleepLoop")
  case True
  then show ?thesis using Sleep_round_ok [OF k] f by (simp add: exec_frame_def)
next
  case False
  with f inv_running [OF k] have r: "running (level (intr k)) k" by simp
  then have l: "level (intr k) = needs f" using f by (simp add: running_def)
  have popped: "running (leaves f) (pop k)" if "f \<noteq> ThreadFinish" "\<And>s. f \<noteq> P_loop s"
    by (rule running_pop [OF r f that])
  have "\<exists>k'. exec_frame call f k = Inr k' \<and> kernel_inv k'"
  proof (cases f)
    case AfterRun
    then show ?thesis using popped Run_resume_ok [of "pop k"] l by (simp add: exec_frame_def)
  next
    case (RestoreLevel lv)
    then show ?thesis using popped SetLevel_ok [of lv "pop k"] by (simp add: exec_frame_def)
  next
    case (TickDone st)
    let ?k = "upd_intr (\<lambda>i. i\<lparr>status := st\<rparr>) (pop k)"
    have "running (level (intr ?k)) ?k" using popped TickDone l by (simp add: running_intr)
    with TickDone show ?thesis using running_inv [of ?k] by (simp add: exec_frame_def)
  next
    case (P_loop s)
    then show ?thesis using P_round_ok [OF r, of s fs] f by (simp add: exec_frame_def)
  next
    case (Wait_Acquire lk)
    then show ?thesis using popped Acquire_ok [of "pop k" lk] l by (simp add: exec_frame_def)
  next
    case InterruptEnable
    then show ?thesis using popped SetLevel_ok [of IntOn "pop k"] by (simp add: exec_frame_def)
  next
    case ThreadBody
    then show ?thesis using popped running_inv [of "pop k"] l by (simp add: exec_frame_def)
  next
    case ThreadFinish
    then show ?thesis using Finish_ok [of k] r l f by (simp add: exec_frame_def running_def)
  qed (use False in simp)
  then show ?thesis by blast
qed

lemma step_ok:
  assumes k: "kernel_inv k" and a: "allowed r k"
  shows "(\<exists>k'. step call r k = Inr k' \<and> kernel_inv k') \<or> step call r k = Inl HALTED"
proof -
  have "frames_of k (currentThread k) \<noteq> []"
    using k kinv_rest(5) [of k] by (auto simp: kernel_inv_def current_ok_def)
  then obtain f fs where f: "frames_of k (currentThread k) = f # fs" by (cases "frames_of k (currentThread k)") auto
  show ?thesis
  proof (cases "f = ThreadBody \<and> r \<noteq> None")
    case True
    then obtain q where "r = Some q" "f = ThreadBody" by auto
    then show ?thesis using perform_ok [OF inv_running [OF k], of q] f a by (simp add: step_def)
  next
    case False
    then have "step call r k = exec_frame call f k"
      using f by (cases f; cases r) (simp_all add: step_def)
    then show ?thesis using exec_frame_ok [OF k f] by simp
  qed
qed

lemma reachable_inv: "reachable call k0 k \<Longrightarrow> kernel_inv k0 \<Longrightarrow> kernel_inv k"
proof (induction rule: reachable.induct)
  case (reachable_step k r k')
  then show ?case using step_ok [of k r] by auto
qed

end

text \<open>The kernel is in order when it is booted.\<close>

lemma boot_inv:
  assumes "\<And>s. 0 \<le> values s"
  shows "kernel_inv (boot values owners waiting d :: ('h, 'd) kernel)"
proof -
  define k :: "('h, 'd) kernel" where "k = boot values owners waiting d"
  have q: "queue k q = []" for q
    by (cases q) (auto simp: queue.simps k_def boot_def Semaphore_ctor_def Lock_ctor_def Condition_ctor_def)
  have v: "status_of k = [0 \<mapsto> RUNNING]" "currentThread k = 0" "threadToBeDestroyed k = None"
    "frames_of k 0 = [InterruptEnable, ThreadBody, ThreadFinish]" "pending (intr k) = []"
    "\<not> inHandler (intr k)" "level (intr k) = IntOff" "fences_ok k" "now k = 0"
    "\<And>s. sem_value (semaphores k s) = values s"
    by (auto simp: k_def boot_def status_of_def frames_of_def Interrupt_ctor_def fences_ok_def
        Semaphore_ctor_def Statistics_ctor_def)
  have "kernel_inv k" using assms
    by (simp add: kernel_inv_def kinv_def queues_ok_def sem_ok_def doomed_ok_def current_ok_def
        levels_ok_def pending_wf_def q v)
  then show ?thesis by (simp add: k_def)
qed

end
