(* ===== verification/Host.thy ===== *)
theory Host
  imports Nachos_Prelude
begin

text \<open>
  What the machine emulation sees of the host computer: the bytes of an \<open>int\<close> in memory, and
  UNIX files as the wrappers of \<open>machine/sysdep.cc\<close> use them. The host is little-endian, as
  the machines are for which the code is built. A file is its contents and the offset of its
  descriptor; a write behind the end fills the gap with zeros, as \<open>lseek(2)\<close> says.
\<close>

section \<open>Bytes\<close>

unbundle bit_operations_syntax

type_synonym byte = "8 word"

definition word_bytes :: "32 word \<Rightarrow> byte list" where
  "word_bytes w = [ucast w, ucast (drop_bit 8 w), ucast (drop_bit 16 w), ucast (drop_bit 24 w)]"

fun bytes_word :: "byte list \<Rightarrow> 32 word" where
  "bytes_word (a # b # c # d # _) =
     ucast a OR push_bit 8 (ucast b) OR push_bit 16 (ucast c) OR push_bit 24 (ucast d)"
| "bytes_word _ = 0"

text \<open>An \<open>int\<close> variable read from or stored into raw memory.\<close>

definition int_bytes :: "int \<Rightarrow> byte list" where
  "int_bytes i = word_bytes (word_of_int i)"

definition bytes_int :: "byte list \<Rightarrow> int" where
  "bytes_int bs = sint (bytes_word bs)"

definition int32 :: "int \<Rightarrow> bool" where
  "int32 i \<longleftrightarrow> - (2 ^ 31) \<le> i \<and> i < 2 ^ 31"

lemma length_word_bytes [simp]: "length (word_bytes w) = 4"
  by (simp add: word_bytes_def)

lemma length_int_bytes [simp]: "length (int_bytes i) = 4"
  by (simp add: int_bytes_def)

lemma bytes_word_bytes [simp]: "bytes_word (word_bytes w @ xs) = w"
proof (rule bit_word_eqI)
  fix n assume "n < LENGTH(32)"
  then consider "n < 8" | "8 \<le> n" "n < 16" | "16 \<le> n" "n < 24" | "24 \<le> n" "n < 32" by fastforce
  then show "bit (bytes_word (word_bytes w @ xs)) n = bit w n"
    by cases (auto simp: word_bytes_def bit_simps)
qed

lemma word_bytes_bytes: "word_bytes (bytes_word [a, b, c, d]) = [a, b, c, d]"
proof -
  have "ucast (bytes_word [a, b, c, d]) = a"
    by (rule bit_word_eqI) (auto simp: bit_simps)
  moreover have "ucast (drop_bit 8 (bytes_word [a, b, c, d])) = b"
    by (rule bit_word_eqI) (auto simp: bit_simps dest: bit_imp_le_length)
  moreover have "ucast (drop_bit 16 (bytes_word [a, b, c, d])) = c"
    by (rule bit_word_eqI) (auto simp: bit_simps dest: bit_imp_le_length)
  moreover have "ucast (drop_bit 24 (bytes_word [a, b, c, d])) = d"
    by (rule bit_word_eqI) (auto simp: bit_simps dest: bit_imp_le_length)
  ultimately show ?thesis by (simp add: word_bytes_def)
qed

lemma bytes_int_bytes [simp]: "int32 i \<Longrightarrow> bytes_int (int_bytes i @ xs) = i"
  by (simp add: bytes_int_def int_bytes_def int32_def signed_take_bit_int_eq_self sint_sbintrunc')

lemma int32_bytes_int [simp]: "int32 (bytes_int bs)"
  using sint_ge [of "bytes_word bs"] sint_lt [of "bytes_word bs"] by (simp add: int32_def bytes_int_def)

section \<open>Writing into a sequence of bytes\<close>

definition write_at :: "nat \<Rightarrow> 'a::zero list \<Rightarrow> 'a list \<Rightarrow> 'a list" where
  "write_at off bs f =
     take off (f @ replicate (off - length f) 0) @ bs @ drop (off + length bs) f"

definition read_at :: "nat \<Rightarrow> nat \<Rightarrow> 'a list \<Rightarrow> 'a list" where
  "read_at off n f = take n (drop off f)"

lemma length_write_at [simp]: "length (write_at off bs f) = max (length f) (off + length bs)"
  by (auto simp: write_at_def)

lemma length_read_at [simp]: "off + n \<le> length f \<Longrightarrow> length (read_at off n f) = n"
  by (simp add: read_at_def)

lemma read_write_at: "read_at off (length bs) (write_at off bs f) = bs"
  by (simp add: read_at_def write_at_def)

lemma nth_write_at:
  assumes "i < length f"
  shows "write_at off bs f ! i = (if off \<le> i \<and> i < off + length bs then bs ! (i - off) else f ! i)"
  using assms by (auto simp: write_at_def nth_append min_def)

lemma read_write_at_disjoint:
  assumes "a + n \<le> off \<or> off + length bs \<le> a" "a + n \<le> length f"
  shows "read_at a n (write_at off bs f) = read_at a n f"
proof (rule nth_equalityI)
  show "length (read_at a n (write_at off bs f)) = length (read_at a n f)"
    using assms(2) by (auto simp: read_at_def)
  fix i assume i: "i < length (read_at a n (write_at off bs f))"
  then have i: "i < n" using assms(2) by (simp add: read_at_def)
  then show "read_at a n (write_at off bs f) ! i = read_at a n f ! i"
    using assms nth_write_at [of "a + i" f off bs] by (auto simp: read_at_def)
qed

section \<open>UNIX files\<close>

record UnixFile =
  contents :: "byte list"
  offset :: int

definition Lseek :: "int \<Rightarrow> UnixFile \<Rightarrow> UnixFile result" where
  "Lseek off f = bind_result (ASSERT (off \<ge> 0)) (\<lambda>_. Inr (f\<lparr>offset := off\<rparr>))"

definition Read_file :: "nat \<Rightarrow> UnixFile \<Rightarrow> (byte list \<times> UnixFile) result" where
  "Read_file nBytes f =
     (let bs = read_at (nat (offset f)) nBytes (contents f)
      in bind_result (ASSERT (length bs = nBytes))
           (\<lambda>_. Inr (bs, f\<lparr>offset := offset f + int (length bs)\<rparr>)))"

definition WriteFile :: "byte list \<Rightarrow> UnixFile \<Rightarrow> UnixFile result" where
  "WriteFile bs f =
     Inr (f\<lparr>contents := write_at (nat (offset f)) bs (contents f),
            offset := offset f + int (length bs)\<rparr>)"

text \<open>\<open>OpenForWrite\<close> creates the file or truncates it.\<close>

definition OpenForWrite :: UnixFile where
  "OpenForWrite = \<lparr>contents = [], offset = 0\<rparr>"

end
