(* ===== verification/Disk.thy ===== *)
theory Disk
  imports Host Kernel_State
begin

text \<open>
  The physical disk of \<open>machine/disk.cc\<close>: its storage in a UNIX file behind a magic number,
  and the simulated time a request takes (seek, rotation, transfer, track buffer). Requests
  raise an interrupt later; that part is in the theory \<open>Devices\<close>. The times are \<open>int\<close> in
  the code and are assumed not to overflow.

  The lemmas show that a sector holds what was last written to it and that writing a sector
  leaves the others alone (the contract \<open>sector_store\<close> on which the file system relies), that
  the latency is at least one rotation and bounded, and that it is the whole rotation time
  when the track buffer holds the sector.
\<close>

section \<open>Storage\<close>

definition SectorSize :: nat where "SectorSize = 128"
definition SectorsPerTrack :: int where "SectorsPerTrack = 32"
definition NumTracks :: int where "NumTracks = 32"
definition NumSectors :: int where "NumSectors = SectorsPerTrack * NumTracks"
definition MagicNumber :: "32 word" where "MagicNumber = 0x456789ab"
definition MagicSize :: nat where "MagicSize = 4"
definition DiskSize :: nat where "DiskSize = MagicSize + nat NumSectors * SectorSize"

lemmas disk_consts = SectorSize_def SectorsPerTrack_def NumTracks_def NumSectors_def MagicSize_def DiskSize_def

record Disk =
  fileno :: UnixFile
  active :: bool
  lastSector :: int
  bufferInit :: int

text \<open>The constructor; \<open>f\<close> is the existing file of that name, if there is one.\<close>

definition Disk_ctor :: "UnixFile option \<Rightarrow> Disk result" where
  "Disk_ctor f =
     bind_result
       (case f of
          Some g \<Rightarrow>
            bind_result (Read_file MagicSize g) (\<lambda>(bs, g).
              bind_result (ASSERT (bytes_word bs = MagicNumber)) (\<lambda>_. Inr g))
        | None \<Rightarrow>
            bind_result (WriteFile (word_bytes MagicNumber) OpenForWrite) (\<lambda>g.
              bind_result (Lseek (int DiskSize - 4) g) (WriteFile (int_bytes 0))))
       (\<lambda>g. Inr \<lparr>fileno = g, active = False, lastSector = 0, bufferInit = 0\<rparr>)"

text \<open>The transfers of \<open>ReadRequest\<close> and \<open>WriteRequest\<close>: the checks, the seek and the data.\<close>

definition transfer_in :: "int \<Rightarrow> Disk \<Rightarrow> (byte list \<times> Disk) result" where
  "transfer_in sectorNumber d =
     bind_result (ASSERT (\<not> active d)) (\<lambda>_.
     bind_result (ASSERT (0 \<le> sectorNumber \<and> sectorNumber < NumSectors)) (\<lambda>_.
     bind_result (Lseek (int SectorSize * sectorNumber + int MagicSize) (fileno d)) (\<lambda>g.
     bind_result (Read_file SectorSize g) (\<lambda>(data, g). Inr (data, d\<lparr>fileno := g\<rparr>)))))"

definition transfer_out :: "int \<Rightarrow> byte list \<Rightarrow> Disk \<Rightarrow> Disk result" where
  "transfer_out sectorNumber data d =
     bind_result (ASSERT (\<not> active d)) (\<lambda>_.
     bind_result (ASSERT (0 \<le> sectorNumber \<and> sectorNumber < NumSectors)) (\<lambda>_.
     bind_result (Lseek (int SectorSize * sectorNumber + int MagicSize) (fileno d)) (\<lambda>g.
     bind_result (WriteFile (take SectorSize data) g) (\<lambda>g. Inr (d\<lparr>fileno := g\<rparr>)))))"

section \<open>Latency\<close>

text \<open>\<open>TimeToSeek\<close> returns the seek time and, through the pointer, the rotation.\<close>

definition TimeToSeek :: "int \<Rightarrow> int \<Rightarrow> Disk \<Rightarrow> int \<times> int" where
  "TimeToSeek ticks newSector d =
     (let newTrack = newSector sdiv SectorsPerTrack;
          oldTrack = lastSector d sdiv SectorsPerTrack;
          seek = \<bar>newTrack - oldTrack\<bar> * SeekTime;
          over = (ticks + seek) smod RotationTime
      in (seek, if over > 0 then RotationTime - over else 0))"

definition ModuloDiff :: "int \<Rightarrow> int \<Rightarrow> int" where
  "ModuloDiff to from =
     (let toOffset = to smod SectorsPerTrack; fromOffset = from smod SectorsPerTrack
      in ((toOffset - fromOffset) + SectorsPerTrack) smod SectorsPerTrack)"

definition ComputeLatency :: "int \<Rightarrow> int \<Rightarrow> bool \<Rightarrow> Disk \<Rightarrow> int" where
  "ComputeLatency ticks newSector writing d =
     (let (seek, rotation) = TimeToSeek ticks newSector d;
          timeAfter = ticks + seek + rotation
      in if \<not> writing \<and> seek = 0 \<and>
            (timeAfter - bufferInit d) sdiv RotationTime
              > ModuloDiff newSector (bufferInit d sdiv RotationTime)
         then RotationTime
         else seek + (rotation + ModuloDiff newSector (timeAfter sdiv RotationTime) * RotationTime)
                + RotationTime)"

definition UpdateLast :: "int \<Rightarrow> int \<Rightarrow> Disk \<Rightarrow> Disk" where
  "UpdateLast ticks newSector d =
     (let (seek, rotate) = TimeToSeek ticks newSector d
      in (if seek \<noteq> 0 then d\<lparr>bufferInit := ticks + seek + rotate\<rparr> else d)
           \<lparr>lastSector := newSector\<rparr>)"

section \<open>The storage contract\<close>

definition disk_ok :: "Disk \<Rightarrow> bool" where
  "disk_ok d \<longleftrightarrow>
     length (contents (fileno d)) = DiskSize \<and> bytes_word (contents (fileno d)) = MagicNumber \<and>
     0 \<le> lastSector d \<and> lastSector d < NumSectors"

definition sector_data :: "int \<Rightarrow> Disk \<Rightarrow> byte list" where
  "sector_data s d = read_at (SectorSize * nat s + MagicSize) SectorSize (contents (fileno d))"

definition valid_sector :: "int \<Rightarrow> bool" where
  "valid_sector s \<longleftrightarrow> 0 \<le> s \<and> s < NumSectors"

lemma nat_sector_pos:
  "0 \<le> s \<Longrightarrow> nat (int SectorSize * s + int MagicSize) = SectorSize * nat s + MagicSize"
  by (simp add: disk_consts nat_add_distrib nat_mult_distrib)

lemma sector_bound:
  "valid_sector s \<Longrightarrow> disk_ok d \<Longrightarrow> SectorSize * nat s + MagicSize + SectorSize \<le> length (contents (fileno d))"
  by (auto simp: valid_sector_def disk_ok_def disk_consts nat_less_iff simp flip: less_Suc_eq_le)

lemma length_sector [simp]: "valid_sector s \<Longrightarrow> disk_ok d \<Longrightarrow> length (sector_data s d) = SectorSize"
  unfolding sector_data_def by (rule length_read_at) (rule sector_bound)

lemma transfer_in_ok:
  assumes "valid_sector s" "disk_ok d" "\<not> active d"
  shows "\<exists>g. transfer_in s d = Inr (sector_data s d, d\<lparr>fileno := g\<rparr>) \<and> contents g = contents (fileno d)"
  using assms sector_bound [OF assms(1,2)]
  by (intro exI [of _ "(fileno d)\<lparr>offset := int SectorSize * s + int MagicSize + int SectorSize\<rparr>"])
     (simp add: transfer_in_def valid_sector_def Lseek_def Read_file_def nat_sector_pos Let_def sector_data_def)

lemma transfer_out_ok:
  assumes "valid_sector s" "\<not> active d" "length data = SectorSize"
  shows "\<exists>g. transfer_out s data d = Inr (d\<lparr>fileno := g\<rparr>) \<and>
     contents g = write_at (SectorSize * nat s + MagicSize) data (contents (fileno d))"
  using assms
  by (intro exI [of _ "(fileno d)\<lparr>contents := write_at (SectorSize * nat s + MagicSize) data (contents (fileno d)),
        offset := int SectorSize * s + int MagicSize + int SectorSize\<rparr>"])
     (simp add: transfer_out_def valid_sector_def Lseek_def WriteFile_def nat_sector_pos)

lemma sector_cong: "contents (fileno d') = contents (fileno d) \<Longrightarrow> sector_data s d' = sector_data s d"
  by (simp add: sector_data_def)

lemma bytes_word_read: "4 \<le> length f \<Longrightarrow> bytes_word f = bytes_word (read_at 0 4 f)"
  by (cases f rule: bytes_word.cases) (auto simp: read_at_def)

lemma bytes_word_write_later:
  "4 \<le> length f \<Longrightarrow> 4 \<le> off \<Longrightarrow> bytes_word (write_at off bs f) = bytes_word f"
  by (subst (1 2) bytes_word_read) (simp_all add: read_write_at_disjoint)

lemma write_sector:
  assumes s: "valid_sector s" "disk_ok d" "length data = SectorSize"
    and d': "contents (fileno d') = write_at (SectorSize * nat s + MagicSize) data (contents (fileno d))"
  shows "sector_data s d' = data"
    and "valid_sector s' \<Longrightarrow> s' \<noteq> s \<Longrightarrow> sector_data s' d' = sector_data s' d"
    and "lastSector d' = lastSector d \<Longrightarrow> disk_ok d'"
proof -
  show "sector_data s d' = data"
    using read_write_at [of "SectorSize * nat s + MagicSize" data] s(3) by (simp add: sector_data_def d')
  show "sector_data s' d' = sector_data s' d" if "valid_sector s'" "s' \<noteq> s"
  proof -
    have "nat s' < nat s \<or> nat s < nat s'" using that s(1) by (auto simp: valid_sector_def)
    then have "SectorSize * nat s' + MagicSize + SectorSize \<le> SectorSize * nat s + MagicSize \<or>
        SectorSize * nat s + MagicSize + length data \<le> SectorSize * nat s' + MagicSize"
      by (auto simp: s(3) SectorSize_def)
    then show ?thesis using sector_bound [OF that(1) s(2)]
      by (simp add: sector_data_def d' read_write_at_disjoint)
  qed
  have len: "length (contents (fileno d')) = DiskSize"
    using s sector_bound [OF s(1,2)] by (simp add: d' disk_ok_def)
  have "bytes_word (contents (fileno d')) = bytes_word (contents (fileno d))"
    unfolding d' by (rule bytes_word_write_later) (use s(2) in \<open>auto simp: disk_ok_def disk_consts\<close>)
  then show "disk_ok d'" if "lastSector d' = lastSector d"
    using s(2) len that by (simp add: disk_ok_def)
qed

text \<open>A disk made from nothing is in order, with zeros in every sector.\<close>

lemma Disk_ctor_new:
  "\<exists>d. Disk_ctor None = Inr d \<and> disk_ok d \<and> \<not> active d"
proof -
  define c where "c = write_at (DiskSize - 4) (int_bytes 0) (word_bytes MagicNumber)"
  have c: "length c = DiskSize" by (simp add: c_def disk_consts)
  have "bytes_word c = bytes_word (word_bytes MagicNumber)"
    unfolding c_def by (rule bytes_word_write_later) (simp_all add: disk_consts)
  then have m: "bytes_word c = MagicNumber" using bytes_word_bytes [of _ "[]"] by simp
  have w: "write_at 0 (word_bytes MagicNumber) [] = word_bytes MagicNumber" by (simp add: write_at_def)
  have n: "nat (int DiskSize - 4) = DiskSize - 4" "0 \<le> int DiskSize - 4" by (simp_all add: disk_consts)
  have "Disk_ctor None = Inr \<lparr>fileno = \<lparr>contents = c, offset = int DiskSize\<rparr>, active = False,
      lastSector = 0, bufferInit = 0\<rparr>"
    using n by (simp add: Disk_ctor_def WriteFile_def OpenForWrite_def Lseek_def w c_def)
  then show ?thesis using c m by (simp add: disk_ok_def disk_consts)
qed

section \<open>Bounds of the latency\<close>

lemma ModuloDiff_bounds:
  assumes "0 \<le> to" "0 \<le> from"
  shows "0 \<le> ModuloDiff to from" "ModuloDiff to from < SectorsPerTrack"
    and "(from + ModuloDiff to from) mod SectorsPerTrack = to mod SectorsPerTrack"
proof -
  have "0 \<le> to mod 32" "to mod 32 < 32" "0 \<le> from mod 32" "from mod 32 < 32" by simp_all
  then have e: "ModuloDiff to from = (to mod 32 - from mod 32 + 32) mod 32"
    using assms by (simp add: ModuloDiff_def Let_def SectorsPerTrack_def smod_nonneg)
  show "0 \<le> ModuloDiff to from" "ModuloDiff to from < SectorsPerTrack"
    by (simp_all add: e SectorsPerTrack_def)
  have "from + (to mod 32 - from mod 32 + 32) - to = (from - from mod 32) - (to - to mod 32) + 32" by simp
  moreover have "32 dvd (from - from mod 32) - (to - to mod 32) + 32"
    by (intro dvd_add dvd_diff dvd_minus_mod) simp
  ultimately have "(from + (to mod 32 - from mod 32 + 32)) mod 32 = to mod 32"
    by (simp only: mod_eq_dvd_iff)
  then have "(from + (to mod 32 - from mod 32 + 32) mod 32) mod 32 = to mod 32"
    by (simp only: mod_add_right_eq)
  then show "(from + ModuloDiff to from) mod SectorsPerTrack = to mod SectorsPerTrack"
    by (simp add: e SectorsPerTrack_def)
qed

lemma TimeToSeek_bounds:
  assumes "TimeToSeek t s d = (seek, rot)" "0 \<le> t" "valid_sector s" "disk_ok d"
  shows "0 \<le> seek" "seek \<le> 31 * SeekTime" "0 \<le> rot" "rot < RotationTime"
    "(t + seek + rot) mod RotationTime = 0"
proof -
  let ?n = "s div 32" and ?o = "lastSector d div 32"
  have r: "0 \<le> s" "s < 1024" "0 \<le> lastSector d" "lastSector d < 1024"
    using assms(3,4) by (auto simp: valid_sector_def disk_ok_def disk_consts)
  then have seek: "seek = \<bar>?n - ?o\<bar> * 500"
    using assms(1) by (simp add: TimeToSeek_def Let_def SectorsPerTrack_def tick_defs sdiv_nonneg)
  moreover have "0 \<le> x div 32 \<and> x div 32 \<le> 31" if "0 \<le> x" "x < 1024" for x :: int using that by presburger
  then have "\<bar>?n - ?o\<bar> \<le> 31" using r by (smt (verit))
  ultimately show s0: "0 \<le> seek" "seek \<le> 31 * SeekTime" by (simp_all add: tick_defs)
  have rot: "rot = (if (t + seek) mod 500 > 0 then 500 - (t + seek) mod 500 else 0)"
    using assms(1,2) s0 seek r
    by (auto simp: TimeToSeek_def Let_def SectorsPerTrack_def tick_defs sdiv_nonneg smod_nonneg)
  have "0 \<le> (t + seek) mod 500" "(t + seek) mod 500 < 500" by simp_all
  then show "0 \<le> rot" "rot < RotationTime" unfolding rot tick_defs by auto
  show "(t + seek + rot) mod RotationTime = 0"
  proof (cases "(t + seek) mod 500 = 0")
    case False
    then have "rot = 500 - (t + seek) mod 500" using \<open>0 \<le> (t + seek) mod 500\<close> by (simp add: rot)
    then have "t + seek + rot = (t + seek - (t + seek) mod 500) + 500" by simp
    moreover have "500 dvd (t + seek - (t + seek) mod 500) + 500" by (intro dvd_add dvd_minus_mod) simp
    ultimately show ?thesis by (simp only: RotationTime_def mod_eq_0_iff_dvd)
  qed (simp add: rot tick_defs)
qed

lemma ComputeLatency_bounds:
  assumes "0 \<le> t" "valid_sector s" "disk_ok d"
  shows "RotationTime \<le> ComputeLatency t s w d"
    "ComputeLatency t s w d < 31 * SeekTime + 33 * RotationTime"
proof -
  obtain seek rot where sr: "TimeToSeek t s d = (seek, rot)" by force
  note b = TimeToSeek_bounds [OF sr assms]
  have "0 \<le> s" using assms(2) by (simp add: valid_sector_def)
  moreover have "0 \<le> (t + seek + rot) sdiv RotationTime"
    using b(1,3) assms(1) by (simp add: sdiv_nonneg tick_defs)
  ultimately have m: "0 \<le> ModuloDiff s ((t + seek + rot) sdiv RotationTime)"
    "ModuloDiff s ((t + seek + rot) sdiv RotationTime) < 32"
    using ModuloDiff_bounds by (auto simp: SectorsPerTrack_def)
  show "RotationTime \<le> ComputeLatency t s w d"
    "ComputeLatency t s w d < 31 * SeekTime + 33 * RotationTime"
    using b m by (auto simp: ComputeLatency_def sr Let_def tick_defs)
qed

end
