(* ===== verification/Devices.thy ===== *)
theory Devices
  imports Kernel_Safety Disk
begin

text \<open>
  The devices that interrupt the kernel: the timer (\<open>machine/timer.cc\<close>), the disk's requests
  and completion (\<open>machine/disk.cc\<close>) and the console (\<open>machine/console.cc\<close>), with the handlers
  the kernel installs for them: \<open>TimerInterruptHandler\<close> (\<open>threads/system.cc\<close>), the completion
  of \<open>SynchDisk\<close> (\<open>filesys/synchdisk.cc\<close>) and of \<open>SynchConsole\<close> (\<open>userprog/synchconsole.cc\<close>).
  The constructors of \<open>hook\<close> are the static functions whose address is passed to \<open>Schedule\<close>;
  \<open>dev_call\<close> is what calling them does.

  The host's part is a parameter: \<open>rand\<close> gives the values that \<open>Random()\<close> returns (the C
  library's \<open>rand\<close>, never negative) and \<open>typed\<close> says what the n-th poll of the keyboard's file
  finds, if anything.

  The interpretation \<open>machine\<close> shows that these handlers keep the contract \<open>kernel_calls\<close>, so
  that the invariant of the kernel holds with the real devices.
\<close>

section \<open>State\<close>

datatype hook = TimerHandler | DiskDone | ConsoleReadPoll | ConsoleWriteDone

record Console =
  putBusy :: bool
  incoming :: byte
  written :: "byte list"
  polls :: nat

text \<open>
  Beside the devices, the synchronization objects of the drivers: the semaphore and lock of
  \<open>SynchDisk\<close> and the semaphores of \<open>SynchConsole\<close>.
\<close>

record devices =
  randomize :: bool
  disk :: Disk
  console :: Console
  sd_semaphore :: sid
  sd_lock :: lid
  inputAvailable :: sid
  outputDone :: sid

record host =
  rand :: "nat \<Rightarrow> nat"
  typed :: "nat \<Rightarrow> byte option"

type_synonym nachos = "(hook, devices) kernel"

text \<open>The value of EOF stored into a \<open>char\<close>.\<close>

definition EOF_char :: byte where "EOF_char = 255"

abbreviation upd_disk where
  "upd_disk f k \<equiv> k\<lparr>devs := (devs k)\<lparr>disk := f (disk (devs k))\<rparr>\<rparr>"
abbreviation upd_console where
  "upd_console f k \<equiv> k\<lparr>devs := (devs k)\<lparr>console := f (console (devs k))\<rparr>\<rparr>"

text \<open>A handler runs with interrupts off, where \<open>SetLevel\<close> calls no other handler.\<close>

definition no_calls :: "(hook, devices) calls" where
  "no_calls h a k = Inl UNDEFINED"

section \<open>Timer\<close>

definition Random :: "host \<Rightarrow> nachos \<Rightarrow> int \<times> nachos" where
  "Random host k = (int (rand host (randCount k)), k\<lparr>randCount := randCount k + 1\<rparr>)"

definition TimeOfNextInterrupt :: "host \<Rightarrow> nachos \<Rightarrow> int \<times> nachos" where
  "TimeOfNextInterrupt host k =
     (if randomize (devs k)
      then let (r, k) = Random host k in (1 + r smod (TimerTicks * 2), k)
      else (TimerTicks, k))"

definition TimerInterruptHandler :: "nachos \<Rightarrow> nachos result" where
  "TimerInterruptHandler k = (if status (intr k) \<noteq> IdleMode then YieldOnReturn k else Inr k)"

definition Timer_ctor :: "host \<Rightarrow> bool \<Rightarrow> nachos \<Rightarrow> nachos result" where
  "Timer_ctor host doRandom k =
     (let (t, k) = TimeOfNextInterrupt host (k\<lparr>devs := (devs k)\<lparr>randomize := doRandom\<rparr>\<rparr>)
      in Schedule TimerHandler 0 t TimerInt k)"

definition TimerExpired :: "host \<Rightarrow> nachos \<Rightarrow> nachos result" where
  "TimerExpired host k =
     (let (t, k) = TimeOfNextInterrupt host k
      in bind_result (Schedule TimerHandler 0 t TimerInt k) TimerInterruptHandler)"

section \<open>Disk requests\<close>

definition ReadRequest :: "int \<Rightarrow> nachos \<Rightarrow> (byte list \<times> nachos) result" where
  "ReadRequest sectorNumber k =
     (let ticks = ComputeLatency (now k) sectorNumber False (disk (devs k))
      in bind_result (transfer_in sectorNumber (disk (devs k))) (\<lambda>(data, d).
         let k1 = upd_disk (\<lambda>_. UpdateLast (now k) sectorNumber (d\<lparr>active := True\<rparr>)) k;
             k2 = upd_stats (\<lambda>s. s\<lparr>numDiskReads := numDiskReads s + 1\<rparr>) k1
         in bind_result (Schedule DiskDone 0 ticks DiskInt k2) (\<lambda>k3. Inr (data, k3))))"

definition WriteRequest :: "int \<Rightarrow> byte list \<Rightarrow> nachos \<Rightarrow> nachos result" where
  "WriteRequest sectorNumber data k =
     (let ticks = ComputeLatency (now k) sectorNumber True (disk (devs k))
      in bind_result (transfer_out sectorNumber data (disk (devs k))) (\<lambda>d.
         let k1 = upd_disk (\<lambda>_. UpdateLast (now k) sectorNumber (d\<lparr>active := True\<rparr>)) k;
             k2 = upd_stats (\<lambda>s. s\<lparr>numDiskWrites := numDiskWrites s + 1\<rparr>) k1
         in Schedule DiskDone 0 ticks DiskInt k2))"

text \<open>\<open>SynchDisk::RequestDone\<close>, called by \<open>DiskRequestDone\<close>.\<close>

definition RequestDone :: "nachos \<Rightarrow> nachos result" where
  "RequestDone k = V no_calls (sd_semaphore (devs k)) k"

definition HandleInterrupt :: "nachos \<Rightarrow> nachos result" where
  "HandleInterrupt k = RequestDone (upd_disk (\<lambda>d. d\<lparr>active := False\<rparr>) k)"

section \<open>Console\<close>

definition Console_ctor :: "nachos \<Rightarrow> nachos result" where
  "Console_ctor k =
     Schedule ConsoleReadPoll 0 ConsoleTime ConsoleReadInt
       (upd_console (\<lambda>_. \<lparr>putBusy = False, incoming = EOF_char, written = [], polls = 0\<rparr>) k)"

definition CheckCharAvail :: "host \<Rightarrow> nachos \<Rightarrow> nachos result" where
  "CheckCharAvail host k =
     bind_result (Schedule ConsoleReadPoll 0 ConsoleTime ConsoleReadInt k) (\<lambda>k1.
       if incoming (console (devs k1)) \<noteq> EOF_char then Inr k1
       else
         let n = polls (console (devs k1));
             k2 = upd_console (\<lambda>c. c\<lparr>polls := n + 1\<rparr>) k1
         in case typed host n of
              None \<Rightarrow> Inr k2
            | Some c \<Rightarrow>
                V no_calls (inputAvailable (devs k2))
                  (upd_stats (\<lambda>s. s\<lparr>numConsoleCharsRead := numConsoleCharsRead s + 1\<rparr>)
                    (upd_console (\<lambda>con. con\<lparr>incoming := c\<rparr>) k2)))"

definition WriteDone :: "nachos \<Rightarrow> nachos result" where
  "WriteDone k =
     V no_calls (outputDone (devs k))
       (upd_stats (\<lambda>s. s\<lparr>numConsoleCharsWritten := numConsoleCharsWritten s + 1\<rparr>)
         (upd_console (\<lambda>c. c\<lparr>putBusy := False\<rparr>) k))"

definition GetChar :: "nachos \<Rightarrow> byte \<times> nachos" where
  "GetChar k = (incoming (console (devs k)), upd_console (\<lambda>c. c\<lparr>incoming := EOF_char\<rparr>) k)"

definition PutChar :: "byte \<Rightarrow> nachos \<Rightarrow> nachos result" where
  "PutChar ch k =
     bind_result (ASSERT (\<not> putBusy (console (devs k)))) (\<lambda>_.
       Schedule ConsoleWriteDone 0 ConsoleTime ConsoleWriteInt
         (upd_console (\<lambda>c. c\<lparr>written := written c @ [ch], putBusy := True\<rparr>) k))"

section \<open>The table of handlers\<close>

fun dev_call :: "host \<Rightarrow> (hook, devices) calls" where
  "dev_call host TimerHandler a k = TimerExpired host k"
| "dev_call host DiskDone a k = HandleInterrupt k"
| "dev_call host ConsoleReadPoll a k = CheckCharAvail host k"
| "dev_call host ConsoleWriteDone a k = WriteDone k"

lemma devs_view [simp]:
  fixes k :: nachos
  shows "status_of (k\<lparr>devs := d\<rparr>) = status_of k" "frames_of (k\<lparr>devs := d\<rparr>) = frames_of k"
    "status_of (k\<lparr>randCount := n\<rparr>) = status_of k" "frames_of (k\<lparr>randCount := n\<rparr>) = frames_of k"
  by (simp_all add: status_of_def frames_of_def fun_eq_iff)

lemma devs_queue [simp]:
  fixes k :: nachos
  shows "queue (k\<lparr>devs := d\<rparr>) = queue k" "queue (k\<lparr>randCount := n\<rparr>) = queue k"
  by (rule queue_cong; simp)+

lemma fences_devs [simp]:
  "fences_ok (k\<lparr>devs := d\<rparr>) = fences_ok k" "fences_ok (k\<lparr>randCount := n\<rparr>) = fences_ok k"
  by (simp_all add: fences_ok_def)

lemma kinv_devs:
  fixes k :: nachos
  shows "kinv k \<Longrightarrow> kinv (k\<lparr>devs := d\<rparr>)" "kinv k \<Longrightarrow> kinv (k\<lparr>randCount := n\<rparr>)"
  using kinv_rest(2,3) [of k]
  by (auto intro!: kinv_values [of k] simp: sem_ok_cong [of "k\<lparr>devs := d\<rparr>" _ k] sem_ok_cong [of "k\<lparr>randCount := n\<rparr>" _ k])

text \<open>What the kernel asks of a handler, as a relation between its start and its end.\<close>

definition handled :: "nachos \<Rightarrow> nachos \<Rightarrow> bool" where
  "handled k k' \<longleftrightarrow> kinv k' \<and> same_run k k' \<and> handler_effect k k'"

lemma handled_trans: "handled k k' \<Longrightarrow> handled k' k'' \<Longrightarrow> handled k k''"
  by (auto simp: handled_def same_run_def intro: handler_effect_trans)

lemma handled_fields:
  assumes "kinv k" "pending_wf k"
  shows "handled k (k\<lparr>devs := d\<rparr>)" "handled k (k\<lparr>randCount := n\<rparr>)"
    and "totalTicks s = now k \<Longrightarrow> idleTicks s = idleTicks (stats k) \<Longrightarrow> systemTicks s = systemTicks (stats k) \<Longrightarrow>
      userTicks s = userTicks (stats k) \<Longrightarrow> handled k (k\<lparr>stats := s\<rparr>)"
  using assms by (auto simp: handled_def same_run_def handler_effect_def pending_wf_def due_list_def kinv_devs)

lemma handled_Schedule:
  assumes "kinv k" "pending_wf k" "0 < n"
  shows "\<exists>k'. Schedule h a n t k = Inr k' \<and> handled k k' \<and> devs k' = devs k"
proof -
  obtain k' where k': "Schedule h a n t k = Inr k'"
    using assms(3) by (simp add: Schedule_eq_Inr)
  then have "kinv k'" "same_run k k'" "devs k' = devs k"
    using assms(1) by (auto simp: Schedule_eq_Inr same_run_def)
  then show ?thesis using k' Schedule_effect [OF assms(2) k'] by (simp add: handled_def)
qed

lemma handled_V:
  assumes "kinv k" "pending_wf k" "level (intr k) = IntOff"
  shows "\<exists>k'. V no_calls s k = Inr k' \<and> handled k k'"
proof -
  from V_atomic [OF assms(1), of no_calls s] obtain k2 where
    "V no_calls s k = SetLevel no_calls IntOff k2" and a: "atomic k k2" using assms(3) by auto
  then have v: "V no_calls s k = Inr (ChangeLevel IntOff k2)" by (simp add: SetLevel_IntOff)
  have "kinv (ChangeLevel IntOff k2)" using a by (simp add: atomic_def)
  moreover have "same_run k (ChangeLevel IntOff k2)" using a by (simp add: atomic_def same_run_def)
  moreover have "handler_effect k (ChangeLevel IntOff k2)"
    using a assms(2,3) by (simp add: handler_effect_def atomic_def pending_wf_def due_list_def)
  ultimately show ?thesis using v by (simp add: handled_def)
qed

lemma handledD: "handled k k' \<Longrightarrow> kinv k' \<and> pending_wf k' \<and> level (intr k') = level (intr k) \<and>
   inHandler (intr k') = inHandler (intr k)"
  by (simp add: handled_def handler_effect_def)

lemma TimeOfNextInterrupt_pos:
  "TimeOfNextInterrupt host k = (t, k') \<Longrightarrow> 0 < t \<and> t \<le> 2 * TimerTicks \<and> (k' = k \<or> k' = k\<lparr>randCount := randCount k + 1\<rparr>)"
  by (auto simp: TimeOfNextInterrupt_def Random_def Let_def tick_defs smod_nonneg split: if_splits)

lemma handled_refl: "kinv k \<Longrightarrow> pending_wf k \<Longrightarrow> handled k k"
  by (simp add: handled_def same_run_def handler_effect_refl)

lemma TimerExpired_handled:
  assumes "kinv k" "pending_wf k" "inHandler (intr k)"
  shows "\<exists>k'. TimerExpired host k = Inr k' \<and> handled k k'"
proof -
  obtain t k1 where t: "TimeOfNextInterrupt host k = (t, k1)" by force
  from TimeOfNextInterrupt_pos [OF t] have "0 < t" and h1: "handled k k1"
    using handled_fields(2) [OF assms(1,2)] handled_refl [OF assms(1,2)] by auto
  with handled_Schedule [of k1 t TimerHandler 0 TimerInt] handledD [OF h1] obtain k2 where
    k2: "Schedule TimerHandler 0 t TimerInt k1 = Inr k2" "handled k1 k2" by blast
  have "inHandler (intr k2)" using handledD [OF k2(2)] handledD [OF h1] assms(3) by simp
  moreover have "handled k2 (upd_intr (\<lambda>i. i\<lparr>yieldOnReturn := True\<rparr>) k2)"
    using handledD [OF k2(2)] by (simp add: handled_def same_run_def handler_effect_def pending_wf_def due_list_def)
  ultimately have "\<exists>k3. TimerInterruptHandler k2 = Inr k3 \<and> handled k2 k3"
    using handled_refl [of k2] handledD [OF k2(2)] by (simp add: TimerInterruptHandler_def YieldOnReturn_def)
  then show ?thesis using t k2 h1 by (auto simp: TimerExpired_def intro: handled_trans)
qed

lemma HandleInterrupt_handled:
  assumes "kinv k" "pending_wf k" "level (intr k) = IntOff"
  shows "\<exists>k'. HandleInterrupt k = Inr k' \<and> handled k k'"
proof -
  let ?k = "upd_disk (\<lambda>d. d\<lparr>active := False\<rparr>) k"
  have h: "handled k ?k" by (rule handled_fields(1) [OF assms(1,2)])
  with handled_V [of ?k] handledD [OF h] assms(3) show ?thesis
    by (auto simp: HandleInterrupt_def RequestDone_def intro: handled_trans)
qed

lemma WriteDone_handled:
  assumes "kinv k" "pending_wf k" "level (intr k) = IntOff"
  shows "\<exists>k'. WriteDone k = Inr k' \<and> handled k k'"
proof -
  let ?k1 = "upd_console (\<lambda>c. c\<lparr>putBusy := False\<rparr>) k"
  let ?k2 = "upd_stats (\<lambda>s. s\<lparr>numConsoleCharsWritten := numConsoleCharsWritten s + 1\<rparr>) ?k1"
  have h1: "handled k ?k1" by (rule handled_fields(1) [OF assms(1,2)])
  have h2: "handled ?k1 ?k2" by (rule handled_fields(3)) (use handledD [OF h1] in simp_all)
  have h: "handled k ?k2" by (rule handled_trans [OF h1 h2])
  with handled_V [of ?k2] handledD [OF h] assms(3) show ?thesis
    by (auto simp: WriteDone_def intro: handled_trans)
qed

lemma CheckCharAvail_handled:
  assumes "kinv k" "pending_wf k" "level (intr k) = IntOff"
  shows "\<exists>k'. CheckCharAvail host k = Inr k' \<and> handled k k'"
proof -
  from handled_Schedule [OF assms(1,2), of ConsoleTime ConsoleReadPoll 0 ConsoleReadInt] obtain k1 where
    k1: "Schedule ConsoleReadPoll 0 ConsoleTime ConsoleReadInt k = Inr k1" "handled k k1"
    by (auto simp: tick_defs)
  let ?n = "polls (console (devs k1))"
  let ?k2 = "upd_console (\<lambda>c. c\<lparr>polls := ?n + 1\<rparr>) k1"
  have h2: "handled k ?k2"
    using k1(2) handled_fields(1) [of k1] handledD [OF k1(2)] by (auto intro: handled_trans)
  let ?k3 = "\<lambda>c. upd_console (\<lambda>con. con\<lparr>incoming := c\<rparr>) ?k2"
  let ?k4 = "\<lambda>c. upd_stats (\<lambda>s. s\<lparr>numConsoleCharsRead := numConsoleCharsRead s + 1\<rparr>) (?k3 c)"
  have h3: "handled k (?k3 c)" for c
    by (rule handled_trans [OF h2 handled_fields(1)]) (use handledD [OF h2] in simp_all)
  have h4: "handled k (?k4 c)" for c
    by (rule handled_trans [OF h3 [of c] handled_fields(3)]) (use handledD [OF h3 [of c]] in simp_all)
  have "\<exists>k'. V no_calls (inputAvailable (devs ?k2)) (?k4 c) = Inr k' \<and> handled k k'" for c
    using handled_V [of "?k4 c"] handledD [OF h4 [of c]] assms(3) h4 [of c] by (auto intro: handled_trans)
  then show ?thesis using k1 h2
    by (auto simp: CheckCharAvail_def Let_def split: option.splits)
qed

interpretation machine: kernel_calls "dev_call host" for host
proof
  fix k :: nachos and h a
  assume "kinv k" "pending_wf k" "inHandler (intr k)" "level (intr k) = IntOff"
  then have "\<exists>k'. dev_call host h a k = Inr k' \<and> handled k k'"
    using TimerExpired_handled HandleInterrupt_handled CheckCharAvail_handled WriteDone_handled
    by (cases h) auto
  then show "\<exists>k'. dev_call host h a k = Inr k' \<and> kinv k' \<and> same_run k k' \<and> handler_effect k k'"
    by (auto simp: handled_def)
qed


section \<open>The whole machine\<close>

text \<open>
  What a thread may ask of the devices, and the steps of the kernel with the devices. The disk
  takes one request at a time, for a sector it has, and the console one character at a time
  (the assertions of \<open>ReadRequest\<close>, \<open>WriteRequest\<close> and \<open>PutChar\<close>); the drivers' locks and
  semaphores are there to see to that.
\<close>

datatype action = Kernel "request option" | Do_ReadRequest int | Do_WriteRequest int "byte list"
  | Do_PutChar byte | Do_GetChar

fun machine_step :: "host \<Rightarrow> action \<Rightarrow> nachos \<Rightarrow> nachos result" where
  "machine_step host (Kernel r) k = step (dev_call host) r k"
| "machine_step host (Do_ReadRequest s) k = bind_result (ReadRequest s k) (\<lambda>(_, k'). Inr k')"
| "machine_step host (Do_WriteRequest s bs) k = WriteRequest s bs k"
| "machine_step host (Do_PutChar c) k = PutChar c k"
| "machine_step host Do_GetChar k = Inr (snd (GetChar k))"

definition in_body :: "nachos \<Rightarrow> bool" where
  "in_body k \<longleftrightarrow> (case frames_of k (currentThread k) of f # _ \<Rightarrow> f = ThreadBody | [] \<Rightarrow> False)"

fun machine_allowed :: "action \<Rightarrow> nachos \<Rightarrow> bool" where
  "machine_allowed (Kernel r) k \<longleftrightarrow> allowed r k"
| "machine_allowed (Do_ReadRequest s) k \<longleftrightarrow>
     in_body k \<and> valid_sector s \<and> disk_ok (disk (devs k)) \<and> \<not> active (disk (devs k))"
| "machine_allowed (Do_WriteRequest s bs) k \<longleftrightarrow>
     in_body k \<and> valid_sector s \<and> disk_ok (disk (devs k)) \<and> \<not> active (disk (devs k)) \<and>
     length bs = SectorSize"
| "machine_allowed (Do_PutChar c) k \<longleftrightarrow> in_body k \<and> \<not> putBusy (console (devs k))"
| "machine_allowed Do_GetChar k \<longleftrightarrow> in_body k"

text \<open>The machine when the main thread starts, with or without the timer of the flag \<open>-rs\<close>.\<close>

definition machine_boot ::
  "host \<Rightarrow> bool \<Rightarrow> (sid \<Rightarrow> int) \<Rightarrow> (lid \<Rightarrow> tid option) \<Rightarrow> (cid \<Rightarrow> lid option) \<Rightarrow> devices \<Rightarrow> nachos result" where
  "machine_boot host randomYield values owners waiting d =
     (if randomYield then Timer_ctor host randomYield (boot values owners waiting d)
      else Inr (boot values owners waiting d))"

inductive machine_reachable :: "host \<Rightarrow> nachos \<Rightarrow> nachos \<Rightarrow> bool"
  for host k0 where
  machine_start: "machine_reachable host k0 k0"
| machine_next: "machine_reachable host k0 k \<Longrightarrow> machine_allowed a k \<Longrightarrow> machine_step host a k = Inr k' \<Longrightarrow>
    machine_reachable host k0 k'"

lemma kernel_inv_handled:
  assumes "kernel_inv k" "handled k k'"
  shows "kernel_inv k'"
  using assms
  by (auto simp: kernel_inv_def levels_ok_def handled_def same_run_def handler_effect_def)

lemma disk_request_ok:
  fixes k :: nachos
  assumes "kernel_inv k" "valid_sector s" "disk_ok (disk (devs k))"
    and "totalTicks st = now k" "idleTicks st = idleTicks (stats k)" "systemTicks st = systemTicks (stats k)"
      "userTicks st = userTicks (stats k)"
  shows "\<exists>k'. Schedule DiskDone 0 (ComputeLatency (now k) s w (disk (devs k))) DiskInt (k\<lparr>devs := d, stats := st\<rparr>) = Inr k'
    \<and> kernel_inv k'"
proof -
  have k: "kinv k" "pending_wf k" "0 \<le> now k" using assms(1) by (auto simp: kernel_inv_def levels_ok_def)
  have h1: "handled k (k\<lparr>devs := d\<rparr>)" by (rule handled_fields(1) [OF k(1,2)])
  then have "handled (k\<lparr>devs := d\<rparr>) (k\<lparr>devs := d, stats := st\<rparr>)"
    using handled_fields(3) [of "k\<lparr>devs := d\<rparr>" st] handledD [OF h1] assms(4-7) by simp
  with h1 have h: "handled k (k\<lparr>devs := d, stats := st\<rparr>)" by (rule handled_trans)
  have "0 < ComputeLatency (now k) s w (disk (devs k))"
    using ComputeLatency_bounds(1) [OF k(3) assms(2,3), of w] by (simp add: tick_defs)
  with handled_Schedule [of "k\<lparr>devs := d, stats := st\<rparr>"] handledD [OF h] obtain k' where
    "Schedule DiskDone 0 (ComputeLatency (now k) s w (disk (devs k))) DiskInt (k\<lparr>devs := d, stats := st\<rparr>) = Inr k'"
    "handled (k\<lparr>devs := d, stats := st\<rparr>) k'" by blast
  then show ?thesis using kernel_inv_handled [OF assms(1) handled_trans [OF h]] by blast
qed

lemma machine_step_ok:
  assumes "kernel_inv k" "machine_allowed a k"
  shows "(\<exists>k'. machine_step host a k = Inr k' \<and> kernel_inv k') \<or> machine_step host a k = Inl HALTED"
proof (cases a)
  case (Kernel r)
  then show ?thesis using machine.step_ok [OF assms(1), of r host] assms(2) by simp
next
  case (Do_ReadRequest s)
  with assms(2) transfer_in_ok [of s "disk (devs k)"] obtain g where
    g: "transfer_in s (disk (devs k)) = Inr (sector_data s (disk (devs k)), (disk (devs k))\<lparr>fileno := g\<rparr>)" by auto
  have "valid_sector s" "disk_ok (disk (devs k))" using assms(2) Do_ReadRequest by auto
  from disk_request_ok [OF assms(1) this, of "stats k\<lparr>numDiskReads := numDiskReads (stats k) + 1\<rparr>" False
      "(devs k)\<lparr>disk := UpdateLast (now k) s ((disk (devs k))\<lparr>fileno := g, active := True\<rparr>)\<rparr>"]
  show ?thesis using Do_ReadRequest by (auto simp: ReadRequest_def g Let_def)
next
  case (Do_WriteRequest s bs)
  with assms(2) transfer_out_ok [of s "disk (devs k)" bs] obtain g where
    g: "transfer_out s bs (disk (devs k)) = Inr ((disk (devs k))\<lparr>fileno := g\<rparr>)" by auto
  show ?thesis using assms Do_WriteRequest
      disk_request_ok [OF assms(1), of s "stats k\<lparr>numDiskWrites := numDiskWrites (stats k) + 1\<rparr>" True]
    by (auto simp: WriteRequest_def g Let_def)
next
  case (Do_PutChar c)
  let ?k = "upd_console (\<lambda>con. con\<lparr>written := written con @ [c], putBusy := True\<rparr>) k"
  have k: "kinv k" "pending_wf k" using assms(1) by (auto simp: kernel_inv_def levels_ok_def)
  have h: "handled k ?k" by (rule handled_fields(1) [OF k])
  with handled_Schedule [of ?k ConsoleTime ConsoleWriteDone 0 ConsoleWriteInt] handledD [OF h]
  obtain k' where "Schedule ConsoleWriteDone 0 ConsoleTime ConsoleWriteInt ?k = Inr k'" "handled ?k k'"
    by (auto simp: tick_defs)
  then show ?thesis using Do_PutChar assms kernel_inv_handled [OF assms(1) handled_trans [OF h]]
    by (simp add: PutChar_def)
next
  case Do_GetChar
  have k: "kinv k" "pending_wf k" using assms(1) by (auto simp: kernel_inv_def levels_ok_def)
  then show ?thesis using Do_GetChar kernel_inv_handled [OF assms(1) handled_fields(1) [OF k]]
    by (simp add: GetChar_def)
qed

lemma machine_reachable_inv: "machine_reachable host k0 k \<Longrightarrow> kernel_inv k0 \<Longrightarrow> kernel_inv k"
proof (induction rule: machine_reachable.induct)
  case (machine_next k a k')
  then show ?case using machine_step_ok [of k a host] by auto
qed

lemma machine_boot_inv:
  assumes "\<And>s. 0 \<le> values s"
  shows "\<exists>k. machine_boot host r values owners waiting d = Inr k \<and> kernel_inv k"
proof -
  let ?b = "boot values owners waiting d :: nachos"
  have b: "kernel_inv ?b" by (rule boot_inv [OF assms])
  then have k: "kinv ?b" "pending_wf ?b" by (auto simp: kernel_inv_def levels_ok_def)
  let ?k1 = "?b\<lparr>devs := (devs ?b)\<lparr>randomize := True\<rparr>\<rparr>"
  have h1: "handled ?b ?k1" by (rule handled_fields(1) [OF k])
  obtain t k2 where t: "TimeOfNextInterrupt host ?k1 = (t, k2)" by force
  have h2: "handled ?b k2"
    using TimeOfNextInterrupt_pos [OF t] h1 handled_fields(2) [of ?k1] handledD [OF h1] by (auto intro: handled_trans)
  with handled_Schedule [of k2 t TimerHandler 0 TimerInt] handledD [OF h2] TimeOfNextInterrupt_pos [OF t]
  obtain k3 where "Schedule TimerHandler 0 t TimerInt k2 = Inr k3" "handled k2 k3" by blast
  then have "r \<Longrightarrow> machine_boot host r values owners waiting d = Inr k3" "kernel_inv k3"
    using t kernel_inv_handled [OF b handled_trans [OF h2]] by (auto simp: machine_boot_def Timer_ctor_def)
  then show ?thesis using b by (cases r) (auto simp: machine_boot_def)
qed

end
