(* ===== verification/Kernel_Properties.thy ===== *)
theory Kernel_Properties
  imports Devices
begin

text \<open>
  The properties of the kernel with its devices: safety, the queues, semaphores, locks and
  condition variables, the scheduler and the interrupt queue. \<open>run\<close> executes a sequence of
  actions, so that concrete executions can be evaluated.
\<close>

fun run :: "host \<Rightarrow> action list \<Rightarrow> nachos \<Rightarrow> nachos result" where
  "run host [] k = Inr k"
| "run host (a # as) k =
     (if machine_allowed a k then bind_result (machine_step host a k) (run host as) else Inl UNDEFINED)"

lemma run_reachable: "run host as k = Inr k' \<Longrightarrow> machine_reachable host k0 k \<Longrightarrow> machine_reachable host k0 k'"
  by (induction as arbitrary: k) (auto simp: result_simps split: if_splits intro: machine_next)

text \<open>A machine for concrete runs: no randomness, nothing typed, an empty disk.\<close>

definition quiet :: host where
  "quiet = \<lparr>rand = (\<lambda>_. 0), typed = (\<lambda>_. None)\<rparr>"

definition plain_devices :: devices where
  "plain_devices = \<lparr>randomize = False,
     disk = \<lparr>fileno = \<lparr>contents = [], offset = 0\<rparr>, active = False, lastSector = 0, bufferInit = 0\<rparr>,
     console = \<lparr>putBusy = False, incoming = EOF_char, written = [], polls = 0\<rparr>,
     sd_semaphore = 100, sd_lock = 100, inputAvailable = 101, outputDone = 102\<rparr>"

definition plain_boot :: nachos where
  "plain_boot = boot (\<lambda>_. 0) (\<lambda>_. None) (\<lambda>_. None) plain_devices"

lemma plain_boot: "machine_boot quiet False (\<lambda>_. 0) (\<lambda>_. None) (\<lambda>_. None) plain_devices = Inr plain_boot"
  by (simp add: machine_boot_def plain_boot_def)

text \<open>
  Thread 0 creates thread 1 and takes lock 0; thread 1 asks for the lock and sleeps; thread 0
  releases the lock, takes it again and yields; thread 1 continues.
\<close>

definition contended :: "action list" where
  "contended = map Kernel
     ([None, Some (Do_new_Thread 1 ''t''), Some (Do_Fork 1), Some (Do_Acquire 0), Some Do_Yield,
       None, Some (Do_Acquire 0), None, None, None,
       Some (Do_Release 0), Some (Do_Acquire 0), Some Do_Yield, None, None])"

text \<open>
  The evaluation of longer runs: the definitions of the kernel, with congruence rules that
  evaluate an operation before what follows it.
\<close>

lemma bind_weak: "m = m' \<Longrightarrow> bind_result m f = bind_result m' f" by simp
lemma let_weak: "m = m' \<Longrightarrow> Let m f = Let m' f" by simp

lemmas kernel_eval = Let_def in_body_def machine_step.simps step_def exec_frame_def perform.simps
  P_def P_round_def V_def upd_sem_def Acquire_def Release_def isHeldByCurrentThread_def upd_lock_def
  Wait_def Signal_def Broadcast_def Broadcast_loop.simps upd_cond_def
  Sleep_def Sleep_round_def Finish_def Yield_def Run_def Run_resume_def delete_thread_def CheckOverflow_def FindNextToRun_def
  ReadyToRun_def setStatus_def SetLevel_def OneTick_def fire_due_def fire_due_loop.simps CheckIfDue_def advance_clock_def
  Idle_def Halt_def ChangeLevel_def ASSERT_def push_def pop_def upd_thread_def frames_of_def new_Thread_def Thread_ctor_def
  StackAllocate_def Fork_def boot_def Interrupt_ctor_def Statistics_ctor_def Semaphore_ctor_def Lock_ctor_def Condition_ctor_def
  plain_boot_def tick_defs

section \<open>Safety\<close>

lemma started_inv:
  assumes "\<And>s. 0 \<le> values s" "machine_boot host r values owners waiting d = Inr k0"
    and "machine_reachable host k0 k"
  shows "kernel_inv k"
proof -
  have "\<exists>k. machine_boot host r values owners waiting d = Inr k \<and> kernel_inv k"
    by (rule machine_boot_inv [OF assms(1)])
  then show ?thesis using assms(2) machine_reachable_inv [OF assms(3)] by auto
qed

text \<open>
  C1: Whatever the threads ask for, within the rules, and whatever the devices do, the kernel
  never runs into a failed assertion, a dangling pointer, a stack that lacks a frame or a loop
  of interrupts that does not end: every step succeeds or halts the machine.
\<close>

theorem kernel_never_faults:
  assumes "\<And>s. 0 \<le> values s" "machine_boot host r values owners waiting d = Inr k0"
    and "machine_reachable host k0 k" "machine_allowed a k"
  shows "(\<exists>k'. machine_step host a k = Inr k') \<or> machine_step host a k = Inl HALTED"
  using machine_step_ok [OF started_inv [OF assms(1-3)] assms(4)] by blast

theorem kernel_never_faults_witness:
  "\<exists>k. run quiet (take 7 contended) plain_boot = Inr k \<and>
     ((\<exists>k'. machine_step quiet (Kernel None) k = Inr k') \<or> machine_step quiet (Kernel None) k = Inl HALTED)"
proof -
  have "\<not> isl (run quiet (take 7 contended) plain_boot)" by code_simp
  then obtain k where k: "run quiet (take 7 contended) plain_boot = Inr k" by (cases "run quiet (take 7 contended) plain_boot") auto
  from kernel_never_faults [OF _ plain_boot run_reachable [OF k machine_start], of "Kernel None"] k
  show ?thesis by simp
qed

text \<open>
  C2: In every reachable state a thread stands on at most one of the kernel's queues and once
  only; the threads on the ready list are the ones with status READY among those queued, and
  the threads on a semaphore's, lock's or condition's queue are BLOCKED.
\<close>

theorem threads_queued_once:
  assumes "\<And>s. 0 \<le> values s" "machine_boot host r values owners waiting d = Inr k0"
    and "machine_reachable host k0 k"
  shows "distinct (queue k q) \<and> (\<forall>t \<in> set (queue k q). (\<forall>q'. t \<in> set (queue k q') \<longrightarrow> q' = q) \<and>
     status_of k t = Some (if q = ReadyQ then READY else BLOCKED))"
proof -
  have k: "kinv k" using started_inv [OF assms] by (simp add: kernel_inv_def)
  have "status_of k t = Some (if q = ReadyQ then READY else BLOCKED)" if "t \<in> set (queue k q)" for t
    using kinv_queues(3) [OF k that] by (simp add: queued_ok_def)
  then show ?thesis using kinv_queues(1,2) [OF k] by blast
qed

theorem threads_queued_once_witness:
  "\<exists>k. run quiet (take 7 contended) plain_boot = Inr k \<and> queue k (LockQ 0) = [1] \<and>
     status_of k 1 = Some BLOCKED \<and> 1 \<notin> set (queue k ReadyQ)"
proof -
  have "case run quiet (take 7 contended) plain_boot of Inr k \<Rightarrow> queue k (LockQ 0) = [1] | _ \<Rightarrow> False"
    by code_simp
  then obtain k where k: "run quiet (take 7 contended) plain_boot = Inr k" "queue k (LockQ 0) = [1]"
    by (auto split: sum.splits)
  from threads_queued_once [OF _ plain_boot run_reachable [OF k(1) machine_start], of "LockQ 0"] k
  show ?thesis by auto
qed

section \<open>Semaphores\<close>

text \<open>
  C3: The value of a semaphore is never negative, and no wake-up is lost: as long as threads
  sleep on it, its value is at most the number of threads that were woken (or have not slept
  yet) and are going to test the value in the loop of \<open>P\<close>.
\<close>

theorem semaphore_no_lost_wakeup:
  assumes "\<And>s. 0 \<le> values s" "machine_boot host r values owners waiting d = Inr k0"
    and "machine_reachable host k0 k"
  shows "0 \<le> sem_value (semaphores k s) \<and>
     (sem_queue (semaphores k s) \<noteq> [] \<longrightarrow> sem_value (semaphores k s) \<le> int (card (woken k s)))"
proof -
  have k: "kinv k" using started_inv [OF assms] by (simp add: kernel_inv_def)
  then show ?thesis using kinv_rest(3) [OF k, of s] by (auto simp: sem_ok_def queue.simps)
qed

text \<open>Thread 0 creates thread 1, which sleeps in \<open>P\<close> of semaphore 0.\<close>

definition sleeper :: "action list" where
  "sleeper = map Kernel
     [None, Some (Do_new_Thread 1 ''t''), Some (Do_Fork 1), Some Do_Yield, None, Some (Do_P 0), None]"

theorem semaphore_no_lost_wakeup_witness:
  "\<exists>k. run quiet sleeper plain_boot = Inr k \<and> sem_queue (semaphores k 0) = [1] \<and>
     0 \<le> sem_value (semaphores k 0) \<and> sem_value (semaphores k 0) \<le> int (card (woken k 0))"
proof -
  have "case run quiet sleeper plain_boot of Inr k \<Rightarrow> sem_queue (semaphores k 0) = [1] | _ \<Rightarrow> False"
    by code_simp
  then obtain k where k: "run quiet sleeper plain_boot = Inr k" "sem_queue (semaphores k 0) = [1]"
    by (auto split: sum.splits)
  note q = semaphore_no_lost_wakeup [OF _ plain_boot run_reachable [OF k(1) machine_start], of 0]
  show ?thesis using k q by auto
qed

section \<open>Locks\<close>

text \<open>
  C4: A lock does not give mutual exclusion: there is an execution in which thread 1 has
  returned from \<open>Acquire\<close> and runs its body while thread 0 owns the lock and is in its own
  body (it was only switched out by \<open>Yield\<close>). A thread that waited for the lock returns from
  \<open>Acquire\<close> without testing or taking it.
\<close>

theorem lock_not_exclusive:
  "\<exists>k. run quiet contended plain_boot = Inr k \<and> currentThread k = 1 \<and>
     frames_of k 1 = [ThreadBody, ThreadFinish] \<and>
     frames_of k 0 = [AfterRun, RestoreLevel IntOn, ThreadBody, ThreadFinish] \<and>
     acquired (locks k 0) \<and> owner (locks k 0) = Some 0"
proof -
  have "case run quiet contended plain_boot of
      Inr k \<Rightarrow> currentThread k = 1 \<and> frames_of k 1 = [ThreadBody, ThreadFinish] \<and>
        frames_of k 0 = [AfterRun, RestoreLevel IntOn, ThreadBody, ThreadFinish] \<and>
        acquired (locks k 0) \<and> owner (locks k 0) = Some 0
    | _ \<Rightarrow> False" by code_simp
  then show ?thesis by (auto split: sum.splits)
qed

text \<open>
  \<open>Release\<close> called by a thread that does not own the lock leaves owner and state of the
  lock alone, but it still takes the first waiter off the queue and makes it ready; that
  waiter then returns from \<open>Acquire\<close> although the lock is held.
\<close>

theorem Release_by_stranger:
  assumes "kinv k" "level (intr k) = IntOff" "owner (locks k l) \<noteq> Some (currentThread k)"
    and "lock_queue (locks k l) = t # ts"
  shows "\<exists>k'. Release call l k = Inr k' \<and> locks k' l = (locks k l)\<lparr>lock_queue := ts\<rparr> \<and>
     readyList k' = readyList k @ [t] \<and> status_of k' t = Some READY"
proof -
  have "threads k t \<noteq> None" using queued_exists [OF assms(1), of t "LockQ l"] assms(4) by (simp add: queue.simps)
  then show ?thesis using assms(2-4)
    by (auto simp: Release_def Let_def isHeldByCurrentThread_def ReadyToRun_def SetLevel_IntOff)
qed

theorem Release_by_stranger_witness:
  "\<exists>k k'. run quiet (take 7 contended) plain_boot = Inr k \<and> owner (locks k 0) = Some 0 \<and> currentThread k = 1 \<and>
     Release no_calls 0 k = Inr k' \<and> owner (locks k' 0) = Some 0 \<and> 1 \<in> set (readyList k')"
proof -
  have "case run quiet (take 7 contended) plain_boot of
      Inr k \<Rightarrow> lock_queue (locks k 0) = [1] \<and> owner (locks k 0) = Some 0 \<and> currentThread k = 1 \<and> level (intr k) = IntOff
    | _ \<Rightarrow> False" by code_simp
  then obtain k where k: "run quiet (take 7 contended) plain_boot = Inr k" "lock_queue (locks k 0) = [1]"
    "owner (locks k 0) = Some 0" "currentThread k = 1" "level (intr k) = IntOff"
    by (auto split: sum.splits)
  have "kinv k" using started_inv [OF _ plain_boot run_reachable [OF k(1) machine_start]]
    by (simp add: kernel_inv_def)
  from Release_by_stranger [OF this k(5) _ k(2), of no_calls] k show ?thesis by auto
qed

section \<open>Wake-ups\<close>

text \<open>
  \<open>V\<close> raises the value by one and makes the thread ready that has slept longest on the
  semaphore; the others keep their order. (Stated where \<open>V\<close> is called with interrupts off, as
  the handlers do; otherwise the level is restored behind it.)
\<close>

theorem V_wakes_first:
  assumes "kinv k" "level (intr k) = IntOff" "sem_queue (semaphores k s) = t # ts"
  shows "\<exists>k'. V call s k = Inr k' \<and> sem_value (semaphores k' s) = sem_value (semaphores k s) + 1 \<and>
     sem_queue (semaphores k' s) = ts \<and> readyList k' = readyList k @ [t] \<and> kinv k'"
proof -
  have "threads k t \<noteq> None" using queued_exists [OF assms(1), of t "SemQ s"] assms(3) by (simp add: queue.simps)
  then have v: "V call s k = Inr (upd_sem s (\<lambda>sem. sem\<lparr>sem_value := sem_value sem + 1\<rparr>)
      ((setStatus t READY (upd_sem s (\<lambda>sem. sem\<lparr>sem_queue := ts\<rparr>) (ChangeLevel IntOff k)))
         \<lparr>readyList := readyList k @ [t]\<rparr>))" (is "_ = Inr ?k'")
    using assms(2,3) by (auto simp: V_def Let_def ReadyToRun_def SetLevel_IntOff ChangeLevel_def upd_sem_def
        setStatus_def upd_thread_def)
  have "kinv x" if "V call s k = Inr x" for x
    using V_atomic [OF assms(1), of call s] assms(2) that by (auto simp: SetLevel_IntOff atomic_def)
  then have "kinv ?k'" using v by blast
  with v show ?thesis by simp
qed

theorem V_wakes_first_witness:
  "\<exists>k k'. run quiet sleeper plain_boot = Inr k \<and> V no_calls 0 k = Inr k' \<and>
     sem_value (semaphores k' 0) = 1 \<and> sem_queue (semaphores k' 0) = [] \<and> 1 \<in> set (readyList k')"
proof -
  have "case run quiet sleeper plain_boot of
      Inr k \<Rightarrow> sem_queue (semaphores k 0) = [1] \<and> sem_value (semaphores k 0) = 0 \<and> level (intr k) = IntOff
    | _ \<Rightarrow> False" by code_simp
  then obtain k where k: "run quiet sleeper plain_boot = Inr k" "sem_queue (semaphores k 0) = [1]"
    "sem_value (semaphores k 0) = 0" "level (intr k) = IntOff" by (auto split: sum.splits)
  have "kinv k" using started_inv [OF _ plain_boot run_reachable [OF k(1) machine_start]]
    by (simp add: kernel_inv_def)
  from V_wakes_first [OF this k(4,2), of no_calls] k show ?thesis by auto
qed

lemma Broadcast_loop_result:
  "\<forall>t \<in> set ts. threads k t \<noteq> None \<Longrightarrow> \<exists>k'. Broadcast_loop ts c k = Inr k' \<and> readyList k' = readyList k @ ts \<and>
     (waitQueue (conditions k c) = ts \<longrightarrow> waitQueue (conditions k' c) = []) \<and> level (intr k') = level (intr k)"
proof (induction ts arbitrary: k)
  case Nil
  then show ?case by simp
next
  case (Cons t ts)
  let ?k = "(setStatus t READY (upd_cond c (\<lambda>cv. cv\<lparr>waitQueue := ts\<rparr>) k))\<lparr>readyList := readyList k @ [t]\<rparr>"
  have "\<forall>u \<in> set ts. threads ?k u \<noteq> None" using Cons.prems by simp
  from Cons.IH [OF this] Cons.prems show ?case by (auto simp: ReadyToRun_def Let_def)
qed

text \<open>
  \<open>Broadcast\<close> makes every thread that waits on the condition ready, in the order in which
  they went to wait, and leaves nobody waiting; the lock that is passed plays no role.
\<close>

theorem Broadcast_wakes_all:
  assumes "kinv k" "level (intr k) = IntOff"
  shows "\<exists>k'. Broadcast call c l k = Inr k' \<and> waitQueue (conditions k' c) = [] \<and>
     readyList k' = readyList k @ waitQueue (conditions k c)"
proof -
  let ?k = "ChangeLevel IntOff k"
  have "\<forall>t \<in> set (waitQueue (conditions k c)). threads ?k t \<noteq> None"
    using queued_exists [OF assms(1), of _ "CondQ c"] by (auto simp: queue.simps)
  from Broadcast_loop_result [OF this, of c] assms(2) show ?thesis
    by (auto simp: Broadcast_def Let_def SetLevel_IntOff)
qed

text \<open>Thread 1 waits on condition 0 with lock 0.\<close>

definition waiter :: "action list" where
  "waiter = map Kernel
     [None, Some (Do_new_Thread 1 ''t''), Some (Do_Fork 1), Some Do_Yield, None,
      Some (Do_Acquire 0), Some (Do_Wait 0 (Some 0))]"

theorem Broadcast_wakes_all_witness:
  "\<exists>k k'. run quiet waiter plain_boot = Inr k \<and> waitQueue (conditions k 0) = [1] \<and>
     Broadcast no_calls 0 None k = Inr k' \<and> waitQueue (conditions k' 0) = [] \<and> 1 \<in> set (readyList k')"
proof -
  have "case run quiet waiter plain_boot of
      Inr k \<Rightarrow> waitQueue (conditions k 0) = [1] \<and> level (intr k) = IntOff | _ \<Rightarrow> False" by code_simp
  then obtain k where k: "run quiet waiter plain_boot = Inr k" "waitQueue (conditions k 0) = [1]"
    "level (intr k) = IntOff" by (auto split: sum.splits)
  have "kinv k" using started_inv [OF _ plain_boot run_reachable [OF k(1) machine_start]]
    by (simp add: kernel_inv_def)
  from Broadcast_wakes_all [OF this k(3), of no_calls 0 None] k show ?thesis by auto
qed

text \<open>
  \<open>Wait\<close> with the lock of the condition releases the lock if the thread owns it, puts the
  thread at the end of the wait queue and to sleep, in one atomic step; what is left to do when
  it is woken is to acquire the lock again and to restore the interrupt level. With another
  lock than the one the condition is bound to, \<open>Wait\<close> returns at once without waiting.
\<close>

theorem Wait_releases_and_sleeps:
  assumes "kinv k" "level (intr k) = IntOff" "hd (frames_of k (currentThread k)) \<noteq> SleepLoop"
    and "owner (locks k l) = Some (currentThread k)" "lock_queue (locks k l) = []"
  shows "if waitingLock (conditions k c) \<in> {None, Some l}
     then \<exists>k'. Wait call c (Some l) k = Inr k' \<and> \<not> acquired (locks k' l) \<and> owner (locks k' l) = None \<and>
        waitQueue (conditions k' c) = waitQueue (conditions k c) @ [currentThread k] \<and>
        status_of k' (currentThread k) = Some BLOCKED \<and>
        frames_of k' (currentThread k) =
          SleepLoop # Wait_Acquire l # RestoreLevel IntOff # frames_of k (currentThread k)
     else Wait call c (Some l) k = Inr (ChangeLevel IntOff k)"
proof -
  have ex: "threads k (currentThread k) \<noteq> None"
    using kinv_running(3) [OF assms(1,3)] by (auto simp: status_of_def)
  show ?thesis using assms(2,4,5) ex
    by (auto simp: Wait_def Let_def Release_def isHeldByCurrentThread_def SetLevel_IntOff Sleep_def)
qed

text \<open>Thread 1 owns lock 0 and is about to wait, with interrupts off.\<close>

theorem Wait_releases_and_sleeps_witness:
  "\<exists>k k'. run quiet (take 6 waiter) plain_boot = Inr k \<and>
     Wait no_calls 0 (Some 0) (ChangeLevel IntOff k) = Inr k' \<and> owner (locks k' 0) = None \<and>
     waitQueue (conditions k' 0) = [1]"
proof -
  have "case run quiet (take 6 waiter) plain_boot of
      Inr k \<Rightarrow> currentThread k = 1 \<and> frames_of k 1 = [ThreadBody, ThreadFinish] \<and> owner (locks k 0) = Some 1 \<and>
        lock_queue (locks k 0) = [] \<and> conditions k 0 = \<lparr>waitQueue = [], waitingLock = None\<rparr>
    | _ \<Rightarrow> False" by code_simp
  then obtain k where k: "run quiet (take 6 waiter) plain_boot = Inr k" "currentThread k = 1"
    "frames_of k 1 = [ThreadBody, ThreadFinish]" "owner (locks k 0) = Some 1" "lock_queue (locks k 0) = []"
    "conditions k 0 = \<lparr>waitQueue = [], waitingLock = None\<rparr>" by (auto split: sum.splits)
  have "kinv (ChangeLevel IntOff k)" using started_inv [OF _ plain_boot run_reachable [OF k(1) machine_start]]
    by (simp add: kernel_inv_def)
  from Wait_releases_and_sleeps [OF this, of 0 0 no_calls] k show ?thesis by auto
qed

section \<open>Scheduling\<close>

text \<open>
  C11: \<open>Yield\<close> is round robin: the thread that has been ready longest runs next, and the thread
  that yields goes to the end of the ready list. With nobody ready, the thread keeps the CPU.
\<close>

theorem Yield_round_robin:
  assumes "kernel_inv k" "hd (frames_of k (currentThread k)) \<noteq> SleepLoop"
  shows "\<exists>k'. Yield k = Inr k' \<and> kernel_inv k' \<and>
     (case readyList k of
        [] \<Rightarrow> currentThread k' = currentThread k \<and> readyList k' = []
      | n # ts \<Rightarrow> currentThread k' = n \<and> readyList k' = ts @ [currentThread k] \<and>
          status_of k' n = Some RUNNING \<and> status_of k' (currentThread k) = Some READY)"
proof -
  from Yield_ok [OF inv_running [OF assms]] obtain k' where k': "Yield k = Inr k'" "kernel_inv k'" by auto
  have kk: "kinv k" using assms(1) by (simp add: kernel_inv_def)
  have "readyList k = n # ts \<Longrightarrow> n \<noteq> currentThread k" for n ts
    using kinv_running(1) [OF kk assms(2), of ReadyQ] by (auto simp: queue.simps)
  with k' show ?thesis
    by (auto simp: Yield_def Let_def FindNextToRun_def ReadyToRun_def Run_eq_Inr
        split: list.splits if_splits intro!: exI [of _ k'])
qed

theorem Yield_round_robin_witness:
  "\<exists>k k'. run quiet (take 4 contended) plain_boot = Inr k \<and> currentThread k = 0 \<and> readyList k = [1] \<and>
     Yield k = Inr k' \<and> currentThread k' = 1 \<and> readyList k' = [0]"
proof -
  have "case run quiet (take 4 contended) plain_boot of
      Inr k \<Rightarrow> currentThread k = 0 \<and> readyList k = [1] \<and> frames_of k 0 = [ThreadBody, ThreadFinish]
    | _ \<Rightarrow> False" by code_simp
  then obtain k where k: "run quiet (take 4 contended) plain_boot = Inr k" "currentThread k = 0"
    "readyList k = [1]" "frames_of k 0 = [ThreadBody, ThreadFinish]" by (auto split: sum.splits)
  from Yield_round_robin [OF started_inv [OF _ plain_boot run_reachable [OF k(1) machine_start]]] k
  show ?thesis by auto
qed

section \<open>Interrupts\<close>

text \<open>
  C10: With the machine's own handlers, the loop \<open>while (CheckIfDue(FALSE))\<close> of \<open>OneTick\<close> and
  \<open>Idle\<close> ends, although handlers schedule new interrupts: it leaves nothing due (on an idle
  machine possibly the timer alone), does not move the clock and keeps interrupts off.
\<close>

theorem interrupt_loop_ends:
  assumes "kernel_inv k" "level (intr k) = IntOff"
  shows "\<exists>k'. fire_due (dev_call host) k = Inr k' \<and> now k' = now k \<and> level (intr k') = IntOff \<and> kinv k' \<and>
     (due_list k' = [] \<or> status (intr k') = IdleMode \<and> (\<exists>w p. pending (intr k') = [(w, p)] \<and> type p = TimerInt))"
proof -
  have k: "kinv k" "pending_wf k" using assms(1) by (auto simp: kernel_inv_def levels_ok_def)
  from machine.at.fire_due_ok [OF safe_at_self [OF k(1)] k(2) assms(2), of host] show ?thesis
    by (auto simp: machine.at.stop_state_def safe_at_def)
qed

text \<open>A machine with a timer interrupt due at time 0 and another one at time 50.\<close>

definition ticking :: nachos where
  "ticking = plain_boot\<lparr>intr := Interrupt_ctor\<lparr>pending :=
     [(0, \<lparr>handler = TimerHandler, arg = 0, due = 0, type = TimerInt\<rparr>),
      (50, \<lparr>handler = ConsoleReadPoll, arg = 0, due = 50, type = ConsoleReadInt\<rparr>)]\<rparr>\<rparr>"

lemma ticking_inv: "kernel_inv ticking" "level (intr ticking) = IntOff"
proof -
  have b: "kernel_inv plain_boot" unfolding plain_boot_def by (rule boot_inv) simp
  then show "kernel_inv ticking"
    by (auto simp: ticking_def kernel_inv_def levels_ok_def pending_wf_def Interrupt_ctor_def)
       (simp_all add: plain_boot_def boot_def Interrupt_ctor_def)
  show "level (intr ticking) = IntOff" by (simp add: ticking_def Interrupt_ctor_def)
qed

theorem interrupt_loop_ends_witness:
  "due_list ticking \<noteq> [] \<and> (\<exists>k'. fire_due (dev_call quiet) ticking = Inr k' \<and> now k' = now ticking)"
proof -
  have "due_list ticking \<noteq> []" by code_simp
  then show ?thesis using interrupt_loop_ends [OF ticking_inv, of quiet] by blast
qed

text \<open>
  An idle machine advances the clock to the earliest pending interrupt, fires it, and goes
  on; it halts exactly when no interrupt is pending or only the timer's, since then no thread
  can ever be woken.
\<close>

theorem Idle_advances_or_halts:
  assumes "kernel_inv k" "level (intr k) = IntOff"
  shows "case pending (intr k) of
       [] \<Rightarrow> Idle (dev_call host) k = Inl HALTED
     | (w, p) # rest \<Rightarrow>
         if type p = TimerInt \<and> rest = [] then Idle (dev_call host) k = Inl HALTED
         else \<exists>k'. Idle (dev_call host) k = Inr k' \<and> now k' = max w (now k) \<and> status (intr k') = SystemMode \<and>
                \<not> yieldOnReturn (intr k') \<and> currentThread k' = currentThread k"
proof -
  have k: "kinv k" "pending_wf k" using assms(1) by (auto simp: kernel_inv_def levels_ok_def)
  show ?thesis
  proof (cases "pending (intr k)")
    case Nil
    then show ?thesis using machine.at.Idle_halts [OF assms(2)] by simp
  next
    case (Cons x rest)
    obtain w p where x: "x = (w, p)" by force
    show ?thesis
    proof (cases "type p = TimerInt \<and> rest = []")
      case True
      then show ?thesis using machine.at.Idle_halts [OF assms(2)] Cons x by simp
    next
      case False
      from machine.at.Idle_fires [OF safe_at_self [OF k(1)] k(2) assms(2) Cons [unfolded x] False, of host]
      show ?thesis using Cons x False by (auto simp: safe_at_def)
    qed
  qed
qed

theorem Idle_advances_or_halts_witness:
  "\<exists>k'. Idle (dev_call quiet) ticking = Inr k' \<and> now k' = max 0 (now ticking)"
  using Idle_advances_or_halts [OF ticking_inv, of quiet]
  by (auto simp: ticking_def Interrupt_ctor_def)

end
