(* ===== verification/BitMaps.thy ===== *)
theory BitMaps
  imports Host
begin

text \<open>
  The bitmap of \<open>userprog/bitmap.cc\<close>, an array of 32-bit words, used to allocate disk sectors
  and memory pages. \<open>marked\<close> is the set of bits that are set; the lemmas give every operation
  as an operation on that set, on every branch. The locale \<open>allocator\<close> is the contract clients
  rely on: a search returns a free element and takes it, or fails when there is none; it gives
  once and for all what a loop of searches returns, as \<open>FileHeader::Allocate\<close> runs it.
\<close>

section \<open>Operations\<close>

unbundle bit_operations_syntax

definition BitsInWord :: int where "BitsInWord = 32"

record BitMap =
  numBits :: int
  numWords :: int
  words :: "32 word list"

definition Mark :: "int \<Rightarrow> BitMap \<Rightarrow> BitMap result" where
  "Mark which m =
     bind_result (ASSERT (which \<ge> 0 \<and> which < numBits m)) (\<lambda>_.
     bind_result (array_get (words m) (which sdiv BitsInWord)) (\<lambda>w.
     bind_result (array_set (words m) (which sdiv BitsInWord)
                    (w OR push_bit (nat (which smod BitsInWord)) 1))
       (\<lambda>ws. Inr (m\<lparr>words := ws\<rparr>))))"

definition Clear :: "int \<Rightarrow> BitMap \<Rightarrow> BitMap result" where
  "Clear which m =
     bind_result (ASSERT (which \<ge> 0 \<and> which < numBits m)) (\<lambda>_.
     bind_result (array_get (words m) (which sdiv BitsInWord)) (\<lambda>w.
     bind_result (array_set (words m) (which sdiv BitsInWord)
                    (w AND NOT (push_bit (nat (which smod BitsInWord)) 1)))
       (\<lambda>ws. Inr (m\<lparr>words := ws\<rparr>))))"

definition Test :: "int \<Rightarrow> BitMap \<Rightarrow> bool result" where
  "Test which m =
     bind_result (ASSERT (which \<ge> 0 \<and> which < numBits m)) (\<lambda>_.
     bind_result (array_get (words m) (which sdiv BitsInWord)) (\<lambda>w.
       Inr (w AND push_bit (nat (which smod BitsInWord)) 1 \<noteq> 0)))"

text \<open>The constructor; \<open>junk\<close> is what the allocated words happen to hold.\<close>

definition BitMap_ctor :: "(nat \<Rightarrow> 32 word) \<Rightarrow> int \<Rightarrow> BitMap result" where
  "BitMap_ctor junk nitems =
     (let nw = divRoundUp nitems BitsInWord;
          m = \<lparr>numBits = nitems, numWords = nw, words = map junk [0..<nat nw]\<rparr>
      in for_each [0..nitems - 1] Clear m)"

fun Find_loop :: "int list \<Rightarrow> BitMap \<Rightarrow> (int \<times> BitMap) result" where
  "Find_loop [] m = Inr (-1, m)"
| "Find_loop (i # is) m =
     bind_result (Test i m) (\<lambda>set.
       if \<not> set then bind_result (Mark i m) (\<lambda>m. Inr (i, m)) else Find_loop is m)"

definition Find :: "BitMap \<Rightarrow> (int \<times> BitMap) result" where
  "Find m = Find_loop [0..numBits m - 1] m"

definition NumClear :: "BitMap \<Rightarrow> int result" where
  "NumClear m =
     for_each [0..numBits m - 1]
       (\<lambda>i count. bind_result (Test i m) (\<lambda>set. Inr (if \<not> set then count + 1 else count))) 0"

text \<open>The bytes that \<open>FetchFrom\<close> and \<open>WriteBack\<close> exchange with a file.\<close>

definition words_bytes :: "32 word list \<Rightarrow> byte list" where
  "words_bytes ws = concat (map word_bytes ws)"

fun bytes_words :: "byte list \<Rightarrow> 32 word list" where
  "bytes_words (a # b # c # d # bs) = bytes_word [a, b, c, d] # bytes_words bs"
| "bytes_words _ = []"

section \<open>The set of marked bits\<close>

definition wf_bitmap :: "BitMap \<Rightarrow> bool" where
  "wf_bitmap m \<longleftrightarrow> 0 \<le> numBits m \<and> numWords m = divRoundUp (numBits m) BitsInWord \<and>
     int (length (words m)) = numWords m"

definition bit_at :: "32 word list \<Rightarrow> int \<Rightarrow> bool" where
  "bit_at ws i = bit (ws ! nat (i div 32)) (nat (i mod 32))"

definition marked :: "BitMap \<Rightarrow> int set" where
  "marked m = {i. 0 \<le> i \<and> i < numBits m \<and> bit_at (words m) i}"

lemma marked_bounds: "marked m \<subseteq> {0..<numBits m}"
  by (auto simp: marked_def)

lemma finite_marked [simp]: "finite (marked m)"
  by (rule finite_subset [OF marked_bounds]) simp

lemma word_index:
  assumes "wf_bitmap m" "0 \<le> i" "i < numBits m"
  shows "i sdiv BitsInWord = i div 32" "i smod BitsInWord = i mod 32"
    "0 \<le> i div 32" "i div 32 < int (length (words m))" "nat (i div 32) < length (words m)"
proof -
  show "i sdiv BitsInWord = i div 32" "i smod BitsInWord = i mod 32"
    using assms(2) by (simp_all add: BitsInWord_def sdiv_nonneg smod_nonneg)
  have b: "numBits m \<le> 32 * int (length (words m))"
    using assms(1) divRoundUp_bounds [of "numBits m" 32] by (simp add: wf_bitmap_def BitsInWord_def)
  show p: "0 \<le> i div 32" using assms(2) by simp
  have "32 * (i div 32) \<le> i" using mult_div_mod_eq [of 32 i] pos_mod_sign [of 32 i] by linarith
  with b assms(3) show l: "i div 32 < int (length (words m))" by linarith
  with p show "nat (i div 32) < length (words m)" by simp
qed

lemma Test_eq:
  assumes "wf_bitmap m" "0 \<le> i" "i < numBits m"
  shows "Test i m = Inr (i \<in> marked m)"
proof -
  have "i mod 32 < 32" by simp
  then have "nat (i mod 32) < 32" by linarith
  then show ?thesis using assms word_index [OF assms]
    by (simp add: Test_def marked_def bit_at_def and_exp_eq_0_iff_not_bit)
qed

text \<open>Two different positions are in different words or at different places of one word.\<close>

lemma bit_position_inj:
  assumes "0 \<le> i" "0 \<le> j" "nat (i div 32) = nat (j div 32)" "nat (i mod 32) = nat (j mod 32)"
  shows "i = j"
proof -
  have p: "0 \<le> i div 32" "0 \<le> j div 32" "0 \<le> i mod 32" "0 \<le> j mod 32" using assms(1,2) by simp_all
  have "i div 32 = j div 32" by (rule eq_nat_nat_iff [THEN iffD1, OF p(1,2) assms(3)])
  moreover have "i mod 32 = j mod 32" by (rule eq_nat_nat_iff [THEN iffD1, OF p(3,4) assms(4)])
  ultimately show ?thesis by (metis mult_div_mod_eq)
qed

lemma bit_at_update:
  assumes "0 \<le> i" "0 \<le> j" "nat (i div 32) < length ws"
    and "\<And>n. n < 32 \<Longrightarrow> bit w n = (if n = nat (i mod 32) then v else bit (ws ! nat (i div 32)) n)"
  shows "bit_at (ws[nat (i div 32) := w]) j = (if j = i then v else bit_at ws j)"
proof (cases "nat (j div 32) = nat (i div 32)")
  case True
  have "j mod 32 < 32" by simp
  then have "nat (j mod 32) < 32" by linarith
  from assms(4) [OF this] show ?thesis
    using True assms(3) bit_position_inj [OF assms(2,1)] by (auto simp: bit_at_def)
qed (auto simp: bit_at_def)

lemma Mark_ok:
  assumes "wf_bitmap m" "0 \<le> i" "i < numBits m"
  shows "\<exists>m'. Mark i m = Inr m' \<and> wf_bitmap m' \<and> numBits m' = numBits m \<and> marked m' = insert i (marked m)"
proof -
  let ?w = "words m ! nat (i div 32) OR push_bit (nat (i mod 32)) 1"
  let ?m = "m\<lparr>words := (words m)[nat (i div 32) := ?w]\<rparr>"
  have "bit_at ((words m)[nat (i div 32) := ?w]) j = (if j = i then True else bit_at (words m) j)" if "0 \<le> j" for j
    by (rule bit_at_update [OF assms(2) that word_index(5) [OF assms]]) (auto simp: bit_simps)
  then have "marked ?m = insert i (marked m)" using assms(2,3) by (auto simp: marked_def)
  moreover have "Mark i m = Inr ?m" using assms(2,3) word_index [OF assms] by (simp add: Mark_def)
  moreover have "wf_bitmap ?m" using assms(1) by (simp add: wf_bitmap_def)
  ultimately show ?thesis by simp
qed

lemma Clear_ok:
  assumes "wf_bitmap m" "0 \<le> i" "i < numBits m"
  shows "\<exists>m'. Clear i m = Inr m' \<and> wf_bitmap m' \<and> numBits m' = numBits m \<and> marked m' = marked m - {i}"
proof -
  let ?w = "words m ! nat (i div 32) AND NOT (push_bit (nat (i mod 32)) 1)"
  let ?m = "m\<lparr>words := (words m)[nat (i div 32) := ?w]\<rparr>"
  have "bit_at ((words m)[nat (i div 32) := ?w]) j = (if j = i then False else bit_at (words m) j)" if "0 \<le> j" for j
    by (rule bit_at_update [OF assms(2) that word_index(5) [OF assms]]) (auto simp: bit_simps)
  then have "marked ?m = marked m - {i}" using assms(2,3) by (auto simp: marked_def split: if_splits)
  moreover have "Clear i m = Inr ?m" using assms(2,3) word_index [OF assms] by (simp add: Clear_def)
  moreover have "wf_bitmap ?m" using assms(1) by (simp add: wf_bitmap_def)
  ultimately show ?thesis by simp
qed

lemma bad_bit:
  assumes "i < 0 \<or> numBits m \<le> i"
  shows "Mark i m = Inl ASSERT_FAILED" "Clear i m = Inl ASSERT_FAILED" "Test i m = Inl ASSERT_FAILED"
  using assms by (auto simp: Mark_def Clear_def Test_def ASSERT_def)

text \<open>The constructor clears every bit, whatever the memory held.\<close>

lemma BitMap_ctor_ok:
  assumes "0 \<le> n"
  shows "\<exists>m. BitMap_ctor junk n = Inr m \<and> wf_bitmap m \<and> numBits m = n \<and> marked m = {}"
proof -
  let ?nw = "divRoundUp n BitsInWord"
  let ?m = "\<lparr>numBits = n, numWords = ?nw, words = map junk [0..<nat ?nw]\<rparr>"
  have "0 \<le> ?nw" using divRoundUp_bounds [OF assms, of 32] assms by (simp add: BitsInWord_def)
  then have wf: "wf_bitmap ?m" using assms by (simp add: wf_bitmap_def)
  have "\<exists>m. for_each [0..n - 1] Clear ?m = Inr m \<and>
      (wf_bitmap m \<and> numBits m = n \<and> marked m \<inter> set [0..n - 1] = {})"
  proof (rule for_each_inv [where I = "\<lambda>xs m. wf_bitmap m \<and> numBits m = n \<and> marked m \<inter> set xs = {}"])
    fix xs x m
    assume "\<exists>ys. [0..n - 1] = xs @ x # ys" and m: "wf_bitmap m \<and> numBits m = n \<and> marked m \<inter> set xs = {}"
    then have "x \<in> set [0..n - 1]" by force
    then have "0 \<le> x" "x < n" by auto
    with Clear_ok [of m x] m show "\<exists>m'. Clear x m = Inr m' \<and> wf_bitmap m' \<and> numBits m' = n \<and> marked m' \<inter> set (xs @ [x]) = {}"
      by auto
  qed (simp add: wf)
  moreover have "marked m = {}" if "numBits m = n" "marked m \<inter> set [0..n - 1] = {}" for m
    using that marked_bounds [of m] by force
  ultimately show ?thesis by (auto simp: BitMap_ctor_def Let_def)
qed

text \<open>\<open>Find\<close> takes the lowest clear bit.\<close>

lemma Find_loop_ok:
  assumes "wf_bitmap m" "\<forall>i \<in> set is. 0 \<le> i \<and> i < numBits m"
  shows "case find (\<lambda>i. i \<notin> marked m) is of
       None \<Rightarrow> Find_loop is m = Inr (-1, m)
     | Some i \<Rightarrow> \<exists>m'. Find_loop is m = Inr (i, m') \<and> wf_bitmap m' \<and> numBits m' = numBits m \<and>
                  marked m' = insert i (marked m)"
  using assms(2)
proof (induction "is")
  case (Cons i "is")
  then have i: "Test i m = Inr (i \<in> marked m)" and IH: "case find (\<lambda>i. i \<notin> marked m) is of
       None \<Rightarrow> Find_loop is m = Inr (-1, m)
     | Some i \<Rightarrow> \<exists>m'. Find_loop is m = Inr (i, m') \<and> wf_bitmap m' \<and> numBits m' = numBits m \<and>
                  marked m' = insert i (marked m)"
    using Test_eq [OF assms(1), of i] by auto
  show ?case
  proof (cases "i \<in> marked m")
    case True
    with i have "Find_loop (i # is) m = Find_loop is m" by simp
    with IH True show ?thesis by (simp only: find.simps if_False not_not simp_thms)
  next
    case False
    with i Mark_ok [OF assms(1), of i] Cons.prems show ?thesis by auto
  qed
qed simp

lemma Find_ok:
  assumes "wf_bitmap m"
  shows "(\<forall>i. 0 \<le> i \<and> i < numBits m \<longrightarrow> i \<in> marked m) \<Longrightarrow> Find m = Inr (-1, m)"
    and "\<exists>i. 0 \<le> i \<and> i < numBits m \<and> i \<notin> marked m \<Longrightarrow>
      \<exists>i m'. Find m = Inr (i, m') \<and> 0 \<le> i \<and> i < numBits m \<and> i \<notin> marked m \<and>
        (\<forall>j. 0 \<le> j \<and> j < i \<longrightarrow> j \<in> marked m) \<and> wf_bitmap m' \<and> numBits m' = numBits m \<and>
        marked m' = insert i (marked m)"
proof -
  note F = Find_loop_ok [OF assms, of "[0..numBits m - 1]"]
  show "Find m = Inr (-1, m)" if "\<forall>i. 0 \<le> i \<and> i < numBits m \<longrightarrow> i \<in> marked m"
  proof -
    have "find (\<lambda>i. i \<notin> marked m) [0..numBits m - 1] = None" using that by (simp add: find_None_iff)
    then show ?thesis using F by (simp add: Find_def)
  qed
  assume "\<exists>i. 0 \<le> i \<and> i < numBits m \<and> i \<notin> marked m"
  then obtain i where i: "find (\<lambda>i. i \<notin> marked m) [0..numBits m - 1] = Some i"
    by (cases "find (\<lambda>i. i \<notin> marked m) [0..numBits m - 1]") (auto simp: find_None_iff)
  then obtain n where n: "n < length [0..numBits m - 1]" "[0..numBits m - 1] ! n = i" "i \<notin> marked m"
    "\<forall>k < n. [0..numBits m - 1] ! k \<in> marked m" unfolding find_Some_iff by auto
  then have ni: "i = int n" "i < numBits m" by auto
  have "j \<in> marked m" if "0 \<le> j \<and> j < i" for j using n(4) [rule_format, of "nat j"] that ni by (simp add: nat_less_iff)
  then show "\<exists>i m'. Find m = Inr (i, m') \<and> 0 \<le> i \<and> i < numBits m \<and> i \<notin> marked m \<and>
        (\<forall>j. 0 \<le> j \<and> j < i \<longrightarrow> j \<in> marked m) \<and> wf_bitmap m' \<and> numBits m' = numBits m \<and>
        marked m' = insert i (marked m)"
    using F i n(3) ni by (auto simp: Find_def)
qed

text \<open>\<open>NumClear\<close> counts the bits that are not marked.\<close>

lemma NumClear_ok:
  assumes "wf_bitmap m"
  shows "NumClear m = Inr (numBits m - int (card (marked m)))"
proof -
  let ?body = "\<lambda>i count. bind_result (Test i m) (\<lambda>set. Inr (if \<not> set then count + 1 else count))"
  have "\<exists>c. for_each [0..numBits m - 1] ?body 0 = Inr c \<and> c = int (card (set [0..numBits m - 1] - marked m))"
  proof (rule for_each_inv [where I = "\<lambda>xs c. c = int (card (set xs - marked m))"])
    fix xs x c
    assume ex: "\<exists>ys. [0..numBits m - 1] = xs @ x # ys" and c: "c = int (card (set xs - marked m))"
    then have "x \<in> set [0..numBits m - 1]" by force
    then have x: "0 \<le> x" "x < numBits m" by auto
    have "x \<notin> set xs" using ex distinct_upto [of 0 "numBits m - 1"] by (metis distinct_append not_distinct_conv_prefix)
    then have "card (set (xs @ [x]) - marked m) = card (set xs - marked m) + (if x \<in> marked m then 0 else 1)"
      by (simp add: insert_Diff_if)
    with c show "\<exists>c'. ?body x c = Inr c' \<and> c' = int (card (set (xs @ [x]) - marked m))"
      by (simp add: Test_eq [OF assms x])
  qed simp
  moreover have "int (card (set [0..numBits m - 1] - marked m)) = numBits m - int (card (marked m))"
  proof -
    have s: "marked m \<subseteq> set [0..numBits m - 1]" using marked_bounds [of m] by auto
    have "card (set [0..numBits m - 1] - marked m) = card (set [0..numBits m - 1]) - card (marked m)"
      by (rule card_Diff_subset [OF finite_marked s])
    moreover have "card (marked m) \<le> card (set [0..numBits m - 1])" by (rule card_mono [OF _ s]) simp
    moreover have "int (card (set [0..numBits m - 1])) = numBits m" using assms by (simp add: wf_bitmap_def)
    ultimately show ?thesis by simp
  qed
  ultimately show ?thesis by (simp add: NumClear_def)
qed

section \<open>The allocator's contract\<close>

text \<open>A loop of searches, as in \<open>FileHeader::Allocate\<close>.\<close>

fun take_n :: "('b \<Rightarrow> (int \<times> 'b) result) \<Rightarrow> nat \<Rightarrow> 'b \<Rightarrow> (int list \<times> 'b) result" where
  "take_n fnd 0 b = Inr ([], b)"
| "take_n fnd (Suc n) b =
     bind_result (fnd b) (\<lambda>(i, b). bind_result (take_n fnd n b) (\<lambda>(is, b). Inr (i # is, b)))"

locale allocator =
  fixes fnd :: "'b \<Rightarrow> (int \<times> 'b) result"
    and free :: "'b \<Rightarrow> int set"
    and ok :: "'b \<Rightarrow> bool"
  assumes fnd_free: "ok b \<Longrightarrow> free b \<noteq> {} \<Longrightarrow>
      \<exists>i b'. fnd b = Inr (i, b') \<and> i \<in> free b \<and> ok b' \<and> free b' = free b - {i}"
    and finite_free: "ok b \<Longrightarrow> finite (free b)"
begin

lemma take_n_ok:
  "ok b \<Longrightarrow> n \<le> card (free b) \<Longrightarrow>
   \<exists>is b'. take_n fnd n b = Inr (is, b') \<and> length is = n \<and> distinct is \<and> set is \<subseteq> free b \<and>
     ok b' \<and> free b' = free b - set is"
proof (induction n arbitrary: b)
  case (Suc n)
  then have "free b \<noteq> {}" by auto
  from fnd_free [OF Suc.prems(1) this] obtain i b1 where
    b1: "fnd b = Inr (i, b1)" "i \<in> free b" "ok b1" "free b1 = free b - {i}" by auto
  then have "n \<le> card (free b1)" using Suc.prems finite_free [OF Suc.prems(1)] by simp
  from Suc.IH [OF b1(3) this] obtain "is" b' where t: "take_n fnd n b1 = Inr (is, b')" "length is = n"
    "distinct is" "set is \<subseteq> free b1" "ok b'" "free b' = free b1 - set is" by auto
  then have "free b' = free b - set (i # is)" "set (i # is) \<subseteq> free b" "i \<notin> set is" using b1(2,4) by auto
  with t b1(1) show ?case by simp
qed simp

end

definition free_bits :: "BitMap \<Rightarrow> int set" where
  "free_bits m = {0..<numBits m} - marked m"

interpretation bits: allocator Find free_bits wf_bitmap
proof
  fix m assume "wf_bitmap m" "free_bits m \<noteq> {}"
  then have "\<exists>i. 0 \<le> i \<and> i < numBits m \<and> i \<notin> marked m" by (auto simp: free_bits_def)
  from Find_ok(2) [OF \<open>wf_bitmap m\<close> this] obtain i m' where "Find m = Inr (i, m')" "0 \<le> i"
    "i < numBits m" "i \<notin> marked m" "wf_bitmap m'"
    "numBits m' = numBits m" "marked m' = insert i (marked m)" by blast
  then show "\<exists>i m'. Find m = Inr (i, m') \<and> i \<in> free_bits m \<and> wf_bitmap m' \<and> free_bits m' = free_bits m - {i}"
    by (intro exI [of _ i] exI [of _ m']) (auto simp: free_bits_def)
qed (simp add: free_bits_def)

lemma card_free_bits: "wf_bitmap m \<Longrightarrow> int (card (free_bits m)) = numBits m - int (card (marked m))"
  using card_Diff_subset [OF finite_marked marked_bounds, of m] card_mono [OF _ marked_bounds, of m]
  by (simp add: free_bits_def wf_bitmap_def)

section \<open>Bytes\<close>

lemma bytes_words_append [simp]: "bytes_words (word_bytes w @ bs) = w # bytes_words bs"
  using bytes_word_bytes [of w "[]"] by (simp add: word_bytes_def)

lemma bytes_words_bytes [simp]: "bytes_words (words_bytes ws) = ws"
  by (induction ws) (simp_all add: words_bytes_def)

lemma length_words_bytes [simp]: "length (words_bytes ws) = 4 * length ws"
  by (induction ws) (simp_all add: words_bytes_def)

section \<open>Properties\<close>

text \<open>
  \<open>Find\<close> returns the lowest clear bit and sets it, changing no other bit; when every bit is
  set it returns -1 and changes nothing; and \<open>NumClear\<close> is the number of clear bits, so that
  \<open>Find\<close> succeeds exactly when \<open>NumClear\<close> is positive.
\<close>

theorem Find_first_clear:
  assumes "wf_bitmap m"
  shows "NumClear m = Inr (int (card (free_bits m))) \<and>
     (if free_bits m = {} then Find m = Inr (- 1, m)
      else \<exists>m'. Find m = Inr (Min (free_bits m), m') \<and> wf_bitmap m' \<and> numBits m' = numBits m \<and>
             marked m' = insert (Min (free_bits m)) (marked m))"
proof -
  have "NumClear m = Inr (int (card (free_bits m)))" using NumClear_ok [OF assms] card_free_bits [OF assms] by simp
  moreover have "Find m = Inr (- 1, m)" if "free_bits m = {}"
  proof (rule Find_ok(1) [OF assms])
    show "\<forall>i. 0 \<le> i \<and> i < numBits m \<longrightarrow> i \<in> marked m" using that unfolding free_bits_def by fastforce
  qed
  moreover have "\<exists>m'. Find m = Inr (Min (free_bits m), m') \<and> wf_bitmap m' \<and> numBits m' = numBits m \<and>
      marked m' = insert (Min (free_bits m)) (marked m)" if "free_bits m \<noteq> {}"
  proof -
    have "\<exists>i. 0 \<le> i \<and> i < numBits m \<and> i \<notin> marked m" using that by (auto simp: free_bits_def)
    from Find_ok(2) [OF assms this] obtain i m' where i: "Find m = Inr (i, m')" "0 \<le> i" "i < numBits m" "i \<notin> marked m"
      "\<forall>j. 0 \<le> j \<and> j < i \<longrightarrow> j \<in> marked m" "wf_bitmap m'" "numBits m' = numBits m" "marked m' = insert i (marked m)" by blast
    have "Min (free_bits m) = i"
    proof (rule Min_eqI)
      show "finite (free_bits m)" by (rule bits.finite_free [OF assms])
      show "i \<in> free_bits m" using i(2-4) by (simp add: free_bits_def)
      show "i \<le> j" if "j \<in> free_bits m" for j using i(5) that unfolding free_bits_def by fastforce
    qed
    with i show ?thesis by blast
  qed
  ultimately show ?thesis by simp
qed

theorem Find_first_clear_witness:
  "\<exists>m m'. BitMap_ctor (\<lambda>_. 0xFFFFFFFF) 40 = Inr m \<and> NumClear m = Inr 40 \<and> Find m = Inr (0, m')"
proof -
  from BitMap_ctor_ok [of 40 "\<lambda>_. 0xFFFFFFFF"] obtain m where
    m: "BitMap_ctor (\<lambda>_. 0xFFFFFFFF) 40 = Inr m" "wf_bitmap m" "numBits m = 40" "marked m = {}" by auto
  have f: "free_bits m = {0..<40}" using m(3,4) by (simp add: free_bits_def)
  have mn: "Min {0..<40 :: int} = 0" by (rule Min_eqI) auto
  have "{0..<40 :: int} \<noteq> {}" by simp
  with Find_first_clear [OF m(2)] m(1) show ?thesis unfolding f by (auto simp: mn)
qed

end
