(* ===== verification/Sector_Store.thy ===== *)
theory Sector_Store
  imports Disk
begin

text \<open>
  The synchronous disk of \<open>filesys/synchdisk.cc\<close> as one thread sees it: \<open>ReadSector\<close> and
  \<open>WriteSector\<close> take the lock, start the request, wait for the completion interrupt on the
  semaphore and release the lock, so that when they return the disk is not active any more.
  (The waiting itself is in the kernel theories: \<open>Devices\<close> has the requests, the interrupt and
  the \<open>V\<close> of its handler.)

  The locale \<open>sector_store\<close> is the contract the file system relies on, with the lemmas on
  reading and writing a sequence of sectors; it is interpreted on the disk at the end.
\<close>

definition ReadSector :: "int \<Rightarrow> Disk \<Rightarrow> (byte list \<times> Disk) result" where
  "ReadSector sectorNumber d =
     bind_result (transfer_in sectorNumber d)
       (\<lambda>(data, d). Inr (data, d\<lparr>lastSector := sectorNumber\<rparr>))"

definition WriteSector :: "int \<Rightarrow> byte list \<Rightarrow> Disk \<Rightarrow> Disk result" where
  "WriteSector sectorNumber data d =
     bind_result (transfer_out sectorNumber data d) (\<lambda>d. Inr (d\<lparr>lastSector := sectorNumber\<rparr>))"

fun read_all :: "(int \<Rightarrow> 'd \<Rightarrow> (byte list \<times> 'd) result) \<Rightarrow> int list \<Rightarrow> 'd \<Rightarrow> (byte list \<times> 'd) result" where
  "read_all rd [] d = Inr ([], d)"
| "read_all rd (s # ss) d =
     bind_result (rd s d) (\<lambda>(bs, d). bind_result (read_all rd ss d) (\<lambda>(rest, d). Inr (bs @ rest, d)))"

fun write_all :: "(int \<Rightarrow> byte list \<Rightarrow> 'd \<Rightarrow> 'd result) \<Rightarrow> int list \<Rightarrow> byte list \<Rightarrow> 'd \<Rightarrow> 'd result" where
  "write_all wr [] bs d = Inr d"
| "write_all wr (s # ss) bs d =
     bind_result (wr s (take SectorSize bs) d) (write_all wr ss (drop SectorSize bs))"

locale sector_store =
  fixes rd :: "int \<Rightarrow> 'd \<Rightarrow> (byte list \<times> 'd) result"
    and wr :: "int \<Rightarrow> byte list \<Rightarrow> 'd \<Rightarrow> 'd result"
    and sec :: "int \<Rightarrow> 'd \<Rightarrow> byte list"
    and valid :: "int \<Rightarrow> bool"
    and ok :: "'d \<Rightarrow> bool"
  assumes rd_ok: "ok d \<Longrightarrow> valid s \<Longrightarrow>
      \<exists>d'. rd s d = Inr (sec s d, d') \<and> ok d' \<and> (\<forall>s'. sec s' d' = sec s' d)"
    and wr_ok: "ok d \<Longrightarrow> valid s \<Longrightarrow> length bs = SectorSize \<Longrightarrow>
      \<exists>d'. wr s bs d = Inr d' \<and> ok d' \<and> sec s d' = bs \<and>
        (\<forall>s'. valid s' \<longrightarrow> s' \<noteq> s \<longrightarrow> sec s' d' = sec s' d)"
    and sec_length: "ok d \<Longrightarrow> valid s \<Longrightarrow> length (sec s d) = SectorSize"
begin

lemma read_all_ok:
  "ok d \<Longrightarrow> \<forall>s \<in> set ss. valid s \<Longrightarrow>
   \<exists>d'. read_all rd ss d = Inr (concat (map (\<lambda>s. sec s d) ss), d') \<and> ok d' \<and> (\<forall>s'. sec s' d' = sec s' d)"
proof (induction ss arbitrary: d)
  case (Cons s ss)
  with rd_ok [of d s] obtain d1 where d1: "rd s d = Inr (sec s d, d1)" "ok d1" "\<forall>s'. sec s' d1 = sec s' d" by auto
  with Cons.IH [of d1] Cons.prems show ?case by auto
qed simp

lemma write_all_ok:
  "ok d \<Longrightarrow> \<forall>s \<in> set ss. valid s \<Longrightarrow> distinct ss \<Longrightarrow> length bs = SectorSize * length ss \<Longrightarrow>
   \<exists>d'. write_all wr ss bs d = Inr d' \<and> ok d' \<and> concat (map (\<lambda>s. sec s d') ss) = bs \<and>
     (\<forall>s'. valid s' \<longrightarrow> s' \<notin> set ss \<longrightarrow> sec s' d' = sec s' d)"
proof (induction ss arbitrary: d bs)
  case (Cons s ss)
  from Cons.prems wr_ok [of d s "take SectorSize bs"] obtain d1 where
    d1: "wr s (take SectorSize bs) d = Inr d1" "ok d1" "sec s d1 = take SectorSize bs"
      "\<forall>s'. valid s' \<longrightarrow> s' \<noteq> s \<longrightarrow> sec s' d1 = sec s' d" by auto
  from Cons.prems d1(2) Cons.IH [of d1 "drop SectorSize bs"] obtain d2 where
    d2: "write_all wr ss (drop SectorSize bs) d1 = Inr d2" "ok d2"
      "concat (map (\<lambda>s. sec s d2) ss) = drop SectorSize bs"
      "\<forall>s'. valid s' \<longrightarrow> s' \<notin> set ss \<longrightarrow> sec s' d2 = sec s' d1" by auto
  have "sec s d2 = take SectorSize bs" using d1(3) d2(4) Cons.prems by auto
  then show ?case using d1 d2 by auto
qed simp

end

text \<open>A disk between two requests.\<close>

definition idle_disk :: "Disk \<Rightarrow> bool" where
  "idle_disk d \<longleftrightarrow> disk_ok d \<and> \<not> active d"

interpretation store: sector_store ReadSector WriteSector sector_data valid_sector idle_disk
proof
  fix d s assume a: "idle_disk d" "valid_sector s"
  then obtain g where g: "transfer_in s d = Inr (sector_data s d, d\<lparr>fileno := g\<rparr>)" "contents g = contents (fileno d)"
    using transfer_in_ok [of s d] by (auto simp: idle_disk_def)
  let ?d = "d\<lparr>fileno := g, lastSector := s\<rparr>"
  have "idle_disk ?d" using a g(2) by (simp add: idle_disk_def disk_ok_def valid_sector_def)
  moreover have "sector_data s' ?d = sector_data s' d" for s' by (rule sector_cong) (simp add: g(2))
  ultimately show "\<exists>d'. ReadSector s d = Inr (sector_data s d, d') \<and> idle_disk d' \<and> (\<forall>s'. sector_data s' d' = sector_data s' d)"
    using g(1) by (simp add: ReadSector_def)
next
  fix d s and bs :: "byte list"
  assume a: "idle_disk d" "valid_sector s" "length bs = SectorSize"
  then obtain g where g: "transfer_out s bs d = Inr (d\<lparr>fileno := g\<rparr>)"
    "contents g = write_at (SectorSize * nat s + MagicSize) bs (contents (fileno d))"
    using transfer_out_ok [of s d bs] by (auto simp: idle_disk_def)
  have d: "disk_ok d" using a(1) by (simp add: idle_disk_def)
  let ?d = "d\<lparr>fileno := g\<rparr>"
  have c: "contents (fileno ?d) = write_at (SectorSize * nat s + MagicSize) bs (contents (fileno d))" by (simp add: g(2))
  have "idle_disk (?d\<lparr>lastSector := s\<rparr>)"
    using a write_sector(3) [OF a(2) d a(3) c] by (simp add: idle_disk_def disk_ok_def valid_sector_def)
  moreover have "sector_data s' (?d\<lparr>lastSector := s\<rparr>) = sector_data s' ?d" for s' by (simp add: sector_data_def)
  ultimately show "\<exists>d'. WriteSector s bs d = Inr d' \<and> idle_disk d' \<and> sector_data s d' = bs \<and>
      (\<forall>s'. valid_sector s' \<longrightarrow> s' \<noteq> s \<longrightarrow> sector_data s' d' = sector_data s' d)"
    using g(1) write_sector(1,2) [OF a(2) d a(3) c] by (simp add: WriteSector_def)
qed (simp add: idle_disk_def)

text \<open>
  A sector of the disk holds what was written to it last: after \<open>WriteSector\<close> of a whole
  sector, \<open>ReadSector\<close> of the same sector returns these bytes, and \<open>ReadSector\<close> of any other
  sector returns what it would have returned before.
\<close>

theorem sector_write_read:
  assumes "idle_disk d" "valid_sector s" "valid_sector s'" "length bs = SectorSize"
  shows "\<exists>d' d''. WriteSector s bs d = Inr d' \<and> idle_disk d' \<and>
     ReadSector s' d' = Inr (if s' = s then bs else sector_data s' d, d'')"
proof -
  from store.wr_ok [OF assms(1,2,4)] obtain d' where d': "WriteSector s bs d = Inr d'" "idle_disk d'"
    "sector_data s d' = bs" "\<forall>s'. valid_sector s' \<longrightarrow> s' \<noteq> s \<longrightarrow> sector_data s' d' = sector_data s' d" by blast
  from store.rd_ok [OF d'(2) assms(3)] obtain d'' where "ReadSector s' d' = Inr (sector_data s' d', d'')" by blast
  moreover have "sector_data s' d' = (if s' = s then bs else sector_data s' d)" using d'(3,4) assms(3) by simp
  ultimately show ?thesis using d'(1,2) by simp
qed

theorem sector_write_read_witness:
  "\<exists>d d' d''. Disk_ctor None = Inr d \<and> WriteSector 3 (replicate SectorSize 7) d = Inr d' \<and>
     ReadSector 3 d' = Inr (replicate SectorSize 7, d'')"
proof -
  from Disk_ctor_new obtain d where d: "Disk_ctor None = Inr d" "idle_disk d" by (auto simp: idle_disk_def)
  have v: "valid_sector 3" by (simp add: valid_sector_def disk_consts)
  from sector_write_read [OF d(2) v v, of "replicate SectorSize 7"] d(1) show ?thesis by auto
qed

text \<open>
  The simulated time of a disk request is at least one rotation (so that the completion
  interrupt lies in the future, as \<open>Schedule\<close> demands) and less than 31 track seeks plus 33
  rotations, from any position of the head to any sector of the disk.
\<close>

theorem disk_latency_bounds:
  assumes "0 \<le> ticks" "valid_sector s" "disk_ok d"
  shows "RotationTime \<le> ComputeLatency ticks s writing d \<and>
     ComputeLatency ticks s writing d < 31 * SeekTime + 33 * RotationTime"
  using ComputeLatency_bounds [OF assms] by blast

theorem disk_latency_bounds_witness:
  "\<exists>d. Disk_ctor None = Inr d \<and> RotationTime \<le> ComputeLatency 730 1000 False d \<and>
     ComputeLatency 730 1000 False d < 31 * SeekTime + 33 * RotationTime"
proof -
  from Disk_ctor_new obtain d where d: "Disk_ctor None = Inr d" "disk_ok d" by auto
  have "valid_sector 1000" by (simp add: valid_sector_def disk_consts)
  from disk_latency_bounds [OF _ this d(2), of 730 False] d(1) show ?thesis by auto
qed

end
