(* ===== verification/File_Header.thy ===== *)
theory File_Header
  imports BitMaps Sector_Store
begin

text \<open>
  The file header of \<open>filesys/filehdr.cc\<close>: the length of a file and the table of its data
  sectors, kept in one disk sector as the raw bytes of the structure. The lemmas show that the
  header survives the trip to the disk and back, that \<open>Allocate\<close> takes the right number of
  distinct free sectors (or refuses without touching the bitmap), that \<open>Deallocate\<close> gives them
  back, and that \<open>Allocate\<close> runs over the end of its table for files of more than 30 sectors.
\<close>

definition NumDirect :: nat where "NumDirect = 30"

record FileHeader =
  numBytes :: int
  numSectors :: int
  dataSectors :: "int list"

text \<open>
  \<open>Allocate\<close> changes the header and the bitmap. The caller's header comes from \<open>new\<close>, so that
  \<open>hdr\<close> is what that memory held; the table always has \<open>NumDirect\<close> entries.
\<close>

definition Allocate_body :: "int \<Rightarrow> FileHeader \<times> BitMap \<Rightarrow> (FileHeader \<times> BitMap) result" where
  "Allocate_body i s =
     (case s of (hdr, freeMap) \<Rightarrow>
        bind_result (Find freeMap) (\<lambda>(sector, freeMap).
        bind_result (array_set (dataSectors hdr) i sector) (\<lambda>ds.
          Inr (hdr\<lparr>dataSectors := ds\<rparr>, freeMap))))"

definition Allocate :: "BitMap \<Rightarrow> int \<Rightarrow> FileHeader \<Rightarrow> (bool \<times> FileHeader \<times> BitMap) result" where
  "Allocate freeMap fileSize hdr0 =
     (let hdr = hdr0\<lparr>numBytes := fileSize, numSectors := divRoundUp fileSize (int SectorSize)\<rparr>
      in bind_result (NumClear freeMap) (\<lambda>n.
           if n < numSectors hdr then Inr (False, hdr, freeMap)
           else bind_result (for_each [0..numSectors hdr - 1] Allocate_body (hdr, freeMap))
                  (\<lambda>(hdr, freeMap). Inr (True, hdr, freeMap))))"

definition Deallocate :: "FileHeader \<Rightarrow> BitMap \<Rightarrow> BitMap result" where
  "Deallocate hdr freeMap =
     for_each [0..numSectors hdr - 1]
       (\<lambda>i freeMap.
          bind_result (array_get (dataSectors hdr) i) (\<lambda>s.
          bind_result (Test s freeMap) (\<lambda>set.
          bind_result (ASSERT set) (\<lambda>_. Clear s freeMap))))
       freeMap"

text \<open>The structure as raw bytes.\<close>

definition header_bytes :: "FileHeader \<Rightarrow> byte list" where
  "header_bytes hdr = int_bytes (numBytes hdr) @ int_bytes (numSectors hdr) @ concat (map int_bytes (dataSectors hdr))"

fun bytes_ints :: "byte list \<Rightarrow> int list" where
  "bytes_ints (a # b # c # d # bs) = bytes_int [a, b, c, d] # bytes_ints bs"
| "bytes_ints _ = []"

definition bytes_header :: "byte list \<Rightarrow> FileHeader" where
  "bytes_header bs =
     \<lparr>numBytes = bytes_int bs, numSectors = bytes_int (drop 4 bs), dataSectors = bytes_ints (drop 8 bs)\<rparr>"

definition Hdr_FetchFrom :: "int \<Rightarrow> Disk \<Rightarrow> (FileHeader \<times> Disk) result" where
  "Hdr_FetchFrom sector d =
     bind_result (ReadSector sector d) (\<lambda>(bs, d). Inr (bytes_header bs, d))"

definition Hdr_WriteBack :: "FileHeader \<Rightarrow> int \<Rightarrow> Disk \<Rightarrow> Disk result" where
  "Hdr_WriteBack hdr sector d = WriteSector sector (header_bytes hdr) d"

definition ByteToSector :: "FileHeader \<Rightarrow> int \<Rightarrow> int result" where
  "ByteToSector hdr off = array_get (dataSectors hdr) (off sdiv int SectorSize)"

definition FileLength :: "FileHeader \<Rightarrow> int" where
  "FileLength hdr = numBytes hdr"

section \<open>On disk and back\<close>

definition header_fits :: "FileHeader \<Rightarrow> bool" where
  "header_fits hdr \<longleftrightarrow> length (dataSectors hdr) = NumDirect \<and> int32 (numBytes hdr) \<and> int32 (numSectors hdr) \<and>
     (\<forall>s \<in> set (dataSectors hdr). int32 s)"

lemma bytes_ints_append: "int32 i \<Longrightarrow> bytes_ints (int_bytes i @ bs) = i # bytes_ints bs"
  using bytes_int_bytes [of i "[]"] by (simp add: int_bytes_def word_bytes_def)

lemma bytes_ints_bytes: "\<forall>i \<in> set is. int32 i \<Longrightarrow> bytes_ints (concat (map int_bytes is)) = is"
  by (induction "is") (simp_all add: bytes_ints_append)

lemma length_concat_int_bytes: "length (concat (map int_bytes is)) = 4 * length is"
  by (induction "is") simp_all

lemma length_header_bytes: "header_fits hdr \<Longrightarrow> length (header_bytes hdr) = SectorSize"
  by (simp add: header_bytes_def header_fits_def length_concat_int_bytes NumDirect_def SectorSize_def
      del: length_concat)

lemma bytes_header_bytes: "header_fits hdr \<Longrightarrow> bytes_header (header_bytes hdr) = hdr"
  by (simp add: bytes_header_def header_bytes_def header_fits_def bytes_ints_bytes)

text \<open>
  The header of a file survives the disk: fetching it from the sector it was written back
  to gives the same header.
\<close>

theorem header_roundtrip:
  assumes "idle_disk d" "valid_sector s" "header_fits hdr"
  shows "\<exists>d' d''. Hdr_WriteBack hdr s d = Inr d' \<and> Hdr_FetchFrom s d' = Inr (hdr, d'') \<and> idle_disk d''"
proof -
  from store.wr_ok [OF assms(1,2) length_header_bytes [OF assms(3)]] obtain d' where
    d': "WriteSector s (header_bytes hdr) d = Inr d'" "idle_disk d'" "sector_data s d' = header_bytes hdr" by blast
  from store.rd_ok [OF d'(2) assms(2)] obtain d'' where
    "ReadSector s d' = Inr (sector_data s d', d'')" "idle_disk d''" by blast
  with d' show ?thesis using bytes_header_bytes [OF assms(3)] by (simp add: Hdr_WriteBack_def Hdr_FetchFrom_def)
qed

theorem header_roundtrip_witness:
  "\<exists>d d' d''. Disk_ctor None = Inr d \<and>
     Hdr_WriteBack \<lparr>numBytes = 200, numSectors = 2, dataSectors = 5 # 9 # replicate 28 (- 1)\<rparr> 3 d = Inr d' \<and>
     Hdr_FetchFrom 3 d' = Inr (\<lparr>numBytes = 200, numSectors = 2, dataSectors = 5 # 9 # replicate 28 (- 1)\<rparr>, d'')"
proof -
  from Disk_ctor_new obtain d where d: "Disk_ctor None = Inr d" "idle_disk d" by (auto simp: idle_disk_def)
  have v: "valid_sector 3" by (simp add: valid_sector_def disk_consts)
  have "header_fits \<lparr>numBytes = 200, numSectors = 2, dataSectors = 5 # 9 # replicate 28 (- 1)\<rparr>"
    by (simp add: header_fits_def NumDirect_def int32_def)
  from header_roundtrip [OF d(2) v this] d(1) show ?thesis by blast
qed

section \<open>Allocation\<close>

text \<open>What the loop of \<open>Allocate\<close> does, as searches followed by stores into the table.\<close>

lemma Allocate_loop:
  assumes "wf_bitmap m" "n \<le> card (free_bits m)" "n \<le> length (dataSectors hdr)"
  shows "\<exists>ss m'. for_each [0..int n - 1] Allocate_body (hdr, m) =
       Inr (hdr\<lparr>dataSectors := ss @ drop n (dataSectors hdr)\<rparr>, m') \<and>
     length ss = n \<and> distinct ss \<and> set ss \<subseteq> free_bits m \<and> wf_bitmap m' \<and>
     numBits m' = numBits m \<and> marked m' = marked m \<union> set ss"
  using assms(2,3)
proof (induction n)
  case 0
  then show ?case using assms(1) by simp
next
  case (Suc n)
  then obtain ss m' where IH: "for_each [0..int n - 1] Allocate_body (hdr, m) =
      Inr (hdr\<lparr>dataSectors := ss @ drop n (dataSectors hdr)\<rparr>, m')"
    "length ss = n" "distinct ss" "set ss \<subseteq> free_bits m" "wf_bitmap m'" "numBits m' = numBits m"
    "marked m' = marked m \<union> set ss" by auto
  have fm: "free_bits m' = free_bits m - set ss" using IH(6,7) by (auto simp: free_bits_def)
  have "card (set ss) = n" using IH(2,3) distinct_card by blast
  then have "card (free_bits m') = card (free_bits m) - n"
    using IH(4) fm by (simp add: card_Diff_subset)
  then have "free_bits m' \<noteq> {}" using Suc.prems(1) by auto
  from bits.fnd_free [OF IH(5) this] obtain i m2 where
    i: "Find m' = Inr (i, m2)" "i \<in> free_bits m'" "wf_bitmap m2" by blast
  from Find_ok(2) [OF IH(5)] i(1,2) have m2: "numBits m2 = numBits m'" "marked m2 = insert i (marked m')"
    by (auto simp: free_bits_def)
  have up: "[0..int (Suc n) - 1] = [0..int n - 1] @ [int n]" by (simp add: upto_rec2)
  have upd: "(ss @ drop n (dataSectors hdr))[n := i] = (ss @ [i]) @ drop (Suc n) (dataSectors hdr)"
    using IH(2) Suc.prems(2) Cons_nth_drop_Suc [of n "dataSectors hdr"] by (simp add: list_update_append split: nat.splits)
      (metis list_update_code(2))
  have "for_each [0..int (Suc n) - 1] Allocate_body (hdr, m) =
      Inr (hdr\<lparr>dataSectors := (ss @ [i]) @ drop (Suc n) (dataSectors hdr)\<rparr>, m2)"
    unfolding up for_each_append IH(1) using IH(2) Suc.prems(2) i(1)
    by (simp add: Allocate_body_def upd [simplified])
  moreover have "i \<notin> set ss" "i \<in> free_bits m" using i(2) fm by auto
  ultimately show ?case using IH(2-7) i(3) m2
    by (intro exI [of _ "ss @ [i]"] exI [of _ m2]) auto
qed

text \<open>\<open>Allocate\<close> on every branch, for files that fit into the table.\<close>

lemma Allocate_ok:
  assumes "wf_bitmap m" "length (dataSectors hdr0) = NumDirect" "0 \<le> fileSize" "fileSize \<le> int (NumDirect * SectorSize)"
  shows "let n = divRoundUp fileSize (int SectorSize) in
     if int (card (free_bits m)) < n
     then \<exists>hdr. Allocate m fileSize hdr0 = Inr (False, hdr, m)
     else \<exists>ss rest m'. Allocate m fileSize hdr0 =
            Inr (True, \<lparr>numBytes = fileSize, numSectors = n, dataSectors = ss @ rest\<rparr>, m') \<and>
          int (length ss) = n \<and> distinct ss \<and> set ss \<subseteq> free_bits m \<and> length (ss @ rest) = NumDirect \<and> rest = drop (nat n) (dataSectors hdr0) \<and>
          wf_bitmap m' \<and> numBits m' = numBits m \<and> marked m' = marked m \<union> set ss"
proof -
  define n where "n = nat (divRoundUp fileSize (int SectorSize))"
  have b: "fileSize \<le> int SectorSize * divRoundUp fileSize (int SectorSize)"
    "int SectorSize * divRoundUp fileSize (int SectorSize) < fileSize + int SectorSize"
    using divRoundUp_bounds [of fileSize "int SectorSize"] assms(3) by (auto simp: SectorSize_def mult.commute)
  then have n: "divRoundUp fileSize (int SectorSize) = int n" "n \<le> NumDirect"
    using assms(3,4) by (auto simp: n_def SectorSize_def NumDirect_def)
  let ?hdr = "hdr0\<lparr>numBytes := fileSize, numSectors := int n\<rparr>"
  have nc: "NumClear m = Inr (int (card (free_bits m)))"
    using NumClear_ok [OF assms(1)] card_free_bits [OF assms(1)] by simp
  show ?thesis
  proof (cases "int (card (free_bits m)) < int n")
    case True
    then show ?thesis by (simp add: Allocate_def nc n(1) Let_def)
  next
    case False
    then have "n \<le> card (free_bits m)" by simp
    from Allocate_loop [OF assms(1) this, of ?hdr] n(2) assms(2) obtain ss m' where
      ss: "for_each [0..int n - 1] Allocate_body (?hdr, m) =
        Inr (?hdr\<lparr>dataSectors := ss @ drop n (dataSectors hdr0)\<rparr>, m')" "length ss = n" "distinct ss"
      "set ss \<subseteq> free_bits m" "wf_bitmap m'" "numBits m' = numBits m" "marked m' = marked m \<union> set ss" by auto
    have "Allocate m fileSize hdr0 = Inr (True, \<lparr>numBytes = fileSize, numSectors = int n,
        dataSectors = ss @ drop n (dataSectors hdr0)\<rparr>, m')"
      using False ss(1) by (cases hdr0) (simp add: Allocate_def nc n(1) Let_def)
    with False ss n assms(2) show ?thesis unfolding Let_def n(1) if_not_P [OF False]
      by (intro exI [of _ ss] exI [of _ "drop n (dataSectors hdr0)"] exI [of _ m']) simp
  qed
qed

text \<open>
  \<open>Allocate\<close> for a file that fits into the table either refuses, when fewer sectors are free
  than the file needs, leaving the bitmap alone, or it succeeds: it enters as many sectors as
  the file needs, all different, all free before and marked afterwards, and marks nothing else.
\<close>

theorem Allocate_correct:
  assumes "wf_bitmap m" "length (dataSectors hdr0) = NumDirect" "0 \<le> fileSize" "fileSize \<le> int (NumDirect * SectorSize)"
  shows "let n = divRoundUp fileSize (int SectorSize) in
     if int (card (free_bits m)) < n
     then \<exists>hdr. Allocate m fileSize hdr0 = Inr (False, hdr, m)
     else \<exists>ss rest m'. Allocate m fileSize hdr0 =
            Inr (True, \<lparr>numBytes = fileSize, numSectors = n, dataSectors = ss @ rest\<rparr>, m') \<and>
          int (length ss) = n \<and> distinct ss \<and> set ss \<subseteq> free_bits m \<and> length (ss @ rest) = NumDirect \<and>
          wf_bitmap m' \<and> numBits m' = numBits m \<and> marked m' = marked m \<union> set ss"
proof -
  note A = Allocate_ok [OF assms, unfolded Let_def]
  show ?thesis
  proof (cases "int (card (free_bits m)) < divRoundUp fileSize (int SectorSize)")
    case False
    show ?thesis using A unfolding Let_def if_not_P [OF False] by blast
  qed (use A in \<open>simp add: Let_def\<close>)
qed

text \<open>A bitmap of 1024 sectors with two of them taken, for the witnesses.\<close>

lemma small_bitmap:
  "\<exists>m. BitMap_ctor (\<lambda>_. 0) 1024 = Inr m \<and> wf_bitmap m \<and> numBits m = 1024 \<and> marked m = {}"
  by (rule BitMap_ctor_ok) simp

theorem Allocate_correct_witness:
  "\<exists>m ss rest m'. BitMap_ctor (\<lambda>_. 0) 1024 = Inr m \<and>
     Allocate m 300 \<lparr>numBytes = 0, numSectors = 0, dataSectors = replicate 30 0\<rparr> =
       Inr (True, \<lparr>numBytes = 300, numSectors = 3, dataSectors = ss @ rest\<rparr>, m') \<and>
     length ss = 3 \<and> distinct ss \<and> marked m' = set ss"
proof -
  from small_bitmap obtain m where m: "BitMap_ctor (\<lambda>_. 0) 1024 = Inr m" "wf_bitmap m" "numBits m = 1024"
    "marked m = {}" by auto
  have c: "int (card (free_bits m)) = 1024" using card_free_bits [OF m(2)] m(3,4) by simp
  have d: "divRoundUp 300 128 = 3" by (simp add: divRoundUp_def)
  have "\<exists>ss rest m'. Allocate m 300 \<lparr>numBytes = 0, numSectors = 0, dataSectors = replicate 30 0\<rparr> =
      Inr (True, \<lparr>numBytes = 300, numSectors = 3, dataSectors = ss @ rest\<rparr>, m') \<and>
    int (length ss) = 3 \<and> distinct ss \<and> marked m' = set ss"
    using Allocate_correct [OF m(2), of "\<lparr>numBytes = 0, numSectors = 0, dataSectors = replicate 30 0\<rparr>" 300]
      m(4) c by (auto simp: d Let_def NumDirect_def SectorSize_def)
  with m(1) show ?thesis by auto
qed

text \<open>
  \<open>Allocate\<close> has no check against the size of its table: for a file of more than 30 sectors,
  with enough of them free, the loop writes behind the end of \<open>dataSectors\<close>, which is undefined
  behaviour.
\<close>

theorem Allocate_overflow:
  assumes "wf_bitmap m" "length (dataSectors hdr0) = NumDirect" "int (NumDirect * SectorSize) < fileSize"
    and "divRoundUp fileSize (int SectorSize) \<le> int (card (free_bits m))"
  shows "Allocate m fileSize hdr0 = Inl UNDEFINED"
proof -
  define n where "n = nat (divRoundUp fileSize (int SectorSize))"
  have b: "fileSize \<le> int SectorSize * divRoundUp fileSize (int SectorSize)"
    using divRoundUp_bounds [of fileSize "int SectorSize"] assms(3) by (simp add: SectorSize_def mult.commute)
  then have n: "divRoundUp fileSize (int SectorSize) = int n" "NumDirect < n"
    using assms(3) by (auto simp: n_def SectorSize_def NumDirect_def)
  let ?hdr = "hdr0\<lparr>numBytes := fileSize, numSectors := int n\<rparr>"
  have nc: "NumClear m = Inr (int (card (free_bits m)))"
    using NumClear_ok [OF assms(1)] card_free_bits [OF assms(1)] by simp
  have c: "NumDirect < card (free_bits m)" using assms(4) n by simp
  from Allocate_loop [OF assms(1), of NumDirect ?hdr] c assms(2) obtain ss m' where
    ss: "for_each [0..int NumDirect - 1] Allocate_body (?hdr, m) = Inr (?hdr\<lparr>dataSectors := ss\<rparr>, m')"
    "length ss = NumDirect" "set ss \<subseteq> free_bits m" "wf_bitmap m'" "numBits m' = numBits m"
    "marked m' = marked m \<union> set ss" by auto
  have "card (set ss) \<le> NumDirect" using card_length [of ss] ss(2) by simp
  moreover have "free_bits m' = free_bits m - set ss" using ss(5,6) by (auto simp: free_bits_def)
  ultimately have "free_bits m' \<noteq> {}" using c ss(3)
    by (metis Diff_eq_empty_iff card_mono finite_set leD le_trans)
  from bits.fnd_free [OF ss(4) this] obtain i m2 where i: "Find m' = Inr (i, m2)" by blast
  have up: "[0..int n - 1] = [0..int NumDirect - 1] @ int NumDirect # [int NumDirect + 1..int n - 1]"
    using n(2) upto_split1 [of 0 "int NumDirect" "int n - 1"] upto_rec1 [of "int NumDirect" "int n - 1"] by simp
  have "for_each [0..int n - 1] Allocate_body (?hdr, m) = Inl UNDEFINED"
    unfolding up for_each_append ss(1) by (simp add: Allocate_body_def i ss(2) array_set_def)
  moreover have "\<not> int (card (free_bits m)) < int n" using assms(4) n(1) by simp
  ultimately show ?thesis by (simp add: Allocate_def nc n(1) Let_def)
qed

theorem Allocate_overflow_witness:
  "\<exists>m. BitMap_ctor (\<lambda>_. 0) 1024 = Inr m \<and>
     Allocate m 4000 \<lparr>numBytes = 0, numSectors = 0, dataSectors = replicate 30 0\<rparr> = Inl UNDEFINED"
proof -
  from small_bitmap obtain m where m: "BitMap_ctor (\<lambda>_. 0) 1024 = Inr m" "wf_bitmap m" "numBits m = 1024"
    "marked m = {}" by auto
  have c: "int (card (free_bits m)) = 1024" using card_free_bits [OF m(2)] m(3,4) by simp
  have d: "divRoundUp 4000 128 = 32" by (simp add: divRoundUp_def)
  have "Allocate m 4000 \<lparr>numBytes = 0, numSectors = 0, dataSectors = replicate 30 0\<rparr> = Inl UNDEFINED"
    by (rule Allocate_overflow [OF m(2)]) (simp_all add: c d NumDirect_def SectorSize_def)
  with m(1) show ?thesis by blast
qed

text \<open>\<open>Deallocate\<close> clears the bits of the file's sectors.\<close>

lemma Deallocate_ok:
  assumes "wf_bitmap m" "0 \<le> numSectors hdr" "numSectors hdr \<le> int (length (dataSectors hdr))"
    and "distinct (take (nat (numSectors hdr)) (dataSectors hdr))"
    and "set (take (nat (numSectors hdr)) (dataSectors hdr)) \<subseteq> marked m"
  shows "\<exists>m'. Deallocate hdr m = Inr m' \<and> wf_bitmap m' \<and> numBits m' = numBits m \<and>
     marked m' = marked m - set (take (nat (numSectors hdr)) (dataSectors hdr))"
proof -
  let ?n = "numSectors hdr" and ?ds = "dataSectors hdr"
  let ?I = "\<lambda>xs m'. wf_bitmap m' \<and> numBits m' = numBits m \<and> marked m' = marked m - set (take (length xs) ?ds)"
  have "\<exists>m'. Deallocate hdr m = Inr m' \<and> ?I [0..?n - 1] m'"
    unfolding Deallocate_def
  proof (rule for_each_inv [where I = ?I])
    fix xs x m'
    assume "\<exists>ys. [0..?n - 1] = xs @ x # ys" and I: "?I xs m'"
    then obtain ys where ys: "[0..?n - 1] = xs @ x # ys" by blast
    then have len: "length xs < nat ?n" using length_upto [of 0 "?n - 1"] by (metis add.right_neutral add_diff_cancel_right' diff_add_cancel diff_zero length_append length_Cons less_add_same_cancel1 minus_int_code(1) zero_less_Suc)
    have "[0..?n - 1] ! length xs = x" by (simp add: ys)
    then have x: "x = int (length xs)" using len by simp
    let ?s = "?ds ! length xs"
    have l2: "length xs < length ?ds" using len assms(3) by linarith
    have tk: "take (Suc (length xs)) ?ds = take (length xs) ?ds @ [?s]" by (rule take_Suc_conv_app_nth [OF l2])
    have sm: "?s \<in> set (take (nat ?n) ?ds)" using len l2 by (metis in_set_conv_nth length_take min_less_iff_conj nth_take)
    moreover have "?s \<notin> set (take (length xs) ?ds)"
    proof -
      have "distinct (take (Suc (length xs)) ?ds)"
        using assms(4) len by (metis Suc_leI distinct_take min.absorb2 take_take min.commute)
      then show ?thesis by (simp add: tk)
    qed
    ultimately have "?s \<in> marked m'" using I assms(5) by blast
    then have b: "0 \<le> ?s" "?s < numBits m'" by (auto simp: marked_def)
    from Clear_ok [OF _ b] I obtain m2 where "Clear ?s m' = Inr m2" "wf_bitmap m2" "numBits m2 = numBits m"
      "marked m2 = marked m' - {?s}" by auto
    moreover have "Test ?s m' = Inr True" using Test_eq [OF _ b] I \<open>?s \<in> marked m'\<close> by auto
    ultimately show "\<exists>s'. (bind_result (array_get ?ds x) (\<lambda>s. bind_result (Test s m')
          (\<lambda>set. bind_result (ASSERT set) (\<lambda>_. Clear s m')))) = Inr s' \<and> ?I (xs @ [x]) s'"
      using x l2 I by (auto simp: tk)
  qed (use assms(1) in simp)
  then show ?thesis using assms(2) by simp
qed

end
