(* ===== verification/Open_File.thy ===== *)
theory Open_File
  imports File_Header
begin

text \<open>
  Open files of \<open>filesys/openfile.cc\<close>: reading and writing any range of bytes of a file whose
  data lie in sectors. A request need not start or end at a sector boundary; \<open>WriteAt\<close> first
  reads the sectors it modifies in part. \<open>file_bytes\<close> is the contents of a file; the lemmas
  show that \<open>ReadAt\<close> returns the requested slice of it, cut off at the end of the file, and
  that \<open>WriteAt\<close> overwrites exactly the requested range and nothing else on the disk's other
  sectors, whatever the uninitialised memory of its buffer holds (\<open>junk\<close>).

  Sums of positions and lengths are assumed not to overflow an \<open>int\<close>.
\<close>

section \<open>Operations\<close>

record OpenFile =
  hdr :: FileHeader
  seekPosition :: int

text \<open>Copying out of and into a buffer (\<open>bcopy\<close>), undefined outside of it.\<close>

definition copy_out :: "int \<Rightarrow> int \<Rightarrow> byte list \<Rightarrow> byte list result" where
  "copy_out off n buf =
     (if 0 \<le> off \<and> off + n \<le> int (length buf) then Inr (read_at (nat off) (nat n) buf) else Inl UNDEFINED)"

definition copy_in :: "int \<Rightarrow> byte list \<Rightarrow> byte list \<Rightarrow> byte list result" where
  "copy_in off bs buf =
     (if 0 \<le> off \<and> off + int (length bs) \<le> int (length buf) then Inr (write_at (nat off) bs buf) else Inl UNDEFINED)"

definition OpenFile_ctor :: "int \<Rightarrow> Disk \<Rightarrow> (OpenFile \<times> Disk) result" where
  "OpenFile_ctor sector d =
     bind_result (Hdr_FetchFrom sector d) (\<lambda>(h, d). Inr (\<lparr>hdr = h, seekPosition = 0\<rparr>, d))"

definition Seek :: "int \<Rightarrow> OpenFile \<Rightarrow> OpenFile" where
  "Seek position f = f\<lparr>seekPosition := position\<rparr>"

text \<open>The loop that reads the sectors \<open>i\<close> of the file one behind the other into the buffer.\<close>

fun ReadAt_loop :: "int list \<Rightarrow> FileHeader \<Rightarrow> Disk \<Rightarrow> (byte list \<times> Disk) result" where
  "ReadAt_loop [] h d = Inr ([], d)"
| "ReadAt_loop (i # is) h d =
     bind_result (ByteToSector h (i * int SectorSize)) (\<lambda>s.
     bind_result (ReadSector s d) (\<lambda>(bs, d).
     bind_result (ReadAt_loop is h d) (\<lambda>(rest, d). Inr (bs @ rest, d))))"

text \<open>The bytes copied into \<open>into\<close>; their number is the value returned.\<close>

definition ReadAt :: "int \<Rightarrow> int \<Rightarrow> FileHeader \<Rightarrow> Disk \<Rightarrow> (byte list \<times> Disk) result" where
  "ReadAt nBytes position h d =
     (let fileLength = FileLength h
      in if nBytes \<le> 0 \<or> position \<ge> fileLength then Inr ([], d)
         else
           let n = (if position + nBytes > fileLength then fileLength - position else nBytes);
               firstSector = divRoundDown position (int SectorSize);
               finalSector = divRoundDown (position + n - 1) (int SectorSize)
           in bind_result (ReadAt_loop [firstSector..finalSector] h d) (\<lambda>(buf, d).
              bind_result (copy_out (position - firstSector * int SectorSize) n buf) (\<lambda>bs. Inr (bs, d))))"

fun WriteAt_loop :: "int list \<Rightarrow> FileHeader \<Rightarrow> byte list \<Rightarrow> Disk \<Rightarrow> Disk result" where
  "WriteAt_loop [] h buf d = Inr d"
| "WriteAt_loop (i # is) h buf d =
     bind_result (ByteToSector h (i * int SectorSize)) (\<lambda>s.
     bind_result (WriteSector s (take SectorSize buf) d) (WriteAt_loop is h (drop SectorSize buf)))"

text \<open>
  The buffer of \<open>WriteAt\<close>: its allocation (\<open>junk\<close> is the memory that \<open>new char[]\<close> returns) and
  the reads of the first and last sector, if they are to be modified in part.
\<close>

definition WriteAt_buffer ::
  "(nat \<Rightarrow> byte) \<Rightarrow> int \<Rightarrow> int \<Rightarrow> int \<Rightarrow> int \<Rightarrow> FileHeader \<Rightarrow> Disk \<Rightarrow> (byte list \<times> Disk) result" where
  "WriteAt_buffer junk position n firstSector finalSector h d =
     (let nSectors = 1 + finalSector - firstSector;
          buf0 = map junk [0..<nat (nSectors * int SectorSize)];
          firstAligned = (position = firstSector * int SectorSize);
          lastAligned = (position + n = (finalSector + 1) * int SectorSize)
      in bind_result
           (if \<not> firstAligned
            then bind_result (ReadAt (int SectorSize) (firstSector * int SectorSize) h d)
                   (\<lambda>(bs, d). bind_result (copy_in 0 bs buf0) (\<lambda>buf. Inr (buf, d)))
            else Inr (buf0, d)) (\<lambda>(buf1, d1).
           if \<not> lastAligned \<and> (firstSector \<noteq> finalSector \<or> firstAligned)
           then bind_result (ReadAt (int SectorSize) (finalSector * int SectorSize) h d1)
                  (\<lambda>(bs, d). bind_result (copy_in ((finalSector - firstSector) * int SectorSize) bs buf1)
                     (\<lambda>buf. Inr (buf, d)))
           else Inr (buf1, d1)))"

text \<open>\<open>from0\<close> is the caller's buffer.\<close>

definition WriteAt ::
  "(nat \<Rightarrow> byte) \<Rightarrow> byte list \<Rightarrow> int \<Rightarrow> int \<Rightarrow> FileHeader \<Rightarrow> Disk \<Rightarrow> (int \<times> Disk) result" where
  "WriteAt junk from0 nBytes position h d =
     (let fileLength = FileLength h
      in if nBytes \<le> 0 \<or> position \<ge> fileLength then Inr (0, d)
         else
           let n = (if position + nBytes > fileLength then fileLength - position else nBytes);
               firstSector = divRoundDown position (int SectorSize);
               finalSector = divRoundDown (position + n - 1) (int SectorSize)
           in bind_result (WriteAt_buffer junk position n firstSector finalSector h d) (\<lambda>(buf, d1).
              bind_result (copy_out 0 n from0) (\<lambda>bs.
              bind_result (copy_in (position - firstSector * int SectorSize) bs buf) (\<lambda>buf.
              bind_result (WriteAt_loop [firstSector..finalSector] h buf d1) (\<lambda>d2. Inr (n, d2))))))"

definition Read_seq :: "int \<Rightarrow> OpenFile \<Rightarrow> Disk \<Rightarrow> (byte list \<times> OpenFile \<times> Disk) result" where
  "Read_seq nBytes f d =
     bind_result (ReadAt nBytes (seekPosition f) (hdr f) d) (\<lambda>(bs, d).
       Inr (bs, f\<lparr>seekPosition := seekPosition f + int (length bs)\<rparr>, d))"

definition Write_seq ::
  "(nat \<Rightarrow> byte) \<Rightarrow> byte list \<Rightarrow> int \<Rightarrow> OpenFile \<Rightarrow> Disk \<Rightarrow> (int \<times> OpenFile \<times> Disk) result" where
  "Write_seq junk from0 nBytes f d =
     bind_result (WriteAt junk from0 nBytes (seekPosition f) (hdr f) d) (\<lambda>(n, d).
       Inr (n, f\<lparr>seekPosition := seekPosition f + n\<rparr>, d))"

definition Length :: "OpenFile \<Rightarrow> int" where
  "Length f = FileLength (hdr f)"

section \<open>The contents of a file\<close>

definition data_sectors :: "FileHeader \<Rightarrow> int list" where
  "data_sectors h = take (nat (numSectors h)) (dataSectors h)"

definition header_ok :: "FileHeader \<Rightarrow> bool" where
  "header_ok h \<longleftrightarrow> 0 \<le> numBytes h \<and> numSectors h = divRoundUp (numBytes h) (int SectorSize) \<and>
     numSectors h \<le> int (length (dataSectors h)) \<and> length (dataSectors h) = NumDirect \<and>
     distinct (data_sectors h) \<and> (\<forall>s \<in> set (data_sectors h). valid_sector s)"

definition file_raw :: "FileHeader \<Rightarrow> Disk \<Rightarrow> byte list" where
  "file_raw h d = concat (map (\<lambda>s. sector_data s d) (data_sectors h))"

definition file_bytes :: "FileHeader \<Rightarrow> Disk \<Rightarrow> byte list" where
  "file_bytes h d = take (nat (numBytes h)) (file_raw h d)"

lemma concat_slice:
  assumes "\<forall>x \<in> set xs. length (g x) = c"
  shows "concat (map g (take k (drop f xs))) = take (k * c) (drop (f * c) (concat (map g xs)))"
proof -
  have T: "concat (map g (take k ys)) = take (k * c) (concat (map g ys))" if "\<forall>x \<in> set ys. length (g x) = c" for k ys
    using that
  proof (induction ys arbitrary: k)
    case (Cons y ys)
    then show ?case by (cases k) simp_all
  qed simp
  have D: "concat (map g (drop f ys)) = drop (f * c) (concat (map g ys))" if "\<forall>x \<in> set ys. length (g x) = c" for f ys
    using that
  proof (induction ys arbitrary: f)
    case (Cons y ys)
    then show ?case by (cases f) simp_all
  qed simp
  have "\<forall>x \<in> set (drop f xs). length (g x) = c" using assms by (auto dest: in_set_dropD)
  then show ?thesis by (simp add: T D assms)
qed

lemma length_data_sectors: "header_ok h \<Longrightarrow> int (length (data_sectors h)) = numSectors h"
  using divRoundUp_bounds [of "numBytes h" "int SectorSize"]
  by (auto simp: header_ok_def data_sectors_def SectorSize_def)

lemma sector_lengths:
  "header_ok h \<Longrightarrow> idle_disk d \<Longrightarrow> \<forall>s \<in> set (data_sectors h). length (sector_data s d) = SectorSize"
  by (auto simp: header_ok_def idle_disk_def)

lemma length_concat_const: "\<forall>x \<in> set xs. length (g x) = c \<Longrightarrow> length (concat (map g xs)) = length xs * c"
  by (induction xs) simp_all

lemma length_file_raw:
  assumes "header_ok h" "idle_disk d"
  shows "int (length (file_raw h d)) = numSectors h * int SectorSize" "numBytes h \<le> int (length (file_raw h d))"
proof -
  show e: "int (length (file_raw h d)) = numSectors h * int SectorSize"
    using length_concat_const [OF sector_lengths [OF assms]] length_data_sectors [OF assms(1)]
    by (simp add: file_raw_def del: length_concat)
  show "numBytes h \<le> int (length (file_raw h d))"
    using divRoundUp_bounds [of "numBytes h" "int SectorSize"] assms(1)
    by (simp add: e header_ok_def SectorSize_def mult.commute)
qed

lemma length_file_bytes: "header_ok h \<Longrightarrow> idle_disk d \<Longrightarrow> int (length (file_bytes h d)) = numBytes h"
  using length_file_raw(2) [of h d] by (auto simp: file_bytes_def header_ok_def min_def)

lemma ByteToSector_ok:
  assumes "header_ok h" "0 \<le> i" "i < numSectors h"
  shows "ByteToSector h (i * int SectorSize) = Inr (data_sectors h ! nat i)"
proof -
  have "(i * int SectorSize) sdiv int SectorSize = i" using assms(2) by (simp add: sdiv_nonneg SectorSize_def)
  moreover have "i < int (length (dataSectors h))" using assms by (simp add: header_ok_def)
  ultimately show ?thesis using assms(2,3) by (simp add: ByteToSector_def data_sectors_def)
qed

lemma map_nth_upto:
  assumes "0 \<le> f" "l < int (length xs)"
  shows "map (\<lambda>i. xs ! nat i) [f..l] = take (nat (l + 1 - f)) (drop (nat f) xs)"
  using assms by (intro nth_equalityI) (auto simp: nat_add_distrib)

lemma ReadAt_loop_ok:
  assumes "header_ok h" "\<forall>i \<in> set is. 0 \<le> i \<and> i < numSectors h"
  shows "ReadAt_loop is h d = read_all ReadSector (map (\<lambda>i. data_sectors h ! nat i) is) d"
  using assms(2)
proof (induction "is" arbitrary: d)
  case (Cons i "is")
  then show ?case by (simp add: ByteToSector_ok [OF assms(1)])
qed simp

lemma WriteAt_loop_ok:
  assumes "header_ok h" "\<forall>i \<in> set is. 0 \<le> i \<and> i < numSectors h"
  shows "WriteAt_loop is h buf d = write_all WriteSector (map (\<lambda>i. data_sectors h ! nat i) is) buf d"
  using assms(2)
proof (induction "is" arbitrary: buf d)
  case (Cons i "is")
  then have "WriteAt_loop is h buf' = write_all WriteSector (map (\<lambda>i. data_sectors h ! nat i) is) buf'" for buf'
    by (auto simp: fun_eq_iff)
  with Cons.prems show ?case by (simp add: ByteToSector_ok [OF assms(1)])
qed simp

text \<open>Where a request lies in the sectors of the file.\<close>

lemma request_bounds:
  assumes h: "header_ok h" "0 \<le> position" "0 < n" "position + n \<le> numBytes h"
    and f: "f = divRoundDown position (int SectorSize)" and l: "l = divRoundDown (position + n - 1) (int SectorSize)"
  shows "0 \<le> f" "f \<le> l" "l < numSectors h" "f * int SectorSize \<le> position" "position < (f + 1) * int SectorSize"
    "l * int SectorSize < position + n" "position + n \<le> (l + 1) * int SectorSize"
proof -
  have f': "f = position div 128" and l': "l = (position + n - 1) div 128"
    using h(2,3) by (simp_all add: f l divRoundDown_def SectorSize_def sdiv_nonneg)
  show "0 \<le> f" using h(2) by (simp add: f')
  show "f \<le> l" using h(2,3) unfolding f' l' by (intro zdiv_mono1) simp_all
  have "128 * f \<le> position \<and> position < 128 * f + 128"
    using mult_div_mod_eq [of 128 position] pos_mod_bound [of 128 position] pos_mod_sign [of 128 position] unfolding f' by linarith
  then show "f * int SectorSize \<le> position" "position < (f + 1) * int SectorSize" by (simp_all add: SectorSize_def)
  have "128 * l \<le> position + n - 1 \<and> position + n - 1 < 128 * l + 128"
    using mult_div_mod_eq [of 128 "position + n - 1"] pos_mod_bound [of 128 "position + n - 1"]
      pos_mod_sign [of 128 "position + n - 1"] unfolding l' by linarith
  then show l1: "l * int SectorSize < position + n" "position + n \<le> (l + 1) * int SectorSize" by (simp_all add: SectorSize_def)
  have "numBytes h \<le> int SectorSize * numSectors h"
    using divRoundUp_bounds [of "numBytes h" "int SectorSize"] h(1) by (simp add: header_ok_def SectorSize_def mult.commute)
  with l1(1) h(4) show "l < numSectors h" by (simp add: SectorSize_def)
qed

section \<open>Reading\<close>

text \<open>The sectors from \<open>f\<close> to \<open>l\<close> are a slice of the file's sectors, and so is their data.\<close>

lemma loop_sectors:
  assumes "header_ok h" "0 \<le> f" "f \<le> l" "l < numSectors h"
  defines "ss \<equiv> take (nat (l + 1 - f)) (drop (nat f) (data_sectors h))"
  shows "map (\<lambda>i. data_sectors h ! nat i) [f..l] = ss" "distinct ss" "\<forall>s \<in> set ss. valid_sector s"
    "int (length ss) = l + 1 - f"
proof -
  note len = length_data_sectors [OF assms(1)]
  show "map (\<lambda>i. data_sectors h ! nat i) [f..l] = ss"
    unfolding ss_def by (rule map_nth_upto) (use assms(2,4) len in simp_all)
  show "distinct ss" "\<forall>s \<in> set ss. valid_sector s"
    using assms(1) by (auto simp: ss_def header_ok_def dest!: in_set_takeD in_set_dropD)
  show "int (length ss) = l + 1 - f" using assms(2-4) len by (auto simp: ss_def)
qed

lemma ReadAt_loop_slice:
  assumes "header_ok h" "idle_disk d" "0 \<le> f" "f \<le> l" "l < numSectors h"
  shows "\<exists>d'. ReadAt_loop [f..l] h d =
       Inr (take (nat (l + 1 - f) * SectorSize) (drop (nat f * SectorSize) (file_raw h d)), d') \<and>
     idle_disk d' \<and> (\<forall>s. sector_data s d' = sector_data s d)"
proof -
  note ls = loop_sectors [OF assms(1,3-5)]
  have "ReadAt_loop [f..l] h d = read_all ReadSector (take (nat (l + 1 - f)) (drop (nat f) (data_sectors h))) d"
    unfolding ls(1) [symmetric] by (rule ReadAt_loop_ok [OF assms(1)]) (use assms(3-5) in auto)
  with store.read_all_ok [OF assms(2) ls(3)] show ?thesis
    by (simp add: concat_slice [OF sector_lengths [OF assms(1,2)]] file_raw_def)
qed

lemma file_bytes_cong: "\<forall>s. sector_data s d' = sector_data s d \<Longrightarrow> file_bytes h d' = file_bytes h d"
  by (simp add: file_bytes_def file_raw_def)

lemma slice_of_slice:
  "a \<le> p \<Longrightarrow> p + n \<le> a + c \<Longrightarrow> p + n \<le> m \<Longrightarrow>
   take n (drop (p - a) (take c (drop a xs))) = take n (drop p (take m xs))"
  by (simp add: drop_take)

text \<open>\<open>ReadAt\<close> on every branch: the slice of the contents, cut off at the end of the file.\<close>

lemma ReadAt_ok:
  assumes h: "header_ok h" "idle_disk d" "0 \<le> position"
  shows "\<exists>d'. ReadAt nBytes position h d = Inr (read_at (nat position) (nat nBytes) (file_bytes h d), d') \<and>
     idle_disk d' \<and> (\<forall>s. sector_data s d' = sector_data s d)"
proof (cases "nBytes \<le> 0 \<or> position \<ge> numBytes h")
  case True
  then have "read_at (nat position) (nat nBytes) (file_bytes h d) = []"
    using length_file_bytes [OF h(1,2)] h(3) by (auto simp: read_at_def)
  with True h(2) show ?thesis by (simp add: ReadAt_def FileLength_def)
next
  case False
  define n where "n = (if position + nBytes > numBytes h then numBytes h - position else nBytes)"
  define f where "f = divRoundDown position (int SectorSize)"
  define l where "l = divRoundDown (position + n - 1) (int SectorSize)"
  have n: "0 < n" "position + n \<le> numBytes h" using False by (auto simp: n_def)
  note b = request_bounds [OF h(1,3) n f_def l_def]
  define p where "p = nat position"
  define a where "a = nat f * SectorSize"
  define c where "c = nat (l + 1 - f) * SectorSize"
  let ?buf = "take c (drop a (file_raw h d))"
  from ReadAt_loop_slice [OF h(1,2) b(1-3)] obtain d' where
    d': "ReadAt_loop [f..l] h d = Inr (?buf, d')" "idle_disk d'" "\<forall>s. sector_data s d' = sector_data s d"
    unfolding a_def c_def by auto
  have i: "int p = position" "int a = f * int SectorSize" "int c = (l + 1 - f) * int SectorSize"
    using b(1,2) h(3) by (simp_all add: p_def a_def c_def)
  have ac: "int a + int c = (l + 1) * int SectorSize" by (simp add: i algebra_simps)
  have "(l + 1) * int SectorSize \<le> numSectors h * int SectorSize" using b(3) by (intro mult_right_mono) simp_all
  then have "a + c \<le> length (file_raw h d)" using ac length_file_raw(1) [OF h(1,2)] by linarith
  then have lb: "length ?buf = c" by simp
  have off: "nat (position - f * int SectorSize) = p - a" by (metis i(1,2) nat_minus_as_int)
  have pn: "a \<le> p" "p + nat n \<le> a + c" "p + nat n \<le> nat (numBytes h)" using b(4,7) i ac n by linarith+
  have "0 \<le> position - f * int SectorSize \<and> position - f * int SectorSize + n \<le> int (length ?buf)"
    using b(4,7) i ac lb by linarith
  then have "copy_out (position - f * int SectorSize) n ?buf = Inr (take (nat n) (drop (p - a) ?buf))"
    by (simp only: copy_out_def read_at_def off if_True simp_thms)
  also have "take (nat n) (drop (p - a) ?buf) = take (nat n) (drop p (file_bytes h d))"
    unfolding file_bytes_def by (rule slice_of_slice [OF pn])
  also have "\<dots> = read_at p (nat nBytes) (file_bytes h d)"
  proof (cases "position + nBytes > numBytes h")
    case True
    then have "length (drop p (file_bytes h d)) \<le> nat n" "length (drop p (file_bytes h d)) \<le> nat nBytes"
      using length_file_bytes [OF h(1,2)] i(1) by (simp_all add: n_def)
    then show ?thesis by (simp add: read_at_def)
  qed (simp add: read_at_def n_def)
  finally have "copy_out (position - f * int SectorSize) n ?buf = Inr (read_at p (nat nBytes) (file_bytes h d))" .
  then have "ReadAt nBytes position h d = Inr (read_at p (nat nBytes) (file_bytes h d), d')"
    using False d'(1) unfolding ReadAt_def Let_def FileLength_def n_def [symmetric] f_def [symmetric] l_def [symmetric]
    by simp
  with d'(2,3) show ?thesis unfolding p_def by blast
qed

section \<open>Writing\<close>

text \<open>
  The buffer of \<open>WriteAt\<close> before the new bytes are copied in. Where it has to agree with the
  file: everywhere within the file but on the range that is overwritten.
\<close>

definition agrees :: "nat \<Rightarrow> byte list \<Rightarrow> byte list \<Rightarrow> nat set \<Rightarrow> bool" where
  "agrees a buf bs R \<longleftrightarrow> (\<forall>j < length buf. a + j < length bs \<longrightarrow> a + j \<in> R \<longrightarrow> buf ! j = bs ! (a + j))"

lemma agrees_copy_in:
  assumes "copy_in off (read_at p SectorSize bs) buf = Inr buf'" "p = a + nat off"
  shows "length buf' = length buf" "agrees a buf bs R \<Longrightarrow> agrees a buf' bs (R \<union> {p..<p + SectorSize})"
proof -
  let ?r = "read_at p SectorSize bs"
  have b: "nat off + length ?r \<le> length buf" "buf' = write_at (nat off) ?r buf"
    using assms(1) by (auto simp: copy_in_def split: if_splits)
  then show len: "length buf' = length buf" by simp
  show "agrees a buf' bs (R \<union> {p..<p + SectorSize})" if R: "agrees a buf bs R"
    unfolding agrees_def
  proof (intro allI impI)
    fix j assume j: "j < length buf'" "a + j < length bs" "a + j \<in> R \<union> {p..<p + SectorSize}"
    have nj: "buf' ! j = (if nat off \<le> j \<and> j < nat off + length ?r then ?r ! (j - nat off) else buf ! j)"
      using nth_write_at [of j buf "nat off" ?r] j(1) len b(2) by simp
    show "buf' ! j = bs ! (a + j)"
    proof (cases "nat off \<le> j \<and> j < nat off + length ?r")
      case True
      then have "j - nat off < SectorSize" "p + (j - nat off) = a + j" using assms(2) by (auto simp: read_at_def)
      then show ?thesis using True nj assms(2) j(2) by (simp add: read_at_def)
    next
      case False
      have "length ?r = min SectorSize (length bs - p)" by (simp add: read_at_def min.commute)
      then have "a + j \<notin> {p..<p + SectorSize}" using False j(2) assms(2) by auto
      then show ?thesis using nj False R j len by (auto simp: agrees_def)
    qed
  qed
qed

lemma copy_in_total: "0 \<le> off \<Longrightarrow> off + int (length bs) \<le> int (length buf) \<Longrightarrow> \<exists>buf'. copy_in off bs buf = Inr buf'"
  by (simp add: copy_in_def)

text \<open>One of the two reads that fill the buffer.\<close>

lemma fill_ok:
  assumes h: "header_ok h" "idle_disk d" "0 \<le> i" "0 \<le> off" "off + int SectorSize \<le> int (length buf)"
    and i: "nat (i * int SectorSize) = a + nat off"
  shows "\<exists>buf' d'. bind_result (ReadAt (int SectorSize) (i * int SectorSize) h d)
      (\<lambda>(bs, d). bind_result (copy_in off bs buf) (\<lambda>buf. Inr (buf, d))) = Inr (buf', d') \<and>
    idle_disk d' \<and> (\<forall>s. sector_data s d' = sector_data s d) \<and> length buf' = length buf \<and>
    (\<forall>R. agrees a buf (file_bytes h d) R \<longrightarrow>
       agrees a buf' (file_bytes h d) (R \<union> {nat (i * int SectorSize)..<nat (i * int SectorSize) + SectorSize}))"
proof -
  let ?p = "nat (i * int SectorSize)"
  have "0 \<le> i * int SectorSize" using h(3) by simp
  from ReadAt_ok [OF h(1,2) this, of "int SectorSize"] obtain d' where
    d': "ReadAt (int SectorSize) (i * int SectorSize) h d = Inr (read_at ?p SectorSize (file_bytes h d), d')"
    "idle_disk d'" "\<forall>s. sector_data s d' = sector_data s d" by auto
  have "length (read_at ?p SectorSize (file_bytes h d)) \<le> SectorSize" by (simp add: read_at_def)
  then obtain buf' where buf': "copy_in off (read_at ?p SectorSize (file_bytes h d)) buf = Inr buf'"
    using copy_in_total [OF h(4), of "read_at ?p SectorSize (file_bytes h d)" buf] h(5) by auto
  from agrees_copy_in [OF buf' i] d' buf' show ?thesis by auto
qed

text \<open>Writing the sectors from \<open>f\<close> to \<open>l\<close> replaces that slice of the raw contents.\<close>

lemma WriteAt_loop_slice:
  assumes h: "header_ok h" "idle_disk d" "0 \<le> f" "f \<le> l" "l < numSectors h"
    and a: "a = nat f * SectorSize" "c = nat (l + 1 - f) * SectorSize" "length buf = c"
  shows "\<exists>d'. WriteAt_loop [f..l] h buf d = Inr d' \<and> idle_disk d' \<and>
     file_raw h d' = take a (file_raw h d) @ buf @ drop (a + c) (file_raw h d) \<and>
     (\<forall>s. valid_sector s \<longrightarrow> s \<notin> set (data_sectors h) \<longrightarrow> sector_data s d' = sector_data s d)"
proof -
  define ss where "ss = take (nat (l + 1 - f)) (drop (nat f) (data_sectors h))"
  note ls = loop_sectors [OF h(1,3-5), folded ss_def]
  have "WriteAt_loop [f..l] h buf d = write_all WriteSector ss buf d"
    unfolding ls(1) [symmetric] by (rule WriteAt_loop_ok [OF h(1)]) (use h(3-5) in auto)
  moreover have "nat (l + 1 - f) = length ss" using ls(4) by (metis nat_int)
  then have "length buf = SectorSize * length ss" using a(2,3) by simp
  ultimately obtain d' where d': "WriteAt_loop [f..l] h buf d = Inr d'" "idle_disk d'"
    "concat (map (\<lambda>s. sector_data s d') ss) = buf"
    "\<forall>s. valid_sector s \<longrightarrow> s \<notin> set ss \<longrightarrow> sector_data s d' = sector_data s d"
    using store.write_all_ok [OF h(2) ls(3,2), of buf] by auto
  let ?ds = "data_sectors h" and ?g = "\<lambda>d s. sector_data s d"
  have ds: "?ds = take (nat f) ?ds @ ss @ drop (nat (l + 1)) ?ds"
  proof -
    have "nat (l + 1 - f) + nat f = nat (l + 1)" using h(3,4) by simp
    then show ?thesis by (simp add: ss_def) (metis append_take_drop_id drop_drop)
  qed
  have dist: "distinct ?ds" and val: "\<forall>s \<in> set ?ds. valid_sector s" using h(1) by (auto simp: header_ok_def)
  have keep: "map (?g d') xs = map (?g d) xs" if "set xs \<subseteq> set ?ds" "set xs \<inter> set ss = {}" for xs
    using d'(4) val that by auto
  have dj: "set (take (nat f) ?ds) \<inter> set ss = {}" "set (drop (nat (l + 1)) ?ds) \<inter> set ss = {}"
    using dist by (subst (asm) ds, auto)+
  have "file_raw h d' = concat (map (?g d') (take (nat f) ?ds)) @ buf @ concat (map (?g d') (drop (nat (l + 1)) ?ds))"
    unfolding file_raw_def by (subst ds) (simp add: d'(3))
  also have "concat (map (?g d') (take (nat f) ?ds)) = take a (file_raw h d)"
    unfolding keep [OF set_take_subset dj(1)]
    using concat_slice [OF sector_lengths [OF h(1,2)], of "nat f" 0] by (simp add: file_raw_def a(1))
  also have "concat (map (?g d') (drop (nat (l + 1)) ?ds)) = drop (a + c) (file_raw h d)"
  proof -
    have "nat (l + 1) * SectorSize = a + c"
      using h(3,4) unfolding a(1,2) add_mult_distrib [symmetric] by (simp add: nat_add_distrib [symmetric])
    then show ?thesis unfolding keep [OF set_drop_subset dj(2)]
      using concat_slice [OF sector_lengths [OF h(1,2)], of "length ?ds" "nat (l + 1)"]
        length_concat_const [OF sector_lengths [OF h(1,2)]]
      by (simp add: file_raw_def del: length_concat)
  qed
  finally have "file_raw h d' = take a (file_raw h d) @ buf @ drop (a + c) (file_raw h d)" .
  moreover have "set ss \<subseteq> set ?ds" by (subst ds) auto
  ultimately show ?thesis using d'(1,2,4) by auto
qed

text \<open>What the buffer says about the bytes of the file after it has been written back.\<close>

lemma overwrite_file:
  assumes F: "F = take m raw" "m \<le> length raw" and buf: "length buf = c" "a + c \<le> length raw"
    and p: "a \<le> p" "p + length bs \<le> a + c" "p + length bs \<le> m"
    and ag: "agrees a buf F (- {p..<p + length bs})"
  shows "take m (take a raw @ write_at (p - a) bs buf @ drop (a + c) raw) = take p F @ bs @ drop (p + length bs) F"
proof (rule nth_equalityI)
  let ?w = "write_at (p - a) bs buf"
  have lw: "length ?w = c" using buf(1) p(1,2) by simp
  have lF: "length F = m" using F by simp
  show "length (take m (take a raw @ ?w @ drop (a + c) raw)) = length (take p F @ bs @ drop (p + length bs) F)"
    using lw lF F(2) buf(2) p by simp
  fix x assume "x < length (take m (take a raw @ ?w @ drop (a + c) raw))"
  then have x: "x < m" by (simp only: length_take min_less_iff_conj)
  have L: "take m (take a raw @ ?w @ drop (a + c) raw) ! x =
      (if x < a then raw ! x else if x < a + c then ?w ! (x - a) else raw ! x)"
    using x F(2) buf(2) by (auto simp: nth_append lw simp del: take_append length_write_at)
  have R: "(take p F @ bs @ drop (p + length bs) F) ! x =
      (if p \<le> x \<and> x < p + length bs then bs ! (x - p) else F ! x)"
    using x lF p(3) by (auto simp: nth_append)
  have "?w ! (x - a) = (if p \<le> x \<and> x < p + length bs then bs ! (x - p) else F ! x)" if "a \<le> x" "x < a + c"
  proof -
    have "?w ! (x - a) = (if p - a \<le> x - a \<and> x - a < p - a + length bs then bs ! (x - a - (p - a)) else buf ! (x - a))"
      by (rule nth_write_at) (use that buf(1) in simp)
    moreover have "buf ! (x - a) = F ! x" if "x \<notin> {p..<p + length bs}"
      using ag that \<open>a \<le> x\<close> \<open>x < a + c\<close> x lF buf(1) by (simp add: agrees_def)
    ultimately show ?thesis using that p(1) by auto
  qed
  then show "take m (take a raw @ ?w @ drop (a + c) raw) ! x = (take p F @ bs @ drop (p + length bs) F) ! x"
    unfolding L R using x F(1) p(1,2) by auto
qed

text \<open>The two reads leave a buffer that agrees with the file outside of the range to be written.\<close>

lemma WriteAt_fill:
  assumes h: "header_ok h" "idle_disk d" "0 \<le> f" "f \<le> l"
    and a: "int a = f * int SectorSize" "int c = (l + 1 - f) * int SectorSize"
    and p: "int a \<le> position" "position < int a + int SectorSize" "l * int SectorSize < position + n"
      "position + n \<le> int a + int c"
  shows "\<exists>buf2 d2. WriteAt_buffer junk position n f l h d = Inr (buf2, d2) \<and>
    idle_disk d2 \<and> (\<forall>s. sector_data s d2 = sector_data s d) \<and> length buf2 = c \<and>
    agrees a buf2 (file_bytes h d) (- {nat position..<nat position + nat n})"
proof -
  let ?S = "int SectorSize" and ?F = "file_bytes h d"
  define buf0 where "buf0 = map junk [0..<nat ((1 + l - f) * ?S)]"
  define fa where "fa \<longleftrightarrow> position = f * ?S"
  define la where "la \<longleftrightarrow> position + n = (l + 1) * ?S"
  have "1 + l - f = l + 1 - f" by simp
  then have "nat ((1 + l - f) * ?S) = c" using a(2) by (metis nat_int)
  then have l0: "length buf0 = c" by (simp add: buf0_def)
  have na: "nat (f * ?S) = a" using a(1) by (metis nat_int)
  have lf: "0 \<le> (l - f) * ?S" by (intro mult_nonneg_nonneg) (use h(4) in simp_all)
  have lc: "(l - f) * ?S + ?S = int c" by (simp add: a(2) algebra_simps)
  have nl: "nat (l * ?S) = a + nat ((l - f) * ?S)"
  proof -
    have "l * ?S = int a + (l - f) * ?S" by (simp add: a(1) algebra_simps)
    then show ?thesis by (simp only: nat_add_distrib [OF of_nat_0_le_iff lf] nat_int)
  qed
  have c0: "0 + ?S \<le> int (length buf0)" using lf lc l0 by linarith
  have "\<exists>buf1 d1 R1. (if \<not> fa then bind_result (ReadAt ?S (f * ?S) h d)
          (\<lambda>(bs, d). bind_result (copy_in 0 bs buf0) (\<lambda>buf. Inr (buf, d))) else Inr (buf0, d)) = Inr (buf1, d1) \<and>
      idle_disk d1 \<and> (\<forall>s. sector_data s d1 = sector_data s d) \<and> length buf1 = c \<and> agrees a buf1 ?F R1 \<and>
      (\<not> fa \<longrightarrow> {a..<a + SectorSize} \<subseteq> R1)"
  proof (cases fa)
    case True
    then show ?thesis using h(2) l0 by (intro exI [of _ buf0] exI [of _ d] exI [of _ "{}"]) (simp add: agrees_def)
  next
    case False
    from fill_ok [OF h(1,2,3) order.refl c0, of a] na obtain buf1 d1 where
      "bind_result (ReadAt ?S (f * ?S) h d) (\<lambda>(bs, d). bind_result (copy_in 0 bs buf0) (\<lambda>buf. Inr (buf, d))) = Inr (buf1, d1)"
      "idle_disk d1" "\<forall>s. sector_data s d1 = sector_data s d" "length buf1 = length buf0"
      "\<forall>R. agrees a buf0 ?F R \<longrightarrow> agrees a buf1 ?F (R \<union> {a..<a + SectorSize})" by auto
    moreover have "agrees a buf0 ?F {}" by (simp add: agrees_def)
    ultimately show ?thesis using False l0 by auto
  qed
  then obtain buf1 d1 R1 where 1: "(if \<not> fa then bind_result (ReadAt ?S (f * ?S) h d)
          (\<lambda>(bs, d). bind_result (copy_in 0 bs buf0) (\<lambda>buf. Inr (buf, d))) else Inr (buf0, d)) = Inr (buf1, d1)"
    "idle_disk d1" "\<forall>s. sector_data s d1 = sector_data s d" "length buf1 = c" "agrees a buf1 ?F R1"
    "\<not> fa \<longrightarrow> {a..<a + SectorSize} \<subseteq> R1" by blast
  have F1: "file_bytes h d1 = ?F" by (rule file_bytes_cong [OF 1(3)])
  have "\<exists>buf2 d2 R2. (if \<not> la \<and> (f \<noteq> l \<or> fa)
       then bind_result (ReadAt ?S (l * ?S) h d1)
              (\<lambda>(bs, d). bind_result (copy_in ((l - f) * ?S) bs buf1) (\<lambda>buf. Inr (buf, d)))
       else Inr (buf1, d1)) = Inr (buf2, d2) \<and>
      idle_disk d2 \<and> (\<forall>s. sector_data s d2 = sector_data s d) \<and> length buf2 = c \<and> agrees a buf2 ?F R2 \<and>
      R1 \<subseteq> R2 \<and> (\<not> la \<and> (f \<noteq> l \<or> fa) \<longrightarrow> {nat (l * ?S)..<nat (l * ?S) + SectorSize} \<subseteq> R2)"
  proof (cases "\<not> la \<and> (f \<noteq> l \<or> fa)")
    case False
    then show ?thesis using 1 by (intro exI [of _ buf1] exI [of _ d1] exI [of _ R1]) auto
  next
    case True
    have c1: "(l - f) * ?S + ?S \<le> int (length buf1)" using lc 1(4) by simp
    have "0 \<le> l" using h(3,4) by simp
    from fill_ok [OF h(1) 1(2) this lf c1 nl] F1 obtain buf2 d2 where
      "bind_result (ReadAt ?S (l * ?S) h d1)
         (\<lambda>(bs, d). bind_result (copy_in ((l - f) * ?S) bs buf1) (\<lambda>buf. Inr (buf, d))) = Inr (buf2, d2)"
      "idle_disk d2" "\<forall>s. sector_data s d2 = sector_data s d1" "length buf2 = length buf1"
      "\<forall>R. agrees a buf1 ?F R \<longrightarrow> agrees a buf2 ?F (R \<union> {nat (l * ?S)..<nat (l * ?S) + SectorSize})" by auto
    with True 1(3-5) show ?thesis
      by (intro exI [of _ buf2] exI [of _ d2] exI [of _ "R1 \<union> {nat (l * ?S)..<nat (l * ?S) + SectorSize}"]) simp
  qed
  then obtain buf2 d2 R2 where 2: "(if \<not> la \<and> (f \<noteq> l \<or> fa)
       then bind_result (ReadAt ?S (l * ?S) h d1)
              (\<lambda>(bs, d). bind_result (copy_in ((l - f) * ?S) bs buf1) (\<lambda>buf. Inr (buf, d)))
       else Inr (buf1, d1)) = Inr (buf2, d2)"
    "idle_disk d2" "\<forall>s. sector_data s d2 = sector_data s d" "length buf2 = c" "agrees a buf2 ?F R2" "R1 \<subseteq> R2"
    "\<not> la \<and> (f \<noteq> l \<or> fa) \<longrightarrow> {nat (l * ?S)..<nat (l * ?S) + SectorSize} \<subseteq> R2" by blast
  have "x \<in> R2" if x: "a \<le> x" "x < a + c" "x \<notin> {nat position..<nat position + nat n}" for x
  proof (cases "x < nat position")
    case True
    then have "\<not> fa" using x(1) p(1) a(1) fa_def by auto
    moreover have "x < a + SectorSize" using True p(2) by linarith
    ultimately show ?thesis using 1(6) 2(6) x(1) by auto
  next
    case False
    then have px: "position + n \<le> int x" using x(3) p(1) by auto
    then have "\<not> la" using x(2) a(1,2) la_def by (auto simp: algebra_simps)
    moreover have lx: "nat (l * ?S) \<le> x" "x < nat (l * ?S) + SectorSize"
      using px p(3) x(2) nl lf lc by linarith+
    ultimately show ?thesis using 1(6) 2(6,7) na by (cases "f \<noteq> l \<or> fa") auto
  qed
  then have "agrees a buf2 ?F (- {nat position..<nat position + nat n})"
    using 2(4,5) by (auto simp: agrees_def)
  with 1(1) 2(1-4) show ?thesis
    unfolding WriteAt_buffer_def Let_def buf0_def [symmetric] fa_def [symmetric] la_def [symmetric] by auto
qed

text \<open>\<open>WriteAt\<close> on every branch.\<close>

lemma WriteAt_ok:
  assumes h: "header_ok h" "idle_disk d" "0 \<le> position" "nBytes \<le> int (length from0)"
  defines "F \<equiv> file_bytes h d"
  defines "bs \<equiv> take (length (read_at (nat position) (nat nBytes) F)) from0"
  shows "\<exists>d'. WriteAt junk from0 nBytes position h d = Inr (int (length bs), d') \<and> idle_disk d' \<and>
     file_bytes h d' = take (nat position) F @ bs @ drop (nat position + length bs) F \<and>
     (\<forall>s. valid_sector s \<longrightarrow> s \<notin> set (data_sectors h) \<longrightarrow> sector_data s d' = sector_data s d)"
proof (cases "nBytes \<le> 0 \<or> position \<ge> numBytes h")
  case True
  have "int (length F) = numBytes h" unfolding F_def by (rule length_file_bytes [OF h(1,2)])
  with True h(3) have "read_at (nat position) (nat nBytes) F = []" by (auto simp: read_at_def)
  then show ?thesis using True h(2) by (auto simp: WriteAt_def FileLength_def bs_def F_def)
next
  case False
  define n where "n = (if position + nBytes > numBytes h then numBytes h - position else nBytes)"
  define f where "f = divRoundDown position (int SectorSize)"
  define l where "l = divRoundDown (position + n - 1) (int SectorSize)"
  have n: "0 < n" "position + n \<le> numBytes h" "n \<le> nBytes" using False by (auto simp: n_def)
  note b = request_bounds [OF h(1,3) n(1,2) f_def l_def]
  define a where "a = nat f * SectorSize"
  define c where "c = nat (l + 1 - f) * SectorSize"
  define p where "p = nat position"
  have i: "int p = position" "int a = f * int SectorSize" "int c = (l + 1 - f) * int SectorSize"
    using b(1,2) h(3) by (simp_all add: p_def a_def c_def)
  have ac: "int a + int c = (l + 1) * int SectorSize" by (simp add: i algebra_simps)
  have lF: "int (length F) = numBytes h" unfolding F_def by (rule length_file_bytes [OF h(1,2)])
  have "length (read_at p (nat nBytes) F) = nat n"
    using lF i(1) False by (auto simp: read_at_def n_def min_def)
  then have bs: "bs = take (nat n) from0" "length bs = nat n" using h(4) n(3) by (simp_all add: bs_def p_def)
  have pos: "int a \<le> position" "position < int a + int SectorSize" "position + n \<le> int a + int c"
    using b(4,5,7) ac i(2) by (simp_all add: algebra_simps)
  from WriteAt_fill [OF h(1,2) b(1,2) i(2,3) pos(1,2) b(6) pos(3)] obtain buf2 d2 where
    fill: "WriteAt_buffer junk position n f l h d = Inr (buf2, d2)"
    "idle_disk d2" "\<forall>s. sector_data s d2 = sector_data s d" "length buf2 = c"
    "agrees a buf2 F (- {p..<p + nat n})" unfolding F_def p_def by blast
  have out: "copy_out 0 n from0 = Inr bs" using n(3) h(4) by (simp add: copy_out_def read_at_def bs(1))
  have "nat (position - f * int SectorSize) = p - a" by (metis i(1,2) nat_minus_as_int)
  then have cin: "copy_in (position - f * int SectorSize) bs buf2 = Inr (write_at (p - a) bs buf2)"
    using pos i fill(4) bs(2) n(1) by (simp add: copy_in_def)
  have pa: "a \<le> p" "p + length bs \<le> a + c" "p + length bs \<le> nat (numBytes h)"
    using pos i(1) bs(2) n(1,2) by linarith+
  have lw: "length (write_at (p - a) bs buf2) = c" using fill(4) pa(1,2) by simp
  from WriteAt_loop_slice [OF h(1) fill(2) b(1-3) a_def c_def lw] obtain d' where
    d': "WriteAt_loop [f..l] h (write_at (p - a) bs buf2) d2 = Inr d'" "idle_disk d'"
    "file_raw h d' = take a (file_raw h d2) @ write_at (p - a) bs buf2 @ drop (a + c) (file_raw h d2)"
    "\<forall>s. valid_sector s \<longrightarrow> s \<notin> set (data_sectors h) \<longrightarrow> sector_data s d' = sector_data s d2" by blast
  have raw: "file_raw h d2 = file_raw h d" using fill(3) by (simp add: file_raw_def)
  have "(l + 1) * int SectorSize \<le> numSectors h * int SectorSize" using b(3) by (intro mult_right_mono) simp_all
  then have acl: "a + c \<le> length (file_raw h d)" using ac length_file_raw(1) [OF h(1,2)] by linarith
  have nb: "nat (numBytes h) \<le> length (file_raw h d)" using length_file_raw(2) [OF h(1,2)] by simp
  have "file_bytes h d' = take p F @ bs @ drop (p + length bs) F"
    unfolding file_bytes_def d'(3) raw
    by (rule overwrite_file [OF _ nb fill(4) acl pa]) (use fill(5) bs(2) in \<open>simp_all add: F_def file_bytes_def\<close>)
  moreover have "WriteAt junk from0 nBytes position h d = Inr (n, d')"
    using False fill(1) out cin d'(1)
    unfolding WriteAt_def Let_def FileLength_def n_def [symmetric] f_def [symmetric] l_def [symmetric]
    by simp
  moreover have "n = int (length bs)" using bs(2) n(1) by simp
  ultimately show ?thesis using d'(2,4) fill(3) by (simp add: p_def)
qed

section \<open>Properties\<close>

text \<open>A file of 200 bytes in sectors 5 and 9 of a new disk, for the witnesses.\<close>

definition sample_header :: FileHeader where
  "sample_header = \<lparr>numBytes = 200, numSectors = 2, dataSectors = 5 # 9 # replicate 28 0\<rparr>"

lemma sample_header_ok: "header_ok sample_header"
  by (simp add: sample_header_def header_ok_def data_sectors_def divRoundUp_def SectorSize_def NumDirect_def
      valid_sector_def disk_consts)

text \<open>
  \<open>ReadAt\<close> returns exactly the requested bytes of the file, wherever the request starts and
  ends relative to the sectors; a request behind the end of the file or of no bytes returns
  nothing, one that reaches over the end is cut off there. Reading changes no sector.
\<close>

theorem ReadAt_correct:
  assumes "header_ok h" "idle_disk d" "0 \<le> position"
  shows "\<exists>d'. ReadAt nBytes position h d = Inr (take (nat nBytes) (drop (nat position) (file_bytes h d)), d') \<and>
     idle_disk d' \<and> (\<forall>s. sector_data s d' = sector_data s d)"
  using ReadAt_ok [OF assms, of nBytes] by (simp add: read_at_def)

theorem ReadAt_correct_witness:
  "\<exists>d d'. Disk_ctor None = Inr d \<and> ReadAt 100 150 sample_header d =
     Inr (take 100 (drop 150 (file_bytes sample_header d)), d')"
proof -
  from Disk_ctor_new obtain d where d: "Disk_ctor None = Inr d" "idle_disk d" by (auto simp: idle_disk_def)
  from ReadAt_correct [OF sample_header_ok d(2), of 150 100] d(1) show ?thesis by auto
qed

text \<open>
  C15: Writing to a file and reading back: \<open>WriteAt\<close> writes as many of the bytes as lie before the
  end of the file and returns their number; reading the same range afterwards returns them, the
  rest of the file's contents is as before, and so is every sector that does not belong to the
  file. None of this depends on what the uninitialised buffer held.
\<close>

theorem WriteAt_ReadAt:
  assumes "header_ok h" "idle_disk d" "0 \<le> position" "0 \<le> nBytes" "nBytes \<le> int (length from0)"
  shows "\<exists>n d' d''. WriteAt junk from0 nBytes position h d = Inr (n, d') \<and>
     n = max 0 (min nBytes (numBytes h - position)) \<and>
     ReadAt n position h d' = Inr (take (nat n) from0, d'') \<and>
     take (nat position) (file_bytes h d') = take (nat position) (file_bytes h d) \<and>
     drop (nat position + nat n) (file_bytes h d') = drop (nat position + nat n) (file_bytes h d) \<and>
     (\<forall>s. valid_sector s \<longrightarrow> s \<notin> set (data_sectors h) \<longrightarrow> sector_data s d' = sector_data s d)"
proof -
  let ?F = "file_bytes h d" and ?p = "nat position"
  define bs where "bs = take (length (read_at ?p (nat nBytes) ?F)) from0"
  from WriteAt_ok [OF assms(1-3,5), of junk, folded bs_def] obtain d' where
    d': "WriteAt junk from0 nBytes position h d = Inr (int (length bs), d')" "idle_disk d'"
    "file_bytes h d' = take ?p ?F @ bs @ drop (?p + length bs) ?F"
    "\<forall>s. valid_sector s \<longrightarrow> s \<notin> set (data_sectors h) \<longrightarrow> sector_data s d' = sector_data s d" by blast
  have lF: "int (length ?F) = numBytes h" by (rule length_file_bytes [OF assms(1,2)])
  have n: "int (length bs) = max 0 (min nBytes (numBytes h - position))"
    using lF assms(3-5) by (auto simp: bs_def read_at_def)
  have bs: "bs = take (length bs) from0" by (auto simp: bs_def min_def)
  have "?p \<le> length ?F \<or> bs = []"
  proof (cases "bs = []")
    case False
    then have "0 < int (length bs)" by simp
    then have "0 < numBytes h - position" using n by linarith
    then show ?thesis using lF assms(3) by linarith
  qed simp
  then have "take (length bs) (drop ?p (file_bytes h d')) = bs" "take ?p (file_bytes h d') = take ?p ?F"
    "drop (?p + length bs) (file_bytes h d') = drop (?p + length bs) ?F"
    unfolding d'(3) by (auto simp: min_def)
  moreover from ReadAt_ok [OF assms(1) d'(2) assms(3), of "int (length bs)"] obtain d'' where
    "ReadAt (int (length bs)) position h d' = Inr (read_at ?p (length bs) (file_bytes h d'), d'')" by auto
  ultimately have "ReadAt (int (length bs)) position h d' = Inr (take (length bs) from0, d'')"
    using bs by (simp add: read_at_def)
  then show ?thesis using d'(1,4) n bs \<open>take ?p (file_bytes h d') = take ?p ?F\<close>
    \<open>drop (?p + length bs) (file_bytes h d') = drop (?p + length bs) ?F\<close>
    by (metis nat_int)
qed

theorem WriteAt_ReadAt_witness:
  "\<exists>d d' d''. Disk_ctor None = Inr d \<and>
     WriteAt (\<lambda>_. 255) (replicate 100 7) 100 120 sample_header d = Inr (80, d') \<and>
     ReadAt 80 120 sample_header d' = Inr (replicate 80 7, d'')"
proof -
  from Disk_ctor_new obtain d where d: "Disk_ctor None = Inr d" "idle_disk d" by (auto simp: idle_disk_def)
  from WriteAt_ReadAt [OF sample_header_ok d(2), of 120 100 "replicate 100 7" "\<lambda>_. 255"] d(1) show ?thesis
    by (auto simp: sample_header_def)
qed

end
