(* ===== verification/Directory.thy ===== *)
theory Directory
  imports Open_File
begin

text \<open>
  The directory of \<open>filesys/directory.cc\<close>: a table of entries with a name of at most nine
  significant characters and the sector of the file's header, kept in an ordinary file as the
  raw bytes of the table. \<open>lookup\<close> is the finite map from names to sectors that the table
  represents; the lemmas give every operation as an operation on that map. The locale
  \<open>name_table\<close> is the contract the file system relies on.
\<close>

section \<open>C strings\<close>

text \<open>
  A \<open>char *\<close> is the list of the bytes that follow in memory. \<open>strncmp0\<close> tells whether
  \<open>strncmp\<close> returns 0; \<open>strncpy\<close> fills up with null bytes but does not terminate a name
  that is too long.
\<close>

fun strncmp0 :: "nat \<Rightarrow> byte list \<Rightarrow> byte list \<Rightarrow> bool result" where
  "strncmp0 0 as bs = Inr True"
| "strncmp0 (Suc n) (a # as) (b # bs) =
     (if a \<noteq> b then Inr False else if a = 0 then Inr True else strncmp0 n as bs)"
| "strncmp0 (Suc n) _ _ = Inl UNDEFINED"

fun strncpy :: "nat \<Rightarrow> byte list \<Rightarrow> byte list \<Rightarrow> byte list result" where
  "strncpy 0 dst src = Inr dst"
| "strncpy (Suc n) (d # dst) (b # src) =
     bind_result (strncpy n dst (if b = 0 then b # src else src)) (\<lambda>r. Inr (b # r))"
| "strncpy (Suc n) _ _ = Inl UNDEFINED"

definition readable :: "nat \<Rightarrow> byte list \<Rightarrow> bool" where
  "readable n s \<longleftrightarrow> 0 \<in> set s \<or> n \<le> length s"

definition key :: "nat \<Rightarrow> byte list \<Rightarrow> byte list" where
  "key n s = take n (takeWhile (\<lambda>b. b \<noteq> 0) s)"

lemma strncmp0_ok: "readable n a \<Longrightarrow> readable n b \<Longrightarrow> strncmp0 n a b = Inr (key n a = key n b)"
proof (induction n a b rule: strncmp0.induct)
  case (2 n a "as" b bs)
  then show ?case by (cases "a = b"; cases "b = 0") (auto simp: readable_def key_def)
qed (auto simp: readable_def key_def)

lemma strncpy_ok:
  "n \<le> length dst \<Longrightarrow> readable n src \<Longrightarrow>
   \<exists>r. strncpy n dst src = Inr r \<and> length r = length dst \<and> key n r = key n src \<and> drop n r = drop n dst"
proof (induction n dst src rule: strncpy.induct)
  case (2 n d dst b src)
  then have "readable n (if b = 0 then b # src else src)" "n \<le> length dst" by (auto simp: readable_def)
  with 2 obtain r where "strncpy n dst (if b = 0 then b # src else src) = Inr r" "length r = length dst"
    "key n r = key n (if b = 0 then b # src else src)" "drop n r = drop n dst" by blast
  then show ?case by (auto simp: key_def)
qed (auto simp: readable_def key_def)

section \<open>Operations\<close>

definition FileNameMaxLen :: nat where "FileNameMaxLen = 9"

text \<open>The paddings are the bytes the compiler leaves between the members of the structure.\<close>

record DirectoryEntry =
  inUse :: bool
  padding1 :: "byte list"
  sector :: int
  name :: "byte list"
  padding2 :: "byte list"

record Directory =
  tableSize :: int
  table :: "DirectoryEntry list"

definition sizeof_DirectoryEntry :: nat where "sizeof_DirectoryEntry = 20"

text \<open>The constructor; \<open>junk\<close> is the memory that \<open>new DirectoryEntry[size]\<close> returns.\<close>

definition Directory_ctor :: "(nat \<Rightarrow> DirectoryEntry) \<Rightarrow> int \<Rightarrow> Directory" where
  "Directory_ctor junk n =
     \<lparr>tableSize = n, table = map (\<lambda>i. (junk i)\<lparr>inUse := False\<rparr>) [0..<nat n]\<rparr>"

fun FindIndex_loop :: "int list \<Rightarrow> byte list \<Rightarrow> Directory \<Rightarrow> int result" where
  "FindIndex_loop [] nm dir = Inr (-1)"
| "FindIndex_loop (i # is) nm dir =
     bind_result (array_get (table dir) i) (\<lambda>e.
     bind_result (if inUse e then strncmp0 FileNameMaxLen (name e) nm else Inr False) (\<lambda>same.
       if same then Inr i else FindIndex_loop is nm dir))"

definition FindIndex :: "byte list \<Rightarrow> Directory \<Rightarrow> int result" where
  "FindIndex nm dir = FindIndex_loop [0..tableSize dir - 1] nm dir"

definition Directory_Find :: "byte list \<Rightarrow> Directory \<Rightarrow> int result" where
  "Directory_Find nm dir =
     bind_result (FindIndex nm dir) (\<lambda>i.
       if i \<noteq> - 1 then bind_result (array_get (table dir) i) (\<lambda>e. Inr (sector e)) else Inr (- 1))"

fun Add_loop :: "int list \<Rightarrow> byte list \<Rightarrow> int \<Rightarrow> Directory \<Rightarrow> (bool \<times> Directory) result" where
  "Add_loop [] nm newSector dir = Inr (False, dir)"
| "Add_loop (i # is) nm newSector dir =
     bind_result (array_get (table dir) i) (\<lambda>e.
       if \<not> inUse e then
         bind_result (strncpy FileNameMaxLen (name e) nm) (\<lambda>nm'.
         bind_result (array_set (table dir) i (e\<lparr>inUse := True, name := nm', sector := newSector\<rparr>)) (\<lambda>t.
           Inr (True, dir\<lparr>table := t\<rparr>)))
       else Add_loop is nm newSector dir)"

definition Directory_Add :: "byte list \<Rightarrow> int \<Rightarrow> Directory \<Rightarrow> (bool \<times> Directory) result" where
  "Directory_Add nm newSector dir =
     bind_result (FindIndex nm dir) (\<lambda>i.
       if i \<noteq> - 1 then Inr (False, dir) else Add_loop [0..tableSize dir - 1] nm newSector dir)"

definition Directory_Remove :: "byte list \<Rightarrow> Directory \<Rightarrow> (bool \<times> Directory) result" where
  "Directory_Remove nm dir =
     bind_result (FindIndex nm dir) (\<lambda>i.
       if i = - 1 then Inr (False, dir)
       else bind_result (array_get (table dir) i) (\<lambda>e.
            bind_result (array_set (table dir) i (e\<lparr>inUse := False\<rparr>)) (\<lambda>t.
              Inr (True, dir\<lparr>table := t\<rparr>))))"

text \<open>The raw bytes of the table, and the transfers from and to the directory's file.\<close>

definition entry_bytes :: "DirectoryEntry \<Rightarrow> byte list" where
  "entry_bytes e = (if inUse e then 1 else 0) # padding1 e @ int_bytes (sector e) @ name e @ padding2 e"

definition bytes_entry :: "byte list \<Rightarrow> DirectoryEntry" where
  "bytes_entry bs = \<lparr>inUse = (bs ! 0 \<noteq> 0), padding1 = read_at 1 3 bs, sector = bytes_int (drop 4 bs),
     name = read_at 8 10 bs, padding2 = read_at 18 2 bs\<rparr>"

definition table_bytes :: "DirectoryEntry list \<Rightarrow> byte list" where
  "table_bytes t = concat (map entry_bytes t)"

definition bytes_table :: "nat \<Rightarrow> byte list \<Rightarrow> DirectoryEntry list" where
  "bytes_table n bs = map (\<lambda>i. bytes_entry (read_at (20 * i) 20 bs)) [0..<n]"

definition Directory_FetchFrom :: "OpenFile \<Rightarrow> Directory \<Rightarrow> Disk \<Rightarrow> (Directory \<times> Disk) result" where
  "Directory_FetchFrom f dir d =
     bind_result (ReadAt (tableSize dir * int sizeof_DirectoryEntry) 0 (hdr f) d) (\<lambda>(bs, d).
       Inr (dir\<lparr>table := bytes_table (length (table dir)) (write_at 0 bs (table_bytes (table dir)))\<rparr>, d))"

definition Directory_WriteBack ::
  "(nat \<Rightarrow> byte) \<Rightarrow> OpenFile \<Rightarrow> Directory \<Rightarrow> Disk \<Rightarrow> Disk result" where
  "Directory_WriteBack junk f dir d =
     bind_result (WriteAt junk (table_bytes (table dir)) (tableSize dir * int sizeof_DirectoryEntry) 0 (hdr f) d)
       (\<lambda>(n, d). Inr d)"

section \<open>The map from names to sectors\<close>

definition entry_ok :: "DirectoryEntry \<Rightarrow> bool" where
  "entry_ok e \<longleftrightarrow> length (padding1 e) = 3 \<and> length (name e) = 10 \<and> length (padding2 e) = 2 \<and> int32 (sector e)"

definition used :: "Directory \<Rightarrow> (byte list \<times> int) list" where
  "used dir = map (\<lambda>e. (key FileNameMaxLen (name e), sector e)) (filter inUse (table dir))"

definition lookup :: "Directory \<Rightarrow> byte list \<rightharpoonup> int" where
  "lookup dir = map_of (used dir)"

definition directory_ok :: "Directory \<Rightarrow> bool" where
  "directory_ok dir \<longleftrightarrow> int (length (table dir)) = tableSize dir \<and> (\<forall>e \<in> set (table dir). entry_ok e) \<and>
     distinct (map fst (used dir))"

abbreviation fkey :: "byte list \<Rightarrow> byte list" where
  "fkey nm \<equiv> key FileNameMaxLen nm"

abbreviation is_name :: "byte list \<Rightarrow> bool" where
  "is_name nm \<equiv> readable FileNameMaxLen nm"

lemma upto_map_int: "[0..int n - 1] = map int [0..<n]"
  by (rule nth_equalityI) auto

lemma entry_name: "entry_ok e \<Longrightarrow> is_name (name e)"
  by (simp add: entry_ok_def readable_def FileNameMaxLen_def)

lemma lookup_iff:
  assumes "directory_ok dir"
  shows "lookup dir k = Some s \<longleftrightarrow> (\<exists>i < length (table dir). inUse (table dir ! i) \<and>
     fkey (name (table dir ! i)) = k \<and> sector (table dir ! i) = s)"
proof -
  have "lookup dir k = Some s \<longleftrightarrow> (k, s) \<in> set (used dir)"
    using assms by (simp add: lookup_def directory_ok_def)
  also have "\<dots> \<longleftrightarrow> (\<exists>e \<in> set (table dir). inUse e \<and> fkey (name e) = k \<and> sector e = s)"
    by (auto simp: used_def)
  finally show ?thesis by (metis in_set_conv_nth)
qed

text \<open>The index found belongs to the only entry in use with that name.\<close>

lemma FindIndex_loop_ok:
  assumes "\<forall>e \<in> set (table dir). entry_ok e" "is_name nm" "\<forall>i \<in> set is. i < length (table dir)"
  shows "FindIndex_loop (map int is) nm dir =
     Inr (case find (\<lambda>i. inUse (table dir ! i) \<and> fkey (name (table dir ! i)) = fkey nm) is of None \<Rightarrow> - 1 | Some i \<Rightarrow> int i)"
  using assms(3)
proof (induction "is")
  case (Cons i "is")
  then have "is_name (name (table dir ! i))" using assms(1) by (simp add: entry_name)
  with Cons assms(2) show ?case by (simp add: strncmp0_ok)
qed simp

lemma FindIndex_ok:
  assumes "directory_ok dir" "is_name nm"
  shows "lookup dir (fkey nm) = None \<Longrightarrow> FindIndex nm dir = Inr (- 1)"
    and "lookup dir (fkey nm) = Some s \<Longrightarrow> \<exists>i < length (table dir). FindIndex nm dir = Inr (int i) \<and>
      inUse (table dir ! i) \<and> fkey (name (table dir ! i)) = fkey nm \<and> sector (table dir ! i) = s"
proof -
  let ?P = "\<lambda>i. inUse (table dir ! i) \<and> fkey (name (table dir ! i)) = fkey nm"
  let ?is = "[0..<length (table dir)]"
  have F: "FindIndex nm dir = Inr (case find ?P ?is of None \<Rightarrow> - 1 | Some i \<Rightarrow> int i)"
    using FindIndex_loop_ok [of dir nm ?is] assms
    by (simp add: directory_ok_def FindIndex_def flip: upto_map_int)
  show "FindIndex nm dir = Inr (- 1)" if "lookup dir (fkey nm) = None"
  proof -
    have "\<not> ?P i" if "i < length (table dir)" for i
      using lookup_iff [OF assms(1), of "fkey nm" "sector (table dir ! i)"] that \<open>lookup dir (fkey nm) = None\<close> by auto
    then have "find ?P ?is = None" by (auto simp: find_None_iff)
    then show ?thesis using F by simp
  qed
  assume s: "lookup dir (fkey nm) = Some s"
  then have "find ?P ?is \<noteq> None" unfolding find_None_iff lookup_iff [OF assms(1)] by auto
  then obtain i where i: "find ?P ?is = Some i" by blast
  then have "i < length (table dir)" "?P i" by (auto simp: find_Some_iff)
  then have "lookup dir (fkey nm) = Some (sector (table dir ! i))" using lookup_iff [OF assms(1)] by blast
  with s F i \<open>i < _\<close> \<open>?P i\<close> show "\<exists>i < length (table dir). FindIndex nm dir = Inr (int i) \<and>
      inUse (table dir ! i) \<and> fkey (name (table dir ! i)) = fkey nm \<and> sector (table dir ! i) = s" by auto
qed

lemma Find_lookup:
  assumes "directory_ok dir" "is_name nm"
  shows "Directory_Find nm dir = Inr (case lookup dir (fkey nm) of None \<Rightarrow> - 1 | Some s \<Rightarrow> s)"
proof (cases "lookup dir (fkey nm)")
  case None
  then show ?thesis using FindIndex_ok(1) [OF assms] by (simp add: Directory_Find_def)
next
  case (Some s)
  from FindIndex_ok(2) [OF assms Some] Some show ?thesis by (auto simp: Directory_Find_def)
qed

text \<open>Replacing one entry of the table.\<close>

definition used_of :: "DirectoryEntry list \<Rightarrow> (byte list \<times> int) list" where
  "used_of t = map (\<lambda>e. (fkey (name e), sector e)) (filter inUse t)"

lemma used_update:
  assumes "i < length (table dir)"
  defines "A \<equiv> used_of (take i (table dir))" and "B \<equiv> used_of (drop (Suc i) (table dir))"
  shows "used dir = A @ used_of [table dir ! i] @ B"
    and "used (dir\<lparr>table := (table dir)[i := e]\<rparr>) = A @ used_of [e] @ B"
proof -
  have "table dir = take i (table dir) @ table dir ! i # drop (Suc i) (table dir)" by (rule id_take_nth_drop [OF assms(1)])
  then have "used dir = used_of (take i (table dir) @ table dir ! i # drop (Suc i) (table dir))"
    unfolding used_def used_of_def by (rule arg_cong)
  then show "used dir = A @ used_of [table dir ! i] @ B"
    by (simp add: used_of_def A_def B_def)
  show "used (dir\<lparr>table := (table dir)[i := e]\<rparr>) = A @ used_of [e] @ B"
    by (simp add: used_def used_of_def A_def B_def upd_conv_take_nth_drop [OF assms(1)])
qed

lemma directory_update:
  assumes "directory_ok dir" "i < length (table dir)" "entry_ok e"
    and "distinct (map fst (used (dir\<lparr>table := (table dir)[i := e]\<rparr>)))"
  shows "directory_ok (dir\<lparr>table := (table dir)[i := e]\<rparr>)"
  using assms by (auto simp: directory_ok_def dest: set_update_subset_insert [THEN subsetD])

lemma card_lookup: "directory_ok dir \<Longrightarrow> card (dom (lookup dir)) = length (used dir)"
  by (simp add: directory_ok_def lookup_def dom_map_of_conv_image_fst distinct_card flip: set_map)

lemma map_of_split:
  assumes "distinct (map fst (A @ (k, s) # B))"
  shows "map_of (A @ (k, s) # B) = (map_of (A @ B))(k \<mapsto> s)" "map_of (A @ B) = (map_of (A @ (k, s) # B))(k := None)"
proof -
  have n: "map_of A k = None" "map_of B k = None" using assms by (auto simp: map_of_eq_None_iff)
  show "map_of (A @ (k, s) # B) = (map_of (A @ B))(k \<mapsto> s)" using n by (auto simp: map_add_def fun_eq_iff split: option.splits)
  show "map_of (A @ B) = (map_of (A @ (k, s) # B))(k := None)" using n by (auto simp: map_add_def fun_eq_iff split: option.splits)
qed

lemma Add_loop_full: "\<forall>i \<in> set is. i < length (table dir) \<and> inUse (table dir ! i) \<Longrightarrow>
   Add_loop (map int is) nm s dir = Inr (False, dir)"
  by (induction "is") simp_all

lemma Add_loop_free:
  assumes "\<forall>j < i. inUse (table dir ! j)" "i < length (table dir)" "\<not> inUse (table dir ! i)"
    and "strncpy FileNameMaxLen (name (table dir ! i)) nm = Inr nm'"
  shows "Add_loop (map int [0..<length (table dir)]) nm s dir =
     Inr (True, dir\<lparr>table := (table dir)[i := (table dir ! i)\<lparr>inUse := True, name := nm', sector := s\<rparr>]\<rparr>)"
proof -
  have "Add_loop (map int (is @ i # js)) nm s dir = Add_loop (map int (i # js)) nm s dir"
    if "\<forall>j \<in> set is. j < length (table dir) \<and> inUse (table dir ! j)" for "is" js
    using that by (induction "is") simp_all
  from this [of "[0..<i]" "[Suc i..<length (table dir)]"] assms(1,2)
  have "Add_loop (map int [0..<length (table dir)]) nm s dir =
      Add_loop (map int (i # [Suc i..<length (table dir)])) nm s dir"
    using upt_add_eq_append [of 0 i "length (table dir) - i"] upt_conv_Cons [of i "length (table dir)"] by simp
  with assms(2-4) show ?thesis by simp
qed

lemma first_free:
  assumes "length (filter inUse t) < length t"
  shows "\<exists>i < length t. \<not> inUse (t ! i) \<and> (\<forall>j < i. inUse (t ! j))"
proof -
  have "\<exists>i. i < length t \<and> \<not> inUse (t ! i)"
    using assms length_filter_less [of _ t inUse] by (metis filter_True in_set_conv_nth less_irrefl)
  then obtain i where "i < length t \<and> \<not> inUse (t ! i)" "\<forall>m < i. \<not> (m < length t \<and> \<not> inUse (t ! m))"
    unfolding exists_least_iff [of "\<lambda>i. i < length t \<and> \<not> inUse (t ! i)"] by blast
  then show ?thesis by (intro exI [of _ i]) auto
qed

lemma Add_lookup:
  assumes "directory_ok dir" "is_name nm" "int32 s"
  defines "room \<equiv> lookup dir (fkey nm) = None \<and> int (card (dom (lookup dir))) < tableSize dir"
  shows "\<exists>dir'. Directory_Add nm s dir = Inr (room, dir') \<and> directory_ok dir' \<and> tableSize dir' = tableSize dir \<and>
     (if room then lookup dir' = (lookup dir)(fkey nm \<mapsto> s) else dir' = dir)"
proof (cases "lookup dir (fkey nm)")
  case (Some s')
  from FindIndex_ok(2) [OF assms(1,2) Some] Some assms(1) show ?thesis by (auto simp: Directory_Add_def room_def)
next
  case None
  note F = FindIndex_ok(1) [OF assms(1,2) None]
  have n: "int (length (table dir)) = tableSize dir" using assms(1) by (simp add: directory_ok_def)
  have A: "Directory_Add nm s dir = Add_loop (map int [0..<length (table dir)]) nm s dir"
    using F by (simp add: Directory_Add_def flip: upto_map_int n)
  have len: "card (dom (lookup dir)) = length (filter inUse (table dir))"
    using card_lookup [OF assms(1)] by (simp add: used_def)
  show ?thesis
  proof (cases "card (dom (lookup dir)) < length (table dir)")
    case False
    then have "filter inUse (table dir) = table dir" using len length_filter_le [of inUse "table dir"]
      by (metis filter_True le_neq_implies_less length_filter_less)
    then have "\<forall>e \<in> set (table dir). inUse e" by (simp add: filter_id_conv)
    with A False n assms(1) show ?thesis by (auto simp: Add_loop_full room_def)
  next
    case True
    then obtain i where i: "i < length (table dir)" "\<not> inUse (table dir ! i)" "\<forall>j < i. inUse (table dir ! j)"
      using first_free len by metis
    have e: "entry_ok (table dir ! i)" using assms(1) i(1) by (simp add: directory_ok_def)
    then have "FileNameMaxLen \<le> length (name (table dir ! i))" by (simp add: entry_ok_def FileNameMaxLen_def)
    from strncpy_ok [OF this assms(2)] obtain nm' where nm':
      "strncpy FileNameMaxLen (name (table dir ! i)) nm = Inr nm'" "length nm' = length (name (table dir ! i))"
      "fkey nm' = fkey nm" by blast
    let ?e = "(table dir ! i)\<lparr>inUse := True, name := nm', sector := s\<rparr>"
    let ?dir = "dir\<lparr>table := (table dir)[i := ?e]\<rparr>"
    define U where "U = used_of (take i (table dir))"
    define V where "V = used_of (drop (Suc i) (table dir))"
    have U: "used dir = U @ V" "used ?dir = U @ (fkey nm, s) # V"
      using used_update [OF i(1)] i(2) nm'(3) by (simp_all add: U_def V_def used_of_def)
    have "fkey nm \<notin> fst ` set (U @ V)" using None by (auto simp: lookup_def U map_of_eq_None_iff)
    then have D: "distinct (map fst (U @ (fkey nm, s) # V))" using assms(1) by (auto simp: directory_ok_def U)
    have "directory_ok ?dir"
      using directory_update [OF assms(1) i(1), of ?e] e nm'(2) assms(3) D U(2) by (simp add: entry_ok_def)
    moreover have "lookup ?dir = (lookup dir)(fkey nm \<mapsto> s)" unfolding lookup_def U by (rule map_of_split(1) [OF D])
    ultimately show ?thesis using A Add_loop_free [OF i(3,1,2) nm'(1), of s] True None n by (simp add: room_def)
  qed
qed

lemma Remove_lookup:
  assumes "directory_ok dir" "is_name nm"
  shows "\<exists>dir'. Directory_Remove nm dir = Inr (lookup dir (fkey nm) \<noteq> None, dir') \<and> directory_ok dir' \<and>
     tableSize dir' = tableSize dir \<and> lookup dir' = (lookup dir)(fkey nm := None)"
proof (cases "lookup dir (fkey nm)")
  case None
  then have "(lookup dir)(fkey nm := None) = lookup dir" by auto
  with FindIndex_ok(1) [OF assms None] None assms(1) show ?thesis by (simp add: Directory_Remove_def)
next
  case (Some s)
  from FindIndex_ok(2) [OF assms Some] obtain i where i: "i < length (table dir)" "FindIndex nm dir = Inr (int i)"
    "inUse (table dir ! i)" "fkey (name (table dir ! i)) = fkey nm" "sector (table dir ! i) = s" by blast
  let ?e = "(table dir ! i)\<lparr>inUse := False\<rparr>"
  let ?dir = "dir\<lparr>table := (table dir)[i := ?e]\<rparr>"
  define U where "U = used_of (take i (table dir))"
  define V where "V = used_of (drop (Suc i) (table dir))"
  have U: "used dir = U @ (fkey nm, s) # V" "used ?dir = U @ V"
    using used_update [OF i(1)] i(3-5) by (simp_all add: U_def V_def used_of_def)
  have D: "distinct (map fst (U @ (fkey nm, s) # V))" using assms(1) by (simp add: directory_ok_def U)
  have "entry_ok ?e" using assms(1) i(1) by (simp add: directory_ok_def entry_ok_def)
  then have "directory_ok ?dir" using directory_update [OF assms(1) i(1), of ?e] D U(2) by simp
  moreover have "lookup ?dir = (lookup dir)(fkey nm := None)" unfolding lookup_def U by (rule map_of_split(2) [OF D])
  moreover have "Directory_Remove nm dir = Inr (True, ?dir)" using i(1,2) by (simp add: Directory_Remove_def)
  ultimately show ?thesis using Some by simp
qed

section \<open>The table as bytes\<close>

lemma length_entry_bytes: "entry_ok e \<Longrightarrow> length (entry_bytes e) = sizeof_DirectoryEntry"
  by (simp add: entry_bytes_def entry_ok_def sizeof_DirectoryEntry_def)

lemma bytes_entry_bytes: "entry_ok e \<Longrightarrow> bytes_entry (entry_bytes e) = e"
  by (cases e) (simp add: bytes_entry_def entry_bytes_def entry_ok_def read_at_def)

lemma read_at_concat:
  "\<forall>x \<in> set xs. length (f x) = c \<Longrightarrow> i < length xs \<Longrightarrow> read_at (c * i) c (concat (map f xs)) = f (xs ! i)"
proof (induction xs arbitrary: i)
  case (Cons x xs)
  then show ?case by (cases i) (auto simp: read_at_def)
qed simp

lemma length_table_bytes:
  "\<forall>e \<in> set t. entry_ok e \<Longrightarrow> length (table_bytes t) = sizeof_DirectoryEntry * length t"
  using length_concat_const [of t entry_bytes sizeof_DirectoryEntry] length_entry_bytes
  by (simp add: table_bytes_def mult.commute)

lemma bytes_table_bytes:
  assumes "\<forall>e \<in> set t. entry_ok e"
  shows "bytes_table (length t) (table_bytes t @ rest) = t"
proof (rule nth_equalityI)
  fix i assume "i < length (bytes_table (length t) (table_bytes t @ rest))"
  then have i: "i < length t" by (simp add: bytes_table_def)
  have "read_at (20 * i) 20 (table_bytes t @ rest) = read_at (20 * i) 20 (table_bytes t)"
    using i length_table_bytes [OF assms] by (simp add: read_at_def sizeof_DirectoryEntry_def)
  also have "\<dots> = entry_bytes (t ! i)"
    unfolding table_bytes_def by (rule read_at_concat [OF _ i]) (use assms length_entry_bytes in \<open>simp add: sizeof_DirectoryEntry_def\<close>)
  finally show "bytes_table (length t) (table_bytes t @ rest) ! i = t ! i"
    using i assms by (simp add: bytes_table_def bytes_entry_bytes)
qed (simp add: bytes_table_def)

lemma entry_ok_bytes: "length bs = 20 \<Longrightarrow> entry_ok (bytes_entry bs)"
  by (simp add: entry_ok_def bytes_entry_def)

section \<open>The contract of the directory\<close>

locale name_table =
  fixes fnd :: "byte list \<Rightarrow> 't \<Rightarrow> int result"
    and add :: "byte list \<Rightarrow> int \<Rightarrow> 't \<Rightarrow> (bool \<times> 't) result"
    and rem :: "byte list \<Rightarrow> 't \<Rightarrow> (bool \<times> 't) result"
    and look :: "'t \<Rightarrow> byte list \<rightharpoonup> int"
    and cap :: "'t \<Rightarrow> int"
    and ok :: "'t \<Rightarrow> bool"
    and nk :: "byte list \<Rightarrow> byte list"
    and nok :: "byte list \<Rightarrow> bool"
  assumes fnd_law: "ok t \<Longrightarrow> nok nm \<Longrightarrow> fnd nm t = Inr (case look t (nk nm) of None \<Rightarrow> - 1 | Some s \<Rightarrow> s)"
    and add_law: "ok t \<Longrightarrow> nok nm \<Longrightarrow> int32 s \<Longrightarrow>
      \<exists>t'. add nm s t = Inr (look t (nk nm) = None \<and> int (card (dom (look t))) < cap t, t') \<and> ok t' \<and> cap t' = cap t \<and>
        look t' = (if look t (nk nm) = None \<and> int (card (dom (look t))) < cap t then (look t)(nk nm \<mapsto> s) else look t)"
    and rem_law: "ok t \<Longrightarrow> nok nm \<Longrightarrow>
      \<exists>t'. rem nm t = Inr (look t (nk nm) \<noteq> None, t') \<and> ok t' \<and> cap t' = cap t \<and> look t' = (look t)(nk nm := None)"
begin

text \<open>What a client sees of an entry it has added.\<close>

lemma add_find:
  assumes "ok t" "nok nm" "nok nm'" "int32 s" "add nm s t = Inr (True, t')"
  shows "fnd nm' t' = (if nk nm' = nk nm then Inr s else fnd nm' t)"
  using add_law [OF assms(1,2,4)] fnd_law [of _ nm'] assms by (auto split: if_splits)

lemma rem_find:
  assumes "ok t" "nok nm" "nok nm'" "rem nm t = Inr (b, t')"
  shows "fnd nm' t' = (if nk nm' = nk nm then Inr (- 1) else fnd nm' t)"
  using rem_law [OF assms(1,2)] fnd_law [of _ nm'] assms by auto

end

interpretation dir: name_table Directory_Find Directory_Add Directory_Remove lookup tableSize directory_ok fkey is_name
proof
  show "Directory_Find nm t = Inr (case lookup t (fkey nm) of None \<Rightarrow> - 1 | Some s \<Rightarrow> s)"
    if "directory_ok t" "is_name nm" for t nm by (rule Find_lookup [OF that])
  show "\<exists>t'. Directory_Add nm s t = Inr (lookup t (fkey nm) = None \<and> int (card (dom (lookup t))) < tableSize t, t') \<and>
      directory_ok t' \<and> tableSize t' = tableSize t \<and>
      lookup t' = (if lookup t (fkey nm) = None \<and> int (card (dom (lookup t))) < tableSize t
                   then (lookup t)(fkey nm \<mapsto> s) else lookup t)"
    if "directory_ok t" "is_name nm" "int32 s" for t nm s using Add_lookup [OF that] by (auto split: if_splits)
  show "\<exists>t'. Directory_Remove nm t = Inr (lookup t (fkey nm) \<noteq> None, t') \<and> directory_ok t' \<and>
      tableSize t' = tableSize t \<and> lookup t' = (lookup t)(fkey nm := None)"
    if "directory_ok t" "is_name nm" for t nm by (rule Remove_lookup [OF that])
qed

lemma Directory_ctor_ok:
  assumes "\<forall>i. entry_ok (junk i)" "0 \<le> n"
  shows "directory_ok (Directory_ctor junk n)" "lookup (Directory_ctor junk n) = Map.empty"
    "tableSize (Directory_ctor junk n) = n"
proof -
  have "used (Directory_ctor junk n) = []" by (simp add: used_def Directory_ctor_def filter_empty_conv)
  then show "directory_ok (Directory_ctor junk n)" "lookup (Directory_ctor junk n) = Map.empty"
    using assms by (auto simp: directory_ok_def lookup_def Directory_ctor_def entry_ok_def)
qed (simp add: Directory_ctor_def)

section \<open>Sequences of operations\<close>

text \<open>The operations as a client issues them, with their results as a number.\<close>

datatype dir_op = FIND "byte list" | ADD "byte list" int | REMOVE "byte list"

definition of_bool_result :: "(bool \<times> Directory) result \<Rightarrow> (int \<times> Directory) result" where
  "of_bool_result r = bind_result r (\<lambda>(b, dir). Inr (if b then 1 else 0, dir))"

fun dir_exec :: "dir_op \<Rightarrow> Directory \<Rightarrow> (int \<times> Directory) result" where
  "dir_exec (FIND nm) dir = bind_result (Directory_Find nm dir) (\<lambda>s. Inr (s, dir))"
| "dir_exec (ADD nm s) dir = of_bool_result (Directory_Add nm s dir)"
| "dir_exec (REMOVE nm) dir = of_bool_result (Directory_Remove nm dir)"

fun dir_run :: "dir_op list \<Rightarrow> Directory \<Rightarrow> (int list \<times> Directory) result" where
  "dir_run [] dir = Inr ([], dir)"
| "dir_run (c # cs) dir =
     bind_result (dir_exec c dir) (\<lambda>(r, dir). bind_result (dir_run cs dir) (\<lambda>(rs, dir). Inr (r # rs, dir)))"

text \<open>The specification: a finite map of bounded size.\<close>

fun map_exec :: "int \<Rightarrow> dir_op \<Rightarrow> (byte list \<rightharpoonup> int) \<Rightarrow> int \<times> (byte list \<rightharpoonup> int)" where
  "map_exec cap (FIND nm) m = ((case m (fkey nm) of None \<Rightarrow> - 1 | Some s \<Rightarrow> s), m)"
| "map_exec cap (ADD nm s) m =
     (if m (fkey nm) = None \<and> int (card (dom m)) < cap then (1, m(fkey nm \<mapsto> s)) else (0, m))"
| "map_exec cap (REMOVE nm) m = (if m (fkey nm) \<noteq> None then 1 else 0, m(fkey nm := None))"

fun map_run :: "int \<Rightarrow> dir_op list \<Rightarrow> (byte list \<rightharpoonup> int) \<Rightarrow> int list \<times> (byte list \<rightharpoonup> int)" where
  "map_run cap [] m = ([], m)"
| "map_run cap (c # cs) m = (let (r, m) = map_exec cap c m; (rs, m) = map_run cap cs m in (r # rs, m))"

fun op_ok :: "dir_op \<Rightarrow> bool" where
  "op_ok (FIND nm) = is_name nm"
| "op_ok (ADD nm s) = (is_name nm \<and> int32 s)"
| "op_ok (REMOVE nm) = is_name nm"

lemma dir_exec_refines:
  assumes "directory_ok dir" "op_ok c"
  shows "\<exists>r dir'. dir_exec c dir = Inr (r, dir') \<and> directory_ok dir' \<and> tableSize dir' = tableSize dir \<and>
     map_exec (tableSize dir) c (lookup dir) = (r, lookup dir')"
proof (cases c)
  case (FIND nm)
  then show ?thesis using assms by (simp add: Find_lookup)
next
  case (ADD nm s)
  with dir.add_law [OF assms(1), of nm s] assms(2) show ?thesis by (fastforce simp: of_bool_result_def)
next
  case (REMOVE nm)
  with dir.rem_law [OF assms(1), of nm] assms(2) show ?thesis by (fastforce simp: of_bool_result_def)
qed

text \<open>
  C16: The directory implements a finite map of bounded size: any sequence of \<open>Find\<close>, \<open>Add\<close> and
  \<open>Remove\<close> on a well-formed directory goes through without undefined behaviour, gives exactly
  the results that the map gives, with the first nine characters of a name as the key, and ends
  in a well-formed directory that represents the resulting map. In particular \<open>Add\<close> fails
  exactly for a name that is present and in a full directory.
\<close>

theorem directory_refines_map:
  assumes "directory_ok dir" "\<forall>c \<in> set cs. op_ok c"
  shows "\<exists>rs dir'. dir_run cs dir = Inr (rs, dir') \<and> directory_ok dir' \<and> tableSize dir' = tableSize dir \<and>
     map_run (tableSize dir) cs (lookup dir) = (rs, lookup dir')"
  using assms
proof (induction cs arbitrary: dir)
  case (Cons c cs)
  then obtain r dir1 where d1: "dir_exec c dir = Inr (r, dir1)" "directory_ok dir1" "tableSize dir1 = tableSize dir"
    "map_exec (tableSize dir) c (lookup dir) = (r, lookup dir1)" using dir_exec_refines [of dir c] by auto
  with Cons.IH [OF d1(2)] Cons.prems obtain rs dir2 where "dir_run cs dir1 = Inr (rs, dir2)" "directory_ok dir2"
    "tableSize dir2 = tableSize dir" "map_run (tableSize dir) cs (lookup dir1) = (rs, lookup dir2)" by auto
  with d1 show ?case by simp
qed simp

definition sample_entry :: DirectoryEntry where
  "sample_entry = \<lparr>inUse = True, padding1 = [0, 0, 0], sector = 0, name = replicate 10 65, padding2 = [0, 0]\<rparr>"

theorem directory_refines_map_witness:
  "\<exists>dir'. dir_run [ADD [65, 66, 0] 7, FIND [65, 66, 0], ADD [65, 66, 0] 8, REMOVE [65, 66, 0], FIND [65, 66, 0]]
     (Directory_ctor (\<lambda>_. sample_entry) 10) = Inr ([1, 7, 0, 1, - 1], dir')"
proof -
  have j: "\<forall>i :: nat. entry_ok sample_entry" by (simp add: entry_ok_def sample_entry_def int32_def)
  have n: "is_name [65, 66, 0]" by (simp add: readable_def)
  note c = Directory_ctor_ok [OF j, of 10, simplified]
  from directory_refines_map [OF c(1),
      of "[ADD [65, 66, 0] 7, FIND [65, 66, 0], ADD [65, 66, 0] 8, REMOVE [65, 66, 0], FIND [65, 66, 0]]"] c(2,3)
  show ?thesis using n by (auto simp: int32_def simp del: dir_run.simps dir_exec.simps)
qed

text \<open>
  Names are compared and stored by their first nine characters only: two names that agree
  there are the same file for the directory, whatever follows, so that the second of two such
  names cannot be added and finds the first one's header.
\<close>

theorem directory_long_names:
  assumes "directory_ok dir" "is_name nm" "is_name nm'" "int32 s" "fkey nm' = fkey nm"
    and "Directory_Add nm s dir = Inr (True, dir')"
  shows "Directory_Find nm' dir' = Inr s \<and> (\<forall>s'. int32 s' \<longrightarrow> Directory_Add nm' s' dir' = Inr (False, dir'))"
proof -
  from Add_lookup [OF assms(1,2,4)] assms(6) have d': "directory_ok dir'" "lookup dir' (fkey nm) = Some s"
    by (auto split: if_splits)
  have "Directory_Add nm' s' dir' = Inr (False, dir')" if "int32 s'" for s'
    using Add_lookup [OF d'(1) assms(3) that] d'(2) assms(5) by auto
  moreover have "Directory_Find nm' dir' = Inr s"
    using dir.add_find [OF assms(1,2,3,4,6)] assms(5) by simp
  ultimately show ?thesis by blast
qed

theorem directory_long_names_witness:
  "\<exists>dir'. Directory_Add (replicate 9 65 @ [66, 0]) 7 (Directory_ctor (\<lambda>_. sample_entry) 10) = Inr (True, dir') \<and>
     Directory_Find (replicate 9 65 @ [67, 0]) dir' = Inr 7 \<and>
     Directory_Add (replicate 9 65 @ [67, 0]) 8 dir' = Inr (False, dir')"
proof -
  have j: "\<forall>i :: nat. entry_ok sample_entry" by (simp add: entry_ok_def sample_entry_def int32_def)
  note c = Directory_ctor_ok [OF j, of 10, simplified]
  have n: "is_name (replicate 9 65 @ [66, 0])" "is_name (replicate 9 65 @ [67, 0])"
    "fkey (replicate 9 65 @ [67, 0]) = fkey (replicate 9 65 @ [66, 0])"
    by (simp_all add: readable_def key_def FileNameMaxLen_def numeral_eq_Suc)
  have i: "int32 7" "int32 8" by (simp_all add: int32_def)
  from Add_lookup [OF c(1) n(1) i(1)] c(2,3) obtain dir' where
    a: "Directory_Add (replicate 9 65 @ [66, 0]) 7 (Directory_ctor (\<lambda>_. sample_entry) 10) = Inr (True, dir')" by auto
  from directory_long_names [OF c(1) n(1,2) i(1) n(3) a] a i(2) show ?thesis by blast
qed

end
