(* ===== verification/File_System.thy ===== *)
theory File_System
  imports Directory
begin

text \<open>
  The file system of \<open>filesys/filesys.cc\<close>: formatting a disk, creating, opening and removing
  files. Its state is the disk and the two files that stay open, the bitmap of free sectors and
  the directory.

  The invariant \<open>fs_ok\<close> is the consistency of the disk: the headers and data sectors of all
  files are disjoint, every one of them is marked in the bitmap and nothing else is. The lemmas
  show that formatting establishes it, that every operation preserves it, and what each
  operation does to the map \<open>files\<close> from names to contents, on every branch.
\<close>

section \<open>Operations\<close>

definition FreeMapSector :: int where "FreeMapSector = 0"
definition DirectorySector :: int where "DirectorySector = 1"
definition BitsInByte :: int where "BitsInByte = 8"
definition FreeMapFileSize :: int where "FreeMapFileSize = NumSectors sdiv BitsInByte"
definition NumDirEntries :: int where "NumDirEntries = 10"
definition DirectoryFileSize :: int where
  "DirectoryFileSize = int sizeof_DirectoryEntry * NumDirEntries"

lemmas fs_consts = FreeMapSector_def DirectorySector_def BitsInByte_def FreeMapFileSize_def NumDirEntries_def
  DirectoryFileSize_def

record FileSystem =
  freeMapFile :: OpenFile
  directoryFile :: OpenFile

text \<open>What the memory holds that \<open>new\<close> returns: words, directory entries, headers, buffers.\<close>

record uninit =
  mem_words :: "nat \<Rightarrow> 32 word"
  mem_entries :: "nat \<Rightarrow> DirectoryEntry"
  mem_header :: "nat \<Rightarrow> FileHeader"
  mem_bytes :: "nat \<Rightarrow> nat \<Rightarrow> byte"

text \<open>\<open>BitMap::FetchFrom\<close> and \<open>BitMap::WriteBack\<close> of \<open>userprog/bitmap.cc\<close>.\<close>

definition BitMap_FetchFrom :: "OpenFile \<Rightarrow> BitMap \<Rightarrow> Disk \<Rightarrow> (BitMap \<times> Disk) result" where
  "BitMap_FetchFrom f m d =
     bind_result (ReadAt (numWords m * 4) 0 (hdr f) d) (\<lambda>(bs, d).
       Inr (m\<lparr>words := bytes_words (write_at 0 bs (words_bytes (words m)))\<rparr>, d))"

definition BitMap_WriteBack :: "(nat \<Rightarrow> byte) \<Rightarrow> OpenFile \<Rightarrow> BitMap \<Rightarrow> Disk \<Rightarrow> Disk result" where
  "BitMap_WriteBack junk f m d =
     bind_result (WriteAt junk (words_bytes (words m)) (numWords m * 4) 0 (hdr f) d) (\<lambda>(n, d). Inr d)"

definition FileSystem_ctor :: "uninit \<Rightarrow> bool \<Rightarrow> Disk \<Rightarrow> (FileSystem \<times> Disk) result" where
  "FileSystem_ctor u format d =
     (if format then
        bind_result (BitMap_ctor (mem_words u) NumSectors) (\<lambda>freeMap.
        let directory = Directory_ctor (mem_entries u) NumDirEntries in
        bind_result (Mark FreeMapSector freeMap) (\<lambda>freeMap.
        bind_result (Mark DirectorySector freeMap) (\<lambda>freeMap.
        bind_result (Allocate freeMap FreeMapFileSize (mem_header u 0)) (\<lambda>(ok1, mapHdr, freeMap).
        bind_result (ASSERT ok1) (\<lambda>_.
        bind_result (Allocate freeMap DirectoryFileSize (mem_header u 1)) (\<lambda>(ok2, dirHdr, freeMap).
        bind_result (ASSERT ok2) (\<lambda>_.
        bind_result (Hdr_WriteBack mapHdr FreeMapSector d) (\<lambda>d.
        bind_result (Hdr_WriteBack dirHdr DirectorySector d) (\<lambda>d.
        bind_result (OpenFile_ctor FreeMapSector d) (\<lambda>(mapFile, d).
        bind_result (OpenFile_ctor DirectorySector d) (\<lambda>(dirFile, d).
        bind_result (BitMap_WriteBack (mem_bytes u 0) mapFile freeMap d) (\<lambda>d.
        bind_result (Directory_WriteBack (mem_bytes u 1) dirFile directory d) (\<lambda>d.
          Inr (\<lparr>freeMapFile = mapFile, directoryFile = dirFile\<rparr>, d))))))))))))))
      else
        bind_result (OpenFile_ctor FreeMapSector d) (\<lambda>(mapFile, d).
        bind_result (OpenFile_ctor DirectorySector d) (\<lambda>(dirFile, d).
          Inr (\<lparr>freeMapFile = mapFile, directoryFile = dirFile\<rparr>, d))))"

text \<open>
  \<open>Create_at\<close> is the part of \<open>Create\<close> that starts with \<open>directory->Add\<close>: the sector \<open>sec\<close> for
  the header has been found.
\<close>

definition Create_at ::
  "uninit \<Rightarrow> byte list \<Rightarrow> int \<Rightarrow> FileSystem \<Rightarrow> int \<Rightarrow> BitMap \<Rightarrow> Directory \<Rightarrow> Disk \<Rightarrow> (bool \<times> Disk) result" where
  "Create_at u nm initialSize fs sec freeMap directory d =
     bind_result (Directory_Add nm sec directory) (\<lambda>(added, directory).
       if \<not> added then Inr (False, d)
       else bind_result (Allocate freeMap initialSize (mem_header u 0)) (\<lambda>(allocated, h, freeMap).
         if \<not> allocated then Inr (False, d)
         else
           bind_result (Hdr_WriteBack h sec d) (\<lambda>d.
           bind_result (Directory_WriteBack (mem_bytes u 0) (directoryFile fs) directory d) (\<lambda>d.
           bind_result (BitMap_WriteBack (mem_bytes u 1) (freeMapFile fs) freeMap d) (\<lambda>d.
             Inr (True, d))))))"

definition Create :: "uninit \<Rightarrow> byte list \<Rightarrow> int \<Rightarrow> FileSystem \<Rightarrow> Disk \<Rightarrow> (bool \<times> Disk) result" where
  "Create u nm initialSize fs d =
     bind_result (Directory_FetchFrom (directoryFile fs) (Directory_ctor (mem_entries u) NumDirEntries) d)
       (\<lambda>(directory, d).
     bind_result (Directory_Find nm directory) (\<lambda>found.
       if found \<noteq> - 1 then Inr (False, d)
       else
         bind_result (BitMap_ctor (mem_words u) NumSectors) (\<lambda>freeMap.
         bind_result (BitMap_FetchFrom (freeMapFile fs) freeMap d) (\<lambda>(freeMap, d).
         bind_result (Find freeMap) (\<lambda>(sec, freeMap).
           if sec = - 1 then Inr (False, d)
           else Create_at u nm initialSize fs sec freeMap directory d)))))"

definition Open :: "uninit \<Rightarrow> byte list \<Rightarrow> FileSystem \<Rightarrow> Disk \<Rightarrow> (OpenFile option \<times> Disk) result" where
  "Open u nm fs d =
     bind_result (Directory_FetchFrom (directoryFile fs) (Directory_ctor (mem_entries u) NumDirEntries) d)
       (\<lambda>(directory, d).
     bind_result (Directory_Find nm directory) (\<lambda>sec.
       if sec \<ge> 0 then bind_result (OpenFile_ctor sec d) (\<lambda>(f, d). Inr (Some f, d)) else Inr (None, d)))"

definition FileSystem_Remove :: "uninit \<Rightarrow> byte list \<Rightarrow> FileSystem \<Rightarrow> Disk \<Rightarrow> (bool \<times> Disk) result" where
  "FileSystem_Remove u nm fs d =
     bind_result (Directory_FetchFrom (directoryFile fs) (Directory_ctor (mem_entries u) NumDirEntries) d)
       (\<lambda>(directory, d).
     bind_result (Directory_Find nm directory) (\<lambda>sec.
       if sec = - 1 then Inr (False, d)
       else
         bind_result (Hdr_FetchFrom sec d) (\<lambda>(fileHdr, d).
         bind_result (BitMap_ctor (mem_words u) NumSectors) (\<lambda>freeMap.
         bind_result (BitMap_FetchFrom (freeMapFile fs) freeMap d) (\<lambda>(freeMap, d).
         bind_result (Deallocate fileHdr freeMap) (\<lambda>freeMap.
         bind_result (Clear sec freeMap) (\<lambda>freeMap.
         bind_result (Directory_Remove nm directory) (\<lambda>(removed, directory).
         bind_result (BitMap_WriteBack (mem_bytes u 0) (freeMapFile fs) freeMap d) (\<lambda>d.
         bind_result (Directory_WriteBack (mem_bytes u 1) (directoryFile fs) directory d) (\<lambda>d.
           Inr (True, d)))))))))))"

section \<open>The consistency of the disk\<close>

definition the_header :: "int \<Rightarrow> Disk \<Rightarrow> FileHeader" where
  "the_header s d = bytes_header (sector_data s d)"

definition the_map :: "FileSystem \<Rightarrow> Disk \<Rightarrow> BitMap" where
  "the_map fs d = \<lparr>numBits = NumSectors, numWords = divRoundUp NumSectors BitsInWord,
     words = bytes_words (file_bytes (hdr (freeMapFile fs)) d)\<rparr>"

definition the_directory :: "FileSystem \<Rightarrow> Disk \<Rightarrow> Directory" where
  "the_directory fs d = \<lparr>tableSize = NumDirEntries,
     table = bytes_table (nat NumDirEntries) (file_bytes (hdr (directoryFile fs)) d)\<rparr>"

abbreviation names :: "FileSystem \<Rightarrow> Disk \<Rightarrow> byte list \<rightharpoonup> int" where
  "names fs d \<equiv> lookup (the_directory fs d)"

definition owned :: "int \<Rightarrow> Disk \<Rightarrow> int set" where
  "owned s d = insert s (set (data_sectors (the_header s d)))"

definition heads :: "FileSystem \<Rightarrow> Disk \<Rightarrow> int set" where
  "heads fs d = {FreeMapSector, DirectorySector} \<union> ran (names fs d)"

definition good_head :: "int \<Rightarrow> Disk \<Rightarrow> bool" where
  "good_head s d \<longleftrightarrow> valid_sector s \<and> header_ok (the_header s d) \<and> s \<notin> set (data_sectors (the_header s d))"

text \<open>The sectors of the files headed by \<open>H\<close> are disjoint and exactly the marked ones.\<close>

definition partitioned :: "int set \<Rightarrow> Disk \<Rightarrow> int set \<Rightarrow> bool" where
  "partitioned H d M \<longleftrightarrow> (\<forall>s \<in> H. good_head s d) \<and>
     (\<forall>a \<in> H. \<forall>b \<in> H. a \<noteq> b \<longrightarrow> owned a d \<inter> owned b d = {}) \<and> (\<Union>s \<in> H. owned s d) = M"

definition fs_ok :: "FileSystem \<Rightarrow> Disk \<Rightarrow> bool" where
  "fs_ok fs d \<longleftrightarrow> idle_disk d \<and>
     hdr (freeMapFile fs) = the_header FreeMapSector d \<and> hdr (directoryFile fs) = the_header DirectorySector d \<and>
     numBytes (hdr (freeMapFile fs)) = FreeMapFileSize \<and> numBytes (hdr (directoryFile fs)) = DirectoryFileSize \<and>
     directory_ok (the_directory fs d) \<and>
     FreeMapSector \<notin> ran (names fs d) \<and> DirectorySector \<notin> ran (names fs d) \<and>
     inj_on (names fs d) (dom (names fs d)) \<and>
     partitioned (heads fs d) d (marked (the_map fs d))"

definition files :: "FileSystem \<Rightarrow> Disk \<Rightarrow> byte list \<rightharpoonup> byte list" where
  "files fs d nm = map_option (\<lambda>s. file_bytes (the_header s d) d) (names fs d nm)"

definition uninit_ok :: "uninit \<Rightarrow> bool" where
  "uninit_ok u \<longleftrightarrow> (\<forall>i. entry_ok (mem_entries u i)) \<and>
     (\<forall>i. length (dataSectors (mem_header u i)) = NumDirect \<and> (\<forall>s \<in> set (dataSectors (mem_header u i)). int32 s))"

section \<open>Frames\<close>

definition same_disk :: "Disk \<Rightarrow> Disk \<Rightarrow> bool" where
  "same_disk d d' \<longleftrightarrow> idle_disk d' \<and> (\<forall>s. sector_data s d' = sector_data s d)"

lemma same_disk_refl [simp]: "same_disk d d \<longleftrightarrow> idle_disk d"
  by (simp add: same_disk_def)

lemma same_disk_trans [trans]: "same_disk d d' \<Longrightarrow> same_disk d' d'' \<Longrightarrow> same_disk d d''"
  by (simp add: same_disk_def)

lemma partitioned_cong:
  "\<forall>a \<in> H. the_header a d' = the_header a d \<Longrightarrow> partitioned H d' M \<longleftrightarrow> partitioned H d M"
  by (auto simp: partitioned_def good_head_def owned_def)

lemma same_disk_cong:
  assumes "same_disk d d'"
  shows "the_header s d' = the_header s d" "file_bytes h d' = file_bytes h d"
    "the_map fs d' = the_map fs d" "the_directory fs d' = the_directory fs d"
    "fs_ok fs d \<Longrightarrow> fs_ok fs d'" "files fs d' = files fs d"
proof -
  show h: "the_header s d' = the_header s d" for s using assms by (simp add: same_disk_def the_header_def)
  show f: "file_bytes h d' = file_bytes h d" for h using assms by (intro file_bytes_cong) (simp add: same_disk_def)
  show m: "the_map fs d' = the_map fs d" and n: "the_directory fs d' = the_directory fs d"
    and "files fs d' = files fs d"
    by (simp_all add: the_map_def the_directory_def files_def fun_eq_iff h f)
  have "heads fs d' = heads fs d" by (simp add: heads_def n)
  moreover have "partitioned (heads fs d) d' M = partitioned (heads fs d) d M" for M by (simp add: partitioned_cong h)
  ultimately show "fs_ok fs d'" if "fs_ok fs d"
    using that assms by (auto simp: fs_ok_def m n h same_disk_def)
qed

lemma file_bytes_local:
  "\<forall>s \<in> set (data_sectors h). sector_data s d' = sector_data s d \<Longrightarrow> file_bytes h d' = file_bytes h d"
  by (simp add: file_bytes_def file_raw_def cong: map_cong)

text \<open>
  Writing the data of some of the files and sectors that belong to no file leaves all headers
  and the contents of the other files as they are.
\<close>

lemma frame:
  assumes P: "partitioned H d M" "W \<subseteq> H" "X \<inter> M = {}" "a \<in> H"
    and C: "\<forall>s. valid_sector s \<longrightarrow> s \<notin> X \<longrightarrow> (\<forall>w \<in> W. s \<notin> set (data_sectors (the_header w d))) \<longrightarrow>
       sector_data s d' = sector_data s d"
  shows "the_header a d' = the_header a d"
    and "a \<notin> W \<Longrightarrow> file_bytes (the_header a d) d' = file_bytes (the_header a d) d"
proof -
  have o: "owned a d \<subseteq> M" "good_head a d" using P(1,4) by (auto simp: partitioned_def)
  have disj: "owned a d \<inter> set (data_sectors (the_header w d)) = {}" if "w \<in> W" "w \<noteq> a" for w
    using P(1,2,4) that by (fastforce simp: partitioned_def owned_def)
  have "sector_data a d' = sector_data a d"
  proof (rule C [rule_format])
    show "valid_sector a" "a \<notin> X" using o P(3) by (auto simp: good_head_def owned_def)
    show "a \<notin> set (data_sectors (the_header w d))" if "w \<in> W" for w
      using disj [OF that] o(2) by (cases "w = a") (auto simp: owned_def good_head_def)
  qed
  then show "the_header a d' = the_header a d" by (simp add: the_header_def)
  show "file_bytes (the_header a d) d' = file_bytes (the_header a d) d" if "a \<notin> W"
  proof (intro file_bytes_local ballI C [rule_format])
    fix s assume s: "s \<in> set (data_sectors (the_header a d))"
    then show "valid_sector s" "s \<notin> X" using o P(3) by (auto simp: good_head_def header_ok_def owned_def)
    show "s \<notin> set (data_sectors (the_header w d))" if "w \<in> W" for w
      using disj [OF that] s \<open>a \<notin> W\<close> that by (auto simp: owned_def)
  qed
qed

lemma partitioned_insert:
  assumes "partitioned H d M" "good_head s d" "owned s d \<inter> M = {}"
  shows "partitioned (insert s H) d (M \<union> owned s d)"
  using assms unfolding partitioned_def by blast

lemma partitioned_remove:
  assumes "partitioned H d M" "s \<in> H"
  shows "partitioned (H - {s}) d (M - owned s d)"
  using assms unfolding partitioned_def by blast

section \<open>Fetching and flushing the two system files\<close>

lemma fs_numbers: "FreeMapFileSize = 128" "DirectoryFileSize = 200" "NumSectors = 1024"
  "divRoundUp NumSectors BitsInWord = 32" "divRoundUp 1024 BitsInWord = 32"
  by (simp_all add: fs_consts disk_consts sizeof_DirectoryEntry_def divRoundUp_def BitsInWord_def)

lemma length_bytes_words: "length bs = 4 * n \<Longrightarrow> length (bytes_words bs) = n"
proof (induction bs arbitrary: n rule: bytes_words.induct)
  case (1 a b c d bs)
  then show ?case by (cases n) auto
qed auto

lemma write_all_at: "length old \<le> length bs \<Longrightarrow> write_at 0 bs old = bs"
  by (simp add: write_at_def)

lemma fs_okD:
  assumes "fs_ok fs d"
  shows "idle_disk d" "hdr (freeMapFile fs) = the_header FreeMapSector d"
    "hdr (directoryFile fs) = the_header DirectorySector d" "numBytes (hdr (freeMapFile fs)) = 128"
    "numBytes (hdr (directoryFile fs)) = 200" "directory_ok (the_directory fs d)"
    "inj_on (names fs d) (dom (names fs d))" "partitioned (heads fs d) d (marked (the_map fs d))"
    "good_head FreeMapSector d" "good_head DirectorySector d"
    "FreeMapSector \<notin> ran (names fs d)" "DirectorySector \<notin> ran (names fs d)"
  using assms unfolding fs_ok_def partitioned_def heads_def fs_numbers by blast+

lemma fs_headers:
  assumes "fs_ok fs d"
  shows "header_ok (hdr (freeMapFile fs))" "header_ok (hdr (directoryFile fs))"
    "length (file_bytes (hdr (freeMapFile fs)) d) = 128" "length (file_bytes (hdr (directoryFile fs)) d) = 200"
    "wf_bitmap (the_map fs d)" "idle_disk d"
proof -
  note D = fs_okD [OF assms]
  show h: "header_ok (hdr (freeMapFile fs))" "header_ok (hdr (directoryFile fs))" and "idle_disk d"
    using D(1-3,9,10) by (simp_all add: good_head_def)
  have "int (length (file_bytes (hdr (freeMapFile fs)) d)) = 128" "int (length (file_bytes (hdr (directoryFile fs)) d)) = 200"
    using length_file_bytes [OF h(1) D(1)] length_file_bytes [OF h(2) D(1)] D(4,5) by simp_all
  then show l: "length (file_bytes (hdr (freeMapFile fs)) d) = 128" "length (file_bytes (hdr (directoryFile fs)) d) = 200"
    by linarith+
  have "length (bytes_words (file_bytes (hdr (freeMapFile fs)) d)) = 32" by (rule length_bytes_words) (simp add: l)
  then show "wf_bitmap (the_map fs d)" by (simp add: wf_bitmap_def the_map_def fs_numbers)
qed

lemma partitioned_disjoint:
  "partitioned H d M \<Longrightarrow> a \<in> H \<Longrightarrow> b \<in> H \<Longrightarrow> a \<noteq> b \<Longrightarrow> owned a d \<inter> owned b d = {}"
  by (simp add: partitioned_def)

lemma system_disjoint:
  assumes "fs_ok fs d"
  shows "set (data_sectors (hdr (freeMapFile fs))) \<inter> set (data_sectors (hdr (directoryFile fs))) = {}"
proof -
  have "owned FreeMapSector d \<inter> owned DirectorySector d = {}"
    by (rule partitioned_disjoint [OF fs_okD(8) [OF assms]]) (simp_all add: heads_def fs_consts)
  then show ?thesis unfolding fs_okD(2,3) [OF assms] owned_def by blast
qed

lemma fetch_directory:
  assumes "fs_ok fs d" "uninit_ok u"
  shows "\<exists>d'. Directory_FetchFrom (directoryFile fs) (Directory_ctor (mem_entries u) NumDirEntries) d =
     Inr (the_directory fs d, d') \<and> same_disk d d'"
proof -
  let ?t = "table (Directory_ctor (mem_entries u) NumDirEntries)" and ?bs = "file_bytes (hdr (directoryFile fs)) d"
  note h = fs_headers [OF assms(1)]
  have "\<forall>e \<in> set ?t. entry_ok e" "length ?t = 10"
    using assms(2) by (auto simp: uninit_ok_def Directory_ctor_def entry_ok_def NumDirEntries_def)
  then have "length (table_bytes ?t) = 200" using length_table_bytes [of ?t] by (simp add: sizeof_DirectoryEntry_def)
  then have w: "write_at 0 ?bs (table_bytes ?t) = ?bs" by (simp add: write_all_at h(4))
  have "read_at 0 200 ?bs = ?bs" using h(4) by (simp add: read_at_def)
  with ReadAt_ok [OF h(2,6), of 0 200] obtain d' where
    "ReadAt 200 0 (hdr (directoryFile fs)) d = Inr (?bs, d')" "same_disk d d'" by (auto simp: same_disk_def)
  then show ?thesis using w \<open>length ?t = 10\<close>
    by (simp add: Directory_FetchFrom_def the_directory_def NumDirEntries_def sizeof_DirectoryEntry_def)
       (simp add: Directory_ctor_def)
qed

lemma fetch_map:
  assumes "fs_ok fs d"
  shows "\<exists>m d'. BitMap_ctor (mem_words u) NumSectors = Inr m \<and>
     BitMap_FetchFrom (freeMapFile fs) m d = Inr (the_map fs d, d') \<and> same_disk d d'"
proof -
  note h = fs_headers [OF assms]
  have "0 \<le> NumSectors" by (simp add: fs_numbers)
  from BitMap_ctor_ok [OF this, of "mem_words u"] obtain m where
    m: "BitMap_ctor (mem_words u) NumSectors = Inr m" "wf_bitmap m" "numBits m = NumSectors" by blast
  then have n: "numWords m = 32" "length (words m) = 32" by (auto simp: wf_bitmap_def fs_numbers)
  let ?bs = "file_bytes (hdr (freeMapFile fs)) d"
  have "read_at 0 128 ?bs = ?bs" using h(3) by (simp add: read_at_def)
  with ReadAt_ok [OF h(1,6), of 0 128] obtain d' where
    "ReadAt 128 0 (hdr (freeMapFile fs)) d = Inr (?bs, d')" "same_disk d d'" by (auto simp: same_disk_def)
  then show ?thesis using m n h(3)
    by (simp add: BitMap_FetchFrom_def the_map_def write_all_at fs_numbers(4))
qed

lemma flush_directory:
  assumes "header_ok (hdr f)" "idle_disk d" "numBytes (hdr f) = 200" "directory_ok dir" "tableSize dir = NumDirEntries"
  shows "\<exists>d'. Directory_WriteBack junk f dir d = Inr d' \<and> idle_disk d' \<and>
     file_bytes (hdr f) d' = table_bytes (table dir) \<and>
     (\<forall>s. valid_sector s \<longrightarrow> s \<notin> set (data_sectors (hdr f)) \<longrightarrow> sector_data s d' = sector_data s d)"
proof -
  let ?F = "file_bytes (hdr f) d" and ?bs = "table_bytes (table dir)"
  have n: "length ?F = 200" "length ?bs = 200"
    using length_file_bytes [OF assms(1,2)] assms(3-5) length_table_bytes [of "table dir"]
    by (auto simp: directory_ok_def NumDirEntries_def sizeof_DirectoryEntry_def)
  then have "take (length (read_at (nat 0) (nat 200) ?F)) ?bs = ?bs" "200 \<le> int (length ?bs)" by (simp_all add: read_at_def)
  with WriteAt_ok [OF assms(1,2), of 0 200 ?bs junk] n show ?thesis
    by (auto simp: Directory_WriteBack_def assms(5) NumDirEntries_def sizeof_DirectoryEntry_def)
qed

lemma flush_map:
  assumes "header_ok (hdr f)" "idle_disk d" "numBytes (hdr f) = 128" "wf_bitmap m" "numBits m = NumSectors"
  shows "\<exists>d'. BitMap_WriteBack junk f m d = Inr d' \<and> idle_disk d' \<and>
     file_bytes (hdr f) d' = words_bytes (words m) \<and>
     (\<forall>s. valid_sector s \<longrightarrow> s \<notin> set (data_sectors (hdr f)) \<longrightarrow> sector_data s d' = sector_data s d)"
proof -
  let ?F = "file_bytes (hdr f) d" and ?bs = "words_bytes (words m)"
  have w: "numWords m = 32" "length (words m) = 32" using assms(4,5) by (auto simp: wf_bitmap_def fs_numbers)
  have n: "length ?F = 128" "length ?bs = 128" using length_file_bytes [OF assms(1,2)] assms(3) w by auto
  then have "take (length (read_at (nat 0) (nat 128) ?F)) ?bs = ?bs" "128 \<le> int (length ?bs)" by (simp_all add: read_at_def)
  with WriteAt_ok [OF assms(1,2), of 0 128 ?bs junk] n show ?thesis
    by (auto simp: BitMap_WriteBack_def w(1))
qed

text \<open>The state in which both system files hold a given bitmap and directory.\<close>

definition flushed :: "FileSystem \<Rightarrow> BitMap \<Rightarrow> Directory \<Rightarrow> Disk \<Rightarrow> Disk \<Rightarrow> bool" where
  "flushed fs m dir d d' \<longleftrightarrow> idle_disk d' \<and>
     file_bytes (hdr (freeMapFile fs)) d' = words_bytes (words m) \<and>
     file_bytes (hdr (directoryFile fs)) d' = table_bytes (table dir) \<and>
     (\<forall>s. valid_sector s \<longrightarrow> s \<notin> set (data_sectors (hdr (freeMapFile fs))) \<longrightarrow>
        s \<notin> set (data_sectors (hdr (directoryFile fs))) \<longrightarrow> sector_data s d' = sector_data s d)"

definition flushable :: "FileSystem \<Rightarrow> BitMap \<Rightarrow> Directory \<Rightarrow> bool" where
  "flushable fs m dir \<longleftrightarrow> header_ok (hdr (freeMapFile fs)) \<and> header_ok (hdr (directoryFile fs)) \<and>
     numBytes (hdr (freeMapFile fs)) = 128 \<and> numBytes (hdr (directoryFile fs)) = 200 \<and>
     set (data_sectors (hdr (freeMapFile fs))) \<inter> set (data_sectors (hdr (directoryFile fs))) = {} \<and>
     wf_bitmap m \<and> numBits m = NumSectors \<and> directory_ok dir \<and> tableSize dir = NumDirEntries"

lemma flush_both:
  assumes "flushable fs m dir" "idle_disk d"
  shows "\<exists>d1 d2. Directory_WriteBack j1 (directoryFile fs) dir d = Inr d1 \<and>
       BitMap_WriteBack j2 (freeMapFile fs) m d1 = Inr d2 \<and> flushed fs m dir d d2"
    and "\<exists>d1 d2. BitMap_WriteBack j2 (freeMapFile fs) m d = Inr d1 \<and>
       Directory_WriteBack j1 (directoryFile fs) dir d1 = Inr d2 \<and> flushed fs m dir d d2"
proof -
  let ?mh = "hdr (freeMapFile fs)" and ?dh = "hdr (directoryFile fs)"
  have f: "header_ok ?mh" "header_ok ?dh" "numBytes ?mh = 128" "numBytes ?dh = 200"
    "set (data_sectors ?mh) \<inter> set (data_sectors ?dh) = {}" "wf_bitmap m" "numBits m = NumSectors" "directory_ok dir"
    "tableSize dir = NumDirEntries" using assms(1) by (simp_all add: flushable_def)
  have valid: "\<forall>s \<in> set (data_sectors ?mh) \<union> set (data_sectors ?dh). valid_sector s" using f(1,2) by (auto simp: header_ok_def)
  from flush_directory [OF f(2) assms(2) f(4,8,9), of j1] obtain d1 where
    d1: "Directory_WriteBack j1 (directoryFile fs) dir d = Inr d1" "idle_disk d1" "file_bytes ?dh d1 = table_bytes (table dir)"
    "\<forall>s. valid_sector s \<longrightarrow> s \<notin> set (data_sectors ?dh) \<longrightarrow> sector_data s d1 = sector_data s d" by blast
  from flush_map [OF f(1) d1(2) f(3,6,7), of j2] obtain d2 where
    d2: "BitMap_WriteBack j2 (freeMapFile fs) m d1 = Inr d2" "idle_disk d2" "file_bytes ?mh d2 = words_bytes (words m)"
    "\<forall>s. valid_sector s \<longrightarrow> s \<notin> set (data_sectors ?mh) \<longrightarrow> sector_data s d2 = sector_data s d1" by blast
  have "file_bytes ?dh d2 = file_bytes ?dh d1" using d2(4) f(5) valid by (intro file_bytes_local) blast
  then show "\<exists>d1 d2. Directory_WriteBack j1 (directoryFile fs) dir d = Inr d1 \<and>
       BitMap_WriteBack j2 (freeMapFile fs) m d1 = Inr d2 \<and> flushed fs m dir d d2"
    using d1 d2 by (auto simp: flushed_def)
  from flush_map [OF f(1) assms(2) f(3,6,7), of j2] obtain e1 where
    e1: "BitMap_WriteBack j2 (freeMapFile fs) m d = Inr e1" "idle_disk e1" "file_bytes ?mh e1 = words_bytes (words m)"
    "\<forall>s. valid_sector s \<longrightarrow> s \<notin> set (data_sectors ?mh) \<longrightarrow> sector_data s e1 = sector_data s d" by blast
  from flush_directory [OF f(2) e1(2) f(4,8,9), of j1] obtain e2 where
    e2: "Directory_WriteBack j1 (directoryFile fs) dir e1 = Inr e2" "idle_disk e2" "file_bytes ?dh e2 = table_bytes (table dir)"
    "\<forall>s. valid_sector s \<longrightarrow> s \<notin> set (data_sectors ?dh) \<longrightarrow> sector_data s e2 = sector_data s e1" by blast
  have "file_bytes ?mh e2 = file_bytes ?mh e1" using e2(4) f(5) valid by (intro file_bytes_local) blast
  then show "\<exists>d1 d2. BitMap_WriteBack j2 (freeMapFile fs) m d = Inr d1 \<and>
       Directory_WriteBack j1 (directoryFile fs) dir d1 = Inr d2 \<and> flushed fs m dir d d2"
    using e1 e2 by (auto simp: flushed_def)
qed

text \<open>A consistent layout whose bitmap and directory are flushed is a consistent disk.\<close>

lemma flushed_ok:
  assumes P: "partitioned H d (marked m)" "H = {FreeMapSector, DirectorySector} \<union> ran (lookup dir)"
    and S: "hdr (freeMapFile fs) = the_header FreeMapSector d" "hdr (directoryFile fs) = the_header DirectorySector d"
    and L: "FreeMapSector \<notin> ran (lookup dir)" "DirectorySector \<notin> ran (lookup dir)" "inj_on (lookup dir) (dom (lookup dir))"
    and F: "flushable fs m dir" "flushed fs m dir d d'"
  shows "fs_ok fs d'" "the_directory fs d' = dir" "the_map fs d' = m" "heads fs d' = H"
    "\<forall>a \<in> H. the_header a d' = the_header a d"
    "\<forall>a \<in> ran (lookup dir). file_bytes (the_header a d') d' = file_bytes (the_header a d) d"
proof -
  let ?W = "{FreeMapSector, DirectorySector}"
  have C: "\<forall>s. valid_sector s \<longrightarrow> s \<notin> {} \<longrightarrow> (\<forall>w \<in> ?W. s \<notin> set (data_sectors (the_header w d))) \<longrightarrow>
      sector_data s d' = sector_data s d" using F(2) by (auto simp: flushed_def S)
  have W: "?W \<subseteq> H" "{} \<inter> marked m = {}" using P(2) by auto
  show hd: "\<forall>a \<in> H. the_header a d' = the_header a d"
    by (rule ballI) (rule frame(1) [OF P(1) W(1,2) _ C])
  show "\<forall>a \<in> ran (lookup dir). file_bytes (the_header a d') d' = file_bytes (the_header a d) d"
  proof
    fix a assume a: "a \<in> ran (lookup dir)"
    then have "a \<in> H" "a \<notin> ?W" using P(2) L(1,2) by auto
    then show "file_bytes (the_header a d') d' = file_bytes (the_header a d) d"
      using frame(2) [OF P(1) W(1,2) _ C] hd by simp
  qed
  show dd: "the_directory fs d' = dir"
  proof -
    have "nat NumDirEntries = length (table dir)" "\<forall>e \<in> set (table dir). entry_ok e"
      using F(1) by (auto simp: flushable_def directory_ok_def)
    then have "bytes_table (nat NumDirEntries) (table_bytes (table dir)) = table dir"
      using bytes_table_bytes [of "table dir" "[]"] by simp
    then show ?thesis using F by (cases dir) (simp add: the_directory_def flushed_def flushable_def)
  qed
  show mm: "the_map fs d' = m"
    using F by (cases m) (simp add: the_map_def flushed_def flushable_def wf_bitmap_def)
  show hh: "heads fs d' = H" by (simp add: heads_def dd P(2))
  have "partitioned H d' (marked m)" using P(1) partitioned_cong [OF hd] by blast
  then show "fs_ok fs d'" unfolding fs_ok_def dd mm hh fs_numbers
    using F L S hd P(2) by (simp add: flushed_def flushable_def)
qed

section \<open>Creating a file\<close>

lemma free_bits_map: "free_bits (the_map fs d) = {s. valid_sector s} - marked (the_map fs d)"
  by (auto simp: free_bits_def the_map_def valid_sector_def)

text \<open>Writing the header of a new file into a free sector, with free sectors for its data.\<close>

lemma new_file:
  assumes "fs_ok fs d" "s \<in> free_bits (the_map fs d)" "set ss \<subseteq> free_bits (the_map fs d) - {s}" "distinct ss"
    and h: "h = \<lparr>numBytes = n, numSectors = int (length ss), dataSectors = ss @ rest\<rparr>" "header_fits h"
    and n: "0 \<le> n" "int (length ss) = divRoundUp n (int SectorSize)"
  shows "\<exists>d1. Hdr_WriteBack h s d = Inr d1 \<and> idle_disk d1 \<and> the_header s d1 = h \<and>
     partitioned (insert s (heads fs d)) d1 (marked (the_map fs d) \<union> insert s (set ss)) \<and>
     (\<forall>a \<in> heads fs d. the_header a d1 = the_header a d \<and> file_bytes (the_header a d) d1 = file_bytes (the_header a d) d)"
proof -
  note D = fs_okD [OF assms(1)]
  have v: "valid_sector s" "s \<notin> marked (the_map fs d)" "\<forall>x \<in> set ss. valid_sector x \<and> x \<notin> marked (the_map fs d) \<and> x \<noteq> s"
    using assms(2,3) by (auto simp: free_bits_map)
  from store.wr_ok [OF D(1) v(1) length_header_bytes [OF h(2)]] obtain d1 where
    d1: "WriteSector s (header_bytes h) d = Inr d1" "idle_disk d1" "sector_data s d1 = header_bytes h"
    "\<forall>s'. valid_sector s' \<longrightarrow> s' \<noteq> s \<longrightarrow> sector_data s' d1 = sector_data s' d" by blast
  have hs: "the_header s d1 = h" using d1(3) bytes_header_bytes [OF h(2)] by (simp add: the_header_def)
  have C: "\<forall>s'. valid_sector s' \<longrightarrow> s' \<notin> {s} \<longrightarrow> (\<forall>w \<in> {}. s' \<notin> set (data_sectors (the_header w d))) \<longrightarrow>
      sector_data s' d1 = sector_data s' d" using d1(4) by blast
  have X: "{s} \<inter> marked (the_map fs d) = {}" using v(2) by simp
  have fr: "\<forall>a \<in> heads fs d. the_header a d1 = the_header a d \<and> file_bytes (the_header a d) d1 = file_bytes (the_header a d) d"
    using frame [OF D(8) empty_subsetI X _ C] by blast
  have ds: "data_sectors h = ss" by (simp add: h(1) data_sectors_def)
  have "header_ok h" using h(2) n v(3) assms(4) unfolding header_ok_def ds
    by (simp add: h(1) header_fits_def)
  then have "good_head s d1" "owned s d1 = insert s (set ss)" using v ds hs by (auto simp: good_head_def owned_def)
  moreover have "partitioned (heads fs d) d1 (marked (the_map fs d))"
    using D(8) partitioned_cong [of "heads fs d" d1 d] fr by blast
  moreover have "insert s (set ss) \<inter> marked (the_map fs d) = {}" using v by blast
  ultimately have "partitioned (insert s (heads fs d)) d1 (marked (the_map fs d) \<union> insert s (set ss))"
    using partitioned_insert by metis
  with d1 hs fr show ?thesis by (auto simp: Hdr_WriteBack_def)
qed

lemma Find_map:
  assumes "fs_ok fs d"
  shows "free_bits (the_map fs d) = {} \<Longrightarrow> Find (the_map fs d) = Inr (- 1, the_map fs d)"
    and "free_bits (the_map fs d) \<noteq> {} \<Longrightarrow> \<exists>s m. Find (the_map fs d) = Inr (s, m) \<and> s \<in> free_bits (the_map fs d) \<and>
      wf_bitmap m \<and> numBits m = NumSectors \<and> marked m = insert s (marked (the_map fs d)) \<and>
      free_bits m = free_bits (the_map fs d) - {s}"
proof -
  have nb: "numBits (the_map fs d) = NumSectors" by (simp add: the_map_def)
  note F = Find_ok [OF fs_headers(5) [OF assms]]
  show "Find (the_map fs d) = Inr (- 1, the_map fs d)" if "free_bits (the_map fs d) = {}"
  proof (rule F(1))
    show "\<forall>i. 0 \<le> i \<and> i < numBits (the_map fs d) \<longrightarrow> i \<in> marked (the_map fs d)"
      using that unfolding free_bits_def by fastforce
  qed
  assume "free_bits (the_map fs d) \<noteq> {}"
  then have "\<exists>i. 0 \<le> i \<and> i < numBits (the_map fs d) \<and> i \<notin> marked (the_map fs d)" by (auto simp: free_bits_def)
  from F(2) [OF this] obtain s m where "Find (the_map fs d) = Inr (s, m)" "0 \<le> s" "s < numBits (the_map fs d)"
    "s \<notin> marked (the_map fs d)" "wf_bitmap m" "numBits m = numBits (the_map fs d)" "marked m = insert s (marked (the_map fs d))" by blast
  then show "\<exists>s m. Find (the_map fs d) = Inr (s, m) \<and> s \<in> free_bits (the_map fs d) \<and>
      wf_bitmap m \<and> numBits m = NumSectors \<and> marked m = insert s (marked (the_map fs d)) \<and>
      free_bits m = free_bits (the_map fs d) - {s}"
    by (intro exI [of _ s] exI [of _ m]) (auto simp: nb free_bits_def)
qed

text \<open>When a file can be created, and what is left free then.\<close>

definition room_for :: "byte list \<Rightarrow> int \<Rightarrow> FileSystem \<Rightarrow> Disk \<Rightarrow> bool" where
  "room_for nm n fs d \<longleftrightarrow> names fs d (fkey nm) = None \<and> int (card (dom (names fs d))) < NumDirEntries \<and>
     divRoundUp n (int SectorSize) + 1 \<le> int (card (free_bits (the_map fs d)))"

lemma names_card: "int (card (dom (names fs d))) < tableSize (the_directory fs d) \<longleftrightarrow> int (card (dom (names fs d))) < NumDirEntries"
  by (simp add: the_directory_def)

lemma valid_int32: "valid_sector s \<Longrightarrow> int32 s"
  by (simp add: valid_sector_def int32_def disk_consts)

lemma inj_upd:
  assumes "inj_on m (dom m)" "m k = None" "s \<notin> ran m"
  shows "inj_on (m(k \<mapsto> s)) (dom (m(k \<mapsto> s)))"
proof (rule inj_onI)
  fix x y assume a: "x \<in> dom (m(k \<mapsto> s))" "y \<in> dom (m(k \<mapsto> s))" "(m(k \<mapsto> s)) x = (m(k \<mapsto> s)) y"
  have "m z \<noteq> Some s" for z using assms(3) by (auto simp: ran_def)
  then show "x = y" using a assms(1,2) by (auto split: if_splits dest: inj_onD)
qed

text \<open>What open files rely on: the files that exist stay where they are, with their headers.\<close>

definition keeps :: "FileSystem \<Rightarrow> Disk \<Rightarrow> Disk \<Rightarrow> bool" where
  "keeps fs d d' \<longleftrightarrow> (\<forall>k a. names fs d k = Some a \<longrightarrow> names fs d' k = Some a \<and> the_header a d' = the_header a d)"

text \<open>The last step of \<open>Create\<close>: header, directory and bitmap go to the disk.\<close>

lemma create_commit:
  assumes ok: "fs_ok fs d" and s: "s \<in> free_bits (the_map fs d)"
    and ss: "set ss \<subseteq> free_bits (the_map fs d) - {s}" "distinct ss"
    and h: "h = \<lparr>numBytes = n, numSectors = int (length ss), dataSectors = ss @ rest\<rparr>" "header_fits h"
    and n: "0 \<le> n" "int (length ss) = divRoundUp n (int SectorSize)"
    and dir: "directory_ok dir" "tableSize dir = NumDirEntries" "names fs d k = None" "lookup dir = (names fs d)(k \<mapsto> s)"
    and m: "wf_bitmap m" "numBits m = NumSectors" "marked m = marked (the_map fs d) \<union> insert s (set ss)"
  shows "\<exists>d1 d2 d3. Hdr_WriteBack h s d = Inr d1 \<and> Directory_WriteBack j1 (directoryFile fs) dir d1 = Inr d2 \<and>
     BitMap_WriteBack j2 (freeMapFile fs) m d2 = Inr d3 \<and> fs_ok fs d3 \<and> the_map fs d3 = m \<and>
     the_directory fs d3 = dir \<and> (\<exists>c. int (length c) = n \<and> files fs d3 = (files fs d)(k \<mapsto> c)) \<and> keeps fs d d3"
proof -
  note D = fs_okD [OF ok] and H = fs_headers [OF ok]
  from new_file [OF ok s ss h n] obtain d1 where d1: "Hdr_WriteBack h s d = Inr d1" "idle_disk d1" "the_header s d1 = h"
    "partitioned (insert s (heads fs d)) d1 (marked m)"
    "\<forall>a \<in> heads fs d. the_header a d1 = the_header a d \<and> file_bytes (the_header a d) d1 = file_bytes (the_header a d) d"
    unfolding m(3) by blast
  have sm: "s \<notin> marked (the_map fs d)" using s by (simp add: free_bits_map)
  have hm: "heads fs d \<subseteq> marked (the_map fs d)" using D(8) by (auto simp: partitioned_def owned_def)
  have rn: "ran (lookup dir) = insert s (ran (names fs d))" using dir(3,4) by (simp add: ran_map_upd)
  have hd: "insert s (heads fs d) = {FreeMapSector, DirectorySector} \<union> ran (lookup dir)" by (auto simp: heads_def rn)
  have S: "hdr (freeMapFile fs) = the_header FreeMapSector d1" "hdr (directoryFile fs) = the_header DirectorySector d1"
    using d1(5) D(2,3) by (simp_all add: heads_def)
  have L: "FreeMapSector \<notin> ran (lookup dir)" "DirectorySector \<notin> ran (lookup dir)"
    using D(11,12) sm hm by (auto simp: rn heads_def)
  have sr: "s \<notin> ran (names fs d)" using sm hm by (auto simp: heads_def)
  have inj: "inj_on (lookup dir) (dom (lookup dir))" unfolding dir(4) by (rule inj_upd [OF D(7) dir(3) sr])
  have disj: "set (data_sectors (hdr (freeMapFile fs))) \<inter> set (data_sectors (hdr (directoryFile fs))) = {}"
    by (rule system_disjoint [OF ok])
  have F: "flushable fs m dir" using H D(4,5) dir m disj by (simp add: flushable_def)
  from flush_both(1) [OF F d1(2)] obtain d2 d3 where d3: "Directory_WriteBack j1 (directoryFile fs) dir d1 = Inr d2"
    "BitMap_WriteBack j2 (freeMapFile fs) m d2 = Inr d3" "flushed fs m dir d1 d3" by blast
  note R = flushed_ok [OF d1(4) hd S L inj F d3(3)]
  have bs: "file_bytes (the_header a d3) d3 = file_bytes (the_header a d) d" if "a \<in> ran (names fs d)" for a
    using R(6) d1(5) that by (simp add: rn heads_def)
  have nm: "names fs d3 = (names fs d)(k \<mapsto> s)" by (simp add: R(2) dir(4))
  then have "keeps fs d d3" using R(5) d1(5) dir(3) by (auto simp: keeps_def heads_def ran_def)
  moreover have "files fs d3 = (files fs d)(k \<mapsto> file_bytes (the_header s d3) d3)"
    using bs nm by (auto simp: files_def fun_eq_iff ran_def map_option_case split: option.split)
  moreover have "int (length (file_bytes (the_header s d3) d3)) = n"
  proof -
    have "header_ok (the_header s d1)" using d1(4) by (simp add: partitioned_def good_head_def)
    moreover have "the_header s d3 = h" using R(5) d1(3) by simp
    ultimately show ?thesis using length_file_bytes [of h d3] d1(3) d3(3) h(1) by (simp add: flushed_def)
  qed
  ultimately show ?thesis using d1(1) d3(1,2) R(1-3) by blast
qed

lemma name_sector:
  assumes "fs_ok fs d" "names fs d k = Some s"
  shows "s \<in> heads fs d" "good_head s d" "0 \<le> s" "s \<noteq> FreeMapSector" "s \<noteq> DirectorySector"
proof -
  show h: "s \<in> heads fs d" using assms(2) by (auto simp: heads_def ran_def)
  show "good_head s d" using fs_okD(8) [OF assms(1)] h by (simp add: partitioned_def)
  then show "0 \<le> s" by (simp add: good_head_def valid_sector_def)
  show "s \<noteq> FreeMapSector" "s \<noteq> DirectorySector" using fs_okD(11,12) [OF assms(1)] assms(2) by (auto simp: ran_def)
qed

lemma Create_existing:
  assumes "fs_ok fs d" "uninit_ok u" "is_name nm" "names fs d (fkey nm) = Some s"
  shows "\<exists>d'. Create u nm n fs d = Inr (False, d') \<and> same_disk d d'"
proof -
  from fetch_directory [OF assms(1,2)] obtain d1 where
    d1: "Directory_FetchFrom (directoryFile fs) (Directory_ctor (mem_entries u) NumDirEntries) d = Inr (the_directory fs d, d1)"
    "same_disk d d1" by blast
  then show ?thesis using Find_lookup [OF fs_okD(6) [OF assms(1)] assms(3)] name_sector(3) [OF assms(1,4)] assms(4)
    by (simp add: Create_def)
qed

lemma Create_new:
  assumes "fs_ok fs d" "uninit_ok u" "is_name nm" "names fs d (fkey nm) = None"
  shows "\<exists>d'. same_disk d d' \<and> Create u nm n fs d =
     bind_result (Find (the_map fs d)) (\<lambda>(sec, freeMap).
       if sec = - 1 then Inr (False, d') else Create_at u nm n fs sec freeMap (the_directory fs d) d')"
proof -
  from fetch_directory [OF assms(1,2)] obtain d1 where
    d1: "Directory_FetchFrom (directoryFile fs) (Directory_ctor (mem_entries u) NumDirEntries) d = Inr (the_directory fs d, d1)"
    "same_disk d d1" by blast
  from fetch_map [OF same_disk_cong(5) [OF d1(2) assms(1)], of u] obtain m d2 where
    m: "BitMap_ctor (mem_words u) NumSectors = Inr m" "BitMap_FetchFrom (freeMapFile fs) m d1 = Inr (the_map fs d, d2)"
    "same_disk d1 d2" unfolding same_disk_cong(3) [OF d1(2)] by blast
  show ?thesis
    using d1 Find_lookup [OF fs_okD(6) [OF assms(1)] assms(3)] m same_disk_trans [OF d1(2) m(3)] assms(4)
    by (intro exI [of _ d2]) (simp add: Create_def)
qed

text \<open>What an operation that adds a file leaves behind.\<close>

definition created :: "byte list \<Rightarrow> int \<Rightarrow> FileSystem \<Rightarrow> Disk \<Rightarrow> Disk \<Rightarrow> bool" where
  "created nm n fs d d' \<longleftrightarrow> keeps fs d d' \<and> (\<exists>c. int (length c) = n \<and> files fs d' = (files fs d)(fkey nm \<mapsto> c)) \<and>
     int (card (free_bits (the_map fs d'))) = int (card (free_bits (the_map fs d))) - (divRoundUp n (int SectorSize) + 1)"

lemma fitting_header:
  assumes "int (length ss) = divRoundUp n (int SectorSize)" "length (ss @ rest) = NumDirect"
    and "\<forall>x \<in> set ss. valid_sector x" "\<forall>x \<in> set rest. int32 x" "0 \<le> n" "n \<le> int (NumDirect * SectorSize)"
  shows "header_fits \<lparr>numBytes = n, numSectors = int (length ss), dataSectors = ss @ rest\<rparr>"
proof -
  have "length ss \<le> 30" using assms(2) by (simp add: NumDirect_def)
  then show ?thesis using assms(2-6) valid_int32 by (auto simp: header_fits_def int32_def NumDirect_def SectorSize_def)
qed

lemma Create_at_ok:
  assumes ok: "fs_ok fs d" "uninit_ok u" "is_name nm" "0 \<le> n" "n \<le> int (NumDirect * SectorSize)"
    and s: "s \<in> free_bits (the_map fs d)" "wf_bitmap m" "numBits m = NumSectors"
      "marked m = insert s (marked (the_map fs d))" "free_bits m = free_bits (the_map fs d) - {s}"
    and k: "names fs d (fkey nm) = None"
  shows "\<exists>d'. Create_at u nm n fs s m (the_directory fs d) d = Inr (room_for nm n fs d, d') \<and> fs_ok fs d' \<and>
     (if room_for nm n fs d then created nm n fs d d' else d' = d)"
proof -
  let ?N = "divRoundUp n (int SectorSize)" and ?free = "free_bits (the_map fs d)"
  have vs: "valid_sector s" using s(1) by (simp add: free_bits_map)
  have "finite ?free" by (rule bits.finite_free [OF fs_headers(5) [OF ok(1)]])
  then have cm: "int (card (free_bits m)) = int (card ?free) - 1"
    using s(1,5) card_Suc_Diff1 [of ?free s] by simp
  from Add_lookup [OF fs_okD(6) [OF ok(1)] ok(3) valid_int32 [OF vs]] k obtain dir where
    a: "Directory_Add nm s (the_directory fs d) = Inr (int (card (dom (names fs d))) < NumDirEntries, dir)"
    "directory_ok dir" "tableSize dir = NumDirEntries"
    "int (card (dom (names fs d))) < NumDirEntries \<longrightarrow> lookup dir = (names fs d)(fkey nm \<mapsto> s)"
    unfolding names_card by (auto simp: the_directory_def)
  note hdr0 = ok(2) [unfolded uninit_ok_def, THEN conjunct2, rule_format, of 0]
  note A = Allocate_ok [OF s(2) conjunct1 [OF hdr0] ok(4,5), unfolded Let_def]
  have room: "room_for nm n fs d \<longleftrightarrow> int (card (dom (names fs d))) < NumDirEntries \<and> \<not> int (card (free_bits m)) < ?N"
    using k cm by (auto simp: room_for_def)
  show ?thesis
  proof (cases "room_for nm n fs d")
    case False
    then have "Create_at u nm n fs s m (the_directory fs d) d = Inr (False, d)"
      using a(1) A by (auto simp: Create_at_def room)
    with False ok(1) show ?thesis by simp
  next
    case True
    then have r: "int (card (dom (names fs d))) < NumDirEntries" "\<not> int (card (free_bits m)) < ?N" using room by simp_all
    from A [unfolded if_not_P [OF r(2)]] obtain ss rest m2 where
      al: "Allocate m n (mem_header u 0) = Inr (True, \<lparr>numBytes = n, numSectors = ?N, dataSectors = ss @ rest\<rparr>, m2)"
      "int (length ss) = ?N" "distinct ss" "set ss \<subseteq> free_bits m" "length (ss @ rest) = NumDirect"
      "rest = drop (nat ?N) (dataSectors (mem_header u 0))" "wf_bitmap m2" "numBits m2 = numBits m"
      "marked m2 = marked m \<union> set ss" by blast
    let ?h = "\<lparr>numBytes = n, numSectors = int (length ss), dataSectors = ss @ rest\<rparr>"
    have fits: "header_fits ?h"
      by (rule fitting_header [OF al(2,5)]) (use al(4,6) s(5) hdr0 ok(4,5) in \<open>auto simp: free_bits_map dest: in_set_dropD\<close>)
    have lk: "lookup dir = (names fs d)(fkey nm \<mapsto> s)" using a(4) r(1) by simp
    have mk: "marked m2 = marked (the_map fs d) \<union> insert s (set ss)" "numBits m2 = NumSectors" using al(8,9) s(3,4) by auto
    have ss: "set ss \<subseteq> ?free - {s}" using al(4) s(5) by simp
    from create_commit [OF ok(1) s(1) ss al(3) refl fits ok(4) al(2) a(2,3) k lk al(7) mk(2,1)]
    obtain d1 d2 d3 where d3: "Hdr_WriteBack ?h s d = Inr d1"
      "Directory_WriteBack (mem_bytes u 0) (directoryFile fs) dir d1 = Inr d2"
      "BitMap_WriteBack (mem_bytes u 1) (freeMapFile fs) m2 d2 = Inr d3" "fs_ok fs d3" "the_map fs d3 = m2"
      "\<exists>c. int (length c) = n \<and> files fs d3 = (files fs d)(fkey nm \<mapsto> c)" "keeps fs d d3" by blast
    have "Create_at u nm n fs s m (the_directory fs d) d = Inr (True, d3)"
      using a(1) r(1) al(1) d3(1-3) by (simp add: Create_at_def flip: al(2))
    moreover have "int (card (free_bits m2)) = int (card ?free) - (?N + 1)"
    proof -
      have "free_bits m2 = free_bits m - set ss" using al(8,9) by (auto simp: free_bits_def)
      then have "card (free_bits m2) = card (free_bits m) - length ss"
        using al(3,4) by (simp add: card_Diff_subset distinct_card)
      then show ?thesis using r(2) cm al(2) by linarith
    qed
    ultimately show ?thesis using True d3(4-7) by (simp add: created_def)
  qed
qed

lemma Create_ok:
  assumes "fs_ok fs d" "uninit_ok u" "is_name nm" "0 \<le> n" "n \<le> int (NumDirect * SectorSize)"
  shows "\<exists>d'. Create u nm n fs d = Inr (room_for nm n fs d, d') \<and> fs_ok fs d' \<and>
     (if room_for nm n fs d then created nm n fs d d' else same_disk d d')"
proof (cases "names fs d (fkey nm)")
  case (Some s)
  from Create_existing [OF assms(1-3) Some] obtain d' where
    "Create u nm n fs d = Inr (False, d')" "same_disk d d'" by blast
  moreover have "\<not> room_for nm n fs d" using Some by (simp add: room_for_def)
  ultimately show ?thesis using same_disk_cong(5) [OF _ assms(1)] by simp
next
  case None
  from Create_new [OF assms(1-3) None] obtain d0 where d0: "same_disk d d0" and
    C: "Create u nm n fs d = bind_result (Find (the_map fs d)) (\<lambda>(sec, freeMap).
       if sec = - 1 then Inr (False, d0) else Create_at u nm n fs sec freeMap (the_directory fs d) d0)" by blast
  note ok0 = same_disk_cong(5) [OF d0 assms(1)] and eq0 = same_disk_cong(1-4,6) [OF d0]
  have rm: "room_for nm n fs d0 = room_for nm n fs d" "created nm n fs d0 d' = created nm n fs d d'" for d'
    by (simp_all add: room_for_def created_def keeps_def eq0)
  show ?thesis
  proof (cases "free_bits (the_map fs d) = {}")
    case True
    have "\<not> room_for nm n fs d"
      using divRoundUp_bounds(3) [OF assms(4), of "int SectorSize"] True by (simp add: room_for_def SectorSize_def)
    then show ?thesis using C Find_map(1) [OF assms(1) True] ok0 d0 by simp
  next
    case False
    from Find_map(2) [OF assms(1) False] obtain s m where s: "Find (the_map fs d) = Inr (s, m)"
      "s \<in> free_bits (the_map fs d)" "wf_bitmap m" "numBits m = NumSectors"
      "marked m = insert s (marked (the_map fs d))" "free_bits m = free_bits (the_map fs d) - {s}" by blast
    then have "s \<noteq> - 1" by (auto simp: free_bits_map valid_sector_def)
    with Create_at_ok [OF ok0 assms(2-5), unfolded eq0 rm, OF s(2-6) None] C s(1) d0 show ?thesis
      by (auto split: if_splits)
  qed
qed

section \<open>Opening, writing and removing files\<close>

lemma OpenFile_ctor_ok:
  assumes "idle_disk d" "valid_sector s"
  shows "\<exists>d'. OpenFile_ctor s d = Inr (\<lparr>hdr = the_header s d, seekPosition = 0\<rparr>, d') \<and> same_disk d d'"
  using store.rd_ok [OF assms] by (auto simp: OpenFile_ctor_def Hdr_FetchFrom_def the_header_def same_disk_def)

lemma Open_ok:
  assumes "fs_ok fs d" "uninit_ok u" "is_name nm"
  shows "\<exists>d'. Open u nm fs d =
     Inr (map_option (\<lambda>s. \<lparr>hdr = the_header s d, seekPosition = 0\<rparr>) (names fs d (fkey nm)), d') \<and> same_disk d d'"
proof -
  from fetch_directory [OF assms(1,2)] obtain d1 where
    d1: "Directory_FetchFrom (directoryFile fs) (Directory_ctor (mem_entries u) NumDirEntries) d = Inr (the_directory fs d, d1)"
    "same_disk d d1" by blast
  note L = Find_lookup [OF fs_okD(6) [OF assms(1)] assms(3)]
  show ?thesis
  proof (cases "names fs d (fkey nm)")
    case None
    then show ?thesis using d1 L by (simp add: Open_def)
  next
    case (Some s)
    note ns = name_sector [OF assms(1) Some]
    have "idle_disk d1" "valid_sector s" using d1(2) ns(2) by (simp_all add: same_disk_def good_head_def)
    from OpenFile_ctor_ok [OF this] obtain d2 where
      "OpenFile_ctor s d1 = Inr (\<lparr>hdr = the_header s d, seekPosition = 0\<rparr>, d2)" "same_disk d1 d2"
      unfolding same_disk_cong(1) [OF d1(2)] by blast
    with d1 L Some ns(3) same_disk_trans [OF d1(2)] show ?thesis by (auto simp: Open_def)
  qed
qed

lemma inj_map: "inj_on m (dom m) \<Longrightarrow> m x = Some s \<Longrightarrow> m y = Some s \<Longrightarrow> x = y"
  by (metis domI inj_onD)

text \<open>Writing to an open file changes its contents and no other file's.\<close>

lemma write_file:
  assumes ok: "fs_ok fs d" "names fs d k = Some s" "0 \<le> position" "nBytes \<le> int (length from0)"
  defines "F \<equiv> file_bytes (the_header s d) d"
  defines "bs \<equiv> take (length (read_at (nat position) (nat nBytes) F)) from0"
  shows "\<exists>d'. WriteAt junk from0 nBytes position (the_header s d) d = Inr (int (length bs), d') \<and> fs_ok fs d' \<and>
     names fs d' = names fs d \<and> the_map fs d' = the_map fs d \<and> keeps fs d d' \<and>
     files fs d' = (files fs d)(k \<mapsto> take (nat position) F @ bs @ drop (nat position + length bs) F)"
proof -
  note D = fs_okD [OF ok(1)] and ns = name_sector [OF ok(1,2)]
  have "header_ok (the_header s d)" using ns(2) by (simp add: good_head_def)
  from WriteAt_ok [OF this D(1) ok(3,4), of junk, folded F_def, folded bs_def] obtain d' where
    d': "WriteAt junk from0 nBytes position (the_header s d) d = Inr (int (length bs), d')" "idle_disk d'"
    "file_bytes (the_header s d) d' = take (nat position) F @ bs @ drop (nat position + length bs) F"
    "\<forall>x. valid_sector x \<longrightarrow> x \<notin> set (data_sectors (the_header s d)) \<longrightarrow> sector_data x d' = sector_data x d" by blast
  have C: "\<forall>x. valid_sector x \<longrightarrow> x \<notin> {} \<longrightarrow> (\<forall>w \<in> {s}. x \<notin> set (data_sectors (the_header w d))) \<longrightarrow>
      sector_data x d' = sector_data x d" using d'(4) by blast
  have W: "{s} \<subseteq> heads fs d" "{} \<inter> marked (the_map fs d) = {}" using ns(1) by simp_all
  note fr = frame [OF D(8) W _ C]
  have h: "the_header a d' = the_header a d" if "a \<in> heads fs d" for a using fr(1) [OF that] .
  have sys: "FreeMapSector \<in> heads fs d" "DirectorySector \<in> heads fs d" by (simp_all add: heads_def)
  have m: "the_map fs d' = the_map fs d" using fr(2) [OF sys(1)] ns(4) D(2) by (simp add: the_map_def)
  have n: "the_directory fs d' = the_directory fs d" using fr(2) [OF sys(2)] ns(5) D(3) by (simp add: the_directory_def)
  have hd: "heads fs d' = heads fs d" by (simp add: heads_def n)
  have "partitioned (heads fs d) d' (marked (the_map fs d))" using D(8) partitioned_cong [of "heads fs d" d' d] h by blast
  then have "fs_ok fs d'" using ok(1) d'(2) sys h by (auto simp: fs_ok_def m n hd)
  moreover have "files fs d' = (files fs d)(k \<mapsto> file_bytes (the_header s d) d')"
  proof
    fix k'
    show "files fs d' k' = ((files fs d)(k \<mapsto> file_bytes (the_header s d) d')) k'"
    proof (cases "names fs d k'")
      case (Some a)
      have a: "a \<in> heads fs d" using name_sector(1) [OF ok(1) Some] .
      have "a = s \<longleftrightarrow> k' = k" using inj_map [OF D(7)] ok(2) Some by auto
      with fr(2) [OF a] h [OF a] Some ok(2) show ?thesis by (auto simp: files_def n)
    qed (use ok(2) in \<open>auto simp: files_def n\<close>)
  qed
  moreover have "keeps fs d d'" using h by (auto simp: keeps_def n heads_def ran_def)
  ultimately show ?thesis using d'(1,3) m n by auto
qed

lemma ran_remove:
  assumes "inj_on m (dom m)" "m k = Some s"
  shows "ran (m(k := None)) = ran m - {s}"
proof (rule set_eqI)
  fix a
  have "a \<in> ran (m(k := None)) \<longleftrightarrow> (\<exists>x. x \<noteq> k \<and> m x = Some a)" by (auto simp: ran_def)
  also have "\<dots> \<longleftrightarrow> (\<exists>x. m x = Some a) \<and> a \<noteq> s" using inj_map [OF assms(1)] assms(2) by (metis option.inject)
  also have "\<dots> \<longleftrightarrow> a \<in> ran m - {s}" by (auto simp: ran_def)
  finally show "a \<in> ran (m(k := None)) \<longleftrightarrow> a \<in> ran m - {s}" .
qed

lemma inj_remove: "inj_on m (dom m) \<Longrightarrow> inj_on (m(k := None)) (dom (m(k := None)))"
  by (auto simp: inj_on_def dom_def)

text \<open>The last step of \<open>FileSystem::Remove\<close>.\<close>

lemma remove_commit:
  assumes ok: "fs_ok fs d" "names fs d k = Some s"
    and dir: "directory_ok dir" "tableSize dir = NumDirEntries" "lookup dir = (names fs d)(k := None)"
    and m: "wf_bitmap m" "numBits m = NumSectors" "marked m = marked (the_map fs d) - owned s d"
  shows "\<exists>d1 d2. BitMap_WriteBack j1 (freeMapFile fs) m d = Inr d1 \<and>
     Directory_WriteBack j2 (directoryFile fs) dir d1 = Inr d2 \<and> fs_ok fs d2 \<and> the_map fs d2 = m \<and>
     files fs d2 = (files fs d)(k := None)"
proof -
  note D = fs_okD [OF ok(1)] and H = fs_headers [OF ok(1)] and ns = name_sector [OF ok]
  have P: "partitioned (heads fs d - {s}) d (marked m)" unfolding m(3) by (rule partitioned_remove [OF D(8) ns(1)])
  have rn: "ran (lookup dir) = ran (names fs d) - {s}" unfolding dir(3) by (rule ran_remove [OF D(7) ok(2)])
  have hd: "heads fs d - {s} = {FreeMapSector, DirectorySector} \<union> ran (lookup dir)"
    using ns(4,5) by (auto simp: heads_def rn)
  have L: "FreeMapSector \<notin> ran (lookup dir)" "DirectorySector \<notin> ran (lookup dir)" using D(11,12) by (auto simp: rn)
  have inj: "inj_on (lookup dir) (dom (lookup dir))" unfolding dir(3) by (rule inj_remove [OF D(7)])
  have F: "flushable fs m dir" using H D(4,5) dir m system_disjoint [OF ok(1)] by (simp add: flushable_def)
  from flush_both(2) [OF F D(1), of j1 j2] obtain d1 d2 where d2: "BitMap_WriteBack j1 (freeMapFile fs) m d = Inr d1"
    "Directory_WriteBack j2 (directoryFile fs) dir d1 = Inr d2" "flushed fs m dir d d2" by blast
  note R = flushed_ok [OF P hd D(2,3) L inj F d2(3)]
  have "files fs d2 = (files fs d)(k := None)"
  proof
    fix k'
    show "files fs d2 k' = ((files fs d)(k := None)) k'"
    proof (cases "lookup dir k'")
      case (Some a)
      then have "a \<in> ran (lookup dir)" by (auto simp: ran_def)
      with R(6) Some show ?thesis by (auto simp: files_def R(2) dir(3) split: if_splits)
    qed (auto simp: files_def R(2) dir(3) split: if_splits)
  qed
  with d2(1,2) R(1,3) show ?thesis by blast
qed

lemma Remove_ok:
  assumes "fs_ok fs d" "uninit_ok u" "is_name nm"
  shows "\<exists>d'. FileSystem_Remove u nm fs d = Inr (names fs d (fkey nm) \<noteq> None, d') \<and> fs_ok fs d' \<and>
     (case names fs d (fkey nm) of None \<Rightarrow> same_disk d d'
      | Some s \<Rightarrow> files fs d' = (files fs d)(fkey nm := None) \<and>
          marked (the_map fs d') = marked (the_map fs d) - owned s d)"
proof -
  from fetch_directory [OF assms(1,2)] obtain d1 where
    d1: "Directory_FetchFrom (directoryFile fs) (Directory_ctor (mem_entries u) NumDirEntries) d = Inr (the_directory fs d, d1)"
    "same_disk d d1" by blast
  note L = Find_lookup [OF fs_okD(6) [OF assms(1)] assms(3)] and ok1 = same_disk_cong(5) [OF d1(2) assms(1)]
  show ?thesis
  proof (cases "names fs d (fkey nm)")
    case None
    then show ?thesis using d1 L ok1 by (simp add: FileSystem_Remove_def)
  next
    case (Some s)
    note ns = name_sector [OF assms(1) Some]
    note g = ns(2) [unfolded good_head_def header_ok_def]
    have i1: "idle_disk d1" "valid_sector s" using d1(2) g by (simp_all add: same_disk_def)
    from store.rd_ok [OF i1] obtain d2 where
      r: "Hdr_FetchFrom s d1 = Inr (the_header s d1, d2)" "same_disk d1 d2"
      by (auto simp: Hdr_FetchFrom_def the_header_def same_disk_def)
    have sd2: "same_disk d d2" by (rule same_disk_trans [OF d1(2) r(2)])
    from fetch_map [OF same_disk_cong(5) [OF sd2 assms(1)], of u] obtain m0 d3 where
      m0: "BitMap_ctor (mem_words u) NumSectors = Inr m0" "BitMap_FetchFrom (freeMapFile fs) m0 d2 = Inr (the_map fs d, d3)"
      "same_disk d2 d3" unfolding same_disk_cong(3) [OF sd2] by blast
    have sd3: "same_disk d d3" by (rule same_disk_trans [OF sd2 m0(3)])
    note eq3 = same_disk_cong(1-4,6) [OF sd3] and ok3 = same_disk_cong(5) [OF sd3 assms(1)]
    have nb: "numBits (the_map fs d) = NumSectors" by (simp add: the_map_def)
    have ow: "owned s d \<subseteq> marked (the_map fs d)" using fs_okD(8) [OF assms(1)] ns(1) by (auto simp: partitioned_def)
    let ?h = "the_header s d"
    have "0 \<le> numSectors ?h" using length_data_sectors [of ?h] ns(2) by (simp add: good_head_def flip: length_data_sectors)
    then have "\<exists>m1. Deallocate ?h (the_map fs d) = Inr m1 \<and> wf_bitmap m1 \<and> numBits m1 = numBits (the_map fs d) \<and>
        marked m1 = marked (the_map fs d) - set (data_sectors ?h)"
      using Deallocate_ok [OF fs_headers(5) [OF assms(1)], of ?h] g ow by (auto simp: data_sectors_def owned_def)
    then obtain m1 where m1: "Deallocate ?h (the_map fs d) = Inr m1" "wf_bitmap m1" "numBits m1 = NumSectors"
      "marked m1 = marked (the_map fs d) - set (data_sectors ?h)" by (auto simp: nb)
    have "0 \<le> s" "s < numBits m1" using i1(2) m1(3) by (simp_all add: valid_sector_def)
    from Clear_ok [OF m1(2) this] obtain m2 where m2: "Clear s m1 = Inr m2" "wf_bitmap m2" "numBits m2 = NumSectors"
      "marked m2 = marked (the_map fs d3) - owned s d3" using m1(3,4) by (auto simp: owned_def eq3)
    from Remove_lookup [OF fs_okD(6) [OF assms(1)] assms(3)] Some obtain dir where
      a: "Directory_Remove nm (the_directory fs d) = Inr (True, dir)" "directory_ok dir" "tableSize dir = NumDirEntries"
      "lookup dir = (names fs d3)(fkey nm := None)" by (auto simp: the_directory_def eq3)
    from remove_commit [OF ok3, of "fkey nm" s dir m2 "mem_bytes u 0" "mem_bytes u 1"] a m2 Some
    obtain d4 d5 where "BitMap_WriteBack (mem_bytes u 0) (freeMapFile fs) m2 d3 = Inr d4"
      "Directory_WriteBack (mem_bytes u 1) (directoryFile fs) dir d4 = Inr d5" "fs_ok fs d5" "the_map fs d5 = m2"
      "files fs d5 = (files fs d)(fkey nm := None)" by (auto simp: eq3)
    with d1(1) L Some ns(3) r(1) m0 m1(1) m2 a(1) show ?thesis
      by (simp add: FileSystem_Remove_def same_disk_cong(1) [OF d1(2)] eq3 owned_def)
  qed
qed

section \<open>Formatting and mounting\<close>

lemma Allocate_sectors:
  assumes "wf_bitmap m" "numBits m = NumSectors" "uninit_ok u" "0 \<le> n" "n \<le> int (NumDirect * SectorSize)"
    and "divRoundUp n (int SectorSize) \<le> int (card (free_bits m))"
  shows "\<exists>ss h m'. Allocate m n (mem_header u i) = Inr (True, h, m') \<and> header_fits h \<and> header_ok h \<and>
     numBytes h = n \<and> data_sectors h = ss \<and> int (length ss) = divRoundUp n (int SectorSize) \<and> set ss \<subseteq> free_bits m \<and>
     wf_bitmap m' \<and> numBits m' = NumSectors \<and> marked m' = marked m \<union> set ss \<and> distinct ss"
proof -
  note hdr0 = assms(3) [unfolded uninit_ok_def, THEN conjunct2, rule_format, of i]
  have r: "\<not> int (card (free_bits m)) < divRoundUp n (int SectorSize)" using assms(6) by simp
  from Allocate_ok [OF assms(1) conjunct1 [OF hdr0] assms(4,5), unfolded Let_def if_not_P [OF r]] obtain ss rest m' where
    al: "Allocate m n (mem_header u i) =
        Inr (True, \<lparr>numBytes = n, numSectors = divRoundUp n (int SectorSize), dataSectors = ss @ rest\<rparr>, m')"
    "int (length ss) = divRoundUp n (int SectorSize)" "distinct ss" "set ss \<subseteq> free_bits m" "length (ss @ rest) = NumDirect"
    "rest = drop (nat (divRoundUp n (int SectorSize))) (dataSectors (mem_header u i))" "wf_bitmap m'" "numBits m' = numBits m"
    "marked m' = marked m \<union> set ss" by blast
  let ?h = "\<lparr>numBytes = n, numSectors = int (length ss), dataSectors = ss @ rest\<rparr>"
  have v: "\<forall>x \<in> set ss. valid_sector x" using al(4) assms(2) by (auto simp: free_bits_def valid_sector_def)
  have "header_fits ?h"
    by (rule fitting_header [OF al(2,5) v]) (use al(6) hdr0 assms(4,5) in \<open>auto dest: in_set_dropD\<close>)
  moreover have "data_sectors ?h = ss" by (simp add: data_sectors_def)
  moreover from this have "header_ok ?h" unfolding header_ok_def using assms(4) al(2,3,5) v by simp
  ultimately show ?thesis using al assms(2)
    by (intro exI [of _ ss] exI [of _ ?h] exI [of _ m']) simp
qed

text \<open>The bitmap with the sectors of the two headers marked.\<close>

lemma format_map:
  "\<exists>m m1 m2. BitMap_ctor junk NumSectors = Inr m \<and> Mark FreeMapSector m = Inr m1 \<and> Mark DirectorySector m1 = Inr m2 \<and>
     wf_bitmap m2 \<and> numBits m2 = NumSectors \<and> marked m2 = {FreeMapSector, DirectorySector}"
proof -
  have N: "0 \<le> NumSectors" "0 \<le> FreeMapSector" "FreeMapSector < NumSectors" "0 \<le> DirectorySector" "DirectorySector < NumSectors"
    by (simp_all add: fs_numbers FreeMapSector_def DirectorySector_def)
  from BitMap_ctor_ok [OF N(1), of junk] obtain m where
    m: "BitMap_ctor junk NumSectors = Inr m" "wf_bitmap m" "numBits m = NumSectors" "marked m = {}" by blast
  from Mark_ok [OF m(2) N(2)] m(3,4) N(3) obtain m1 where
    m1: "Mark FreeMapSector m = Inr m1" "wf_bitmap m1" "numBits m1 = NumSectors" "marked m1 = {FreeMapSector}" by auto
  from Mark_ok [OF m1(2) N(4)] m1(3,4) N(5) obtain m2 where
    "Mark DirectorySector m1 = Inr m2" "wf_bitmap m2" "numBits m2 = NumSectors"
    "marked m2 = {FreeMapSector, DirectorySector}" by auto
  with m m1 show ?thesis by blast
qed

lemma write_header:
  assumes "idle_disk d" "valid_sector s" "header_fits h"
  shows "\<exists>d'. Hdr_WriteBack h s d = Inr d' \<and> idle_disk d' \<and> the_header s d' = h \<and>
     (\<forall>s'. valid_sector s' \<longrightarrow> s' \<noteq> s \<longrightarrow> the_header s' d' = the_header s' d)"
  using store.wr_ok [OF assms(1,2) length_header_bytes [OF assms(3)]] bytes_header_bytes [OF assms(3)]
  by (auto simp: Hdr_WriteBack_def the_header_def)

lemma format_ok:
  assumes "idle_disk d" "uninit_ok u"
  shows "\<exists>fs d'. FileSystem_ctor u True d = Inr (fs, d') \<and> fs_ok fs d' \<and> files fs d' = Map.empty \<and>
     card (marked (the_map fs d')) = 5"
proof -
  let ?dir = "Directory_ctor (mem_entries u) NumDirEntries"
  have N: "FreeMapFileSize = 128" "DirectoryFileSize = 200" "divRoundUp 128 (int SectorSize) = 1"
    "divRoundUp 200 (int SectorSize) = 2" "(128 :: int) \<le> int (NumDirect * SectorSize)" "(200 :: int) \<le> int (NumDirect * SectorSize)"
    by (simp_all add: fs_numbers divRoundUp_def SectorSize_def NumDirect_def)
  have V: "valid_sector FreeMapSector" "valid_sector DirectorySector" "FreeMapSector \<noteq> DirectorySector"
    by (simp_all add: valid_sector_def fs_numbers FreeMapSector_def DirectorySector_def)
  from format_map [of "mem_words u"] obtain m m1 m2 where m2: "BitMap_ctor (mem_words u) NumSectors = Inr m"
    "Mark FreeMapSector m = Inr m1" "Mark DirectorySector m1 = Inr m2" "wf_bitmap m2" "numBits m2 = NumSectors"
    "marked m2 = {FreeMapSector, DirectorySector}" by blast
  have c2: "int (card (free_bits m2)) = 1022" using card_free_bits [OF m2(4)] m2(5,6) V(3) by (simp add: fs_numbers)
  from Allocate_sectors [OF m2(4,5) assms(2), of 128 0] N c2 obtain ss1 h1 m3 where
    a1: "Allocate m2 128 (mem_header u 0) = Inr (True, h1, m3)" "header_fits h1" "header_ok h1" "numBytes h1 = 128"
    "data_sectors h1 = ss1" "length ss1 = 1" "set ss1 \<subseteq> free_bits m2" "wf_bitmap m3" "numBits m3 = NumSectors"
    "marked m3 = marked m2 \<union> set ss1" "distinct ss1" by auto
  have d1: "set ss1 \<inter> marked m2 = {}" using a1(7) by (auto simp: free_bits_def)
  have k3: "card (marked m3) = 3" using d1 a1(6,11) V(3) unfolding a1(10) m2(6)
    by (subst card_Un_disjoint) (auto simp: distinct_card)
  have c3: "int (card (free_bits m3)) = 1021" using card_free_bits [OF a1(8)] a1(9) k3 by (simp add: fs_numbers)
  from Allocate_sectors [OF a1(8,9) assms(2), of 200 1] N c3 obtain ss2 h2 m4 where
    a2: "Allocate m3 200 (mem_header u 1) = Inr (True, h2, m4)" "header_fits h2" "header_ok h2" "numBytes h2 = 200"
    "data_sectors h2 = ss2" "length ss2 = 2" "set ss2 \<subseteq> free_bits m3" "wf_bitmap m4" "numBits m4 = NumSectors"
    "marked m4 = marked m3 \<union> set ss2" "distinct ss2" by auto
  have d2: "set ss2 \<inter> marked m3 = {}" using a2(7) by (auto simp: free_bits_def)
  have k4: "card (marked m4) = 5" using d2 a2(6,11) k3 unfolding a2(10)
    by (subst card_Un_disjoint) (auto simp: distinct_card)
  from write_header [OF assms(1) V(1) a1(2)] obtain e1 where e1: "Hdr_WriteBack h1 FreeMapSector d = Inr e1" "idle_disk e1"
    "the_header FreeMapSector e1 = h1" by blast
  from write_header [OF e1(2) V(2) a2(2)] V e1(3) obtain e2 where e2: "Hdr_WriteBack h2 DirectorySector e1 = Inr e2"
    "idle_disk e2" "the_header DirectorySector e2 = h2" "the_header FreeMapSector e2 = h1" by metis
  from OpenFile_ctor_ok [OF e2(2) V(1)] e2(4) obtain e3 where
    e3: "OpenFile_ctor FreeMapSector e2 = Inr (\<lparr>hdr = h1, seekPosition = 0\<rparr>, e3)" "same_disk e2 e3" by auto
  note c3 = same_disk_cong(1) [OF e3(2)]
  have i3: "idle_disk e3" using e3(2) by (simp add: same_disk_def)
  from OpenFile_ctor_ok [OF i3 V(2)] e2(3) obtain e4 where
    e4: "OpenFile_ctor DirectorySector e3 = Inr (\<lparr>hdr = h2, seekPosition = 0\<rparr>, e4)" "same_disk e3 e4" by (auto simp: c3)
  note c4 = same_disk_cong(1) [OF e4(2)]
  let ?fs = "\<lparr>freeMapFile = \<lparr>hdr = h1, seekPosition = 0\<rparr>, directoryFile = \<lparr>hdr = h2, seekPosition = 0\<rparr>\<rparr>"
  have D: "directory_ok ?dir" "lookup ?dir = Map.empty" "tableSize ?dir = NumDirEntries"
    using Directory_ctor_ok [of "mem_entries u" NumDirEntries] assms(2) by (simp_all add: uninit_ok_def NumDirEntries_def)
  have F: "flushable ?fs m4 ?dir" using a1 a2 d2 D by (auto simp: flushable_def)
  have i4: "idle_disk e4" using e4(2) by (simp add: same_disk_def)
  from flush_both(2) [OF F i4, of "mem_bytes u 0" "mem_bytes u 1"] obtain e5 e6 where
    e6: "BitMap_WriteBack (mem_bytes u 0) (freeMapFile ?fs) m4 e4 = Inr e5"
    "Directory_WriteBack (mem_bytes u 1) (directoryFile ?fs) ?dir e5 = Inr e6" "flushed ?fs m4 ?dir e4 e6" by blast
  have hh: "the_header FreeMapSector e4 = h1" "the_header DirectorySector e4 = h2" using e2(3,4) c3 c4 by simp_all
  have P: "partitioned {FreeMapSector, DirectorySector} e4 (marked m4)"
    using V a1(3,5) a2(3,5) d1 d2 unfolding a2(10) a1(10) m2(6)
    by (auto simp: partitioned_def good_head_def owned_def hh)
  have "fs_ok ?fs e6" "the_directory ?fs e6 = ?dir" "the_map ?fs e6 = m4"
    by (rule flushed_ok [OF P _ _ _ _ _ _ F e6(3)]; simp add: D(2) hh)+
  moreover from this(2) have "files ?fs e6 = Map.empty" by (simp add: files_def fun_eq_iff D(2))
  moreover have "FileSystem_ctor u True d = Inr (?fs, e6)"
    using m2(1-3) a1(1) a2(1) e1(1) e2(1) e3(1) e4(1) e6(1,2) by (simp add: FileSystem_ctor_def N(1,2) Let_def)
  ultimately show ?thesis using k4 by blast
qed

text \<open>Opening a disk that has been formatted before, as a later run of Nachos does.\<close>

lemma mount_ok:
  assumes "fs_ok fs d"
  shows "\<exists>fs' d'. FileSystem_ctor u False d = Inr (fs', d') \<and> fs_ok fs' d' \<and> files fs' d' = files fs d"
proof -
  note D = fs_okD [OF assms]
  have v: "valid_sector FreeMapSector" "valid_sector DirectorySector" using D(9,10) by (simp_all add: good_head_def)
  from OpenFile_ctor_ok [OF D(1) v(1)] obtain d1 where
    d1: "OpenFile_ctor FreeMapSector d = Inr (\<lparr>hdr = hdr (freeMapFile fs), seekPosition = 0\<rparr>, d1)" "same_disk d d1"
    unfolding D(2) by blast
  then have "idle_disk d1" by (simp add: same_disk_def)
  from OpenFile_ctor_ok [OF this v(2)] obtain d2 where
    d2: "OpenFile_ctor DirectorySector d1 = Inr (\<lparr>hdr = hdr (directoryFile fs), seekPosition = 0\<rparr>, d2)" "same_disk d1 d2"
    unfolding D(3) same_disk_cong(1) [OF d1(2)] by blast
  note sd = same_disk_trans [OF d1(2) d2(2)]
  let ?fs = "\<lparr>freeMapFile = \<lparr>hdr = hdr (freeMapFile fs), seekPosition = 0\<rparr>,
      directoryFile = \<lparr>hdr = hdr (directoryFile fs), seekPosition = 0\<rparr>\<rparr>"
  have eq: "the_map ?fs d2 = the_map fs d2" "the_directory ?fs d2 = the_directory fs d2"
    by (simp_all add: the_map_def the_directory_def)
  then have h: "heads ?fs d2 = heads fs d2" and f: "files ?fs d2 = files fs d2" by (simp_all add: heads_def files_def fun_eq_iff)
  have "fs_ok ?fs d2 \<longleftrightarrow> fs_ok fs d2" by (simp add: fs_ok_def eq h)
  then have "fs_ok ?fs d2" "files ?fs d2 = files fs d" using same_disk_cong(5,6) [OF sd] assms f by simp_all
  moreover have "FileSystem_ctor u False d = Inr (?fs, d2)" using d1(1) d2(1) by (simp add: FileSystem_ctor_def)
  ultimately show ?thesis by blast
qed

end
