(* ===== verification/File_System_Properties.thy ===== *)
theory File_System_Properties
  imports File_System
begin

text \<open>
  What the file system promises its clients. \<open>fs_spec\<close> is an abstract file system: a map from
  names to contents and a number of free sectors. The properties show that a formatted disk is
  an empty abstract file system, that every sequence of calls on a consistent disk goes through
  and is a sequence of steps of the abstract one, and that a disk can be mounted again.
\<close>

section \<open>Calls\<close>

datatype fs_call = CREATE "byte list" int | REMOVE "byte list" | WRITE "byte list" int "byte list" | READ "byte list" int int

datatype fs_reply = DONE bool | COUNT int | BYTES "byte list" | NO_FILE

text \<open>A client reads and writes through a file it has opened.\<close>

fun fs_exec :: "uninit \<Rightarrow> fs_call \<Rightarrow> FileSystem \<Rightarrow> Disk \<Rightarrow> (fs_reply \<times> Disk) result" where
  "fs_exec u (CREATE nm n) fs d = bind_result (Create u nm n fs d) (\<lambda>(b, d). Inr (DONE b, d))"
| "fs_exec u (REMOVE nm) fs d = bind_result (FileSystem_Remove u nm fs d) (\<lambda>(b, d). Inr (DONE b, d))"
| "fs_exec u (WRITE nm position bs) fs d =
     bind_result (Open u nm fs d) (\<lambda>(f, d). case f of
       None \<Rightarrow> Inr (NO_FILE, d)
     | Some f \<Rightarrow> bind_result (WriteAt (mem_bytes u 0) bs (int (length bs)) position (hdr f) d) (\<lambda>(n, d). Inr (COUNT n, d)))"
| "fs_exec u (READ nm position n) fs d =
     bind_result (Open u nm fs d) (\<lambda>(f, d). case f of
       None \<Rightarrow> Inr (NO_FILE, d)
     | Some f \<Rightarrow> bind_result (ReadAt n position (hdr f) d) (\<lambda>(bs, d). Inr (BYTES bs, d)))"

fun fs_run :: "(uninit \<times> fs_call) list \<Rightarrow> FileSystem \<Rightarrow> Disk \<Rightarrow> (fs_reply list \<times> Disk) result" where
  "fs_run [] fs d = Inr ([], d)"
| "fs_run ((u, c) # cs) fs d =
     bind_result (fs_exec u c fs d) (\<lambda>(r, d). bind_result (fs_run cs fs d) (\<lambda>(rs, d). Inr (r # rs, d)))"

fun call_ok :: "fs_call \<Rightarrow> bool" where
  "call_ok (CREATE nm n) \<longleftrightarrow> is_name nm \<and> 0 \<le> n \<and> n \<le> int (NumDirect * SectorSize)"
| "call_ok (REMOVE nm) \<longleftrightarrow> is_name nm"
| "call_ok (WRITE nm position bs) \<longleftrightarrow> is_name nm \<and> 0 \<le> position"
| "call_ok (READ nm position n) \<longleftrightarrow> is_name nm \<and> 0 \<le> position"

section \<open>The abstract file system\<close>

type_synonym fs_state = "(byte list \<rightharpoonup> byte list) \<times> int"

definition sectors_for :: "int \<Rightarrow> int" where
  "sectors_for n = divRoundUp n (int SectorSize) + 1"

definition fits :: "byte list \<Rightarrow> int \<Rightarrow> fs_state \<Rightarrow> bool" where
  "fits nm n st \<longleftrightarrow> fst st (fkey nm) = None \<and> int (card (dom (fst st))) < NumDirEntries \<and> sectors_for n \<le> snd st"

text \<open>Overwriting a part of a file, cut off at its end.\<close>

definition overwrite :: "nat \<Rightarrow> byte list \<Rightarrow> byte list \<Rightarrow> byte list" where
  "overwrite p bs c = (let k = min (length bs) (length c - p) in take p c @ take k bs @ drop (p + k) c)"

inductive fs_spec :: "fs_call \<Rightarrow> fs_state \<Rightarrow> fs_reply \<Rightarrow> fs_state \<Rightarrow> bool" where
  file_created: "fits nm n (fm, free) \<Longrightarrow> int (length c) = n \<Longrightarrow>
     fs_spec (CREATE nm n) (fm, free) (DONE True) (fm(fkey nm \<mapsto> c), free - sectors_for n)"
| create_fails: "\<not> fits nm n (fm, free) \<Longrightarrow> fs_spec (CREATE nm n) (fm, free) (DONE False) (fm, free)"
| file_removed: "fm (fkey nm) = Some c \<Longrightarrow>
     fs_spec (REMOVE nm) (fm, free) (DONE True) (fm(fkey nm := None), free + sectors_for (int (length c)))"
| remove_fails: "fm (fkey nm) = None \<Longrightarrow> fs_spec (REMOVE nm) (fm, free) (DONE False) (fm, free)"
| file_written: "fm (fkey nm) = Some c \<Longrightarrow>
     fs_spec (WRITE nm position bs) (fm, free) (COUNT (int (min (length bs) (length c - nat position))))
       (fm(fkey nm \<mapsto> overwrite (nat position) bs c), free)"
| write_fails: "fm (fkey nm) = None \<Longrightarrow> fs_spec (WRITE nm position bs) (fm, free) NO_FILE (fm, free)"
| file_read: "fm (fkey nm) = Some c \<Longrightarrow>
     fs_spec (READ nm position n) (fm, free) (BYTES (take (nat n) (drop (nat position) c))) (fm, free)"
| read_fails: "fm (fkey nm) = None \<Longrightarrow> fs_spec (READ nm position n) (fm, free) NO_FILE (fm, free)"

inductive fs_specs :: "fs_call list \<Rightarrow> fs_state \<Rightarrow> fs_reply list \<Rightarrow> fs_state \<Rightarrow> bool" where
  none: "fs_specs [] st [] st"
| more: "fs_spec c st r st' \<Longrightarrow> fs_specs cs st' rs st'' \<Longrightarrow> fs_specs (c # cs) st (r # rs) st''"

inductive_cases fs_specs_ConsE: "fs_specs (c # cs) st rs st'"
inductive_cases fs_specs_NilE: "fs_specs [] st rs st'"

definition abs_fs :: "FileSystem \<Rightarrow> Disk \<Rightarrow> fs_state" where
  "abs_fs fs d = (files fs d, int (card (free_bits (the_map fs d))))"

section \<open>Every call is a step of the abstract file system\<close>

lemma dom_files: "dom (files fs d) = dom (names fs d)"
  by (auto simp: files_def)

lemma abs_same: "same_disk d d' \<Longrightarrow> abs_fs fs d' = abs_fs fs d"
  by (simp add: abs_fs_def same_disk_cong)

lemma fits_room: "fits nm n (abs_fs fs d) \<longleftrightarrow> room_for nm n fs d"
  by (simp add: fits_def room_for_def sectors_for_def abs_fs_def dom_files) (simp add: files_def)

lemma create_refines:
  assumes "fs_ok fs d" "uninit_ok u" "is_name nm" "0 \<le> n" "n \<le> int (NumDirect * SectorSize)"
  shows "\<exists>r d'. fs_exec u (CREATE nm n) fs d = Inr (r, d') \<and> fs_ok fs d' \<and>
     fs_spec (CREATE nm n) (abs_fs fs d) r (abs_fs fs d')"
proof -
  from Create_ok [OF assms] obtain d' where d': "Create u nm n fs d = Inr (room_for nm n fs d, d')" "fs_ok fs d'"
    "if room_for nm n fs d then created nm n fs d d' else same_disk d d'" by blast
  have "fs_spec (CREATE nm n) (abs_fs fs d) (DONE (room_for nm n fs d)) (abs_fs fs d')"
  proof (cases "room_for nm n fs d")
    case True
    with d'(3) obtain c where c: "int (length c) = n" "files fs d' = (files fs d)(fkey nm \<mapsto> c)"
      "snd (abs_fs fs d') = snd (abs_fs fs d) - sectors_for n" by (auto simp: created_def abs_fs_def sectors_for_def)
    then have e: "abs_fs fs d' = ((files fs d)(fkey nm \<mapsto> c), snd (abs_fs fs d) - sectors_for n)"
      by (simp add: abs_fs_def)
    have p: "abs_fs fs d = (files fs d, snd (abs_fs fs d))" by (simp add: abs_fs_def)
    show ?thesis unfolding e using fs_spec.file_created [of nm n "files fs d" "snd (abs_fs fs d)" c] True c(1) p fits_room by metis
  next
    case False
    then show ?thesis using fs_spec.create_fails [of nm n "files fs d" "snd (abs_fs fs d)"] abs_same [of d d' fs] d'(3) fits_room [of nm n fs d]
      by (simp add: abs_fs_def)
  qed
  with d'(1,2) show ?thesis by auto
qed

lemma sectors_owned:
  assumes "fs_ok fs d" "names fs d k = Some s"
  shows "int (card (owned s d)) = sectors_for (int (length (file_bytes (the_header s d) d)))"
proof -
  have g: "header_ok (the_header s d)" "s \<notin> set (data_sectors (the_header s d))"
    using name_sector(2) [OF assms] by (simp_all add: good_head_def)
  then have "card (owned s d) = length (data_sectors (the_header s d)) + 1"
    by (simp add: owned_def header_ok_def distinct_card)
  then show ?thesis
    using length_data_sectors [OF g(1)] length_file_bytes [OF g(1) fs_okD(1) [OF assms(1)]] g(1)
    by (simp add: sectors_for_def header_ok_def)
qed

lemma numBits_map: "numBits (the_map fs d) = NumSectors"
  by (simp add: the_map_def)

lemma remove_refines:
  assumes "fs_ok fs d" "uninit_ok u" "is_name nm"
  shows "\<exists>r d'. fs_exec u (REMOVE nm) fs d = Inr (r, d') \<and> fs_ok fs d' \<and>
     fs_spec (REMOVE nm) (abs_fs fs d) r (abs_fs fs d')"
proof (cases "names fs d (fkey nm)")
  case None
  with Remove_ok [OF assms] obtain d' where "FileSystem_Remove u nm fs d = Inr (False, d')" "fs_ok fs d'" "same_disk d d'"
    by auto
  then show ?thesis using None abs_same [of d d' fs] fs_spec.remove_fails [of "files fs d" nm "snd (abs_fs fs d)"]
    by (auto simp: abs_fs_def files_def)
next
  case (Some s)
  with Remove_ok [OF assms] obtain d' where d': "FileSystem_Remove u nm fs d = Inr (True, d')" "fs_ok fs d'"
    "files fs d' = (files fs d)(fkey nm := None)" "marked (the_map fs d') = marked (the_map fs d) - owned s d" by auto
  let ?c = "file_bytes (the_header s d) d"
  have ow: "owned s d \<subseteq> marked (the_map fs d)"
    using fs_okD(8) [OF assms(1)] name_sector(1) [OF assms(1) Some] by (auto simp: partitioned_def)
  have "int (card (free_bits (the_map fs d'))) = int (card (free_bits (the_map fs d))) + int (card (owned s d))"
    using card_free_bits [OF fs_headers(5) [OF assms(1)]] card_free_bits [OF fs_headers(5) [OF d'(2)]]
      card_Diff_subset [OF finite_subset [OF ow] ow] card_mono [OF _ ow] by (simp add: d'(4) numBits_map of_nat_diff)
  then have "abs_fs fs d' = ((files fs d)(fkey nm := None), snd (abs_fs fs d) + sectors_for (int (length ?c)))"
    using sectors_owned [OF assms(1) Some] by (simp add: abs_fs_def d'(3))
  moreover have "abs_fs fs d = (files fs d, snd (abs_fs fs d))" by (simp add: abs_fs_def)
  moreover have "files fs d (fkey nm) = Some ?c" by (simp add: files_def Some)
  ultimately have "fs_spec (REMOVE nm) (abs_fs fs d) (DONE True) (abs_fs fs d')"
    using fs_spec.file_removed [of "files fs d" nm ?c "snd (abs_fs fs d)"] by metis
  with d'(1,2) show ?thesis by auto
qed

lemma overwrite_slice:
  assumes "length (read_at p n c) = k" "n = length bs"
  shows "take p c @ take k bs @ drop (p + length (take k bs)) c = overwrite p bs c" "length (take k bs) = min (length bs) (length c - p)"
proof -
  have k: "k = min (length bs) (length c - p)" using assms by (auto simp: read_at_def)
  then show "length (take k bs) = min (length bs) (length c - p)" by simp
  then show "take p c @ take k bs @ drop (p + length (take k bs)) c = overwrite p bs c" by (simp add: overwrite_def k Let_def)
qed

lemma write_refines:
  assumes "fs_ok fs d" "uninit_ok u" "is_name nm" "0 \<le> position"
  shows "\<exists>r d'. fs_exec u (WRITE nm position bs) fs d = Inr (r, d') \<and> fs_ok fs d' \<and>
     fs_spec (WRITE nm position bs) (abs_fs fs d) r (abs_fs fs d')"
proof -
  from Open_ok [OF assms(1-3)] obtain d1 where d1: "Open u nm fs d =
      Inr (map_option (\<lambda>s. \<lparr>hdr = the_header s d, seekPosition = 0\<rparr>) (names fs d (fkey nm)), d1)" "same_disk d d1" by blast
  note eq = same_disk_cong(1-4,6) [OF d1(2)] and ok1 = same_disk_cong(5) [OF d1(2) assms(1)]
  show ?thesis
  proof (cases "names fs d (fkey nm)")
    case None
    then show ?thesis
      using d1 ok1 abs_same [OF d1(2)] fs_spec.write_fails [of "files fs d" nm position bs "snd (abs_fs fs d)"]
      by (simp add: abs_fs_def files_def)
  next
    case (Some s)
    let ?c = "file_bytes (the_header s d) d"
    have "names fs d1 (fkey nm) = Some s" using Some by (simp add: eq)
    from write_file [OF ok1 this assms(4), of "int (length bs)" bs "mem_bytes u 0"] obtain d2 where
      d2: "WriteAt (mem_bytes u 0) bs (int (length bs)) position (the_header s d) d1 =
          Inr (int (min (length bs) (length ?c - nat position)), d2)" "fs_ok fs d2" "the_map fs d2 = the_map fs d"
        "files fs d2 = (files fs d)(fkey nm \<mapsto> overwrite (nat position) bs ?c)"
      using overwrite_slice [of "nat position" "length bs" ?c _ bs] by (auto simp: eq)
    have "files fs d (fkey nm) = Some ?c" by (simp add: files_def Some)
    with fs_spec.file_written [of "files fs d" nm ?c position bs "snd (abs_fs fs d)"]
    have "fs_spec (WRITE nm position bs) (abs_fs fs d) (COUNT (int (min (length bs) (length ?c - nat position)))) (abs_fs fs d2)"
      by (simp add: abs_fs_def d2(3,4))
    with d1 d2 Some show ?thesis by simp
  qed
qed

lemma read_refines:
  assumes "fs_ok fs d" "uninit_ok u" "is_name nm" "0 \<le> position"
  shows "\<exists>r d'. fs_exec u (READ nm position n) fs d = Inr (r, d') \<and> fs_ok fs d' \<and>
     fs_spec (READ nm position n) (abs_fs fs d) r (abs_fs fs d')"
proof -
  from Open_ok [OF assms(1-3)] obtain d1 where d1: "Open u nm fs d =
      Inr (map_option (\<lambda>s. \<lparr>hdr = the_header s d, seekPosition = 0\<rparr>) (names fs d (fkey nm)), d1)" "same_disk d d1" by blast
  note eq = same_disk_cong(1-4,6) [OF d1(2)] and ok1 = same_disk_cong(5) [OF d1(2) assms(1)]
  show ?thesis
  proof (cases "names fs d (fkey nm)")
    case None
    then show ?thesis
      using d1 ok1 abs_same [OF d1(2)] fs_spec.read_fails [of "files fs d" nm position n "snd (abs_fs fs d)"]
      by (simp add: abs_fs_def files_def)
  next
    case (Some s)
    let ?c = "file_bytes (the_header s d) d"
    have h: "header_ok (the_header s d)" using name_sector(2) [OF assms(1) Some] by (simp add: good_head_def)
    from ReadAt_ok [OF h fs_okD(1) [OF ok1] assms(4), of n] obtain d2 where
      d2: "ReadAt n position (the_header s d) d1 = Inr (take (nat n) (drop (nat position) ?c), d2)" "same_disk d1 d2"
      by (auto simp: same_disk_def read_at_def eq)
    have sd: "same_disk d d2" by (rule same_disk_trans [OF d1(2) d2(2)])
    have "files fs d (fkey nm) = Some ?c" by (simp add: files_def Some)
    with fs_spec.file_read [of "files fs d" nm ?c position n "snd (abs_fs fs d)"]
    have "fs_spec (READ nm position n) (abs_fs fs d) (BYTES (take (nat n) (drop (nat position) ?c))) (abs_fs fs d2)"
      unfolding abs_same [OF sd] by (simp add: abs_fs_def)
    with d1 d2 Some same_disk_cong(5) [OF sd assms(1)] show ?thesis by simp
  qed
qed

lemma fs_exec_refines:
  assumes "fs_ok fs d" "uninit_ok u" "call_ok c"
  shows "\<exists>r d'. fs_exec u c fs d = Inr (r, d') \<and> fs_ok fs d' \<and> fs_spec c (abs_fs fs d) r (abs_fs fs d')"
  using assms by (cases c) (auto intro: create_refines remove_refines write_refines read_refines simp del: fs_exec.simps)

lemma fs_run_refines:
  assumes "fs_ok fs d" "\<forall>(u, c) \<in> set cs. uninit_ok u \<and> call_ok c"
  shows "\<exists>rs d'. fs_run cs fs d = Inr (rs, d') \<and> fs_ok fs d' \<and> fs_specs (map snd cs) (abs_fs fs d) rs (abs_fs fs d')"
  using assms
proof (induction cs arbitrary: d)
  case Nil
  then show ?case by (auto intro: fs_specs.none)
next
  case (Cons uc cs)
  obtain u c where uc: "uc = (u, c)" by (cases uc)
  with Cons.prems fs_exec_refines [of fs d u c] obtain r d1 where
    d1: "fs_exec u c fs d = Inr (r, d1)" "fs_ok fs d1" "fs_spec c (abs_fs fs d) r (abs_fs fs d1)" by auto
  with Cons.IH [of d1] Cons.prems(2) obtain rs d2 where
    "fs_run cs fs d1 = Inr (rs, d2)" "fs_ok fs d2" "fs_specs (map snd cs) (abs_fs fs d1) rs (abs_fs fs d2)" by auto
  with d1 show ?case by (auto simp: uc intro: fs_specs.more)
qed

section \<open>Properties\<close>

text \<open>Memory full of zeros, and a disk that has just been made, for the witnesses.\<close>

definition zero_memory :: uninit where
  "zero_memory = \<lparr>mem_words = (\<lambda>_. 0), mem_entries = (\<lambda>_. sample_entry),
     mem_header = (\<lambda>_. \<lparr>numBytes = 0, numSectors = 0, dataSectors = replicate 30 0\<rparr>), mem_bytes = (\<lambda>_ _. 0)\<rparr>"

lemma zero_memory_ok: "uninit_ok zero_memory"
  by (simp add: uninit_ok_def zero_memory_def entry_ok_def sample_entry_def int32_def NumDirect_def)

lemma new_disk: "\<exists>d. Disk_ctor None = Inr d \<and> idle_disk d"
  using Disk_ctor_new by (auto simp: idle_disk_def)

definition sample_calls :: "(uninit \<times> fs_call) list" where
  "sample_calls = map (\<lambda>c. (zero_memory, c))
     [CREATE [65, 0] 200, CREATE [66, 0] 50, WRITE [65, 0] 100 [1, 2, 3], READ [65, 0] 99 5, REMOVE [66, 0]]"

lemma sample_calls_ok: "\<forall>(u, c) \<in> set sample_calls. uninit_ok u \<and> call_ok c"
  by (simp add: sample_calls_def zero_memory_ok readable_def NumDirect_def SectorSize_def)

text \<open>
  Formatting a disk, whatever is on it and whatever the uninitialised memory holds, gives a
  consistent and empty file system, in which exactly five sectors are taken: the two headers,
  one sector of the bitmap and two of the directory.
\<close>

theorem format_empty:
  assumes "idle_disk d" "uninit_ok u"
  shows "\<exists>fs d'. FileSystem_ctor u True d = Inr (fs, d') \<and> fs_ok fs d' \<and> files fs d' = Map.empty \<and>
     card (marked (the_map fs d')) = 5"
  using format_ok [OF assms] .

theorem format_empty_witness:
  "\<exists>d fs d'. Disk_ctor None = Inr d \<and> FileSystem_ctor zero_memory True d = Inr (fs, d') \<and> files fs d' = Map.empty"
proof -
  from new_disk obtain d where d: "Disk_ctor None = Inr d" "idle_disk d" by blast
  from format_empty [OF d(2) zero_memory_ok] d(1) show ?thesis by blast
qed

text \<open>
  C12: The file system implements the abstract one: from any consistent disk, every sequence of
  calls of \<open>Create\<close>, \<open>Remove\<close> and of reads and writes through opened files (with names that are C
  strings, positions that are not negative and sizes up to the 30 sectors a header can hold)
  goes through without undefined behaviour or failed assertion; the replies and the final
  contents of all files and the number of free sectors are those of a run of the abstract file
  system, on the success and failure branches alike.
\<close>

theorem file_system_refines:
  assumes "fs_ok fs d" "\<forall>(u, c) \<in> set cs. uninit_ok u \<and> call_ok c"
  shows "\<exists>rs d'. fs_run cs fs d = Inr (rs, d') \<and> fs_ok fs d' \<and> fs_specs (map snd cs) (abs_fs fs d) rs (abs_fs fs d')"
  using fs_run_refines [OF assms] .

theorem file_system_refines_witness:
  "\<exists>d fs d' rs d''. Disk_ctor None = Inr d \<and> FileSystem_ctor zero_memory True d = Inr (fs, d') \<and>
     fs_run sample_calls fs d' = Inr (rs, d'') \<and> fs_specs (map snd sample_calls) (abs_fs fs d') rs (abs_fs fs d'')"
proof -
  from new_disk obtain d where d: "Disk_ctor None = Inr d" "idle_disk d" by blast
  from format_ok [OF d(2) zero_memory_ok] obtain fs d' where
    f: "FileSystem_ctor zero_memory True d = Inr (fs, d')" "fs_ok fs d'" by blast
  from file_system_refines [OF f(2) sample_calls_ok] d(1) f(1) show ?thesis by blast
qed

text \<open>
  C13: On a disk that was formatted and then used by any sequence of calls, no two files (the
  bitmap and the directory included) share a sector, and the bitmap marks exactly the sectors of
  the files: nothing is used twice and nothing is lost.
\<close>

theorem no_sector_shared_or_lost:
  assumes "idle_disk d" "uninit_ok u" "\<forall>(u, c) \<in> set cs. uninit_ok u \<and> call_ok c"
  shows "\<exists>fs d0 rs d'. FileSystem_ctor u True d = Inr (fs, d0) \<and> fs_run cs fs d0 = Inr (rs, d') \<and>
     (\<forall>a \<in> heads fs d'. \<forall>b \<in> heads fs d'. a \<noteq> b \<longrightarrow> owned a d' \<inter> owned b d' = {}) \<and>
     marked (the_map fs d') = (\<Union>s \<in> heads fs d'. owned s d')"
proof -
  from format_ok [OF assms(1,2)] obtain fs d0 where f: "FileSystem_ctor u True d = Inr (fs, d0)" "fs_ok fs d0" by blast
  from fs_run_refines [OF f(2) assms(3)] obtain rs d' where r: "fs_run cs fs d0 = Inr (rs, d')" "fs_ok fs d'" by blast
  note P = fs_okD(8) [OF r(2), unfolded partitioned_def]
  show ?thesis
    by (intro exI conjI, rule f(1), rule r(1), rule conjunct1 [OF conjunct2 [OF P]], rule conjunct2 [OF conjunct2 [OF P], symmetric])
qed

theorem no_sector_shared_or_lost_witness:
  "\<exists>d fs d0 rs d'. Disk_ctor None = Inr d \<and> FileSystem_ctor zero_memory True d = Inr (fs, d0) \<and>
     fs_run sample_calls fs d0 = Inr (rs, d') \<and> marked (the_map fs d') = (\<Union>s \<in> heads fs d'. owned s d')"
proof -
  from new_disk obtain d where d: "Disk_ctor None = Inr d" "idle_disk d" by blast
  from no_sector_shared_or_lost [OF d(2) zero_memory_ok sample_calls_ok] d(1) show ?thesis by blast
qed

text \<open>
  The file system survives a restart: opening a consistent disk without formatting it gives a
  consistent file system with the same names and contents.
\<close>

theorem mount_roundtrip:
  assumes "fs_ok fs d"
  shows "\<exists>fs' d'. FileSystem_ctor u False d = Inr (fs', d') \<and> fs_ok fs' d' \<and> files fs' d' = files fs d"
  using mount_ok [OF assms] .

theorem mount_roundtrip_witness:
  "\<exists>d fs d' fs' d''. Disk_ctor None = Inr d \<and> FileSystem_ctor zero_memory True d = Inr (fs, d') \<and>
     FileSystem_ctor zero_memory False d' = Inr (fs', d'') \<and> files fs' d'' = files fs d'"
proof -
  from new_disk obtain d where d: "Disk_ctor None = Inr d" "idle_disk d" by blast
  from format_ok [OF d(2) zero_memory_ok] obtain fs d' where
    f: "FileSystem_ctor zero_memory True d = Inr (fs, d')" "fs_ok fs d'" by blast
  from mount_roundtrip [OF f(2), of zero_memory] d(1) f(1) show ?thesis by blast
qed

end
