(* ===== verification/File_Commands.thy ===== *)
theory File_Commands
  imports File_System_Properties
begin

text \<open>
  The commands on the file system of \<open>filesys/fstest.cc\<close>: \<open>Copy\<close> (option \<open>-cp\<close>), \<open>Print\<close> (option \<open>-p\<close>)
  and \<open>PerformanceTest\<close> (option \<open>-t\<close>). A file of the host is the list of its bytes; the messages that are
  printed are values of a datatype.
\<close>

section \<open>The commands\<close>

definition TransferSize :: nat where "TransferSize = 10"

datatype copy_result = No_input | No_output | Copied

text \<open>The loop over what is left of the host file; each \<open>Write\<close> has a buffer of its own.\<close>

function Copy_loop :: "(nat \<Rightarrow> nat \<Rightarrow> byte) \<Rightarrow> byte list \<Rightarrow> OpenFile \<Rightarrow> Disk \<Rightarrow> Disk result" where
  "Copy_loop junk bs f d =
     (if bs = [] then Inr d
      else let buffer = take TransferSize bs in
        bind_result (Write_seq (junk (length bs)) buffer (int (length buffer)) f d) (\<lambda>(_, f, d).
          Copy_loop junk (drop TransferSize bs) f d))"
  by pat_completeness auto
termination by (relation "measure (\<lambda>(_, bs, _, _). length bs)") (auto simp: TransferSize_def)

declare Copy_loop.simps [simp del]

definition Copy :: "(nat \<Rightarrow> nat \<Rightarrow> byte) \<Rightarrow> uninit \<Rightarrow> uninit \<Rightarrow> byte list option \<Rightarrow> byte list \<Rightarrow> FileSystem \<Rightarrow> Disk \<Rightarrow> (copy_result \<times> Disk) result" where
  "Copy junk u u' from0 to fs d =
     (case from0 of
        None \<Rightarrow> Inr (No_input, d)
      | Some bs \<Rightarrow>
          bind_result (Create u to (int (length bs)) fs d) (\<lambda>(ok, d).
            if \<not> ok then Inr (No_output, d)
            else bind_result (Open u' to fs d) (\<lambda>(openFile, d).
              case openFile of
                None \<Rightarrow> Inl ASSERT_FAILED
              | Some f \<Rightarrow> bind_result (Copy_loop junk bs f d) (\<lambda>d. Inr (Copied, d)))))"

text \<open>\<open>n\<close> bounds the rounds of the loop; without a value it has not come to its end.\<close>

fun Print_loop :: "nat \<Rightarrow> OpenFile \<Rightarrow> Disk \<Rightarrow> (byte list \<times> Disk) result option" where
  "Print_loop 0 f d = None"
| "Print_loop (Suc n) f d =
     (case Read_seq (int TransferSize) f d of
        Inl e \<Rightarrow> Some (Inl e)
      | Inr (buffer, f, d) \<Rightarrow>
          if buffer = [] then Some (Inr ([], d))
          else map_option (\<lambda>r. bind_result r (\<lambda>(rest, d). Inr (buffer @ rest, d))) (Print_loop n f d))"

definition Print :: "nat \<Rightarrow> uninit \<Rightarrow> byte list \<Rightarrow> FileSystem \<Rightarrow> Disk \<Rightarrow> (byte list option \<times> Disk) result option" where
  "Print n u nm fs d =
     (case Open u nm fs d of
        Inl e \<Rightarrow> Some (Inl e)
      | Inr (None, d) \<Rightarrow> Some (Inr (None, d))
      | Inr (Some f, d) \<Rightarrow> map_option (\<lambda>r. bind_result r (\<lambda>(bs, d). Inr (Some bs, d))) (Print_loop n f d))"

section \<open>The performance test\<close>

datatype perf_message = Cannot_create | Unable_to_open | Unable_to_write | Unable_to_read | Unable_to_remove

text \<open>The strings \<open>TestFile\<close> and \<open>1234567890\<close>, the first with its terminating byte.\<close>

definition FileName :: "byte list" where
  "FileName = [84, 101, 115, 116, 70, 105, 108, 101, 0]"

definition Contents :: "byte list" where
  "Contents = [49, 50, 51, 52, 53, 54, 55, 56, 57, 48]"

definition FileSize :: nat where "FileSize = length Contents * 5000"

fun FileWrite_loop :: "nat \<Rightarrow> (nat \<Rightarrow> nat \<Rightarrow> byte) \<Rightarrow> OpenFile \<Rightarrow> Disk \<Rightarrow> (perf_message list \<times> Disk) result" where
  "FileWrite_loop 0 junk f d = Inr ([], d)"
| "FileWrite_loop (Suc n) junk f d =
     bind_result (Write_seq (junk n) Contents (int (length Contents)) f d) (\<lambda>(numBytes, f, d).
       if numBytes < 10 then Inr ([Unable_to_write], d) else FileWrite_loop n junk f d)"

definition FileWrite :: "(nat \<Rightarrow> nat \<Rightarrow> byte) \<Rightarrow> uninit \<Rightarrow> uninit \<Rightarrow> FileSystem \<Rightarrow> Disk \<Rightarrow> (perf_message list \<times> Disk) result" where
  "FileWrite junk u u' fs d =
     bind_result (Create u FileName 0 fs d) (\<lambda>(ok, d).
       if \<not> ok then Inr ([Cannot_create], d)
       else bind_result (Open u' FileName fs d) (\<lambda>(openFile, d).
         case openFile of
           None \<Rightarrow> Inr ([Unable_to_open], d)
         | Some f \<Rightarrow> FileWrite_loop (FileSize div length Contents) junk f d))"

fun FileRead_loop :: "nat \<Rightarrow> OpenFile \<Rightarrow> Disk \<Rightarrow> (perf_message list \<times> Disk) result" where
  "FileRead_loop 0 f d = Inr ([], d)"
| "FileRead_loop (Suc n) f d =
     bind_result (Read_seq (int (length Contents)) f d) (\<lambda>(buffer, f, d).
       if length buffer < 10 \<or> buffer \<noteq> Contents then Inr ([Unable_to_read], d) else FileRead_loop n f d)"

definition FileRead :: "uninit \<Rightarrow> FileSystem \<Rightarrow> Disk \<Rightarrow> (perf_message list \<times> Disk) result" where
  "FileRead u fs d =
     bind_result (Open u FileName fs d) (\<lambda>(openFile, d).
       case openFile of
         None \<Rightarrow> Inr ([Unable_to_open], d)
       | Some f \<Rightarrow> FileRead_loop (FileSize div length Contents) f d)"

definition PerformanceTest :: "(nat \<Rightarrow> nat \<Rightarrow> byte) \<Rightarrow> (nat \<Rightarrow> uninit) \<Rightarrow> FileSystem \<Rightarrow> Disk \<Rightarrow> (perf_message list \<times> Disk) result" where
  "PerformanceTest junk u fs d =
     bind_result (FileWrite junk (u 0) (u 1) fs d) (\<lambda>(w, d).
     bind_result (FileRead (u 2) fs d) (\<lambda>(r, d).
     bind_result (FileSystem_Remove (u 3) FileName fs d) (\<lambda>(ok, d).
       Inr (w @ r @ (if ok then [] else [Unable_to_remove]), d))))"

section \<open>Copying\<close>

text \<open>What a consistent disk holds under a name, with the sector of its header.\<close>

definition holds :: "FileSystem \<Rightarrow> Disk \<Rightarrow> byte list \<Rightarrow> int \<Rightarrow> FileHeader \<Rightarrow> byte list \<Rightarrow> bool" where
  "holds fs d nm s h c \<longleftrightarrow> fs_ok fs d \<and> names fs d (fkey nm) = Some s \<and> the_header s d = h \<and> file_bytes h d = c"

lemma Write_holds:
  assumes h: "holds fs d nm s h (pre @ c)" and f: "f = \<lparr>hdr = h, seekPosition = int (length pre)\<rparr>"
    and bs: "length bs \<le> length c"
  shows "\<exists>d'. Write_seq junk bs (int (length bs)) f d =
      Inr (int (length bs), f\<lparr>seekPosition := int (length (pre @ bs))\<rparr>, d') \<and>
    holds fs d' nm s h ((pre @ bs) @ drop (length bs) c) \<and>
    files fs d' = (files fs d)(fkey nm \<mapsto> (pre @ bs) @ drop (length bs) c) \<and> the_map fs d' = the_map fs d"
proof -
  from h have ok: "fs_ok fs d" "names fs d (fkey nm) = Some s" and c: "file_bytes h d = pre @ c" and hd: "the_header s d = h"
    by (auto simp: holds_def)
  have l: "length (read_at (length pre) (length bs) (pre @ c)) = length bs" using bs by (simp add: read_at_def)
  from write_file [OF ok, of "int (length pre)" "int (length bs)" bs junk] obtain d' where
    d': "WriteAt junk bs (int (length bs)) (int (length pre)) h d = Inr (int (length bs), d')" "fs_ok fs d'"
      "names fs d' = names fs d" "the_map fs d' = the_map fs d" "keeps fs d d'"
      "files fs d' = (files fs d)(fkey nm \<mapsto> (pre @ bs) @ drop (length bs) c)"
    by (auto simp: c l hd)
  have "the_header s d' = h" using d'(5) ok(2) hd unfolding keeps_def by blast
  moreover have "file_bytes h d' = (pre @ bs) @ drop (length bs) c"
    using d'(3,6) ok(2) calculation by (auto simp: files_def fun_eq_iff split: if_splits dest: spec [of _ "fkey nm"])
  ultimately show ?thesis using d' ok by (simp add: Write_seq_def f holds_def)
qed

lemma Copy_loop_ok:
  assumes "holds fs d nm s h (pre @ c)" "length c = length bs"
  shows "\<exists>d'. Copy_loop junk bs \<lparr>hdr = h, seekPosition = int (length pre)\<rparr> d = Inr d' \<and> holds fs d' nm s h (pre @ bs) \<and>
    files fs d' = (files fs d)(fkey nm \<mapsto> pre @ bs) \<and> the_map fs d' = the_map fs d"
  using assms
proof (induction bs arbitrary: pre c d rule: measure_induct_rule [of length])
  case (less bs)
  show ?case
  proof (cases "bs = []")
    case True
    have "files fs d (fkey nm) = Some pre" using less.prems True by (auto simp: holds_def files_def)
    then show ?thesis using less.prems True by (simp add: Copy_loop.simps fun_upd_idem)
  next
    case False
    let ?b = "take TransferSize bs" let ?rest = "drop TransferSize bs"
    let ?f = "\<lparr>hdr = h, seekPosition = int (length pre)\<rparr>"
    have b: "length ?b \<le> length c" "length ?rest < length bs" using less.prems(2) False by (auto simp: TransferSize_def)
    from Write_holds [OF less.prems(1) refl b(1), of "junk (length bs)"] obtain d1 where
      d1: "Write_seq (junk (length bs)) ?b (int (length ?b)) ?f d =
          Inr (int (length ?b), ?f\<lparr>seekPosition := int (length (pre @ ?b))\<rparr>, d1)"
        "holds fs d1 nm s h ((pre @ ?b) @ drop (length ?b) c)"
        "files fs d1 = (files fs d)(fkey nm \<mapsto> (pre @ ?b) @ drop (length ?b) c)" "the_map fs d1 = the_map fs d" by blast
    have "length (drop (length ?b) c) = length ?rest" using less.prems(2) by (auto simp: TransferSize_def)
    from less.IH [OF b(2) d1(2) this] obtain d2 where
      d2: "Copy_loop junk ?rest \<lparr>hdr = h, seekPosition = int (length (pre @ ?b))\<rparr> d1 = Inr d2" "holds fs d2 nm s h ((pre @ ?b) @ ?rest)"
        "files fs d2 = (files fs d1)(fkey nm \<mapsto> (pre @ ?b) @ ?rest)" "the_map fs d2 = the_map fs d1" by blast
    have "Copy_loop junk bs ?f d = Inr d2" using d1(1) d2(1) False by (subst Copy_loop.simps) (simp add: Let_def)
    then show ?thesis using d1(3,4) d2(2-4) by (auto simp: fun_eq_iff)
  qed
qed

lemma Print_loop_ok:
  assumes "holds fs d nm s h (pre @ c)" "length c < n"
  shows "\<exists>d'. Print_loop n \<lparr>hdr = h, seekPosition = int (length pre)\<rparr> d = Some (Inr (c, d')) \<and> same_disk d d'"
  using assms
proof (induction n arbitrary: pre c d)
  case (Suc n)
  let ?b = "take TransferSize c"
  from Suc.prems(1) have h: "header_ok h" "idle_disk d" "file_bytes h d = pre @ c"
    using name_sector(2) [of fs d "fkey nm" s] fs_okD(1) [of fs d] by (auto simp: holds_def good_head_def)
  from ReadAt_ok [OF h(1,2), of "int (length pre)" "int TransferSize"] obtain d1 where
    d1: "ReadAt (int TransferSize) (int (length pre)) h d = Inr (?b, d1)" "same_disk d d1"
    by (auto simp: h(3) read_at_def same_disk_def)
  show ?case
  proof (cases "c = []")
    case True
    then show ?thesis using d1 by (auto simp: Read_seq_def)
  next
    case False
    then have b: "?b \<noteq> []" "length (drop TransferSize c) < n" using Suc.prems(2) by (cases c; simp add: TransferSize_def)+
    have "holds fs d1 nm s h ((pre @ ?b) @ drop TransferSize c)"
      using Suc.prems(1) same_disk_cong [OF d1(2)] by (simp add: holds_def)
    from Suc.IH [OF this b(2)] obtain d2 where
      "Print_loop n \<lparr>hdr = h, seekPosition = int (length (pre @ ?b))\<rparr> d1 = Some (Inr (drop TransferSize c, d2))" "same_disk d1 d2" by blast
    then show ?thesis using d1 b(1) same_disk_trans [OF d1(2)] by (auto simp: Read_seq_def)
  qed
qed simp

lemma Open_holds:
  assumes "fs_ok fs d" "uninit_ok u" "is_name nm" "files fs d (fkey nm) = Some c"
  shows "\<exists>s h d'. Open u nm fs d = Inr (Some \<lparr>hdr = h, seekPosition = 0\<rparr>, d') \<and> holds fs d' nm s h c \<and> same_disk d d'"
proof -
  from assms(4) obtain s where s: "names fs d (fkey nm) = Some s" "file_bytes (the_header s d) d = c" by (auto simp: files_def)
  from Open_ok [OF assms(1-3)] s obtain d' where
    d': "Open u nm fs d = Inr (Some \<lparr>hdr = the_header s d, seekPosition = 0\<rparr>, d')" "same_disk d d'" by auto
  then show ?thesis using s same_disk_cong [OF d'(2)] assms(1) by (auto simp: holds_def)
qed

lemma Print_ok:
  assumes "fs_ok fs d" "uninit_ok u" "is_name nm" "files fs d (fkey nm) = Some c" "length c < n"
  shows "\<exists>d'. Print n u nm fs d = Some (Inr (Some c, d')) \<and> same_disk d d'"
proof -
  from Open_holds [OF assms(1-4)] obtain s h d1 where
    d1: "Open u nm fs d = Inr (Some \<lparr>hdr = h, seekPosition = 0\<rparr>, d1)" "holds fs d1 nm s h ([] @ c)" "same_disk d d1" by auto
  from Print_loop_ok [OF d1(2) assms(5)] obtain d2 where
    "Print_loop n \<lparr>hdr = h, seekPosition = 0\<rparr> d1 = Some (Inr (c, d2))" "same_disk d1 d2" by auto
  then show ?thesis using d1(1) same_disk_trans [OF d1(3)] by (auto simp: Print_def)
qed

lemma Copy_ok:
  assumes ok: "fs_ok fs d" "uninit_ok u" "uninit_ok u'" "is_name to" and len: "length bs \<le> NumDirect * SectorSize"
    and room: "fits to (int (length bs)) (abs_fs fs d)"
  shows "\<exists>d'. Copy junk u u' (Some bs) to fs d = Inr (Copied, d') \<and> fs_ok fs d' \<and>
    abs_fs fs d' = ((files fs d)(fkey to \<mapsto> bs), snd (abs_fs fs d) - sectors_for (int (length bs)))"
proof -
  have r: "room_for to (int (length bs)) fs d" using room fits_room by blast
  have "int (length bs) \<le> int (NumDirect * SectorSize)" using len by (simp only: of_nat_le_iff)
  from Create_ok [OF ok(1,2,4) _ this] r obtain d1 where
    d1: "Create u to (int (length bs)) fs d = Inr (True, d1)" "fs_ok fs d1" "created to (int (length bs)) fs d d1" by auto
  then obtain c where c: "length c = length bs" "files fs d1 = (files fs d)(fkey to \<mapsto> c)" by (auto simp: created_def)
  then have "files fs d1 (fkey to) = Some c" by simp
  from Open_holds [OF d1(2) ok(3,4) this] obtain s h d2 where
    d2: "Open u' to fs d1 = Inr (Some \<lparr>hdr = h, seekPosition = 0\<rparr>, d2)" "holds fs d2 to s h ([] @ c)" "same_disk d1 d2" by auto
  from Copy_loop_ok [OF d2(2) c(1), of junk] obtain d3 where
    d3: "Copy_loop junk bs \<lparr>hdr = h, seekPosition = 0\<rparr> d2 = Inr d3" "holds fs d3 to s h bs"
      "files fs d3 = (files fs d2)(fkey to \<mapsto> bs)" "the_map fs d3 = the_map fs d2" by auto
  have "Copy junk u u' (Some bs) to fs d = Inr (Copied, d3)" using d1(1) d2(1) d3(1) by (simp add: Copy_def)
  moreover have "abs_fs fs d3 = ((files fs d)(fkey to \<mapsto> bs), snd (abs_fs fs d) - sectors_for (int (length bs)))"
    using d1(3) d3(3,4) c(2) same_disk_cong(3,6) [OF d2(3)] by (simp add: abs_fs_def created_def sectors_for_def)
  ultimately show ?thesis using d3(2) by (auto simp: holds_def)
qed

text \<open>A disk that has just been formatted has room.\<close>

lemma format_room:
  assumes "idle_disk d" "0 \<le> n" "n \<le> 128"
  shows "\<exists>fs d'. FileSystem_ctor zero_memory True d = Inr (fs, d') \<and> fs_ok fs d' \<and> fits nm n (abs_fs fs d')"
proof -
  from format_ok [OF assms(1) zero_memory_ok] obtain fs d' where
    f: "FileSystem_ctor zero_memory True d = Inr (fs, d')" "fs_ok fs d'" "files fs d' = Map.empty" "card (marked (the_map fs d')) = 5" by blast
  have "divRoundUp n 128 \<le> 1" using divRoundUp_bounds(2) [of n 128] assms(2,3) by simp
  then have "fits nm n (abs_fs fs d')" using card_free_bits [OF fs_headers(5) [OF f(2)]] f(3,4)
    by (simp add: fits_def abs_fs_def sectors_for_def numBits_map NumDirEntries_def disk_consts)
  with f(1,2) show ?thesis by blast
qed

section \<open>Properties\<close>

text \<open>
  Copying a file of the host (of at most 30 sectors) to a consistent disk makes exactly that file,
  with the same bytes, out of the free sectors, if the name is new and there is room for it, and
  \<open>Print\<close> then ends and prints these bytes; otherwise nothing changes and the command says so.
\<close>

theorem copy_print_roundtrip:
  assumes "fs_ok fs d" "uninit_ok u" "uninit_ok u'" "uninit_ok u''" "is_name to" "length bs \<le> NumDirect * SectorSize"
  shows "if fits to (int (length bs)) (abs_fs fs d)
    then \<exists>d'. Copy junk u u' (Some bs) to fs d = Inr (Copied, d') \<and> fs_ok fs d' \<and>
      abs_fs fs d' = ((files fs d)(fkey to \<mapsto> bs), snd (abs_fs fs d) - sectors_for (int (length bs))) \<and>
      (\<forall>n > length bs. \<exists>d''. Print n u'' to fs d' = Some (Inr (Some bs, d'')) \<and> same_disk d' d'')
    else \<exists>d'. Copy junk u u' (Some bs) to fs d = Inr (No_output, d') \<and> same_disk d d'"
proof (cases "fits to (int (length bs)) (abs_fs fs d)")
  case True
  from Copy_ok [OF assms(1-3,5,6) True] obtain d' where d': "Copy junk u u' (Some bs) to fs d = Inr (Copied, d')" "fs_ok fs d'"
    "abs_fs fs d' = ((files fs d)(fkey to \<mapsto> bs), snd (abs_fs fs d) - sectors_for (int (length bs)))" by blast
  then have "files fs d' (fkey to) = Some bs" by (simp add: abs_fs_def)
  with Print_ok [OF d'(2) assms(4,5)] d' True show ?thesis by auto
next
  case False
  then have "\<not> room_for to (int (length bs)) fs d" using fits_room by blast
  moreover have "int (length bs) \<le> int (NumDirect * SectorSize)" using assms(6) by (simp only: of_nat_le_iff)
  ultimately show ?thesis using Create_ok [OF assms(1,2,5), of "int (length bs)"] False by (auto simp: Copy_def)
qed

theorem copy_print_roundtrip_witness:
  "\<exists>d fs d0 d1 d2. Disk_ctor None = Inr d \<and> FileSystem_ctor zero_memory True d = Inr (fs, d0) \<and>
     Copy (\<lambda>_ _. 0) zero_memory zero_memory (Some [1, 2, 3, 4, 5, 6, 7, 8, 9, 10, 11, 12]) [65, 0] fs d0 = Inr (Copied, d1) \<and>
     Print 20 zero_memory [65, 0] fs d1 = Some (Inr (Some [1, 2, 3, 4, 5, 6, 7, 8, 9, 10, 11, 12], d2))"
proof -
  from new_disk obtain d where d: "Disk_ctor None = Inr d" "idle_disk d" by blast
  let ?bs = "[1, 2, 3, 4, 5, 6, 7, 8, 9, 10, 11, 12] :: byte list"
  have n: "is_name [65, 0]" "length ?bs \<le> NumDirect * SectorSize" by (simp_all add: readable_def NumDirect_def SectorSize_def)
  from format_room [OF d(2), of "int (length ?bs)" "[65, 0]"] obtain fs d0 where
    f: "FileSystem_ctor zero_memory True d = Inr (fs, d0)" "fs_ok fs d0" "fits [65, 0] (int (length ?bs)) (abs_fs fs d0)" by auto
  from f(3) copy_print_roundtrip [OF f(2) zero_memory_ok zero_memory_ok zero_memory_ok n, of "\<lambda>_ _. 0"] obtain d1 where
    d1: "Copy (\<lambda>_ _. 0) zero_memory zero_memory (Some ?bs) [65, 0] fs d0 = Inr (Copied, d1)"
      "\<forall>n > length ?bs. \<exists>d''. Print n zero_memory [65, 0] fs d1 = Some (Inr (Some ?bs, d'')) \<and> same_disk d1 d''" by auto
  have "length ?bs < 20" by simp
  with d1(2) obtain d2 where "Print 20 zero_memory [65, 0] fs d1 = Some (Inr (Some ?bs, d2))" by blast
  with d(1) f(1) d1(1) show ?thesis by blast
qed

text \<open>A file that is empty.\<close>

lemma holds_empty: "holds fs d nm s h [] \<Longrightarrow> FileLength h = 0"
  using name_sector(2) [of fs d "fkey nm" s] length_file_bytes [of h d] fs_okD(1) [of fs d]
  by (auto simp: holds_def good_head_def header_ok_def FileLength_def)

inductive_cases fs_spec_REMOVE: "fs_spec (REMOVE nm) st r st'"

text \<open>
  The performance test cannot do its work: the file it creates has length 0 and files do not
  grow, so that the first write and the first read fail. The test file is removed again and all
  other files are as before.
\<close>

theorem performance_test_fails:
  assumes "fs_ok fs d" "\<And>i. uninit_ok (u i)" "fits FileName 0 (abs_fs fs d)"
  shows "\<exists>d'. PerformanceTest junk u fs d = Inr ([Unable_to_write, Unable_to_read], d') \<and> fs_ok fs d' \<and> abs_fs fs d' = abs_fs fs d"
proof -
  have nm: "is_name FileName" by (simp add: FileName_def readable_def)
  have loops: "FileSize div length Contents = Suc 4999" by (simp add: FileSize_def Contents_def)
  have r: "room_for FileName 0 fs d" using assms(3) fits_room by blast
  from Create_ok [OF assms(1,2) nm, of 0 0] r obtain d1 where
    d1: "Create (u 0) FileName 0 fs d = Inr (True, d1)" "fs_ok fs d1" "created FileName 0 fs d d1" by auto
  then have f1: "files fs d1 (fkey FileName) = Some []" by (auto simp: created_def)
  from Open_holds [OF d1(2) assms(2) nm f1, of 1] obtain s h d2 where
    d2: "Open (u 1) FileName fs d1 = Inr (Some \<lparr>hdr = h, seekPosition = 0\<rparr>, d2)" "holds fs d2 FileName s h []" "same_disk d1 d2" by auto
  have w: "FileWrite junk (u 0) (u 1) fs d = Inr ([Unable_to_write], d2)"
    using d1(1) d2(1) holds_empty [OF d2(2)] unfolding FileWrite_def loops FileWrite_loop.simps
    by (simp add: Write_seq_def WriteAt_def)
  have ok2: "fs_ok fs d2" and f2: "files fs d2 (fkey FileName) = Some []"
    using same_disk_cong(5,6) [OF d2(3)] d1(2) f1 by simp_all
  from Open_holds [OF ok2 assms(2) nm f2, of 2] obtain s' h' d3 where
    d3: "Open (u 2) FileName fs d2 = Inr (Some \<lparr>hdr = h', seekPosition = 0\<rparr>, d3)" "holds fs d3 FileName s' h' []" "same_disk d2 d3" by auto
  have r: "FileRead (u 2) fs d2 = Inr ([Unable_to_read], d3)"
    using d3(1) holds_empty [OF d3(2)] unfolding FileRead_def loops FileRead_loop.simps
    by (simp add: Read_seq_def ReadAt_def)
  have sd: "same_disk d1 d3" using same_disk_trans [OF d2(3) d3(3)] .
  then have ok3: "fs_ok fs d3" and f3: "files fs d3 = files fs d1" and a3: "abs_fs fs d3 = abs_fs fs d1"
    using same_disk_cong(5,6) [OF sd] d1(2) abs_same [OF sd] by simp_all
  from remove_refines [OF ok3 assms(2) nm, of 3] obtain rr d4 where
    d4: "fs_exec (u 3) (REMOVE FileName) fs d3 = Inr (rr, d4)" "fs_ok fs d4" "fs_spec (REMOVE FileName) (abs_fs fs d3) rr (abs_fs fs d4)"
    by blast
  have a1: "abs_fs fs d1 = ((files fs d)(fkey FileName \<mapsto> []), snd (abs_fs fs d) - sectors_for 0)"
    using d1(3) by (auto simp: created_def abs_fs_def sectors_for_def)
  have "files fs d (fkey FileName) = None" using assms(3) by (simp add: fits_def abs_fs_def)
  then have "rr = DONE True \<and> abs_fs fs d4 = abs_fs fs d"
    using d4(3) unfolding a3 a1 by (elim fs_spec_REMOVE) (auto simp: abs_fs_def fun_upd_idem dest: fun_cong [of _ _ "fkey FileName"])
  moreover from this have "FileSystem_Remove (u 3) FileName fs d3 = Inr (True, d4)" using d4(1) by (auto simp: result_simps)
  ultimately show ?thesis using w r d4(2) by (simp add: PerformanceTest_def)
qed

theorem performance_test_fails_witness:
  "\<exists>d fs d0 d1. Disk_ctor None = Inr d \<and> FileSystem_ctor zero_memory True d = Inr (fs, d0) \<and>
     PerformanceTest (\<lambda>_ _. 0) (\<lambda>_. zero_memory) fs d0 = Inr ([Unable_to_write, Unable_to_read], d1)"
proof -
  from new_disk obtain d where d: "Disk_ctor None = Inr d" "idle_disk d" by blast
  from format_room [OF d(2), of 0 FileName] obtain fs d0 where
    f: "FileSystem_ctor zero_memory True d = Inr (fs, d0)" "fs_ok fs d0" "fits FileName 0 (abs_fs fs d0)" by auto
  from performance_test_fails [OF f(2) zero_memory_ok f(3), of "\<lambda>_ _. 0"] d(1) f(1) show ?thesis by blast
qed

end
