(* ===== verification/Kernel_Start.thy ===== *)
theory Kernel_Start
  imports File_Commands Kernel_Properties
begin

text \<open>
  The start of Nachos: \<open>Initialize\<close> of \<open>threads/system.cc\<close>, which reads the flags of the command line
  and makes the objects of the kernel, and the loop of \<open>main\<close> of \<open>threads/main.cc\<close>, which runs the
  commands. The symbols that the Makefiles define for the different assignments (\<open>THREADS\<close>,
  \<open>USER_PROGRAM\<close> and so on) are the fields of the record \<open>build\<close>.

  \<open>Initialize\<close> leaves the kernel as \<open>machine_boot\<close> of \<open>Devices\<close> describes it: the call of
  \<open>interrupt->Enable\<close> is the first frame of the main thread. The machine, the file system and the post
  office, which it makes at its end, are components of their own. The commands are values; those on
  files are run on the model of the file system. The number that \<open>atof\<close> makes of its argument is not
  looked at, so that the flags keep the string.

  The lemmas show when the reading of the flags fails, that the kernel starts in its invariant, and
  what a command line that formats the disk, copies a file and prints it does from the beginning
  to the end.
\<close>

section \<open>Reading the flags\<close>

record build =
  THREADS :: bool
  USER_PROGRAM :: bool
  FILESYS_NEEDED :: bool
  FILESYS :: bool
  NETWORK :: bool

record flags =
  debugArgs :: string
  randomSeed :: "int option"
  randomYield :: bool
  debugUserProg :: bool
  format :: bool
  rely :: "string option"
  netname :: int

definition no_flags :: flags where
  "no_flags = \<lparr>debugArgs = [], randomSeed = None, randomYield = False, debugUserProg = False, format = False, rely = None, netname = 0\<rparr>"

text \<open>\<open>atoi\<close> of the C library, for numbers in the range of \<open>int\<close>.\<close>

definition digit :: "char \<Rightarrow> bool" where
  "digit c \<longleftrightarrow> (48 :: nat) \<le> of_char c \<and> of_char c \<le> (57 :: nat)"

definition digits_value :: "string \<Rightarrow> int" where
  "digits_value s = fold (\<lambda>c n. 10 * n + (of_char c - 48)) (takeWhile digit s) 0"

definition atoi :: "string \<Rightarrow> int" where
  "atoi s =
     (let s = dropWhile (\<lambda>c. of_char c \<in> {9, 10, 11, 12, 13, 32 :: nat}) s
      in case s of
           c # t \<Rightarrow> if c = CHR ''-'' then - digits_value t else if c = CHR ''+'' then digits_value t else digits_value s
         | [] \<Rightarrow> 0)"

text \<open>One round of the loop: \<open>argv\<close> is what is left of the arguments; the result is \<open>argCount\<close> and the flags.\<close>

definition Initialize_arg :: "build \<Rightarrow> string list \<Rightarrow> flags \<Rightarrow> (nat \<times> flags) result" where
  "Initialize_arg b argv o0 =
     (let arg = hd argv; argc = length argv
      in bind_result
           (if arg = ''-d'' then
              (if argc = 1 then Inr (1, o0\<lparr>debugArgs := ''+''\<rparr>) else Inr (2, o0\<lparr>debugArgs := argv ! 1\<rparr>))
            else if arg = ''-rs'' then
              bind_result (ASSERT (argc > 1)) (\<lambda>_. Inr (2, o0\<lparr>randomSeed := Some (atoi (argv ! 1)), randomYield := True\<rparr>))
            else Inr (1, o0)) (\<lambda>(argCount, o1).
         let o2 = (if USER_PROGRAM b \<and> arg = ''-s'' then o1\<lparr>debugUserProg := True\<rparr> else o1);
             o3 = (if FILESYS_NEEDED b \<and> arg = ''-f'' then o2\<lparr>format := True\<rparr> else o2)
         in if NETWORK b \<and> arg = ''-l'' then
              bind_result (ASSERT (argc > 1)) (\<lambda>_. Inr (2, o3\<lparr>rely := Some (argv ! 1)\<rparr>))
            else if NETWORK b \<and> arg = ''-m'' then
              bind_result (ASSERT (argc > 1)) (\<lambda>_. Inr (2, o3\<lparr>netname := atoi (argv ! 1)\<rparr>))
            else Inr (argCount, o3)))"

lemma Initialize_arg_count:
  "Initialize_arg b argv o0 = Inr (n, o1) \<Longrightarrow> argv \<noteq> [] \<Longrightarrow> n = 1 \<or> n = 2 \<and> 2 \<le> length argv"
  by (cases argv) (auto simp: Initialize_arg_def bind_result_eq_Inr Let_def Suc_le_eq split: if_splits)

function Initialize_args :: "build \<Rightarrow> string list \<Rightarrow> flags \<Rightarrow> flags result" where
  "Initialize_args b argv o0 =
     (if argv = [] then Inr o0
      else bind_result (Initialize_arg b argv o0) (\<lambda>(argCount, o1). Initialize_args b (drop argCount argv) o1))"
  by pat_completeness auto
termination
  by (relation "measure (\<lambda>(_, argv, _). length argv)") (auto dest: Initialize_arg_count)

declare Initialize_args.simps [simp del]

definition Initialize ::
  "build \<Rightarrow> host \<Rightarrow> (sid \<Rightarrow> int) \<Rightarrow> (lid \<Rightarrow> tid option) \<Rightarrow> (cid \<Rightarrow> lid option) \<Rightarrow> devices \<Rightarrow> string list \<Rightarrow> (flags \<times> nachos) result" where
  "Initialize b host values owners waiting d argv =
     bind_result (Initialize_args b (tl argv) no_flags) (\<lambda>o1.
     bind_result (machine_boot host (randomYield o1) values owners waiting d) (\<lambda>k. Inr (o1, k)))"

section \<open>The commands\<close>

datatype command = Print_copyright | Run_TestSuite | Run_Problem2 | Start string | Test_console "(string \<times> string) option" | Halt_machine
  | Copy_file string string | Print_file string | Remove_file string | List_directory | Print_file_system | Test_performance | Test_mail int

text \<open>One round of the loop of \<open>main\<close>: \<open>argCount\<close> and the commands that it runs.\<close>

definition main_arg :: "build \<Rightarrow> string list \<Rightarrow> (nat \<times> command list) result" where
  "main_arg b argv =
     (let arg = hd argv; argc = length argv;
          c1 = (if arg = ''-z'' then [Print_copyright] else []);
          c2 = (if THREADS b \<and> arg = ''-T'' then [Run_TestSuite] else []);
          c3 = (if THREADS b \<and> arg = ''-P2'' then [Run_Problem2] else [])
      in bind_result
           (if USER_PROGRAM b \<and> arg = ''-x'' then bind_result (ASSERT (argc > 1)) (\<lambda>_. Inr (2, [Start (argv ! 1)]))
            else if USER_PROGRAM b \<and> arg = ''-c'' then
              (if argc = 1 then Inr (1, [Test_console None, Halt_machine])
               else bind_result (ASSERT (argc > 2)) (\<lambda>_. Inr (3, [Test_console (Some (argv ! 1, argv ! 2)), Halt_machine])))
            else Inr (1, [])) (\<lambda>(n1, c4).
         bind_result
           (if FILESYS b \<and> arg = ''-cp'' then bind_result (ASSERT (argc > 2)) (\<lambda>_. Inr (3, [Copy_file (argv ! 1) (argv ! 2)]))
            else if FILESYS b \<and> arg = ''-p'' then bind_result (ASSERT (argc > 1)) (\<lambda>_. Inr (2, [Print_file (argv ! 1)]))
            else if FILESYS b \<and> arg = ''-r'' then bind_result (ASSERT (argc > 1)) (\<lambda>_. Inr (2, [Remove_file (argv ! 1)]))
            else if FILESYS b \<and> arg = ''-l'' then Inr (n1, [List_directory])
            else if FILESYS b \<and> arg = ''-D'' then Inr (n1, [Print_file_system])
            else if FILESYS b \<and> arg = ''-t'' then Inr (n1, [Test_performance])
            else Inr (n1, [])) (\<lambda>(n2, c5).
         bind_result
           (if NETWORK b \<and> arg = ''-o'' then bind_result (ASSERT (argc > 1)) (\<lambda>_. Inr (2, [Test_mail (atoi (argv ! 1))]))
            else Inr (n2, [])) (\<lambda>(n3, c6).
           Inr (n3, c1 @ c2 @ c3 @ c4 @ c5 @ c6)))))"

lemma main_arg_count: "main_arg b argv = Inr (n, cs) \<Longrightarrow> argv \<noteq> [] \<Longrightarrow> 1 \<le> n \<and> n \<le> length argv"
  by (cases argv) (auto simp: main_arg_def bind_result_eq_Inr Let_def Suc_le_eq split: if_splits)

text \<open>
  The commands in the order in which they are run, and whether the loop gets to its end, where
  the main thread finishes, or to an assertion that fails.
\<close>

function main_args :: "build \<Rightarrow> string list \<Rightarrow> command list \<times> bool" where
  "main_args b argv =
     (if argv = [] then ([], True)
      else case main_arg b argv of
        Inl e \<Rightarrow> ([], False)
      | Inr (argCount, cs) \<Rightarrow> let (cs', ok) = main_args b (drop argCount argv) in (cs @ cs', ok))"
  by pat_completeness auto
termination
proof (relation "measure (\<lambda>(_, argv). length argv)")
  fix b :: build and argv y and p :: "nat \<times> command list" and n cs
  assume "argv \<noteq> []" "main_arg b argv = Inr p" "(n, cs) = p"
  then show "((b, drop n argv), (b, argv)) \<in> measure (\<lambda>(_, argv). length argv)"
    using main_arg_count [of b argv n cs] by auto
qed simp

declare main_args.simps [simp del]

text \<open>
  The commands on files. \<open>files_of_host\<close> are the files that \<open>Copy\<close> opens on the host, \<open>mem i j\<close> the
  uninitialised memory that the \<open>i\<close>-th command gets.
\<close>

datatype reply = Copy_reply copy_result | Print_reply "byte list option" | Remove_reply bool | Perf_reply "perf_message list"

abbreviation c_string :: "string \<Rightarrow> byte list" where
  "c_string s \<equiv> map of_char s @ [0]"

fun file_command ::
  "(string \<Rightarrow> byte list option) \<Rightarrow> (nat \<Rightarrow> uninit) \<Rightarrow> (nat \<Rightarrow> nat \<Rightarrow> byte) \<Rightarrow> nat \<Rightarrow> command \<Rightarrow> FileSystem \<Rightarrow> Disk \<Rightarrow> (reply list \<times> Disk) result" where
  "file_command files_of_host mem junk n (Copy_file from to) fs d =
     bind_result (Copy junk (mem 0) (mem 1) (files_of_host from) (c_string to) fs d) (\<lambda>(r, d). Inr ([Copy_reply r], d))"
| "file_command files_of_host mem junk n (Print_file nm) fs d =
     (case Print n (mem 0) (c_string nm) fs d of
        None \<Rightarrow> Inl OUT_OF_FUEL
      | Some r \<Rightarrow> bind_result r (\<lambda>(r, d). Inr ([Print_reply r], d)))"
| "file_command files_of_host mem junk n (Remove_file nm) fs d =
     bind_result (FileSystem_Remove (mem 0) (c_string nm) fs d) (\<lambda>(r, d). Inr ([Remove_reply r], d))"
| "file_command files_of_host mem junk n Test_performance fs d =
     bind_result (PerformanceTest junk mem fs d) (\<lambda>(r, d). Inr ([Perf_reply r], d))"
| "file_command files_of_host mem junk n c fs d = Inr ([], d)"

fun file_commands ::
  "(string \<Rightarrow> byte list option) \<Rightarrow> (nat \<Rightarrow> nat \<Rightarrow> uninit) \<Rightarrow> (nat \<Rightarrow> nat \<Rightarrow> byte) \<Rightarrow> nat \<Rightarrow> command list \<Rightarrow> FileSystem \<Rightarrow> Disk \<Rightarrow> (reply list \<times> Disk) result" where
  "file_commands files_of_host mem junk n [] fs d = Inr ([], d)"
| "file_commands files_of_host mem junk n (c # cs) fs d =
     bind_result (file_command files_of_host (mem (length cs)) junk n c fs d) (\<lambda>(r, d).
     bind_result (file_commands files_of_host mem junk n cs fs d) (\<lambda>(rs, d). Inr (r @ rs, d)))"

text \<open>The commands that the model of the file system covers; the copyright notice is only printed.\<close>

fun on_files :: "command \<Rightarrow> bool" where
  "on_files (Copy_file _ _) = True"
| "on_files (Print_file _) = True"
| "on_files (Remove_file _) = True"
| "on_files Test_performance = True"
| "on_files Print_copyright = True"
| "on_files _ = False"

text \<open>
  A run of the kernel of the file-system assignment on the disk \<open>d\<close>: the flags, the file system, the
  commands. The result is \<open>None\<close> for a command line with a command that is not one of these.
\<close>

definition nachos_files ::
  "build \<Rightarrow> (string \<Rightarrow> byte list option) \<Rightarrow> uninit \<Rightarrow> (nat \<Rightarrow> nat \<Rightarrow> uninit) \<Rightarrow> (nat \<Rightarrow> nat \<Rightarrow> byte) \<Rightarrow> nat \<Rightarrow> string list \<Rightarrow> Disk \<Rightarrow> (reply list \<times> bool \<times> Disk) result option" where
  "nachos_files b files_of_host u mem junk n argv d =
     (let (cs, ok) = main_args b (tl argv)
      in if \<not> list_all on_files cs then None
         else Some (bind_result (Initialize_args b (tl argv) no_flags) (\<lambda>o1.
              bind_result (FileSystem_ctor u (format o1) d) (\<lambda>(fs, d).
              bind_result (file_commands files_of_host mem junk n cs fs d) (\<lambda>(rs, d). Inr (rs, ok, d))))))"

section \<open>Flags\<close>

lemma Initialize_args_Nil [simp]: "Initialize_args b [] o0 = Inr o0"
  by (simp add: Initialize_args.simps)

lemma Initialize_args_Cons:
  "Initialize_args b (a # as) o0 = bind_result (Initialize_arg b (a # as) o0) (\<lambda>(n, o1). Initialize_args b (drop n (a # as)) o1)"
  by (subst Initialize_args.simps) simp

text \<open>An argument that is none of the flags is skipped.\<close>

definition plain_arg :: "string \<Rightarrow> bool" where
  "plain_arg a \<longleftrightarrow> a \<notin> {''-d'', ''-rs'', ''-s'', ''-f'', ''-l'', ''-m''}"

lemma Initialize_args_plain: "plain_arg a \<Longrightarrow> Initialize_args b (a # as) o0 = Initialize_args b as o0"
  by (simp add: Initialize_args_Cons Initialize_arg_def Let_def plain_arg_def)

lemma Initialize_args_format:
  "FILESYS_NEEDED b \<Longrightarrow> Initialize_args b (''-f'' # as) o0 = Initialize_args b as (o0\<lparr>format := True\<rparr>)"
  by (simp add: Initialize_args_Cons Initialize_arg_def Let_def)

lemma Initialize_arg_fails:
  "Initialize_arg b argv o0 = Inl e \<Longrightarrow> argv \<noteq> [] \<Longrightarrow> e = ASSERT_FAILED \<and> length argv = 1 \<and> hd argv \<in> {''-rs'', ''-l'', ''-m''}"
  by (cases argv) (auto simp: Initialize_arg_def bind_result_eq_Inl Let_def ASSERT_def split: if_splits)

lemma Initialize_args_fails:
  "Initialize_args b argv o0 = Inl e \<Longrightarrow> e = ASSERT_FAILED \<and> argv \<noteq> [] \<and> last argv \<in> {''-rs'', ''-l'', ''-m''}"
proof (induction b argv o0 rule: Initialize_args.induct)
  case (1 b argv o0)
  then have ne: "argv \<noteq> []" by auto
  consider "Initialize_arg b argv o0 = Inl e" | n o1 where "Initialize_arg b argv o0 = Inr (n, o1)" "Initialize_args b (drop n argv) o1 = Inl e"
    using 1(2) ne by (subst (asm) Initialize_args.simps) (auto simp: bind_result_eq_Inl)
  then show ?case
  proof cases
    case a: 1
    then show ?thesis using Initialize_arg_fails [OF a ne] ne by (cases argv) auto
  next
    case 2
    with 1(1) [OF ne 2(1) refl] have "e = ASSERT_FAILED" "drop n argv \<noteq> []" "last (drop n argv) \<in> {''-rs'', ''-l'', ''-m''}" by auto
    then show ?thesis using ne by (simp add: last_drop)
  qed
qed

lemma machine_boot_pending:
  "machine_boot host r values owners waiting d = Inr k \<Longrightarrow> pending (intr k) = [] \<longleftrightarrow> \<not> r"
  by (auto simp: machine_boot_def Timer_ctor_def TimeOfNextInterrupt_def Random_def Schedule_def boot_def Interrupt_ctor_def insert_behind_def
      bind_result_eq_Inr Let_def split: if_splits)



text \<open>The flag for the reliability of the network is \<open>-l\<close>; the \<open>-n\<close> of the documentation is skipped.\<close>

lemma reliability_flag:
  assumes "NETWORK b" "plain_arg x"
  shows "Initialize_args b [''-n'', x] o0 = Inr o0" "Initialize_args b [''-l'', x] o0 = Inr (o0\<lparr>rely := Some x\<rparr>)"
    "Initialize_args b [''-l''] o0 = Inl ASSERT_FAILED"
  using assms by (simp_all add: Initialize_args_plain plain_arg_def) (simp_all add: Initialize_args_Cons Initialize_arg_def Let_def)

section \<open>Commands on files\<close>

lemma main_args_Nil [simp]: "main_args b [] = ([], True)"
  by (simp add: main_args.simps)

lemma main_args_Cons:
  "main_args b (a # as) =
     (case main_arg b (a # as) of
        Inl e \<Rightarrow> ([], False)
      | Inr (argCount, cs) \<Rightarrow> let (cs', ok) = main_args b (drop argCount (a # as)) in (cs @ cs', ok))"
  by (subst main_args.simps) simp

lemma copy_line:
  assumes "FILESYS b"
  shows "main_args b [''-f'', ''-cp'', from, to] = ([Copy_file from to], True)" "main_args b [''-p'', to] = ([Print_file to], True)"
  using assms by (simp_all add: main_args_Cons main_arg_def Let_def)

lemma format_fits:
  assumes "idle_disk d" "uninit_ok u" "0 \<le> n" "n \<le> int (NumDirect * SectorSize)"
  shows "\<exists>fs d'. FileSystem_ctor u True d = Inr (fs, d') \<and> fs_ok fs d' \<and> files fs d' = Map.empty \<and> fits nm n (abs_fs fs d')"
proof -
  from format_ok [OF assms(1,2)] obtain fs d' where
    f: "FileSystem_ctor u True d = Inr (fs, d')" "fs_ok fs d'" "files fs d' = Map.empty" "card (marked (the_map fs d')) = 5" by blast
  have "divRoundUp n 128 \<le> 30" using divRoundUp_bounds(2) [of n 128] assms(3,4) by (simp add: NumDirect_def SectorSize_def)
  then have "fits nm n (abs_fs fs d')" using card_free_bits [OF fs_headers(5) [OF f(2)]] f(3,4)
    by (simp add: fits_def abs_fs_def sectors_for_def numBits_map NumDirEntries_def disk_consts)
  with f(1-3) show ?thesis by blast
qed

text \<open>
  C35: Two runs of Nachos. The command line \<open>nachos -f -cp from to\<close> formats the disk and copies a file of the
  host, of at most 30 sectors, to it; a second run, \<open>nachos -p to\<close>, finds the file system on the disk that
  the first has left and prints the bytes of the host's file. No assertion fails on the way.
\<close>

theorem two_runs_roundtrip:
  assumes "FILESYS b" "FILESYS_NEEDED b" "plain_arg from" "plain_arg to" "idle_disk d" "uninit_ok u" "\<And>i j. uninit_ok (mem i j)"
    "files_of_host from = Some bs" "length bs \<le> NumDirect * SectorSize" "length bs < n"
  shows "\<exists>d' d''. nachos_files b files_of_host u mem junk n [prog, ''-f'', ''-cp'', from, to] d = Some (Inr ([Copy_reply Copied], True, d')) \<and>
     nachos_files b files_of_host' u' mem junk' n [prog', ''-p'', to] d' = Some (Inr ([Print_reply (Some bs)], True, d''))"
proof -
  have a: "plain_arg ''-cp''" "plain_arg ''-p''" by (simp_all add: plain_arg_def)
  have i: "Initialize_args b [''-f'', ''-cp'', from, to] no_flags = Inr (no_flags\<lparr>format := True\<rparr>)"
    "Initialize_args b [''-p'', to] no_flags = Inr no_flags"
    using assms(2-4) a by (simp_all add: Initialize_args_format Initialize_args_plain)
  have nm: "is_name (c_string to)" by (simp add: readable_def)
  have "int (length bs) \<le> int (NumDirect * SectorSize)" using assms(9) by (simp only: of_nat_le_iff)
  from format_fits [OF assms(5,6) _ this, of "c_string to"] obtain fs d0 where
    f: "FileSystem_ctor u True d = Inr (fs, d0)" "fs_ok fs d0" "fits (c_string to) (int (length bs)) (abs_fs fs d0)" by auto
  from Copy_ok [OF f(2) assms(7) assms(7) nm assms(9) f(3)] obtain d' where
    c: "Copy junk (mem 0 0) (mem 0 1) (Some bs) (c_string to) fs d0 = Inr (Copied, d')" "fs_ok fs d'"
      "abs_fs fs d' = ((files fs d0)(fkey (c_string to) \<mapsto> bs), snd (abs_fs fs d0) - sectors_for (int (length bs)))" by blast
  from mount_ok [OF c(2)] obtain fs' d1 where
    m: "FileSystem_ctor u' False d' = Inr (fs', d1)" "fs_ok fs' d1" "files fs' d1 = files fs d'" by blast
  have "files fs' d1 (fkey (c_string to)) = Some bs" using c(3) m(3) by (simp add: abs_fs_def)
  from Print_ok [OF m(2) assms(7) nm this assms(10)] obtain d'' where
    p: "Print n (mem 0 0) (c_string to) fs' d1 = Some (Inr (Some bs, d''))" by blast
  have "nachos_files b files_of_host u mem junk n [prog, ''-f'', ''-cp'', from, to] d = Some (Inr ([Copy_reply Copied], True, d'))"
    using i(1) f(1) c(1) assms(8) copy_line(1) [OF assms(1)] by (simp add: nachos_files_def)
  moreover have "nachos_files b files_of_host' u' mem junk' n [prog', ''-p'', to] d' = Some (Inr ([Print_reply (Some bs)], True, d''))"
    using i(2) m(1) p copy_line(2) [OF assms(1)] by (simp add: nachos_files_def no_flags_def)
  ultimately show ?thesis by blast
qed

theorem two_runs_roundtrip_witness:
  "\<exists>d d' d''. Disk_ctor None = Inr d \<and>
     nachos_files \<lparr>THREADS = True, USER_PROGRAM = True, FILESYS_NEEDED = True, FILESYS = True, NETWORK = False\<rparr> (\<lambda>_. Some [1, 2, 3]) zero_memory
       (\<lambda>_ _. zero_memory) (\<lambda>_ _. 0) 10 [''nachos'', ''-f'', ''-cp'', ''small'', ''file''] d = Some (Inr ([Copy_reply Copied], True, d')) \<and>
     nachos_files \<lparr>THREADS = True, USER_PROGRAM = True, FILESYS_NEEDED = True, FILESYS = True, NETWORK = False\<rparr> (\<lambda>_. None) zero_memory
       (\<lambda>_ _. zero_memory) (\<lambda>_ _. 0) 10 [''nachos'', ''-p'', ''file''] d' = Some (Inr ([Print_reply (Some [1, 2, 3])], True, d''))"
proof -
  from new_disk obtain d where d: "Disk_ctor None = Inr d" "idle_disk d" by blast
  have "plain_arg ''small''" "plain_arg ''file''" "length [1, 2, 3 :: byte] \<le> NumDirect * SectorSize" "length [1, 2, 3 :: byte] < 10"
    by (simp_all add: plain_arg_def NumDirect_def SectorSize_def)
  from two_runs_roundtrip [OF _ _ this(1,2) d(2) zero_memory_ok zero_memory_ok _ this(3,4)] d(1) show ?thesis by fastforce
qed

end
