(* ===== verification/User_Memory.thy ===== *)
theory User_Memory
  imports Disk
begin

text \<open>
  The memory of the simulated machine that runs user programs (\<open>machine/machine.cc\<close>,
  \<open>machine/translate.cc\<close>): registers, physical memory, the translation of virtual addresses by a
  page table or a TLB, reads and writes of 1, 2 or 4 bytes, and the trap into the kernel. All
  addresses and registers are 32-bit words.

  \<open>'k\<close> is the kernel's own state, and the exception handler that a trap calls is part of the
  \<open>host\<close>; \<open>userprog/exception.cc\<close> is its model in the theory \<open>Syscalls\<close>.

  The lemmas show that translation cannot leave physical memory, whatever the kernel has loaded
  into the page table, which accesses succeed and which exceptions the others raise, that a
  read returns what was last written, that different frames do not interfere, and that the byte
  order of the host does not matter.
\<close>

section \<open>Byte order\<close>

unbundle bit_operations_syntax

definition WordToHost :: "bool \<Rightarrow> 32 word \<Rightarrow> 32 word" where
  "WordToHost big w =
     (if big then (drop_bit 24 w AND 0x000000ff) OR (drop_bit 8 w AND 0x0000ff00) OR
                  (push_bit 8 w AND 0x00ff0000) OR (push_bit 24 w AND 0xff000000)
      else w)"

definition ShortToHost :: "bool \<Rightarrow> 16 word \<Rightarrow> 16 word" where
  "ShortToHost big w =
     (if big then (push_bit 8 w AND 0xff00) OR (drop_bit 8 w AND 0x00ff) else w)"

definition WordToMachine :: "bool \<Rightarrow> 32 word \<Rightarrow> 32 word" where
  "WordToMachine big w = WordToHost big w"

definition ShortToMachine :: "bool \<Rightarrow> 16 word \<Rightarrow> 16 word" where
  "ShortToMachine big w = ShortToHost big w"

text \<open>An \<open>unsigned int\<close> and an \<open>unsigned short\<close> in the memory of a big- or little-endian host.\<close>

definition short_bytes :: "16 word \<Rightarrow> byte list" where
  "short_bytes w = [ucast w, ucast (drop_bit 8 w)]"

fun bytes_short :: "byte list \<Rightarrow> 16 word" where
  "bytes_short (a # b # _) = ucast a OR push_bit 8 (ucast b)"
| "bytes_short _ = 0"

definition host_word :: "bool \<Rightarrow> byte list \<Rightarrow> 32 word" where
  "host_word big bs = bytes_word (if big then rev bs else bs)"

definition host_word_bytes :: "bool \<Rightarrow> 32 word \<Rightarrow> byte list" where
  "host_word_bytes big w = (if big then rev (word_bytes w) else word_bytes w)"

definition host_short :: "bool \<Rightarrow> byte list \<Rightarrow> 16 word" where
  "host_short big bs = bytes_short (if big then rev bs else bs)"

definition host_short_bytes :: "bool \<Rightarrow> 16 word \<Rightarrow> byte list" where
  "host_short_bytes big w = (if big then rev (short_bytes w) else short_bytes w)"

section \<open>The machine\<close>

definition PageSize :: nat where "PageSize = SectorSize"
definition NumPhysPages :: nat where "NumPhysPages = 32"
definition MemorySize :: nat where "MemorySize = NumPhysPages * PageSize"
definition TLBSize :: nat where "TLBSize = 4"
definition NumTotalRegs :: nat where "NumTotalRegs = 40"

lemmas machine_consts = PageSize_def NumPhysPages_def MemorySize_def TLBSize_def NumTotalRegs_def SectorSize_def

definition StackReg :: nat where "StackReg = 29"
definition RetAddrReg :: nat where "RetAddrReg = 31"
definition HiReg :: nat where "HiReg = 32"
definition LoReg :: nat where "LoReg = 33"
definition PCReg :: nat where "PCReg = 34"
definition NextPCReg :: nat where "NextPCReg = 35"
definition PrevPCReg :: nat where "PrevPCReg = 36"
definition LoadReg :: nat where "LoadReg = 37"
definition LoadValueReg :: nat where "LoadValueReg = 38"
definition BadVAddrReg :: nat where "BadVAddrReg = 39"

lemmas reg_consts = StackReg_def RetAddrReg_def HiReg_def LoReg_def PCReg_def NextPCReg_def PrevPCReg_def
  LoadReg_def LoadValueReg_def BadVAddrReg_def

datatype ExceptionType = NoException | SyscallException | PageFaultException | ReadOnlyException
  | BusErrorException | AddressErrorException | OverflowException | IllegalInstrException

record TranslationEntry =
  virtualPage :: "32 word"
  physicalPage :: "32 word"
  valid :: bool
  readOnly :: bool
  use :: bool
  dirty :: bool

record Machine =
  mainMemory :: "byte list"
  registers :: "32 word list"
  tlb :: "TranslationEntry list option"
  pageTable :: "TranslationEntry list option"
  pageTableSize :: "32 word"
  lastUsed :: "int list"
  singleStep :: bool

text \<open>
  The whole system as a user program's execution changes it: the machine, the mode of
  \<open>interrupt->setStatus\<close>, the clock and the kernel.
\<close>

record 'k system =
  cpu :: Machine
  mode :: MachineStatus
  clock :: int
  rest :: 'k

record 'k host =
  big_endian :: bool
  ExceptionHandler :: "ExceptionType \<Rightarrow> 'k system \<Rightarrow> 'k system result"

text \<open>\<open>junk\<close> is the memory that \<open>new TranslationEntry[TLBSize]\<close> returns.\<close>

definition CheckEndian :: "bool \<Rightarrow> unit result" where
  "CheckEndian big = ASSERT (host_word big [1, 2, 3, 4] = (if big then 0x01020304 else 0x04030201))"

definition Machine_ctor ::
  "bool \<Rightarrow> bool \<Rightarrow> (nat \<Rightarrow> TranslationEntry) \<Rightarrow> 32 word \<Rightarrow> int \<Rightarrow> bool \<Rightarrow> Machine result" where
  "Machine_ctor big USE_TLB junk junk_size ticks debug =
     bind_result (CheckEndian big) (\<lambda>_.
       Inr \<lparr>mainMemory = replicate MemorySize 0, registers = replicate NumTotalRegs 0,
            tlb = (if USE_TLB then Some (map (\<lambda>i. (junk i)\<lparr>valid := False\<rparr>) [0..<TLBSize]) else None),
            pageTable = None, pageTableSize = junk_size, lastUsed = replicate NumPhysPages ticks,
            singleStep = debug\<rparr>)"

definition getTimeUsed :: "int \<Rightarrow> Machine \<Rightarrow> int result" where
  "getTimeUsed pageNo m =
     (if pageNo < 0 \<or> pageNo \<ge> int NumPhysPages then Inr (- 1) else array_get (lastUsed m) pageNo)"

definition ReadRegister :: "int \<Rightarrow> Machine \<Rightarrow> 32 word result" where
  "ReadRegister num m =
     bind_result (ASSERT (num \<ge> 0 \<and> num < int NumTotalRegs)) (\<lambda>_. array_get (registers m) num)"

definition WriteRegister :: "int \<Rightarrow> 32 word \<Rightarrow> Machine \<Rightarrow> Machine result" where
  "WriteRegister num v m =
     bind_result (ASSERT (num \<ge> 0 \<and> num < int NumTotalRegs)) (\<lambda>_.
     bind_result (array_set (registers m) num v) (\<lambda>r. Inr (m\<lparr>registers := r\<rparr>)))"

text \<open>The registers from inside the machine: plain array accesses.\<close>

abbreviation reg :: "Machine \<Rightarrow> nat \<Rightarrow> 32 word" where
  "reg m i \<equiv> registers m ! i"

abbreviation set_reg :: "nat \<Rightarrow> 32 word \<Rightarrow> Machine \<Rightarrow> Machine" where
  "set_reg i v m \<equiv> m\<lparr>registers := (registers m)[i := v]\<rparr>"

definition DelayedLoad :: "32 word \<Rightarrow> 32 word \<Rightarrow> Machine \<Rightarrow> Machine result" where
  "DelayedLoad nextReg nextValue m =
     bind_result (array_set (registers m) (sint (reg m LoadReg)) (reg m LoadValueReg)) (\<lambda>r.
       Inr (m\<lparr>registers := r[LoadReg := nextReg, LoadValueReg := nextValue, 0 := 0]\<rparr>))"

definition RaiseException :: "'k host \<Rightarrow> ExceptionType \<Rightarrow> 32 word \<Rightarrow> 'k system \<Rightarrow> 'k system result" where
  "RaiseException h which badVAddr s =
     bind_result (DelayedLoad 0 0 (set_reg BadVAddrReg badVAddr (cpu s))) (\<lambda>m.
     bind_result (ExceptionHandler h which (s\<lparr>cpu := m, mode := SystemMode\<rparr>)) (\<lambda>s.
       Inr (s\<lparr>mode := UserMode\<rparr>)))"

section \<open>Translation\<close>

text \<open>The result of \<open>Translate\<close>: an exception or a physical address.\<close>

datatype translation = Fault ExceptionType | Phys nat

fun find_tlb :: "nat \<Rightarrow> 32 word \<Rightarrow> TranslationEntry list \<Rightarrow> nat option" where
  "find_tlb i vpn [] = None"
| "find_tlb i vpn (e # es) = (if valid e \<and> virtualPage e = vpn then Some i else find_tlb (Suc i) vpn es)"

text \<open>The entry that \<open>entry\<close> points to, as an index into the table in use.\<close>

definition find_entry :: "32 word \<Rightarrow> Machine \<Rightarrow> (ExceptionType + int) result" where
  "find_entry vpn m =
     (case (tlb m, pageTable m) of
        (None, Some t) \<Rightarrow>
          if vpn \<ge> pageTableSize m then Inr (Inl AddressErrorException)
          else bind_result (array_get t (uint vpn)) (\<lambda>e.
                 if \<not> valid e then Inr (Inl PageFaultException) else Inr (Inr (uint vpn)))
      | (Some t, None) \<Rightarrow>
          (case find_tlb 0 vpn (take TLBSize t) of
             None \<Rightarrow> Inr (Inl PageFaultException)
           | Some i \<Rightarrow> Inr (Inr (int i)))
      | _ \<Rightarrow> Inl ASSERT_FAILED)"

definition the_table :: "Machine \<Rightarrow> TranslationEntry list" where
  "the_table m = (case tlb m of Some t \<Rightarrow> t | None \<Rightarrow> (case pageTable m of Some t \<Rightarrow> t | None \<Rightarrow> []))"

definition set_table :: "TranslationEntry list \<Rightarrow> Machine \<Rightarrow> Machine" where
  "set_table t m = (if tlb m = None then m\<lparr>pageTable := Some t\<rparr> else m\<lparr>tlb := Some t\<rparr>)"

definition Translate :: "32 word \<Rightarrow> nat \<Rightarrow> bool \<Rightarrow> Machine \<Rightarrow> (translation \<times> Machine) result" where
  "Translate virtAddr sz writing m =
     (if (sz = 4 \<and> virtAddr AND 0x3 \<noteq> 0) \<or> (sz = 2 \<and> virtAddr AND 0x1 \<noteq> 0)
      then Inr (Fault AddressErrorException, m)
      else
        bind_result (ASSERT (tlb m = None \<or> pageTable m = None)) (\<lambda>_.
        bind_result (ASSERT (tlb m \<noteq> None \<or> pageTable m \<noteq> None)) (\<lambda>_.
        let vpn = virtAddr div of_nat PageSize; off = virtAddr mod of_nat PageSize in
        bind_result (find_entry vpn m) (\<lambda>found.
          case found of
            Inl e \<Rightarrow> Inr (Fault e, m)
          | Inr i \<Rightarrow>
              bind_result (array_get (the_table m) i) (\<lambda>entry.
              if readOnly entry \<and> writing then Inr (Fault ReadOnlyException, m)
              else
                let pageFrame = physicalPage entry in
                if pageFrame \<ge> of_nat NumPhysPages then Inr (Fault BusErrorException, m)
                else
                  let entry = (if writing then entry\<lparr>use := True, dirty := True\<rparr> else entry\<lparr>use := True\<rparr>);
                      physAddr = pageFrame * of_nat PageSize + off
                  in bind_result (array_set (the_table m) i entry) (\<lambda>t.
                     bind_result (ASSERT (sint physAddr \<ge> 0 \<and> sint physAddr + int sz \<le> int MemorySize)) (\<lambda>_.
                       Inr (Phys (unat physAddr), set_table t m))))))))"

section \<open>Reading and writing\<close>

definition mem_get :: "nat \<Rightarrow> nat \<Rightarrow> Machine \<Rightarrow> byte list result" where
  "mem_get a n m = (if a + n \<le> length (mainMemory m) then Inr (read_at a n (mainMemory m)) else Inl UNDEFINED)"

definition mem_put :: "nat \<Rightarrow> byte list \<Rightarrow> Machine \<Rightarrow> Machine result" where
  "mem_put a bs m =
     (if a + length bs \<le> length (mainMemory m) then Inr (m\<lparr>mainMemory := write_at a bs (mainMemory m)\<rparr>)
      else Inl UNDEFINED)"

text \<open>The \<open>switch (size)\<close> of \<open>ReadMem\<close>: a \<open>char\<close> is signed, so that one byte is sign-extended.\<close>

definition load :: "bool \<Rightarrow> nat \<Rightarrow> nat \<Rightarrow> Machine \<Rightarrow> 32 word result" where
  "load big sz a m =
     (if sz = 1 then bind_result (mem_get a 1 m) (\<lambda>bs. Inr (scast (hd bs)))
      else if sz = 2 then bind_result (mem_get a 2 m) (\<lambda>bs. Inr (ucast (ShortToHost big (host_short big bs))))
      else if sz = 4 then bind_result (mem_get a 4 m) (\<lambda>bs. Inr (WordToHost big (host_word big bs)))
      else Inl ASSERT_FAILED)"

definition store :: "bool \<Rightarrow> nat \<Rightarrow> nat \<Rightarrow> 32 word \<Rightarrow> Machine \<Rightarrow> Machine result" where
  "store big sz a v m =
     (if sz = 1 then mem_put a [ucast (v AND 0xff)] m
      else if sz = 2 then mem_put a (host_short_bytes big (ShortToMachine big (ucast (v AND 0xffff)))) m
      else if sz = 4 then mem_put a (host_word_bytes big (WordToMachine big v)) m
      else Inl ASSERT_FAILED)"

definition touch :: "nat \<Rightarrow> int \<Rightarrow> Machine \<Rightarrow> Machine result" where
  "touch a ticks m =
     bind_result (array_set (lastUsed m) (int (a div PageSize)) ticks) (\<lambda>l. Inr (m\<lparr>lastUsed := l\<rparr>))"

text \<open>\<open>None\<close> stands for the return value FALSE.\<close>

definition ReadMem :: "'k host \<Rightarrow> 32 word \<Rightarrow> nat \<Rightarrow> 'k system \<Rightarrow> (32 word option \<times> 'k system) result" where
  "ReadMem h addr sz s =
     bind_result (Translate addr sz False (cpu s)) (\<lambda>(r, m).
       case r of
         Fault e \<Rightarrow> bind_result (RaiseException h e addr (s\<lparr>cpu := m\<rparr>)) (\<lambda>s. Inr (None, s))
       | Phys a \<Rightarrow>
           bind_result (load (big_endian h) sz a m) (\<lambda>v.
           bind_result (touch a (clock s) m) (\<lambda>m. Inr (Some v, s\<lparr>cpu := m\<rparr>))))"

definition WriteMem :: "'k host \<Rightarrow> 32 word \<Rightarrow> nat \<Rightarrow> 32 word \<Rightarrow> 'k system \<Rightarrow> (bool \<times> 'k system) result" where
  "WriteMem h addr sz v s =
     bind_result (Translate addr sz True (cpu s)) (\<lambda>(r, m).
       case r of
         Fault e \<Rightarrow> bind_result (RaiseException h e addr (s\<lparr>cpu := m\<rparr>)) (\<lambda>s. Inr (False, s))
       | Phys a \<Rightarrow>
           bind_result (store (big_endian h) sz a v m) (\<lambda>m.
           bind_result (touch a (clock s) m) (\<lambda>m. Inr (True, s\<lparr>cpu := m\<rparr>))))"

section \<open>The byte order of the host does not matter\<close>

lemma swap_bit:
  "bit (WordToHost True w) n \<longleftrightarrow>
     (if n < 8 then bit w (n + 24) else if n < 16 then bit w (n + 8) else if n < 24 then bit w (n - 8)
      else n < 32 \<and> bit w (n - 24))"
proof -
  have m: "(0xff :: 32 word) = mask 8" "(0xff00 :: 32 word) = push_bit 8 (mask 8)"
    "(0xff0000 :: 32 word) = push_bit 16 (mask 8)" "(0xff000000 :: 32 word) = push_bit 24 (mask 8)"
    by (simp_all add: mask_eq_exp_minus_1 push_bit_eq_mult)
  show ?thesis
  proof (cases "n < 32")
    case True
    then consider "n < 8" | "8 \<le> n" "n < 16" | "16 \<le> n" "n < 24" | "24 \<le> n" "n < 32" by linarith
    then show ?thesis by cases (auto simp: WordToHost_def m bit_simps add.commute)
  next
    case False
    then show ?thesis using bit_imp_le_length [of "WordToHost True w" n] by auto
  qed
qed

lemma bytes_word_bit:
  assumes "n < 32"
  shows "bit (bytes_word [a, b, c, d]) n \<longleftrightarrow>
     (if n < 8 then bit a n else if n < 16 then bit b (n - 8) else if n < 24 then bit c (n - 16) else bit d (n - 24))"
proof -
  from assms consider "n < 8" | "8 \<le> n" "n < 16" | "16 \<le> n" "n < 24" | "24 \<le> n" "n < 32" by linarith
  then show ?thesis by cases (auto simp: bit_simps dest: bit_imp_le_length)
qed

lemma host_word_swap: "WordToHost big (host_word big [a, b, c, d]) = bytes_word [a, b, c, d]"
proof (cases big)
  case True
  have "bit (WordToHost True (bytes_word [d, c, b, a])) n = bit (bytes_word [a, b, c, d]) n" if "n < 32" for n
    using that by (auto simp: swap_bit bytes_word_bit simp del: bytes_word.simps)
  then have "WordToHost True (bytes_word [d, c, b, a]) = bytes_word [a, b, c, d]" by (intro bit_word_eqI) simp
  with True show ?thesis by (simp add: host_word_def)
qed (simp add: host_word_def WordToHost_def)

lemma list_of_4: "length bs = 4 \<Longrightarrow> \<exists>a b c d. bs = [a, b, c, d]"
  by (auto simp: numeral_eq_Suc length_Suc_conv)

lemma list_of_2: "length bs = 2 \<Longrightarrow> \<exists>a b. bs = [a, b]"
  by (auto simp: numeral_eq_Suc length_Suc_conv)

lemma word_bytes_of: "\<exists>a b c d. w = bytes_word [a, b, c, d] \<and> word_bytes w = [a, b, c, d]"
  using list_of_4 [OF length_word_bytes, of w] bytes_word_bytes [of w "[]"] by (metis append_Nil2)

lemma host_word_bytes_swap: "host_word_bytes big (WordToMachine big w) = word_bytes w"
proof (cases big)
  case True
  obtain a b c d where w: "w = bytes_word [a, b, c, d]" "word_bytes w = [a, b, c, d]" using word_bytes_of by blast
  have "WordToHost True w = bytes_word [d, c, b, a]"
    using host_word_swap [of True d c b a] w(1) by (simp add: host_word_def)
  with True w(2) show ?thesis using word_bytes_bytes [of d c b a] by (simp add: host_word_bytes_def WordToMachine_def)
qed (simp add: host_word_bytes_def WordToMachine_def WordToHost_def)

lemma host_short_swap: "ShortToHost big (host_short big [a, b]) = bytes_short [a, b]"
proof (cases big)
  case True
  have m: "(0xff :: 16 word) = mask 8" "(0xff00 :: 16 word) = push_bit 8 (mask 8)"
    by (simp_all add: mask_eq_exp_minus_1 push_bit_eq_mult)
  have "bit (ShortToHost True (bytes_short [b, a])) n = bit (bytes_short [a, b]) n" if "n < 16" for n
    using that by (cases "n < 8") (auto simp: ShortToHost_def m bit_simps dest: bit_imp_le_length)
  then have "ShortToHost True (bytes_short [b, a]) = bytes_short [a, b]" by (intro bit_word_eqI) simp
  with True show ?thesis by (simp add: host_short_def)
qed (simp add: host_short_def ShortToHost_def)

lemma host_short_bytes_swap: "host_short_bytes big (ShortToMachine big w) = short_bytes w"
proof (cases big)
  case True
  have m: "(0xff :: 16 word) = mask 8" "(0xff00 :: 16 word) = push_bit 8 (mask 8)"
    by (simp_all add: mask_eq_exp_minus_1 push_bit_eq_mult)
  have "ucast (drop_bit 8 (ShortToHost True w)) = (ucast w :: byte)" "ucast (ShortToHost True w) = (ucast (drop_bit 8 w) :: byte)"
    by (rule bit_word_eqI; auto simp: ShortToHost_def m bit_simps)+
  with True show ?thesis by (simp add: host_short_bytes_def ShortToMachine_def short_bytes_def)
qed (simp add: host_short_bytes_def ShortToMachine_def ShortToHost_def)

lemma load_endian: "load big sz a m = load False sz a m"
proof -
  have "ucast (ShortToHost big (host_short big bs)) = (ucast (ShortToHost False (host_short False bs)) :: 32 word)" if "length bs = 2" for bs
    using list_of_2 [OF that] host_short_swap by auto
  moreover have "WordToHost big (host_word big bs) = WordToHost False (host_word False bs)" if "length bs = 4" for bs
    using list_of_4 [OF that] host_word_swap by auto
  ultimately show ?thesis by (simp add: load_def mem_get_def)
qed

lemma store_endian: "store big sz a v m = store False sz a v m"
  by (simp add: store_def host_word_bytes_swap host_short_bytes_swap)

section \<open>Arithmetic of addresses\<close>

lemma sint_small:
  assumes "unat w < 2 ^ 31"
  shows "sint (w :: 32 word) = int (unat w)"
proof -
  have "int (unat w) < 2 ^ 31" using assms by (metis of_nat_less_iff of_nat_numeral of_nat_power)
  then have "uint w < 2 ^ 31" by simp
  moreover have "- (2 ^ 31) \<le> uint w" by (rule order_trans [of _ 0]) simp_all
  ultimately have "signed_take_bit 31 (uint w) = uint w" by (intro signed_take_bit_int_eq_self)
  then show ?thesis by (simp add: sint_uint)
qed

lemma low_bits:
  fixes va :: "32 word"
  shows "va AND 3 = 0 \<longleftrightarrow> unat va mod 4 = 0" "va AND 1 = 0 \<longleftrightarrow> unat va mod 2 = 0"
proof -
  have "va AND 3 = take_bit 2 va" "va AND 1 = take_bit 1 va" by (simp_all add: take_bit_eq_mask mask_eq_exp_minus_1)
  then have "va AND 3 = va mod 4" "va AND 1 = va mod 2" by (simp_all add: take_bit_eq_mod)
  moreover have "unat (va mod 4) = unat va mod 4" "unat (va mod 2) = unat va mod 2" by (simp_all add: unat_mod)
  ultimately show "va AND 3 = 0 \<longleftrightarrow> unat va mod 4 = 0" "va AND 1 = 0 \<longleftrightarrow> unat va mod 2 = 0"
    by (metis unsigned_0 unat_eq_zero)+
qed

lemma phys_arith:
  fixes pf va :: "32 word"
  assumes "pf < 32"
  shows "unat (pf * 128 + va mod 128) = unat pf * 128 + unat va mod 128" "unat pf < 32"
    "unat (pf * 128 + va mod 128) < 4096" "sint (pf * 128 + va mod 128) = int (unat (pf * 128 + va mod 128))"
proof -
  show p: "unat pf < 32" using assms by (simp add: word_less_nat_alt)
  have m: "unat (va mod 128) = unat va mod 128" by (simp add: unat_mod)
  have lt: "unat va mod 128 < 128" by simp
  have "unat (pf * 128) = unat pf * 128" using p by (simp add: unat_word_ariths)
  then show u: "unat (pf * 128 + va mod 128) = unat pf * 128 + unat va mod 128"
    using p lt by (simp add: unat_word_ariths m)
  show l: "unat (pf * 128 + va mod 128) < 4096" unfolding u using p lt by linarith
  then show "sint (pf * 128 + va mod 128) = int (unat (pf * 128 + va mod 128))" by (intro sint_small) simp
qed

text \<open>An access that is aligned does not leave the page it starts in.\<close>

definition aligned :: "32 word \<Rightarrow> nat \<Rightarrow> bool" where
  "aligned va sz \<longleftrightarrow> sz \<in> {1, 2, 4} \<and> unat va mod sz = 0"

lemma page_end:
  assumes "aligned va sz" "n < 32"
  shows "n * 128 + unat va mod 128 + sz \<le> (n + 1) * 128"
proof -
  have "unat va mod 128 + sz \<le> 128"
  proof -
    obtain q where q: "128 = sz * q" using assms(1) unfolding aligned_def
      by (auto intro: that [of 128] that [of 64] that [of 32])
    have z: "0 < sz" "unat va mod 128 mod sz = 0" using assms(1) q by (auto simp: aligned_def mod_mod_cancel)
    then obtain r where r: "unat va mod 128 = sz * r" by (metis mod_0_imp_dvd dvdE)
    have "sz * r < sz * q" using r q by (metis mod_less_divisor zero_less_numeral)
    then have "r + 1 \<le> q" by (simp add: z)
    then have "sz * (r + 1) \<le> sz * q" by (rule mult_le_mono2)
    then show ?thesis using r q by simp
  qed
  then show ?thesis by simp
qed

section \<open>Safety of translation\<close>

text \<open>
  The state of the machine between two operations. Nothing is assumed about the entries of the
  tables: the kernel may have loaded anything.
\<close>

definition machine_ok :: "Machine \<Rightarrow> bool" where
  "machine_ok m \<longleftrightarrow> length (mainMemory m) = MemorySize \<and> length (registers m) = NumTotalRegs \<and>
     length (lastUsed m) = NumPhysPages \<and> unat (reg m LoadReg) < 32 \<and>
     (case (tlb m, pageTable m) of
        (None, Some t) \<Rightarrow> unat (pageTableSize m) \<le> length t
      | (Some t, None) \<Rightarrow> length t = TLBSize
      | _ \<Rightarrow> False)"

lemma find_tlb_bound: "find_tlb i vpn es = Some j \<Longrightarrow> i \<le> j \<and> j < i + length es"
  by (induction i vpn es rule: find_tlb.induct) (auto split: if_splits)

lemma find_entry_ok:
  assumes "machine_ok m"
  shows "\<exists>r. find_entry vpn m = Inr r \<and> (\<forall>i. r = Inr i \<longrightarrow> 0 \<le> i \<and> i < int (length (the_table m)))"
proof (cases "tlb m")
  case None
  then obtain t where t: "pageTable m = Some t" "unat (pageTableSize m) \<le> length t"
    using assms by (auto simp: machine_ok_def split: option.splits)
  show ?thesis
  proof (cases "vpn \<ge> pageTableSize m")
    case False
    then have "unat vpn < length t" using t(2) by (simp add: word_less_nat_alt not_le)
    then have "uint vpn < int (length t)" by (metis uint_nat of_nat_less_iff)
    then show ?thesis using None t False by (auto simp: find_entry_def the_table_def)
  qed (use None t in \<open>simp add: find_entry_def\<close>)
next
  case (Some t)
  then have "pageTable m = None" "length t = TLBSize" using assms by (auto simp: machine_ok_def split: option.splits)
  then show ?thesis using Some
    by (cases "find_tlb 0 vpn (take TLBSize t)") (auto simp: find_entry_def the_table_def dest: find_tlb_bound)
qed

lemma set_table_ok:
  assumes "machine_ok m" "length t = length (the_table m)"
  shows "machine_ok (set_table t m)" "mainMemory (set_table t m) = mainMemory m" "registers (set_table t m) = registers m"
    "lastUsed (set_table t m) = lastUsed m" "the_table (set_table t m) = t"
  using assms by (auto simp: set_table_def machine_ok_def the_table_def split: option.splits)

text \<open>
  Translation always returns. On success the address lies in the frame the entry names, and
  the whole access does; only use and dirty bits of that one entry change.
\<close>

definition translated :: "32 word \<Rightarrow> nat \<Rightarrow> bool \<Rightarrow> Machine \<Rightarrow> nat \<Rightarrow> Machine \<Rightarrow> bool" where
  "translated va sz writing m a m' \<longleftrightarrow> aligned va sz \<and> (\<exists>i < length (the_table m). \<exists>e. e = the_table m ! i \<and>
     \<not> (readOnly e \<and> writing) \<and> unat (physicalPage e) < NumPhysPages \<and>
     a = unat (physicalPage e) * PageSize + unat va mod PageSize \<and>
     a + sz \<le> (unat (physicalPage e) + 1) * PageSize \<and>
     find_entry (va div of_nat PageSize) m = Inr (Inr (int i)) \<and>
     m' = set_table ((the_table m)[i := e\<lparr>use := True, dirty := dirty e \<or> writing\<rparr>]) m)"

lemma Translate_phys:
  assumes "machine_ok m" "aligned va sz" "find_entry (va div of_nat PageSize) m = Inr (Inr (int i))" "i < length (the_table m)"
    and e: "e = the_table m ! i" "\<not> (readOnly e \<and> writing)" "physicalPage e < 32"
  shows "\<exists>a m'. Translate va sz writing m = Inr (Phys a, m') \<and> translated va sz writing m a m'"
proof -
  have c: "\<not> ((sz = 4 \<and> va AND 3 \<noteq> 0) \<or> (sz = 2 \<and> va AND 1 \<noteq> 0))" using assms(2) by (auto simp: aligned_def low_bits)
  have as: "tlb m = None \<or> pageTable m = None" "tlb m \<noteq> None \<or> pageTable m \<noteq> None"
    using assms(1) by (auto simp: machine_ok_def split: option.splits)
  let ?a = "physicalPage e * 128 + va mod 128"
  let ?e' = "if writing then e\<lparr>use := True, dirty := True\<rparr> else e\<lparr>use := True\<rparr>"
  have pg: "(of_nat PageSize :: 32 word) = 128" "(of_nat NumPhysPages :: 32 word) = 32" by (simp_all add: machine_consts)
  note pa = phys_arith(1,3,4) [OF e(3), of va] and p2 = phys_arith(2) [OF e(3)]
  have pe: "unat (physicalPage e) * 128 + unat va mod 128 + sz \<le> (unat (physicalPage e) + 1) * 128"
    by (rule page_end [OF assms(2) p2])
  have "unat ?a + sz \<le> 4096" unfolding pa(1) by (rule order_trans [OF pe]) (use p2 in simp)
  then have le: "sint ?a \<ge> 0 \<and> sint ?a + int sz \<le> int MemorySize"
    unfolding pa(3) by (simp add: machine_consts del: of_nat_unat)
  have T: "Translate va sz writing m = Inr (Phys (unat ?a), set_table ((the_table m)[i := ?e']) m)"
    using c as assms(3,4) e le by (simp add: Translate_def pg Let_def)
  have e': "?e' = e\<lparr>use := True, dirty := dirty e \<or> writing\<rparr>" by simp
  have "translated va sz writing m (unat ?a) (set_table ((the_table m)[i := ?e']) m)"
    unfolding translated_def e' using assms(3,4) e pa(1) p2 pe
    by (intro conjI [OF assms(2)] exI [of _ i]) (simp add: machine_consts)
  with T show ?thesis by blast
qed

lemma translated_machine_ok: "translated va sz writing m a m' \<Longrightarrow> machine_ok m \<Longrightarrow> machine_ok m'"
  by (auto simp: translated_def set_table_ok(1))

lemma Translate_ok:
  assumes "machine_ok m" "sz \<in> {1, 2, 4}"
  shows "\<exists>r m'. Translate va sz writing m = Inr (r, m') \<and> machine_ok m' \<and>
     (case r of Fault e \<Rightarrow> m' = m \<and> e \<notin> {NoException, SyscallException}
      | Phys a \<Rightarrow> aligned va sz \<and> translated va sz writing m a m')"
proof (cases "aligned va sz")
  case False
  then have "(sz = 4 \<and> va AND 3 \<noteq> 0) \<or> (sz = 2 \<and> va AND 1 \<noteq> 0)" using assms(2) by (auto simp: aligned_def low_bits)
  then show ?thesis using assms(1) by (auto simp: Translate_def)
next
  case al: True
  then have c: "\<not> ((sz = 4 \<and> va AND 3 \<noteq> 0) \<or> (sz = 2 \<and> va AND 1 \<noteq> 0))" by (auto simp: aligned_def low_bits)
  have as: "tlb m = None \<or> pageTable m = None" "tlb m \<noteq> None \<or> pageTable m \<noteq> None"
    using assms(1) by (auto simp: machine_ok_def split: option.splits)
  from find_entry_ok [OF assms(1), of "va div of_nat PageSize"] obtain r where r: "find_entry (va div of_nat PageSize) m = Inr r"
    "\<forall>i. r = Inr i \<longrightarrow> 0 \<le> i \<and> i < int (length (the_table m))" by blast
  show ?thesis
  proof (cases r)
    case (Inl e)
    moreover have "e \<notin> {NoException, SyscallException}"
      using r(1) Inl by (auto simp: find_entry_def array_get_def split: option.splits if_splits)
    ultimately show ?thesis using c as r(1) assms(1) by (simp add: Translate_def)
  next
    case (Inr j)
    then obtain i where i: "j = int i" "i < length (the_table m)" using r(2) zero_le_imp_eq_int by fastforce
    have pg: "(of_nat NumPhysPages :: 32 word) = 32" by (simp add: machine_consts)
    show ?thesis
    proof (cases "(readOnly (the_table m ! i) \<and> writing) \<or> physicalPage (the_table m ! i) \<ge> 32")
      case True
      then show ?thesis using c as r(1) Inr i assms(1) by (auto simp: Translate_def pg Let_def)
    next
      case False
      then have "\<not> (readOnly (the_table m ! i) \<and> writing)" "physicalPage (the_table m ! i) < 32" by auto
      from Translate_phys [OF assms(1) al _ i(2) refl this] r(1) Inr i(1) obtain a m' where
        "Translate va sz writing m = Inr (Phys a, m')" "translated va sz writing m a m'" by auto
      with al translated_machine_ok [OF _ assms(1)] show ?thesis by auto
    qed
  qed
qed

section \<open>Reads and writes\<close>

text \<open>What is stored and loaded, independent of the host.\<close>

definition value_of :: "nat \<Rightarrow> byte list \<Rightarrow> 32 word" where
  "value_of sz bs = (if sz = 1 then scast (hd bs) else if sz = 2 then ucast (bytes_short bs) else bytes_word bs)"

definition bytes_of :: "nat \<Rightarrow> 32 word \<Rightarrow> byte list" where
  "bytes_of sz v = (if sz = 1 then [ucast v] else if sz = 2 then short_bytes (ucast v) else word_bytes v)"

text \<open>A stored value as it is loaded again: a byte with sign, a short word without.\<close>

definition cut :: "nat \<Rightarrow> 32 word \<Rightarrow> 32 word" where
  "cut sz v = (if sz = 1 then scast (ucast v :: byte) else if sz = 2 then ucast (ucast v :: 16 word) else v)"

lemma length_bytes_of: "sz \<in> {1, 2, 4} \<Longrightarrow> length (bytes_of sz v) = sz"
  by (auto simp: bytes_of_def short_bytes_def)

lemma bytes_short_bytes: "bytes_short (short_bytes w) = w"
proof -
  have "bit (bytes_short (short_bytes w)) n = bit w n" if "n < 16" for n
    using that by (cases "n < 8") (auto simp: short_bytes_def bit_simps)
  then show ?thesis by (intro bit_word_eqI) simp
qed

lemma value_bytes_of: "sz \<in> {1, 2, 4} \<Longrightarrow> value_of sz (bytes_of sz v) = cut sz v"
  using bytes_word_bytes [of v "[]"] by (auto simp: value_of_def bytes_of_def cut_def bytes_short_bytes)

lemma load_ok:
  assumes "a + sz \<le> length (mainMemory m)" "sz \<in> {1, 2, 4}"
  shows "load big sz a m = Inr (value_of sz (read_at a sz (mainMemory m)))"
  unfolding load_endian [of big] using assms
  by (auto simp: load_def mem_get_def value_of_def ShortToHost_def host_short_def WordToHost_def host_word_def)

lemma store_ok:
  assumes "a + sz \<le> length (mainMemory m)" "sz \<in> {1, 2, 4}"
  shows "store big sz a v m = Inr (m\<lparr>mainMemory := write_at a (bytes_of sz v) (mainMemory m)\<rparr>)"
proof -
  have masks: "(0xff :: 32 word) = mask 8" "(0xffff :: 32 word) = mask 16" by (simp_all add: mask_eq_exp_minus_1)
  have u: "ucast (v AND 0xff) = (ucast v :: byte)" "ucast (v AND 0xffff) = (ucast v :: 16 word)"
    unfolding masks by (rule bit_word_eqI; simp add: bit_simps)+
  show ?thesis unfolding store_endian [of big] using assms
    by (auto simp: store_def mem_put_def bytes_of_def host_word_bytes_def host_short_bytes_def WordToMachine_def
        ShortToMachine_def WordToHost_def ShortToHost_def short_bytes_def u)
qed

lemma translated_bounds:
  assumes "translated va sz writing m a m'" "machine_ok m"
  shows "a + sz \<le> length (mainMemory m)" "a div PageSize < length (lastUsed m)" "mainMemory m' = mainMemory m"
    "registers m' = registers m" "lastUsed m' = lastUsed m" "machine_ok m'"
proof -
  from assms(1) obtain i e where i: "i < length (the_table m)" "unat (physicalPage e) < NumPhysPages"
    "a = unat (physicalPage e) * PageSize + unat va mod PageSize" "a + sz \<le> (unat (physicalPage e) + 1) * PageSize"
    "m' = set_table ((the_table m)[i := e\<lparr>use := True, dirty := dirty e \<or> writing\<rparr>]) m" by (auto simp: translated_def)
  have L: "length (mainMemory m) = 4096" "length (lastUsed m) = 32" using assms(2) by (simp_all add: machine_ok_def machine_consts)
  have "(unat (physicalPage e) + 1) * 128 \<le> 4096" using i(2) by (simp add: machine_consts)
  then show "a + sz \<le> length (mainMemory m)" using i(4) L by (simp add: machine_consts)
  have "a div 128 = unat (physicalPage e)" using i(3) by (simp add: machine_consts)
  then show "a div PageSize < length (lastUsed m)" using i(2) L by (simp add: machine_consts)
  show "mainMemory m' = mainMemory m" "registers m' = registers m" "lastUsed m' = lastUsed m" "machine_ok m'"
    using set_table_ok [OF assms(2), of "(the_table m)[i := e\<lparr>use := True, dirty := dirty e \<or> writing\<rparr>]"] i(5) by simp_all
qed

definition stamp :: "nat \<Rightarrow> 'k system \<Rightarrow> Machine \<Rightarrow> Machine" where
  "stamp a s m = m\<lparr>lastUsed := (lastUsed m)[a div PageSize := clock s]\<rparr>"

lemma ReadMem_ok:
  assumes "machine_ok (cpu s)" "sz \<in> {1, 2, 4}"
  shows "(\<exists>e. Translate va sz False (cpu s) = Inr (Fault e, cpu s) \<and> e \<notin> {NoException, SyscallException} \<and>
       ReadMem h va sz s = bind_result (RaiseException h e va s) (\<lambda>s. Inr (None, s))) \<or>
     (\<exists>a m'. translated va sz False (cpu s) a m' \<and>
       ReadMem h va sz s = Inr (Some (value_of sz (read_at a sz (mainMemory (cpu s)))), s\<lparr>cpu := stamp a s m'\<rparr>))"
proof -
  from Translate_ok [OF assms, of va False] obtain r m' where
    r: "Translate va sz False (cpu s) = Inr (r, m')" "machine_ok m'"
    "case r of Fault e \<Rightarrow> m' = cpu s \<and> e \<notin> {NoException, SyscallException}
      | Phys a \<Rightarrow> aligned va sz \<and> translated va sz False (cpu s) a m'" by blast
  show ?thesis
  proof (cases r)
    case (Fault e)
    then show ?thesis using r by (simp add: ReadMem_def)
  next
    case (Phys a)
    then have t: "translated va sz False (cpu s) a m'" using r(3) by simp
    note b = translated_bounds [OF t assms(1)]
    have "load (big_endian h) sz a m' = Inr (value_of sz (read_at a sz (mainMemory (cpu s))))"
      using load_ok [of a sz m'] b(1,3) assms(2) by simp
    moreover have "int (a div PageSize) < int (length (lastUsed m'))" using b(2,5) by simp
    ultimately have "ReadMem h va sz s =
        Inr (Some (value_of sz (read_at a sz (mainMemory (cpu s)))), s\<lparr>cpu := stamp a s m'\<rparr>)"
      using r(1) Phys by (simp add: ReadMem_def touch_def stamp_def)
    with t show ?thesis by blast
  qed
qed

lemma WriteMem_ok:
  assumes "machine_ok (cpu s)" "sz \<in> {1, 2, 4}"
  shows "(\<exists>e. Translate va sz True (cpu s) = Inr (Fault e, cpu s) \<and> e \<notin> {NoException, SyscallException} \<and>
       WriteMem h va sz v s = bind_result (RaiseException h e va s) (\<lambda>s. Inr (False, s))) \<or>
     (\<exists>a m'. translated va sz True (cpu s) a m' \<and> WriteMem h va sz v s =
       Inr (True, s\<lparr>cpu := stamp a s (m'\<lparr>mainMemory := write_at a (bytes_of sz v) (mainMemory (cpu s))\<rparr>)\<rparr>))"
proof -
  from Translate_ok [OF assms, of va True] obtain r m' where
    r: "Translate va sz True (cpu s) = Inr (r, m')" "machine_ok m'"
    "case r of Fault e \<Rightarrow> m' = cpu s \<and> e \<notin> {NoException, SyscallException}
      | Phys a \<Rightarrow> aligned va sz \<and> translated va sz True (cpu s) a m'" by blast
  show ?thesis
  proof (cases r)
    case (Fault e)
    then show ?thesis using r by (simp add: WriteMem_def)
  next
    case (Phys a)
    then have t: "translated va sz True (cpu s) a m'" using r(3) by simp
    note b = translated_bounds [OF t assms(1)]
    have "store (big_endian h) sz a v m' = Inr (m'\<lparr>mainMemory := write_at a (bytes_of sz v) (mainMemory (cpu s))\<rparr>)"
      using store_ok [of a sz m'] b(1,3) assms(2) by simp
    moreover have "int (a div PageSize) < int (length (lastUsed m'))" using b(2,5) by simp
    ultimately have "WriteMem h va sz v s =
        Inr (True, s\<lparr>cpu := stamp a s (m'\<lparr>mainMemory := write_at a (bytes_of sz v) (mainMemory (cpu s))\<rparr>)\<rparr>)"
      using r(1) Phys by (simp add: WriteMem_def touch_def stamp_def)
    with t show ?thesis by blast
  qed
qed

lemma WriteMem_True:
  assumes "machine_ok (cpu s)" "sz \<in> {1, 2, 4}" "WriteMem h va sz v s = Inr (True, s')"
  shows "\<exists>a m'. translated va sz True (cpu s) a m' \<and>
     cpu s' = stamp a s (m'\<lparr>mainMemory := write_at a (bytes_of sz v) (mainMemory (cpu s))\<rparr>)"
proof -
  have "bind_result X (\<lambda>s. Inr (False, s)) \<noteq> Inr (True, s')" for X :: "'a system result" by (cases X) auto
  then have "\<not> (\<exists>e. WriteMem h va sz v s = bind_result (RaiseException h e va s) (\<lambda>s. Inr (False, s)))"
    using assms(3) by metis
  with WriteMem_ok [OF assms(1,2), of va h v] assms(3) show ?thesis by fastforce
qed

section \<open>Properties\<close>

lemma find_tlb_update:
  "i < length es \<Longrightarrow> valid e' = valid (es ! i) \<Longrightarrow> virtualPage e' = virtualPage (es ! i) \<Longrightarrow>
   find_tlb k vpn (es[i := e']) = find_tlb k vpn es"
proof (induction k vpn es arbitrary: i rule: find_tlb.induct)
  case (2 k vpn e es)
  then show ?case by (cases i) auto
qed simp

lemma find_entry_update:
  assumes "i < length (the_table m)" "valid e' = valid (the_table m ! i)" "virtualPage e' = virtualPage (the_table m ! i)"
    and "machine_ok m"
  shows "find_entry vpn (set_table ((the_table m)[i := e']) m) = find_entry vpn m"
proof (cases "tlb m")
  case None
  then obtain t where t: "pageTable m = Some t" using assms(4) by (auto simp: machine_ok_def split: option.splits)
  then show ?thesis using None assms(1,2)
    by (auto simp: find_entry_def set_table_def the_table_def array_get_def nth_list_update)
next
  case (Some t)
  then have "pageTable m = None" "length t = TLBSize" using assms(4) by (auto simp: machine_ok_def split: option.splits)
  then show ?thesis using Some assms(1-3)
    by (simp add: find_entry_def set_table_def the_table_def find_tlb_update)
qed

lemma find_entry_cong:
  "tlb m' = tlb m \<Longrightarrow> pageTable m' = pageTable m \<Longrightarrow> pageTableSize m' = pageTableSize m \<Longrightarrow>
   find_entry vpn m' = find_entry vpn m \<and> the_table m' = the_table m"
  by (cases "tlb m"; cases "pageTable m") (simp_all add: find_entry_def the_table_def)

lemma find_entry_valid:
  assumes "find_entry vpn m = Inr (Inr (int i))" "machine_ok m"
  shows "valid (the_table m ! i)"
proof (cases "tlb m")
  case None
  then obtain t where t: "pageTable m = Some t" using assms(2) by (auto simp: machine_ok_def split: option.splits)
  then have "uint vpn = int i" "valid (t ! nat (uint vpn))"
    using None assms(1) by (auto simp: find_entry_def array_get_def split: if_splits)
  then show ?thesis using None t by (simp add: the_table_def)
next
  case (Some t)
  have "find_tlb k vpn es = Some j \<Longrightarrow> valid (es ! (j - k))" for k j es
  proof (induction k vpn es rule: find_tlb.induct)
    case (2 k vpn e es)
    then show ?case using find_tlb_bound [of "Suc k" vpn es j] by (auto split: if_splits simp: Suc_diff_le nth_Cons')
  qed simp
  from this [of 0 t i] show ?thesis using Some assms
    by (auto simp: find_entry_def the_table_def machine_ok_def split: option.splits)
qed


text \<open>A machine with a page table of two pages, the second one read-only, for the witnesses.\<close>

definition sample_table :: "TranslationEntry list" where
  "sample_table =
     [\<lparr>virtualPage = 0, physicalPage = 5, valid = True, readOnly = False, use = False, dirty = False\<rparr>,
      \<lparr>virtualPage = 1, physicalPage = 9, valid = True, readOnly = True, use = False, dirty = False\<rparr>]"

definition sample_machine :: Machine where
  "sample_machine = \<lparr>mainMemory = replicate MemorySize 0, registers = replicate NumTotalRegs 0, tlb = None,
     pageTable = Some sample_table, pageTableSize = 2, lastUsed = replicate NumPhysPages 0, singleStep = False\<rparr>"

lemma sample_machine_ok: "machine_ok sample_machine"
  by (simp add: machine_ok_def sample_machine_def sample_table_def reg_consts machine_consts)


text \<open>
  C20: Memory as a user program sees it: after a successful write of 1, 2 or 4 bytes, reading the
  same virtual address with the same size succeeds and returns the value written (sign-extended
  from a byte, zero-extended from two), on little- and big-endian hosts alike.
\<close>

theorem WriteMem_ReadMem:
  assumes "machine_ok (cpu s)" "sz \<in> {1, 2, 4}" "WriteMem h va sz v s = Inr (True, s')"
  shows "\<exists>s''. ReadMem h' va sz s' = Inr (Some (cut sz v), s'')"
proof -
  from WriteMem_True [OF assms] obtain a m' where t: "translated va sz True (cpu s) a m'"
    and w: "cpu s' = stamp a s (m'\<lparr>mainMemory := write_at a (bytes_of sz v) (mainMemory (cpu s))\<rparr>)" by blast
  let ?m = "cpu s" and ?m2 = "cpu s'"
  have m2: "?m2 = stamp a s (m'\<lparr>mainMemory := write_at a (bytes_of sz v) (mainMemory ?m)\<rparr>)" by (rule w)
  note b = translated_bounds [OF t assms(1)]
  have L: "length (bytes_of sz v) = sz" by (rule length_bytes_of [OF assms(2)])
  from t obtain i where i: "i < length (the_table ?m)" "unat (physicalPage (the_table ?m ! i)) < NumPhysPages"
    "a = unat (physicalPage (the_table ?m ! i)) * PageSize + unat va mod PageSize"
    "find_entry (va div of_nat PageSize) ?m = Inr (Inr (int i))"
    "m' = set_table ((the_table ?m)[i := (the_table ?m ! i)\<lparr>use := True, dirty := dirty (the_table ?m ! i) \<or> True\<rparr>]) ?m"
    unfolding translated_def by blast
  let ?e' = "(the_table ?m ! i)\<lparr>use := True, dirty := dirty (the_table ?m ! i) \<or> True\<rparr>"
  have tab: "the_table m' = (the_table ?m)[i := ?e']" unfolding i(5) by (rule set_table_ok(5) [OF assms(1)]) simp
  have fe: "find_entry vpn m' = find_entry vpn ?m" for vpn unfolding i(5) by (rule find_entry_update [OF i(1) _ _ assms(1)]) simp_all
  have c: "find_entry vpn ?m2 = find_entry vpn ?m \<and> the_table ?m2 = the_table m'" for vpn
    using find_entry_cong [of ?m2 m' vpn] fe by (simp add: m2 stamp_def)
  have ok2: "machine_ok ?m2" using b(1,6) L
    by (simp add: m2 stamp_def machine_ok_def b(3) [symmetric] split: option.splits)
  have e2: "the_table ?m2 ! i = ?e'" "i < length (the_table ?m2)" using c tab i(1) by simp_all
  have pf: "physicalPage (the_table ?m2 ! i) < 32" using i(2) e2(1) by (simp add: word_less_nat_alt machine_consts)
  have al: "aligned va sz" using t by (simp add: translated_def)
  have f2: "find_entry (va div of_nat PageSize) ?m2 = Inr (Inr (int i))" using c i(4) by simp
  from Translate_phys [OF ok2 al f2 e2(2) refl, of False] pf obtain a2 n where
    "Translate va sz False ?m2 = Inr (Phys a2, n)" by auto
  with ReadMem_ok [OF ok2 assms(2), of va h'] obtain a' m3 where a': "translated va sz False ?m2 a' m3"
    "ReadMem h' va sz s' = Inr (Some (value_of sz (read_at a' sz (mainMemory ?m2))), s'\<lparr>cpu := stamp a' s' m3\<rparr>)" by auto
  from a'(1) obtain i2 where "a' = unat (physicalPage (the_table ?m2 ! i2)) * PageSize + unat va mod PageSize"
    "find_entry (va div of_nat PageSize) ?m2 = Inr (Inr (int i2))" unfolding translated_def by blast
  then have "a' = a" using f2 i(3) e2(1) by simp
  moreover have "mainMemory ?m2 = write_at a (bytes_of sz v) (mainMemory ?m)" by (simp add: m2 stamp_def)
  ultimately show ?thesis using a'(2) read_write_at [of a "bytes_of sz v" "mainMemory ?m"] L value_bytes_of [OF assms(2), of v] by simp
qed

definition no_handler :: "unit host" where
  "no_handler = \<lparr>big_endian = False, ExceptionHandler = (\<lambda>_ _. Inl HALTED)\<rparr>"

definition sample_system :: "unit system" where
  "sample_system = \<lparr>cpu = sample_machine, mode = UserMode, clock = 77, rest = ()\<rparr>"

lemma sample_find: "find_entry 0 sample_machine = Inr (Inr (int 0))"
  by (simp add: find_entry_def sample_machine_def sample_table_def)

lemma sample_write: "\<exists>s'. WriteMem no_handler 0x10 4 v sample_system = Inr (True, s')"
proof -
  have "aligned 0x10 4" by (simp add: aligned_def)
  moreover have "find_entry (0x10 div of_nat PageSize) sample_machine = Inr (Inr (int 0))"
    using sample_find by (simp add: machine_consts)
  moreover have "0 < length (the_table sample_machine)" "\<not> (readOnly (the_table sample_machine ! 0) \<and> True)"
    "physicalPage (the_table sample_machine ! 0) < 32" by (simp_all add: the_table_def sample_machine_def sample_table_def)
  ultimately obtain a m' where "Translate 0x10 4 True sample_machine = Inr (Phys a, m')"
    using Translate_phys [OF sample_machine_ok _ _ _ refl, of "0x10" 4 0 True] by blast
  then show ?thesis using WriteMem_ok [of sample_system 4 "0x10" no_handler v] sample_machine_ok
    by (auto simp: sample_system_def)
qed

theorem WriteMem_ReadMem_witness:
  "\<exists>s' s''. WriteMem no_handler 0x10 4 0xDEADBEEF sample_system = Inr (True, s') \<and>
     ReadMem no_handler 0x10 4 s' = Inr (Some 0xDEADBEEF, s'')"
proof -
  from sample_write obtain s' where w: "WriteMem no_handler 0x10 4 0xDEADBEEF sample_system = Inr (True, s')" by blast
  have "machine_ok (cpu sample_system)" by (simp add: sample_system_def sample_machine_ok)
  from WriteMem_ReadMem [OF this _ w, of no_handler] w show ?thesis by (simp add: cut_def)
qed

text \<open>
  Isolation: a successful write by a user program changes bytes of one page frame only, the
  one that a valid entry of the page table or TLB names and that is not read-only; the rest of
  physical memory, and so every address space that does not map this frame, and the registers
  stay as they were.
\<close>

theorem WriteMem_isolated:
  assumes "machine_ok (cpu s)" "sz \<in> {1, 2, 4}" "WriteMem h va sz v s = Inr (True, s')"
  shows "\<exists>e \<in> set (the_table (cpu s)). valid e \<and> \<not> readOnly e \<and>
     (\<forall>x < MemorySize. x div PageSize \<noteq> unat (physicalPage e) \<longrightarrow> mainMemory (cpu s') ! x = mainMemory (cpu s) ! x) \<and>
     registers (cpu s') = registers (cpu s) \<and> length (mainMemory (cpu s')) = MemorySize"
proof -
  from WriteMem_True [OF assms] obtain a m' where t: "translated va sz True (cpu s) a m'"
    and w: "cpu s' = stamp a s (m'\<lparr>mainMemory := write_at a (bytes_of sz v) (mainMemory (cpu s))\<rparr>)" by blast
  let ?m = "cpu s"
  have m2: "cpu s' = stamp a s (m'\<lparr>mainMemory := write_at a (bytes_of sz v) (mainMemory ?m)\<rparr>)" by (rule w)
  note b = translated_bounds [OF t assms(1)]
  from t obtain i where i: "i < length (the_table ?m)" "\<not> (readOnly (the_table ?m ! i) \<and> True)"
    "a = unat (physicalPage (the_table ?m ! i)) * PageSize + unat va mod PageSize"
    "a + sz \<le> (unat (physicalPage (the_table ?m ! i)) + 1) * PageSize"
    "find_entry (va div of_nat PageSize) ?m = Inr (Inr (int i))" unfolding translated_def by blast
  have L: "length (bytes_of sz v) = sz" "length (mainMemory ?m) = MemorySize"
    using length_bytes_of [OF assms(2)] assms(1) by (simp_all add: machine_ok_def)
  have "mainMemory (cpu s') ! x = mainMemory ?m ! x"
    if x: "x < MemorySize" "x div PageSize \<noteq> unat (physicalPage (the_table ?m ! i))" for x
  proof -
    have "\<not> (a \<le> x \<and> x < a + sz)"
    proof
      assume "a \<le> x \<and> x < a + sz"
      then have "unat (physicalPage (the_table ?m ! i)) * 128 \<le> x" "x < (unat (physicalPage (the_table ?m ! i)) + 1) * 128"
        using i(3,4) by (auto simp: machine_consts)
      then have "x div 128 = unat (physicalPage (the_table ?m ! i))" by (intro div_nat_eqI) simp_all
      with x(2) show False by (simp add: machine_consts)
    qed
    then show ?thesis using nth_write_at [of x "mainMemory ?m" a "bytes_of sz v"] x(1) L by (auto simp: m2 stamp_def)
  qed
  moreover have "valid (the_table ?m ! i)" using find_entry_valid [OF i(5) assms(1)] .
  ultimately show ?thesis using i(1,2) b(1,4) L by (intro bexI [of _ "the_table ?m ! i"]) (simp_all add: m2 stamp_def)
qed

theorem WriteMem_isolated_witness:
  "\<exists>s'. WriteMem no_handler 0x10 4 7 sample_system = Inr (True, s') \<and> registers (cpu s') = registers sample_machine"
proof -
  from sample_write obtain s' where w: "WriteMem no_handler 0x10 4 7 sample_system = Inr (True, s')" by blast
  have "machine_ok (cpu sample_system)" by (simp add: sample_system_def sample_machine_ok)
  from WriteMem_isolated [OF this _ w] w show ?thesis by (auto simp: sample_system_def)
qed

end
