(* ===== verification/Mips_Arith.thy ===== *)
theory Mips_Arith
  imports User_Memory
begin

text \<open>
  The part of \<open>machine/mipssim.cc\<close> that does not touch the machine: the decoding of an
  instruction word and the multiplication, which the code does by shifting and adding. The lemmas
  show that decoding is total, with register numbers in range, and that the multiplication is the
  64-bit product.
\<close>

section \<open>Decoding\<close>

unbundle bit_operations_syntax

datatype opcode = OP_ADD | OP_ADDI | OP_ADDIU | OP_ADDU | OP_AND | OP_ANDI | OP_BEQ | OP_BGEZ | OP_BGEZAL
  | OP_BGTZ | OP_BLEZ | OP_BLTZ | OP_BLTZAL | OP_BNE | OP_DIV | OP_DIVU | OP_J | OP_JAL | OP_JALR | OP_JR
  | OP_LB | OP_LBU | OP_LH | OP_LHU | OP_LUI | OP_LW | OP_LWL | OP_LWR | OP_MFHI | OP_MFLO | OP_MTHI | OP_MTLO
  | OP_MULT | OP_MULTU | OP_NOR | OP_OR | OP_ORI | OP_RFE | OP_SB | OP_SH | OP_SLL | OP_SLLV | OP_SLT | OP_SLTI
  | OP_SLTIU | OP_SLTU | OP_SRA | OP_SRAV | OP_SRL | OP_SRLV | OP_SUB | OP_SUBU | OP_SW | OP_SWL | OP_SWR
  | OP_XOR | OP_XORI | OP_SYSCALL | OP_UNIMP | OP_RES | SPECIAL | BCOND

datatype format = IFMT | JFMT | RFMT

definition opTable :: "(opcode \<times> format) list" where
  "opTable =
    [(SPECIAL, RFMT), (BCOND, IFMT), (OP_J, JFMT), (OP_JAL, JFMT),
     (OP_BEQ, IFMT), (OP_BNE, IFMT), (OP_BLEZ, IFMT), (OP_BGTZ, IFMT),
     (OP_ADDI, IFMT), (OP_ADDIU, IFMT), (OP_SLTI, IFMT), (OP_SLTIU, IFMT),
     (OP_ANDI, IFMT), (OP_ORI, IFMT), (OP_XORI, IFMT), (OP_LUI, IFMT),
     (OP_UNIMP, IFMT), (OP_UNIMP, IFMT), (OP_UNIMP, IFMT), (OP_UNIMP, IFMT),
     (OP_RES, IFMT), (OP_RES, IFMT), (OP_RES, IFMT), (OP_RES, IFMT),
     (OP_RES, IFMT), (OP_RES, IFMT), (OP_RES, IFMT), (OP_RES, IFMT),
     (OP_RES, IFMT), (OP_RES, IFMT), (OP_RES, IFMT), (OP_RES, IFMT),
     (OP_LB, IFMT), (OP_LH, IFMT), (OP_LWL, IFMT), (OP_LW, IFMT),
     (OP_LBU, IFMT), (OP_LHU, IFMT), (OP_LWR, IFMT), (OP_RES, IFMT),
     (OP_SB, IFMT), (OP_SH, IFMT), (OP_SWL, IFMT), (OP_SW, IFMT),
     (OP_RES, IFMT), (OP_RES, IFMT), (OP_SWR, IFMT), (OP_RES, IFMT),
     (OP_UNIMP, IFMT), (OP_UNIMP, IFMT), (OP_UNIMP, IFMT), (OP_UNIMP, IFMT),
     (OP_RES, IFMT), (OP_RES, IFMT), (OP_RES, IFMT), (OP_RES, IFMT),
     (OP_UNIMP, IFMT), (OP_UNIMP, IFMT), (OP_UNIMP, IFMT), (OP_UNIMP, IFMT),
     (OP_RES, IFMT), (OP_RES, IFMT), (OP_RES, IFMT), (OP_RES, IFMT)]"

definition specialTable :: "opcode list" where
  "specialTable =
    [OP_SLL, OP_RES, OP_SRL, OP_SRA, OP_SLLV, OP_RES, OP_SRLV, OP_SRAV,
     OP_JR, OP_JALR, OP_RES, OP_RES, OP_SYSCALL, OP_UNIMP, OP_RES, OP_RES,
     OP_MFHI, OP_MTHI, OP_MFLO, OP_MTLO, OP_RES, OP_RES, OP_RES, OP_RES,
     OP_MULT, OP_MULTU, OP_DIV, OP_DIVU, OP_RES, OP_RES, OP_RES, OP_RES,
     OP_ADD, OP_ADDU, OP_SUB, OP_SUBU, OP_AND, OP_OR, OP_XOR, OP_NOR,
     OP_RES, OP_RES, OP_SLT, OP_SLTU, OP_RES, OP_RES, OP_RES, OP_RES,
     OP_RES, OP_RES, OP_RES, OP_RES, OP_RES, OP_RES, OP_RES, OP_RES,
     OP_RES, OP_RES, OP_RES, OP_RES, OP_RES, OP_RES, OP_RES, OP_RES]"

record Instruction =
  opCode :: opcode
  rs :: nat
  rt :: nat
  rd :: nat
  extra :: "32 word"

definition Decode :: "32 word \<Rightarrow> Instruction" where
  "Decode v =
     (let (opc, fmt) = opTable ! unat (drop_bit 26 v AND 0x3f);
          ext = (case fmt of
                   IFMT \<Rightarrow> (let e = v AND 0xffff in if e AND 0x8000 \<noteq> 0 then e OR 0xffff0000 else e)
                 | RFMT \<Rightarrow> drop_bit 6 v AND 0x1f
                 | JFMT \<Rightarrow> v AND 0x3ffffff);
          opc' =
            (if opc = SPECIAL then specialTable ! unat (v AND 0x3f)
             else if opc = BCOND then
               (let i = v AND 0x1f0000 in
                if i = 0 then OP_BLTZ else if i = 0x10000 then OP_BGEZ
                else if i = 0x100000 then OP_BLTZAL else if i = 0x110000 then OP_BGEZAL else OP_UNIMP)
             else opc)
      in \<lparr>opCode = opc', rs = unat (drop_bit 21 v AND 0x1f), rt = unat (drop_bit 16 v AND 0x1f),
          rd = unat (drop_bit 11 v AND 0x1f), extra = ext\<rparr>)"

section \<open>Multiplication\<close>

text \<open>The loop; the counter is the number of rounds left.\<close>

fun Mult_loop ::
  "nat \<Rightarrow> 32 word \<Rightarrow> 32 word \<Rightarrow> 32 word \<Rightarrow> 32 word \<Rightarrow> 32 word \<Rightarrow> 32 word \<times> 32 word" where
  "Mult_loop 0 a bLo bHi lo hi = (hi, lo)"
| "Mult_loop (Suc n) a bLo bHi lo hi =
     (let lo' = (if a AND 1 \<noteq> 0 then lo + bLo else lo);
          hi' = (if a AND 1 \<noteq> 0 then (if lo' < bLo then hi + 1 else hi) + bHi else hi)
      in if a AND 1 \<noteq> 0 \<and> a AND 0xfffffffe = 0 then (hi', lo')
         else Mult_loop n (signed_drop_bit 1 a) (push_bit 1 bLo)
                (if bLo AND 0x80000000 \<noteq> 0 then push_bit 1 bHi OR 1 else push_bit 1 bHi) lo' hi')"

definition Mult :: "32 word \<Rightarrow> 32 word \<Rightarrow> bool \<Rightarrow> 32 word \<times> 32 word" where
  "Mult a b signedArith =
     (if a = 0 \<or> b = 0 then (0, 0)
      else
        let negative = (signedArith \<and> (sint a < 0) \<noteq> (sint b < 0));
            a' = (if signedArith \<and> sint a < 0 then - a else a);
            b' = (if signedArith \<and> sint b < 0 then - b else b);
            (hi, lo) = Mult_loop 32 a' b' 0 0 0
        in if negative
           then (let lo' = NOT lo + 1 in (if lo' = 0 then NOT hi + 1 else NOT hi, lo'))
           else (hi, lo))"

section \<open>Decoding is total\<close>

lemma and_mask_less:
  "unat ((w :: 32 word) AND 0x3f) < 64" "unat (w AND 0x1f) < 32"
proof -
  have m: "(0x3f :: 32 word) = mask 6" "(0x1f :: 32 word) = mask 5" by (simp_all add: mask_eq_exp_minus_1)
  show "unat (w AND 0x3f) < 64" "unat (w AND 0x1f) < 32"
    unfolding m take_bit_eq_mask [symmetric]
    using take_bit_nat_less_exp [of 6 "unat w"] take_bit_nat_less_exp [of 5 "unat w"] by (simp_all add: unsigned_take_bit_eq)
qed

lemma table_lengths: "length opTable = 64" "length specialTable = 64"
  by (simp_all add: opTable_def specialTable_def)

lemma opTable_ops: "fst ` set opTable \<inter> {OP_RFE} = {}"
  unfolding opTable_def by simp

lemma specialTable_ops: "set specialTable \<inter> {OP_RFE, SPECIAL, BCOND} = {}"
  unfolding specialTable_def by simp

lemma Decode_range: "rs (Decode v) < 32" "rt (Decode v) < 32" "rd (Decode v) < 32"
  by (simp_all add: Decode_def Let_def and_mask_less split: prod.split)

lemma Decode_known: "opCode (Decode v) \<notin> {OP_RFE, SPECIAL, BCOND}"
proof -
  let ?i = "unat (drop_bit 26 v AND 0x3f)" and ?j = "unat (v AND 0x3f)"
  obtain opc fmt where o: "opTable ! ?i = (opc, fmt)" by fastforce
  have "opTable ! ?i \<in> set opTable" "specialTable ! ?j \<in> set specialTable"
    using and_mask_less by (simp_all add: table_lengths)
  then have "opc \<noteq> OP_RFE" "specialTable ! ?j \<notin> {OP_RFE, SPECIAL, BCOND}"
    using opTable_ops specialTable_ops o by (force, blast)
  then show ?thesis by (auto simp: Decode_def o Let_def)
qed

section \<open>Multiplication is the 64-bit product\<close>

text \<open>The number that a pair of registers holds.\<close>

definition dval :: "32 word \<Rightarrow> 32 word \<Rightarrow> int" where
  "dval hi lo = uint hi * 2 ^ 32 + uint lo"

lemma uint_add: "uint (x + y :: 32 word) = uint x + uint y - (if 2 ^ 32 \<le> uint x + uint y then 2 ^ 32 else 0)"
  by (simp add: uint_plus_if' not_less)

lemma uint_range: "0 \<le> uint (x :: 32 word)" "uint x < 2 ^ 32"
  using uint_bounded [of x] by simp_all

lemma carry_iff: "x + y < y \<longleftrightarrow> 2 ^ 32 \<le> uint x + uint (y :: 32 word)"
  unfolding word_less_def uint_add using uint_range [of x] uint_range [of y] by auto

lemma dval_add:
  "dval ((if lo + bLo < bLo then hi + 1 else hi) + bHi) (lo + bLo) mod 2 ^ 64 = (dval hi lo + dval bHi bLo) mod 2 ^ 64"
proof -
  let ?c = "if 2 ^ 32 \<le> uint lo + uint bLo then 1 else 0 :: int"
  have h: "\<exists>k. uint ((if lo + bLo < bLo then hi + 1 else hi) + bHi) = uint hi + ?c + uint bHi - 2 ^ 32 * k"
  proof -
    have e: "\<exists>k. uint (x + y :: 32 word) = uint x + uint y - 2 ^ 32 * k" for x y
      unfolding uint_add by (cases "2 ^ 32 \<le> uint x + uint y") (auto intro: exI [of _ 0] exI [of _ 1])
    from e [of hi 1] obtain k1 where k1: "uint (hi + 1) = uint hi + 1 - 2 ^ 32 * k1" by auto
    from e [of "hi + 1" bHi] obtain k2 where k2: "uint (hi + 1 + bHi) = uint (hi + 1) + uint bHi - 2 ^ 32 * k2" by auto
    from e [of hi bHi] obtain k3 where k3: "uint (hi + bHi) = uint hi + uint bHi - 2 ^ 32 * k3" by auto
    show ?thesis
    proof (cases "lo + bLo < bLo")
      case True
      then have "2 ^ 32 \<le> uint lo + uint bLo" unfolding carry_iff .
      then show ?thesis using k1 k2 True by (intro exI [of _ "k1 + k2"]) (simp add: distrib_left)
    next
      case False
      then show ?thesis using k3 by (intro exI [of _ k3]) (simp add: carry_iff)
    qed
  qed
  then obtain k where "uint ((if lo + bLo < bLo then hi + 1 else hi) + bHi) = uint hi + ?c + uint bHi - 2 ^ 32 * k" by blast
  moreover have "uint (lo + bLo) = uint lo + uint bLo - 2 ^ 32 * ?c" unfolding uint_add by simp
  ultimately have "dval ((if lo + bLo < bLo then hi + 1 else hi) + bHi) (lo + bLo) = dval hi lo + dval bHi bLo + (- k) * 2 ^ 64"
    unfolding dval_def by (simp add: algebra_simps)
  then show ?thesis by (simp only: mod_mult_self1)
qed

lemma msb_iff: "w AND 0x80000000 \<noteq> 0 \<longleftrightarrow> bit (w :: 32 word) 31"
proof -
  have "(0x80000000 :: 32 word) = push_bit 31 1" by simp
  then show ?thesis by (metis and_exp_eq_0_iff_not_bit push_bit_of_1)
qed

lemma bit31_iff: "bit (w :: 32 word) 31 \<longleftrightarrow> 2 ^ 31 \<le> uint w"
proof -
  have "bit w 31 \<longleftrightarrow> bit (uint w) 31" by (simp add: bit_uint_iff)
  also have "\<dots> \<longleftrightarrow> odd (uint w div 2 ^ 31)" by (rule bit_iff_odd)
  finally have "bit w 31 \<longleftrightarrow> odd (uint w div 2 ^ 31)" .
  moreover have "uint w div 2 ^ 31 = (if 2 ^ 31 \<le> uint w then 1 else 0)"
    using uint_range [of w] by (auto simp: div_pos_pos_trivial intro: int_div_pos_eq [of _ _ _ "uint w - 2 ^ 31"])
  ultimately show ?thesis by simp
qed

lemma dval_shift:
  "dval (if bLo AND 0x80000000 \<noteq> 0 then push_bit 1 bHi OR 1 else push_bit 1 bHi) (push_bit 1 bLo) mod 2 ^ 64
     = (2 * dval bHi bLo) mod 2 ^ 64"
proof -
  have p: "push_bit 1 w = w + w" for w :: "32 word" by (simp add: push_bit_eq_mult)
  have o: "push_bit 1 bHi OR 1 = bHi + bHi + 1"
  proof -
    have "push_bit 1 bHi OR 1 = push_bit 1 bHi + 1" by (rule disjunctive_add [symmetric]) (simp only: bit_push_bit_iff bit_1_iff, simp)
    then show ?thesis by (simp add: p)
  qed
  have c: "bLo AND 0x80000000 \<noteq> 0 \<longleftrightarrow> bLo + bLo < bLo" unfolding msb_iff bit31_iff carry_iff by auto
  have e: "(if bLo AND 0x80000000 \<noteq> 0 then push_bit 1 bHi OR 1 else push_bit 1 bHi) = (if bLo + bLo < bLo then bHi + 1 else bHi) + bHi"
    by (simp only: c o) (simp add: p)
  have l: "push_bit 1 bLo = bLo + bLo" by (rule p)
  show ?thesis unfolding e l using dval_add [of bLo bLo bHi bHi] by (simp only: mult_2)
qed

lemma low_bit: "a AND 1 \<noteq> 0 \<longleftrightarrow> odd (uint (a :: 32 word))"
proof -
  have "a AND 1 \<noteq> 0 \<longleftrightarrow> bit a 0" by (simp add: and_one_eq bit_0 odd_iff_mod_2_eq_one)
  also have "\<dots> \<longleftrightarrow> bit (uint a) 0" by (simp add: bit_uint_iff)
  finally show ?thesis by (simp add: bit_0)
qed

lemma only_low_bit:
  assumes "a AND 1 \<noteq> 0" "a AND 0xfffffffe = 0"
  shows "(a :: 32 word) = 1"
proof (rule bit_word_eqI)
  fix n assume n: "n < LENGTH(32)"
  have e: "(0xfffffffe :: 32 word) = NOT 1" by simp
  show "bit a n = bit (1 :: 32 word) n"
  proof (cases n)
    case 0
    then show ?thesis using assms(1) by (simp add: and_one_eq bit_0 odd_iff_mod_2_eq_one)
  next
    case (Suc k)
    have "\<not> bit (a AND NOT 1) n" using assms(2) e by simp
    then show ?thesis using Suc n by (simp add: bit_simps)
  qed
qed

lemma take_bit_shift:
  assumes "n \<le> 31"
  shows "take_bit (Suc n) (uint (a :: 32 word)) = uint a mod 2 + 2 * take_bit n (uint (signed_drop_bit 1 a))"
proof -
  have "take_bit n (uint (signed_drop_bit 1 a)) = take_bit n (uint a div 2)"
    by (rule bit_eqI) (use assms in \<open>auto simp: bit_simps bit_uint_iff simp flip: bit_Suc\<close>)
  then show ?thesis by (simp add: take_bit_Suc)
qed

lemma Mult_loop_ok:
  assumes "n \<le> 32" "Mult_loop n a bLo bHi lo hi = (hi', lo')"
  shows "dval hi' lo' mod 2 ^ 64 = (dval hi lo + take_bit n (uint a) * dval bHi bLo) mod 2 ^ 64"
  using assms
proof (induction n arbitrary: a bLo bHi lo hi)
  case 0
  then show ?case by simp
next
  case (Suc n)
  let ?lo = "if a AND 1 \<noteq> 0 then lo + bLo else lo"
  let ?hi = "if a AND 1 \<noteq> 0 then (if ?lo < bLo then hi + 1 else hi) + bHi else hi"
  let ?bHi = "if bLo AND 0x80000000 \<noteq> 0 then push_bit 1 bHi OR 1 else push_bit 1 bHi"
  let ?B = "dval bHi bLo"
  have acc: "dval ?hi ?lo mod 2 ^ 64 = (dval hi lo + (uint a mod 2) * ?B) mod 2 ^ 64"
  proof (cases "a AND 1 \<noteq> 0")
    case True
    then have "uint a mod 2 = 1" by (simp add: low_bit odd_iff_mod_2_eq_one)
    then show ?thesis using dval_add [of lo bLo hi bHi] True by simp
  next
    case False
    then have "uint a mod 2 = 0" using low_bit by (simp add: even_iff_mod_2_eq_zero)
    then show ?thesis using False by simp
  qed
  show ?case
  proof (cases "a AND 1 \<noteq> 0 \<and> a AND 0xfffffffe = 0")
    case True
    then have "a = 1" by (intro only_low_bit) auto
    then have "take_bit (Suc n) (uint a) = uint a mod 2" by simp
    moreover have "hi' = ?hi" "lo' = ?lo" using Suc.prems(2) True by (auto simp: Let_def)
    ultimately show ?thesis using acc by simp
  next
    case False
    then have "Mult_loop n (signed_drop_bit 1 a) (push_bit 1 bLo) ?bHi ?lo ?hi = (hi', lo')"
      using Suc.prems(2) by (simp only: Mult_loop.simps Let_def if_False)
    from Suc.IH [OF _ this] Suc.prems(1)
    have "dval hi' lo' mod 2 ^ 64 = (dval ?hi ?lo + take_bit n (uint (signed_drop_bit 1 a)) * dval ?bHi (push_bit 1 bLo)) mod 2 ^ 64" by simp
    also have "\<dots> = (dval hi lo + (uint a mod 2) * ?B + take_bit n (uint (signed_drop_bit 1 a)) * (2 * ?B)) mod 2 ^ 64"
      by (intro mod_add_cong mod_mult_cong acc dval_shift refl)
    also have "dval hi lo + (uint a mod 2) * ?B + take_bit n (uint (signed_drop_bit 1 a)) * (2 * ?B) =
        dval hi lo + take_bit (Suc n) (uint a) * ?B"
      using take_bit_shift [of n a] Suc.prems(1) by (simp add: algebra_simps)
    finally show ?thesis .
  qed
qed

lemma sint_uint32: "sint (w :: 32 word) = (if uint w < 2 ^ 31 then uint w else uint w - 2 ^ 32)"
proof (cases "uint w < 2 ^ 31")
  case True
  moreover have "- (2 ^ 31) \<le> uint w" by (rule order_trans [of _ 0]) simp_all
  ultimately have "signed_take_bit 31 (uint w) = uint w" by (intro signed_take_bit_int_eq_self)
  then show ?thesis using True by (simp add: sint_uint)
next
  case False
  have "signed_take_bit 31 (uint w) = signed_take_bit 31 (uint w - 2 ^ 32)"
    by (rule signed_take_bit_eq_iff_take_bit_eq [THEN iffD2]) (simp add: take_bit_eq_mod)
  also have "\<dots> = uint w - 2 ^ 32" using uint_range [of w] False by (intro signed_take_bit_int_eq_self) simp_all
  finally show ?thesis using False by (simp add: sint_uint)
qed

lemma uint_neg: "uint (- w :: 32 word) = (if uint w = 0 then 0 else 2 ^ 32 - uint w)"
proof -
  have "uint w mod 2 ^ 32 = uint w" by (rule mod_pos_pos_trivial [OF uint_range])
  then show ?thesis by (simp add: uint_word_ariths zmod_zminus1_eq_if)
qed

lemma uint_not: "uint (NOT w :: 32 word) = 2 ^ 32 - 1 - uint w"
proof -
  have "NOT w = - 1 - w" by (simp add: not_eq_complement)
  moreover have "uint (- 1 :: 32 word) = 2 ^ 32 - 1" by (simp add: unsigned_minus_1_eq_mask mask_eq_exp_minus_1)
  moreover have "uint (- 1 - w) = uint (- 1 :: 32 word) - uint w"
    by (rule uint_sub_lem [THEN iffD1]) (use uint_range [of w] calculation(2) in linarith)
  ultimately show ?thesis by simp
qed

lemma uint_abs: "uint (if sint a < 0 then - a else a) = \<bar>sint (a :: 32 word)\<bar>"
proof -
  show ?thesis unfolding sint_uint32 using uint_range [of a] by (auto simp: uint_neg)
qed

lemma dval_neg:
  "dval (if NOT lo + 1 = 0 then NOT hi + 1 else NOT hi) (NOT lo + 1) mod 2 ^ 64 = (- dval hi lo) mod 2 ^ 64"
proof -
  have n: "NOT w + 1 = - w" for w :: "32 word" by (simp add: minus_eq_not_plus_1)
  show ?thesis
  proof (cases "lo = 0")
    case True
    then have "dval (if NOT lo + 1 = 0 then NOT hi + 1 else NOT hi) (NOT lo + 1) = - dval hi lo + (if uint hi = 0 then 0 else 1) * 2 ^ 64"
      unfolding n dval_def by (simp add: uint_neg)
    then show ?thesis by (simp only: mod_mult_self1)
  next
    case False
    then have "uint lo \<noteq> 0" by (metis uint_0_iff)
    then have "dval (if NOT lo + 1 = 0 then NOT hi + 1 else NOT hi) (NOT lo + 1) = - dval hi lo + 1 * 2 ^ 64"
      using False unfolding n dval_def by (simp add: uint_neg uint_not)
    then show ?thesis by (simp only: mod_mult_self1)
  qed
qed

lemma Mult_ok:
  assumes "Mult a b sg = (hi, lo)"
  shows "dval hi lo = (if sg then sint a * sint b else uint a * uint b) mod 2 ^ 64"
proof -
  have R: "dval hi lo mod 2 ^ 64 = dval hi lo" 
    unfolding dval_def using uint_range [of hi] uint_range [of lo] by (intro mod_pos_pos_trivial) auto
  let ?a = "if sg \<and> sint a < 0 then - a else a" and ?b = "if sg \<and> sint b < 0 then - b else b"
  obtain h l where L: "Mult_loop 32 ?a ?b 0 0 0 = (h, l)" by fastforce
  have D: "dval h l mod 2 ^ 64 = (uint ?a * uint ?b) mod 2 ^ 64"
    using Mult_loop_ok [OF _ L] by (simp add: dval_def take_bit_eq_mod mod_pos_pos_trivial [OF uint_range, simplified])
  have S: "uint ?a = (if sg then \<bar>sint a\<bar> else uint a)" "uint ?b = (if sg then \<bar>sint b\<bar> else uint b)"
    using uint_abs [of a] uint_abs [of b] by auto
  show ?thesis
  proof (cases "a = 0 \<or> b = 0")
    case True
    then show ?thesis using assms by (auto simp: Mult_def dval_def)
  next
    case False
    show ?thesis
    proof (cases "sg \<and> (sint a < 0) \<noteq> (sint b < 0)")
      case True
      then have "hi = (if NOT l + 1 = 0 then NOT h + 1 else NOT h)" "lo = NOT l + 1"
        using assms False L by (auto simp: Mult_def Let_def)
      then have "dval hi lo mod 2 ^ 64 = (- dval h l) mod 2 ^ 64" using dval_neg [of l h] by simp
      also have "\<dots> = (- (uint ?a * uint ?b)) mod 2 ^ 64" using D by (metis mod_minus_eq)
      also have "- (uint ?a * uint ?b) = sint a * sint b" unfolding S using True by (auto simp: abs_if)
      finally show ?thesis using True R by simp
    next
      case nn: False
      then have "hi = h" "lo = l" using assms False L by (auto simp: Mult_def Let_def)
      moreover have "uint ?a * uint ?b = (if sg then sint a * sint b else uint a * uint b)" 
        unfolding S using nn by (auto simp: abs_if)
      ultimately show ?thesis using D R by simp
    qed
  qed
qed
end
