(* ===== verification/Mips_Sim.thy ===== *)
theory Mips_Sim
  imports Mips_Arith
begin

text \<open>
  The simulation of the MIPS processor (\<open>machine/mipssim.cc\<close>): the execution of one
  decoded instruction with its delayed loads, branch delay slot and exceptions. Register
  arithmetic wraps around at 32 bits, as the code expects of \<open>int\<close>; the one division that traps
  on the host (the smallest number divided by -1) is undefined.
\<close>

unbundle bit_operations_syntax

section \<open>One instruction\<close>

definition IndexToAddr :: "32 word \<Rightarrow> 32 word" where
  "IndexToAddr x = push_bit 2 x"

definition SIGN_BIT :: "32 word" where "SIGN_BIT = 0x80000000"
definition R31 :: nat where "R31 = 31"

text \<open>
  How the \<open>switch\<close> over the operation code ends: with \<open>return\<close>, or with \<open>break\<close>, behind which
  the delayed load and the program counter are dealt with.
\<close>

datatype 'k after = Return "'k system" | Break "'k system" "32 word" nat "32 word"

definition trap :: "'k host \<Rightarrow> ExceptionType \<Rightarrow> 32 word \<Rightarrow> 'k system \<Rightarrow> 'k after result" where
  "trap h e addr s = bind_result (RaiseException h e addr s) (\<lambda>s. Inr (Return s))"

definition with_mem ::
  "'k host \<Rightarrow> 32 word \<Rightarrow> nat \<Rightarrow> 'k system \<Rightarrow> (32 word \<Rightarrow> 'k system \<Rightarrow> 'k after result) \<Rightarrow> 'k after result" where
  "with_mem h addr sz s k =
     bind_result (ReadMem h addr sz s) (\<lambda>(v, s). case v of None \<Rightarrow> Inr (Return s) | Some v \<Rightarrow> k v s)"

definition put_mem ::
  "'k host \<Rightarrow> 32 word \<Rightarrow> nat \<Rightarrow> 32 word \<Rightarrow> 'k system \<Rightarrow> 32 word \<Rightarrow> 'k after result" where
  "put_mem h addr sz v s pc =
     bind_result (WriteMem h addr sz v s) (\<lambda>(b, s). if b then Inr (Break s pc 0 0) else Inr (Return s))"

abbreviation upd :: "nat \<Rightarrow> 32 word \<Rightarrow> 'k system \<Rightarrow> 'k system" where
  "upd i v s \<equiv> s\<lparr>cpu := set_reg i v (cpu s)\<rparr>"

text \<open>Branches, with the instructions that fall through into another one.\<close>

definition exec_branch :: "Instruction \<Rightarrow> Machine \<Rightarrow> Machine \<times> 32 word" where
  "exec_branch i m =
     (let pcAfter = reg m NextPCReg + 4;
          link = set_reg R31 (reg m NextPCReg + 4) m;
          branch = (\<lambda>c m. (m, if c then reg m NextPCReg + IndexToAddr (extra i) else pcAfter))
      in case opCode i of
           OP_BEQ \<Rightarrow> branch (reg m (rs i) = reg m (rt i)) m
         | OP_BNE \<Rightarrow> branch (reg m (rs i) \<noteq> reg m (rt i)) m
         | OP_BGEZAL \<Rightarrow> branch (reg link (rs i) AND SIGN_BIT = 0) link
         | OP_BGEZ \<Rightarrow> branch (reg m (rs i) AND SIGN_BIT = 0) m
         | OP_BGTZ \<Rightarrow> branch (sint (reg m (rs i)) > 0) m
         | OP_BLEZ \<Rightarrow> branch (sint (reg m (rs i)) \<le> 0) m
         | OP_BLTZAL \<Rightarrow> branch (reg link (rs i) AND SIGN_BIT \<noteq> 0) link
         | OP_BLTZ \<Rightarrow> branch (reg m (rs i) AND SIGN_BIT \<noteq> 0) m
         | OP_JAL \<Rightarrow> (link, (pcAfter AND 0xf0000000) OR IndexToAddr (extra i))
         | OP_J \<Rightarrow> (m, (pcAfter AND 0xf0000000) OR IndexToAddr (extra i))
         | OP_JALR \<Rightarrow> (let m' = set_reg (rd i) (reg m NextPCReg + 4) m in (m', reg m' (rs i)))
         | OP_JR \<Rightarrow> (m, reg m (rs i))
         | _ \<Rightarrow> (m, pcAfter))"

text \<open>The instructions that compute a register from registers and cannot fail.\<close>

definition exec_alu :: "Instruction \<Rightarrow> Machine \<Rightarrow> Machine" where
  "exec_alu i m =
     (let a = reg m (rs i); b = reg m (rt i); e = extra i;
          RD = (\<lambda>v. set_reg (rd i) v m); RT = (\<lambda>v. set_reg (rt i) v m)
      in case opCode i of
           OP_ADDIU \<Rightarrow> RT (a + e)
         | OP_ADDU \<Rightarrow> RD (a + b)
         | OP_AND \<Rightarrow> RD (a AND b)
         | OP_ANDI \<Rightarrow> RT (a AND (e AND 0xffff))
         | OP_DIVU \<Rightarrow> (if b = 0 then set_reg HiReg 0 (set_reg LoReg 0 m)
                       else set_reg HiReg (a mod b) (set_reg LoReg (a div b) m))
         | OP_LUI \<Rightarrow> RT (push_bit 16 e)
         | OP_MFHI \<Rightarrow> RD (reg m HiReg)
         | OP_MFLO \<Rightarrow> RD (reg m LoReg)
         | OP_MTHI \<Rightarrow> set_reg HiReg a m
         | OP_MTLO \<Rightarrow> set_reg LoReg a m
         | OP_MULT \<Rightarrow> (let (hi, lo) = Mult a b True in set_reg LoReg lo (set_reg HiReg hi m))
         | OP_MULTU \<Rightarrow> (let (hi, lo) = Mult a b False in set_reg LoReg lo (set_reg HiReg hi m))
         | OP_NOR \<Rightarrow> RD (NOT (a OR b))
         | OP_OR \<Rightarrow> RD (a OR a)
         | OP_ORI \<Rightarrow> RT (a OR (e AND 0xffff))
         | OP_SLL \<Rightarrow> RD (push_bit (unat e) b)
         | OP_SLLV \<Rightarrow> RD (push_bit (unat (a AND 0x1f)) b)
         | OP_SLT \<Rightarrow> RD (if sint a < sint b then 1 else 0)
         | OP_SLTI \<Rightarrow> RT (if sint a < sint e then 1 else 0)
         | OP_SLTIU \<Rightarrow> RT (if a < e then 1 else 0)
         | OP_SLTU \<Rightarrow> RD (if a < b then 1 else 0)
         | OP_SRA \<Rightarrow> RD (signed_drop_bit (unat e) b)
         | OP_SRAV \<Rightarrow> RD (signed_drop_bit (unat (a AND 0x1f)) b)
         | OP_SRL \<Rightarrow> RD (signed_drop_bit (unat e) b)
         | OP_SRLV \<Rightarrow> RD (signed_drop_bit (unat (a AND 0x1f)) b)
         | OP_SUBU \<Rightarrow> RD (a - b)
         | OP_XOR \<Rightarrow> RD (a XOR b)
         | OP_XORI \<Rightarrow> RT (a XOR (e AND 0xffff))
         | _ \<Rightarrow> m)"

text \<open>The instructions that may trap, and the loads and stores.\<close>

definition exec_add :: "'k host \<Rightarrow> bool \<Rightarrow> 32 word \<Rightarrow> nat \<Rightarrow> 'k system \<Rightarrow> 'k after result" where
  "exec_add h overflow v dest s =
     (if overflow then trap h OverflowException 0 s else Inr (Break (upd dest v s) (reg (cpu s) NextPCReg + 4) 0 0))"

definition exec_div :: "Instruction \<Rightarrow> 'k system \<Rightarrow> 'k after result" where
  "exec_div i s =
     (let m = cpu s; a = reg m (rs i); b = reg m (rt i); pc = reg m NextPCReg + 4
      in if b = 0 then Inr (Break (upd HiReg 0 (upd LoReg 0 s)) pc 0 0)
         else if sint a = - (2 ^ 31) \<and> sint b = - 1 then Inl UNDEFINED
         else Inr (Break (upd HiReg (word_of_int (sint a smod sint b))
                            (upd LoReg (word_of_int (sint a sdiv sint b)) s)) pc 0 0))"

definition exec_load :: "'k host \<Rightarrow> Instruction \<Rightarrow> 'k system \<Rightarrow> 'k after result" where
  "exec_load h i s =
     (let m = cpu s; tmp = reg m (rs i) + extra i; pc = reg m NextPCReg + 4;
          merge = (\<lambda>f. with_mem h tmp 4 s (\<lambda>v s.
            let old = (if reg (cpu s) LoadReg = of_nat (rt i) then reg (cpu s) LoadValueReg else reg (cpu s) (rt i))
            in Inr (Break s pc (rt i) (f old v))))
      in case opCode i of
           OP_LB \<Rightarrow> with_mem h tmp 1 s (\<lambda>v s.
             Inr (Break s pc (rt i) (if v AND 0x80 \<noteq> 0 then v OR 0xffffff00 else v AND 0xff)))
         | OP_LBU \<Rightarrow> with_mem h tmp 1 s (\<lambda>v s. Inr (Break s pc (rt i) (v AND 0xff)))
         | OP_LH \<Rightarrow>
             if tmp AND 0x1 \<noteq> 0 then trap h AddressErrorException tmp s
             else with_mem h tmp 2 s (\<lambda>v s.
               Inr (Break s pc (rt i) (if v AND 0x8000 \<noteq> 0 then v OR 0xffff0000 else v AND 0xffff)))
         | OP_LHU \<Rightarrow>
             if tmp AND 0x1 \<noteq> 0 then trap h AddressErrorException tmp s
             else with_mem h tmp 2 s (\<lambda>v s. Inr (Break s pc (rt i) (v AND 0xffff)))
         | OP_LW \<Rightarrow>
             if tmp AND 0x3 \<noteq> 0 then trap h AddressErrorException tmp s
             else with_mem h tmp 4 s (\<lambda>v s. Inr (Break s pc (rt i) v))
         | OP_LWL \<Rightarrow>
             bind_result (ASSERT (tmp AND 0x3 = 0)) (\<lambda>_. merge (\<lambda>old v.
               if tmp AND 0x3 = 0 then v
               else if tmp AND 0x3 = 1 then (old AND 0xff) OR push_bit 8 v
               else if tmp AND 0x3 = 2 then (old AND 0xffff) OR push_bit 16 v
               else (old AND 0xffffff) OR push_bit 24 v))
         | OP_LWR \<Rightarrow>
             bind_result (ASSERT (tmp AND 0x3 = 0)) (\<lambda>_. merge (\<lambda>old v.
               if tmp AND 0x3 = 0 then (old AND 0xffffff00) OR (signed_drop_bit 24 v AND 0xff)
               else if tmp AND 0x3 = 1 then (old AND 0xffff0000) OR (signed_drop_bit 16 v AND 0xffff)
               else if tmp AND 0x3 = 2 then (old AND 0xff000000) OR (signed_drop_bit 8 v AND 0xffffff)
               else v))
         | _ \<Rightarrow> Inl ASSERT_FAILED)"

definition exec_store :: "'k host \<Rightarrow> Instruction \<Rightarrow> 'k system \<Rightarrow> 'k after result" where
  "exec_store h i s =
     (let m = cpu s; tmp = reg m (rs i) + extra i; pc = reg m NextPCReg + 4;
          merge = (\<lambda>f. bind_result (ASSERT (tmp AND 0x3 = 0)) (\<lambda>_.
            with_mem h (tmp AND NOT 0x3) 4 s (\<lambda>v s. put_mem h (tmp AND NOT 0x3) 4 (f v (reg (cpu s) (rt i))) s pc)))
      in case opCode i of
           OP_SB \<Rightarrow> put_mem h tmp 1 (reg m (rt i)) s pc
         | OP_SH \<Rightarrow> put_mem h tmp 2 (reg m (rt i)) s pc
         | OP_SW \<Rightarrow> put_mem h tmp 4 (reg m (rt i)) s pc
         | OP_SWL \<Rightarrow> merge (\<lambda>v r.
             if tmp AND 0x3 = 0 then r
             else if tmp AND 0x3 = 1 then (v AND 0xff000000) OR (signed_drop_bit 8 r AND 0xffffff)
             else if tmp AND 0x3 = 2 then (v AND 0xffff0000) OR (signed_drop_bit 16 r AND 0xffff)
             else (v AND 0xffffff00) OR (signed_drop_bit 24 r AND 0xff))
         | OP_SWR \<Rightarrow> merge (\<lambda>v r.
             if tmp AND 0x3 = 0 then (v AND 0xffffff) OR push_bit 24 r
             else if tmp AND 0x3 = 1 then (v AND 0xffff) OR push_bit 16 r
             else if tmp AND 0x3 = 2 then (v AND 0xff) OR push_bit 8 r
             else r)
         | _ \<Rightarrow> Inl ASSERT_FAILED)"

definition branches :: "opcode set" where
  "branches = {OP_BEQ, OP_BNE, OP_BGEZAL, OP_BGEZ, OP_BGTZ, OP_BLEZ, OP_BLTZAL, OP_BLTZ, OP_JAL, OP_J, OP_JALR, OP_JR}"

definition alu_ops :: "opcode set" where
  "alu_ops = {OP_ADDIU, OP_ADDU, OP_AND, OP_ANDI, OP_DIVU, OP_LUI, OP_MFHI, OP_MFLO, OP_MTHI, OP_MTLO, OP_MULT,
     OP_MULTU, OP_NOR, OP_OR, OP_ORI, OP_SLL, OP_SLLV, OP_SLT, OP_SLTI, OP_SLTIU, OP_SLTU, OP_SRA, OP_SRAV, OP_SRL,
     OP_SRLV, OP_SUBU, OP_XOR, OP_XORI}"

definition loads :: "opcode set" where
  "loads = {OP_LB, OP_LBU, OP_LH, OP_LHU, OP_LW, OP_LWL, OP_LWR}"

definition stores :: "opcode set" where
  "stores = {OP_SB, OP_SH, OP_SW, OP_SWL, OP_SWR}"

definition exec :: "'k host \<Rightarrow> Instruction \<Rightarrow> 'k system \<Rightarrow> 'k after result" where
  "exec h i s =
     (let m = cpu s; a = reg m (rs i); b = reg m (rt i); e = extra i
      in if opCode i \<in> branches then (let (m', pc) = exec_branch i m in Inr (Break (s\<lparr>cpu := m'\<rparr>) pc 0 0))
         else if opCode i \<in> alu_ops then Inr (Break (s\<lparr>cpu := exec_alu i m\<rparr>) (reg m NextPCReg + 4) 0 0)
         else if opCode i \<in> loads then exec_load h i s
         else if opCode i \<in> stores then exec_store h i s
         else case opCode i of
           OP_ADD \<Rightarrow>
             exec_add h ((a XOR b) AND SIGN_BIT = 0 \<and> (a XOR (a + b)) AND SIGN_BIT \<noteq> 0) (a + b) (rd i) s
         | OP_ADDI \<Rightarrow>
             exec_add h ((a XOR e) AND SIGN_BIT = 0 \<and> (e XOR (a + e)) AND SIGN_BIT \<noteq> 0) (a + e) (rt i) s
         | OP_SUB \<Rightarrow>
             exec_add h ((a XOR b) AND SIGN_BIT \<noteq> 0 \<and> (a XOR (a - b)) AND SIGN_BIT \<noteq> 0) (a - b) (rd i) s
         | OP_DIV \<Rightarrow> exec_div i s
         | OP_SYSCALL \<Rightarrow> trap h SyscallException 0 s
         | OP_RES \<Rightarrow> trap h IllegalInstrException 0 s
         | OP_UNIMP \<Rightarrow> trap h IllegalInstrException 0 s
         | _ \<Rightarrow> Inl ASSERT_FAILED)"

definition advance :: "32 word \<Rightarrow> Machine \<Rightarrow> Machine" where
  "advance pcAfter m =
     m\<lparr>registers := (registers m)[PrevPCReg := reg m PCReg, PCReg := reg m NextPCReg, NextPCReg := pcAfter]\<rparr>"

definition OneInstruction :: "'k host \<Rightarrow> 'k system \<Rightarrow> 'k system result" where
  "OneInstruction h s =
     bind_result (ReadMem h (reg (cpu s) PCReg) 4 s) (\<lambda>(raw, s).
       case raw of
         None \<Rightarrow> Inr s
       | Some raw \<Rightarrow>
           bind_result (exec h (Decode raw) s) (\<lambda>r.
             case r of
               Return s \<Rightarrow> Inr s
             | Break s pcAfter nextLoadReg nextLoadValue \<Rightarrow>
                 bind_result (DelayedLoad (of_nat nextLoadReg) nextLoadValue (cpu s)) (\<lambda>m.
                   Inr (s\<lparr>cpu := advance pcAfter m\<rparr>))))"

text \<open>
  \<open>Run\<close> never returns; \<open>n\<close> bounds the rounds of its loop that are looked at. \<open>OneTick\<close> is the
  interrupt simulation's step in user mode. The interactive debugger is left out.
\<close>

fun Run_loop :: "'k host \<Rightarrow> ('k system \<Rightarrow> 'k system result) \<Rightarrow> nat \<Rightarrow> 'k system \<Rightarrow> 'k system result" where
  "Run_loop h OneTick 0 s = Inr s"
| "Run_loop h OneTick (Suc n) s =
     bind_result (OneInstruction h s) (\<lambda>s. bind_result (OneTick s) (Run_loop h OneTick n))"

definition Run :: "'k host \<Rightarrow> ('k system \<Rightarrow> 'k system result) \<Rightarrow> nat \<Rightarrow> 'k system \<Rightarrow> 'k system result" where
  "Run h OneTick n s = Run_loop h OneTick n (s\<lparr>mode := UserMode\<rparr>)"

section \<open>Overflow\<close>

lemma sign_bit: "w AND SIGN_BIT = 0 \<longleftrightarrow> 0 \<le> sint w" "w AND SIGN_BIT \<noteq> 0 \<longleftrightarrow> sint w < 0"
proof -
  show "w AND SIGN_BIT \<noteq> 0 \<longleftrightarrow> sint w < 0"
    unfolding SIGN_BIT_def msb_iff bit31_iff sint_uint32 using uint_range [of w] by auto
  then show "w AND SIGN_BIT = 0 \<longleftrightarrow> 0 \<le> sint w" by auto
qed

lemma sign_xor: "(v XOR w) AND SIGN_BIT = 0 \<longleftrightarrow> (sint v < 0 \<longleftrightarrow> sint w < 0)"
proof -
  have "bit u 31 \<longleftrightarrow> sint u < 0" for u :: "32 word" using sign_bit(2) [of u] by (simp only: SIGN_BIT_def msb_iff)
  then show ?thesis using msb_iff [of "v XOR w"] unfolding SIGN_BIT_def bit_xor_iff by blast
qed

definition in_int :: "int \<Rightarrow> bool" where
  "in_int x \<longleftrightarrow> - (2 ^ 31) \<le> x \<and> x < 2 ^ 31"

lemma sint_in_int: "in_int (sint (w :: 32 word))"
  using uint_range [of w] unfolding in_int_def sint_uint32 by (cases "uint w < 2 ^ 31") (simp_all add: order_trans [of _ 0])

lemma sint_of_int:
  "sint (word_of_int x :: 32 word) = (if in_int x then x else if 0 \<le> x then x - 2 ^ 32 else x + 2 ^ 32)"
  if "- (2 ^ 32) \<le> x" "x < 2 ^ 32" "x \<ge> 2 ^ 31 \<longrightarrow> x - 2 ^ 32 < 2 ^ 31"
proof -
  have t: "sint (word_of_int x :: 32 word) = signed_take_bit 31 x" by (simp add: sint_sbintrunc')
  have e: "signed_take_bit 31 y = y" if "in_int y" for y :: int
    using that unfolding in_int_def by (intro signed_take_bit_int_eq_self) simp_all
  show ?thesis
  proof (cases "in_int x")
    case True
    then show ?thesis using e t by simp
  next
    case False
    let ?y = "if 0 \<le> x then x - 2 ^ 32 else x + 2 ^ 32"
    have "signed_take_bit 31 x = signed_take_bit 31 ?y"
      by (rule signed_take_bit_eq_iff_take_bit_eq [THEN iffD2]) (simp add: take_bit_eq_mod)
    moreover have "in_int ?y" using False that by (auto simp: in_int_def)
    ultimately show ?thesis using e t False by simp
  qed
qed

lemma sint_add_if: "sint (v + w :: 32 word) = (let x = sint v + sint w in if in_int x then x else if 0 \<le> x then x - 2 ^ 32 else x + 2 ^ 32)"
proof -
  have "v + w = (word_of_int (sint v + sint w) :: 32 word)" by simp
  then show ?thesis using sint_of_int [of "sint v + sint w"] sint_in_int [of v] sint_in_int [of w]
    by (simp add: in_int_def Let_def)
qed

lemma sint_sub_if: "sint (v - w :: 32 word) = (let x = sint v - sint w in if in_int x then x else if 0 \<le> x then x - 2 ^ 32 else x + 2 ^ 32)"
proof -
  have "v - w = (word_of_int (sint v - sint w) :: 32 word)" by simp
  then show ?thesis using sint_of_int [of "sint v - sint w"] sint_in_int [of v] sint_in_int [of w]
    by (simp add: in_int_def Let_def)
qed

lemma add_overflow_iff:
  "(a XOR b) AND SIGN_BIT = 0 \<and> (a XOR (a + b)) AND SIGN_BIT \<noteq> 0 \<longleftrightarrow> \<not> in_int (sint a + sint b)"
  unfolding sign_xor sint_add_if Let_def using sint_in_int [of a] sint_in_int [of b] by (auto simp: in_int_def)

lemma addi_overflow_iff:
  "(a XOR b) AND SIGN_BIT = 0 \<and> (b XOR (a + b)) AND SIGN_BIT \<noteq> 0 \<longleftrightarrow> \<not> in_int (sint a + sint b)"
  unfolding sign_xor sint_add_if Let_def using sint_in_int [of a] sint_in_int [of b] by (auto simp: in_int_def)

lemma sub_overflow_iff:
  "(a XOR b) AND SIGN_BIT \<noteq> 0 \<and> (a XOR (a - b)) AND SIGN_BIT \<noteq> 0 \<longleftrightarrow> \<not> in_int (sint a - sint b)"
  unfolding sign_xor sint_sub_if Let_def using sint_in_int [of a] sint_in_int [of b] by (auto simp: in_int_def)


section \<open>What an instruction keeps\<close>

text \<open>The registers between two instructions: register 0 reads as zero.\<close>

definition user_ok :: "Machine \<Rightarrow> bool" where
  "user_ok m \<longleftrightarrow> machine_ok m \<and> reg m 0 = 0"

definition same_tables :: "Machine \<Rightarrow> Machine \<Rightarrow> bool" where
  "same_tables m m' \<longleftrightarrow> tlb m' = tlb m \<and> pageTable m' = pageTable m \<and> pageTableSize m' = pageTableSize m"

lemma machine_ok_registers:
  "machine_ok m \<Longrightarrow> machine_ok (m\<lparr>registers := r\<rparr>) \<longleftrightarrow> length r = NumTotalRegs \<and> unat (r ! LoadReg) < 32"
  by (auto simp: machine_ok_def split: option.splits)

lemma machine_ok_lastUsed:
  "machine_ok m \<Longrightarrow> machine_ok (m\<lparr>lastUsed := l\<rparr>) \<longleftrightarrow> length l = NumPhysPages"
  by (auto simp: machine_ok_def split: option.splits)

lemma machine_ok_memory:
  "machine_ok m \<Longrightarrow> machine_ok (m\<lparr>mainMemory := b\<rparr>) \<longleftrightarrow> length b = MemorySize"
  by (auto simp: machine_ok_def split: option.splits)

lemma machine_ok_len: "machine_ok m \<Longrightarrow> length (registers m) = 40"
  by (simp add: machine_ok_def machine_consts)

lemma machine_ok_set_reg: "machine_ok m \<Longrightarrow> i < 32 \<or> i \<in> {HiReg, LoReg, BadVAddrReg} \<Longrightarrow> machine_ok (set_reg i v m)"
  by (auto simp: machine_ok_registers machine_consts reg_consts machine_ok_len) (auto simp: machine_ok_def reg_consts)

lemma DelayedLoad_eq:
  assumes "machine_ok m"
  shows "DelayedLoad r v m = Inr (m\<lparr>registers :=
      (registers m)[unat (reg m LoadReg) := reg m LoadValueReg, LoadReg := r, LoadValueReg := v, 0 := 0]\<rparr>)"
proof -
  have l: "unat (reg m LoadReg) < 32" "length (registers m) = 40" using assms by (simp_all add: machine_ok_def machine_consts)
  have "sint (reg m LoadReg) = int (unat (reg m LoadReg))"
    using l(1) sint_uint32 [of "reg m LoadReg"] by (simp add: uint_nat del: of_nat_unat)
  moreover have "int (unat (reg m LoadReg)) < int (length (registers m))" using l by linarith
  ultimately show ?thesis unfolding DelayedLoad_def by (simp del: of_nat_unat)
qed

lemma DelayedLoad_ok:
  assumes "machine_ok m" "unat r < 32"
  shows "\<exists>m'. DelayedLoad r v m = Inr m' \<and> user_ok m' \<and> same_tables m m'"
proof -
  have l: "unat (reg m LoadReg) < 32" "length (registers m) = 40" using assms by (simp_all add: machine_ok_def machine_consts)
  have "machine_ok (m\<lparr>registers :=
      (registers m)[unat (reg m LoadReg) := reg m LoadValueReg, LoadReg := r, LoadValueReg := v, 0 := 0]\<rparr>)"
    using assms l by (simp add: machine_ok_registers machine_consts reg_consts)
  then show ?thesis using l DelayedLoad_eq [OF assms(1)] by (simp add: user_ok_def same_tables_def)
qed

text \<open>
  What the machine relies on in the kernel's exception handler: it keeps the machine and the
  kernel well-formed, and when it does not return, it ends in one of the given ways. What the
  kernel maintains, \<open>inv\<close>, may depend on the translation tables, but not on their use and dirty bits.
\<close>

locale trap_handler =
  fixes h :: "'k host" and inv :: "Machine \<Rightarrow> 'k \<Rightarrow> bool" and ends :: "fault set"
  assumes inv_tables: "same_tables m m' \<Longrightarrow> inv m k \<Longrightarrow> inv m' k"
    and inv_translated: "machine_ok m \<Longrightarrow> translated va sz w m a m' \<Longrightarrow> inv m k \<Longrightarrow> inv m' k"
    and handler:
    "user_ok (cpu s) \<Longrightarrow> inv (cpu s) (rest s) \<Longrightarrow>
     (case ExceptionHandler h e s of Inl f \<Rightarrow> f \<in> ends | Inr s' \<Rightarrow> user_ok (cpu s') \<and> inv (cpu s') (rest s'))"
begin

definition good :: "'k system result \<Rightarrow> bool" where
  "good r \<longleftrightarrow> (case r of Inl f \<Rightarrow> f \<in> ends | Inr s \<Rightarrow> user_ok (cpu s) \<and> inv (cpu s) (rest s))"

lemma RaiseException_good:
  assumes "machine_ok (cpu s)" "inv (cpu s) (rest s)"
  shows "good (RaiseException h e a s)"
proof -
  have "machine_ok (set_reg BadVAddrReg a (cpu s))" using assms(1) by (intro machine_ok_set_reg) auto
  from DelayedLoad_ok [OF this, of 0 0] obtain m where
    m: "DelayedLoad 0 0 (set_reg BadVAddrReg a (cpu s)) = Inr m" "user_ok m"
      "same_tables (set_reg BadVAddrReg a (cpu s)) m" by auto
  have "inv m (rest s)" using m(3) assms(2) inv_tables [of "cpu s" m] by (simp add: same_tables_def)
  with handler [of "s\<lparr>cpu := m, mode := SystemMode\<rparr>" e] m show ?thesis
    by (simp add: RaiseException_def good_def split: sum.splits)
qed

lemma ReadMem_good:
  assumes "user_ok (cpu s)" "inv (cpu s) (rest s)" "sz \<in> {1, 2, 4}"
  shows "case ReadMem h va sz s of Inl f \<Rightarrow> f \<in> ends | Inr (v, s') \<Rightarrow> user_ok (cpu s') \<and> inv (cpu s') (rest s') \<and>
     (v \<noteq> None \<longrightarrow> registers (cpu s') = registers (cpu s))"
proof -
  have ok: "machine_ok (cpu s)" using assms(1) by (simp add: user_ok_def)
  from ReadMem_ok [OF ok assms(3), of va h] show ?thesis
  proof (elim disjE exE conjE)
    fix e assume "ReadMem h va sz s = bind_result (RaiseException h e va s) (\<lambda>s. Inr (None, s))"
    with RaiseException_good [OF ok assms(2), of e va] show ?thesis
      by (cases "RaiseException h e va s") (auto simp: good_def)
  next
    fix a m' assume t: "translated va sz False (cpu s) a m'"
      "ReadMem h va sz s = Inr (Some (value_of sz (read_at a sz (mainMemory (cpu s)))), s\<lparr>cpu := stamp a s m'\<rparr>)"
    have "inv (stamp a s m') (rest s)"
      using inv_translated [OF ok t(1) assms(2)] inv_tables [of m' "stamp a s m'"] by (simp add: same_tables_def stamp_def)
    with translated_bounds [OF t(1) ok] assms t(2) show ?thesis
      by (simp add: user_ok_def stamp_def machine_ok_lastUsed) (simp add: machine_ok_def)
  qed
qed

lemma WriteMem_good:
  assumes "user_ok (cpu s)" "inv (cpu s) (rest s)" "sz \<in> {1, 2, 4}"
  shows "case WriteMem h va sz v s of Inl f \<Rightarrow> f \<in> ends | Inr (b, s') \<Rightarrow> user_ok (cpu s') \<and> inv (cpu s') (rest s')"
proof -
  have ok: "machine_ok (cpu s)" using assms(1) by (simp add: user_ok_def)
  from WriteMem_ok [OF ok assms(3), of va h v] show ?thesis
  proof (elim disjE exE conjE)
    fix e assume "WriteMem h va sz v s = bind_result (RaiseException h e va s) (\<lambda>s. Inr (False, s))"
    with RaiseException_good [OF ok assms(2), of e va] show ?thesis
      by (cases "RaiseException h e va s") (auto simp: good_def)
  next
    fix a m' assume t: "translated va sz True (cpu s) a m'"
      "WriteMem h va sz v s =
       Inr (True, s\<lparr>cpu := stamp a s (m'\<lparr>mainMemory := write_at a (bytes_of sz v) (mainMemory (cpu s))\<rparr>)\<rparr>)"
    note b = translated_bounds [OF t(1) ok]
    have "length (write_at a (bytes_of sz v) (mainMemory (cpu s))) = MemorySize" "length (lastUsed m') = NumPhysPages"
      using b(1,5) length_bytes_of [OF assms(3), of v] ok by (simp_all add: machine_ok_def)
    moreover have "inv (stamp a s (m'\<lparr>mainMemory := write_at a (bytes_of sz v) (mainMemory (cpu s))\<rparr>)) (rest s)"
      using inv_translated [OF ok t(1) assms(2)] inv_tables [of m'] by (simp add: same_tables_def stamp_def)
    ultimately show ?thesis using b assms t(2) by (simp add: user_ok_def stamp_def machine_ok_lastUsed machine_ok_memory)
  qed
qed

text \<open>How the \<open>switch\<close> ends: well, or in a way the handler ends, or in one the machine itself does.\<close>

definition good_after :: "bool \<Rightarrow> 'k after result \<Rightarrow> bool" where
  "good_after crash r \<longleftrightarrow> (case r of Inl f \<Rightarrow> f \<in> ends \<or> crash \<and> f \<in> {ASSERT_FAILED, UNDEFINED}
     | Inr (Return s) \<Rightarrow> user_ok (cpu s) \<and> inv (cpu s) (rest s)
     | Inr (Break s pc n v) \<Rightarrow> machine_ok (cpu s) \<and> inv (cpu s) (rest s) \<and> n < 32)"

lemma trap_good: "user_ok (cpu s) \<Longrightarrow> inv (cpu s) (rest s) \<Longrightarrow> good_after c (trap h e a s)"
  using RaiseException_good [of s e a]
  by (cases "RaiseException h e a s") (auto simp: trap_def good_after_def good_def user_ok_def)

lemma with_mem_good:
  assumes "user_ok (cpu s)" "inv (cpu s) (rest s)" "sz \<in> {1, 2, 4}"
    and "\<And>v s'. user_ok (cpu s') \<Longrightarrow> inv (cpu s') (rest s') \<Longrightarrow> registers (cpu s') = registers (cpu s) \<Longrightarrow> good_after c (k v s')"
  shows "good_after c (with_mem h va sz s k)"
proof (cases "ReadMem h va sz s")
  case (Inl f)
  then show ?thesis using ReadMem_good [OF assms(1-3), of va] by (simp add: with_mem_def good_after_def)
next
  case (Inr p)
  then show ?thesis using ReadMem_good [OF assms(1-3), of va] assms(4)
    by (cases p) (auto simp: with_mem_def good_after_def split: option.split)
qed

lemma put_mem_good:
  assumes "user_ok (cpu s)" "inv (cpu s) (rest s)" "sz \<in> {1, 2, 4}"
  shows "good_after c (put_mem h va sz v s pc)"
proof (cases "WriteMem h va sz v s")
  case (Inl f)
  then show ?thesis using WriteMem_good [OF assms, of va v] by (simp add: put_mem_def good_after_def)
next
  case (Inr p)
  then show ?thesis using WriteMem_good [OF assms, of va v] by (cases p) (auto simp: put_mem_def good_after_def user_ok_def)
qed

lemma Break_good: "machine_ok (cpu s) \<Longrightarrow> inv (cpu s) (rest s) \<Longrightarrow> n < 32 \<Longrightarrow> good_after c (Inr (Break s pc n v))"
  by (simp add: good_after_def)

end

text \<open>The two kinds of instruction that end the simulator itself.\<close>

definition crashes :: "Instruction \<Rightarrow> Machine \<Rightarrow> bool" where
  "crashes i m \<longleftrightarrow>
     (opCode i \<in> {OP_LWL, OP_LWR, OP_SWL, OP_SWR} \<and> (reg m (rs i) + extra i) AND 0x3 \<noteq> 0) \<or>
     (opCode i = OP_DIV \<and> sint (reg m (rs i)) = - (2 ^ 31) \<and> sint (reg m (rt i)) = - 1)"

lemma exec_alu_ok:
  assumes "machine_ok m" "rd i < 32" "rt i < 32"
  shows "machine_ok (exec_alu i m)"
proof -
  have r: "machine_ok (set_reg j v m')" if "machine_ok m'" "j < 32 \<or> j \<in> {HiReg, LoReg}" for m' j v
    using that by (auto intro!: machine_ok_set_reg)
  have p: "machine_ok (m\<lparr>registers := (registers m)[LoReg := v, HiReg := w]\<rparr>)"
    "machine_ok (m\<lparr>registers := (registers m)[HiReg := w, LoReg := v]\<rparr>)" for v w
    using assms(1) by (auto simp: machine_ok_registers machine_ok_len machine_consts) (auto simp: machine_ok_def reg_consts)
  show ?thesis unfolding exec_alu_def Let_def
    by (cases "opCode i") (auto intro!: assms r p split: prod.splits)
qed

lemma exec_alu_tables: "same_tables m (exec_alu i m)"
  unfolding exec_alu_def Let_def by (cases "opCode i") (auto simp: same_tables_def split: prod.splits)

lemma exec_branch_tables: "same_tables m (fst (exec_branch i m))"
  unfolding exec_branch_def Let_def by (cases "opCode i") (auto simp: same_tables_def)

lemma exec_branch_ok:
  assumes "machine_ok m" "rd i < 32"
  shows "machine_ok (fst (exec_branch i m))"
  using assms unfolding exec_branch_def Let_def
  by (cases "opCode i") (auto simp: R31_def intro!: machine_ok_set_reg)

context trap_handler
begin

lemma ASSERT_good:
  "(c \<Longrightarrow> good_after d (k ())) \<Longrightarrow> (\<not> c \<Longrightarrow> d) \<Longrightarrow> good_after d (bind_result (ASSERT c) k)"
  by (cases c) (simp_all add: good_after_def)

lemma crash_good: "f \<in> {ASSERT_FAILED, UNDEFINED} \<Longrightarrow> good_after True (Inl f)"
  by (simp add: good_after_def)

lemma exec_load_good:
  assumes "user_ok (cpu s)" "inv (cpu s) (rest s)" "rt i < 32" "opCode i \<in> loads"
  shows "good_after (crashes i (cpu s)) (exec_load h i s)"
proof -
  have b: "\<And>s'. user_ok (cpu s') \<Longrightarrow> inv (cpu s') (rest s') \<Longrightarrow> good_after c (Inr (Break s' pc (rt i) v))" for c pc v
    using assms(3) by (simp add: Break_good user_ok_def)
  note w = with_mem_good [OF assms(1,2)] trap_good [OF assms(1,2)]
  show ?thesis using assms(4) unfolding exec_load_def Let_def loads_def
    by (auto simp: crashes_def crash_good intro!: w b ASSERT_good)
qed

lemma exec_store_good:
  assumes "user_ok (cpu s)" "inv (cpu s) (rest s)" "opCode i \<in> stores"
  shows "good_after (crashes i (cpu s)) (exec_store h i s)"
proof -
  note w = with_mem_good [OF assms(1,2)] put_mem_good
  show ?thesis using assms unfolding exec_store_def Let_def stores_def
    by (auto simp: crashes_def crash_good intro!: w ASSERT_good)
qed

lemma inv_set_reg: "inv m k \<Longrightarrow> inv (m\<lparr>registers := r\<rparr>) k"
  by (rule inv_tables) (simp_all add: same_tables_def)

lemma exec_add_good:
  assumes "user_ok (cpu s)" "inv (cpu s) (rest s)" "dest < 32"
  shows "good_after c (exec_add h overflow v dest s)"
  using assms by (auto simp: exec_add_def user_ok_def intro!: trap_good Break_good machine_ok_set_reg inv_set_reg)

lemma exec_div_good:
  assumes "user_ok (cpu s)" "inv (cpu s) (rest s)" "opCode i = OP_DIV"
  shows "good_after (crashes i (cpu s)) (exec_div i s)"
proof -
  have "machine_ok (cpu s)" using assms(1) by (simp add: user_ok_def)
  then have ok: "machine_ok (set_reg HiReg v (set_reg LoReg w (cpu s)))" for v w
    by (intro machine_ok_set_reg) auto
  show ?thesis
  proof (cases "crashes i (cpu s)")
    case True
    then show ?thesis using assms(2,3) Break_good ok crash_good inv_set_reg unfolding exec_div_def Let_def by simp
  next
    case False
    then show ?thesis using assms(2,3) Break_good ok crash_good inv_set_reg unfolding exec_div_def Let_def crashes_def by auto
  qed
qed

lemma exec_good:
  assumes "user_ok (cpu s)" "inv (cpu s) (rest s)" "rs i < 32" "rt i < 32" "rd i < 32" "opCode i \<notin> {OP_RFE, SPECIAL, BCOND}"
  shows "good_after (crashes i (cpu s)) (exec h i s)"
proof -
  have ok: "machine_ok (cpu s)" using assms(1) by (simp add: user_ok_def)
  consider "opCode i \<in> branches" | "opCode i \<in> alu_ops" | "opCode i \<in> loads" | "opCode i \<in> stores"
    | "opCode i \<in> {OP_ADD, OP_ADDI, OP_SUB}" | "opCode i = OP_DIV" | "opCode i \<in> {OP_SYSCALL, OP_RES, OP_UNIMP}"
    using assms(6) by (cases "opCode i") (simp_all add: branches_def alu_ops_def loads_def stores_def)
  then show ?thesis
  proof cases
    case 1
    then show ?thesis using exec_branch_ok [OF ok assms(5)] inv_tables [OF exec_branch_tables assms(2), of i]
      by (auto simp: exec_def Let_def intro!: Break_good split: prod.splits)
  next
    case 2
    then have "opCode i \<notin> branches" by (auto simp: alu_ops_def branches_def)
    with 2 show ?thesis using exec_alu_ok [OF ok assms(5,4)] inv_tables [OF exec_alu_tables assms(2)]
      by (simp add: exec_def Let_def Break_good)
  next
    case 3
    then have "exec h i s = exec_load h i s" by (auto simp: exec_def loads_def alu_ops_def branches_def)
    with exec_load_good [OF assms(1,2,4) 3] show ?thesis by simp
  next
    case 4
    then have "exec h i s = exec_store h i s" by (auto simp: exec_def stores_def loads_def alu_ops_def branches_def)
    with exec_store_good [OF assms(1,2) 4] show ?thesis by simp
  next
    case 5
    then show ?thesis using exec_add_good [OF assms(1,2)] assms(4,5)
      by (auto simp: exec_def Let_def stores_def loads_def alu_ops_def branches_def)
  next
    case 6
    then show ?thesis using exec_div_good [OF assms(1,2)]
      by (simp add: exec_def Let_def stores_def loads_def alu_ops_def branches_def)
  next
    case 7
    then show ?thesis using trap_good [OF assms(1,2)]
      by (auto simp: exec_def Let_def stores_def loads_def alu_ops_def branches_def)
  qed
qed

text \<open>The instruction that the program counter points to, when it can be fetched.\<close>

lemma OneInstruction_good:
  assumes "user_ok (cpu s)" "inv (cpu s) (rest s)"
  shows "case OneInstruction h s of
      Inl f \<Rightarrow> f \<in> ends \<or> f \<in> {ASSERT_FAILED, UNDEFINED} \<and> (\<exists>raw s1. ReadMem h (reg (cpu s) PCReg) 4 s = Inr (Some raw, s1) \<and> crashes (Decode raw) (cpu s))
    | Inr s' \<Rightarrow> user_ok (cpu s') \<and> inv (cpu s') (rest s')"
proof (cases "ReadMem h (reg (cpu s) PCReg) 4 s")
  case (Inl f)
  then show ?thesis using ReadMem_good [OF assms, of 4 "reg (cpu s) PCReg"] by (simp add: OneInstruction_def)
next
  case (Inr p)
  obtain raw s1 where p: "p = (raw, s1)" by (cases p)
  have s1: "user_ok (cpu s1)" "inv (cpu s1) (rest s1)" "raw \<noteq> None \<longrightarrow> registers (cpu s1) = registers (cpu s)"
    using ReadMem_good [OF assms, of 4 "reg (cpu s) PCReg"] Inr p by simp_all
  show ?thesis
  proof (cases raw)
    case None
    then show ?thesis using Inr p s1 by (simp add: OneInstruction_def)
  next
    case (Some v)
    have c: "crashes (Decode v) (cpu s1) = crashes (Decode v) (cpu s)" using s1(3) Some by (simp add: crashes_def)
    have g: "good_after (crashes (Decode v) (cpu s)) (exec h (Decode v) s1)"
      unfolding c [symmetric] by (rule exec_good [OF s1(1,2) Decode_range Decode_known])
    show ?thesis
    proof (cases "exec h (Decode v) s1")
      case (Inl f)
      with g Inr p Some show ?thesis by (auto simp: OneInstruction_def good_after_def)
    next
      case a: (Inr r)
      show ?thesis
      proof (cases r)
        case (Return s2)
        with g Inr p Some a show ?thesis by (simp add: OneInstruction_def good_after_def)
      next
        case (Break s2 pc n w)
        with g a have b: "machine_ok (cpu s2)" "inv (cpu s2) (rest s2)" "n < 32" by (simp_all add: good_after_def)
        then have "unat (of_nat n :: 32 word) < 32" by (simp add: unat_of_nat)
        from DelayedLoad_ok [OF b(1) this, of w] obtain m where
          m: "DelayedLoad (of_nat n) w (cpu s2) = Inr m" "user_ok m" "same_tables (cpu s2) m" by auto
        then have "inv (advance pc m) (rest s2)"
          using inv_tables [of "cpu s2" "advance pc m"] b(2) by (simp add: same_tables_def advance_def)
        moreover from m have "user_ok (advance pc m)"
          by (auto simp: user_ok_def advance_def machine_ok_registers machine_ok_len machine_consts reg_consts) (auto simp: machine_ok_def reg_consts)
        ultimately show ?thesis using Inr p Some a Break m by (simp add: OneInstruction_def)
      qed
    qed
  qed
qed

lemma Run_loop_good:
  assumes "user_ok (cpu s)" "inv (cpu s) (rest s)"
    and "\<And>s. user_ok (cpu s) \<Longrightarrow> inv (cpu s) (rest s) \<Longrightarrow> \<exists>s'. tick s = Inr s' \<and> user_ok (cpu s') \<and> inv (cpu s') (rest s')"
  shows "case Run_loop h tick n s of Inl f \<Rightarrow> f \<in> ends \<or> f \<in> {ASSERT_FAILED, UNDEFINED}
     | Inr s' \<Rightarrow> user_ok (cpu s') \<and> inv (cpu s') (rest s')"
  using assms(1,2)
proof (induction n arbitrary: s)
  case (Suc n)
  note O = OneInstruction_good [OF Suc.prems]
  show ?case
  proof (cases "OneInstruction h s")
    case (Inl f)
    then show ?thesis using O by auto
  next
    case (Inr s1)
    with O assms(3) [of s1] obtain s2 where s2: "tick s1 = Inr s2" "user_ok (cpu s2)" "inv (cpu s2) (rest s2)" by auto
    show ?thesis using Suc.IH [OF s2(2,3)] Inr s2(1) by simp
  qed
qed simp

end

section \<open>Properties\<close>

text \<open>
  Every word of memory decodes to an instruction the machine knows, with register numbers in
  range: the \<open>default\<close> branch of \<open>OneInstruction\<close>, which stops Nachos, is never taken.
\<close>

theorem decode_total:
  "opCode (Decode v) \<in> branches \<union> alu_ops \<union> loads \<union> stores \<union>
     {OP_ADD, OP_ADDI, OP_SUB, OP_DIV, OP_SYSCALL, OP_RES, OP_UNIMP} \<and>
   rs (Decode v) < 32 \<and> rt (Decode v) < 32 \<and> rd (Decode v) < 32"
  using Decode_known [of v] Decode_range [of v]
  by (cases "opCode (Decode v)") (simp_all add: branches_def alu_ops_def loads_def stores_def)

text \<open>
  C21: The multiplication by shifting and adding, with its sign correction, is multiplication: HI
  and LO hold the 64-bit product of the operands, as signed numbers (modulo \<open>2 ^ 64\<close>) or as
  unsigned ones, for all operands.
\<close>

theorem mult_correct:
  "(case Mult a b signedArith of (hi, lo) \<Rightarrow>
     uint hi * 2 ^ 32 + uint lo = (if signedArith then sint a * sint b else uint a * uint b) mod 2 ^ 64)"
  using Mult_ok [of a b signedArith] by (cases "Mult a b signedArith") (simp add: dval_def)

text \<open>
  The sign tests of ADD, ADDI and SUB detect signed overflow exactly: the instruction traps
  with an overflow exception if and only if the true sum or difference does not fit into 32
  bits; otherwise the destination gets it.
\<close>

theorem overflow_exact:
  "(let a = sint (reg (cpu s) (rs i)); b = sint (reg (cpu s) (rt i)); e = sint (extra i);
        result = (\<lambda>x dest. if - (2 ^ 31) \<le> x \<and> x < 2 ^ 31
                   then Inr (Break (upd dest (word_of_int x) s) (reg (cpu s) NextPCReg + 4) 0 0)
                   else trap h OverflowException 0 s)
    in exec h (i\<lparr>opCode := OP_ADD\<rparr>) s = result (a + b) (rd i) \<and>
       exec h (i\<lparr>opCode := OP_ADDI\<rparr>) s = result (a + e) (rt i) \<and>
       exec h (i\<lparr>opCode := OP_SUB\<rparr>) s = result (a - b) (rd i))"
proof -
  note sets = branches_def alu_ops_def loads_def stores_def
  show ?thesis
    unfolding Let_def in_int_def [symmetric] exec_def sets
    by (simp add: exec_add_def addi_overflow_iff add_overflow_iff sub_overflow_iff)
qed

lemma sdiv_smod_bounds:
  assumes "in_int a" "in_int b" "b \<noteq> 0" "\<not> (a = - (2 ^ 31) \<and> b = - 1)"
  shows "a = b * (a sdiv b) + a smod b" "\<bar>a smod b\<bar> < \<bar>b\<bar>" "in_int (a sdiv b)" "in_int (a smod b)"
    "0 \<le> a \<Longrightarrow> 0 \<le> a smod b" "a \<le> 0 \<Longrightarrow> a smod b \<le> 0"
proof -
  show "a = b * (a sdiv b) + a smod b" by (rule mult_sdiv_smod_eq [symmetric])
  have m: "a smod b = sgn a * (\<bar>a\<bar> mod \<bar>b\<bar>)" by (simp add: signed_modulo_int_def)
  have r: "0 \<le> \<bar>a\<bar> mod \<bar>b\<bar>" "\<bar>a\<bar> mod \<bar>b\<bar> < \<bar>b\<bar>" using assms(3) by simp_all
  show l: "\<bar>a smod b\<bar> < \<bar>b\<bar>" unfolding m using r by (cases a "0 :: int" rule: linorder_cases) simp_all
  show "0 \<le> a \<Longrightarrow> 0 \<le> a smod b" "a \<le> 0 \<Longrightarrow> a smod b \<le> 0"
    unfolding m using r by (cases a "0 :: int" rule: linorder_cases; simp)+
  show "in_int (a smod b)" using l assms(2) by (auto simp: in_int_def)
  have d: "a sdiv b = sgn a * sgn b * (\<bar>a\<bar> div \<bar>b\<bar>)" by (simp add: signed_divide_int_def)
  have q: "0 \<le> \<bar>a\<bar> div \<bar>b\<bar>" "\<bar>a\<bar> div \<bar>b\<bar> \<le> \<bar>a\<bar>"
    using assms(3) zdiv_mono2 [of "\<bar>a\<bar>" 1 "\<bar>b\<bar>"] by (simp_all add: pos_imp_zdiv_nonneg_iff)
  show "in_int (a sdiv b)"
  proof (cases "a = - (2 ^ 31)")
    case False
    have "\<bar>a sdiv b\<bar> \<le> \<bar>a\<bar>" unfolding d using q by (simp add: abs_mult abs_sgn_eq)
    with False assms(1) show ?thesis by (auto simp: in_int_def)
  next
    case a: True
    show ?thesis
    proof (cases "\<bar>b\<bar> = 1")
      case True
      then have "b = 1" using a assms(4) by linarith
      then show ?thesis using assms(1) by simp
    next
      case False
      then have "2 \<le> \<bar>b\<bar>" using assms(3) by linarith
      then have "\<bar>a\<bar> div \<bar>b\<bar> \<le> \<bar>a\<bar> div 2" by (intro zdiv_mono2) simp_all
      moreover have "\<bar>a sdiv b\<bar> \<le> \<bar>a\<bar> div \<bar>b\<bar>" unfolding d using q by (simp add: abs_mult abs_sgn_eq)
      moreover have "\<bar>a\<bar> div 2 < 2 ^ 31" using a by simp
      ultimately show ?thesis unfolding in_int_def by linarith
    qed
  qed
qed

text \<open>
  Signed division, whenever the divisor is not zero and the quotient fits: LO gets the
  quotient rounded towards zero and HI the remainder, which has the sign of the dividend; no
  other register changes.
\<close>

theorem division_correct:
  assumes "machine_ok (cpu s)" "rs i < 32" "rt i < 32" "reg (cpu s) (rt i) \<noteq> 0"
    "\<not> (sint (reg (cpu s) (rs i)) = - (2 ^ 31) \<and> sint (reg (cpu s) (rt i)) = - 1)"
  shows "\<exists>s'. exec h (i\<lparr>opCode := OP_DIV\<rparr>) s = Inr (Break s' (reg (cpu s) NextPCReg + 4) 0 0) \<and>
     (let a = sint (reg (cpu s) (rs i)); b = sint (reg (cpu s) (rt i));
          q = sint (reg (cpu s') LoReg); r = sint (reg (cpu s') HiReg)
      in a = b * q + r \<and> \<bar>r\<bar> < \<bar>b\<bar> \<and> (0 \<le> a \<longrightarrow> 0 \<le> r) \<and> (a \<le> 0 \<longrightarrow> r \<le> 0)) \<and>
     (\<forall>k. k \<noteq> LoReg \<longrightarrow> k \<noteq> HiReg \<longrightarrow> reg (cpu s') k = reg (cpu s) k)"
proof -
  let ?a = "sint (reg (cpu s) (rs i))" and ?b = "sint (reg (cpu s) (rt i))"
  have nz: "?b \<noteq> 0" using assms(4) uint_range [of "reg (cpu s) (rt i)"] uint_0_iff [of "reg (cpu s) (rt i)"]
    unfolding sint_uint32 by simp
  note B = sdiv_smod_bounds [OF sint_in_int sint_in_int nz assms(5)]
  have w: "sint (word_of_int x :: 32 word) = x" if "in_int x" for x
    using that sint_of_int [of x] by (auto simp: in_int_def)
  let ?s = "upd HiReg (word_of_int (?a smod ?b)) (upd LoReg (word_of_int (?a sdiv ?b)) s)"
  have "exec h (i\<lparr>opCode := OP_DIV\<rparr>) s = Inr (Break ?s (reg (cpu s) NextPCReg + 4) 0 0)"
    using assms(4,5) by (simp add: exec_def exec_div_def branches_def alu_ops_def loads_def stores_def Let_def)
  moreover have "sint (reg (cpu ?s) LoReg) = ?a sdiv ?b" "sint (reg (cpu ?s) HiReg) = ?a smod ?b"
    using machine_ok_len [OF assms(1)] w [OF B(3)] w [OF B(4)] by (simp_all add: reg_consts)
  moreover have "\<forall>k. k \<noteq> LoReg \<longrightarrow> k \<noteq> HiReg \<longrightarrow> reg (cpu ?s) k = reg (cpu s) k" by simp
  ultimately show ?thesis using B(1,2,5,6) by (intro exI [of _ ?s]) (simp add: Let_def)
qed

definition sample_operands :: "unit system" where
  "sample_operands = upd 1 7 (upd 2 (- 2) sample_system)"

theorem division_correct_witness:
  "\<exists>s'. exec no_handler \<lparr>opCode = OP_DIV, rs = 1, rt = 2, rd = 0, extra = 0\<rparr> sample_operands = Inr (Break s' 4 0 0) \<and>
     7 = - 2 * sint (reg (cpu s') LoReg) + sint (reg (cpu s') HiReg)"
proof -
  let ?s = sample_operands and ?i = "\<lparr>opCode = OP_DIV, rs = 1, rt = 2, rd = 0, extra = 0 :: 32 word\<rparr>"
  have r: "reg (cpu ?s) (rs ?i) = 7" "reg (cpu ?s) (rt ?i) = - 2" "reg (cpu ?s) NextPCReg = 0" "?i\<lparr>opCode := OP_DIV\<rparr> = ?i"
    by (simp_all add: sample_operands_def sample_system_def sample_machine_def machine_consts reg_consts)
  have ok: "machine_ok (cpu ?s)"
    using machine_ok_set_reg [OF machine_ok_set_reg [OF sample_machine_ok, of 2 "- 2"], of 1 7]
    by (simp add: sample_operands_def sample_system_def)
  have "sint (7 :: 32 word) = 7" "sint (- 2 :: 32 word) = - 2" by simp_all
  with division_correct [OF ok, of ?i no_handler] show ?thesis unfolding r Let_def by (auto simp del: One_nat_def)
qed


lemma sample_fetch: "\<exists>s1. ReadMem no_handler 0 4 sample_system = Inr (Some 0, s1) \<and> machine_ok (cpu s1) \<and>
    registers (cpu s1) = registers sample_machine"
proof -
  have "aligned 0 4" "find_entry (0 div of_nat PageSize) sample_machine = Inr (Inr (int 0))"
    using sample_find by (simp_all add: aligned_def)
  moreover have "0 < length (the_table sample_machine)" "\<not> (readOnly (the_table sample_machine ! 0) \<and> False)"
    "physicalPage (the_table sample_machine ! 0) < 32" by (simp_all add: the_table_def sample_machine_def sample_table_def)
  ultimately obtain a m' where "Translate 0 4 False sample_machine = Inr (Phys a, m')"
    using Translate_phys [OF sample_machine_ok _ _ _ refl, of 0 4 0 False] by blast
  with ReadMem_ok [of sample_system 4 0 no_handler] sample_machine_ok obtain a m' where
    t: "translated 0 4 False sample_machine a m'" "ReadMem no_handler 0 4 sample_system =
      Inr (Some (value_of 4 (read_at a 4 (mainMemory sample_machine))), sample_system\<lparr>cpu := stamp a sample_system m'\<rparr>)"
    by (auto simp: sample_system_def)
  note b = translated_bounds [OF t(1) sample_machine_ok]
  have "read_at a 4 (mainMemory sample_machine) = [0, 0, 0, 0]"
    using b(1) by (simp add: read_at_def sample_machine_def numeral_eq_Suc)
  then have "value_of 4 (read_at a 4 (mainMemory sample_machine)) = 0" by (simp add: value_of_def)
  moreover have "machine_ok (stamp a sample_system m')"
    using b(5,6) by (simp add: stamp_def machine_ok_lastUsed) (simp add: machine_ok_def)
  ultimately show ?thesis using t(2) b(4) by (simp add: stamp_def)
qed

lemma Decode_zero: "Decode 0 = \<lparr>opCode = OP_SLL, rs = 0, rt = 0, rd = 0, extra = 0\<rparr>"
  by (simp add: Decode_def opTable_def specialTable_def)



end
