(* ===== verification/File_Table.thy ===== *)
theory File_Table
  imports BitMaps
begin

text \<open>
  The table of open files of an address space (class \<open>Table\<close> of \<open>userprog/table.h\<close>, implemented
  in \<open>userprog/addrspace.cc\<close>): a bitmap of the slots in use and an array of pointers. A pointer
  that may be null is an option. The table's lock is only held around bitmap operations, which
  do not block, so every operation is atomic.

  \<open>entries\<close> is the table as a map from identifiers to pointers; the locale states what a client
  relies on, and the interpretation shows that \<open>Table\<close> provides it.
\<close>

section \<open>Operations\<close>

record 'a Table =
  tmap :: BitMap
  slots :: "'a option list"
  tsize :: int

text \<open>\<open>junk\<close> is the memory of the bitmap, \<open>junks\<close> that of the array.\<close>

definition Table_ctor :: "(nat \<Rightarrow> 32 word) \<Rightarrow> (nat \<Rightarrow> 'a option) \<Rightarrow> int \<Rightarrow> 'a Table result" where
  "Table_ctor junk junks s =
     bind_result (BitMap_ctor junk s) (\<lambda>b. Inr \<lparr>tmap = b, slots = map junks [0..<nat s], tsize = s\<rparr>)"

definition Table_Get :: "int \<Rightarrow> 'a Table \<Rightarrow> 'a option result" where
  "Table_Get i t =
     (if i \<ge> 0 \<and> i < tsize t
      then bind_result (Test i (tmap t)) (\<lambda>b. if b then array_get (slots t) i else Inr None)
      else Inr None)"

definition Table_Put :: "'a option \<Rightarrow> 'a Table \<Rightarrow> (int \<times> 'a Table) result" where
  "Table_Put f t =
     bind_result (Find (tmap t)) (\<lambda>(i, b).
       let t = t\<lparr>tmap := b\<rparr>
       in if i \<noteq> - 1 then bind_result (array_set (slots t) i f) (\<lambda>ss. Inr (i, t\<lparr>slots := ss\<rparr>))
          else Inr (i, t))"

definition Table_Remove :: "int \<Rightarrow> 'a Table \<Rightarrow> ('a option \<times> 'a Table) result" where
  "Table_Remove i t =
     (if i \<ge> 0 \<and> i < tsize t
      then bind_result (Test i (tmap t)) (\<lambda>b.
        if b then
          bind_result (Clear i (tmap t)) (\<lambda>b.
          bind_result (array_get (slots t) i) (\<lambda>f.
          bind_result (array_set (slots t) i None) (\<lambda>ss. Inr (f, t\<lparr>tmap := b, slots := ss\<rparr>))))
        else Inr (None, t))
      else Inr (None, t))"

section \<open>The table as a map\<close>

definition table_ok :: "'a Table \<Rightarrow> bool" where
  "table_ok t \<longleftrightarrow> wf_bitmap (tmap t) \<and> numBits (tmap t) = tsize t \<and> int (length (slots t)) = tsize t"

definition entries :: "'a Table \<Rightarrow> int \<rightharpoonup> 'a option" where
  "entries t i = (if i \<in> marked (tmap t) then Some (slots t ! nat i) else None)"

lemma dom_entries: "dom (entries t) = marked (tmap t)"
  by (auto simp: entries_def split: if_splits)

lemma entries_bounds: "table_ok t \<Longrightarrow> dom (entries t) \<subseteq> {0..<tsize t}"
  using marked_bounds [of "tmap t"] by (simp add: dom_entries table_ok_def)

lemma nat_marked: "j \<in> marked m \<Longrightarrow> 0 \<le> i \<Longrightarrow> nat j = nat i \<longleftrightarrow> j = i"
  by (auto simp: marked_def)

lemma Table_ctor_ok:
  assumes "0 \<le> n"
  shows "\<exists>t. Table_ctor junk junks n = Inr t \<and> table_ok t \<and> tsize t = n \<and> entries t = Map.empty"
proof -
  from BitMap_ctor_ok [OF assms, of junk] obtain b where b: "BitMap_ctor junk n = Inr b" "wf_bitmap b" "numBits b = n" "marked b = {}" by blast
  then show ?thesis using assms by (auto simp: Table_ctor_def table_ok_def entries_def)
qed

lemma Table_Get_ok:
  assumes "table_ok t"
  shows "Table_Get i t = Inr (case entries t i of None \<Rightarrow> None | Some f \<Rightarrow> f)"
proof (cases "0 \<le> i \<and> i < tsize t")
  case True
  then have "Test i (tmap t) = Inr (i \<in> marked (tmap t))" using assms by (intro Test_eq) (auto simp: table_ok_def)
  then show ?thesis using True assms by (simp add: Table_Get_def entries_def table_ok_def)
next
  case False
  then have "i \<notin> dom (entries t)" using entries_bounds [OF assms] by auto
  then show ?thesis using False by (auto simp: Table_Get_def split: option.split)
qed

lemma Table_Put_full:
  assumes "table_ok t" "dom (entries t) = {0..<tsize t}"
  shows "Table_Put f t = Inr (- 1, t)"
proof -
  have "Find (tmap t) = Inr (- 1, tmap t)"
    using assms by (intro Find_ok(1)) (auto simp: table_ok_def dom_entries)
  then show ?thesis by (simp add: Table_Put_def)
qed

lemma Table_Put_ok:
  assumes "table_ok t" "dom (entries t) \<noteq> {0..<tsize t}"
  shows "\<exists>i t'. Table_Put f t = Inr (i, t') \<and> 0 \<le> i \<and> i < tsize t \<and> entries t i = None \<and>
     (\<forall>j. 0 \<le> j \<and> j < i \<longrightarrow> entries t j \<noteq> None) \<and>
     table_ok t' \<and> tsize t' = tsize t \<and> entries t' = (entries t)(i \<mapsto> f)"
proof -
  have w: "wf_bitmap (tmap t)" "numBits (tmap t) = tsize t" "int (length (slots t)) = tsize t" using assms(1) by (simp_all add: table_ok_def)
  have "\<exists>i. 0 \<le> i \<and> i < numBits (tmap t) \<and> i \<notin> marked (tmap t)"
    using assms(2) marked_bounds [of "tmap t"] w(2) by (auto simp: dom_entries)
  from Find_ok(2) [OF w(1) this] obtain i b where i: "Find (tmap t) = Inr (i, b)" "0 \<le> i" "i < tsize t" "i \<notin> marked (tmap t)"
    "\<forall>j. 0 \<le> j \<and> j < i \<longrightarrow> j \<in> marked (tmap t)" "wf_bitmap b" "numBits b = tsize t" "marked b = insert i (marked (tmap t))"
    unfolding w(2) by blast
  let ?t = "t\<lparr>tmap := b, slots := (slots t)[nat i := f]\<rparr>"
  have "Table_Put f t = Inr (i, ?t)" using i(1,2,3) w(3) by (simp add: Table_Put_def)
  moreover have "entries ?t = (entries t)(i \<mapsto> f)"
  proof
    fix j
    have "nat j = nat i \<longleftrightarrow> j = i" if "j \<in> marked (tmap t)" using that i(2) nat_marked by blast
    then show "entries ?t j = ((entries t)(i \<mapsto> f)) j" using i(2,3,4,8) w(3) by (auto simp: entries_def nth_list_update)
  qed
  moreover have "table_ok ?t" using i(6,7) w(3) by (simp add: table_ok_def)
  moreover have "entries t i = None" "\<forall>j. 0 \<le> j \<and> j < i \<longrightarrow> entries t j \<noteq> None" using i(4,5) by (auto simp: entries_def)
  ultimately show ?thesis using i(2,3) by (intro exI [of _ i] exI [of _ ?t]) simp
qed

lemma Table_Remove_ok:
  assumes "table_ok t"
  shows "\<exists>t'. Table_Remove i t = Inr (case entries t i of None \<Rightarrow> None | Some f \<Rightarrow> f, t') \<and>
     table_ok t' \<and> tsize t' = tsize t \<and> entries t' = (entries t)(i := None)"
proof (cases "i \<in> marked (tmap t)")
  case True
  have w: "wf_bitmap (tmap t)" "numBits (tmap t) = tsize t" "int (length (slots t)) = tsize t" using assms(1) by (simp_all add: table_ok_def)
  have b: "0 \<le> i" "i < tsize t" using True marked_bounds [of "tmap t"] w(2) by auto
  have T: "Test i (tmap t) = Inr True" using Test_eq [OF w(1) b(1)] b(2) w(2) True by simp
  from Clear_ok [OF w(1), of i] b w(2) obtain m where
    m: "Clear i (tmap t) = Inr m" "wf_bitmap m" "numBits m = tsize t" "marked m = marked (tmap t) - {i}" by auto
  let ?t = "t\<lparr>tmap := m, slots := (slots t)[nat i := None]\<rparr>"
  have "Table_Remove i t = Inr (slots t ! nat i, ?t)" using T b m(1) w(3) by (simp add: Table_Remove_def)
  moreover have "entries ?t = (entries t)(i := None)"
  proof
    fix j
    have "nat j = nat i \<longleftrightarrow> j = i" if "j \<in> marked (tmap t)" using that b(1) nat_marked by blast
    then show "entries ?t j = ((entries t)(i := None)) j" by (cases "j \<in> marked (tmap t)") (auto simp: entries_def m(4))
  qed
  moreover have "table_ok ?t" using m(2,3) w(3) by (simp add: table_ok_def)
  ultimately show ?thesis using True by (intro exI [of _ ?t]) (simp add: entries_def)
next
  case False
  have "Table_Remove i t = Inr (None, t)"
  proof (cases "0 \<le> i \<and> i < tsize t")
    case True
    then have "Test i (tmap t) = Inr (i \<in> marked (tmap t))" using assms by (intro Test_eq) (auto simp: table_ok_def)
    then show ?thesis using False True by (simp add: Table_Remove_def)
  qed (auto simp: Table_Remove_def)
  then show ?thesis using False assms by (auto simp: entries_def)
qed

text \<open>As long as nothing is removed, the slots are used in order.\<close>

lemma Table_Put_next:
  assumes "table_ok t" "dom (entries t) = {0..<j}" "0 \<le> j" "j < tsize t"
  shows "\<exists>t'. Table_Put f t = Inr (j, t') \<and> table_ok t' \<and> tsize t' = tsize t \<and> entries t' = (entries t)(j \<mapsto> f) \<and>
     dom (entries t') = {0..<j + 1}"
proof -
  have "dom (entries t) \<noteq> {0..<tsize t}" unfolding assms(2) using assms(3,4) by auto
  from Table_Put_ok [OF assms(1) this, of f] obtain i t' where
    i: "Table_Put f t = Inr (i, t')" "0 \<le> i" "i < tsize t" "entries t i = None"
    "\<forall>j. 0 \<le> j \<and> j < i \<longrightarrow> entries t j \<noteq> None" "table_ok t'" "tsize t' = tsize t" "entries t' = (entries t)(i \<mapsto> f)" by blast
  have "i \<notin> {0..<j}" using i(4) unfolding assms(2) [symmetric] by auto
  moreover have "\<not> j < i" using i(5) assms(3) unfolding dom_def [symmetric] using assms(2) by force
  ultimately have "i = j" using i(2) by auto
  moreover have "insert j {0..<j} = {0..<j + 1}" using assms(3) by auto
  ultimately show ?thesis using i assms(2) by auto
qed

section \<open>The interface\<close>

text \<open>Identifiers for objects, as the system calls use them.\<close>

locale handle_table =
  fixes get :: "int \<Rightarrow> 't \<Rightarrow> 'a option result"
    and put :: "'a option \<Rightarrow> 't \<Rightarrow> (int \<times> 't) result"
    and remove :: "int \<Rightarrow> 't \<Rightarrow> ('a option \<times> 't) result"
    and tab :: "'t \<Rightarrow> int \<rightharpoonup> 'a option"
    and cap :: "'t \<Rightarrow> int"
    and ok :: "'t \<Rightarrow> bool"
  assumes tab_get: "ok t \<Longrightarrow> get i t = Inr (case tab t i of None \<Rightarrow> None | Some f \<Rightarrow> f)"
    and tab_put: "ok t \<Longrightarrow> dom (tab t) \<noteq> {0..<cap t} \<Longrightarrow>
      \<exists>i t'. put f t = Inr (i, t') \<and> 0 \<le> i \<and> i < cap t \<and> tab t i = None \<and>
        (\<forall>j. 0 \<le> j \<and> j < i \<longrightarrow> tab t j \<noteq> None) \<and> ok t' \<and> cap t' = cap t \<and> tab t' = (tab t)(i \<mapsto> f)"
    and tab_full: "ok t \<Longrightarrow> dom (tab t) = {0..<cap t} \<Longrightarrow> put f t = Inr (- 1, t)"
    and tab_remove: "ok t \<Longrightarrow>
      \<exists>t'. remove i t = Inr (case tab t i of None \<Rightarrow> None | Some f \<Rightarrow> f, t') \<and>
        ok t' \<and> cap t' = cap t \<and> tab t' = (tab t)(i := None)"
begin

lemma put_cases:
  assumes "ok t"
  obtains (full) "dom (tab t) = {0..<cap t}" "put f t = Inr (- 1, t)"
    | (slot) i t' where "put f t = Inr (i, t')" "0 \<le> i" "i < cap t" "tab t i = None"
      "\<forall>j. 0 \<le> j \<and> j < i \<longrightarrow> tab t j \<noteq> None" "ok t'" "cap t' = cap t" "tab t' = (tab t)(i \<mapsto> f)"
  using assms tab_put [of t f] tab_full [of t f] by blast

text \<open>A stored pointer can be looked up and taken out, which frees its slot and no other.\<close>

lemma put_get_remove:
  assumes "ok t" "put (Some f) t = Inr (i, t')" "i \<noteq> - 1"
  shows "get i t' = Inr (Some f) \<and> (\<forall>j. j \<noteq> i \<longrightarrow> get j t' = get j t) \<and>
     (\<exists>t''. remove i t' = Inr (Some f, t'') \<and> tab t'' = tab t \<and> ok t'')"
proof (rule put_cases [OF assms(1), of "Some f"])
  assume "put (Some f) t = Inr (- 1, t)"
  then show ?thesis using assms(2,3) by simp
next
  fix k t1
  assume k: "put (Some f) t = Inr (k, t1)" "tab t k = None" "ok t1" "tab t1 = (tab t)(k \<mapsto> Some f)"
  then have e: "k = i" "t1 = t'" using assms(2) by simp_all
  from tab_remove [OF k(3), of k] obtain t2 where
    t2: "remove k t1 = Inr (Some f, t2)" "ok t2" "tab t2 = (tab t1)(k := None)" by (auto simp: k(4))
  have "tab t2 = tab t" using t2(3) k(2,4) by auto
  moreover have "tab t1 k = Some (Some f)" "\<forall>j. j \<noteq> k \<longrightarrow> tab t1 j = tab t j" by (simp_all add: k(4))
  ultimately show ?thesis using t2(1,2) e tab_get [OF k(3)] tab_get [OF assms(1)] by auto
qed

end

interpretation ft: handle_table Table_Get Table_Put Table_Remove entries tsize table_ok
  by (rule handle_table.intro; rule Table_Get_ok Table_Put_ok Table_Put_full Table_Remove_ok)

section \<open>Properties\<close>

text \<open>
  The table of open files hands out distinct identifiers: what \<open>Put\<close> stores under the
  identifier it returns is what \<open>Get\<close> finds there, the other identifiers are not affected, and
  \<open>Remove\<close> returns it and leaves the table as it was before.
\<close>

theorem table_put_get_remove:
  assumes "table_ok t" "Table_Put (Some f) t = Inr (i, t')" "i \<noteq> - 1"
  shows "Table_Get i t' = Inr (Some f) \<and> (\<forall>j. j \<noteq> i \<longrightarrow> Table_Get j t' = Table_Get j t) \<and>
     (\<exists>t''. Table_Remove i t' = Inr (Some f, t'') \<and> entries t'' = entries t \<and> table_ok t'')"
  by (rule ft.put_get_remove [OF assms])

theorem table_put_get_remove_witness:
  "\<exists>t t'. Table_ctor (\<lambda>_. 7) (\<lambda>_. None) 4 = Inr t \<and> Table_Put (Some (42 :: int)) t = Inr (0, t') \<and>
     Table_Get 0 t' = Inr (Some 42)"
proof -
  from Table_ctor_ok [of 4 "\<lambda>_. 7" "\<lambda>_. None"] obtain t :: "int Table" where
    t: "Table_ctor (\<lambda>_. 7) (\<lambda>_. None) 4 = Inr t" "table_ok t" "tsize t = 4" "entries t = Map.empty" by auto
  have "dom (entries t) \<noteq> {0..<tsize t}" by (simp add: t(3,4))
  from Table_Put_ok [OF t(2) this, of "Some 42"] obtain i t' where
    i: "Table_Put (Some 42) t = Inr (i, t')" "0 \<le> i" "\<forall>j. 0 \<le> j \<and> j < i \<longrightarrow> entries t j \<noteq> None" by blast
  have "i = 0" using i(2) i(3) [rule_format, of 0] t(4) by fastforce
  with table_put_get_remove [OF t(2) i(1)] i(1) t(1) show ?thesis by auto
qed

end
