(* ===== verification/Syscalls.thy ===== *)
theory Syscalls
  imports Address_Space
begin

text \<open>
  The kernel's entry point for user programs (\<open>userprog/exception.cc\<close>): the system calls Halt,
  Create, Open, Read, Write and Close, the copying between user memory and kernel buffers, and
  \<open>ExceptionHandler\<close>, which ends Nachos on every other exception.

  While the kernel copies from user memory, a bad address raises an exception within the
  exception: \<open>handler\<close> has the depth of that nesting as fuel, and \<open>copyin\<close> the number of times it
  retries a failed read. The theory \<open>Syscall_Properties\<close> shows that depth 2 and one try are
  always enough.

  A kernel buffer of a negative size cannot be allocated: the exception that \<open>new\<close> throws is not
  caught and ends Nachos, like a failed \<open>ASSERT\<close>.
\<close>

section \<open>The state of a call\<close>

text \<open>
  The byte order of the host, and what uninitialised memory and buffers hold, which may be
  different at each tick of the clock.
\<close>

record env =
  big :: bool
  heap :: "int \<Rightarrow> uninit"
  buffer :: "int \<Rightarrow> nat \<Rightarrow> byte"
  tries :: nat

type_synonym sys = "kern system"

abbreviation upd_kern :: "(kern \<Rightarrow> kern) \<Rightarrow> sys \<Rightarrow> sys" where
  "upd_kern f s \<equiv> s\<lparr>rest := f (rest s)\<rparr>"

text \<open>The file table of \<open>currentThread->space\<close>; there is none before a program has been started.\<close>

definition get_table :: "sys \<Rightarrow> OpenFile Table result" where
  "get_table s = (case space (rest s) of None \<Rightarrow> Inl UNDEFINED | Some sp \<Rightarrow> Inr (fileTable sp))"

definition put_table :: "OpenFile Table \<Rightarrow> sys \<Rightarrow> sys" where
  "put_table t = upd_kern (\<lambda>k. k\<lparr>space := map_option (\<lambda>sp. sp\<lparr>fileTable := t\<rparr>) (space k)\<rparr>)"

text \<open>An open file object is changed in place: it is in the slot \<open>i\<close> only.\<close>

definition put_file :: "int \<Rightarrow> OpenFile \<Rightarrow> OpenFile Table \<Rightarrow> OpenFile Table" where
  "put_file i f t = t\<lparr>slots := (slots t)[nat i := Some f]\<rparr>"

definition new_char :: "int \<Rightarrow> unit result" where
  "new_char n = (if n < 0 then Inl ASSERT_FAILED else Inr ())"

section \<open>Copying\<close>

fun read_byte :: "nat \<Rightarrow> kern host \<Rightarrow> 32 word \<Rightarrow> sys \<Rightarrow> (byte \<times> sys) result" where
  "read_byte 0 h vaddr s = Inl OUT_OF_FUEL"
| "read_byte (Suc n) h vaddr s =
     bind_result (ReadMem h vaddr 1 s) (\<lambda>(v, s). case v of Some v \<Rightarrow> Inr (ucast v, s) | None \<Rightarrow> read_byte n h vaddr s)"

fun copyin_loop :: "nat \<Rightarrow> kern host \<Rightarrow> nat \<Rightarrow> 32 word \<Rightarrow> sys \<Rightarrow> (byte list \<times> sys) result" where
  "copyin_loop fuel h 0 vaddr s = Inr ([], s)"
| "copyin_loop fuel h (Suc n) vaddr s =
     bind_result (read_byte fuel h vaddr s) (\<lambda>(b, s).
     bind_result (copyin_loop fuel h n (vaddr + 1) s) (\<lambda>(bs, s). Inr (b # bs, s)))"

definition copyin :: "nat \<Rightarrow> kern host \<Rightarrow> 32 word \<Rightarrow> int \<Rightarrow> sys \<Rightarrow> (int \<times> byte list \<times> sys) result" where
  "copyin fuel h vaddr len s =
     bind_result (copyin_loop fuel h (nat len) vaddr s) (\<lambda>(bs, s). Inr (len, bs, s))"

fun copyout_loop :: "kern host \<Rightarrow> 32 word \<Rightarrow> byte list \<Rightarrow> sys \<Rightarrow> (bool \<times> sys) result" where
  "copyout_loop h vaddr [] s = Inr (True, s)"
| "copyout_loop h vaddr (b # bs) s =
     bind_result (WriteMem h vaddr 1 (scast b) s) (\<lambda>(ok, s).
       if \<not> ok then Inr (False, s) else copyout_loop h (vaddr + 1) bs s)"

definition copyout :: "kern host \<Rightarrow> 32 word \<Rightarrow> int \<Rightarrow> byte list \<Rightarrow> sys \<Rightarrow> (int \<times> sys) result" where
  "copyout h vaddr len buf s =
     bind_result (copy_out 0 len buf) (\<lambda>bs.
     bind_result (copyout_loop h vaddr bs s) (\<lambda>(ok, s). Inr (if ok then int (length bs) else - 1, s)))"

section \<open>The system calls\<close>

text \<open>The length of the buffer for a name, \<open>len + 1\<close>, is undefined if it overflows.\<close>

definition name_buffer :: "int \<Rightarrow> unit result" where
  "name_buffer len = (if len + 1 \<ge> 2 ^ 31 then Inl UNDEFINED else new_char (len + 1))"

definition Create_Syscall :: "env \<Rightarrow> kern host \<Rightarrow> 32 word \<Rightarrow> int \<Rightarrow> sys \<Rightarrow> sys result" where
  "Create_Syscall e h vaddr len s =
     bind_result (name_buffer len) (\<lambda>_.
     bind_result (copyin (tries e) h vaddr len s) (\<lambda>(r, bs, s).
       if r = - 1 then Inr s
       else bind_result (array_set (bs @ [1]) len 0) (\<lambda>buf.
            bind_result (Create (heap e (clock s)) buf 0 (fileSys (rest s)) (kdisk (rest s))) (\<lambda>(_, d).
              Inr (upd_kern (kdisk_update (\<lambda>_. d)) s)))))"

definition Open_Syscall :: "env \<Rightarrow> kern host \<Rightarrow> 32 word \<Rightarrow> int \<Rightarrow> sys \<Rightarrow> (int \<times> sys) result" where
  "Open_Syscall e h vaddr len s =
     bind_result (name_buffer len) (\<lambda>_.
     bind_result (copyin (tries e) h vaddr len s) (\<lambda>(r, bs, s).
       if r = - 1 then Inr (- 1, s)
       else bind_result (array_set (bs @ [1]) len 0) (\<lambda>buf.
            bind_result (Open (heap e (clock s)) buf (fileSys (rest s)) (kdisk (rest s))) (\<lambda>(f, d).
            let s = upd_kern (kdisk_update (\<lambda>_. d)) s
            in case f of
                 None \<Rightarrow> Inr (- 1, s)
               | Some f \<Rightarrow>
                   bind_result (get_table s) (\<lambda>t.
                   bind_result (Table_Put (Some f) t) (\<lambda>(i, t). Inr (i, put_table t s)))))))"

definition ConsoleInput :: int where "ConsoleInput = 0"
definition ConsoleOutput :: int where "ConsoleOutput = 1"

definition Write_Syscall :: "env \<Rightarrow> kern host \<Rightarrow> 32 word \<Rightarrow> int \<Rightarrow> int \<Rightarrow> sys \<Rightarrow> sys result" where
  "Write_Syscall e h vaddr len i s =
     (if i = ConsoleInput then Inr s
      else
        bind_result (new_char len) (\<lambda>_.
        bind_result (copyin (tries e) h vaddr len s) (\<lambda>(r, buf, s).
          if r = - 1 then Inr s
          else if i = ConsoleOutput then Inr (upd_kern (screen_update (\<lambda>out. out @ buf)) s)
          else
            bind_result (get_table s) (\<lambda>t.
            bind_result (Table_Get i t) (\<lambda>f.
              case f of
                None \<Rightarrow> Inr s
              | Some f \<Rightarrow>
                  bind_result (Write_seq (mem_bytes (heap e (clock s)) 0) buf len f (kdisk (rest s))) (\<lambda>(n, f, d).
                    Inr (put_table (put_file i f t) (upd_kern (kdisk_update (\<lambda>_. d)) s))))))))"

text \<open>\<open>scanf("%s", buf)\<close>: the next word that has been typed; at the end of input nothing is stored.\<close>

definition is_space :: "byte \<Rightarrow> bool" where
  "is_space b \<longleftrightarrow> b \<in> {9, 10, 11, 12, 13, 32}"

definition scanf :: "byte list \<Rightarrow> byte list \<Rightarrow> (byte list \<times> byte list) result" where
  "scanf buf input =
     (let w = takeWhile (\<lambda>b. \<not> is_space b) (dropWhile is_space input)
      in if w = [] then Inr (buf, [])
         else bind_result (copy_in 0 (w @ [0]) buf) (\<lambda>buf. Inr (buf, drop (length w) (dropWhile is_space input))))"

definition Read_Syscall :: "env \<Rightarrow> kern host \<Rightarrow> 32 word \<Rightarrow> int \<Rightarrow> int \<Rightarrow> sys \<Rightarrow> (int \<times> sys) result" where
  "Read_Syscall e h vaddr len i s =
     (if i = ConsoleOutput then Inr (- 1, s)
      else
        bind_result (new_char len) (\<lambda>_.
        let buf = map (buffer e (clock s)) [0..<nat len] in
        if i = ConsoleInput then
          bind_result (scanf buf (keyboard (rest s))) (\<lambda>(buf, input).
          bind_result (copyout h vaddr len buf (upd_kern (keyboard_update (\<lambda>_. input)) s)) (\<lambda>(_, s). Inr (len, s)))
        else
          bind_result (get_table s) (\<lambda>t.
          bind_result (Table_Get i t) (\<lambda>f.
            case f of
              None \<Rightarrow> Inr (- 1, s)
            | Some f \<Rightarrow>
                bind_result (Read_seq len f (kdisk (rest s))) (\<lambda>(bs, f, d).
                let s = put_table (put_file i f t) (upd_kern (kdisk_update (\<lambda>_. d)) s);
                    n = int (length bs)
                in bind_result (copy_in 0 bs buf) (\<lambda>buf.
                   if n > 0 then bind_result (copyout h vaddr n buf s) (\<lambda>(_, s). Inr (n, s))
                   else Inr (n, s)))))))"

definition Close_Syscall :: "int \<Rightarrow> sys \<Rightarrow> sys result" where
  "Close_Syscall fd s =
     bind_result (get_table s) (\<lambda>t.
     bind_result (Table_Remove fd t) (\<lambda>(f, t). Inr (put_table t s)))"

section \<open>The exception handler\<close>

definition SC_Halt :: int where "SC_Halt = 0"
definition SC_Create :: int where "SC_Create = 4"
definition SC_Open :: int where "SC_Open = 5"
definition SC_Read :: int where "SC_Read = 6"
definition SC_Write :: int where "SC_Write = 7"
definition SC_Close :: int where "SC_Close = 8"

lemmas sc_defs = SC_Halt_def SC_Create_def SC_Open_def SC_Read_def SC_Write_def SC_Close_def

text \<open>The \<open>switch (type)\<close>; an unknown call falls through into Halt.\<close>

definition syscall :: "env \<Rightarrow> kern host \<Rightarrow> int \<Rightarrow> sys \<Rightarrow> (int \<times> sys) result" where
  "syscall e h ty s =
     bind_result (ReadRegister 4 (cpu s)) (\<lambda>r4.
     bind_result (ReadRegister 5 (cpu s)) (\<lambda>r5.
     bind_result (ReadRegister 6 (cpu s)) (\<lambda>r6.
       if ty = SC_Create then bind_result (Create_Syscall e h r4 (sint r5) s) (\<lambda>s. Inr (0, s))
       else if ty = SC_Open then Open_Syscall e h r4 (sint r5) s
       else if ty = SC_Write then bind_result (Write_Syscall e h r4 (sint r5) (sint r6) s) (\<lambda>s. Inr (0, s))
       else if ty = SC_Read then Read_Syscall e h r4 (sint r5) (sint r6) s
       else if ty = SC_Close then bind_result (Close_Syscall (sint r4) s) (\<lambda>s. Inr (0, s))
       else Inl HALTED)))"

definition finish_syscall :: "int \<Rightarrow> Machine \<Rightarrow> Machine result" where
  "finish_syscall rv m =
     bind_result (WriteRegister 2 (word_of_int rv) m) (\<lambda>m.
     bind_result (ReadRegister (int PCReg) m) (\<lambda>pc.
     bind_result (WriteRegister (int PrevPCReg) pc m) (\<lambda>m.
     bind_result (ReadRegister (int NextPCReg) m) (\<lambda>npc.
     bind_result (WriteRegister (int PCReg) npc m) (\<lambda>m.
     bind_result (ReadRegister (int PCReg) m) (\<lambda>pc.
       WriteRegister (int NextPCReg) (pc + 4) m))))))"

definition handle :: "env \<Rightarrow> kern host \<Rightarrow> ExceptionType \<Rightarrow> sys \<Rightarrow> sys result" where
  "handle e h which s =
     bind_result (ReadRegister 2 (cpu s)) (\<lambda>ty.
       if which = SyscallException
       then bind_result (syscall e h (sint ty) s) (\<lambda>(rv, s).
            bind_result (finish_syscall rv (cpu s)) (\<lambda>m. Inr (s\<lparr>cpu := m\<rparr>)))
       else Inl HALTED)"

fun handler :: "nat \<Rightarrow> env \<Rightarrow> ExceptionType \<Rightarrow> sys \<Rightarrow> sys result" where
  "handler 0 e which s = Inl OUT_OF_FUEL"
| "handler (Suc depth) e which s =
     handle e \<lparr>big_endian = big e, ExceptionHandler = handler depth e\<rparr> which s"

definition kernel_host :: "nat \<Rightarrow> env \<Rightarrow> kern host" where
  "kernel_host depth e = \<lparr>big_endian = big e, ExceptionHandler = handler depth e\<rparr>"

text \<open>
  \<open>Interrupt::OneTick\<close> in user mode when no interrupt is pending: the clock of the kernel's
  interrupt simulation goes on by one tick.
\<close>

definition quiet_tick :: "sys \<Rightarrow> sys result" where
  "quiet_tick s = Inr (s\<lparr>clock := clock s + UserTick\<rparr>)"

end
