(* ===== verification/Syscall_Properties.thy ===== *)
theory Syscall_Properties
  imports Syscalls
begin

text \<open>
  What the system calls do for a user program in a flat address space, as \<open>AddrSpace\<close> sets it up:
  every branch of every call, in terms of the program's memory (\<open>user_bytes\<close>, \<open>overlay\<close>), its
  handles and the contents of the files (\<open>user_files\<close>). The invariant \<open>sys_good\<close> holds between any
  two instructions of a program, and the handler keeps it; this is the interpretation of the
  locale \<open>trap_handler\<close> of the simulated machine on the kernel's own handler.
\<close>

section \<open>Copying, byte by byte\<close>

lemma flat_read_byte:
  assumes "flat n (cpu s)" "halting h" "0 < fuel"
  shows "if unat va < n * PageSize
     then \<exists>s'. read_byte fuel h va s = Inr (mainMemory (cpu s) ! unat va, s') \<and> touched n (mainMemory (cpu s)) s s'
     else read_byte fuel h va s = Inl HALTED"
proof -
  obtain f where f: "fuel = Suc f" using assms(3) by (cases fuel) auto
  have "ucast (scast b :: 32 word) = b" for b :: byte by (rule bit_word_eqI) (simp add: bit_simps)
  then show ?thesis using flat_ReadMem [OF assms(1,2), of va] by (auto simp: f split: if_splits)
qed

text \<open>The address behind the one of a byte that can be accessed.\<close>

lemma next_address:
  assumes "n \<le> 32" "unat (va :: 32 word) < n * PageSize"
  shows "unat (va + 1) = unat va + 1"
proof -
  have "unat va < 4096" using assms by (simp add: machine_consts)
  then show ?thesis by (simp add: unat_word_ariths)
qed

lemma copyin_loop_flat:
  assumes "flat n (cpu s)" "halting h" "0 < fuel"
  shows "if k = 0 \<or> unat va + k \<le> n * PageSize
     then \<exists>s'. copyin_loop fuel h k va s = Inr (read_at (unat va) k (mainMemory (cpu s)), s') \<and>
            touched n (mainMemory (cpu s)) s s'
     else copyin_loop fuel h k va s = Inl HALTED"
  using assms(1)
proof (induction k arbitrary: va s)
  case 0
  then show ?case using touched_refl by (auto simp: read_at_def)
next
  case (Suc k)
  note D = flatD [OF Suc.prems]
  show ?case
  proof (cases "unat va < n * PageSize")
    case False
    then show ?thesis using flat_read_byte [OF Suc.prems assms(2,3), of va] by simp
  next
    case True
    with flat_read_byte [OF Suc.prems assms(2,3), of va] obtain s1 where
      s1: "read_byte fuel h va s = Inr (mainMemory (cpu s) ! unat va, s1)" "touched n (mainMemory (cpu s)) s s1" by auto
    then have f1: "flat n (cpu s1)" "mainMemory (cpu s1) = mainMemory (cpu s)" by (auto simp: touched_def)
    note nx = next_address [OF D(3) True]
    have len: "unat va < length (mainMemory (cpu s))" using True D(3,4) by (simp add: machine_consts)
    have r: "read_at (unat va) (Suc k) (mainMemory (cpu s)) =
        mainMemory (cpu s) ! unat va # read_at (unat va + 1) k (mainMemory (cpu s))"
      using len by (simp add: read_at_def Cons_nth_drop_Suc [symmetric])
    show ?thesis
    proof (cases "k = 0 \<or> unat (va + 1) + k \<le> n * PageSize")
      case True
      with Suc.IH [OF f1(1), of "va + 1"] obtain s2 where
        "copyin_loop fuel h k (va + 1) s1 = Inr (read_at (unat va + 1) k (mainMemory (cpu s)), s2)"
        "touched n (mainMemory (cpu s)) s1 s2" by (auto simp: f1(2) nx)
      with s1 touched_trans [OF s1(2)] True \<open>unat va < n * PageSize\<close> show ?thesis by (auto simp: r nx)
    next
      case False
      with Suc.IH [OF f1(1), of "va + 1"] s1(1) show ?thesis by (auto simp: nx)
    qed
  qed
qed

lemma write_at_Cons: "p + Suc (length bs) \<le> length f \<Longrightarrow> write_at (p + 1) bs (write_at p [b] f) = write_at p (b # bs) f"
  by (rule nth_equalityI) (auto simp: nth_write_at nth_Cons')

text \<open>Memory with some bytes replaced.\<close>

definition overlay :: "nat \<Rightarrow> byte list \<Rightarrow> byte list \<Rightarrow> byte list" where
  "overlay p bs mem = (if bs = [] then mem else write_at p bs mem)"

lemma copyout_loop_flat:
  assumes "flat n (cpu s)" "halting h"
  shows "if bs = [] \<or> unat va + length bs \<le> n * PageSize
     then \<exists>s'. copyout_loop h va bs s = Inr (True, s') \<and> touched n (overlay (unat va) bs (mainMemory (cpu s))) s s'
     else copyout_loop h va bs s = Inl HALTED"
  using assms(1)
proof (induction bs arbitrary: va s)
  case Nil
  then show ?case using touched_refl by (auto simp: overlay_def)
next
  case (Cons b bs)
  note D = flatD [OF Cons.prems]
  show ?case
  proof (cases "unat va < n * PageSize")
    case False
    then show ?thesis using flat_WriteMem [OF Cons.prems assms(2), of va b] by simp
  next
    case True
    with flat_WriteMem [OF Cons.prems assms(2), of va b] obtain s1 where
      s1: "WriteMem h va 1 (scast b) s = Inr (True, s1)" "touched n (write_at (unat va) [b] (mainMemory (cpu s))) s s1" by auto
    then have f1: "flat n (cpu s1)" "mainMemory (cpu s1) = write_at (unat va) [b] (mainMemory (cpu s))" by (auto simp: touched_def)
    note nx = next_address [OF D(3) True]
    show ?thesis
    proof (cases "bs = [] \<or> unat (va + 1) + length bs \<le> n * PageSize")
      case t: True
      with Cons.IH [OF f1(1), of "va + 1"] obtain s2 where
        s2: "copyout_loop h (va + 1) bs s1 = Inr (True, s2)"
        "touched n (overlay (unat va + 1) bs (write_at (unat va) [b] (mainMemory (cpu s)))) s1 s2" by (auto simp: f1(2) nx)
      have le: "unat va + Suc (length bs) \<le> n * PageSize" using t True by (auto simp: nx)
      then have "unat va + Suc (length bs) \<le> length (mainMemory (cpu s))" using D(3,4) by (simp add: machine_consts)
      then have "overlay (unat va + 1) bs (write_at (unat va) [b] (mainMemory (cpu s))) = overlay (unat va) (b # bs) (mainMemory (cpu s))"
        using write_at_Cons [of "unat va" bs "mainMemory (cpu s)" b] by (simp add: overlay_def)
      with s1(1) s2 touched_trans [OF s1(2)] le show ?thesis by auto
    next
      case False
      with Cons.IH [OF f1(1), of "va + 1"] s1(1) show ?thesis by (auto simp: nx)
    qed
  qed
qed

section \<open>The invariant of the kernel\<close>

definition open_on :: "FileSystem \<Rightarrow> Disk \<Rightarrow> OpenFile \<Rightarrow> bool" where
  "open_on fs d f \<longleftrightarrow> (\<exists>k a. names fs d k = Some a \<and> hdr f = the_header a d) \<and> 0 \<le> seekPosition f"

definition kern_ok :: "kern \<Rightarrow> bool" where
  "kern_ok k \<longleftrightarrow> fs_ok (fileSys k) (kdisk k) \<and>
     (\<exists>sp. space k = Some sp \<and> table_ok (fileTable sp) \<and> tsize (fileTable sp) = MaxOpenFiles \<and>
        (\<forall>i f. entries (fileTable sp) i = Some (Some f) \<longrightarrow> open_on (fileSys k) (kdisk k) f))"

definition env_ok :: "env \<Rightarrow> bool" where
  "env_ok e \<longleftrightarrow> 0 < tries e \<and> (\<forall>t. uninit_ok (heap e t))"

text \<open>The state that the system calls keep: a flat address space of \<open>n\<close> pages and a kernel in order.\<close>

definition sys_good :: "nat \<Rightarrow> sys \<Rightarrow> bool" where
  "sys_good n s \<longleftrightarrow> flat n (cpu s) \<and> kern_ok (rest s)"

text \<open>The handles of the program, and the contents of its files.\<close>

definition handles :: "sys \<Rightarrow> int \<rightharpoonup> OpenFile option" where
  "handles s = (case space (rest s) of None \<Rightarrow> Map.empty | Some sp \<Rightarrow> entries (fileTable sp))"

abbreviation user_files :: "sys \<Rightarrow> byte list \<rightharpoonup> byte list" where
  "user_files s \<equiv> files (fileSys (rest s)) (kdisk (rest s))"

lemma kern_okD:
  assumes "kern_ok (rest s)"
  obtains t where "get_table s = Inr t" "table_ok t" "handles s = entries t" "fs_ok (fileSys (rest s)) (kdisk (rest s))"
    "\<forall>i f. entries t i = Some (Some f) \<longrightarrow> open_on (fileSys (rest s)) (kdisk (rest s)) f" "tsize t = MaxOpenFiles"
  using assms by (auto simp: kern_ok_def get_table_def handles_def)

lemma same_keeps: "same_disk d d' \<Longrightarrow> keeps fs d d'"
  by (simp add: keeps_def same_disk_cong)

lemma keeps_open: "keeps fs d d' \<Longrightarrow> open_on fs d f \<Longrightarrow> open_on fs d' f"
  by (auto simp: open_on_def keeps_def) metis

lemma kern_ok_disk:
  assumes "kern_ok k" "fs_ok (fileSys k) d'" "keeps (fileSys k) (kdisk k) d'"
  shows "kern_ok (k\<lparr>kdisk := d'\<rparr>)"
  using assms keeps_open [OF assms(3)] by (auto simp: kern_ok_def)

lemma kern_ok_table:
  assumes "kern_ok (rest s)" "table_ok t" "tsize t = MaxOpenFiles" "\<And>i f. entries t i = Some (Some f) \<Longrightarrow> open_on (fileSys (rest s)) (kdisk (rest s)) f"
  shows "kern_ok (rest (put_table t s))" "handles (put_table t s) = entries t"
  using assms by (auto simp: kern_ok_def put_table_def handles_def)

lemma put_table_simps [simp]:
  "cpu (put_table t s) = cpu s" "clock (put_table t s) = clock s" "mode (put_table t s) = mode s"
  "kdisk (rest (put_table t s)) = kdisk (rest s)" "fileSys (rest (put_table t s)) = fileSys (rest s)"
  "screen (rest (put_table t s)) = screen (rest s)" "keyboard (rest (put_table t s)) = keyboard (rest s)"
  by (simp_all add: put_table_def)

lemma put_file_entries:
  assumes "table_ok t" "entries t i = Some (Some f)"
  shows "table_ok (put_file i f' t)" "tsize (put_file i f' t) = tsize t" "entries (put_file i f' t) = (entries t)(i \<mapsto> Some f')"
proof -
  have "i \<in> dom (entries t)" using assms(2) by blast
  then have i: "0 \<le> i" "i < tsize t" "i \<in> marked (tmap t)"
    using entries_bounds [OF assms(1)] unfolding dom_entries by auto
  show "table_ok (put_file i f' t)" "tsize (put_file i f' t) = tsize t" using assms(1) by (simp_all add: table_ok_def put_file_def)
  show "entries (put_file i f' t) = (entries t)(i \<mapsto> Some f')"
  proof
    fix j
    have "nat i < length (slots t)" using i(1,2) assms(1) unfolding table_ok_def by linarith
    then show "entries (put_file i f' t) j = ((entries t)(i \<mapsto> Some f')) j"
      using i nat_marked [of j "tmap t" i]
      by (cases "j \<in> marked (tmap t)") (auto simp: entries_def put_file_def nth_list_update)
  qed
qed

section \<open>Copying between user memory and the kernel\<close>

definition in_space :: "nat \<Rightarrow> 32 word \<Rightarrow> int \<Rightarrow> bool" where
  "in_space n va len \<longleftrightarrow> len \<le> 0 \<or> unat va + nat len \<le> n * PageSize"

abbreviation user_bytes :: "sys \<Rightarrow> 32 word \<Rightarrow> int \<Rightarrow> byte list" where
  "user_bytes s va len \<equiv> read_at (unat va) (nat len) (mainMemory (cpu s))"

lemma copyin_flat:
  assumes "flat n (cpu s)" "halting h" "0 < fuel"
  shows "if in_space n va len
     then \<exists>s'. copyin fuel h va len s = Inr (len, user_bytes s va len, s') \<and> touched n (mainMemory (cpu s)) s s'
     else copyin fuel h va len s = Inl HALTED"
  using copyin_loop_flat [OF assms, of "nat len" va] by (auto simp: copyin_def in_space_def split: if_splits)

lemma length_user_bytes: "flat n (cpu s) \<Longrightarrow> in_space n va len \<Longrightarrow> 0 \<le> len \<Longrightarrow> int (length (user_bytes s va len)) = len"
  using flatD(3,4) [of n "cpu s"] by (cases "len = 0") (auto simp: in_space_def read_at_def machine_consts)

lemma copyout_flat:
  assumes "flat n (cpu s)" "halting h" "0 \<le> len" "len \<le> int (length buf)"
  shows "if in_space n va len
     then \<exists>s'. copyout h va len buf s = Inr (len, s') \<and>
            touched n (overlay (unat va) (take (nat len) buf) (mainMemory (cpu s))) s s'
     else copyout h va len buf s = Inl HALTED"
proof -
  have c: "copy_out 0 len buf = Inr (take (nat len) buf)" using assms(3,4) by (simp add: copy_out_def read_at_def)
  have l: "length (take (nat len) buf) = nat len" using assms(3,4) by simp
  have e: "take (nat len) buf = [] \<longleftrightarrow> len \<le> 0" using l by (metis length_0_conv nat_eq_iff2 nat_le_0 nat_0_iff)
  from copyout_loop_flat [OF assms(1,2), of "take (nat len) buf" va] show ?thesis
    unfolding e l in_space_def [symmetric] using assms(3) l by (auto simp: copyout_def c split: if_splits)
qed

lemma touched_state:
  assumes "touched n mem s s'"
  shows "flat n (cpu s')" "mainMemory (cpu s') = mem" "registers (cpu s') = registers (cpu s)" "rest s' = rest s"
    "clock s' = clock s" "handles s' = handles s" "get_table s' = get_table s"
  using assms by (auto simp: touched_def handles_def get_table_def)

section \<open>The system calls one by one\<close>

abbreviation c_name :: "byte list \<Rightarrow> byte list" where
  "c_name bs \<equiv> bs @ [0]"

lemma name_buffer_ok: "0 \<le> len \<Longrightarrow> len + 1 < 2 ^ 31 \<Longrightarrow> name_buffer len = Inr ()"
  by (simp add: name_buffer_def new_char_def)

lemma terminate_name: "int (length bs) = len \<Longrightarrow> array_set (bs @ [1]) len 0 = Inr (c_name bs)"
  by (auto simp: array_set_def list_update_append)

lemma Create_Syscall_ok:
  assumes g: "sys_good n s" "halting h" "env_ok e" "0 \<le> len" "len + 1 < 2 ^ 31"
  shows "if in_space n va len
     then \<exists>s'. Create_Syscall e h va len s = Inr s' \<and> sys_good n s' \<and>
       mainMemory (cpu s') = mainMemory (cpu s) \<and> registers (cpu s') = registers (cpu s) \<and> handles s' = handles s \<and>
       user_files s' =
         (if room_for (c_name (user_bytes s va len)) 0 (fileSys (rest s)) (kdisk (rest s))
          then (user_files s)(fkey (c_name (user_bytes s va len)) \<mapsto> []) else user_files s)
     else Create_Syscall e h va len s = Inl HALTED"
proof (cases "in_space n va len")
  case False
  then show ?thesis using copyin_flat [of n s h "tries e" va len] g
    by (simp add: Create_Syscall_def name_buffer_ok sys_good_def env_ok_def)
next
  case True
  let ?nm = "c_name (user_bytes s va len)" and ?fs = "fileSys (rest s)" and ?d = "kdisk (rest s)"
  have fl: "flat n (cpu s)" and ko: "kern_ok (rest s)" and fuel: "0 < tries e" using g by (simp_all add: sys_good_def env_ok_def)
  from copyin_flat [OF fl g(2) fuel, of va len] True obtain s1 where
    s1: "copyin (tries e) h va len s = Inr (len, user_bytes s va len, s1)" "touched n (mainMemory (cpu s)) s s1" by auto
  note T = touched_state [OF s1(2)]
  have fs: "fs_ok ?fs ?d" using ko by (simp add: kern_ok_def)
  have u: "uninit_ok (heap e (clock s))" using g(3) by (simp add: env_ok_def)
  have nm: "is_name ?nm" by (simp add: readable_def)
  from Create_ok [OF fs u nm, of 0] obtain d' where
    d': "Create (heap e (clock s)) ?nm 0 ?fs ?d = Inr (room_for ?nm 0 ?fs ?d, d')" "fs_ok ?fs d'"
    "if room_for ?nm 0 ?fs ?d then created ?nm 0 ?fs ?d d' else same_disk ?d d'" by auto
  have k: "keeps ?fs ?d d'" using d'(3) same_keeps [of ?d d' ?fs] by (auto simp: created_def split: if_splits)
  have f: "files ?fs d' = (if room_for ?nm 0 ?fs ?d then (files ?fs ?d)(fkey ?nm \<mapsto> []) else files ?fs ?d)"
    using d'(3) same_disk_cong(6) [of ?d d' ?fs] by (auto simp: created_def split: if_splits)
  let ?s = "upd_kern (kdisk_update (\<lambda>_. d')) s1"
  have "Create_Syscall e h va len s = Inr ?s"
    using s1(1) d'(1) g(4,5) terminate_name [OF length_user_bytes [OF fl True g(4)]]
    by (simp add: Create_Syscall_def name_buffer_ok T)
  moreover have "sys_good n ?s" using T kern_ok_disk [OF ko d'(2) k] by (simp add: sys_good_def)
  moreover have "handles ?s = handles s" using T by (simp add: handles_def)
  ultimately show ?thesis using True f T by auto
qed

lemma Open_Syscall_ok:
  assumes g: "sys_good n s" "halting h" "env_ok e" "0 \<le> len" "len + 1 < 2 ^ 31"
  shows "if in_space n va len
     then \<exists>i s'. Open_Syscall e h va len s = Inr (i, s') \<and> sys_good n s' \<and>
       mainMemory (cpu s') = mainMemory (cpu s) \<and> registers (cpu s') = registers (cpu s) \<and> user_files s' = user_files s \<and>
       (if i = - 1
        then handles s' = handles s \<and> (user_files s (fkey (c_name (user_bytes s va len))) = None \<or>
               (\<exists>t. get_table s = Inr t \<and> dom (entries t) = {0..<tsize t}))
        else handles s i = None \<and> (\<forall>j. 0 \<le> j \<and> j < i \<longrightarrow> handles s j \<noteq> None) \<and> 0 \<le> i \<and>
          (\<exists>a. names (fileSys (rest s)) (kdisk (rest s)) (fkey (c_name (user_bytes s va len))) = Some a \<and>
             handles s' = (handles s)(i \<mapsto> Some \<lparr>hdr = the_header a (kdisk (rest s)), seekPosition = 0\<rparr>)))
     else Open_Syscall e h va len s = Inl HALTED"
proof (cases "in_space n va len")
  case False
  then show ?thesis using copyin_flat [of n s h "tries e" va len] g
    by (simp add: Open_Syscall_def name_buffer_ok sys_good_def env_ok_def)
next
  case True
  let ?nm = "c_name (user_bytes s va len)" and ?fs = "fileSys (rest s)" and ?d = "kdisk (rest s)"
  have fl: "flat n (cpu s)" and ko: "kern_ok (rest s)" and fuel: "0 < tries e" using g by (simp_all add: sys_good_def env_ok_def)
  from copyin_flat [OF fl g(2) fuel, of va len] True obtain s1 where
    s1: "copyin (tries e) h va len s = Inr (len, user_bytes s va len, s1)" "touched n (mainMemory (cpu s)) s s1" by auto
  note T = touched_state [OF s1(2)]
  from kern_okD [OF ko] obtain t where t: "get_table s = Inr t" "table_ok t" "handles s = entries t" "fs_ok ?fs ?d"
    "\<forall>i f. entries t i = Some (Some f) \<longrightarrow> open_on ?fs ?d f" "tsize t = MaxOpenFiles" by blast
  have u: "uninit_ok (heap e (clock s))" using g(3) by (simp add: env_ok_def)
  have nm: "is_name ?nm" by (simp add: readable_def)
  from Open_ok [OF t(4) u nm] obtain d' where d': "Open (heap e (clock s)) ?nm ?fs ?d =
     Inr (map_option (\<lambda>a. \<lparr>hdr = the_header a ?d, seekPosition = 0\<rparr>) (names ?fs ?d (fkey ?nm)), d')" "same_disk ?d d'" by blast
  note sd = same_disk_cong [OF d'(2)] and kd = kern_ok_disk [OF ko same_disk_cong(5) [OF d'(2) t(4)] same_keeps [OF d'(2)]]
  let ?s = "upd_kern (kdisk_update (\<lambda>_. d')) s1"
  have gt: "get_table ?s = Inr t" using t(1) T(4) by (simp add: get_table_def)
  have hs: "handles ?s = handles s" using T(4) by (simp add: handles_def)
  have gs: "sys_good n ?s" using T kd by (simp add: sys_good_def)
  have run: "Open_Syscall e h va len s =
      (case map_option (\<lambda>a. \<lparr>hdr = the_header a ?d, seekPosition = 0\<rparr>) (names ?fs ?d (fkey ?nm)) of
         None \<Rightarrow> Inr (- 1, ?s)
       | Some f \<Rightarrow> bind_result (Table_Put (Some f) t) (\<lambda>(i, t). Inr (i, put_table t ?s)))"
    using s1(1) d'(1) g(4,5) terminate_name [OF length_user_bytes [OF fl True g(4)]] gt
    by (simp add: Open_Syscall_def name_buffer_ok T Let_def split: option.split)
  show ?thesis
  proof (cases "names ?fs ?d (fkey ?nm)")
    case None
    then show ?thesis using True run gs hs T sd(6) by (simp add: files_def)
  next
    case (Some a)
    let ?f = "\<lparr>hdr = the_header a ?d, seekPosition = 0\<rparr>"
    show ?thesis
    proof (rule ft.put_cases [OF t(2), of "Some ?f"])
      assume "dom (entries t) = {0..<tsize t}" "Table_Put (Some ?f) t = Inr (- 1, t)"
      moreover have "put_table t ?s = ?s" using gt by (cases "space (rest ?s)") (auto simp: put_table_def get_table_def)
      ultimately show ?thesis using True run gs hs T sd(6) Some t(1) by auto
    next
      fix i t'
      assume i: "Table_Put (Some ?f) t = Inr (i, t')" "0 \<le> i" "entries t i = None"
        "\<forall>j. 0 \<le> j \<and> j < i \<longrightarrow> entries t j \<noteq> None" "table_ok t'" "entries t' = (entries t)(i \<mapsto> Some ?f)" "tsize t' = tsize t"
      have of: "open_on ?fs d' f" if "entries t' j = Some (Some f)" for j f
      proof (cases "j = i")
        case True
        then show ?thesis using that Some sd(1,4) by (auto simp: i(6) open_on_def intro!: exI [of _ "fkey ?nm"] exI [of _ a])
      next
        case False
        then show ?thesis using that keeps_open [OF same_keeps [OF d'(2)]] t(5) by (auto simp: i(6))
      qed
      have "kern_ok (rest (put_table t' ?s))" "handles (put_table t' ?s) = entries t'"
        using kern_ok_table [of ?s t'] kd i(5,7) t(6) of T(4) by simp_all
      then show ?thesis using True run gs T sd(6) Some i t(3)
        by (intro if_P [THEN iffD2]) (auto simp: sys_good_def)
    qed
  qed
qed

lemma Close_Syscall_ok:
  assumes "sys_good n s"
  shows "\<exists>s'. Close_Syscall fd s = Inr s' \<and> sys_good n s' \<and> cpu s' = cpu s \<and> user_files s' = user_files s \<and>
     handles s' = (handles s)(fd := None)"
proof -
  from assms have ko: "kern_ok (rest s)" by (simp add: sys_good_def)
  from kern_okD [OF ko] obtain t where t: "get_table s = Inr t" "table_ok t" "handles s = entries t"
    "fs_ok (fileSys (rest s)) (kdisk (rest s))" "\<forall>i f. entries t i = Some (Some f) \<longrightarrow> open_on (fileSys (rest s)) (kdisk (rest s)) f" "tsize t = MaxOpenFiles" by blast
  from ft.tab_remove [OF t(2), of fd] obtain t' where
    t': "Table_Remove fd t = Inr (case entries t fd of None \<Rightarrow> None | Some f \<Rightarrow> f, t')" "table_ok t'"
      "entries t' = (entries t)(fd := None)" "tsize t' = tsize t" by blast
  have of: "open_on (fileSys (rest s)) (kdisk (rest s)) g" if "entries t' i = Some (Some g)" for i g
    using that t(5) by (simp add: t'(3) split: if_splits)
  have K: "kern_ok (rest (put_table t' s))" "handles (put_table t' s) = entries t'"
    using kern_ok_table [OF ko t'(2)] t'(4) t(6) of by simp_all
  have "Close_Syscall fd s = Inr (put_table t' s)" using t(1) t'(1) by (simp add: Close_Syscall_def)
  moreover have "sys_good n (put_table t' s)" using K(1) assms by (simp add: sys_good_def)
  moreover have "handles (put_table t' s) = (handles s)(fd := None)" using K(2) t(3) t'(3) by metis
  ultimately show ?thesis by (intro exI [of _ "put_table t' s"]) simp
qed

text \<open>An open file, the file it belongs to and its contents.\<close>

definition handle_on :: "sys \<Rightarrow> int \<Rightarrow> byte list \<Rightarrow> nat \<Rightarrow> bool" where
  "handle_on s i k p \<longleftrightarrow> (\<exists>f a. handles s i = Some (Some f) \<and> names (fileSys (rest s)) (kdisk (rest s)) k = Some a \<and>
     hdr f = the_header a (kdisk (rest s)) \<and> seekPosition f = int p)"

lemma Write_Syscall_file:
  assumes g: "sys_good n s" "halting h" "env_ok e" "0 \<le> len" "i \<notin> {ConsoleInput, ConsoleOutput}"
    and F: "handle_on s i k p" "user_files s k = Some F" and sp: "in_space n va len"
  defines "N \<equiv> length (read_at p (nat len) F)"
  shows "\<exists>s'. Write_Syscall e h va len i s = Inr s' \<and> sys_good n s' \<and> mainMemory (cpu s') = mainMemory (cpu s) \<and>
     registers (cpu s') = registers (cpu s) \<and> handle_on s' i k (p + N) \<and> (\<forall>j. j \<noteq> i \<longrightarrow> handles s' j = handles s j) \<and>
     user_files s' = (user_files s)(k \<mapsto> take p F @ take N (user_bytes s va len) @ drop (p + N) F)"
proof -
  let ?fs = "fileSys (rest s)" and ?d = "kdisk (rest s)" and ?bs = "user_bytes s va len"
  have fl: "flat n (cpu s)" and ko: "kern_ok (rest s)" and fuel: "0 < tries e" using g by (simp_all add: sys_good_def env_ok_def)
  from copyin_flat [OF fl g(2) fuel, of va len] sp obtain s1 where
    s1: "copyin (tries e) h va len s = Inr (len, ?bs, s1)" "touched n (mainMemory (cpu s)) s s1" by auto
  note T = touched_state [OF s1(2)]
  from kern_okD [OF ko] obtain t where t: "get_table s = Inr t" "table_ok t" "handles s = entries t" "fs_ok ?fs ?d"
    "\<forall>i f. entries t i = Some (Some f) \<longrightarrow> open_on ?fs ?d f" "tsize t = MaxOpenFiles" by blast
  from F(1) obtain f a where f: "entries t i = Some (Some f)" "names ?fs ?d k = Some a" "hdr f = the_header a ?d"
    "seekPosition f = int p" unfolding handle_on_def t(3) by blast
  have FB: "file_bytes (the_header a ?d) ?d = F" using F(2) f(2) by (simp add: files_def)
  have L: "len \<le> int (length ?bs)" using length_user_bytes [OF fl sp g(4)] by simp
  have lt: "length (take N ?bs) = N" using L by (simp add: N_def read_at_def)
  from write_file [OF t(4) f(2) _ L, of "int p" "mem_bytes (heap e (clock s)) 0", unfolded FB] obtain d' where
    d': "WriteAt (mem_bytes (heap e (clock s)) 0) ?bs len (int p) (the_header a ?d) ?d = Inr (int N, d')" "fs_ok ?fs d'"
    "keeps ?fs ?d d'" "files ?fs d' = (files ?fs ?d)(k \<mapsto> take p F @ take N ?bs @ drop (p + N) F)"
    using lt unfolding N_def by auto
  let ?f = "f\<lparr>seekPosition := int p + int N\<rparr>"
  let ?s1 = "upd_kern (kdisk_update (\<lambda>_. d')) s1" and ?t = "put_file i ?f t"
  let ?s = "put_table ?t ?s1"
  note P = put_file_entries [OF t(2) f(1), of ?f]
  have run: "Write_Syscall e h va len i s = Inr ?s"
    using g(4,5) s1(1) t(1,2) T(4,5,7) f d'(1) ft.tab_get [OF t(2), of i]
    by (simp add: Write_Syscall_def new_char_def Write_seq_def)
  have k1: "kern_ok (rest ?s1)" using kern_ok_disk [OF ko d'(2,3)] T(4) by simp
  have of: "open_on ?fs d' u" if "entries ?t j = Some (Some u)" for j u
    using that keeps_open [OF d'(3)] t(5) f(1) d'(3) by (auto simp: P(3) open_on_def split: if_splits)
  have K: "kern_ok (rest ?s)" "handles ?s = (entries t)(i \<mapsto> Some ?f)"
    using kern_ok_table [OF k1 P(1)] P(2) t(6) of T(4) P(3) by auto
  have "handle_on ?s i k (p + N)"
    using d'(3) f(2,3) T(4) unfolding handle_on_def K(2) by (auto simp: keeps_def)
  then show ?thesis using run K T d'(4) t(3) by (intro exI [of _ ?s]) (simp add: sys_good_def)
qed

lemma Read_Syscall_file:
  assumes g: "sys_good n s" "halting h" "0 \<le> len" "i \<notin> {ConsoleInput, ConsoleOutput}"
    and F: "handle_on s i k p" "user_files s k = Some F"
  defines "bs \<equiv> read_at p (nat len) F"
  shows "if in_space n va (int (length bs))
     then \<exists>s'. Read_Syscall e h va len i s = Inr (int (length bs), s') \<and> sys_good n s' \<and>
       mainMemory (cpu s') = overlay (unat va) bs (mainMemory (cpu s)) \<and> registers (cpu s') = registers (cpu s) \<and>
       handle_on s' i k (p + length bs) \<and> (\<forall>j. j \<noteq> i \<longrightarrow> handles s' j = handles s j) \<and> user_files s' = user_files s
     else Read_Syscall e h va len i s = Inl HALTED"
proof -
  let ?fs = "fileSys (rest s)" and ?d = "kdisk (rest s)"
  have fl: "flat n (cpu s)" and ko: "kern_ok (rest s)" using g by (simp_all add: sys_good_def)
  from kern_okD [OF ko] obtain t where t: "get_table s = Inr t" "table_ok t" "handles s = entries t" "fs_ok ?fs ?d"
    "\<forall>i f. entries t i = Some (Some f) \<longrightarrow> open_on ?fs ?d f" "tsize t = MaxOpenFiles" by blast
  from F(1) obtain f a where f: "entries t i = Some (Some f)" "names ?fs ?d k = Some a" "hdr f = the_header a ?d"
    "seekPosition f = int p" unfolding handle_on_def t(3) by blast
  have FB: "file_bytes (the_header a ?d) ?d = F" using F(2) f(2) by (simp add: files_def)
  have hd: "header_ok (the_header a ?d)" using name_sector(2) [OF t(4) f(2)] by (simp add: good_head_def)
  from ReadAt_ok [OF hd fs_okD(1) [OF t(4)], of "int p" len] obtain d' where
    d': "ReadAt len (int p) (the_header a ?d) ?d = Inr (bs, d')" "same_disk ?d d'" by (auto simp: same_disk_def FB bs_def)
  note sd = same_disk_cong [OF d'(2)] and keep = same_keeps [OF d'(2), of ?fs]
  let ?f = "f\<lparr>seekPosition := int p + int (length bs)\<rparr>"
  let ?s1 = "upd_kern (kdisk_update (\<lambda>_. d')) s" and ?t = "put_file i ?f t"
  let ?s = "put_table ?t ?s1"
  note P = put_file_entries [OF t(2) f(1), of ?f]
  have k1: "kern_ok (rest ?s1)" using kern_ok_disk [OF ko sd(5) [OF t(4)] keep] by simp
  have of: "open_on ?fs d' u" if "entries ?t j = Some (Some u)" for j u
    using that keeps_open [OF keep] t(5) f(1) by (auto simp: P(3) open_on_def split: if_splits)
  have K: "kern_ok (rest ?s)" "handles ?s = (entries t)(i \<mapsto> Some ?f)"
    using kern_ok_table [OF k1 P(1)] P(2) t(6) of P(3) by auto
  have ho: "handle_on ?s i k (p + length bs)" using keep f(2,3) unfolding handle_on_def K(2) by (auto simp: keeps_def)
  have len: "length bs \<le> nat len" by (simp add: bs_def read_at_def)
  let ?buf = "map (buffer e (clock s)) [0..<nat len]"
  have ci: "copy_in 0 bs ?buf = Inr (write_at 0 bs ?buf)" using len g(3) by (simp add: copy_in_def)
  have run: "Read_Syscall e h va len i s =
     (if 0 < int (length bs) then bind_result (copyout h va (int (length bs)) (write_at 0 bs ?buf) ?s) (\<lambda>(_, s). Inr (int (length bs), s))
      else Inr (int (length bs), ?s))"
    using g(3,4) t(1) f d'(1) ft.tab_get [OF t(2), of i] ci
    by (simp add: Read_Syscall_def new_char_def Read_seq_def Let_def)
  have tk: "take (length bs) (write_at 0 bs ?buf) = bs" using len by (simp add: write_at_def)
  show ?thesis
  proof (cases "bs = []")
    case True
    then show ?thesis using run K fl ho sd(6) t(3) by (auto simp: sys_good_def overlay_def in_space_def intro!: exI [of _ ?s])
  next
    case False
    have fs: "flat n (cpu ?s)" using fl by simp
    have bl: "int (length bs) \<le> int (length (write_at 0 bs ?buf))"
      unfolding of_nat_le_iff length_write_at by (rule max.coboundedI2) simp
    note C = copyout_flat [OF fs g(2) _ bl, of va, simplified tk nat_int]
    show ?thesis
    proof (cases "in_space n va (int (length bs))")
      case True
      with C obtain s2 where s2: "copyout h va (int (length bs)) (write_at 0 bs ?buf) ?s = Inr (int (length bs), s2)"
        "touched n (overlay (unat va) bs (mainMemory (cpu s))) ?s s2" by (auto simp: tk)
      note T = touched_state [OF s2(2)]
      have "handle_on s2 i k (p + length bs)" using ho T(4,6) by (simp add: handle_on_def)
      then show ?thesis using True run False s2(1) T K sd(6) t(3) by (auto simp: sys_good_def)
    next
      case nf: False
      with C False show ?thesis by (simp add: run)
    qed
  qed
qed

lemma open_handle:
  assumes "kern_ok (rest s)" "handles s i = Some (Some f)"
  obtains k F where "handle_on s i k (nat (seekPosition f))" "user_files s k = Some F"
proof -
  have "open_on (fileSys (rest s)) (kdisk (rest s)) f" using assms by (auto simp: kern_ok_def handles_def)
  then show ?thesis using that assms(2) by (auto simp: open_on_def handle_on_def files_def)
qed

lemma bad_handle:
  assumes "sys_good n s" "halting h" "env_ok e" "0 \<le> len" "i \<notin> {ConsoleInput, ConsoleOutput}" "\<not> (\<exists>f. handles s i = Some (Some f))"
  shows "Read_Syscall e h va len i s = Inr (- 1, s)"
    "if in_space n va len then \<exists>s'. Write_Syscall e h va len i s = Inr s' \<and> touched n (mainMemory (cpu s)) s s'
     else Write_Syscall e h va len i s = Inl HALTED"
proof -
  have fl: "flat n (cpu s)" and ko: "kern_ok (rest s)" and fuel: "0 < tries e" using assms by (simp_all add: sys_good_def env_ok_def)
  from kern_okD [OF ko] obtain t where t: "get_table s = Inr t" "table_ok t" "handles s = entries t" by metis
  have G: "Table_Get i t = Inr None" using assms(6) ft.tab_get [OF t(2), of i] unfolding t(3) by (auto split: option.splits)
  show "Read_Syscall e h va len i s = Inr (- 1, s)"
    using assms(4,5) t(1) G by (simp add: Read_Syscall_def new_char_def Let_def)
  show "if in_space n va len then \<exists>s'. Write_Syscall e h va len i s = Inr s' \<and> touched n (mainMemory (cpu s)) s s'
     else Write_Syscall e h va len i s = Inl HALTED"
  proof (cases "in_space n va len")
    case True
    with copyin_flat [OF fl assms(2) fuel, of va len] obtain s1 where
      s1: "copyin (tries e) h va len s = Inr (len, user_bytes s va len, s1)" "touched n (mainMemory (cpu s)) s s1" by auto
    then show ?thesis using True assms(4,5) t(1) G touched_state(7) [OF s1(2)] by (simp add: Write_Syscall_def new_char_def)
  next
    case False
    with copyin_flat [OF fl assms(2) fuel, of va len] show ?thesis using assms(4,5) by (simp add: Write_Syscall_def new_char_def)
  qed
qed

lemma Write_Syscall_console:
  assumes "sys_good n s" "halting h" "env_ok e" "0 \<le> len"
  shows "if in_space n va len
     then \<exists>s'. Write_Syscall e h va len ConsoleOutput s = Inr s' \<and> sys_good n s' \<and> mainMemory (cpu s') = mainMemory (cpu s) \<and>
       registers (cpu s') = registers (cpu s) \<and> screen (rest s') = screen (rest s) @ user_bytes s va len \<and> handles s' = handles s \<and> user_files s' = user_files s
     else Write_Syscall e h va len ConsoleOutput s = Inl HALTED"
proof -
  have fl: "flat n (cpu s)" and ko: "kern_ok (rest s)" and fuel: "0 < tries e" using assms by (simp_all add: sys_good_def env_ok_def)
  note C = copyin_flat [OF fl assms(2) fuel, of va len]
  show ?thesis
  proof (cases "in_space n va len")
    case True
    with C obtain s1 where
      s1: "copyin (tries e) h va len s = Inr (len, user_bytes s va len, s1)" "touched n (mainMemory (cpu s)) s s1" by auto
    note T = touched_state [OF s1(2)]
    let ?s = "upd_kern (screen_update (\<lambda>out. out @ user_bytes s va len)) s1"
    have "Write_Syscall e h va len ConsoleOutput s = Inr ?s"
      using s1(1) assms(4) by (simp add: Write_Syscall_def new_char_def ConsoleInput_def ConsoleOutput_def)
    then show ?thesis using True T ko by (auto simp: sys_good_def kern_ok_def handles_def)
  next
    case False
    with C assms(4) show ?thesis by (simp add: Write_Syscall_def new_char_def ConsoleInput_def ConsoleOutput_def)
  qed
qed

text \<open>The next word of the input, which \<open>scanf\<close> stores with a null byte behind it.\<close>

definition next_word :: "byte list \<Rightarrow> byte list" where
  "next_word input = takeWhile (\<lambda>b. \<not> is_space b) (dropWhile is_space input)"

lemma scanf_ok:
  assumes "length (next_word input) < length buf"
  shows "\<exists>input'. scanf buf input = Inr (if next_word input = [] then buf else write_at 0 (next_word input @ [0]) buf, input')"
  using assms by (auto simp: scanf_def next_word_def [symmetric] copy_in_def Let_def)

lemma Read_Syscall_console:
  assumes "sys_good n s" "halting h" "0 \<le> len" "next_word (keyboard (rest s)) = [] \<or> int (length (next_word (keyboard (rest s)))) < len"
  shows "if in_space n va len
     then \<exists>s' rest_buf. Read_Syscall e h va len ConsoleInput s = Inr (len, s') \<and> sys_good n s' \<and>
       (next_word (keyboard (rest s)) \<noteq> [] \<longrightarrow>
          mainMemory (cpu s') = overlay (unat va) (next_word (keyboard (rest s)) @ [0] @ rest_buf) (mainMemory (cpu s))) \<and>
       registers (cpu s') = registers (cpu s) \<and> handles s' = handles s \<and> user_files s' = user_files s
     else Read_Syscall e h va len ConsoleInput s = Inl HALTED"
proof -
  let ?w = "next_word (keyboard (rest s))" and ?init = "map (buffer e (clock s)) [0..<nat len]"
  let ?buf = "if ?w = [] then ?init else write_at 0 (?w @ [0]) ?init"
  have fl: "flat n (cpu s)" and ko: "kern_ok (rest s)" using assms by (simp_all add: sys_good_def)
  have "\<exists>input'. scanf ?init (keyboard (rest s)) = Inr (?buf, input')"
  proof (cases "?w = []")
    case True
    then show ?thesis by (simp add: scanf_def next_word_def [symmetric])
  next
    case False
    then have "length ?w < length ?init" using assms(4) by auto
    from scanf_ok [OF this] show ?thesis .
  qed
  then obtain input' where i: "scanf ?init (keyboard (rest s)) = Inr (?buf, input')" by blast
  let ?s = "upd_kern (keyboard_update (\<lambda>_. input')) s"
  have L: "length ?buf = nat len" using assms(4) by auto
  then have bl: "len \<le> int (length ?buf)" using assms(3) by simp
  have fs: "flat n (cpu ?s)" using fl by simp
  note C = copyout_flat [OF fs assms(2,3) bl, of va]
  have run: "Read_Syscall e h va len ConsoleInput s = bind_result (copyout h va len ?buf ?s) (\<lambda>(_, s). Inr (len, s))"
    using assms(3) i by (simp add: Read_Syscall_def new_char_def ConsoleInput_def ConsoleOutput_def Let_def)
  show ?thesis
  proof (cases "in_space n va len")
    case True
    with C obtain s2 where s2: "copyout h va len ?buf ?s = Inr (len, s2)"
      "touched n (overlay (unat va) ?buf (mainMemory (cpu s))) ?s s2" using L by auto
    note T = touched_state [OF s2(2)]
    have "write_at 0 (?w @ [0]) ?init = ?w @ [0] @ drop (length ?w + 1) ?init" by (simp add: write_at_def)
    then have "?w \<noteq> [] \<longrightarrow> mainMemory (cpu s2) = overlay (unat va) (?w @ [0] @ drop (length ?w + 1) ?init) (mainMemory (cpu s))"
      using T(2) by simp
    moreover have "kern_ok (rest s2)" using ko T(4) by (auto simp: kern_ok_def)
    moreover have "handles s2 = handles s" using T(4) by (simp add: handles_def)
    ultimately show ?thesis using True run s2(1) T by (auto simp: sys_good_def)
  next
    case False
    with C run show ?thesis by simp
  qed
qed

text \<open>
  Arguments that end Nachos in another way than by halting it: a kernel buffer of a negative or
  overflowing size, and a typed word that does not fit into the buffer.
\<close>

definition bad_args :: "sys \<Rightarrow> bool" where
  "bad_args s \<longleftrightarrow>
     (let ty = sint (reg (cpu s) 2); len = sint (reg (cpu s) 5); i = sint (reg (cpu s) 6) in
       (ty \<in> {SC_Create, SC_Open} \<and> (len < - 1 \<or> len = 2 ^ 31 - 1)) \<or>
       (ty = SC_Write \<and> i \<noteq> ConsoleInput \<and> len < 0) \<or>
       (ty = SC_Read \<and> i \<noteq> ConsoleOutput \<and> (len < 0 \<or>
          i = ConsoleInput \<and> next_word (keyboard (rest s)) \<noteq> [] \<and> len \<le> int (length (next_word (keyboard (rest s)))))))"

definition call_good :: "nat \<Rightarrow> sys \<Rightarrow> bool \<Rightarrow> (int \<times> sys) result \<Rightarrow> bool" where
  "call_good n s bad r \<longleftrightarrow> (case r of
      Inl f \<Rightarrow> f = HALTED \<or> bad \<and> f \<in> {ASSERT_FAILED, UNDEFINED}
    | Inr (v, s') \<Rightarrow> sys_good n s' \<and> registers (cpu s') = registers (cpu s) \<and> \<not> bad)"

lemma Create_good:
  assumes "sys_good n s" "halting h" "env_ok e" "len < 2 ^ 31"
  shows "call_good n s (len < - 1 \<or> len = 2 ^ 31 - 1) (bind_result (Create_Syscall e h va len s) (\<lambda>s. Inr (0, s)))"
    "call_good n s (len < - 1 \<or> len = 2 ^ 31 - 1) (Open_Syscall e h va len s)"
proof -
  consider "len < - 1" | "len = - 1" | "0 \<le> len" "len + 1 < 2 ^ 31" | "len = 2 ^ 31 - 1" using assms(4) by linarith
  then have "call_good n s (len < - 1 \<or> len = 2 ^ 31 - 1) (bind_result (Create_Syscall e h va len s) (\<lambda>s. Inr (0, s))) \<and>
    call_good n s (len < - 1 \<or> len = 2 ^ 31 - 1) (Open_Syscall e h va len s)"
  proof cases
    case 1
    then show ?thesis by (simp add: Create_Syscall_def Open_Syscall_def name_buffer_def new_char_def call_good_def)
  next
    case 2
    then show ?thesis using assms(1) by (simp add: Create_Syscall_def Open_Syscall_def name_buffer_def new_char_def copyin_def call_good_def)
  next
    case 3
    then show ?thesis using Create_Syscall_ok [OF assms(1-3) 3, of va] Open_Syscall_ok [OF assms(1-3) 3, of va]
      by (auto simp: call_good_def split: if_split_asm)
  next
    case 4
    then show ?thesis by (simp add: Create_Syscall_def Open_Syscall_def name_buffer_def call_good_def)
  qed
  then show "call_good n s (len < - 1 \<or> len = 2 ^ 31 - 1) (bind_result (Create_Syscall e h va len s) (\<lambda>s. Inr (0, s)))"
    "call_good n s (len < - 1 \<or> len = 2 ^ 31 - 1) (Open_Syscall e h va len s)" by simp_all
qed

lemma Write_good:
  assumes "sys_good n s" "halting h" "env_ok e"
  shows "call_good n s (i \<noteq> ConsoleInput \<and> len < 0) (bind_result (Write_Syscall e h va len i s) (\<lambda>s. Inr (0, s)))"
proof -
  consider "i = ConsoleInput" | "i \<noteq> ConsoleInput" "len < 0" | "i = ConsoleOutput" "0 \<le> len"
    | "i \<notin> {ConsoleInput, ConsoleOutput}" "0 \<le> len" by fastforce
  then show ?thesis
  proof cases
    case 1
    then show ?thesis using assms(1) by (simp add: Write_Syscall_def call_good_def)
  next
    case 2
    then show ?thesis by (simp add: Write_Syscall_def call_good_def new_char_def)
  next
    case 3
    then show ?thesis using Write_Syscall_console [OF assms 3(2), of va] by (auto simp: call_good_def sys_good_def split: if_split_asm)
  next
    case 4
    have fl: "flat n (cpu s)" and ko: "kern_ok (rest s)" and fuel: "0 < tries e" using assms by (simp_all add: sys_good_def env_ok_def)
    show ?thesis
    proof (cases "in_space n va len")
      case False
      with copyin_flat [OF fl assms(2) fuel, of va len] 4 show ?thesis by (simp add: Write_Syscall_def new_char_def call_good_def)
    next
      case True
      show ?thesis
      proof (cases "\<exists>f. handles s i = Some (Some f)")
        case False
        from bad_handle(2) [OF assms 4(2,1) False, of va] True obtain s' where
          s': "Write_Syscall e h va len i s = Inr s'" "touched n (mainMemory (cpu s)) s s'" by auto
        then show ?thesis using touched_state [OF s'(2)] ko 4 by (simp add: call_good_def sys_good_def)
      next
        case h: True
        then obtain f where "handles s i = Some (Some f)" by blast
        from open_handle [OF ko this] obtain k F where "handle_on s i k (nat (seekPosition f))" "user_files s k = Some F" .
        from Write_Syscall_file [OF assms 4(2,1) this True] 4 show ?thesis by (auto simp: call_good_def)
      qed
    qed
  qed
qed

lemma Read_good:
  assumes "sys_good n s" "halting h" "env_ok e"
  shows "call_good n s (i \<noteq> ConsoleOutput \<and> (len < 0 \<or> i = ConsoleInput \<and> next_word (keyboard (rest s)) \<noteq> [] \<and>
     len \<le> int (length (next_word (keyboard (rest s)))))) (Read_Syscall e h va len i s)"
proof -
  let ?w = "next_word (keyboard (rest s))"
  consider "i = ConsoleOutput" | "i \<noteq> ConsoleOutput" "len < 0" | "i = ConsoleInput" "0 \<le> len" "?w \<noteq> []" "len \<le> int (length ?w)"
    | "i = ConsoleInput" "0 \<le> len" "?w = [] \<or> int (length ?w) < len" | "i \<notin> {ConsoleInput, ConsoleOutput}" "0 \<le> len"
    by fastforce
  then show ?thesis
  proof cases
    case 1
    then show ?thesis using assms(1) by (simp add: Read_Syscall_def call_good_def)
  next
    case 2
    then show ?thesis by (simp add: Read_Syscall_def call_good_def new_char_def)
  next
    case 3
    then have "scanf (map (buffer e (clock s)) [0..<nat len]) (keyboard (rest s)) = Inl UNDEFINED"
      by (simp add: scanf_def next_word_def [symmetric] copy_in_def Let_def)
    then show ?thesis using 3 by (simp add: Read_Syscall_def new_char_def ConsoleInput_def ConsoleOutput_def call_good_def Let_def)
  next
    case 4
    have "ConsoleInput \<noteq> ConsoleOutput" by (simp add: ConsoleInput_def ConsoleOutput_def)
    then show ?thesis using Read_Syscall_console [OF assms(1,2) 4(2,3), of va e] 4 by (auto simp: call_good_def split: if_split_asm)
  next
    case 5
    have ko: "kern_ok (rest s)" using assms by (simp add: sys_good_def)
    show ?thesis
    proof (cases "\<exists>f. handles s i = Some (Some f)")
      case False
      from bad_handle(1) [OF assms 5(2,1) False, of va] assms(1) 5 show ?thesis by (simp add: call_good_def)
    next
      case True
      then obtain f where "handles s i = Some (Some f)" by blast
      from open_handle [OF ko this] obtain k F where "handle_on s i k (nat (seekPosition f))" "user_files s k = Some F" .
      from Read_Syscall_file [OF assms(1,2) 5(2,1) this, of va e] 5 show ?thesis by (auto simp: call_good_def split: if_split_asm)
    qed
  qed
qed

lemma syscall_good:
  assumes "sys_good n s" "halting h" "env_ok e"
  shows "call_good n s (bad_args s) (syscall e h (sint (reg (cpu s) 2)) s)"
proof -
  let ?m = "cpu s"
  let ?ty = "sint (reg ?m 2)" and ?len = "sint (reg ?m 5)" and ?i = "sint (reg ?m 6)"
  have L: "length (registers ?m) = 40" using assms(1) flatD(2) machine_ok_len by (auto simp: sys_good_def)
  have R: "ReadRegister 4 ?m = Inr (reg ?m 4)" "ReadRegister 5 ?m = Inr (reg ?m 5)" "ReadRegister 6 ?m = Inr (reg ?m 6)"
    using L by (simp_all add: ReadRegister_def machine_consts)
  have lt: "?len < 2 ^ 31" using sint_in_int [of "reg ?m 5"] by (simp add: in_int_def)
  note G = Create_good [OF assms lt, of "reg ?m 4"] Write_good [OF assms, of ?i ?len "reg ?m 4"] Read_good [OF assms, of ?i ?len "reg ?m 4"]
  from Close_Syscall_ok [OF assms(1), of "sint (reg ?m 4)"] obtain s' where
    c: "Close_Syscall (sint (reg ?m 4)) s = Inr s'" "sys_good n s'" "cpu s' = cpu s" by blast
  consider "?ty = SC_Create" | "?ty = SC_Open" | "?ty = SC_Write" | "?ty = SC_Read" | "?ty = SC_Close"
    | "?ty \<notin> {SC_Create, SC_Open, SC_Write, SC_Read, SC_Close}" by blast
  then show ?thesis
    by cases (use G c in \<open>simp_all add: syscall_def R bad_args_def sc_defs Let_def call_good_def\<close>)
qed

section \<open>The exception handler\<close>

lemma flat_registers:
  "flat n m \<Longrightarrow> length r = NumTotalRegs \<Longrightarrow> unat (r ! LoadReg) < 32 \<Longrightarrow> r ! 0 = 0 \<Longrightarrow> flat n (m\<lparr>registers := r\<rparr>)"
  by (auto simp: flat_def user_ok_def machine_ok_registers)

lemma finish_syscall_ok:
  assumes "flat n m"
  shows "\<exists>m'. finish_syscall rv m = Inr m' \<and> flat n m' \<and> mainMemory m' = mainMemory m \<and>
     reg m' 2 = word_of_int rv \<and> reg m' PCReg = reg m NextPCReg \<and> reg m' NextPCReg = reg m NextPCReg + 4 \<and>
     reg m' PrevPCReg = reg m PCReg \<and> (\<forall>k < 32. k \<noteq> 2 \<longrightarrow> reg m' k = reg m k)"
proof -
  have L: "length (registers m) = 40" "unat (reg m LoadReg) < 32" "reg m 0 = 0"
    using flatD(1,2) [OF assms] machine_ok_len by (auto simp: user_ok_def machine_ok_def)
  let ?r = "(registers m)[2 := word_of_int rv, PrevPCReg := reg m PCReg, PCReg := reg m NextPCReg, NextPCReg := reg m NextPCReg + 4]"
  have "finish_syscall rv m = Inr (m\<lparr>registers := ?r\<rparr>)"
    using L by (simp add: finish_syscall_def WriteRegister_def ReadRegister_def machine_consts reg_consts)
  moreover have "flat n (m\<lparr>registers := ?r\<rparr>)" using L by (intro flat_registers [OF assms]) (simp_all add: reg_consts machine_consts)
  ultimately show ?thesis using L by (simp add: reg_consts)
qed

lemma handle_good:
  assumes "sys_good n s" "halting h" "env_ok e"
  shows "case handle e h which s of
      Inl f \<Rightarrow> f = HALTED \<or> which = SyscallException \<and> bad_args s \<and> f \<in> {ASSERT_FAILED, UNDEFINED}
    | Inr s' \<Rightarrow> sys_good n s'"
proof -
  have L: "length (registers (cpu s)) = 40" using assms(1) flatD(2) machine_ok_len by (auto simp: sys_good_def)
  then have R: "ReadRegister 2 (cpu s) = Inr (reg (cpu s) 2)" by (simp add: ReadRegister_def machine_consts)
  show ?thesis
  proof (cases "which = SyscallException")
    case False
    then show ?thesis by (simp add: handle_def R)
  next
    case True
    note G = syscall_good [OF assms]
    show ?thesis
    proof (cases "syscall e h (sint (reg (cpu s) 2)) s")
      case (Inl f)
      then show ?thesis using G True by (simp add: handle_def R call_good_def)
    next
      case (Inr p)
      obtain rv s1 where p: "p = (rv, s1)" by (cases p)
      have s1: "sys_good n s1" using G Inr p by (simp add: call_good_def)
      then have "flat n (cpu s1)" by (simp add: sys_good_def)
      from finish_syscall_ok [OF this, of rv] obtain m' where "finish_syscall rv (cpu s1) = Inr m'" "flat n m'" by blast
      then show ?thesis using True Inr p s1 by (simp add: handle_def R sys_good_def)
    qed
  qed
qed

lemma kernel_host_halting: "halting (kernel_host (Suc depth) e)"
  by (auto simp: halting_def kernel_host_def handle_def ReadRegister_def machine_ok_len machine_consts)

section \<open>The kernel as the machine's exception handler\<close>

definition flat_tab :: "nat \<Rightarrow> Machine \<Rightarrow> bool" where
  "flat_tab n m \<longleftrightarrow> n \<le> NumPhysPages \<and> tlb m = None \<and> pageTableSize m = of_nat n \<and>
     (\<exists>t. pageTable m = Some t \<and> flat_table n t)"

lemma flat_iff: "flat n m \<longleftrightarrow> user_ok m \<and> flat_tab n m"
  by (simp add: flat_def flat_tab_def)

lemma flat_tab_translated:
  assumes "machine_ok m" "translated va sz w m a m'" "flat_tab n m"
  shows "flat_tab n m'"
proof -
  from assms(2) obtain i where i: "i < length (the_table m)"
    "m' = set_table ((the_table m)[i := (the_table m ! i)\<lparr>use := True, dirty := dirty (the_table m ! i) \<or> w\<rparr>]) m"
    unfolding translated_def by blast
  obtain t where t: "tlb m = None" "pageTable m = Some t" "flat_table n t" using assms(3) by (auto simp: flat_tab_def)
  have "the_table m = t" using t by (simp add: the_table_def)
  moreover have "flat_table n (t[i := (t ! i)\<lparr>use := True, dirty := dirty (t ! i) \<or> w\<rparr>])"
    using t(3) i(1) calculation by (auto simp: flat_table_def nth_list_update)
  ultimately show ?thesis using assms(3) i(2) t by (simp add: flat_tab_def set_table_def)
qed

definition user_kernel_inv :: "env \<Rightarrow> nat \<Rightarrow> Machine \<Rightarrow> kern \<Rightarrow> bool" where
  "user_kernel_inv e n m k \<longleftrightarrow> env_ok e \<and> flat_tab n m \<and> kern_ok k"

lemma sys_good_iff: "env_ok e \<Longrightarrow> sys_good n s \<longleftrightarrow> user_ok (cpu s) \<and> user_kernel_inv e n (cpu s) (rest s)"
  by (auto simp: sys_good_def user_kernel_inv_def flat_iff)

lemma handler_good:
  assumes "sys_good n s" "env_ok e"
  shows "case handler (Suc (Suc depth)) e which s of
      Inl f \<Rightarrow> f = HALTED \<or> which = SyscallException \<and> bad_args s \<and> f \<in> {ASSERT_FAILED, UNDEFINED}
    | Inr s' \<Rightarrow> sys_good n s'"
  using handle_good [OF assms(1) kernel_host_halting [of depth e] assms(2), of which] by (simp add: kernel_host_def)

interpretation user: trap_handler "kernel_host (Suc (Suc depth)) e" "user_kernel_inv e n" "{HALTED, ASSERT_FAILED, UNDEFINED}"
  for depth e n
proof
  fix m m' k assume "same_tables m m'" "user_kernel_inv e n m k"
  then show "user_kernel_inv e n m' k" by (simp add: user_kernel_inv_def same_tables_def flat_tab_def)
next
  fix m va sz w a m' k assume "machine_ok m" "translated va sz w m a m'" "user_kernel_inv e n m k"
  then show "user_kernel_inv e n m' k" using flat_tab_translated by (auto simp: user_kernel_inv_def)
next
  fix s :: sys and which assume a: "user_ok (cpu s)" "user_kernel_inv e n (cpu s) (rest s)"
  then have "env_ok e" "sys_good n s" by (simp_all add: user_kernel_inv_def sys_good_def flat_iff)
  from handler_good [OF this(2,1), of which depth] this(1)
  show "case ExceptionHandler (kernel_host (Suc (Suc depth)) e) which s of Inl f \<Rightarrow> f \<in> {HALTED, ASSERT_FAILED, UNDEFINED}
    | Inr s' \<Rightarrow> user_ok (cpu s') \<and> user_kernel_inv e n (cpu s') (rest s')"
    unfolding kernel_host_def host.simps by (auto simp: sys_good_iff simp del: handler.simps split: sum.splits)
qed

lemma quiet_tick_ok: "\<exists>s'. quiet_tick s = Inr s' \<and> cpu s' = cpu s \<and> rest s' = rest s"
  by (simp add: quiet_tick_def)

section \<open>A state for the witnesses\<close>

definition sample_env :: env where
  "sample_env = \<lparr>big = False, heap = (\<lambda>_. zero_memory), buffer = (\<lambda>_ _. 0), tries = 1\<rparr>"

lemma sample_env_ok: "env_ok sample_env"
  by (simp add: env_ok_def sample_env_def zero_memory_ok)

definition flat_machine :: "32 word list \<Rightarrow> Machine" where
  "flat_machine r = \<lparr>mainMemory = replicate MemorySize 65, registers = r, tlb = None,
     pageTable = Some (map identity_entry [0..<10]), pageTableSize = 10, lastUsed = replicate NumPhysPages 0, singleStep = False\<rparr>"

definition some_registers :: "32 word \<Rightarrow> 32 word \<Rightarrow> 32 word \<Rightarrow> 32 word \<Rightarrow> 32 word list" where
  "some_registers a b c d = (replicate NumTotalRegs 0)[2 := a, 4 := b, 5 := c, 6 := d]"

lemma some_registers_reg:
  "some_registers a b c d ! 2 = a" "some_registers a b c d ! 4 = b" "some_registers a b c d ! 5 = c" "some_registers a b c d ! 6 = d"
  by (simp_all add: some_registers_def machine_consts)

lemma flat_machine_flat: "flat 10 (flat_machine (some_registers a b c d))"
  by (simp add: flat_def flat_machine_def user_ok_def machine_ok_def some_registers_def machine_consts reg_consts
      flat_table_def identity_entry_def)

text \<open>A program that has opened a file of 100 bytes with handle 0 of its table.\<close>

lemma sample_state:
  "\<exists>s k F. sys_good 10 s \<and> cpu s = flat_machine (some_registers a b c d) \<and> handle_on s 2 k 0 \<and> user_files s k = Some F \<and>
     length F = 100 \<and> k = fkey [65, 0]"
proof -
  from new_disk obtain d0 where d0: "idle_disk d0" by blast
  from format_ok [OF d0 zero_memory_ok] obtain fs d1 where f: "fs_ok fs d1" "files fs d1 = Map.empty"
    "card (marked (the_map fs d1)) = 5" by blast
  have nm: "is_name [65, 0]" by (simp add: readable_def)
  have e: "names fs d1 = Map.empty" using f(2) by (auto simp: files_def fun_eq_iff)
  have fr: "int (card (free_bits (the_map fs d1))) = NumSectors - 5"
    using card_free_bits [OF fs_headers(5) [OF f(1)]] f(3) by (simp add: numBits_map)
  have rm: "room_for [65, 0] 100 fs d1"
    unfolding room_for_def e fr by (simp add: fs_numbers divRoundUp_def SectorSize_def NumDirEntries_def)
  from Create_ok [OF f(1) zero_memory_ok nm, of 100] obtain d2 where
    d2: "fs_ok fs d2" "created [65, 0] 100 fs d1 d2" using rm by (auto simp: NumDirect_def SectorSize_def)
  then obtain F where F: "length F = 100" "files fs d2 (fkey [65, 0]) = Some F" by (auto simp: created_def)
  then obtain h where h: "names fs d2 (fkey [65, 0]) = Some h" by (auto simp: files_def)
  let ?f = "\<lparr>hdr = the_header h d2, seekPosition = 0\<rparr>"
  from Table_ctor_ok [of MaxOpenFiles "\<lambda>_. 0" "\<lambda>_. None :: OpenFile option"] obtain t0 :: "OpenFile Table" where
    t0: "table_ok t0" "tsize t0 = MaxOpenFiles" "entries t0 = Map.empty" by (auto simp: MaxOpenFiles_def)
  have D0: "dom (entries t0) = {0..<0}" "0 < tsize t0" by (simp_all add: t0 MaxOpenFiles_def)
  from Table_Put_next [OF t0(1) D0(1) order_refl D0(2), of None] obtain t1 where
    t1: "table_ok t1" "tsize t1 = tsize t0" "entries t1 = (entries t0)(0 \<mapsto> None)" "dom (entries t1) = {0..<0 + 1}" by blast
  have D1: "0 \<le> (0 + 1 :: int)" "0 + 1 < tsize t1" by (simp_all add: t0(2) t1(2) MaxOpenFiles_def)
  from Table_Put_next [OF t1(1,4) D1, of None] obtain t2 where
    t2: "table_ok t2" "tsize t2 = tsize t1" "entries t2 = (entries t1)(0 + 1 \<mapsto> None)" "dom (entries t2) = {0..<0 + 1 + 1}" by blast
  have D2: "0 \<le> (0 + 1 + 1 :: int)" "0 + 1 + 1 < tsize t2" by (simp_all add: t0(2) t1(2) t2(2) MaxOpenFiles_def)
  from Table_Put_next [OF t2(1,4) D2, of "Some ?f"] obtain t3 where
    t3: "table_ok t3" "entries t3 = (entries t2)(0 + 1 + 1 \<mapsto> Some ?f)" "tsize t3 = tsize t2" by blast
  have t3': "entries t3 = [0 \<mapsto> None, 1 \<mapsto> None, 2 \<mapsto> Some ?f]" by (simp add: t3(2) t2(3) t1(3) t0(3))
  let ?k = "\<lparr>fileSys = fs, kdisk = d2, space = Some \<lparr>fileTable = t3, spacePages = [], numPages = 10\<rparr>,
    screen = [], keyboard = []\<rparr>"
  let ?s = "\<lparr>cpu = flat_machine (some_registers a b c d), mode = SystemMode, clock = 0, rest = ?k\<rparr>"
  have "kern_ok ?k" using d2(1) t3(1,3) t2(2) t1(2) t0(2) t3' h by (auto simp: kern_ok_def open_on_def split: if_splits)
  then have "sys_good 10 ?s" by (simp add: sys_good_def flat_machine_flat)
  moreover have "handle_on ?s 2 (fkey [65, 0]) 0" using h t3' by (simp add: handle_on_def handles_def)
  ultimately show ?thesis using F by (intro exI [of _ ?s] exI [of _ "fkey [65, 0]"] exI [of _ F]) simp
qed

section \<open>Properties\<close>

lemma handler_returns:
  assumes "sys_good n s" "syscall e (kernel_host (Suc depth) e) (sint (reg (cpu s) 2)) s = Inr (rv, s1)" "sys_good n s1"
    and "registers (cpu s1) = registers (cpu s)"
  shows "\<exists>m'. handler (Suc (Suc depth)) e SyscallException s = Inr (s1\<lparr>cpu := m'\<rparr>) \<and> flat n m' \<and>
     mainMemory m' = mainMemory (cpu s1) \<and> reg m' 2 = word_of_int rv \<and> reg m' PCReg = reg (cpu s) NextPCReg \<and>
     (\<forall>k < 32. k \<noteq> 2 \<longrightarrow> reg m' k = reg (cpu s) k)"
proof -
  have "length (registers (cpu s)) = 40" using assms(1) flatD(2) machine_ok_len by (auto simp: sys_good_def)
  then have R: "ReadRegister 2 (cpu s) = Inr (reg (cpu s) 2)" by (simp add: ReadRegister_def machine_consts)
  have "flat n (cpu s1)" using assms(3) by (simp add: sys_good_def)
  from finish_syscall_ok [OF this, of rv] obtain m' where
    m: "finish_syscall rv (cpu s1) = Inr m'" "flat n m'" "mainMemory m' = mainMemory (cpu s1)" "reg m' 2 = word_of_int rv"
    "reg m' PCReg = reg (cpu s) NextPCReg" "\<forall>k < 32. k \<noteq> 2 \<longrightarrow> reg m' k = reg (cpu s) k" unfolding assms(4) by blast
  then have "handler (Suc (Suc depth)) e SyscallException s = Inr (s1\<lparr>cpu := m'\<rparr>)"
    using assms(2) by (simp add: handle_def R kernel_host_def)
  with m show ?thesis by blast
qed

lemma nat_sint: "0 \<le> sint (w :: 32 word) \<Longrightarrow> nat (sint w) = unat w"
proof -
  assume "0 \<le> sint w"
  then have "sint w = uint w" unfolding sint_uint32 using uint_range [of w] by (simp split: if_splits)
  then show ?thesis by (simp add: nat_uint_eq)
qed

lemma syscall_args:
  assumes "sys_good n s"
  shows "ReadRegister 4 (cpu s) = Inr (reg (cpu s) 4)" "ReadRegister 5 (cpu s) = Inr (reg (cpu s) 5)"
    "ReadRegister 6 (cpu s) = Inr (reg (cpu s) 6)"
proof -
  have "length (registers (cpu s)) = 40" using assms(1) flatD(2) machine_ok_len by (auto simp: sys_good_def)
  then show "ReadRegister 4 (cpu s) = Inr (reg (cpu s) 4)" "ReadRegister 5 (cpu s) = Inr (reg (cpu s) 5)"
    "ReadRegister 6 (cpu s) = Inr (reg (cpu s) 6)" by (simp_all add: ReadRegister_def machine_consts)
qed



text \<open>
  The system call Write on an open file: the bytes of the program's buffer replace those of the
  file from the current position on, up to its end, since a file does not grow; every other file,
  the memory and the other handles stay as they are.
\<close>

theorem write_syscall_correct:
  assumes "sys_good n s" "env_ok e" "sint (reg (cpu s) 2) = SC_Write" "0 \<le> sint (reg (cpu s) 5)"
    "sint (reg (cpu s) 6) \<notin> {ConsoleInput, ConsoleOutput}" "handle_on s (sint (reg (cpu s) 6)) k p"
    "user_files s k = Some F" "in_space n (reg (cpu s) 4) (sint (reg (cpu s) 5))"
    "N = min (unat (reg (cpu s) 5)) (length F - p)"
  shows "\<exists>s'. handler (Suc (Suc depth)) e SyscallException s = Inr s' \<and> sys_good n s' \<and>
     mainMemory (cpu s') = mainMemory (cpu s) \<and> reg (cpu s') PCReg = reg (cpu s) NextPCReg \<and>
     handle_on s' (sint (reg (cpu s) 6)) k (p + N) \<and>
     user_files s' = (user_files s)(k \<mapsto> take p F @ read_at (unat (reg (cpu s) 4)) N (mainMemory (cpu s)) @ drop (p + N) F)"
proof -
  let ?h = "kernel_host (Suc depth) e" and ?i = "sint (reg (cpu s) 6)" and ?va = "reg (cpu s) 4" and ?len = "sint (reg (cpu s) 5)"
  have N: "length (read_at p (nat ?len) F) = N" using assms(9) nat_sint [OF assms(4)] by (auto simp: read_at_def)
  have T: "take N (user_bytes s ?va ?len) = read_at (unat ?va) N (mainMemory (cpu s))"
    using assms(9) nat_sint [OF assms(4)] by (simp add: read_at_def min_def)
  from Write_Syscall_file [OF assms(1) kernel_host_halting assms(2,4-8), unfolded N T] obtain s1 where
    s1: "Write_Syscall e ?h ?va ?len ?i s = Inr s1" "sys_good n s1"
      "mainMemory (cpu s1) = mainMemory (cpu s)" "registers (cpu s1) = registers (cpu s)"
      "handle_on s1 ?i k (p + N)"
      "user_files s1 = (user_files s)(k \<mapsto> take p F @ read_at (unat ?va) N (mainMemory (cpu s)) @ drop (p + N) F)" by blast
  have "syscall e ?h (sint (reg (cpu s) 2)) s = Inr (0, s1)"
    using s1(1) assms(3) by (simp add: syscall_def syscall_args [OF assms(1)] sc_defs)
  from handler_returns [OF assms(1) this s1(2,4)] obtain m' where
    m: "handler (Suc (Suc depth)) e SyscallException s = Inr (s1\<lparr>cpu := m'\<rparr>)" "flat n m'" "mainMemory m' = mainMemory (cpu s1)"
      "reg m' PCReg = reg (cpu s) NextPCReg" by blast
  have "sys_good n (s1\<lparr>cpu := m'\<rparr>)" "handle_on (s1\<lparr>cpu := m'\<rparr>) ?i k (p + N)"
    using s1(2,5) m(2) by (simp_all add: sys_good_def handle_on_def handles_def)
  with m s1 show ?thesis by simp
qed

theorem write_syscall_correct_witness:
  "\<exists>s s' k F. sys_good 10 s \<and> length F = 100 \<and> user_files s k = Some F \<and>
     handler 2 sample_env SyscallException s = Inr s' \<and> user_files s' k = Some (replicate 3 65 @ drop 3 F)"
proof -
  from sample_state [of 7 64 3 2] obtain s k F where
    s: "sys_good 10 s" "cpu s = flat_machine (some_registers 7 64 3 2)" "handle_on s 2 k 0" "user_files s k = Some F" "length F = 100"
    by blast
  have r: "reg (cpu s) 2 = 7" "reg (cpu s) 4 = 64" "reg (cpu s) 5 = 3" "reg (cpu s) 6 = 2"
    using s(2) by (simp_all add: flat_machine_def some_registers_reg)
  have b: "3 = min (unat (3 :: 32 word)) (length F - 0)" using s(5) by simp
  have m: "read_at 64 3 (mainMemory (cpu s)) = replicate 3 65"
    using s(2) by (simp add: flat_machine_def read_at_def machine_consts)
  have A: "sint (reg (cpu s) 2) = SC_Write" "0 \<le> sint (reg (cpu s) 5)" "sint (reg (cpu s) 6) \<notin> {ConsoleInput, ConsoleOutput}"
    "handle_on s (sint (reg (cpu s) 6)) k 0" "in_space 10 (reg (cpu s) 4) (sint (reg (cpu s) 5))"
    "3 = min (unat (reg (cpu s) 5)) (length F - 0)"
    using s(3,5) unfolding r by (simp_all add: sc_defs ConsoleInput_def ConsoleOutput_def in_space_def machine_consts)
  have "handler (Suc (Suc 0)) sample_env = handler 2 sample_env" by (simp only: numeral_2_eq_2)
  with write_syscall_correct [OF s(1) sample_env_ok A(1-4) s(4) A(5,6), of 0] obtain s' where
    "handler 2 sample_env SyscallException s = Inr s'"
    "user_files s' = (user_files s)(k \<mapsto> take 0 F @ read_at (unat (reg (cpu s) 4)) 3 (mainMemory (cpu s)) @ drop (0 + 3) F)"
    by metis
  moreover from this(2) have "user_files s' k = Some (replicate 3 65 @ drop 3 F)" using m r(2) by simp
  ultimately show ?thesis using s(1,4,5) by blast
qed





text \<open>
  A bad pointer does not make a system call return an error: reading even one byte outside of
  the address space, in Create, Open or Write, halts the whole machine, although \<open>copyin\<close> is
  meant to return -1 and its callers print a message and go on.
\<close>

theorem bad_pointer_halts:
  assumes "sys_good n s" "env_ok e" "0 < len" "\<not> unat va + nat len \<le> n * PageSize"
  shows "copyin (tries e) (kernel_host (Suc depth) e) va len s = Inl HALTED"
proof -
  have "flat n (cpu s)" "0 < tries e" using assms(1,2) by (simp_all add: sys_good_def env_ok_def)
  from copyin_flat [OF this(1) kernel_host_halting this(2), of va len] assms(3,4) show ?thesis by (simp add: in_space_def)
qed

theorem bad_pointer_halts_witness:
  "\<exists>s. sys_good 10 s \<and> copyin 1 (kernel_host 1 sample_env) 0x10000 5 s = Inl HALTED"
proof -
  from sample_state [of 8 2 0 0] obtain s where s: "sys_good 10 s" by blast
  have "\<not> unat (0x10000 :: 32 word) + nat 5 \<le> 10 * PageSize" by (simp add: machine_consts)
  from bad_pointer_halts [OF s sample_env_ok _ this, of 0] s show ?thesis by (auto simp: sample_env_def)
qed

text \<open>
  Closing handle 0 takes the console's slot out of the table, although it belongs to no file: the
  next file that is opened gets the handle 0, and what the program writes to it is thrown away.
\<close>

theorem close_console_handle:
  assumes "sys_good n s" "halting h" "env_ok e" "0 \<le> len" "len + 1 < 2 ^ 31" "in_space n va len"
    "user_files s (fkey (c_name (user_bytes s va len))) \<noteq> None"
  shows "\<exists>s1 s2. Close_Syscall 0 s = Inr s1 \<and> Open_Syscall e h va len s1 = Inr (0, s2) \<and>
     Write_Syscall e h va' len' 0 s2 = Inr s2"
proof -
  from Close_Syscall_ok [OF assms(1), of 0] obtain s1 where
    s1: "Close_Syscall 0 s = Inr s1" "sys_good n s1" "cpu s1 = cpu s" "user_files s1 = user_files s"
      "handles s1 = (handles s)(0 := None)" by blast
  from Open_Syscall_ok [OF s1(2) assms(2-5), of va] assms(6) obtain i s2 where
    s2: "Open_Syscall e h va len s1 = Inr (i, s2)"
      "if i = - 1
        then handles s2 = handles s1 \<and> (user_files s1 (fkey (c_name (user_bytes s1 va len))) = None \<or>
               (\<exists>t. get_table s1 = Inr t \<and> dom (entries t) = {0..<tsize t}))
        else handles s1 i = None \<and> (\<forall>j. 0 \<le> j \<and> j < i \<longrightarrow> handles s1 j \<noteq> None) \<and> 0 \<le> i \<and>
          (\<exists>a. names (fileSys (rest s1)) (kdisk (rest s1)) (fkey (c_name (user_bytes s1 va len))) = Some a \<and>
             handles s2 = (handles s1)(i \<mapsto> Some \<lparr>hdr = the_header a (kdisk (rest s1)), seekPosition = 0\<rparr>))" by auto
  from s1(2) have "kern_ok (rest s1)" by (simp add: sys_good_def)
  from kern_okD [OF this] obtain t where t: "get_table s1 = Inr t" "handles s1 = entries t" "tsize t = MaxOpenFiles" by metis
  have "0 \<notin> dom (entries t)" using s1(5) t(2) by auto
  then have "dom (entries t) \<noteq> {0..<tsize t}" by (auto simp: t(3) MaxOpenFiles_def)
  then have "\<not> (\<exists>t. get_table s1 = Inr t \<and> dom (entries t) = {0..<tsize t})" using t(1) by simp
  then have "i \<noteq> - 1" using s2(2) assms(7) s1(3,4) by metis
  then have "0 \<le> i" "\<not> 0 < i" using s2(2) s1(5) by auto
  then have "i = 0" by simp
  then show ?thesis using s1(1) s2(1) by (simp add: Write_Syscall_def ConsoleInput_def)
qed

theorem close_console_handle_witness:
  "\<exists>s s1 s2. sys_good 10 s \<and> Close_Syscall 0 s = Inr s1 \<and> Open_Syscall sample_env (kernel_host 1 sample_env) 64 1 s1 = Inr (0, s2) \<and>
     Write_Syscall sample_env (kernel_host 1 sample_env) 0 10 0 s2 = Inr s2"
proof -
  from sample_state [of 0 0 0 0] obtain s k F where s: "sys_good 10 s" "cpu s = flat_machine (some_registers 0 0 0 0)"
    "user_files s k = Some F" "k = fkey [65, 0]" by blast
  have "user_bytes s 64 1 = [65]" using s(2) by (simp add: flat_machine_def read_at_def machine_consts)
  then have "user_files s (fkey (c_name (user_bytes s 64 1))) \<noteq> None" using s(3,4) by simp
  from close_console_handle [OF s(1) kernel_host_halting sample_env_ok _ _ _ this, of 0 sample_env 0 10] s(1) show ?thesis
    by (auto simp: in_space_def machine_consts)
qed

end
