(* ===== verification/Program_Loading.thy ===== *)
theory Program_Loading
  imports Syscall_Properties
begin

text \<open>
  Loading and starting a program (\<open>userprog/addrspace.cc\<close>, \<open>StartProcess\<close> of \<open>userprog/progtest.cc\<close>).
  \<open>noff_ok\<close> says which files are well-formed executables that fit into memory, and \<open>program_image\<close>
  which contents of memory such a file describes. The lemmas show that the loader produces this
  memory on hosts of either byte order, and a machine from which the program can run.
\<close>

section \<open>Loading a program\<close>

text \<open>The header of an executable, whose words are stored in the byte order of the MIPS, little-endian.\<close>

definition noff_header :: "byte list \<Rightarrow> NoffHeader" where
  "noff_header X = noff_of_bytes False X"

definition seg_ok :: "nat \<Rightarrow> byte list \<Rightarrow> Segment \<Rightarrow> bool" where
  "seg_ok n X g \<longleftrightarrow> seg_size g = 0 \<or> sint (seg_size g) \<ge> 0 \<and> unat (virtualAddr g) + unat (seg_size g) \<le> n * PageSize \<and>
     sint (inFileAddr g) \<ge> 0 \<and> unat (inFileAddr g) + unat (seg_size g) \<le> length X"

definition page_count :: "NoffHeader \<Rightarrow> nat" where
  "page_count H = (unat (seg_size (code H)) + unat (seg_size (initData H)) + unat (seg_size (uninitData H)) + 127) div 128 + 8"

definition noff_ok :: "byte list \<Rightarrow> bool" where
  "noff_ok X \<longleftrightarrow> sizeof_NoffHeader \<le> length X \<and> noffMagic (noff_header X) = NOFFMAGIC \<and>
     unat (seg_size (code (noff_header X))) + unat (seg_size (initData (noff_header X))) +
       unat (seg_size (uninitData (noff_header X))) \<le> 24 * PageSize \<and>
     seg_ok (page_count (noff_header X)) X (code (noff_header X)) \<and>
     seg_ok (page_count (noff_header X)) X (initData (noff_header X))"

text \<open>The memory that the executable describes.\<close>

definition seg_bytes :: "byte list \<Rightarrow> Segment \<Rightarrow> byte list" where
  "seg_bytes X g = read_at (unat (inFileAddr g)) (unat (seg_size g)) X"

definition program_image :: "byte list \<Rightarrow> byte list \<Rightarrow> byte list" where
  "program_image X mem = (let H = noff_header X in
     overlay (unat (virtualAddr (initData H))) (seg_bytes X (initData H))
       (overlay (unat (virtualAddr (code H))) (seg_bytes X (code H))
         (write_at 0 (replicate (page_count H * PageSize) 0) mem)))"

lemma word_at_swap:
  assumes "4 * i + 4 \<le> length bs"
  shows "WordToHost True (word_at True i bs) = word_at False i bs"
proof -
  have "length (read_at (4 * i) 4 bs) = 4" using assms by simp
  then obtain a b c d where e: "read_at (4 * i) 4 bs = [a, b, c, d]" using list_of_4 by blast
  show "WordToHost True (word_at True i bs) = word_at False i bs"
    using host_word_swap [of True a b c d] by (simp add: word_at_def e host_word_def)
qed

lemma word_at_prefix: "4 * i + 4 \<le> k \<Longrightarrow> k \<le> length bs \<Longrightarrow> word_at bo i (read_at 0 k bs) = word_at bo i bs"
  by (simp add: word_at_def read_at_def drop_take min_def)

lemma swapped_header:
  assumes "40 \<le> length X"
  shows "SwapHeader True (noff_of_bytes True X) = noff_of_bytes False X"
  using assms word_at_swap [of _ X]
  by (simp add: SwapHeader_def swap_segment_def noff_of_bytes_def segment_at_def)

lemma magic_not_symmetric: "WordToHost True NOFFMAGIC \<noteq> NOFFMAGIC"
  by (simp add: WordToHost_def NOFFMAGIC_def)

lemma header_any_order:
  fixes bo :: bool
  assumes "40 \<le> length X" "noffMagic (noff_header X) = NOFFMAGIC"
  defines "raw \<equiv> noff_of_bytes bo X"
  shows "(if noffMagic raw \<noteq> NOFFMAGIC \<and> WordToHost bo (noffMagic raw) = NOFFMAGIC then SwapHeader bo raw else raw) = noff_header X"
proof (cases bo)
  case True
  have "WordToHost True (noffMagic raw) = NOFFMAGIC"
    using swapped_header [OF assms(1)] assms(2) True by (simp add: raw_def noff_header_def SwapHeader_def) (metis NoffHeader.select_convs(1))
  moreover have "noffMagic raw \<noteq> NOFFMAGIC" using calculation magic_not_symmetric by metis
  ultimately show ?thesis using True swapped_header [OF assms(1)] by (simp add: raw_def noff_header_def)
qed (use assms in \<open>simp add: noff_header_def\<close>)

lemma header_prefix: "40 \<le> length X \<Longrightarrow> noff_of_bytes bo (read_at 0 40 X) = noff_of_bytes bo X"
  by (simp add: noff_of_bytes_def segment_at_def word_at_prefix)

lemma pages_for_nat: "unat w + 127 < 2 ^ 32 \<Longrightarrow> unat (pages_for w) = (unat w + 127) div 128"
proof -
  assume a: "unat w + 127 < 2 ^ 32"
  have p: "(of_nat PageSize :: 32 word) = 128" by (simp add: machine_consts)
  have d: "unat (w div 128) = unat w div 128" "unat (w mod 128) = unat w mod 128" by (simp_all add: unat_div unat_mod)
  have z: "w mod 128 > 0 \<longleftrightarrow> unat w mod 128 \<noteq> 0" using d(2) by (simp add: word_gt_0 unat_eq_0 [symmetric])
  have e: "(unat w + 127) div 128 = unat w div 128 + (if unat w mod 128 \<noteq> 0 then 1 else 0)"
    using div_add1_eq [of "unat w" 127 128] by auto
  have "unat w div 128 < 2 ^ 32 - 1" using a by simp
  then show ?thesis unfolding pages_for_def p e by (auto simp: z d unat_word_ariths)
qed

lemma load_segment_ok:
  assumes "header_ok (hdr f)" "idle_disk d" "file_bytes (hdr f) d = X" "seg_ok n X g" "n \<le> 32" "length (mainMemory m) = MemorySize"
  shows "\<exists>d'. load_segment f g m d = Inr (m\<lparr>mainMemory := overlay (unat (virtualAddr g)) (seg_bytes X g) (mainMemory m)\<rparr>, d') \<and>
     same_disk d d'"
proof -
  show ?thesis
  proof (cases "seg_size g = 0")
    case True
    then show ?thesis using assms(2) by (simp add: load_segment_def seg_bytes_def overlay_def read_at_def)
  next
    case False
    with assms(4) have s: "nat (sint (seg_size g)) = unat (seg_size g)" "nat (sint (inFileAddr g)) = unat (inFileAddr g)"
      by (simp_all add: seg_ok_def nat_sint)
    have le: "unat (virtualAddr g) + unat (seg_size g) \<le> 4096" using False assms(4,5) by (simp add: seg_ok_def machine_consts)
    have True: "sint (seg_size g) > 0" using False assms(4) signed_word_eqI [of "seg_size g" 0] by (auto simp: seg_ok_def less_le)
    from ReadAt_ok [OF assms(1,2), of "sint (inFileAddr g)" "sint (seg_size g)"] assms(3,4) False obtain d' where
      d': "ReadAt (sint (seg_size g)) (sint (inFileAddr g)) (hdr f) d = Inr (seg_bytes X g, d')" "same_disk d d'"
      by (auto simp: same_disk_def seg_bytes_def s seg_ok_def)
    have L: "length (seg_bytes X g) = unat (seg_size g)" using assms(4) False by (simp add: seg_bytes_def seg_ok_def)
    have "unat (seg_size g) \<noteq> 0" using False by (simp add: unat_eq_0)
    then have ne: "seg_bytes X g \<noteq> []" using L by auto
    have "uint (virtualAddr g) < 2 ^ 31" using le by (simp add: uint_nat del: of_nat_unat)
    then have "\<not> sint (virtualAddr g) < 0" unfolding sint_uint32 using uint_range [of "virtualAddr g"] by simp
    then show ?thesis using True d' L le ne assms(6) by (simp add: load_segment_def mem_put_def overlay_def machine_consts)
  qed
qed

lemma page_count_word:
  assumes "noff_ok X"
  defines "H \<equiv> noff_header X"
  defines "w \<equiv> pages_for (seg_size (code H) + seg_size (initData H) + seg_size (uninitData H)) + pages_for (of_nat UserStackSize)"
  shows "unat w = page_count H" "page_count H \<le> 32" "w \<le> of_nat NumPhysPages" "unat (w * of_nat PageSize) = page_count H * PageSize"
    "w = of_nat (page_count H)" "8 \<le> page_count H"
proof -
  let ?a = "unat (seg_size (code H))" and ?b = "unat (seg_size (initData H))" and ?c = "unat (seg_size (uninitData H))"
  have t: "?a + ?b + ?c \<le> 3072" using assms(1) by (simp add: noff_ok_def H_def machine_consts)
  then have s: "unat (seg_size (code H) + seg_size (initData H) + seg_size (uninitData H)) = ?a + ?b + ?c"
    by (simp add: unat_word_ariths)
  have u: "unat (pages_for (of_nat UserStackSize)) = 8" by (subst pages_for_nat) (simp_all add: UserStackSize_def)
  have q: "unat (pages_for (seg_size (code H) + seg_size (initData H) + seg_size (uninitData H))) = (?a + ?b + ?c + 127) div 128"
    using t by (subst pages_for_nat) (simp_all add: s)
  have le: "(?a + ?b + ?c + 127) div 128 \<le> 24" using t by simp
  show w: "unat w = page_count H" using le unfolding w_def page_count_def by (simp add: unat_word_ariths u q)
  show p: "page_count H \<le> 32" "8 \<le> page_count H" using le by (simp_all add: page_count_def)
  show "w \<le> of_nat NumPhysPages" using w p by (simp add: word_le_nat_alt machine_consts)
  show "unat (w * of_nat PageSize) = page_count H * PageSize" using w p by (simp add: unat_word_ariths machine_consts)
  show "w = of_nat (page_count H)" unfolding w [symmetric] by simp
qed

lemma length_overlay: "bs = [] \<or> p + length bs \<le> length mem \<Longrightarrow> length (overlay p bs mem) = length mem"
  by (auto simp: overlay_def)

text \<open>What the constructor does once it has made the table of files and read the header.\<close>

definition load_image :: "OpenFile \<Rightarrow> NoffHeader \<Rightarrow> OpenFile Table \<Rightarrow> Machine \<Rightarrow> Disk \<Rightarrow> (AddrSpace \<times> Machine \<times> Disk) result" where
  "load_image f H t m d =
     (let n = pages_for (seg_size (code H) + seg_size (initData H) + seg_size (uninitData H)) + pages_for (of_nat UserStackSize)
      in bind_result (ASSERT (n \<le> of_nat NumPhysPages)) (\<lambda>_.
         bind_result (mem_put 0 (replicate (unat (n * of_nat PageSize)) 0) m) (\<lambda>m.
         bind_result (load_segment f (code H) m d) (\<lambda>(m, d).
         bind_result (load_segment f (initData H) m d) (\<lambda>(m, d).
           Inr (\<lparr>fileTable = t, spacePages = map identity_entry [0..<unat n], numPages = n\<rparr>, m, d))))))"

lemma AddrSpace_ctor_header:
  assumes "header_ok (hdr f)" "idle_disk d" "file_bytes (hdr f) d = X" "40 \<le> length X" "noffMagic (noff_header X) = NOFFMAGIC"
  obtains t d1 where "table_ok t" "tsize t = MaxOpenFiles" "entries t = [0 \<mapsto> None, 1 \<mapsto> None]" "same_disk d d1"
    "AddrSpace_ctor bo j f m d = load_image f (noff_header X) t m d1"
proof -
  from Table_ctor_ok [of MaxOpenFiles "junk_words j" "junk_slots j"] obtain t0 where
    t0: "Table_ctor (junk_words j) (junk_slots j) MaxOpenFiles = Inr t0" "table_ok t0" "tsize t0 = MaxOpenFiles" "entries t0 = Map.empty"
    by (auto simp: MaxOpenFiles_def)
  have D0: "dom (entries t0) = {0..<0}" "0 < tsize t0" by (simp_all add: t0 MaxOpenFiles_def)
  from Table_Put_next [OF t0(2) D0(1) order_refl D0(2), of None] obtain t1 where
    t1: "Table_Put None t0 = Inr (0, t1)" "table_ok t1" "tsize t1 = tsize t0" "entries t1 = (entries t0)(0 \<mapsto> None)"
      "dom (entries t1) = {0..<0 + 1}" by blast
  have D1: "0 \<le> (0 + 1 :: int)" "0 + 1 < tsize t1" by (simp_all add: t0(3) t1(3) MaxOpenFiles_def)
  from Table_Put_next [OF t1(2,5) D1, of None] obtain t2 where
    t2: "Table_Put None t1 = Inr (0 + 1, t2)" "table_ok t2" "tsize t2 = tsize t1" "entries t2 = (entries t1)(0 + 1 \<mapsto> None)" by blast
  from ReadAt_ok [OF assms(1,2), of 0 "int sizeof_NoffHeader"] obtain d1 where
    d1: "ReadAt (int sizeof_NoffHeader) 0 (hdr f) d = Inr (read_at 0 40 X, d1)" "same_disk d d1"
    by (auto simp: same_disk_def assms(3) sizeof_NoffHeader_def)
  have raw: "noff_of_bytes bo (write_at 0 (read_at 0 40 X) (map (junk_header j) [0..<sizeof_NoffHeader])) = noff_of_bytes bo X"
  proof -
    have "write_at 0 (read_at 0 40 X) (map (junk_header j) [0..<sizeof_NoffHeader]) = read_at 0 40 X"
      using assms(4) by (simp add: write_at_def sizeof_NoffHeader_def)
    then show ?thesis using header_prefix [OF assms(4)] by simp
  qed
  note hd = header_any_order [OF assms(4,5), of bo]
  have "AddrSpace_ctor bo j f m d = load_image f (noff_header X) t2 m d1"
    unfolding AddrSpace_ctor_def t0(1) bind_result.simps t1(1) prod.case t2(1) d1(1) Let_def raw hd
    using assms(5) by (simp add: load_image_def Let_def)
  then show ?thesis using that [of t2 d1] t0 t1 t2 d1 by simp
qed

lemma AddrSpace_ctor_ok:
  assumes "header_ok (hdr f)" "idle_disk d" "file_bytes (hdr f) d = X" "noff_ok X" "length (mainMemory m) = MemorySize"
  shows "\<exists>sp d'. AddrSpace_ctor bo j f m d = Inr (sp, m\<lparr>mainMemory := program_image X (mainMemory m)\<rparr>, d') \<and> same_disk d d' \<and>
     table_ok (fileTable sp) \<and> tsize (fileTable sp) = MaxOpenFiles \<and> entries (fileTable sp) = [0 \<mapsto> None, 1 \<mapsto> None] \<and>
     spacePages sp = map identity_entry [0..<page_count (noff_header X)] \<and> numPages sp = of_nat (page_count (noff_header X)) \<and>
     length (program_image X (mainMemory m)) = MemorySize"
proof -
  let ?H = "noff_header X" and ?n = "page_count (noff_header X)"
  note W = page_count_word [OF assms(4)]
  have sg: "seg_ok ?n X (code ?H)" "seg_ok ?n X (initData ?H)" "40 \<le> length X" "noffMagic ?H = NOFFMAGIC"
    using assms(4) by (simp_all add: noff_ok_def sizeof_NoffHeader_def)
  from AddrSpace_ctor_header [OF assms(1-3) sg(3,4)] obtain t d1 where
    t: "table_ok t" "tsize t = MaxOpenFiles" "entries t = [0 \<mapsto> None, 1 \<mapsto> None]" and d1: "same_disk d d1" and
    C: "AddrSpace_ctor bo j f m d = load_image f (noff_header X) t m d1" .
  have nz: "?n * PageSize \<le> MemorySize" using W(2) by (simp add: machine_consts)
  let ?m1 = "m\<lparr>mainMemory := write_at 0 (replicate (?n * PageSize) 0) (mainMemory m)\<rparr>"
  have m1: "mem_put 0 (replicate (?n * PageSize) 0) m = Inr ?m1" "length (mainMemory ?m1) = MemorySize"
    using nz assms(5) by (simp_all add: mem_put_def)
  have i1: "idle_disk d1" "file_bytes (hdr f) d1 = X" using d1 same_disk_cong(2) [OF d1] assms(3) by (simp_all add: same_disk_def)
  from load_segment_ok [OF assms(1) i1 sg(1) W(2) m1(2)] obtain d2 where
    d2: "load_segment f (code ?H) ?m1 d1 =
      Inr (?m1\<lparr>mainMemory := overlay (unat (virtualAddr (code ?H))) (seg_bytes X (code ?H)) (mainMemory ?m1)\<rparr>, d2)" "same_disk d1 d2" by blast
  let ?m2 = "?m1\<lparr>mainMemory := overlay (unat (virtualAddr (code ?H))) (seg_bytes X (code ?H)) (mainMemory ?m1)\<rparr>"
  have fit: "seg_bytes X g = [] \<or> unat (virtualAddr g) + length (seg_bytes X g) \<le> MemorySize" if "seg_ok ?n X g" for g
    using that nz by (auto simp: seg_ok_def seg_bytes_def read_at_def)
  have m2: "length (mainMemory ?m2) = MemorySize" using length_overlay [of _ _ "mainMemory ?m1"] fit [OF sg(1)] m1(2) by simp
  have i2: "idle_disk d2" "file_bytes (hdr f) d2 = X" using d2(2) same_disk_cong(2) [OF d2(2)] i1(2) by (simp_all add: same_disk_def)
  from load_segment_ok [OF assms(1) i2 sg(2) W(2) m2] obtain d3 where
    d3: "load_segment f (initData ?H) ?m2 d2 =
      Inr (?m2\<lparr>mainMemory := overlay (unat (virtualAddr (initData ?H))) (seg_bytes X (initData ?H)) (mainMemory ?m2)\<rparr>, d3)"
      "same_disk d2 d3" by blast
  have im: "?m2\<lparr>mainMemory := overlay (unat (virtualAddr (initData ?H))) (seg_bytes X (initData ?H)) (mainMemory ?m2)\<rparr> =
      m\<lparr>mainMemory := program_image X (mainMemory m)\<rparr>" by (simp add: program_image_def Let_def)
  have "length (program_image X (mainMemory m)) = MemorySize"
    using length_overlay [of _ _ "mainMemory ?m2"] fit [OF sg(2)] m2 by (simp add: program_image_def Let_def)
  moreover have "AddrSpace_ctor bo j f m d = Inr (\<lparr>fileTable = t, spacePages = map identity_entry [0..<?n], numPages = of_nat ?n\<rparr>,
      m\<lparr>mainMemory := program_image X (mainMemory m)\<rparr>, d3)"
    unfolding C load_image_def Let_def using W m1(1) d2(1) d3(1) im by (simp del: of_nat_add)
  moreover have "same_disk d d3" by (rule same_disk_trans [OF d1 same_disk_trans [OF d2(2) d3(2)]])
  ultimately show ?thesis using t by auto
qed

definition machine_ready :: "Machine \<Rightarrow> bool" where
  "machine_ready m \<longleftrightarrow> length (mainMemory m) = MemorySize \<and> length (registers m) = NumTotalRegs \<and>
     length (lastUsed m) = NumPhysPages \<and> tlb m = None"

lemma WriteRegister_ok:
  "length (registers m) = NumTotalRegs \<Longrightarrow> 0 \<le> i \<Longrightarrow> i < int NumTotalRegs \<Longrightarrow>
   WriteRegister i v m = Inr (m\<lparr>registers := (registers m)[nat i := v]\<rparr>)"
  by (simp add: WriteRegister_def)

lemma clear_registers:
  assumes "length (registers m) = NumTotalRegs"
  shows "for_each [0..int NumTotalRegs - 1] (\<lambda>i. WriteRegister i 0) m = Inr (m\<lparr>registers := replicate NumTotalRegs 0\<rparr>)"
  using for_each_fill [of registers m NumTotalRegs "\<lambda>i. WriteRegister i 0" "\<lambda>r m. m\<lparr>registers := r\<rparr>" "\<lambda>_. 0"] assms
  by (simp add: WriteRegister_ok map_replicate_const)

lemma InitRegisters_ok:
  assumes "length (registers m) = NumTotalRegs"
  shows "InitRegisters sp m = Inr (m\<lparr>registers :=
     (replicate NumTotalRegs 0)[PCReg := 0, NextPCReg := 4, StackReg := numPages sp * of_nat PageSize - 16]\<rparr>)"
  unfolding InitRegisters_def clear_registers [OF assms] by (simp add: WriteRegister_ok machine_consts reg_consts)

lemma identity_flat: "flat_table n (map identity_entry [0..<n])"
  by (simp add: flat_table_def identity_entry_def)

lemma StartProcess_runs:
  assumes "fs_ok (fileSys (rest s)) (kdisk (rest s))" "uninit_ok u" "is_name filename"
    "user_files s (fkey filename) = Some X" "noff_ok X" "machine_ready (cpu s)"
  shows "\<exists>s0 n. StartProcess h tick u j filename steps s = bind_result (Run h tick steps s0) (\<lambda>s. Inr (Some s)) \<and>
     n = page_count (noff_header X) \<and> sys_good n s0 \<and> mainMemory (cpu s0) = program_image X (mainMemory (cpu s)) \<and>
     reg (cpu s0) PCReg = 0 \<and> reg (cpu s0) NextPCReg = 4 \<and> unat (reg (cpu s0) StackReg) = n * PageSize - 16 \<and>
     user_files s0 = user_files s \<and> handles s0 = [0 \<mapsto> None, 1 \<mapsto> None]"
proof -
  let ?fs = "fileSys (rest s)" and ?d = "kdisk (rest s)" and ?n = "page_count (noff_header X)"
  from assms(4) obtain a where a: "names ?fs ?d (fkey filename) = Some a" "file_bytes (the_header a ?d) ?d = X" by (auto simp: files_def)
  from Open_ok [OF assms(1-3)] a obtain d1 where d1: "Open u filename ?fs ?d = Inr (Some \<lparr>hdr = the_header a ?d, seekPosition = 0\<rparr>, d1)"
    "same_disk ?d d1" by auto
  let ?f = "\<lparr>hdr = the_header a ?d, seekPosition = 0\<rparr>"
  have hd: "header_ok (hdr ?f)" using name_sector(2) [OF assms(1) a(1)] by (simp add: good_head_def)
  have i1: "idle_disk d1" "file_bytes (hdr ?f) d1 = X" using d1(2) same_disk_cong(2) [OF d1(2)] a(2) by (simp_all add: same_disk_def)
  have M: "length (mainMemory (cpu s)) = MemorySize" "length (registers (cpu s)) = NumTotalRegs" "length (lastUsed (cpu s)) = NumPhysPages"
    "tlb (cpu s) = None" using assms(6) by (simp_all add: machine_ready_def)
  from AddrSpace_ctor_ok [OF hd i1 assms(5) M(1), of "big_endian h" j] obtain sp d2 where
    sp: "AddrSpace_ctor (big_endian h) j ?f (cpu s) d1 = Inr (sp, (cpu s)\<lparr>mainMemory := program_image X (mainMemory (cpu s))\<rparr>, d2)"
      "same_disk d1 d2" "table_ok (fileTable sp)" "tsize (fileTable sp) = MaxOpenFiles" "entries (fileTable sp) = [0 \<mapsto> None, 1 \<mapsto> None]"
      "spacePages sp = map identity_entry [0..<?n]" "numPages sp = of_nat ?n" "length (program_image X (mainMemory (cpu s))) = MemorySize" by blast
  let ?r = "(replicate NumTotalRegs 0)[PCReg := 0, NextPCReg := 4, StackReg := numPages sp * of_nat PageSize - 16]"
  let ?m = "(cpu s)\<lparr>mainMemory := program_image X (mainMemory (cpu s)), registers := ?r\<rparr>"
  let ?s0 = "s\<lparr>cpu := RestoreState sp ?m, rest := (rest s)\<lparr>kdisk := d2, space := Some sp\<rparr>\<rparr>"
  have run: "StartProcess h tick u j filename steps s = bind_result (Run h tick steps ?s0) (\<lambda>s. Inr (Some s))"
    using d1(1) sp(1) InitRegisters_ok [of "(cpu s)\<lparr>mainMemory := program_image X (mainMemory (cpu s))\<rparr>" sp] M(2)
    by (simp add: StartProcess_def Let_def)
  note pc = page_count_word(2,4,5,6) [OF assms(5)]
  have st: "unat (of_nat ?n * of_nat PageSize - 16 :: 32 word) = ?n * PageSize - 16"
  proof -
    have "unat (of_nat ?n * of_nat PageSize :: 32 word) = ?n * PageSize" using pc(2) unfolding pc(3) .
    moreover have "16 \<le> (of_nat ?n * of_nat PageSize :: 32 word)"
      using calculation pc(4) by (simp add: word_le_nat_alt machine_consts)
    ultimately show ?thesis by (simp add: unat_sub)
  qed
  have sd: "same_disk ?d d2" by (rule same_disk_trans [OF d1(2) sp(2)])
  have "flat ?n (RestoreState sp ?m)"
    using M sp(6-8) pc(1) identity_flat [of ?n]
    by (simp add: flat_def RestoreState_def user_ok_def machine_ok_def machine_consts reg_consts unat_of_nat)
  moreover have "kern_ok (rest ?s0)"
    using same_disk_cong(5) [OF sd assms(1)] sp(3-5) by (auto simp: kern_ok_def split: if_splits)
  ultimately have "sys_good ?n ?s0" by (simp add: sys_good_def)
  moreover have "user_files ?s0 = user_files s" using same_disk_cong(6) [OF sd] by simp
  moreover have "handles ?s0 = [0 \<mapsto> None, 1 \<mapsto> None]" using sp(5) by (simp add: handles_def)
  moreover have "reg (RestoreState sp ?m) PCReg = 0" "reg (RestoreState sp ?m) NextPCReg = 4"
    "unat (reg (RestoreState sp ?m) StackReg) = ?n * PageSize - 16"
    using st sp(7) by (simp_all add: RestoreState_def machine_consts reg_consts)
  moreover have "mainMemory (RestoreState sp ?m) = program_image X (mainMemory (cpu s))" by (simp add: RestoreState_def)
  ultimately show ?thesis using run by (intro exI [of _ ?s0] exI [of _ ?n]) simp
qed

text \<open>
  Starting a program. When the named file holds a well-formed executable, \<open>StartProcess\<close> loads
  exactly the memory image that it describes (its code and data at their addresses, zeros in the
  rest of its pages), whatever the byte order of the host, sets the program counter to 0 and the
  stack pointer below the end of the address space, and runs the program from a state in which
  the kernel's invariant holds and the table of open files has only the two console entries.
\<close>

theorem program_start:
  assumes "fs_ok (fileSys (rest s)) (kdisk (rest s))" "uninit_ok u" "is_name filename"
    "user_files s (fkey filename) = Some X" "noff_ok X" "machine_ready (cpu s)"
  shows "\<exists>s0 n. StartProcess h tick u j filename steps s = bind_result (Run h tick steps s0) (\<lambda>s. Inr (Some s)) \<and>
     n = page_count (noff_header X) \<and> sys_good n s0 \<and> mainMemory (cpu s0) = program_image X (mainMemory (cpu s)) \<and>
     reg (cpu s0) PCReg = 0 \<and> reg (cpu s0) NextPCReg = 4 \<and> unat (reg (cpu s0) StackReg) = n * PageSize - 16 \<and>
     user_files s0 = user_files s \<and> handles s0 = [0 \<mapsto> None, 1 \<mapsto> None]"
  by (rule StartProcess_runs [OF assms])

text \<open>An executable of two instructions, and a disk that holds it.\<close>

definition sample_program :: "byte list" where
  "sample_program = [0xad, 0xdf, 0xba, 0, 0, 0, 0, 0, 40, 0, 0, 0, 8, 0, 0, 0] @ replicate 32 0"

lemma sample_program_ok: "noff_ok sample_program" "length sample_program = 48" "page_count (noff_header sample_program) = 9"
proof -
  have z: "bytes_word (replicate 4 0) = 0" by (simp add: numeral_eq_Suc)
  have h: "noff_header sample_program = \<lparr>noffMagic = NOFFMAGIC,
      code = \<lparr>virtualAddr = 0, inFileAddr = 40, seg_size = 8\<rparr>, initData = \<lparr>virtualAddr = 0, inFileAddr = 0, seg_size = 0\<rparr>,
      uninitData = \<lparr>virtualAddr = 0, inFileAddr = 0, seg_size = 0\<rparr>\<rparr>"
    using z by (simp add: noff_header_def noff_of_bytes_def segment_at_def word_at_def host_word_def sample_program_def read_at_def
        NOFFMAGIC_def)
  show "length sample_program = 48" by (simp add: sample_program_def)
  show "page_count (noff_header sample_program) = 9" by (simp add: h page_count_def)
  show "noff_ok sample_program" using \<open>length sample_program = 48\<close> by (simp add: noff_ok_def h seg_ok_def page_count_def sizeof_NoffHeader_def machine_consts)
qed

lemma disk_with:
  assumes "length X = 48"
  shows "\<exists>fs d. fs_ok fs d \<and> files fs d (fkey [65, 0]) = Some X"
proof -
  from new_disk obtain d0 where d0: "idle_disk d0" by blast
  from format_ok [OF d0 zero_memory_ok] obtain fs d1 where f: "fs_ok fs d1" "files fs d1 = Map.empty"
    "card (marked (the_map fs d1)) = 5" by blast
  from fs_run_refines [OF f(1), of "[(zero_memory, CREATE [65, 0] 48), (zero_memory, WRITE [65, 0] 0 X)]"]
  obtain rs d2 where r: "fs_ok fs d2" "fs_specs [CREATE [65, 0] 48, WRITE [65, 0] 0 X] (abs_fs fs d1) rs (abs_fs fs d2)"
    by (auto simp: zero_memory_ok readable_def NumDirect_def SectorSize_def)
  have fr: "abs_fs fs d1 = (Map.empty, NumSectors - 5)"
    using card_free_bits [OF fs_headers(5) [OF f(1)]] f(2,3) by (simp add: abs_fs_def numBits_map)
  have "fits [65, 0] 48 (abs_fs fs d1)"
    unfolding fr by (simp add: fits_def sectors_for_def fs_numbers divRoundUp_def SectorSize_def NumDirEntries_def)
  with r(2) have "files fs d2 (fkey [65, 0]) = Some X"
    unfolding fr by (auto elim!: fs_specs_ConsE fs_specs_NilE elim!: fs_spec.cases simp: abs_fs_def overwrite_def assms Let_def)
  with r(1) show ?thesis by blast
qed

lemma sample_disk: "\<exists>fs d. fs_ok fs d \<and> files fs d (fkey [65, 0]) = Some sample_program"
  by (rule disk_with [OF sample_program_ok(2)])

theorem program_start_witness:
  "\<exists>s s0. StartProcess (kernel_host 2 sample_env) quiet_tick zero_memory \<lparr>junk_words = (\<lambda>_. 1), junk_slots = (\<lambda>_. None), junk_header = (\<lambda>_. 1)\<rparr>
       [65, 0] 1 s = bind_result (Run (kernel_host 2 sample_env) quiet_tick 1 s0) (\<lambda>s. Inr (Some s)) \<and> sys_good 9 s0"
proof -
  from sample_disk obtain fs d where fs: "fs_ok fs d" "files fs d (fkey [65, 0]) = Some sample_program" by blast
  let ?m = "\<lparr>mainMemory = replicate MemorySize 65, registers = replicate NumTotalRegs 1, tlb = None,
     pageTable = None, pageTableSize = 0, lastUsed = replicate NumPhysPages 0, singleStep = False\<rparr>"
  let ?s = "\<lparr>cpu = ?m, mode = SystemMode, clock = 0, rest = \<lparr>fileSys = fs, kdisk = d, space = None, screen = [], keyboard = []\<rparr>\<rparr>"
  have "is_name [65, 0]" "machine_ready ?m" by (simp_all add: readable_def machine_ready_def)
  moreover have "page_count (noff_header sample_program) = 9" by (rule sample_program_ok(3))
  ultimately show ?thesis using program_start [of ?s zero_memory "[65, 0]" sample_program] fs sample_program_ok(1) zero_memory_ok
    by simp blast
qed

end
