(* ===== verification/Coff_To_Noff.thy ===== *)
theory Coff_To_Noff
  imports Program_Loading
begin

text \<open>
  The converter of executables (\<open>bin/coff2noff.c\<close>), which makes the NOFF files that the loader of
  \<open>userprog/addrspace.cc\<close> reads out of the COFF files of the cross compiler.

  The structures of \<open>bin/coff.h\<close> are read as the host lays them out in memory, with a \<open>long\<close> of 32
  bits. The two open files are the \<open>UnixFile\<close> records of \<open>Host\<close>; \<open>room\<close> is the size up to which
  the host lets the output grow, \<open>junk\<close> what the uninitialised variable \<open>noffH\<close> holds. A run ends
  with the contents of the output file, or with the message of the \<open>exit(1)\<close> that it took; then the
  output file has been removed.

  The lemmas show that a well-formed COFF file is converted, that each segment of the result is
  the section it came from, and, together with \<open>Program_Loading\<close>, that the memory of a program
  started from the converted file holds the sections of the COFF file at their addresses.
\<close>

section \<open>The structures of a COFF file\<close>

record filehdr =
  f_magic :: "16 word"
  f_nscns :: "16 word"
  f_timdat :: "32 word"
  f_symptr :: "32 word"
  f_nsyms :: "32 word"
  f_opthdr :: "16 word"
  f_flags :: "16 word"

record aouthdr =
  aout_magic :: "16 word"
  vstamp :: "16 word"
  tsize_long :: "32 word"
  dsize :: "32 word"
  bsize :: "32 word"
  entry :: "32 word"
  text_start :: "32 word"
  data_start :: "32 word"
  bss_start :: "32 word"
  gprmask :: "32 word"
  cprmask :: "32 word list"
  gp_value :: "32 word"

record scnhdr =
  s_name :: "byte list"
  s_paddr :: "32 word"
  s_vaddr :: "32 word"
  s_size :: "32 word"
  s_scnptr :: "32 word"
  s_relptr :: "32 word"
  s_lnnoptr :: "32 word"
  s_nreloc :: "16 word"
  s_nlnno :: "16 word"
  s_flags :: "32 word"

definition MIPSELMAGIC :: "16 word" where "MIPSELMAGIC = 0x0162"
definition OMAGIC :: "16 word" where "OMAGIC = 263"

definition sizeof_filehdr :: nat where "sizeof_filehdr = 20"
definition sizeof_aouthdr :: nat where "sizeof_aouthdr = 56"
definition sizeof_scnhdr :: nat where "sizeof_scnhdr = 40"

lemmas coff_sizes = sizeof_filehdr_def sizeof_aouthdr_def sizeof_scnhdr_def sizeof_NoffHeader_def

definition long_at :: "bool \<Rightarrow> nat \<Rightarrow> byte list \<Rightarrow> 32 word" where
  "long_at be off bs = host_word be (read_at off 4 bs)"

definition short_at :: "bool \<Rightarrow> nat \<Rightarrow> byte list \<Rightarrow> 16 word" where
  "short_at be off bs = host_short be (read_at off 2 bs)"

definition filehdr_at :: "bool \<Rightarrow> byte list \<Rightarrow> filehdr" where
  "filehdr_at be bs =
     \<lparr>f_magic = short_at be 0 bs, f_nscns = short_at be 2 bs, f_timdat = long_at be 4 bs, f_symptr = long_at be 8 bs,
      f_nsyms = long_at be 12 bs, f_opthdr = short_at be 16 bs, f_flags = short_at be 18 bs\<rparr>"

definition aouthdr_at :: "bool \<Rightarrow> byte list \<Rightarrow> aouthdr" where
  "aouthdr_at be bs =
     \<lparr>aout_magic = short_at be 0 bs, vstamp = short_at be 2 bs, tsize_long = long_at be 4 bs, dsize = long_at be 8 bs,
      bsize = long_at be 12 bs, entry = long_at be 16 bs, text_start = long_at be 20 bs, data_start = long_at be 24 bs,
      bss_start = long_at be 28 bs, gprmask = long_at be 32 bs,
      cprmask = [long_at be 36 bs, long_at be 40 bs, long_at be 44 bs, long_at be 48 bs], gp_value = long_at be 52 bs\<rparr>"

text \<open>\<open>sections[i]\<close> of the array of section headers.\<close>

definition scnhdr_at :: "bool \<Rightarrow> nat \<Rightarrow> byte list \<Rightarrow> scnhdr" where
  "scnhdr_at be i bs = (let p = i * sizeof_scnhdr in
     \<lparr>s_name = read_at p 8 bs, s_paddr = long_at be (p + 8) bs, s_vaddr = long_at be (p + 12) bs, s_size = long_at be (p + 16) bs,
      s_scnptr = long_at be (p + 20) bs, s_relptr = long_at be (p + 24) bs, s_lnnoptr = long_at be (p + 28) bs,
      s_nreloc = short_at be (p + 32) bs, s_nlnno = short_at be (p + 34) bs, s_flags = long_at be (p + 36) bs\<rparr>)"

text \<open>The loop that converts the fields of the section headers that are used.\<close>

definition section_to_host :: "bool \<Rightarrow> scnhdr \<Rightarrow> scnhdr" where
  "section_to_host be s =
     s\<lparr>s_paddr := WordToHost be (s_paddr s), s_size := WordToHost be (s_size s), s_scnptr := WordToHost be (s_scnptr s)\<rparr>"

text \<open>\<open>noffH\<close> as \<open>Write(fdOut, (char *)&noffH, sizeof(NoffHeader))\<close> writes it.\<close>

definition segment_bytes :: "bool \<Rightarrow> Segment \<Rightarrow> byte list" where
  "segment_bytes be g = host_word_bytes be (virtualAddr g) @ host_word_bytes be (inFileAddr g) @ host_word_bytes be (seg_size g)"

definition noff_bytes :: "bool \<Rightarrow> NoffHeader \<Rightarrow> byte list" where
  "noff_bytes be H =
     host_word_bytes be (noffMagic H) @ segment_bytes be (code H) @ segment_bytes be (initData H) @ segment_bytes be (uninitData H)"

section \<open>Reading and writing files\<close>

text \<open>
  The messages of the program's exits. The host decides what reading a negative number of bytes
  does, which \<open>NEGATIVE_SIZE\<close> stands for.
\<close>

datatype coff_exit = USAGE | NO_COFF_FILE | TOO_SHORT | UNABLE_TO_WRITE | NOT_MIPSEL | NOT_OMAGIC
  | DATA_AND_RDATA | BSS_AND_SBSS | UNKNOWN_SEGMENT | NEGATIVE_SIZE

text \<open>\<open>lseek\<close> of the host; it fails on a negative position, which the program does not look at.\<close>

definition unix_lseek :: "int \<Rightarrow> UnixFile \<Rightarrow> UnixFile" where
  "unix_lseek off f = (if off < 0 then f else f\<lparr>offset := off\<rparr>)"

definition Read_coff :: "int \<Rightarrow> UnixFile \<Rightarrow> coff_exit + (byte list \<times> UnixFile)" where
  "Read_coff nBytes f =
     (if nBytes < 0 then Inl NEGATIVE_SIZE
      else let bs = read_at (nat (offset f)) (nat nBytes) (contents f)
           in if int (length bs) \<noteq> nBytes then Inl TOO_SHORT
              else Inr (bs, f\<lparr>offset := offset f + int (length bs)\<rparr>))"

text \<open>The output is \<open>None\<close> when \<open>open\<close> has returned -1 for it.\<close>

definition Write_noff :: "nat \<Rightarrow> byte list \<Rightarrow> UnixFile option \<Rightarrow> coff_exit + UnixFile option" where
  "Write_noff room bs fd =
     (case fd of
        None \<Rightarrow> Inl UNABLE_TO_WRITE
      | Some f \<Rightarrow>
          if nat (offset f) + length bs > room then Inl UNABLE_TO_WRITE
          else Inr (Some (f\<lparr>contents := write_at (nat (offset f)) bs (contents f), offset := offset f + int (length bs)\<rparr>)))"

section \<open>The conversion\<close>

record converter =
  fdIn :: UnixFile
  fdOut :: "UnixFile option"
  noffH :: NoffHeader
  inNoffFile :: "32 word"

text \<open>\<open>!strcmp(s_name, t)\<close>; all the names compared with end within the 8 bytes of \<open>s_name\<close>.\<close>

definition name_is :: "byte list \<Rightarrow> string \<Rightarrow> bool" where
  "name_is nm t \<longleftrightarrow> take (length t + 1) nm = map of_char t @ [0]"

text \<open>The copying of a section, which the branches for \<open>.text\<close> and \<open>.data\<close> share.\<close>

definition copy_section :: "nat \<Rightarrow> scnhdr \<Rightarrow> converter \<Rightarrow> coff_exit + converter" where
  "copy_section room s c =
     bind_sum (Read_coff (sint (s_size s)) (unix_lseek (sint (s_scnptr s)) (fdIn c))) (\<lambda>(buffer, fi).
     bind_sum (Write_noff room buffer (fdOut c)) (\<lambda>fo.
       Inr (c\<lparr>fdIn := fi, fdOut := fo, inNoffFile := inNoffFile c + s_size s\<rparr>)))"

definition new_segment :: "scnhdr \<Rightarrow> converter \<Rightarrow> Segment" where
  "new_segment s c = \<lparr>virtualAddr = s_paddr s, inFileAddr = inNoffFile c, seg_size = s_size s\<rparr>"

definition convert_section :: "nat \<Rightarrow> scnhdr \<Rightarrow> converter \<Rightarrow> coff_exit + converter" where
  "convert_section room s c = (let H = noffH c in
     if s_size s = 0 then Inr c
     else if name_is (s_name s) ''.text'' then
       copy_section room s (c\<lparr>noffH := H\<lparr>code := new_segment s c\<rparr>\<rparr>)
     else if name_is (s_name s) ''.data'' \<or> name_is (s_name s) ''.rdata'' then
       (if seg_size (initData H) \<noteq> 0 then Inl DATA_AND_RDATA
        else copy_section room s (c\<lparr>noffH := H\<lparr>initData := new_segment s c\<rparr>\<rparr>))
     else if name_is (s_name s) ''.bss'' \<or> name_is (s_name s) ''.sbss'' then
       (if seg_size (uninitData H) \<noteq> 0 then
          (if s_paddr s = virtualAddr (uninitData H) + seg_size (uninitData H) then Inl BSS_AND_SBSS
           else Inr (c\<lparr>noffH := H\<lparr>uninitData := (uninitData H)\<lparr>seg_size := seg_size (uninitData H) + s_size s\<rparr>\<rparr>\<rparr>))
        else Inr (c\<lparr>noffH := H\<lparr>uninitData := (uninitData H)\<lparr>virtualAddr := s_paddr s, seg_size := s_size s\<rparr>\<rparr>\<rparr>))
     else Inl UNKNOWN_SEGMENT)"

fun convert_sections :: "nat \<Rightarrow> scnhdr list \<Rightarrow> converter \<Rightarrow> coff_exit + converter" where
  "convert_sections room [] c = Inr c"
| "convert_sections room (s # ss) c = bind_sum (convert_section room s c) (convert_sections room ss)"

definition initial_noff :: "NoffHeader \<Rightarrow> NoffHeader" where
  "initial_noff junk =
     junk\<lparr>noffMagic := NOFFMAGIC, code := (code junk)\<lparr>seg_size := 0\<rparr>, initData := (initData junk)\<lparr>seg_size := 0\<rparr>,
          uninitData := (uninitData junk)\<lparr>seg_size := 0\<rparr>\<rparr>"

text \<open>The headers of the input file.\<close>

definition read_headers :: "bool \<Rightarrow> UnixFile \<Rightarrow> coff_exit + (scnhdr list \<times> UnixFile)" where
  "read_headers be fi =
     bind_sum (Read_coff (int sizeof_filehdr) fi) (\<lambda>(bs, fi).
       let fileh = filehdr_at be bs;
           fileh = fileh\<lparr>f_magic := ShortToHost be (f_magic fileh), f_nscns := ShortToHost be (f_nscns fileh)\<rparr>
       in if f_magic fileh \<noteq> MIPSELMAGIC then Inl NOT_MIPSEL
          else bind_sum (Read_coff (int sizeof_aouthdr) fi) (\<lambda>(bs, fi).
            let systemh = aouthdr_at be bs;
                systemh = systemh\<lparr>aout_magic := ShortToHost be (aout_magic systemh)\<rparr>
            in if aout_magic systemh \<noteq> OMAGIC then Inl NOT_OMAGIC
               else let numsections = unat (f_nscns fileh)
                    in bind_sum (Read_coff (int (numsections * sizeof_scnhdr)) fi) (\<lambda>(bs, fi).
                         Inr (map (\<lambda>i. section_to_host be (scnhdr_at be i bs)) [0..<numsections], fi))))"

text \<open>
  \<open>main\<close>: \<open>coff\<close> is the file that \<open>argv[1]\<close> names, if it can be opened, and \<open>writable\<close> tells
  whether \<open>argv[2]\<close> could be opened, which the code does not check.
\<close>

definition coff2noff :: "bool \<Rightarrow> nat \<Rightarrow> NoffHeader \<Rightarrow> int \<Rightarrow> byte list option \<Rightarrow> bool \<Rightarrow> coff_exit + byte list" where
  "coff2noff be room junk argc coff writable =
     (if argc < 2 then Inl USAGE
      else case coff of
        None \<Rightarrow> Inl NO_COFF_FILE
      | Some X \<Rightarrow>
          let fo = (if writable then Some OpenForWrite else None)
          in bind_sum (read_headers be \<lparr>contents = X, offset = 0\<rparr>) (\<lambda>(sections, fi).
             let inNoff = of_nat sizeof_NoffHeader;
                 c = \<lparr>fdIn = fi, fdOut = map_option (unix_lseek (sint inNoff)) fo, noffH = initial_noff junk, inNoffFile = inNoff\<rparr>
             in bind_sum (convert_sections room sections c) (\<lambda>c.
                bind_sum (Write_noff room (noff_bytes be (noffH c)) (map_option (unix_lseek 0) (fdOut c))) (\<lambda>fo.
                  Inr (case fo of Some f \<Rightarrow> contents f | None \<Rightarrow> [])))))"

section \<open>Well-formed COFF files\<close>

datatype section_kind = Text | Data | Bss | Unknown

definition kind_of :: "scnhdr \<Rightarrow> section_kind" where
  "kind_of s =
     (if name_is (s_name s) ''.text'' then Text
      else if name_is (s_name s) ''.data'' \<or> name_is (s_name s) ''.rdata'' then Data
      else if name_is (s_name s) ''.bss'' \<or> name_is (s_name s) ''.sbss'' then Bss
      else Unknown)"

definition of_kind :: "section_kind \<Rightarrow> scnhdr list \<Rightarrow> scnhdr list" where
  "of_kind k ss = filter (\<lambda>s. s_size s \<noteq> 0 \<and> kind_of s = k) ss"

definition section_bytes :: "byte list \<Rightarrow> scnhdr \<Rightarrow> byte list" where
  "section_bytes X s = read_at (unat (s_scnptr s)) (unat (s_size s)) X"

definition section_inside :: "byte list \<Rightarrow> scnhdr \<Rightarrow> bool" where
  "section_inside X s \<longleftrightarrow> sint (s_size s) \<ge> 0 \<and> sint (s_scnptr s) \<ge> 0 \<and> unat (s_scnptr s) + unat (s_size s) \<le> length X"

text \<open>The bytes of the sections that the converter copies.\<close>

definition copied_size :: "scnhdr list \<Rightarrow> nat" where
  "copied_size ss = sum_list (map (\<lambda>s. unat (s_size s)) (of_kind Text ss @ of_kind Data ss))"

definition sections_ok :: "byte list \<Rightarrow> scnhdr list \<Rightarrow> bool" where
  "sections_ok X ss \<longleftrightarrow> of_kind Unknown ss = [] \<and> list_all (section_inside X) (of_kind Text ss @ of_kind Data ss) \<and>
     length (of_kind Text ss) \<le> 1 \<and> length (of_kind Data ss) \<le> 1 \<and> length (of_kind Bss ss) \<le> 1"

text \<open>What a COFF file means, whose numbers are in the byte order of the MIPS, little-endian.\<close>

definition coff_sections :: "byte list \<Rightarrow> scnhdr list" where
  "coff_sections X = map (\<lambda>i. scnhdr_at False i (drop 76 X)) [0..<unat (f_nscns (filehdr_at False X))]"

definition coff_ok :: "byte list \<Rightarrow> bool" where
  "coff_ok X \<longleftrightarrow> 76 + 40 * unat (f_nscns (filehdr_at False X)) \<le> length X \<and> f_magic (filehdr_at False X) = MIPSELMAGIC \<and>
     aout_magic (aouthdr_at False (drop 20 X)) = OMAGIC \<and> sections_ok X (coff_sections X) \<and> 40 + copied_size (coff_sections X) < 2 ^ 31"

definition holds_section :: "byte list \<Rightarrow> byte list \<Rightarrow> scnhdr list \<Rightarrow> Segment \<Rightarrow> bool" where
  "holds_section X N ss g \<longleftrightarrow>
     (case ss of
        [] \<Rightarrow> seg_size g = 0
      | s # _ \<Rightarrow> virtualAddr g = s_paddr s \<and> seg_size g = s_size s \<and> sint (s_size s) \<ge> 0 \<and> 40 \<le> unat (inFileAddr g) \<and> sint (inFileAddr g) \<ge> 0 \<and>
          unat (inFileAddr g) + unat (seg_size g) \<le> length N \<and> seg_bytes N g = section_bytes X s)"

definition covers_section :: "scnhdr list \<Rightarrow> Segment \<Rightarrow> bool" where
  "covers_section ss g \<longleftrightarrow> (case ss of [] \<Rightarrow> seg_size g = 0 | s # _ \<Rightarrow> virtualAddr g = s_paddr s \<and> seg_size g = s_size s)"

section \<open>Converting the sections\<close>

lemma copied_size_snoc: "copied_size (ss @ [s]) = copied_size ss + (if s_size s \<noteq> 0 \<and> kind_of s \<in> {Text, Data} then unat (s_size s) else 0)"
  by (auto simp: copied_size_def of_kind_def)

lemma copy_section_ok:
  assumes "contents (fdIn c) = X" "section_inside X s" "fdOut c = Some f" "offset f = int n" "n + unat (s_size s) \<le> room"
  shows "\<exists>p. copy_section room s c = Inr (c\<lparr>fdIn := \<lparr>contents = X, offset = p\<rparr>,
     fdOut := Some \<lparr>contents = write_at n (section_bytes X s) (contents f), offset = int (n + unat (s_size s))\<rparr>,
     inNoffFile := inNoffFile c + s_size s\<rparr>)"
proof -
  have s: "nat (sint (s_size s)) = unat (s_size s)" "nat (sint (s_scnptr s)) = unat (s_scnptr s)" "sint (s_size s) = uint (s_size s)"
    using assms(2) nat_sint [of "s_size s"] nat_sint [of "s_scnptr s"] sint_uint32 [of "s_size s"] uint_range [of "s_size s"]
    by (simp_all add: section_inside_def split: if_splits)
  have l: "length (section_bytes X s) = unat (s_size s)" using assms(2) by (simp add: section_bytes_def section_inside_def)
  show ?thesis using assms s l
    by (cases "fdIn c"; cases f) (auto simp: copy_section_def Read_coff_def unix_lseek_def Write_noff_def section_inside_def section_bytes_def Let_def)
qed

lemma holds_section_write:
  assumes "holds_section X N ss g" "length N \<le> off \<or> off + length bs \<le> 40"
  shows "holds_section X (write_at off bs N) ss g"
proof (cases ss)
  case (Cons s ts)
  with assms(1) have b: "40 \<le> unat (inFileAddr g)" "unat (inFileAddr g) + unat (seg_size g) \<le> length N" by (auto simp: holds_section_def)
  then have "seg_bytes (write_at off bs N) g = seg_bytes N g"
    using assms(2) unfolding seg_bytes_def by (intro read_write_at_disjoint) auto
  with assms(1) Cons show ?thesis by (auto simp: holds_section_def)
qed (use assms(1) in \<open>simp add: holds_section_def\<close>)

text \<open>The state of the converter once the sections \<open>ds\<close> have been converted.\<close>

definition conv_inv :: "byte list \<Rightarrow> scnhdr list \<Rightarrow> converter \<Rightarrow> bool" where
  "conv_inv X ds c \<longleftrightarrow> contents (fdIn c) = X \<and> inNoffFile c = of_nat (40 + copied_size ds) \<and> noffMagic (noffH c) = NOFFMAGIC \<and>
     (\<exists>f. fdOut c = Some f \<and> offset f = int (40 + copied_size ds) \<and> max 40 (length (contents f)) = 40 + copied_size ds \<and>
        holds_section X (contents f) (of_kind Text ds) (code (noffH c)) \<and>
        holds_section X (contents f) (of_kind Data ds) (initData (noffH c))) \<and>
     covers_section (of_kind Bss ds) (uninitData (noffH c))"

lemma of_kind_snoc: "of_kind k (ss @ [s]) = of_kind k ss @ (if s_size s \<noteq> 0 \<and> kind_of s = k then [s] else [])"
  by (simp add: of_kind_def)

lemma new_segment_holds:
  assumes "section_inside X s" "n = max 40 (length N)" "inNoffFile c = of_nat n" "n < 2 ^ 31"
  shows "holds_section X (write_at n (section_bytes X s) N) [s] (new_segment s c)"
proof -
  have u: "unat (of_nat n :: 32 word) = n" using assms(4) by (simp add: unat_of_nat)
  have i: "sint (of_nat n :: 32 word) = int n" using assms(4) unfolding sint_uint32 by (simp add: uint_nat u del: of_nat_unat)
  have l: "length (section_bytes X s) = unat (s_size s)" using assms(1) by (simp add: section_bytes_def section_inside_def)
  show ?thesis using read_write_at [of n "section_bytes X s" N] assms u i
    by (simp add: holds_section_def new_segment_def seg_bytes_def l section_inside_def)
qed


lemma convert_empty_ok: "conv_inv X ds c \<Longrightarrow> s_size s = 0 \<Longrightarrow> \<exists>c'. convert_section room s c = Inr c' \<and> conv_inv X (ds @ [s]) c'"
  by (simp add: convert_section_def conv_inv_def of_kind_snoc copied_size_snoc)

lemma convert_bss_ok:
  assumes "conv_inv X ds c" "sections_ok X (ds @ [s])" "s_size s \<noteq> 0" "kind_of s = Bss"
  shows "\<exists>c'. convert_section room s c = Inr c' \<and> conv_inv X (ds @ [s]) c'"
proof -
  let ?H = "noffH c"
  let ?c = "c\<lparr>noffH := ?H\<lparr>uninitData := (uninitData ?H)\<lparr>virtualAddr := s_paddr s, seg_size := s_size s\<rparr>\<rparr>\<rparr>"
  have e: "of_kind Bss ds = []" using assms(2-4) by (simp add: sections_ok_def of_kind_snoc)
  then have "seg_size (uninitData ?H) = 0" using assms(1) by (simp add: conv_inv_def covers_section_def)
  then have "convert_section room s c = Inr ?c"
    using assms(3,4) by (auto simp: convert_section_def kind_of_def Let_def split: if_splits)
  moreover have "conv_inv X (ds @ [s]) ?c"
    using assms e by (simp add: conv_inv_def of_kind_snoc copied_size_snoc covers_section_def)
  ultimately show ?thesis by blast
qed

lemma convert_copied_ok:
  assumes "conv_inv X ds c" "sections_ok X (ds @ [s])" "40 + copied_size (ds @ [s]) \<le> room" "40 + copied_size (ds @ [s]) < 2 ^ 31"
    and sz: "s_size s \<noteq> 0" and k: "kind_of s = Text \<or> kind_of s = Data"
  shows "\<exists>c'. convert_section room s c = Inr c' \<and> conv_inv X (ds @ [s]) c'"
proof -
  let ?n = "40 + copied_size ds"
  from assms(1) obtain f where f: "contents (fdIn c) = X" "inNoffFile c = of_nat ?n" "noffMagic (noffH c) = NOFFMAGIC"
    "fdOut c = Some f" "offset f = int ?n" "max 40 (length (contents f)) = ?n"
    "holds_section X (contents f) (of_kind Text ds) (code (noffH c))"
    "holds_section X (contents f) (of_kind Data ds) (initData (noffH c))"
    "covers_section (of_kind Bss ds) (uninitData (noffH c))" unfolding conv_inv_def by blast
  have d: "copied_size (ds @ [s]) = copied_size ds + unat (s_size s)" using k sz by (auto simp: copied_size_snoc)
  have ins: "section_inside X s" using assms(2) k sz by (auto simp: sections_ok_def of_kind_snoc)
  have w: "inNoffFile c + s_size s = of_nat (40 + copied_size (ds @ [s]))" unfolding f(2) d by simp
  have r: "?n + unat (s_size s) \<le> room" using assms(3) d by simp
  have L: "length (contents f) \<le> ?n" using f(6) by simp
  let ?N = "write_at ?n (section_bytes X s) (contents f)"
  have l: "length (section_bytes X s) = unat (s_size s)" using ins by (simp add: section_bytes_def section_inside_def)
  have N: "max 40 (length ?N) = 40 + copied_size (ds @ [s])" using L l d by simp
  have new: "holds_section X ?N [s] (new_segment s c)" using assms(4) d by (intro new_segment_holds ins f(2)) (simp_all add: f(6))
  note keep = holds_section_write [OF f(7), of ?n "section_bytes X s"] holds_section_write [OF f(8), of ?n "section_bytes X s"]
  have ok: "\<exists>c'. copy_section room s (c\<lparr>noffH := H\<rparr>) = Inr c' \<and> conv_inv X (ds @ [s]) c'"
    if "noffMagic H = NOFFMAGIC" "holds_section X ?N (of_kind Text (ds @ [s])) (code H)"
      "holds_section X ?N (of_kind Data (ds @ [s])) (initData H)" "uninitData H = uninitData (noffH c)" for H
  proof -
    have "covers_section (of_kind Bss (ds @ [s])) (uninitData H)" using f(9) that(4) k by (auto simp: of_kind_snoc)
    then show ?thesis using copy_section_ok [of "c\<lparr>noffH := H\<rparr>" X s f ?n room] f(1,4,5) ins r that N w d
      by (auto simp: conv_inv_def)
  qed
  from k show ?thesis
  proof
    assume t: "kind_of s = Text"
    then have "of_kind Text ds = []" using assms(2) sz by (simp add: sections_ok_def of_kind_snoc)
    with t sz new keep L have "\<exists>c'. copy_section room s (c\<lparr>noffH := (noffH c)\<lparr>code := new_segment s c\<rparr>\<rparr>) = Inr c' \<and> conv_inv X (ds @ [s]) c'"
      by (intro ok) (simp_all add: f(3) of_kind_snoc)
    then show ?thesis using t sz by (simp add: convert_section_def kind_of_def split: if_splits)
  next
    assume t: "kind_of s = Data"
    then have e: "of_kind Data ds = []" using assms(2) sz by (simp add: sections_ok_def of_kind_snoc)
    with t sz new keep L have "\<exists>c'. copy_section room s (c\<lparr>noffH := (noffH c)\<lparr>initData := new_segment s c\<rparr>\<rparr>) = Inr c' \<and> conv_inv X (ds @ [s]) c'"
      by (intro ok) (simp_all add: f(3) of_kind_snoc)
    moreover have "seg_size (initData (noffH c)) = 0" using f(8) e by (simp add: holds_section_def)
    ultimately show ?thesis using t sz by (simp add: convert_section_def kind_of_def split: if_splits)
  qed
qed

lemma convert_section_ok:
  assumes "conv_inv X ds c" "sections_ok X (ds @ [s])" "40 + copied_size (ds @ [s]) \<le> room" "40 + copied_size (ds @ [s]) < 2 ^ 31"
  shows "\<exists>c'. convert_section room s c = Inr c' \<and> conv_inv X (ds @ [s]) c'"
proof (cases "s_size s = 0")
  case False
  then have "kind_of s \<noteq> Unknown" using assms(2) by (auto simp: sections_ok_def of_kind_snoc)
  then show ?thesis using convert_bss_ok [OF assms(1,2) False] convert_copied_ok [OF assms False] by (cases "kind_of s") auto
qed (use assms(1) convert_empty_ok in blast)

lemma sections_ok_prefix: "sections_ok X (ds @ ss) \<Longrightarrow> sections_ok X ds"
  by (auto simp: sections_ok_def of_kind_def)

lemma copied_size_append: "copied_size (ds @ ss) = copied_size ds + copied_size ss"
  by (simp add: copied_size_def of_kind_def)

lemma convert_sections_ok:
  assumes "conv_inv X ds c" "sections_ok X (ds @ ss)" "40 + copied_size (ds @ ss) \<le> room" "40 + copied_size (ds @ ss) < 2 ^ 31"
  shows "\<exists>c'. convert_sections room ss c = Inr c' \<and> conv_inv X (ds @ ss) c'"
  using assms
proof (induction ss arbitrary: ds c)
  case (Cons s ss)
  have a: "ds @ s # ss = (ds @ [s]) @ ss" by simp
  have "sections_ok X (ds @ [s])" using sections_ok_prefix [of X "ds @ [s]" ss] Cons.prems(2) by simp
  moreover have "40 + copied_size (ds @ [s]) \<le> room" "40 + copied_size (ds @ [s]) < 2 ^ 31"
    using Cons.prems(3,4) unfolding a copied_size_append [of "ds @ [s]" ss] by simp_all
  ultimately obtain c' where c': "convert_section room s c = Inr c'" "conv_inv X (ds @ [s]) c'"
    using convert_section_ok [OF Cons.prems(1)] by blast
  show ?case using Cons.IH [OF c'(2)] Cons.prems(2-4) c'(1) unfolding a by simp
qed simp

section \<open>The whole program\<close>

lemma long_at_swap:
  assumes "off + 4 \<le> length bs"
  shows "WordToHost be (long_at be off bs) = long_at False off bs"
proof -
  have "length (read_at off 4 bs) = 4" using assms by simp
  then obtain a b c d where e: "read_at off 4 bs = [a, b, c, d]" using list_of_4 by blast
  show ?thesis using host_word_swap [of be a b c d] by (simp add: long_at_def e host_word_def)
qed

lemma short_at_swap:
  assumes "off + 2 \<le> length bs"
  shows "ShortToHost be (short_at be off bs) = short_at False off bs"
proof -
  have "length (read_at off 2 bs) = 2" using assms by simp
  then obtain a b where e: "read_at off 2 bs = [a, b]" using list_of_2 by blast
  show ?thesis using host_short_swap [of be a b] by (simp add: short_at_def e host_short_def)
qed

lemma at_prefix:
  "off + 4 \<le> n \<Longrightarrow> long_at be off (read_at p n X) = long_at be off (drop p X)"
  "off + 2 \<le> n \<Longrightarrow> short_at be off (read_at p n X) = short_at be off (drop p X)"
  "off + m \<le> n \<Longrightarrow> read_at off m (read_at p n X) = read_at off m (drop p X)"
  by (simp_all add: long_at_def short_at_def read_at_def drop_take min_def)

text \<open>The converter looks at four fields of a section header only.\<close>

definition section_core :: "scnhdr \<Rightarrow> byte list \<times> 32 word \<times> 32 word \<times> 32 word" where
  "section_core s = (s_name s, s_paddr s, s_size s, s_scnptr s)"

lemma convert_sections_cong:
  "map section_core ss = map section_core ts \<Longrightarrow> convert_sections room ss c = convert_sections room ts c"
proof (induction ss arbitrary: ts c)
  case (Cons s ss)
  then obtain t us where t: "ts = t # us" "section_core s = section_core t" "map section_core ss = map section_core us" by (cases ts) auto
  have e: "s_name s = s_name t" "s_paddr s = s_paddr t" "s_size s = s_size t" "s_scnptr s = s_scnptr t"
    using t(2) by (simp_all add: section_core_def)
  have "convert_section room s c = convert_section room t c" for c
    unfolding convert_section_def copy_section_def new_segment_def e by (rule refl)
  then show ?case using Cons.IH [OF t(3)] t(1) by (metis convert_sections.simps(2) ext)
qed simp

lemma host_sections:
  assumes "76 + 40 * n \<le> length X"
  shows "map section_core (map (\<lambda>i. section_to_host be (scnhdr_at be i (read_at 76 (40 * n) X))) [0..<n]) =
         map section_core (map (\<lambda>i. scnhdr_at False i (drop 76 X)) [0..<n])"
proof -
  have "section_core (section_to_host be (scnhdr_at be i (read_at 76 (40 * n) X))) = section_core (scnhdr_at False i (drop 76 X))"
    if "i < n" for i
  proof -
    have i: "i * 40 + 40 \<le> n * 40" using that by simp
    then show ?thesis using assms
      by (simp add: section_core_def section_to_host_def scnhdr_at_def Let_def sizeof_scnhdr_def at_prefix long_at_swap)
  qed
  then show ?thesis by simp
qed

lemma host_word_bytes_inverse [simp]: "host_word be (host_word_bytes be w) = w" "length (host_word_bytes be w) = 4"
  using bytes_word_bytes [of w "[]"] by (simp_all add: host_word_def host_word_bytes_def)

lemma noff_roundtrip: "noff_of_bytes be (noff_bytes be H @ xs) = H"
  by (simp add: noff_of_bytes_def noff_bytes_def segment_at_def segment_bytes_def word_at_def read_at_def)

lemma length_noff_bytes [simp]: "length (noff_bytes be H) = 40"
  by (simp add: noff_bytes_def segment_bytes_def)

lemma conv_inv_initial:
  "conv_inv X [] \<lparr>fdIn = \<lparr>contents = X, offset = p\<rparr>, fdOut = Some \<lparr>contents = [], offset = 40\<rparr>, noffH = initial_noff junk, inNoffFile = 40\<rparr>"
  by (simp add: conv_inv_def of_kind_def copied_size_def holds_section_def covers_section_def initial_noff_def)

text \<open>The headers that are read are those of the file, whatever the byte order of the host.\<close>

definition headers_ok :: "byte list \<Rightarrow> bool" where
  "headers_ok X \<longleftrightarrow> 76 + 40 * unat (f_nscns (filehdr_at False X)) \<le> length X \<and> f_magic (filehdr_at False X) = MIPSELMAGIC \<and>
     aout_magic (aouthdr_at False (drop 20 X)) = OMAGIC"

lemma header_fields:
  assumes "76 \<le> length X"
  shows "ShortToHost be (f_magic (filehdr_at be (read_at 0 20 X))) = f_magic (filehdr_at False X)"
    "ShortToHost be (f_nscns (filehdr_at be (read_at 0 20 X))) = f_nscns (filehdr_at False X)"
    "ShortToHost be (aout_magic (aouthdr_at be (read_at 20 56 X))) = aout_magic (aouthdr_at False (drop 20 X))"
  using assms by (simp_all add: filehdr_at_def aouthdr_at_def at_prefix short_at_swap)

lemma Read_coff_inside:
  "p + n \<le> length X \<Longrightarrow> Read_coff (int n) \<lparr>contents = X, offset = int p\<rparr> = Inr (read_at p n X, \<lparr>contents = X, offset = int (p + n)\<rparr>)"
  by (simp add: Read_coff_def Let_def)

lemma Read_coff_outside: "length X < p + n \<Longrightarrow> 0 < n \<Longrightarrow> Read_coff (int n) \<lparr>contents = X, offset = int p\<rparr> = Inl TOO_SHORT"
  by (auto simp: Read_coff_def Let_def read_at_def)

lemma read_headers_iff:
  "\<exists>ss p. if headers_ok X
     then read_headers be \<lparr>contents = X, offset = 0\<rparr> = Inr (ss, \<lparr>contents = X, offset = p\<rparr>) \<and> map section_core ss = map section_core (coff_sections X)
     else \<exists>e. read_headers be \<lparr>contents = X, offset = 0\<rparr> = Inl e"
proof -
  let ?n = "unat (f_nscns (filehdr_at False X))"
  have r1: "Read_coff 20 \<lparr>contents = X, offset = 0\<rparr> = (if 20 \<le> length X then Inr (read_at 0 20 X, \<lparr>contents = X, offset = 20\<rparr>) else Inl TOO_SHORT)"
    using Read_coff_inside [of 0 20 X] Read_coff_outside [of X 0 20] by simp
  have r2: "Read_coff 56 \<lparr>contents = X, offset = 20\<rparr> = (if 76 \<le> length X then Inr (read_at 20 56 X, \<lparr>contents = X, offset = 76\<rparr>) else Inl TOO_SHORT)"
    using Read_coff_inside [of 20 56 X] Read_coff_outside [of X 20 56] by simp
  have r3: "Read_coff (int (?n * 40)) \<lparr>contents = X, offset = 76\<rparr> =
      (if 76 + 40 * ?n \<le> length X then Inr (read_at 76 (40 * ?n) X, \<lparr>contents = X, offset = int (76 + 40 * ?n)\<rparr>) else Inl TOO_SHORT)" if "76 \<le> length X"
    using Read_coff_inside [of 76 "?n * 40" X] Read_coff_outside [of X 76 "?n * 40"] that by (auto simp: mult.commute)
  show ?thesis
  proof (cases "76 \<le> length X")
    case False
    then show ?thesis by (auto simp: headers_ok_def read_headers_def coff_sizes r1 r2 Let_def)
  next
    case True
    show ?thesis using True r3 [OF True] host_sections [of ?n X be]
      by (auto simp: headers_ok_def read_headers_def coff_sizes r1 r2 Let_def header_fields [OF True] coff_sections_def)
  qed
qed

lemma read_headers_ok:
  assumes "headers_ok X"
  obtains ss p where "read_headers be \<lparr>contents = X, offset = 0\<rparr> = Inr (ss, \<lparr>contents = X, offset = p\<rparr>)"
    "map section_core ss = map section_core (coff_sections X)"
  using read_headers_iff [of X be] assms by auto

lemma coff2noff_ok:
  assumes "coff_ok X" "40 + copied_size (coff_sections X) \<le> room" "2 \<le> argc"
  shows "\<exists>N. coff2noff be room junk argc (Some X) True = Inr N \<and> length N = 40 + copied_size (coff_sections X) \<and>
     noffMagic (noff_of_bytes be N) = NOFFMAGIC \<and>
     holds_section X N (of_kind Text (coff_sections X)) (code (noff_of_bytes be N)) \<and>
     holds_section X N (of_kind Data (coff_sections X)) (initData (noff_of_bytes be N)) \<and>
     covers_section (of_kind Bss (coff_sections X)) (uninitData (noff_of_bytes be N))"
proof -
  have X: "headers_ok X" "sections_ok X (coff_sections X)" "40 + copied_size (coff_sections X) < 2 ^ 31"
    using assms(1) by (simp_all add: coff_ok_def headers_ok_def)
  from read_headers_ok [OF X(1)] obtain ss p where ss: "read_headers be \<lparr>contents = X, offset = 0\<rparr> = Inr (ss, \<lparr>contents = X, offset = p\<rparr>)"
    "map section_core ss = map section_core (coff_sections X)" .
  let ?c0 = "\<lparr>fdIn = \<lparr>contents = X, offset = p\<rparr>, fdOut = Some \<lparr>contents = [], offset = 40\<rparr>, noffH = initial_noff junk, inNoffFile = 40\<rparr>"
  from convert_sections_ok [OF conv_inv_initial, of X "coff_sections X" room p junk] X(2,3) assms(2)
  obtain c where c: "convert_sections room (coff_sections X) ?c0 = Inr c" "conv_inv X (coff_sections X) c" by fastforce
  from c(2) obtain f where f: "noffMagic (noffH c) = NOFFMAGIC" "fdOut c = Some f" "max 40 (length (contents f)) = 40 + copied_size (coff_sections X)"
    "holds_section X (contents f) (of_kind Text (coff_sections X)) (code (noffH c))"
    "holds_section X (contents f) (of_kind Data (coff_sections X)) (initData (noffH c))"
    "covers_section (of_kind Bss (coff_sections X)) (uninitData (noffH c))" unfolding conv_inv_def by blast
  let ?N = "write_at 0 (noff_bytes be (noffH c)) (contents f)"
  have "coff2noff be room junk argc (Some X) True = Inr ?N"
    using assms(2,3) ss(1) convert_sections_cong [OF ss(2)] c(1) f(2) unfolding coff2noff_def coff_sizes
    by (simp add: OpenForWrite_def unix_lseek_def Write_noff_def)
  moreover have "noff_of_bytes be ?N = noffH c" by (simp add: write_at_def noff_roundtrip)
  moreover have "length ?N = 40 + copied_size (coff_sections X)" using f(3) by simp
  ultimately show ?thesis using f(1,6) holds_section_write [OF f(4), of 0 "noff_bytes be (noffH c)"]
      holds_section_write [OF f(5), of 0 "noff_bytes be (noffH c)"] by simp
qed

section \<open>From the compiler to memory\<close>

definition sizes :: "scnhdr list \<Rightarrow> nat" where
  "sizes ss = sum_list (map (\<lambda>s. unat (s_size s)) ss)"

definition coff_pages :: "byte list \<Rightarrow> nat" where
  "coff_pages X = (sizes (of_kind Text (coff_sections X)) + sizes (of_kind Data (coff_sections X)) + sizes (of_kind Bss (coff_sections X)) + 127) div 128 + 8"

text \<open>The program fits into the memory of the machine, beside its stack.\<close>

definition coff_fits :: "byte list \<Rightarrow> bool" where
  "coff_fits X \<longleftrightarrow> coff_pages X \<le> NumPhysPages \<and>
     list_all (\<lambda>s. unat (s_paddr s) + unat (s_size s) \<le> coff_pages X * PageSize) (of_kind Text (coff_sections X) @ of_kind Data (coff_sections X))"

text \<open>The memory that the COFF file describes: its sections at their addresses, and zeros.\<close>

definition coff_image :: "byte list \<Rightarrow> byte list \<Rightarrow> byte list" where
  "coff_image X mem = fold (\<lambda>s. overlay (unat (s_paddr s)) (section_bytes X s)) (of_kind Text (coff_sections X) @ of_kind Data (coff_sections X))
     (write_at 0 (replicate (coff_pages X * PageSize) 0) mem)"

lemma holds_covers: "holds_section X N ss g \<Longrightarrow> covers_section ss g"
  by (cases ss) (simp_all add: holds_section_def covers_section_def)

lemma covers_sizes: "covers_section ss g \<Longrightarrow> length ss \<le> 1 \<Longrightarrow> unat (seg_size g) = sizes ss"
  by (cases ss) (simp_all add: covers_section_def sizes_def)

lemma holds_seg_ok:
  "holds_section X N ss g \<Longrightarrow> list_all (\<lambda>s. unat (s_paddr s) + unat (s_size s) \<le> n * PageSize) ss \<Longrightarrow> seg_ok n N g"
  by (cases ss) (auto simp: holds_section_def seg_ok_def)

lemma holds_overlay:
  "holds_section X N ss g \<Longrightarrow> length ss \<le> 1 \<Longrightarrow>
   overlay (unat (virtualAddr g)) (seg_bytes N g) mem = fold (\<lambda>s. overlay (unat (s_paddr s)) (section_bytes X s)) ss mem"
  by (cases ss) (auto simp: holds_section_def seg_bytes_def overlay_def read_at_def)

lemma converted_program:
  assumes "coff_ok X" "coff_fits X" "40 + copied_size (coff_sections X) \<le> room" "2 \<le> argc"
  shows "\<exists>N. coff2noff False room junk argc (Some X) True = Inr N \<and> noff_ok N \<and> page_count (noff_header N) = coff_pages X \<and>
     program_image N mem = coff_image X mem"
proof -
  let ?T = "of_kind Text (coff_sections X)" and ?D = "of_kind Data (coff_sections X)" and ?B = "of_kind Bss (coff_sections X)"
  from coff2noff_ok [OF assms(1,3,4), of False junk] obtain N where N:
    "coff2noff False room junk argc (Some X) True = Inr N" "length N = 40 + copied_size (coff_sections X)"
    "noffMagic (noff_header N) = NOFFMAGIC" "holds_section X N ?T (code (noff_header N))" "holds_section X N ?D (initData (noff_header N))"
    "covers_section ?B (uninitData (noff_header N))" unfolding noff_header_def by blast
  have one: "length ?T \<le> 1" "length ?D \<le> 1" "length ?B \<le> 1" using assms(1) by (simp_all add: coff_ok_def sections_ok_def)
  note z = covers_sizes [OF holds_covers [OF N(4)] one(1)] covers_sizes [OF holds_covers [OF N(5)] one(2)] covers_sizes [OF N(6) one(3)]
  have p: "page_count (noff_header N) = coff_pages X" unfolding page_count_def coff_pages_def z by simp
  have "coff_pages X \<le> 32" using assms(2) by (simp add: coff_fits_def machine_consts)
  then have "sizes ?T + sizes ?D + sizes ?B \<le> 24 * PageSize" unfolding coff_pages_def machine_consts by linarith
  moreover have "seg_ok (coff_pages X) N (code (noff_header N))" "seg_ok (coff_pages X) N (initData (noff_header N))"
    using holds_seg_ok [OF N(4)] holds_seg_ok [OF N(5)] assms(2) by (simp_all add: coff_fits_def)
  ultimately have "noff_ok N" unfolding noff_ok_def p z using N(2,3) by (simp add: sizeof_NoffHeader_def)
  moreover have "program_image N mem = coff_image X mem"
    using holds_overlay [OF N(4) one(1)] holds_overlay [OF N(5) one(2)] by (simp add: program_image_def coff_image_def Let_def p)
  ultimately show ?thesis using N(1) p by blast
qed

text \<open>
  C28: From the compiler's output to a running program. A well-formed COFF file that fits into memory
  is converted by \<open>coff2noff\<close>, whatever the uninitialised parts of its header hold; and when the
  file system holds the converted file, \<open>StartProcess\<close> runs the program in a memory in which the
  text and data sections of the COFF file stand at their addresses and the rest of its pages is
  zero, from address 0, in a state that satisfies the kernel's invariant.
\<close>

theorem coff_program_start:
  assumes "coff_ok X" "coff_fits X" "40 + copied_size (coff_sections X) \<le> room" "2 \<le> argc"
    "fs_ok (fileSys (rest s)) (kdisk (rest s))" "uninit_ok u" "is_name filename" "machine_ready (cpu s)"
  shows "\<exists>N. coff2noff False room junk argc (Some X) True = Inr N \<and>
     (user_files s (fkey filename) = Some N \<longrightarrow>
       (\<exists>s0. StartProcess h tick u j filename steps s = bind_result (Run h tick steps s0) (\<lambda>s. Inr (Some s)) \<and>
         sys_good (coff_pages X) s0 \<and> mainMemory (cpu s0) = coff_image X (mainMemory (cpu s)) \<and> reg (cpu s0) PCReg = 0))"
proof -
  from converted_program [OF assms(1-4), of junk "mainMemory (cpu s)"] obtain N where N: "coff2noff False room junk argc (Some X) True = Inr N"
    "noff_ok N" "page_count (noff_header N) = coff_pages X" "program_image N (mainMemory (cpu s)) = coff_image X (mainMemory (cpu s))" by blast
  show ?thesis using StartProcess_runs [OF assms(5-7) _ N(2) assms(8), of h tick j steps] N(1,3,4) by (intro exI [of _ N]) (simp, blast)
qed

text \<open>A COFF file with a \<open>.text\<close> section of 8 bytes and an empty \<open>.bss\<close> section.\<close>

definition sample_coff :: "byte list" where
  "sample_coff = [0x62, 1, 2, 0] @ replicate 16 0 @ [7, 1] @ replicate 54 0 @
     map of_char ''.text'' @ [0, 0, 0] @ [0, 0, 0, 0, 0, 0, 0, 0, 8, 0, 0, 0, 156, 0, 0, 0] @ replicate 16 0 @
     map of_char ''.bss'' @ replicate 36 0 @ replicate 8 0"

definition zero_noff :: NoffHeader where
  "zero_noff = (let z = \<lparr>virtualAddr = 0, inFileAddr = 0, seg_size = 0\<rparr> in \<lparr>noffMagic = 0, code = z, initData = z, uninitData = z\<rparr>)"

lemma sample_converted: "coff2noff False 100 zero_noff 3 (Some sample_coff) True = Inr sample_program"
  by code_simp

lemma sample_header: "length sample_coff = 164" "filehdr_at False sample_coff = \<lparr>f_magic = MIPSELMAGIC, f_nscns = 2, f_timdat = 0, f_symptr = 0, f_nsyms = 0, f_opthdr = 0, f_flags = 0\<rparr>"
  "aout_magic (aouthdr_at False (drop 20 sample_coff)) = OMAGIC"
  by code_simp+

definition sample_text :: scnhdr where
  "sample_text = \<lparr>s_name = map of_char ''.text'' @ [0, 0, 0], s_paddr = 0, s_vaddr = 0, s_size = 8, s_scnptr = 156, s_relptr = 0, s_lnnoptr = 0,
     s_nreloc = 0, s_nlnno = 0, s_flags = 0\<rparr>"

lemma sample_kinds: "of_kind Text (coff_sections sample_coff) = [sample_text]" "of_kind Data (coff_sections sample_coff) = []"
  "of_kind Bss (coff_sections sample_coff) = []" "of_kind Unknown (coff_sections sample_coff) = []"
  by code_simp+

lemma sample_coff_ok: "coff_ok sample_coff" "coff_fits sample_coff" "copied_size (coff_sections sample_coff) = 8" "coff_pages sample_coff = 9"
proof -
  show c: "copied_size (coff_sections sample_coff) = 8" by (simp add: copied_size_def sample_kinds sample_text_def)
  show p: "coff_pages sample_coff = 9" by (simp add: coff_pages_def sample_kinds sample_text_def sizes_def)
  show "coff_fits sample_coff" by (simp add: coff_fits_def p sample_kinds sample_text_def machine_consts)
  show "coff_ok sample_coff" by (simp add: coff_ok_def sample_header c sections_ok_def sample_kinds sample_text_def section_inside_def)
qed

theorem coff_program_start_witness:
  "coff_ok sample_coff \<and> coff_fits sample_coff \<and> coff2noff False 100 zero_noff 3 (Some sample_coff) True = Inr sample_program \<and>
   (\<exists>s s0. user_files s (fkey [65, 0]) = Some sample_program \<and>
     StartProcess (kernel_host 2 sample_env) quiet_tick zero_memory \<lparr>junk_words = (\<lambda>_. 1), junk_slots = (\<lambda>_. None), junk_header = (\<lambda>_. 1)\<rparr>
       [65, 0] 1 s = bind_result (Run (kernel_host 2 sample_env) quiet_tick 1 s0) (\<lambda>s. Inr (Some s)) \<and>
     mainMemory (cpu s0) = coff_image sample_coff (replicate MemorySize 65))"
proof -
  from sample_disk obtain fs d where fs: "fs_ok fs d" "files fs d (fkey [65, 0]) = Some sample_program" by blast
  let ?m = "\<lparr>mainMemory = replicate MemorySize 65, registers = replicate NumTotalRegs 1, tlb = None,
     pageTable = None, pageTableSize = 0, lastUsed = replicate NumPhysPages 0, singleStep = False\<rparr>"
  let ?s = "\<lparr>cpu = ?m, mode = SystemMode, clock = 0, rest = \<lparr>fileSys = fs, kdisk = d, space = None, screen = [], keyboard = []\<rparr>\<rparr>"
  have "is_name [65, 0]" "machine_ready ?m" by (simp_all add: readable_def machine_ready_def)
  then have "\<exists>N. coff2noff False 100 zero_noff 3 (Some sample_coff) True = Inr N \<and> (user_files ?s (fkey [65, 0]) = Some N \<longrightarrow>
      (\<exists>s0. StartProcess (kernel_host 2 sample_env) quiet_tick zero_memory \<lparr>junk_words = (\<lambda>_. 1), junk_slots = (\<lambda>_. None), junk_header = (\<lambda>_. 1)\<rparr>
         [65, 0] 1 ?s = bind_result (Run (kernel_host 2 sample_env) quiet_tick 1 s0) (\<lambda>s. Inr (Some s)) \<and>
       sys_good (coff_pages sample_coff) s0 \<and> mainMemory (cpu s0) = coff_image sample_coff (mainMemory (cpu ?s)) \<and> reg (cpu s0) PCReg = 0))"
    using sample_coff_ok fs(1) zero_memory_ok by (intro coff_program_start) simp_all
  moreover have "user_files ?s (fkey [65, 0]) = Some sample_program" using fs(2) by simp
  ultimately have "\<exists>s0. user_files ?s (fkey [65, 0]) = Some sample_program \<and>
     StartProcess (kernel_host 2 sample_env) quiet_tick zero_memory \<lparr>junk_words = (\<lambda>_. 1), junk_slots = (\<lambda>_. None), junk_header = (\<lambda>_. 1)\<rparr>
       [65, 0] 1 ?s = bind_result (Run (kernel_host 2 sample_env) quiet_tick 1 s0) (\<lambda>s. Inr (Some s)) \<and>
     mainMemory (cpu s0) = coff_image sample_coff (replicate MemorySize 65)" using sample_converted by auto
  then show ?thesis using sample_converted sample_coff_ok(1,2) by blast
qed

section \<open>Sections that the converter refuses\<close>

text \<open>
  C29: The test that two sections of uninitialised data are contiguous is inverted. After a nonempty
  \<open>.bss\<close> or \<open>.sbss\<close> section, a further one is refused exactly when it starts where the first ends;
  one that starts anywhere else is added to the segment, which then covers the addresses after the
  first section in place of those of the second.
\<close>

theorem bss_test_inverted:
  assumes "kind_of s = Bss" "kind_of t = Bss" "s_size s \<noteq> 0" "s_size t \<noteq> 0" "seg_size (uninitData (noffH c)) = 0"
  shows "convert_sections room [s, t] c =
     (if s_paddr t = s_paddr s + s_size s then Inl BSS_AND_SBSS
      else Inr (c\<lparr>noffH := (noffH c)\<lparr>uninitData := \<lparr>virtualAddr = s_paddr s, inFileAddr = inFileAddr (uninitData (noffH c)),
        seg_size = s_size s + s_size t\<rparr>\<rparr>\<rparr>))"
proof -
  have b: "(name_is (s_name x) ''.bss'' \<or> name_is (s_name x) ''.sbss'') \<and> \<not> name_is (s_name x) ''.text'' \<and> \<not> name_is (s_name x) ''.data'' \<and>
    \<not> name_is (s_name x) ''.rdata''" if "kind_of x = Bss" for x
    using that by (auto simp: kind_of_def split: if_splits)
  show ?thesis using b [OF assms(1)] b [OF assms(2)] assms(3-5) by (auto simp: convert_section_def Let_def)
qed

definition bss_at :: "32 word \<Rightarrow> 32 word \<Rightarrow> scnhdr" where
  "bss_at a n = \<lparr>s_name = map of_char ''.bss'' @ [0, 0, 0, 0], s_paddr = a, s_vaddr = a, s_size = n, s_scnptr = 0, s_relptr = 0, s_lnnoptr = 0,
     s_nreloc = 0, s_nlnno = 0, s_flags = 0\<rparr>"

definition empty_converter :: converter where
  "empty_converter = \<lparr>fdIn = \<lparr>contents = [], offset = 0\<rparr>, fdOut = None, noffH = zero_noff, inNoffFile = 40\<rparr>"

theorem bss_test_inverted_witness:
  "convert_sections 0 [bss_at 128 8, bss_at 136 8] empty_converter = Inl BSS_AND_SBSS \<and>
   (\<exists>c. convert_sections 0 [bss_at 128 8, bss_at 256 8] empty_converter = Inr c \<and>
     virtualAddr (uninitData (noffH c)) = 128 \<and> seg_size (uninitData (noffH c)) = 16)"
proof -
  have k: "kind_of (bss_at a n) = Bss" for a n by (simp add: kind_of_def bss_at_def name_is_def)
  have z: "seg_size (uninitData (noffH empty_converter)) = 0" by (simp add: empty_converter_def zero_noff_def Let_def)
  show ?thesis using bss_test_inverted [OF k k _ _ z, of 128 8 136 8 0] bss_test_inverted [OF k k _ _ z, of 128 8 256 8 0]
    by (simp add: bss_at_def)
qed

lemma copy_section_result:
  assumes "copy_section room s c = Inr c'"
  shows "noffH c' = noffH c" "fdOut c \<noteq> None" "fdOut c' \<noteq> None"
proof -
  from assms obtain bs fi fo where "Read_coff (sint (s_size s)) (unix_lseek (sint (s_scnptr s)) (fdIn c)) = Inr (bs, fi)"
    "Write_noff room bs (fdOut c) = Inr fo" "c' = c\<lparr>fdIn := fi, fdOut := fo, inNoffFile := inNoffFile c + s_size s\<rparr>"
    by (cases "Read_coff (sint (s_size s)) (unix_lseek (sint (s_scnptr s)) (fdIn c))"; cases "Write_noff room (fst (projr (Read_coff (sint (s_size s)) (unix_lseek (sint (s_scnptr s)) (fdIn c))))) (fdOut c)")
       (auto simp: copy_section_def)
  then show "noffH c' = noffH c" "fdOut c \<noteq> None" "fdOut c' \<noteq> None"
    by (auto simp: Write_noff_def split: option.splits if_splits)
qed

lemma convert_section_result:
  assumes "convert_section room s c = Inr c'"
  shows "of_kind Unknown [s] = []" "of_kind Data [s] \<noteq> [] \<Longrightarrow> seg_size (initData (noffH c)) = 0 \<and> seg_size (initData (noffH c')) \<noteq> 0"
    "of_kind Data [s] = [] \<Longrightarrow> initData (noffH c') = initData (noffH c)" "noffMagic (noffH c') = noffMagic (noffH c)"
    "fdOut c = None \<Longrightarrow> fdOut c' = None"
  using assms copy_section_result(1) [of room s]
  by (auto simp: convert_section_def of_kind_def kind_of_def new_segment_def Let_def dest: copy_section_result(2) split: if_splits)

lemma convert_sections_result:
  assumes "convert_sections room ss c = Inr c'"
  shows "of_kind Unknown ss = [] \<and> length (of_kind Data ss) \<le> (if seg_size (initData (noffH c)) = 0 then 1 else 0) \<and>
     noffMagic (noffH c') = noffMagic (noffH c) \<and> (fdOut c = None \<longrightarrow> fdOut c' = None)"
  using assms
proof (induction ss arbitrary: c)
  case (Cons s ss)
  then obtain c1 where c1: "convert_section room s c = Inr c1" "convert_sections room ss c1 = Inr c'" by (cases "convert_section room s c") auto
  have a: "of_kind k (s # ss) = of_kind k [s] @ of_kind k ss" for k by (simp add: of_kind_def)
  have "length (of_kind Data [s]) \<le> 1" by (simp add: of_kind_def)
  with Cons.IH [OF c1(2)] convert_section_result [OF c1(1)] show ?case unfolding a by (cases "of_kind Data [s] = []") auto
qed (simp add: of_kind_def)

lemma of_kind_core:
  "map section_core ss = map section_core ts \<Longrightarrow> map section_core (of_kind k ss) = map section_core (of_kind k ts)"
proof (induction ss arbitrary: ts)
  case (Cons s ss)
  then obtain t us where t: "ts = t # us" "section_core s = section_core t" "map section_core ss = map section_core us" by (cases ts) auto
  have "s_size s = s_size t \<and> kind_of s = kind_of t" using t(2) by (simp add: section_core_def kind_of_def)
  with Cons.IH [OF t(3)] t(1,2) show ?case by (simp add: of_kind_def)
qed simp

text \<open>
  What the converter accepts. If it produces a file, there were arguments, both files could be
  opened (although the code tests the wrong descriptor for the output), the input has both magic
  numbers and is long enough for all its section headers, none of its nonempty sections has an
  unknown name and at most one of them holds initialised data; and the output has the magic number
  that the loader asserts. In all other cases the program ends with an error.
\<close>

theorem coff2noff_accepts:
  assumes "coff2noff be room junk argc coff writable = Inr N"
  shows "\<exists>X. coff = Some X \<and> writable \<and> 2 \<le> argc \<and> headers_ok X \<and> of_kind Unknown (coff_sections X) = [] \<and>
     length (of_kind Data (coff_sections X)) \<le> 1 \<and> noffMagic (noff_of_bytes be N) = NOFFMAGIC"
proof -
  from assms obtain X where X: "coff = Some X" "2 \<le> argc" by (cases coff) (auto simp: coff2noff_def split: if_splits)
  have ok: "headers_ok X" using assms X read_headers_iff [of X be] by (auto simp: coff2noff_def split: if_splits)
  from read_headers_ok [OF ok] obtain ss p where ss: "read_headers be \<lparr>contents = X, offset = 0\<rparr> = Inr (ss, \<lparr>contents = X, offset = p\<rparr>)"
    "map section_core ss = map section_core (coff_sections X)" .
  let ?c0 = "\<lparr>fdIn = \<lparr>contents = X, offset = p\<rparr>, fdOut = map_option (unix_lseek 40) (if writable then Some OpenForWrite else None),
     noffH = initial_noff junk, inNoffFile = 40\<rparr>"
  from assms X ss(1) obtain c where c: "convert_sections room ss ?c0 = Inr c"
    "bind_sum (Write_noff room (noff_bytes be (noffH c)) (map_option (unix_lseek 0) (fdOut c))) (\<lambda>fo.
       Inr (case fo of Some f \<Rightarrow> contents f | None \<Rightarrow> [])) = Inr N"
    by (cases "convert_sections room ss ?c0") (simp_all add: coff2noff_def coff_sizes Let_def)
  note R = convert_sections_result [OF c(1)]
  from c(2) obtain f where f: "fdOut c = Some f" "N = write_at 0 (noff_bytes be (noffH c)) (contents f)"
    by (auto simp: Write_noff_def unix_lseek_def split: option.splits if_splits)
  have "noffMagic (noff_of_bytes be N) = NOFFMAGIC"
    using R unfolding f(2) by (simp add: write_at_def noff_roundtrip initial_noff_def)
  moreover have "writable" using R f(1) by (cases writable) auto
  moreover have "of_kind Unknown (coff_sections X) = []" "length (of_kind Data (coff_sections X)) \<le> 1"
    using R of_kind_core [OF ss(2), of Unknown] map_eq_imp_length_eq [OF of_kind_core [OF ss(2), of Data]] by (auto simp: initial_noff_def)
  ultimately show ?thesis using X ok by blast
qed

theorem coff2noff_accepts_witness:
  "coff2noff False 100 zero_noff 3 (Some sample_coff) True = Inr sample_program \<and> headers_ok sample_coff \<and>
   noffMagic (noff_of_bytes False sample_program) = NOFFMAGIC"
  using coff2noff_accepts [OF sample_converted] sample_converted by simp

end
