(* ===== verification/Coff_To_Flat.thy ===== *)
theory Coff_To_Flat
  imports Coff_To_Noff
begin

text \<open>
  The other converter of the tools (\<open>bin/coff2flat.c\<close>), which writes the sections of a COFF file one
  after the other into a file that is to be copied to memory as it is. It reads the structures
  as the host lays them out, which the theory \<open>Coff_To_Noff\<close> describes (the program includes the
  header files of the host for them), without any conversion of the byte order.

  The lemmas give the file that it makes, and show that the sections stand in it at their addresses
  if they follow each other from address 0 on.
\<close>

section \<open>The program\<close>

definition StackSize :: "32 word" where "StackSize = 1024"

record flattener =
  flatIn :: UnixFile
  flatOut :: "UnixFile option"
  top :: "32 word"

text \<open>One section; \<open>top\<close> is the end of the last one in memory.\<close>

definition flatten_section :: "nat \<Rightarrow> scnhdr \<Rightarrow> flattener \<Rightarrow> coff_exit + flattener" where
  "flatten_section room s c =
     (let c = (if sint (s_paddr s + s_size s) > sint (top c) then c\<lparr>top := s_paddr s + s_size s\<rparr> else c)
      in if \<not> name_is (s_name s) ''.bss'' \<and> \<not> name_is (s_name s) ''.sbss'' then
           bind_sum (Read_coff (sint (s_size s)) (unix_lseek (sint (s_scnptr s)) (flatIn c))) (\<lambda>(buffer, fi).
           bind_sum (Write_noff room buffer (flatOut c)) (\<lambda>fo. Inr (c\<lparr>flatIn := fi, flatOut := fo\<rparr>)))
         else Inr c)"

fun flatten_sections :: "nat \<Rightarrow> scnhdr list \<Rightarrow> flattener \<Rightarrow> coff_exit + flattener" where
  "flatten_sections room [] c = Inr c"
| "flatten_sections room (s # ss) c = bind_sum (flatten_section room s c) (flatten_sections room ss)"

text \<open>The headers, in the byte order of the host.\<close>

definition flat_headers :: "bool \<Rightarrow> UnixFile \<Rightarrow> coff_exit + (scnhdr list \<times> UnixFile)" where
  "flat_headers be fi =
     bind_sum (Read_coff (int sizeof_filehdr) fi) (\<lambda>(bs, fi).
       let fileh = filehdr_at be bs
       in if f_magic fileh \<noteq> MIPSELMAGIC then Inl NOT_MIPSEL
          else bind_sum (Read_coff (int sizeof_aouthdr) fi) (\<lambda>(bs, fi).
            if aout_magic (aouthdr_at be bs) \<noteq> OMAGIC then Inl NOT_OMAGIC
            else let numsections = unat (f_nscns fileh)
                 in bind_sum (Read_coff (int (numsections * sizeof_scnhdr)) fi) (\<lambda>(bs, fi).
                      Inr (map (\<lambda>i. scnhdr_at be i bs) [0..<numsections], fi))))"

text \<open>\<open>main\<close>, with the arguments of \<open>coff2noff\<close>: the file that is read and whether the other could be opened.\<close>

definition coff2flat :: "bool \<Rightarrow> nat \<Rightarrow> int \<Rightarrow> byte list option \<Rightarrow> bool \<Rightarrow> coff_exit + byte list" where
  "coff2flat be room argc coff writable =
     (if argc < 2 then Inl USAGE
      else case coff of
        None \<Rightarrow> Inl NO_COFF_FILE
      | Some X \<Rightarrow>
          let fo = (if writable then Some OpenForWrite else None)
          in bind_sum (flat_headers be \<lparr>contents = X, offset = 0\<rparr>) (\<lambda>(sections, fi).
             bind_sum (flatten_sections room sections \<lparr>flatIn = fi, flatOut = fo, top = 0\<rparr>) (\<lambda>c.
             bind_sum (Write_noff room [0, 0, 0, 0] (map_option (unix_lseek (sint (top c + StackSize - 4))) (flatOut c))) (\<lambda>fo.
               Inr (case fo of Some f \<Rightarrow> contents f | None \<Rightarrow> [])))))"

section \<open>The flat file\<close>

definition is_bss :: "scnhdr \<Rightarrow> bool" where
  "is_bss s \<longleftrightarrow> name_is (s_name s) ''.bss'' \<or> name_is (s_name s) ''.sbss''"

definition flat_part :: "byte list \<Rightarrow> scnhdr list \<Rightarrow> byte list" where
  "flat_part X ss = concat (map (section_bytes X) (filter (\<lambda>s. \<not> is_bss s) ss))"

definition section_end :: "scnhdr \<Rightarrow> nat" where
  "section_end s = unat (s_paddr s) + unat (s_size s)"

definition flat_top :: "scnhdr list \<Rightarrow> nat" where
  "flat_top ss = fold (\<lambda>s t. max t (section_end s)) ss 0"

text \<open>Sections that lie inside of the file and of the first two gigabytes of memory.\<close>

definition flat_ok :: "byte list \<Rightarrow> scnhdr list \<Rightarrow> bool" where
  "flat_ok X ss \<longleftrightarrow> list_all (\<lambda>s. section_end s < 2 ^ 30 \<and> (\<not> is_bss s \<longrightarrow> section_inside X s)) ss"

lemma small_word:
  assumes "n < 2 ^ 31"
  shows "unat (of_nat n :: 32 word) = n" "sint (of_nat n :: 32 word) = int n"
proof -
  show u: "unat (of_nat n :: 32 word) = n" using assms by (simp add: unat_of_nat)
  show "sint (of_nat n :: 32 word) = int n" using assms u unfolding sint_uint32 by (simp add: uint_nat del: of_nat_unat)
qed

lemma flatten_section_ok:
  assumes "contents (flatIn c) = X" "flatOut c = Some \<lparr>contents = N, offset = int (length N)\<rparr>" "top c = of_nat t" "t < 2 ^ 30"
    "section_end s < 2 ^ 30" "\<not> is_bss s \<longrightarrow> section_inside X s" "length N + length (flat_part X [s]) \<le> room"
  shows "\<exists>c'. flatten_section room s c = Inr c' \<and> contents (flatIn c') = X \<and>
     flatOut c' = Some \<lparr>contents = N @ flat_part X [s], offset = int (length (N @ flat_part X [s]))\<rparr> \<and> top c' = of_nat (max t (section_end s))"
proof -
  have i: "sint (of_nat n :: 32 word) = int n" if "n < 2 ^ 30" for n using that by (intro small_word) simp
  have e: "s_paddr s + s_size s = of_nat (section_end s)" by (simp add: section_end_def)
  let ?c = "if sint (s_paddr s + s_size s) > sint (top c) then c\<lparr>top := s_paddr s + s_size s\<rparr> else c"
  have tp: "top ?c = of_nat (max t (section_end s))" "flatIn ?c = flatIn c" "flatOut ?c = flatOut c"
    using assms(3) i [OF assms(4)] i [OF assms(5)] unfolding e by (auto simp: max_def)
  show ?thesis
  proof (cases "is_bss s")
    case True
    then show ?thesis using tp assms(1,2) by (auto simp: flatten_section_def Let_def is_bss_def flat_part_def)
  next
    case False
    with assms(6) have s: "section_inside X s" by simp
    have z: "nat (sint (s_size s)) = unat (s_size s)" "nat (sint (s_scnptr s)) = unat (s_scnptr s)" "sint (s_size s) = uint (s_size s)"
      using s nat_sint [of "s_size s"] nat_sint [of "s_scnptr s"] sint_uint32 [of "s_size s"] uint_range [of "s_size s"]
      by (simp_all add: section_inside_def split: if_splits)
    have l: "length (section_bytes X s) = unat (s_size s)" "flat_part X [s] = section_bytes X s"
      using s False by (simp_all add: section_bytes_def section_inside_def flat_part_def)
    obtain p where "Read_coff (sint (s_size s)) (unix_lseek (sint (s_scnptr s)) (flatIn c)) = Inr (section_bytes X s, \<lparr>contents = X, offset = p\<rparr>)"
      using s z l(1) assms(1) by (cases "flatIn c") (auto simp: Read_coff_def unix_lseek_def section_inside_def section_bytes_def Let_def)
    moreover have "Write_noff room (section_bytes X s) (flatOut c) =
        Inr (Some \<lparr>contents = N @ section_bytes X s, offset = int (length (N @ section_bytes X s))\<rparr>)"
      using assms(2,7) l by (simp add: Write_noff_def write_at_def)
    ultimately show ?thesis using tp False l by (auto simp: flatten_section_def Let_def is_bss_def)
  qed
qed

lemma flatten_sections_ok:
  assumes "contents (flatIn c) = X" "flatOut c = Some \<lparr>contents = N, offset = int (length N)\<rparr>" "top c = of_nat t" "t < 2 ^ 30"
    "flat_ok X ss" "length N + length (flat_part X ss) \<le> room"
  shows "\<exists>c'. flatten_sections room ss c = Inr c' \<and>
     flatOut c' = Some \<lparr>contents = N @ flat_part X ss, offset = int (length (N @ flat_part X ss))\<rparr> \<and>
     top c' = of_nat (fold (\<lambda>s t. max t (section_end s)) ss t) \<and> fold (\<lambda>s t. max t (section_end s)) ss t < 2 ^ 30"
  using assms
proof (induction ss arbitrary: c N t)
  case Nil
  then show ?case by (auto simp: flat_part_def)
next
  case (Cons s ss)
  have p: "flat_part X (s # ss) = flat_part X [s] @ flat_part X ss" by (simp add: flat_part_def)
  have "section_end s < 2 ^ 30" "\<not> is_bss s \<longrightarrow> section_inside X s" "length N + length (flat_part X [s]) \<le> room" and ok: "flat_ok X ss"
    using Cons.prems(5,6) p by (simp_all add: flat_ok_def)
  note one = this
  from flatten_section_ok [OF Cons.prems(1-4) one(1-3)] obtain c' where
    c': "flatten_section room s c = Inr c'" "contents (flatIn c') = X"
      "flatOut c' = Some \<lparr>contents = N @ flat_part X [s], offset = int (length (N @ flat_part X [s]))\<rparr>" "top c' = of_nat (max t (section_end s))" by blast
  have "max t (section_end s) < 2 ^ 30" "length (N @ flat_part X [s]) + length (flat_part X ss) \<le> room"
    using Cons.prems(4,6) one(1) p by simp_all
  from Cons.IH [OF c'(2-4) this(1) ok this(2)] show ?case using c'(1) by (simp add: p)
qed

lemma flat_headers_ok:
  assumes "headers_ok X"
  shows "\<exists>p. flat_headers False \<lparr>contents = X, offset = 0\<rparr> = Inr (coff_sections X, \<lparr>contents = X, offset = p\<rparr>)"
proof -
  let ?n = "unat (f_nscns (filehdr_at False X))"
  have l: "76 + 40 * ?n \<le> length X" "76 \<le> length X" using assms by (simp_all add: headers_ok_def)
  have r: "Read_coff 20 \<lparr>contents = X, offset = 0\<rparr> = Inr (read_at 0 20 X, \<lparr>contents = X, offset = 20\<rparr>)"
    "Read_coff 56 \<lparr>contents = X, offset = 20\<rparr> = Inr (read_at 20 56 X, \<lparr>contents = X, offset = 76\<rparr>)"
    "Read_coff (int (?n * 40)) \<lparr>contents = X, offset = 76\<rparr> = Inr (read_at 76 (?n * 40) X, \<lparr>contents = X, offset = int (76 + ?n * 40)\<rparr>)"
    using Read_coff_inside [of 0 20 X] Read_coff_inside [of 20 56 X] Read_coff_inside [of 76 "?n * 40" X] l by (simp_all add: mult.commute)
  have f: "f_magic (filehdr_at False (read_at 0 20 X)) = MIPSELMAGIC" "f_nscns (filehdr_at False (read_at 0 20 X)) = f_nscns (filehdr_at False X)"
    "aout_magic (aouthdr_at False (read_at 20 56 X)) = OMAGIC"
    using header_fields [OF l(2), of False] assms by (simp_all add: headers_ok_def ShortToHost_def)
  have "scnhdr_at False i (read_at 76 (?n * 40) X) = scnhdr_at False i (drop 76 X)" if "i < ?n" for i
  proof -
    have "i * 40 + 40 \<le> ?n * 40" using that by simp
    then show ?thesis using l by (simp add: scnhdr_at_def Let_def sizeof_scnhdr_def at_prefix)
  qed
  then show ?thesis using r f by (simp add: flat_headers_def coff_sizes Let_def coff_sections_def)
qed

lemma write_behind: "length N \<le> p \<Longrightarrow> write_at p bs N = N @ replicate (p - length N) 0 @ bs"
  by (simp add: write_at_def)

lemma coff2flat_ok:
  assumes "headers_ok X" "flat_ok X (coff_sections X)" "length (flat_part X (coff_sections X)) \<le> flat_top (coff_sections X) + 1020"
    "flat_top (coff_sections X) + 1024 \<le> room" "2 \<le> argc"
  shows "coff2flat False room argc (Some X) True =
     Inr (flat_part X (coff_sections X) @ replicate (flat_top (coff_sections X) + 1024 - length (flat_part X (coff_sections X))) 0)"
proof -
  let ?ss = "coff_sections X"
  let ?N = "flat_part X ?ss" and ?t = "flat_top ?ss"
  from flat_headers_ok [OF assms(1)] obtain p where
    h: "flat_headers False \<lparr>contents = X, offset = 0\<rparr> = Inr (?ss, \<lparr>contents = X, offset = p\<rparr>)" by blast
  let ?c = "\<lparr>flatIn = \<lparr>contents = X, offset = p\<rparr>, flatOut = Some OpenForWrite, top = 0\<rparr>"
  have "length ?N \<le> room" using assms(3,4) by simp
  with flatten_sections_ok [of ?c X "[]" 0 ?ss room] assms(2) obtain c where
    c: "flatten_sections room ?ss ?c = Inr c" "flatOut c = Some \<lparr>contents = ?N, offset = int (length ?N)\<rparr>" "top c = of_nat ?t" "?t < 2 ^ 30"
    by (auto simp: OpenForWrite_def flat_top_def)
  have "top c + StackSize - 4 = of_nat (?t + 1020)" by (simp add: c(3) StackSize_def)
  moreover have "sint (of_nat (?t + 1020) :: 32 word) = int (?t + 1020)" by (rule small_word(2)) (use c(4) in simp)
  ultimately have i: "sint (top c + StackSize - 4) = int (?t + 1020)" by metis
  have z: "replicate (?t + 1024 - length ?N) (0 :: byte) = replicate (?t + 1020 - length ?N) 0 @ [0, 0, 0, 0]"
  proof -
    have "?t + 1024 - length ?N = (?t + 1020 - length ?N) + 4" using assms(3) by simp
    moreover have "[0, 0, 0, 0] = replicate 4 (0 :: byte)" by (simp add: numeral_eq_Suc)
    ultimately show ?thesis by (simp only: replicate_add)
  qed
  have n: "nat (int ?t + 1020) = ?t + 1020" by simp
  show ?thesis
    using assms(3-5) h c(1,2) i write_behind [OF assms(3), of "[0, 0, 0, 0]"] unfolding z by (simp add: coff2flat_def unix_lseek_def Write_noff_def n)
qed

text \<open>Sections that are copied follow each other in memory, from address \<open>a\<close> on.\<close>

fun laid_out :: "nat \<Rightarrow> scnhdr list \<Rightarrow> bool" where
  "laid_out a [] = True"
| "laid_out a (s # ss) \<longleftrightarrow> unat (s_paddr s) = a \<and> laid_out (section_end s) ss"

lemma laid_out_reads:
  assumes "laid_out (length P) ss" "list_all (section_inside X) ss" "s \<in> set ss"
  shows "read_at (unat (s_paddr s)) (unat (s_size s)) (P @ concat (map (section_bytes X) ss) @ zs) = section_bytes X s"
  using assms
proof (induction ss arbitrary: P)
  case (Cons t ss)
  have l: "length (section_bytes X t) = unat (s_size t)" using Cons.prems(2) by (simp add: section_bytes_def section_inside_def)
  have p: "unat (s_paddr t) = length P" "laid_out (length (P @ section_bytes X t)) ss" using Cons.prems(1) l by (auto simp: section_end_def)
  show ?case
  proof (cases "s \<in> set ss")
    case True
    from Cons.IH [OF p(2) _ this] Cons.prems(2) show ?thesis by simp
  next
    case False
    then have "s = t" using Cons.prems(3) by simp
    then show ?thesis using p(1) l by (simp add: read_at_def)
  qed
qed simp

lemma laid_out_size:
  assumes "laid_out a ss" "list_all (section_inside X) ss"
  shows "a + length (concat (map (section_bytes X) ss)) = (if ss = [] then a else section_end (last ss))"
  using assms
proof (induction ss arbitrary: a)
  case (Cons s ss)
  then have "length (section_bytes X s) = unat (s_size s)" by (simp add: section_bytes_def section_inside_def)
  with Cons.IH [of "section_end s"] Cons.prems show ?case by (auto simp: section_end_def)
qed simp

lemma flat_top_ge: "s \<in> set ss \<Longrightarrow> section_end s \<le> flat_top ss"
proof -
  have "t \<le> fold (\<lambda>s t. max t (section_end s)) ss t \<and> (\<forall>s \<in> set ss. section_end s \<le> fold (\<lambda>s t. max t (section_end s)) ss t)" for t
  proof (induction ss arbitrary: t)
    case (Cons x ss)
    from Cons.IH [of "max t (section_end x)"] show ?case by auto
  qed simp
  then show "s \<in> set ss \<Longrightarrow> ?thesis" by (auto simp: flat_top_def)
qed

text \<open>
  The flat file is an image of memory if the sections follow each other from address 0 on. Then the
  converter succeeds, the file ends 1024 bytes, the size of the stack, behind the end of the last
  section, every section that is copied stands in the file at its address, and what comes behind
  these sections is zero. The converter itself never looks at the addresses of the sections when
  it writes them.
\<close>

theorem flat_image:
  assumes "headers_ok X" "flat_ok X (coff_sections X)" "laid_out 0 (filter (\<lambda>s. \<not> is_bss s) (coff_sections X))"
    "flat_top (coff_sections X) + 1024 \<le> room" "2 \<le> argc"
  shows "\<exists>N. coff2flat False room argc (Some X) True = Inr N \<and> length N = flat_top (coff_sections X) + 1024 \<and>
     (\<forall>s \<in> set (coff_sections X). \<not> is_bss s \<longrightarrow> read_at (unat (s_paddr s)) (unat (s_size s)) N = section_bytes X s) \<and>
     (\<forall>a. length (flat_part X (coff_sections X)) \<le> a \<and> a < length N \<longrightarrow> N ! a = 0)"
proof -
  let ?ss = "coff_sections X" let ?cs = "filter (\<lambda>s. \<not> is_bss s) ?ss" let ?N = "flat_part X ?ss"
  have ins: "list_all (section_inside X) ?cs" using assms(2) by (auto simp: flat_ok_def list_all_iff)
  have l: "length ?N \<le> flat_top ?ss"
  proof (cases "?cs = []")
    case False
    then have "last ?cs \<in> set ?ss" using last_in_set [OF False] by simp
    then show ?thesis using laid_out_size [OF assms(3) ins] False flat_top_ge by (simp add: flat_part_def)
  qed (simp add: flat_part_def)
  let ?F = "?N @ replicate (flat_top ?ss + 1024 - length ?N) (0 :: byte)"
  have "coff2flat False room argc (Some X) True = Inr ?F" using coff2flat_ok [OF assms(1,2) _ assms(4,5)] l by simp
  moreover have "read_at (unat (s_paddr s)) (unat (s_size s)) ?F = section_bytes X s" if "s \<in> set ?ss" "\<not> is_bss s" for s
    using laid_out_reads [of "[]" ?cs X s "replicate (flat_top ?ss + 1024 - length ?N) 0"] assms(3) ins that by (simp add: flat_part_def)
  moreover have "?F ! a = 0" if "length ?N \<le> a" "a < length ?F" for a using that by (simp add: nth_append)
  ultimately show ?thesis using l by (intro exI [of _ ?F]) simp
qed

theorem flat_image_witness:
  "\<exists>N. coff2flat False 2000 3 (Some sample_coff) True = Inr N \<and> length N = 1032"
proof -
  have "headers_ok sample_coff" by (simp add: headers_ok_def sample_header)
  moreover have c: "coff_sections sample_coff = [sample_text, sample_text\<lparr>s_name := map of_char ''.bss'' @ [0, 0, 0, 0], s_size := 0, s_scnptr := 0\<rparr>]"
    by code_simp
  have "flat_ok sample_coff (coff_sections sample_coff)" "laid_out 0 (filter (\<lambda>s. \<not> is_bss s) (coff_sections sample_coff))"
    "flat_top (coff_sections sample_coff) = 8"
    unfolding c by (simp_all add: flat_ok_def flat_top_def section_end_def is_bss_def name_is_def sample_text_def section_inside_def sample_header(1))
  ultimately show ?thesis using flat_image [of sample_coff 2000 3] by auto
qed

end
