(* ===== verification/Mips_Interpreter.thy ===== *)
theory Mips_Interpreter
  imports Mips_Sim
begin

text \<open>
  The stand-alone interpreter for MIPS programs (\<open>bin/execute.c\<close> with the memory accesses of
  \<open>bin/int.h\<close>, the fields of \<open>bin/instr.h\<close> and the system calls of \<open>bin/system.c\<close>), a second
  implementation of the instructions that \<open>machine/mipssim.cc\<close> simulates.

  The state is the record \<open>interp\<close>: the general registers, \<open>HI\<close> and \<open>LO\<close>, the memory and the two
  program counters. A step ends with the next state or with a \<open>halt\<close>: the calls of \<open>exit\<close>, and
  \<open>CRASH\<close> for what C leaves undefined (a division by zero, a shift by 32 or more, an access
  outside of \<open>mem\<close> or that is not aligned). Tracing and statistics print only and are left out.

  The lemmas show for which instructions the interpreter and the simulation of Nachos do the
  same, step for step, and how they differ on the others.
\<close>

unbundle bit_operations_syntax

section \<open>The interpreter\<close>

definition MEMSIZE :: int where "MEMSIZE = 2 ^ 24"
definition memoffset :: int where "memoffset = 0x10000000"

record interp =
  Reg :: "32 word list"
  HI :: "32 word"
  LO :: "32 word"
  mem :: "byte list"
  pc :: "32 word"
  npc :: "32 word"

type_synonym unix = "int \<Rightarrow> 32 word \<Rightarrow> 32 word \<Rightarrow> 32 word \<Rightarrow> byte list \<Rightarrow> 32 word \<times> byte list"

datatype halt = UNIMPLEMENTED | NO_COPROCESSORS | EXIT_0 | UNKNOWN_SYSTEM_CALL | CRASH

text \<open>The fields of an instruction.\<close>

definition f_rd :: "32 word \<Rightarrow> nat" where "f_rd i = unat (drop_bit 11 i AND 0x1f)"
definition f_rt :: "32 word \<Rightarrow> nat" where "f_rt i = unat (drop_bit 16 i AND 0x1f)"
definition f_rs :: "32 word \<Rightarrow> nat" where "f_rs i = unat (drop_bit 21 i AND 0x1f)"
definition shamt :: "32 word \<Rightarrow> nat" where "shamt i = unat (drop_bit 6 i AND 0x1f)"

definition immed :: "32 word \<Rightarrow> 32 word" where
  "immed i = (if i AND 0x8000 \<noteq> 0 then i OR 0xffff8000 else i AND 0x7fff)"

text \<open>\<open>(mem-memoffset)[addr]\<close> for an object of \<open>n\<close> bytes.\<close>

definition mem_index :: "32 word \<Rightarrow> nat \<Rightarrow> interp \<Rightarrow> halt + nat" where
  "mem_index addr n st = (let p = sint addr - memoffset in
     if p < 0 \<or> p + int n > int (length (mem st)) \<or> p mod int n \<noteq> 0 then Inl CRASH else Inr (nat p))"

definition fetch_bytes :: "32 word \<Rightarrow> nat \<Rightarrow> interp \<Rightarrow> halt + byte list" where
  "fetch_bytes addr n st = bind_sum (mem_index addr n st) (\<lambda>p. Inr (read_at p n (mem st)))"

definition store_bytes :: "32 word \<Rightarrow> byte list \<Rightarrow> interp \<Rightarrow> halt + interp" where
  "store_bytes addr bs st = bind_sum (mem_index addr (length bs) st) (\<lambda>p. Inr (st\<lparr>mem := write_at p bs (mem st)\<rparr>))"

definition fetch :: "bool \<Rightarrow> 32 word \<Rightarrow> interp \<Rightarrow> halt + 32 word" where
  "fetch be addr st = bind_sum (fetch_bytes addr 4 st) (\<lambda>bs. Inr (host_word be bs))"
definition sfetch :: "bool \<Rightarrow> 32 word \<Rightarrow> interp \<Rightarrow> halt + 32 word" where
  "sfetch be addr st = bind_sum (fetch_bytes addr 2 st) (\<lambda>bs. Inr (scast (host_short be bs)))"
definition usfetch :: "bool \<Rightarrow> 32 word \<Rightarrow> interp \<Rightarrow> halt + 32 word" where
  "usfetch be addr st = bind_sum (fetch_bytes addr 2 st) (\<lambda>bs. Inr (ucast (host_short be bs)))"
definition cfetch :: "32 word \<Rightarrow> interp \<Rightarrow> halt + 32 word" where
  "cfetch addr st = bind_sum (fetch_bytes addr 1 st) (\<lambda>bs. Inr (scast (bs ! 0)))"
definition ucfetch :: "32 word \<Rightarrow> interp \<Rightarrow> halt + 32 word" where
  "ucfetch addr st = bind_sum (fetch_bytes addr 1 st) (\<lambda>bs. Inr (ucast (bs ! 0)))"

definition store_int :: "bool \<Rightarrow> 32 word \<Rightarrow> 32 word \<Rightarrow> interp \<Rightarrow> halt + interp" where
  "store_int be addr i st = store_bytes addr (host_word_bytes be i) st"
definition sstore :: "bool \<Rightarrow> 32 word \<Rightarrow> 32 word \<Rightarrow> interp \<Rightarrow> halt + interp" where
  "sstore be addr i st = store_bytes addr (host_short_bytes be (ucast i)) st"
definition cstore :: "32 word \<Rightarrow> 32 word \<Rightarrow> interp \<Rightarrow> halt + interp" where
  "cstore addr i st = store_bytes addr [ucast i] st"

definition set_Reg :: "nat \<Rightarrow> 32 word \<Rightarrow> interp \<Rightarrow> interp" where
  "set_Reg d v st = st\<lparr>Reg := (Reg st)[d := v]\<rparr>"

text \<open>
  \<open>system_trap\<close> of \<open>bin/system.c\<close>, with the numbers of the calls from its comments. \<open>unix n o0 o1 o2\<close>
  is the system of the host: the value that call \<open>n\<close> returns and the memory that it leaves.
\<close>

definition system_trap :: "unix \<Rightarrow> interp \<Rightarrow> halt + interp" where
  "system_trap unix st =
     (let no = sint (Reg st ! 2); o0 = Reg st ! 4; o1 = Reg st ! 5; o2 = Reg st ! 6;
          call = (\<lambda>o1. let (r, m) = unix no o0 o1 o2 (mem st) in set_Reg 1 r (st\<lparr>mem := m\<rparr>))
      in if no = 1 then Inl EXIT_0
         else if no = 3 \<or> no = 4 \<or> no = 5 then Inr (call o1)
         else if no = 6 then Inr (set_Reg 1 0 st)
         else if no = 17 then Inr (set_Reg 1 (word_of_int ((sint o0 sdiv 8192 + 1) * 8192)) st)
         else if no = 19 then Inr (call o1)
         else if no = 54 then
           (let size = signed_drop_bit 16 o1 AND 0x7f; ioctl_group = signed_drop_bit 8 o1 AND 0xff;
                o1 = (if ioctl_group = 0x74 \<and> size = 8 then (o1 AND NOT (push_bit 16 0x7f)) OR push_bit 16 6 else o1)
            in Inr (set_Reg 1 0 (call o1)))
         else if no = 62 \<or> no = 64 then Inr (call o1)
         else Inl UNKNOWN_SYSTEM_CALL)"

text \<open>\<open>MULT\<close> and \<open>MULTU\<close>: the high word is put together from products of half words.\<close>

definition halves_high :: "32 word \<Rightarrow> 32 word \<Rightarrow> 32 word" where
  "halves_high t1 t2 =
     (let t1l = t1 AND 0xffff; t1h = signed_drop_bit 16 t1 AND 0xffff; t2l = t2 AND 0xffff; t2h = signed_drop_bit 16 t2 AND 0xffff
      in t1h * t2h + signed_drop_bit 16 (t1h * t2l) + signed_drop_bit 16 (t2h * t1l))"

definition exec_mult :: "32 word \<Rightarrow> 32 word \<Rightarrow> 32 word \<times> 32 word" where
  "exec_mult a b =
     (let neg = ((sint a < 0) \<noteq> (sint b < 0));
          t1 = (if sint a < 0 then - a else a); t2 = (if sint b < 0 then - b else b);
          lo = t1 * t2; hi = halves_high t1 t2
      in if neg then (let lo' = NOT lo + 1 in (if lo' = 0 then NOT hi + 1 else NOT hi, lo')) else (hi, lo))"

text \<open>The instructions with operation code \<open>I_SPECIAL\<close>. \<open>xpc\<close> is the address of the instruction.\<close>

definition exec_special :: "unix \<Rightarrow> 32 word \<Rightarrow> 32 word \<Rightarrow> interp \<Rightarrow> halt + interp" where
  "exec_special unix i xpc st =
     (let a = Reg st ! f_rs i; b = Reg st ! f_rt i; f = unat (i AND 0x3f);
          RD = (\<lambda>v. Inr (set_Reg (f_rd i) v st));
          shift = (\<lambda>g. if uint a < 32 then RD (g (unat a) b) else Inl CRASH)
      in if f = 0 then RD (push_bit (shamt i) b)
         else if f = 2 then RD (drop_bit (shamt i) b)
         else if f = 3 then RD (signed_drop_bit (shamt i) b)
         else if f = 4 then shift push_bit
         else if f = 6 then shift drop_bit
         else if f = 7 then shift signed_drop_bit
         else if f = 8 then Inr (st\<lparr>npc := a\<rparr>)
         else if f = 9 then Inr (set_Reg (f_rd i) (xpc + 8) (st\<lparr>npc := a\<rparr>))
         else if f = 12 \<or> f = 13 then system_trap unix st
         else if f = 16 then RD (HI st)
         else if f = 17 then Inr (st\<lparr>HI := a\<rparr>)
         else if f = 18 then RD (LO st)
         else if f = 19 then Inr (st\<lparr>LO := a\<rparr>)
         else if f = 24 then (let (hi, lo) = exec_mult a b in Inr (st\<lparr>HI := hi, LO := lo\<rparr>))
         else if f = 25 then Inr (st\<lparr>HI := halves_high a b, LO := a * b\<rparr>)
         else if f = 26 then
           (if b = 0 \<or> (sint a = - (2 ^ 31) \<and> sint b = - 1) then Inl CRASH
            else Inr (st\<lparr>HI := word_of_int (sint a smod sint b), LO := word_of_int (sint a sdiv sint b)\<rparr>))
         else if f = 27 then (if b = 0 then Inl CRASH else Inr (st\<lparr>HI := a mod b, LO := a div b\<rparr>))
         else if f = 32 \<or> f = 33 then RD (a + b)
         else if f = 34 \<or> f = 35 then RD (a - b)
         else if f = 36 then RD (a AND b)
         else if f = 37 then RD (a OR b)
         else if f = 38 then RD (a XOR b)
         else if f = 39 then RD (NOT (a OR b))
         else if f = 42 then RD (if sint a < sint b then 1 else 0)
         else if f = 43 then RD (if a < b then 1 else 0)
         else Inl UNIMPLEMENTED)"

definition branch_to :: "bool \<Rightarrow> 32 word \<Rightarrow> 32 word \<Rightarrow> interp \<Rightarrow> interp" where
  "branch_to c i xpc st = (if c then st\<lparr>npc := xpc + 4 + push_bit 2 (immed i)\<rparr> else st)"

definition exec_bcond :: "32 word \<Rightarrow> 32 word \<Rightarrow> interp \<Rightarrow> halt + interp" where
  "exec_bcond i xpc st =
     (let link = set_Reg 31 (xpc + 8) st
      in if f_rt i = 0 then Inr (branch_to (sint (Reg st ! f_rs i) < 0) i xpc st)
         else if f_rt i = 1 then Inr (branch_to (sint (Reg st ! f_rs i) \<ge> 0) i xpc st)
         else if f_rt i = 16 then Inr (branch_to (sint (Reg link ! f_rs i) < 0) i xpc link)
         else if f_rt i = 17 then Inr (branch_to (sint (Reg link ! f_rs i) \<ge> 0) i xpc link)
         else Inl UNIMPLEMENTED)"

definition jump_target :: "32 word \<Rightarrow> 32 word \<Rightarrow> 32 word" where
  "jump_target i xpc = (xpc AND 0xf0000000) OR push_bit 2 (i AND 0x03ffffff)"

text \<open>Loads and stores; \<open>-1 >> n\<close> on \<open>int\<close> is -1 again.\<close>

definition exec_memory :: "bool \<Rightarrow> nat \<Rightarrow> 32 word \<Rightarrow> interp \<Rightarrow> halt + interp" where
  "exec_memory be opc i st =
     (let a = Reg st ! f_rs i + immed i; b = Reg st ! f_rt i;
          RT = (\<lambda>m. bind_sum m (\<lambda>v. Inr (set_Reg (f_rt i) v st)));
          k = 8 * unat (a AND 0x03); k' = 8 * unat (- a AND 0x03)
      in if opc = 32 then RT (cfetch a st)
         else if opc = 33 then RT (sfetch be a st)
         else if opc = 34 then
           RT (bind_sum (fetch be (a AND 0xfffffffc) st) (\<lambda>v. Inr ((b AND signed_drop_bit k' (- 1)) OR push_bit k v)))
         else if opc = 35 then RT (fetch be a st)
         else if opc = 36 then RT (ucfetch a st)
         else if opc = 37 then RT (usfetch be a st)
         else if opc = 38 then
           RT (bind_sum (fetch be (a AND 0xfffffffc) st) (\<lambda>v.
             Inr ((if a AND 0x03 = 0 then 0 else b AND push_bit k (- 1)) OR signed_drop_bit k' v)))
         else if opc = 40 then cstore a b st
         else if opc = 41 then sstore be a b st
         else if opc = 43 then store_int be a b st
         else Inl UNIMPLEMENTED)"

definition exec_op :: "unix \<Rightarrow> bool \<Rightarrow> 32 word \<Rightarrow> 32 word \<Rightarrow> interp \<Rightarrow> halt + interp" where
  "exec_op unix be i xpc st =
     (let opc = unat (drop_bit 26 i AND 0x3f); a = Reg st ! f_rs i; b = Reg st ! f_rt i; e = immed i;
          RT = (\<lambda>v. Inr (set_Reg (f_rt i) v st))
      in if opc = 0 then exec_special unix i xpc st
         else if opc = 1 then exec_bcond i xpc st
         else if opc = 2 then Inr (st\<lparr>npc := jump_target i xpc\<rparr>)
         else if opc = 3 then Inr (set_Reg 31 (xpc + 8) (st\<lparr>npc := jump_target i xpc\<rparr>))
         else if opc = 4 then Inr (branch_to (a = b) i xpc st)
         else if opc = 5 then Inr (branch_to (a \<noteq> b) i xpc st)
         else if opc = 6 then Inr (branch_to (sint a \<le> 0) i xpc st)
         else if opc = 7 then Inr (branch_to (sint a > 0) i xpc st)
         else if opc = 8 \<or> opc = 9 then RT (a + e)
         else if opc = 10 then RT (if sint a < sint e then 1 else 0)
         else if opc = 11 then RT (if a < e then 1 else 0)
         else if opc = 12 then RT (a AND e)
         else if opc = 13 then RT (a OR e)
         else if opc = 14 then RT (a XOR e)
         else if opc = 15 then RT (push_bit 16 i)
         else if opc \<in> {48, 49, 50, 51, 56, 57, 58, 59, 16, 17, 18, 19} then Inl NO_COPROCESSORS
         else exec_memory be opc i st)"

text \<open>One round of the loop of \<open>runprogram\<close>.\<close>

definition interp_step :: "unix \<Rightarrow> bool \<Rightarrow> interp \<Rightarrow> halt + interp" where
  "interp_step unix be st =
     (let xpc = pc st; st = st\<lparr>pc := npc st, npc := npc st + 4\<rparr>
      in bind_sum (fetch be xpc st) (\<lambda>instr.
           let st = set_Reg 0 0 st
           in if instr \<noteq> 0 then exec_op unix be instr xpc st else Inr st))"

text \<open>The set-up of the stack with the arguments, and the loop, of which \<open>n\<close> rounds are looked at.\<close>

fun setup_args :: "bool \<Rightarrow> byte list list \<Rightarrow> 32 word \<Rightarrow> 32 word \<Rightarrow> interp \<Rightarrow> halt + interp" where
  "setup_args be [] aci ai st = Inr st"
| "setup_args be (a # argv) aci ai st =
     (let p = sint ai - memoffset; bs = a @ [0]
      in if p < 0 \<or> p + int (length bs) > int (length (mem st)) then Inl CRASH
         else bind_sum (store_int be aci ai (st\<lparr>mem := write_at (nat p) bs (mem st)\<rparr>))
                (setup_args be argv (aci + 4) (ai + of_nat (length a) + 1)))"

fun interp_loop :: "unix \<Rightarrow> bool \<Rightarrow> nat \<Rightarrow> interp \<Rightarrow> halt + interp" where
  "interp_loop unix be 0 st = Inr st"
| "interp_loop unix be (Suc n) st = bind_sum (interp_step unix be st) (interp_loop unix be n)"

definition runprogram :: "unix \<Rightarrow> bool \<Rightarrow> 32 word \<Rightarrow> byte list list \<Rightarrow> nat \<Rightarrow> interp \<Rightarrow> halt + interp" where
  "runprogram unix be startpc argv n st =
     (let i = word_of_int (MEMSIZE - 1024 + memoffset);
          st = set_Reg 29 i (st\<lparr>pc := startpc, npc := startpc + 4\<rparr>)
      in bind_sum (store_int be i (of_nat (length argv)) st) (\<lambda>st.
         bind_sum (setup_args be argv (i + 4) (i + 4 + 32) st) (interp_loop unix be n)))"

text \<open>\<open>ilog2\<close>, whose five lines have the shape \<open>if ((j=(i&m)) != 0) { i = j; l += n; }\<close>.\<close>

definition ilog2_step :: "32 word \<Rightarrow> nat \<Rightarrow> 32 word \<times> nat \<Rightarrow> 32 word \<times> nat" where
  "ilog2_step m n = (\<lambda>(i, l). let j = i AND m in if j \<noteq> 0 then (j, l + n) else (i, l))"

definition ilog2 :: "32 word \<Rightarrow> nat" where
  "ilog2 i =
     (if i = 0 then 0
      else snd (ilog2_step 0xaaaaaaaa 1 (ilog2_step 0xcccccccc 2 (ilog2_step 0xf0f0f0f0 4 (ilog2_step 0xff00ff00 8
             (ilog2_step 0xffff0000 16 (i, 1)))))))"

section \<open>The interpreter and the simulation of Nachos\<close>

text \<open>The states of both in front of an instruction; a delayed load must not be pending.\<close>

definition same_regs :: "Machine \<Rightarrow> interp \<Rightarrow> bool" where
  "same_regs m st \<longleftrightarrow> length (registers m) = 40 \<and> length (Reg st) = 32 \<and> (\<forall>i \<in> {1..<32}. reg m i = Reg st ! i) \<and>
     reg m HiReg = HI st \<and> reg m LoReg = LO st \<and> reg m LoadReg = 0"

definition simulates :: "Machine \<Rightarrow> interp \<Rightarrow> bool" where
  "simulates m st \<longleftrightarrow> same_regs m st \<and> reg m 0 = 0 \<and> reg m PCReg = pc st \<and> reg m NextPCReg = npc st"

text \<open>
  The instructions that both do alike, given the registers: those that compute without an overflow
  and with an amount, a divisor or an immediate operand that both treat the same way, and branches
  and jumps that do not stand behind another one.
\<close>

definition alike_special :: "32 word \<Rightarrow> interp \<Rightarrow> bool" where
  "alike_special i st \<longleftrightarrow> (let f = unat (i AND 0x3f); a = Reg st ! f_rs i; b = Reg st ! f_rt i in
     f \<in> {0, 3, 8, 16, 17, 18, 19, 33, 35, 36, 38, 39, 42, 43} \<or>
     f \<in> {4, 7} \<and> uint a < 32 \<or>
     f = 9 \<and> npc st = pc st + 4 \<and> f_rd i \<noteq> f_rs i \<or>
     f = 26 \<and> b \<noteq> 0 \<and> \<not> (sint a = - (2 ^ 31) \<and> sint b = - 1) \<or>
     f = 27 \<and> b \<noteq> 0 \<or>
     f = 32 \<and> in_int (sint a + sint b) \<or>
     f = 34 \<and> in_int (sint a - sint b))"

definition alike :: "32 word \<Rightarrow> interp \<Rightarrow> bool" where
  "alike i st \<longleftrightarrow> (let opc = unat (drop_bit 26 i AND 0x3f); st = set_Reg 0 0 st in
     opc = 0 \<and> alike_special i st \<or>
     opc = 1 \<and> f_rt i \<in> {0, 1, 16, 17} \<and> npc st = pc st + 4 \<or>
     opc \<in> {2, 3} \<and> npc st = pc st + 4 \<and> (pc st + 8) AND 0xf0000000 = pc st AND 0xf0000000 \<or>
     opc \<in> {4, 5, 6, 7} \<and> npc st = pc st + 4 \<or>
     opc = 8 \<and> in_int (sint (Reg st ! f_rs i) + sint (immed i)) \<or>
     opc \<in> {9, 10, 11, 15} \<or>
     opc \<in> {12, 13, 14} \<and> i AND 0x8000 = 0)"

lemma field_range: "f_rs i < 32" "f_rt i < 32" "f_rd i < 32"
  by (simp_all add: f_rs_def f_rt_def f_rd_def and_mask_less)

lemma Decode_fields: "rs (Decode i) = f_rs i" "rt (Decode i) = f_rt i" "rd (Decode i) = f_rd i"
  by (simp_all add: Decode_def Let_def f_rs_def f_rt_def f_rd_def split: prod.split)

lemma masks32:
  "(0x8000 :: 32 word) = push_bit 15 1" "(0xffff :: 32 word) = mask 16" "(0x7fff :: 32 word) = mask 15"
  "(0xffff8000 :: 32 word) = NOT (mask 15)" "(0xffff0000 :: 32 word) = NOT (mask 16)"
  by (simp_all add: mask_eq_exp_minus_1)

lemma bit15: "(i :: 32 word) AND 0x8000 \<noteq> 0 \<longleftrightarrow> bit i 15"
  unfolding masks32 by (metis and_exp_eq_0_iff_not_bit push_bit_of_1)

lemma immed_bits: "bit (immed i) n \<longleftrightarrow> n < 32 \<and> (if n < 15 then bit i n else bit i 15)"
  by (auto simp: immed_def bit15 masks32(3,4) bit_simps dest: bit_imp_le_length)
     (metis bit_imp_le_length linorder_neqE_nat le_antisym not_less)?

lemma immed_extra: "(let e = i AND 0xffff in if e AND 0x8000 \<noteq> 0 then e OR 0xffff0000 else e) = immed i"
proof (rule bit_word_eqI)
  fix n assume n: "n < LENGTH(32)"
  have e: "bit (i AND 0xffff) n \<longleftrightarrow> n < 16 \<and> bit i n" for n unfolding masks32(2) by (auto simp: bit_simps dest: bit_imp_le_length)
  have h: "bit (0xffff0000 :: 32 word) n \<longleftrightarrow> 16 \<le> n" using n unfolding masks32(5) by (auto simp: bit_simps)
  consider "n < 15" | "n = 15" | "16 \<le> n" by linarith
  then show "bit (let e = i AND 0xffff in if e AND 0x8000 \<noteq> 0 then e OR 0xffff0000 else e) n = bit (immed i) n"
    using n h e [of n] e [of 15] unfolding immed_bits Let_def bit15 by cases (simp_all add: bit_or_iff)
qed

lemma Decode_special:
  assumes "unat (drop_bit 26 i AND 0x3f) = 0"
  shows "opCode (Decode i) = specialTable ! unat (i AND 0x3f)" "extra (Decode i) = drop_bit 6 i AND 0x1f"
  using assms by (simp_all add: Decode_def Let_def opTable_def)

lemma Decode_immediate:
  assumes "opTable ! unat (drop_bit 26 i AND 0x3f) = (c, IFMT)" "c \<noteq> SPECIAL" "c \<noteq> BCOND"
  shows "opCode (Decode i) = c" "extra (Decode i) = immed i"
  using assms immed_extra [of i] by (simp_all add: Decode_def Let_def)

definition matched :: "'k system \<Rightarrow> interp \<Rightarrow> 'k after result \<Rightarrow> halt + interp \<Rightarrow> bool" where
  "matched s st r q \<longleftrightarrow> (\<exists>s' st'. r = Inr (Break s' (npc st') 0 0) \<and> q = Inr st' \<and> same_regs (cpu s') st' \<and> pc st' = pc st \<and>
     reg (cpu s') PCReg = reg (cpu s) PCReg \<and> reg (cpu s') NextPCReg = reg (cpu s) NextPCReg)"

lemma same_regs_set: "same_regs m st \<Longrightarrow> d < 32 \<Longrightarrow> same_regs (set_reg d v m) (set_Reg d v st)"
  by (auto simp: same_regs_def set_Reg_def reg_consts nth_list_update)

lemma same_regs_npc: "same_regs m (st\<lparr>npc := x\<rparr>) \<longleftrightarrow> same_regs m st"
  by (simp add: same_regs_def)

lemma matched_set:
  "same_regs (cpu s) st \<Longrightarrow> d < 32 \<Longrightarrow> matched s st (Inr (Break (upd d v s) (npc st) 0 0)) (Inr (set_Reg d v st))"
  using same_regs_set [of "cpu s" st d v] unfolding matched_def by (auto simp: reg_consts set_Reg_def)

lemma matched_hilo:
  "same_regs (cpu s) st \<Longrightarrow> matched s st (Inr (Break (upd HiReg x (upd LoReg y s)) (npc st) 0 0)) (Inr (st\<lparr>HI := x, LO := y\<rparr>))"
  by (auto simp: matched_def same_regs_def reg_consts nth_list_update)

lemma exec_alu_op:
  "opCode i \<in> alu_ops \<Longrightarrow> exec h i s = Inr (Break (s\<lparr>cpu := exec_alu i (cpu s)\<rparr>) (reg (cpu s) NextPCReg + 4) 0 0)"
  by (auto simp: exec_def alu_ops_def branches_def Let_def)

text \<open>The states with which both execute the instruction \<open>i\<close> at \<open>xpc\<close>.\<close>

definition issued :: "'k system \<Rightarrow> 32 word \<Rightarrow> interp \<Rightarrow> bool" where
  "issued s xpc st \<longleftrightarrow> same_regs (cpu s) st \<and> reg (cpu s) 0 = Reg st ! 0 \<and> reg (cpu s) PCReg = xpc \<and> pc st = reg (cpu s) NextPCReg \<and>
     reg (cpu s) NextPCReg + 4 = npc st"

lemma issued_regs: "issued s xpc st \<Longrightarrow> k < 32 \<Longrightarrow> reg (cpu s) k = Reg st ! k"
  by (cases k) (auto simp: issued_def same_regs_def)

lemma issued_operands:
  assumes "issued s xpc st"
  shows "reg (cpu s) (f_rs i) = Reg st ! f_rs i" "reg (cpu s) (f_rt i) = Reg st ! f_rt i" "reg (cpu s) HiReg = HI st" "reg (cpu s) LoReg = LO st"
    "reg (cpu s) NextPCReg + 4 = npc st" "same_regs (cpu s) st"
  using issued_regs [OF assms] field_range assms by (auto simp: issued_def same_regs_def)

lemma special_table:
  "specialTable ! 0 = OP_SLL" "specialTable ! 3 = OP_SRA" "specialTable ! 4 = OP_SLLV" "specialTable ! 7 = OP_SRAV" "specialTable ! 8 = OP_JR"
  "specialTable ! 9 = OP_JALR" "specialTable ! 16 = OP_MFHI" "specialTable ! 17 = OP_MTHI" "specialTable ! 18 = OP_MFLO"
  "specialTable ! 19 = OP_MTLO" "specialTable ! 26 = OP_DIV" "specialTable ! 27 = OP_DIVU" "specialTable ! 32 = OP_ADD"
  "specialTable ! 33 = OP_ADDU" "specialTable ! 34 = OP_SUB" "specialTable ! 35 = OP_SUBU" "specialTable ! 36 = OP_AND"
  "specialTable ! 38 = OP_XOR" "specialTable ! 39 = OP_NOR" "specialTable ! 42 = OP_SLT" "specialTable ! 43 = OP_SLTU"
  by (simp_all add: specialTable_def)

lemma special_alu:
  assumes "issued s xpc st" "unat (drop_bit 26 i AND 0x3f) = 0" "unat (i AND 0x3f) \<in> {0, 3, 16, 18, 33, 35, 36, 38, 39, 42, 43}"
  shows "matched s st (exec h (Decode i) s) (exec_special unix i xpc st)"
  using assms(3) issued_operands(1,2) [OF assms(1), of i] issued_operands(3-6) [OF assms(1)] matched_set [OF issued_operands(6) [OF assms(1)] field_range(3), of i]
  by (elim insertE emptyE)
    (simp_all add: Decode_special [OF assms(2)] special_table exec_alu_op alu_ops_def exec_alu_def exec_special_def Let_def Decode_fields shamt_def)

lemma and_1f: "uint a < 32 \<Longrightarrow> (a :: 32 word) AND 0x1f = a"
proof -
  assume "uint a < 32"
  have m: "(0x1f :: 32 word) = mask 5" by (simp add: mask_eq_exp_minus_1)
  have "uint (take_bit 5 a) = uint a" using \<open>uint a < 32\<close> by (simp add: unsigned_take_bit_eq take_bit_int_eq_self)
  then show ?thesis unfolding m take_bit_eq_mask [symmetric] by (rule unsigned_word_eqI)
qed

lemma special_rest:
  assumes "issued s xpc st" "unat (drop_bit 26 i AND 0x3f) = 0" "alike_special i st" "unat (i AND 0x3f) \<in> {4, 7, 17, 19, 26, 27, 32, 34}"
  shows "matched s st (exec h (Decode i) s) (exec_special unix i xpc st)"
proof -
  note O = issued_operands(1,2) [OF assms(1), of i] issued_operands(3-6) [OF assms(1)] and D = Decode_special [OF assms(2)] special_table Decode_fields
  note M = matched_set [OF O(6) field_range(3), of i] matched_hilo [OF O(6)]
  have hi: "matched s st (Inr (Break (upd HiReg x s) (npc st) 0 0)) (Inr (st\<lparr>HI := x\<rparr>))"
    "matched s st (Inr (Break (upd LoReg x s) (npc st) 0 0)) (Inr (st\<lparr>LO := x\<rparr>))" for x
    using O(6) by (auto simp: matched_def same_regs_def reg_consts nth_list_update)
  note A = add_overflow_iff sub_overflow_iff
  from assms(4) consider "unat (i AND 0x3f) \<in> {4, 7}" | "unat (i AND 0x3f) \<in> {17, 19}" | "unat (i AND 0x3f) \<in> {26, 27}" | "unat (i AND 0x3f) \<in> {32, 34}"
    by auto
  then show ?thesis
  proof cases
    case 1
    then show ?thesis using assms(3) O(1-5) M(1)
      by (elim insertE emptyE) (simp_all add: alike_special_def Let_def D exec_alu_op alu_ops_def exec_alu_def exec_special_def and_1f)
  next
    case 2
    then show ?thesis using O(1-5) hi
      by (elim insertE emptyE) (simp_all add: D exec_alu_op alu_ops_def exec_alu_def exec_special_def Let_def)
  next
    case 3
    then show ?thesis using assms(3) O(1-5) M(2)
      by (elim insertE emptyE) (auto simp: alike_special_def Let_def D exec_alu_op alu_ops_def exec_alu_def exec_special_def
          exec_def branches_def loads_def stores_def exec_div_def)
  next
    case 4
    then show ?thesis using assms(3) O(1-5) M(1) A
      by (elim insertE emptyE) (simp_all add: alike_special_def Let_def D exec_def alu_ops_def branches_def loads_def stores_def exec_add_def exec_special_def)
  qed
qed

text \<open>Branches and jumps, with or without a link in register 31 or \<open>rd\<close>.\<close>

lemma matched_jump: "same_regs (cpu s) st \<Longrightarrow> matched s st (Inr (Break s x 0 0)) (Inr (st\<lparr>npc := x\<rparr>))"
  by (auto simp: matched_def same_regs_npc)

lemma matched_link:
  "same_regs (cpu s) st \<Longrightarrow> d < 32 \<Longrightarrow> matched s st (Inr (Break (upd d v s) x 0 0)) (Inr ((set_Reg d v st)\<lparr>npc := x\<rparr>))"
  using same_regs_set [of "cpu s" st d v] unfolding matched_def by (auto simp: reg_consts set_Reg_def same_regs_npc)

lemma branch_to_eq: "branch_to c i xpc st = st\<lparr>npc := (if c then xpc + 4 + push_bit 2 (immed i) else npc st)\<rparr>"
  by (simp add: branch_to_def)

lemma exec_branch_op:
  "opCode i \<in> branches \<Longrightarrow> exec h i s = (let (m', pc) = exec_branch i (cpu s) in Inr (Break (s\<lparr>cpu := m'\<rparr>) pc 0 0))"
  by (simp add: exec_def Let_def)

lemma issued_next: "issued s xpc st \<Longrightarrow> pc st = xpc + 4 \<Longrightarrow> npc st = xpc + 8 \<and> reg (cpu s) NextPCReg = xpc + 4"
proof -
  assume a: "issued s xpc st" "pc st = xpc + 4"
  then have "npc st = xpc + 4 + 4" "reg (cpu s) NextPCReg = xpc + 4" unfolding issued_def by metis+
  then show ?thesis by simp
qed

lemma special_jump:
  assumes "issued s xpc st" "unat (drop_bit 26 i AND 0x3f) = 0"
    "unat (i AND 0x3f) = 8 \<or> unat (i AND 0x3f) = 9 \<and> pc st = xpc + 4 \<and> f_rd i \<noteq> f_rs i"
  shows "matched s st (exec h (Decode i) s) (exec_special unix i xpc st)"
proof -
  note O = issued_operands(1,2) [OF assms(1), of i] issued_operands(3-6) [OF assms(1)]
  note D = Decode_special [OF assms(2)] special_table Decode_fields
  from assms(3) show ?thesis
  proof
    assume "unat (i AND 0x3f) = 8"
    then show ?thesis using matched_jump [OF O(6)] O(1) by (simp add: exec_branch_op D branches_def exec_branch_def exec_special_def Let_def)
  next
    assume f: "unat (i AND 0x3f) = 9 \<and> pc st = xpc + 4 \<and> f_rd i \<noteq> f_rs i"
    then have l: "xpc + 8 = npc st" using issued_next [OF assms(1)] by simp
    have e: "set_Reg (f_rd i) v (st\<lparr>npc := x\<rparr>) = (set_Reg (f_rd i) v st)\<lparr>npc := x\<rparr>" for v x by (simp add: set_Reg_def)
    show ?thesis using f matched_link [OF O(6) field_range(3), of i] O(1,5) l
      by (simp add: exec_branch_op D branches_def exec_branch_def exec_special_def Let_def e)
  qed
qed

lemma bcond_matched:
  assumes "issued s xpc st" "unat (drop_bit 26 i AND 0x3f) = 1" "f_rt i \<in> {0, 1, 16, 17}" "pc st = xpc + 4"
  shows "matched s st (exec h (Decode i) s) (exec_bcond i xpc st)"
proof -
  note O = issued_operands(1) [OF assms(1), of i] issued_operands(5,6) [OF assms(1)]
  note n = issued_next [OF assms(1,4)]
  have m: "(0x1f0000 :: 32 word) = push_bit 16 (mask 5)" "(0x1f :: 32 word) = mask 5" by (simp_all add: mask_eq_exp_minus_1)
  have t: "i AND 0x1f0000 = push_bit 16 (of_nat (f_rt i))"
    unfolding f_rt_def m by (rule bit_word_eqI) (auto simp: bit_simps)
  have D: "extra (Decode i) = immed i" "opCode (Decode i) = (if f_rt i = 0 then OP_BLTZ else if f_rt i = 1 then OP_BGEZ else if f_rt i = 16 then OP_BLTZAL else OP_BGEZAL)"
    using assms(2,3) immed_extra [of i] by (auto simp: Decode_def Let_def opTable_def t)
  have L: "reg (set_reg 31 v (cpu s)) (f_rs i) = Reg (set_Reg 31 v st) ! f_rs i" for v
    using same_regs_set [OF O(3), of 31 v] field_range(1) [of i] issued_regs [OF assms(1)] O(3) by (auto simp: set_Reg_def same_regs_def nth_list_update)
  have N: "(registers (cpu s))[31 := v] ! NextPCReg = xpc + 4" for v using n by (simp add: reg_consts)
  show ?thesis using assms(3) matched_jump [OF O(3)] matched_link [OF O(3), of 31] n O(1,2) L N
    by (elim insertE emptyE) (auto simp: exec_branch_op D Decode_fields branches_def exec_branch_def exec_bcond_def Let_def branch_to_eq sign_bit
        IndexToAddr_def R31_def add.commute [of 8 xpc] set_Reg_def)
qed

lemma op_table:
  "opTable ! 2 = (OP_J, JFMT)" "opTable ! 3 = (OP_JAL, JFMT)" "opTable ! 4 = (OP_BEQ, IFMT)" "opTable ! 5 = (OP_BNE, IFMT)"
  "opTable ! 6 = (OP_BLEZ, IFMT)" "opTable ! 7 = (OP_BGTZ, IFMT)" "opTable ! 8 = (OP_ADDI, IFMT)" "opTable ! 9 = (OP_ADDIU, IFMT)"
  "opTable ! 10 = (OP_SLTI, IFMT)" "opTable ! 11 = (OP_SLTIU, IFMT)" "opTable ! 12 = (OP_ANDI, IFMT)" "opTable ! 13 = (OP_ORI, IFMT)"
  "opTable ! 14 = (OP_XORI, IFMT)" "opTable ! 15 = (OP_LUI, IFMT)"
  by (simp_all add: opTable_def)

lemma branch_matched:
  assumes "issued s xpc st" "unat (drop_bit 26 i AND 0x3f) \<in> {4, 5, 6, 7}" "pc st = xpc + 4"
  shows "matched s st (exec h (Decode i) s) (exec_op unix be i xpc st)"
proof -
  note O = issued_operands(1,2) [OF assms(1), of i] issued_operands(5,6) [OF assms(1)]
  show ?thesis using assms(2) matched_jump [OF O(4)] issued_next [OF assms(1,3)] O(1-3)
    by (elim insertE emptyE) (simp_all add: Decode_immediate op_table exec_branch_op Decode_fields branches_def exec_branch_def exec_op_def Let_def
        branch_to_eq IndexToAddr_def add.commute [of 8 xpc])
qed

lemma jump_matched:
  assumes "issued s xpc st" "unat (drop_bit 26 i AND 0x3f) \<in> {2, 3}" "pc st = xpc + 4" "(xpc + 8) AND 0xf0000000 = xpc AND 0xf0000000"
  shows "matched s st (exec h (Decode i) s) (exec_op unix be i xpc st)"
proof -
  note O = issued_operands(5,6) [OF assms(1)]
  have e: "set_Reg 31 v (st\<lparr>npc := x\<rparr>) = (set_Reg 31 v st)\<lparr>npc := x\<rparr>" for v x by (simp add: set_Reg_def)
  have D: "extra (Decode i) = i AND 0x3ffffff" "opCode (Decode i) = (if unat (drop_bit 26 i AND 0x3f) = 2 then OP_J else OP_JAL)"
    using assms(2) by (auto simp: Decode_def Let_def op_table)
  show ?thesis using assms(2,4) matched_jump [OF O(2)] matched_link [OF O(2), of 31] issued_next [OF assms(1,3)] O(1)
    by (elim insertE emptyE) (simp_all add: D exec_branch_op branches_def exec_branch_def exec_op_def Let_def IndexToAddr_def jump_target_def R31_def e add.commute [of 8 xpc])
qed

lemma push_16: "push_bit 16 (immed i) = push_bit 16 i"
proof (rule bit_word_eqI)
  fix n assume "n < LENGTH(32)"
  then consider "n < 31" | "n = 31" by force
  then show "bit (push_bit 16 (immed i)) n = bit (push_bit 16 i) n" by cases (auto simp: bit_push_bit_iff immed_bits)
qed

lemma immed_positive: "i AND 0x8000 = 0 \<Longrightarrow> immed i AND 0xffff = immed i"
  unfolding masks32(2) by (rule bit_word_eqI) (use bit15 [of i] in \<open>auto simp: bit_simps immed_bits\<close>)

lemma immediate_matched:
  assumes "issued s xpc st" "unat (drop_bit 26 i AND 0x3f) \<in> {8, 9, 10, 11, 12, 13, 14, 15}"
    "unat (drop_bit 26 i AND 0x3f) = 8 \<Longrightarrow> in_int (sint (Reg st ! f_rs i) + sint (immed i))"
    "unat (drop_bit 26 i AND 0x3f) \<in> {12, 13, 14} \<Longrightarrow> i AND 0x8000 = 0"
  shows "matched s st (exec h (Decode i) s) (exec_op unix be i xpc st)"
proof -
  note O = issued_operands(1,2) [OF assms(1), of i] issued_operands(5,6) [OF assms(1)]
  note M = matched_set [OF O(4) field_range(2), of i]
  show ?thesis
  proof (cases "unat (drop_bit 26 i AND 0x3f) = 8")
    case True
    then show ?thesis using assms(3) O(1,3) M addi_overflow_iff
      by (simp add: Decode_immediate op_table Decode_fields exec_def alu_ops_def branches_def loads_def stores_def exec_add_def exec_op_def Let_def)
  next
    case False
    then have "unat (drop_bit 26 i AND 0x3f) \<in> {9, 10, 11, 12, 13, 14, 15}" using assms(2) by simp
    then show ?thesis using assms(4) O(1,3) M
      by (elim insertE emptyE) (simp_all add: Decode_immediate op_table Decode_fields exec_alu_op alu_ops_def exec_alu_def exec_op_def Let_def
          push_16 immed_positive)
  qed
qed

lemma special_matched:
  assumes "issued s (pc st0) st" "Reg st = Reg st0" "pc st = npc st0" "unat (drop_bit 26 i AND 0x3f) = 0" "alike_special i st0"
  shows "matched s st (exec h (Decode i) s) (exec_special unix i (pc st0) st)"
proof -
  let ?f = "unat (i AND 0x3f)"
  consider "?f \<in> {0, 3, 16, 18, 33, 35, 36, 38, 39, 42, 43}" | "?f = 8" | "?f = 9" | "?f \<in> {4, 7, 17, 19, 26, 27, 32, 34}"
    using assms(5) unfolding alike_special_def Let_def by (elim disjE conjE) (simp_all, blast+)
  then show ?thesis
  proof cases
    case 1
    then show ?thesis by (rule special_alu [OF assms(1,4)])
  next
    case 2
    then show ?thesis using special_jump [OF assms(1,4)] by simp
  next
    case 3
    then show ?thesis using special_jump [OF assms(1,4)] assms(3,5) by (simp add: alike_special_def Let_def)
  next
    case 4
    then have "alike_special i st" using assms(2,5) by (elim insertE emptyE) (simp_all add: alike_special_def Let_def)
    then show ?thesis using special_rest [OF assms(1,4)] 4 by blast
  qed
qed

lemma alike_matched:
  assumes "issued s (pc st0) st" "st = set_Reg 0 0 (st0\<lparr>pc := npc st0, npc := npc st0 + 4\<rparr>)" "alike i st0"
  shows "matched s st (exec h (Decode i) s) (exec_op unix be i (pc st0) st)"
proof -
  let ?o = "unat (drop_bit 26 i AND 0x3f)"
  have R: "Reg st = Reg (set_Reg 0 0 st0)" "pc st = npc st0" "pc (set_Reg 0 0 st0) = pc st0" "npc (set_Reg 0 0 st0) = npc st0"
    by (simp_all add: assms(2) set_Reg_def)
  note M = immediate_matched [OF assms(1), where i = i and h = h and unix = unix and be = be]
  from assms(3) [unfolded alike_def Let_def] show ?thesis
  proof (elim disjE conjE)
    assume o: "?o = 0" "alike_special i (set_Reg 0 0 st0)"
    have "matched s st (exec h (Decode i) s) (exec_special unix i (pc (set_Reg 0 0 st0)) st)"
      by (rule special_matched) (use assms(1) R o in simp_all)
    then show ?thesis using o R(3) by (simp add: exec_op_def Let_def)
  next
    assume o: "?o = 1" "f_rt i \<in> {0, 1, 16, 17}" "npc (set_Reg 0 0 st0) = pc (set_Reg 0 0 st0) + 4"
    then show ?thesis using bcond_matched [OF assms(1) o(1,2)] R by (simp add: exec_op_def Let_def)
  next
    assume o: "?o \<in> {2, 3}" "npc (set_Reg 0 0 st0) = pc (set_Reg 0 0 st0) + 4"
      "(pc (set_Reg 0 0 st0) + 8) AND 0xf0000000 = pc (set_Reg 0 0 st0) AND 0xf0000000"
    then show ?thesis using jump_matched [OF assms(1) o(1)] R by metis
  next
    assume o: "?o \<in> {4, 5, 6, 7}" "npc (set_Reg 0 0 st0) = pc (set_Reg 0 0 st0) + 4"
    then show ?thesis using branch_matched [OF assms(1) o(1)] R by metis
  next
    assume "?o = 8" "in_int (sint (Reg (set_Reg 0 0 st0) ! f_rs i) + sint (immed i))"
    then show ?thesis using R(1) by (intro M) simp_all
  next
    assume "?o \<in> {9, 10, 11, 15}"
    then show ?thesis by (intro M) auto
  next
    assume "?o \<in> {12, 13, 14}" "i AND 0x8000 = 0"
    then show ?thesis by (intro M) auto
  qed
qed

lemma ReadMem_registers:
  assumes "machine_ok (cpu s)" "ReadMem h va 4 s = Inr (Some v, s')"
  shows "registers (cpu s') = registers (cpu s) \<and> machine_ok (cpu s')"
proof -
  have no: "Inr (Some v, s') \<noteq> bind_result (RaiseException h e va s) (\<lambda>s. Inr (None, s))" for e
    by (cases "RaiseException h e va s") auto
  from ReadMem_ok [OF assms(1), of 4 va h] assms(2) no obtain a m' where t: "translated va 4 False (cpu s) a m'" "s' = s\<lparr>cpu := stamp a s m'\<rparr>"
    by auto
  have "length (lastUsed (cpu s)) = NumPhysPages" using assms(1) by (simp add: machine_ok_def)
  then show ?thesis using translated_bounds [OF t(1) assms(1)] t(2) by (simp add: stamp_def machine_ok_lastUsed)
qed

lemma fetch_cong: "mem st = mem st' \<Longrightarrow> fetch be a st = fetch be a st'"
  by (simp add: fetch_def fetch_bytes_def mem_index_def)

lemma exec_op_zero: "Reg st ! 0 = 0 \<Longrightarrow> exec_op unix be 0 xpc st = Inr st"
proof -
  assume "Reg st ! 0 = 0"
  then have "set_Reg 0 0 st = st" using list_update_id [of "Reg st" 0] by (simp add: set_Reg_def)
  with \<open>Reg st ! 0 = 0\<close> show ?thesis by (simp add: exec_op_def exec_special_def Let_def f_rs_def f_rt_def f_rd_def shamt_def)
qed

lemma simulates_issued:
  assumes "simulates (cpu s) st" "registers (cpu s1) = registers (cpu s)"
  shows "issued s1 (pc st) (set_Reg 0 0 (st\<lparr>pc := npc st, npc := npc st + 4\<rparr>))"
  using assms(1) by (auto simp: issued_def assms(2) simulates_def same_regs_def set_Reg_def nth_list_update)

lemma interp_step_op:
  assumes "fetch be (pc st) st = Inr i" "length (Reg st) = 32"
  shows "interp_step unix be st = exec_op unix be i (pc st) (set_Reg 0 0 (st\<lparr>pc := npc st, npc := npc st + 4\<rparr>))"
proof -
  have "Reg (set_Reg 0 0 (st\<lparr>pc := npc st, npc := npc st + 4\<rparr>)) ! 0 = 0" using assms(2) by (simp add: set_Reg_def)
  note z = exec_op_zero [OF this]
  have "fetch be (pc st) (st\<lparr>pc := npc st, npc := npc st + 4\<rparr>) = Inr i"
    using assms(1) fetch_cong [of "st\<lparr>pc := npc st, npc := npc st + 4\<rparr>" st] by simp
  then show ?thesis using z by (cases "i = 0") (simp_all add: interp_step_def Let_def)
qed

lemma simulates_advance:
  assumes "same_regs (cpu s) st" "reg (cpu s) NextPCReg = pc st"
  shows "\<exists>m. DelayedLoad 0 0 (cpu s) = Inr m \<and> simulates (advance (npc st) m) st"
proof -
  let ?r = "(registers (cpu s))[0 := reg (cpu s) LoadValueReg, LoadReg := 0, LoadValueReg := 0, 0 := 0]"
  have l: "length (registers (cpu s)) = 40" "reg (cpu s) LoadReg = 0" using assms(1) by (simp_all add: same_regs_def)
  then have "DelayedLoad 0 0 (cpu s) = Inr ((cpu s)\<lparr>registers := ?r\<rparr>)" by (simp add: DelayedLoad_def array_set_def)
  moreover have "simulates (advance (npc st) ((cpu s)\<lparr>registers := ?r\<rparr>)) st"
    using assms l by (simp add: simulates_def same_regs_def advance_def reg_consts nth_list_update)
  ultimately show ?thesis by blast
qed

text \<open>
  C30: Two implementations of the processor. Whenever the interpreter and the simulation of Nachos are
  in corresponding states and fetch the same instruction, one of those that \<open>alike\<close> describes, both
  complete it, and their registers, \<open>HI\<close>, \<open>LO\<close> and program counters correspond again.
\<close>

theorem simulators_agree:
  assumes "simulates (cpu s) st" "machine_ok (cpu s)" "alike i st"
    "ReadMem h (reg (cpu s) PCReg) 4 s = Inr (Some i, s1)" "fetch be (pc st) st = Inr i"
  shows "\<exists>s' st'. OneInstruction h s = Inr s' \<and> interp_step unix be st = Inr st' \<and> simulates (cpu s') st'"
proof -
  from ReadMem_registers [OF assms(2,4)] have "registers (cpu s1) = registers (cpu s)" by simp
  note I = simulates_issued [OF assms(1) this]
  from alike_matched [OF I refl assms(3), of h unix be] obtain s' st' where m: "exec h (Decode i) s1 = Inr (Break s' (npc st') 0 0)"
    "exec_op unix be i (pc st) (set_Reg 0 0 (st\<lparr>pc := npc st, npc := npc st + 4\<rparr>)) = Inr st'" "same_regs (cpu s') st'"
    "pc st' = pc (set_Reg 0 0 (st\<lparr>pc := npc st, npc := npc st + 4\<rparr>))" "reg (cpu s') NextPCReg = reg (cpu s1) NextPCReg"
    unfolding matched_def by blast
  have "reg (cpu s') NextPCReg = pc st'" using m(4,5) I by (simp add: issued_def)
  from simulates_advance [OF m(3) this] obtain m' where m': "DelayedLoad 0 0 (cpu s') = Inr m'" "simulates (advance (npc st') m') st'" by blast
  have "OneInstruction h s = Inr (s'\<lparr>cpu := advance (npc st') m'\<rparr>)" using assms(4) m(1) m'(1) by (simp add: OneInstruction_def)
  moreover have "interp_step unix be st = Inr st'"
    using interp_step_op [OF assms(5)] assms(1) m(2) by (simp add: simulates_def same_regs_def)
  moreover have "cpu (s'\<lparr>cpu := advance (npc st') m'\<rparr>) = advance (npc st') m'" by simp
  ultimately show ?thesis using m'(2) by metis
qed

text \<open>\<open>addu r3, r1, r2\<close> at the address where the interpreter starts programs, mapped by the TLB in Nachos.\<close>

definition sample_addu :: "32 word" where "sample_addu = 0x00221821"

definition tlb_entry :: "bool \<Rightarrow> TranslationEntry" where
  "tlb_entry v = \<lparr>virtualPage = 0x200000, physicalPage = 0, valid = v, readOnly = False, use = False, dirty = False\<rparr>"

definition tlb_system :: "unit system" where
  "tlb_system = \<lparr>cpu = \<lparr>mainMemory = word_bytes sample_addu @ replicate (MemorySize - 4) 0,
      registers = (replicate NumTotalRegs 0)[1 := 5, 2 := 7, PCReg := 0x10000000, NextPCReg := 0x10000004],
      tlb = Some [tlb_entry True, tlb_entry False, tlb_entry False, tlb_entry False], pageTable = None, pageTableSize = 0,
      lastUsed = replicate NumPhysPages 0, singleStep = False\<rparr>, mode = UserMode, clock = 0, rest = ()\<rparr>"

definition sample_interp :: interp where
  "sample_interp = \<lparr>Reg = (replicate 32 0)[1 := 5, 2 := 7], HI = 0, LO = 0, mem = word_bytes sample_addu @ replicate (nat MEMSIZE - 4) 0,
     pc = 0x10000000, npc = 0x10000004\<rparr>"

lemma sample_fetches:
  "\<exists>s1. ReadMem no_handler 0x10000000 4 tlb_system = Inr (Some sample_addu, s1)" "fetch False 0x10000000 sample_interp = Inr sample_addu"
proof -
  have r: "read_at 0 4 (word_bytes sample_addu @ xs) = word_bytes sample_addu" for xs by (simp add: read_at_def)
  have b: "host_word False (word_bytes sample_addu) = sample_addu" using bytes_word_bytes [of sample_addu "[]"] by (simp add: host_word_def)
  show "fetch False 0x10000000 sample_interp = Inr sample_addu"
    using r b by (simp add: fetch_def fetch_bytes_def mem_index_def sample_interp_def memoffset_def MEMSIZE_def Let_def)
  have ok: "machine_ok (cpu tlb_system)" by (simp add: machine_ok_def tlb_system_def machine_consts reg_consts)
  have "Translate 0x10000000 4 False (cpu tlb_system) = Inr (Phys 0, (cpu tlb_system)\<lparr>tlb := Some [(tlb_entry True)\<lparr>use := True\<rparr>, tlb_entry False, tlb_entry False, tlb_entry False]\<rparr>)"
    by (simp add: Translate_def tlb_system_def find_entry_def the_table_def set_table_def tlb_entry_def machine_consts array_get_def array_set_def)
  then show "\<exists>s1. ReadMem no_handler 0x10000000 4 tlb_system = Inr (Some sample_addu, s1)"
    using r b by (simp add: ReadMem_def load_def mem_get_def touch_def tlb_system_def machine_consts no_handler_def array_set_def WordToHost_def)
qed

theorem simulators_agree_witness:
  "\<exists>s' st'. OneInstruction no_handler tlb_system = Inr s' \<and> interp_step (\<lambda>n a b c m. (0, m)) False sample_interp = Inr st' \<and>
     simulates (cpu s') st' \<and> Reg st' ! 3 = 12"
proof -
  have S: "simulates (cpu tlb_system) sample_interp" "machine_ok (cpu tlb_system)" "reg (cpu tlb_system) PCReg = 0x10000000" "pc sample_interp = 0x10000000"
    by (simp_all add: simulates_def same_regs_def machine_ok_def tlb_system_def sample_interp_def machine_consts reg_consts nth_list_update)
  have A: "alike sample_addu sample_interp" by (simp add: alike_def alike_special_def Let_def sample_addu_def)
  have st: "interp_step (\<lambda>n a b c m. (0, m)) False sample_interp = exec_op (\<lambda>n a b c m. (0, m)) False sample_addu 0x10000000
      (set_Reg 0 0 (sample_interp\<lparr>pc := npc sample_interp, npc := npc sample_interp + 4\<rparr>))"
    using interp_step_op [of False sample_interp sample_addu] sample_fetches(2) S(4) by (simp add: sample_interp_def)
  have "exec_op (\<lambda>n a b c m. (0, m)) False sample_addu 0x10000000 (set_Reg 0 0 (sample_interp\<lparr>pc := npc sample_interp, npc := npc sample_interp + 4\<rparr>)) =
      Inr (set_Reg 3 12 (set_Reg 0 0 (sample_interp\<lparr>pc := npc sample_interp, npc := npc sample_interp + 4\<rparr>)))"
    by (simp add: exec_op_def exec_special_def Let_def sample_addu_def f_rs_def f_rt_def f_rd_def set_Reg_def sample_interp_def)
  then show ?thesis using simulators_agree [OF S(1,2) A, of no_handler _ False "\<lambda>n a b c m. (0, m)"] sample_fetches st unfolding S(3,4)
    by (auto simp: set_Reg_def sample_interp_def)
qed

section \<open>Where the interpreter is wrong\<close>

lemma small_high: "uint (a :: 32 word) < 2 ^ 16 \<Longrightarrow> signed_drop_bit 16 a AND 0xffff = 0"
proof -
  assume a: "uint a < 2 ^ 16"
  then have s: "sint a = uint a" using sint_uint32 [of a] by simp
  have "sint (signed_drop_bit 16 a) = 0" using a s by (simp add: sint_signed_drop_bit_eq drop_bit_eq_div)
  then have "signed_drop_bit 16 a = 0" by (metis signed_eq_0_iff)
  then show ?thesis by simp
qed

text \<open>
  The high word of a product. \<open>MULTU\<close> of the interpreter is right for factors below \<open>2 ^ 16\<close>, but
  for larger ones it drops the carries of the partial products: for 0x18000 times 0x18000 its high
  word is 1 in place of 2, which is what the simulation of Nachos computes.
\<close>

theorem interpreter_high_word:
  "(uint a < 2 ^ 16 \<and> uint b < 2 ^ 16 \<longrightarrow> dval (halves_high a b) (a * b) = uint a * uint b) \<and>
   (halves_high 0x18000 0x18000, 0x18000 * 0x18000 :: 32 word) = (1, 0x40000000) \<and> Mult 0x18000 0x18000 False = (2, 0x40000000)"
proof (intro conjI impI)
  assume a: "uint a < 2 ^ 16 \<and> uint b < 2 ^ 16"
  then have z: "signed_drop_bit 16 a AND 0xffff = 0" "signed_drop_bit 16 b AND 0xffff = 0" using small_high by blast+
  have "uint a * uint b < 2 ^ 16 * 2 ^ 16" using a uint_range [of a] uint_range [of b] by (intro mult_strict_mono') simp_all
  then have "uint (a * b) = uint a * uint b" using uint_range [of a] uint_range [of b] by (simp add: uint_word_ariths)
  then show "dval (halves_high a b) (a * b) = uint a * uint b" unfolding halves_high_def Let_def z by (simp add: dval_def signed_drop_bit_0)
next
  show "(halves_high 0x18000 0x18000, 0x18000 * 0x18000 :: 32 word) = (1, 0x40000000)" by code_simp
  show "Mult 0x18000 0x18000 False = (2, 0x40000000)" by code_simp
qed

theorem interpreter_high_word_witness: "dval (halves_high 0xffff 0xffff) (0xffff * 0xffff) = 0xffff * 0xffff"
  using interpreter_high_word [of "0xffff" "0xffff"] by simp

section \<open>The length of a number in bits\<close>

definition narrowed :: "nat \<Rightarrow> nat \<Rightarrow> 32 word \<Rightarrow> bool" where
  "narrowed t k i \<longleftrightarrow> bit i t \<and> (\<forall>p. bit i p \<longrightarrow> p \<le> t \<and> p div 2 ^ k = t div 2 ^ k)"

lemma half_eq:
  fixes x y :: nat
  assumes "x div 2 = y div 2"
  shows "odd x \<Longrightarrow> odd y \<Longrightarrow> x = y" "x \<le> y \<Longrightarrow> even y \<Longrightarrow> x = y"
  using assms by presburger+

lemma div_half: "(p :: nat) div 2 ^ Suc k = t div 2 ^ Suc k \<Longrightarrow> p div 2 ^ k div 2 = t div 2 ^ k div 2"
  by (simp only: power_Suc2 div_mult2_eq)

lemma ilog2_step_narrows:
  assumes "narrowed t (Suc k) i" "\<And>p. p < 32 \<Longrightarrow> bit m p \<longleftrightarrow> odd (p div 2 ^ k)"
  shows "\<exists>j. ilog2_step m (2 ^ k) (i, l) = (j, l + (if odd (t div 2 ^ k) then 2 ^ k else 0)) \<and> narrowed t k j"
proof -
  have lt: "p < 32" if "bit i p" for p using bit_imp_le_length [OF that] by simp
  have t: "bit i t" "t < 32" using assms(1) lt unfolding narrowed_def by blast+
  have up: "p \<le> t" "p div 2 ^ Suc k = t div 2 ^ Suc k" "p < 32" if "bit i p" for p
    using assms(1) that lt unfolding narrowed_def by blast+
  show ?thesis
  proof (cases "odd (t div 2 ^ k)")
    case True
    then have b: "bit (i AND m) t" using t assms(2) by (simp add: bit_and_iff)
    have "p \<le> t \<and> p div 2 ^ k = t div 2 ^ k" if "bit (i AND m) p" for p
    proof -
      have p: "bit i p" "odd (p div 2 ^ k)" using that assms(2) up(3) by (auto simp: bit_and_iff)
      then show ?thesis using up(1) [OF p(1)] half_eq(1) [OF div_half [OF up(2) [OF p(1)]] p(2) True] by simp
    qed
    then have "narrowed t k (i AND m)" unfolding narrowed_def using b by blast
    moreover have "i AND m \<noteq> 0" using b by auto
    ultimately show ?thesis using True by (simp add: ilog2_step_def)
  next
    case False
    have same: "p div 2 ^ k = t div 2 ^ k" if "bit i p" for p
      using half_eq(2) [OF div_half [OF up(2) [OF that]] div_le_mono [OF up(1) [OF that]]] False by blast
    have "\<not> bit m p" if "bit i p" for p using assms(2) [OF up(3) [OF that]] same [OF that] False by simp
    then have "i AND m = 0" by (intro bit_word_eqI) (auto simp: bit_and_iff)
    moreover have "narrowed t k i" unfolding narrowed_def using same up(1) t(1) by blast
    ultimately show ?thesis using False by (simp add: ilog2_step_def)
  qed
qed

lemma ilog2_masks:
  "p < 32 \<Longrightarrow> bit (0xffff0000 :: 32 word) p \<longleftrightarrow> odd (p div 2 ^ 4)"
  "p < 32 \<Longrightarrow> bit (0xff00ff00 :: 32 word) p \<longleftrightarrow> odd (p div 2 ^ 3)"
  "p < 32 \<Longrightarrow> bit (0xf0f0f0f0 :: 32 word) p \<longleftrightarrow> odd (p div 2 ^ 2)"
  "p < 32 \<Longrightarrow> bit (0xcccccccc :: 32 word) p \<longleftrightarrow> odd (p div 2 ^ 1)"
  "p < 32 \<Longrightarrow> bit (0xaaaaaaaa :: 32 word) p \<longleftrightarrow> odd (p div 2 ^ 0)"
proof -
  have "list_all (\<lambda>p. (bit (0xffff0000 :: 32 word) p \<longleftrightarrow> odd (p div 2 ^ 4)) \<and> (bit (0xff00ff00 :: 32 word) p \<longleftrightarrow> odd (p div 2 ^ 3)) \<and>
     (bit (0xf0f0f0f0 :: 32 word) p \<longleftrightarrow> odd (p div 2 ^ 2)) \<and> (bit (0xcccccccc :: 32 word) p \<longleftrightarrow> odd (p div 2 ^ 1)) \<and>
     (bit (0xaaaaaaaa :: 32 word) p \<longleftrightarrow> odd (p div 2 ^ 0))) [0..<32]" by code_simp
  then show "p < 32 \<Longrightarrow> bit (0xffff0000 :: 32 word) p \<longleftrightarrow> odd (p div 2 ^ 4)"
    "p < 32 \<Longrightarrow> bit (0xff00ff00 :: 32 word) p \<longleftrightarrow> odd (p div 2 ^ 3)"
    "p < 32 \<Longrightarrow> bit (0xf0f0f0f0 :: 32 word) p \<longleftrightarrow> odd (p div 2 ^ 2)"
    "p < 32 \<Longrightarrow> bit (0xcccccccc :: 32 word) p \<longleftrightarrow> odd (p div 2 ^ 1)"
    "p < 32 \<Longrightarrow> bit (0xaaaaaaaa :: 32 word) p \<longleftrightarrow> odd (p div 2 ^ 0)" by (simp_all only: list_all_iff set_upt atLeastLessThan_iff) auto
qed

lemma top_bit:
  assumes "2 ^ t \<le> unat i" "unat i < 2 ^ (t + 1)"
  shows "narrowed t 5 (i :: 32 word)"
proof -
  have b: "bit i p \<longleftrightarrow> odd (unat i div 2 ^ p)" for p unfolding bit_iff_odd [symmetric] by (simp add: bit_unsigned_iff)
  have "unat i div 2 ^ t = 1" using assms by (intro div_nat_eqI) simp_all
  then have t: "bit i t" using b by simp
  have "p \<le> t" if "bit i p" for p
  proof (rule ccontr)
    assume "\<not> p \<le> t"
    then have "(2 :: nat) ^ (t + 1) \<le> 2 ^ p" by (intro power_increasing) simp_all
    then have "unat i div 2 ^ p = 0" using assms(2) by simp
    then show False using that b by simp
  qed
  moreover have "p div 2 ^ 5 = 0" if "bit i p" for p using that by (auto dest: bit_imp_le_length)
  ultimately show ?thesis unfolding narrowed_def using t by metis
qed

lemma ilog2_top:
  assumes "2 ^ t \<le> unat i" "unat i < 2 ^ (t + 1)"
  shows "ilog2 i = t + 1"
proof -
  let ?b = "\<lambda>k. if odd (t div 2 ^ k) then 2 ^ k else 0 :: nat"
  note S = ilog2_step_narrows [of t]
  have e: "Suc 4 = 5" "Suc 3 = 4" "Suc 2 = 3" "Suc 1 = 2" "Suc 0 = 1" by simp_all
  from S [of 4 i, unfolded e, OF top_bit [OF assms] ilog2_masks(1)] obtain i4 where
    i4: "ilog2_step 0xffff0000 (2 ^ 4) (i, 1) = (i4, 1 + ?b 4)" "narrowed t 4 i4" by blast
  from S [of 3 i4, unfolded e, OF i4(2) ilog2_masks(2)] obtain i3 where
    i3: "ilog2_step 0xff00ff00 (2 ^ 3) (i4, 1 + ?b 4) = (i3, 1 + ?b 4 + ?b 3)" "narrowed t 3 i3" by blast
  from S [of 2 i3, unfolded e, OF i3(2) ilog2_masks(3)] obtain i2 where
    i2: "ilog2_step 0xf0f0f0f0 (2 ^ 2) (i3, 1 + ?b 4 + ?b 3) = (i2, 1 + ?b 4 + ?b 3 + ?b 2)" "narrowed t 2 i2" by blast
  from S [of 1 i2, unfolded e, OF i2(2) ilog2_masks(4)] obtain i1 where
    i1: "ilog2_step 0xcccccccc (2 ^ 1) (i2, 1 + ?b 4 + ?b 3 + ?b 2) = (i1, 1 + ?b 4 + ?b 3 + ?b 2 + ?b 1)" "narrowed t 1 i1" by blast
  from S [of 0 i1, unfolded e, OF i1(2) ilog2_masks(5)] obtain i0 where
    i0: "ilog2_step 0xaaaaaaaa (2 ^ 0) (i1, 1 + ?b 4 + ?b 3 + ?b 2 + ?b 1) = (i0, 1 + ?b 4 + ?b 3 + ?b 2 + ?b 1 + ?b 0)" by blast
  have "i \<noteq> 0" using assms(1) by (metis less_eq_nat.simps(1) not_less power_eq_0_iff unat_0 zero_less_numeral zero_less_power)
  then have "ilog2 i = 1 + ?b 4 + ?b 3 + ?b 2 + ?b 1 + ?b 0" using i0 i1(1) i2(1) i3(1) i4(1) by (simp add: ilog2_def)
  moreover have "t < 32" using top_bit [OF assms] by (auto simp: narrowed_def dest: bit_imp_le_length)
  then have "list_all (\<lambda>t :: nat. 1 + (if odd (t div 2 ^ 4) then 2 ^ 4 else 0) + (if odd (t div 2 ^ 3) then 2 ^ 3 else 0) + (if odd (t div 2 ^ 2) then 2 ^ 2 else 0) +
     (if odd (t div 2 ^ 1) then 2 ^ 1 else 0) + (if odd (t div 2 ^ 0) then 2 ^ 0 else 0) = t + 1) [0..<32]" by code_simp
  ultimately show ?thesis using \<open>t < 32\<close> by (simp add: list_all_iff)
qed

text \<open>
  \<open>ilog2\<close> returns the number of bits of its argument as an unsigned number: the result \<open>l\<close> is the one
  with \<open>2 ^ (l - 1) \<le> i < 2 ^ l\<close>. The comment above it lists other values for 2 (1), 4 (2) and 8 (3).
\<close>

theorem ilog2_bit_length:
  assumes "i \<noteq> 0"
  shows "1 \<le> ilog2 i \<and> ilog2 i \<le> 32 \<and> 2 ^ (ilog2 i - 1) \<le> unat i \<and> unat i < 2 ^ ilog2 i"
proof -
  have "1 \<le> unat i" using assms by (simp add: unat_gt_0 Suc_leI)
  from ex_power_ivl1 [of 2, OF _ this] obtain t where t: "2 ^ t \<le> unat i" "unat i < 2 ^ (t + 1)" by auto
  have "t < 32" using top_bit [OF t] by (auto simp: narrowed_def dest: bit_imp_le_length)
  then show ?thesis using ilog2_top [OF t] t by simp
qed

theorem ilog2_bit_length_witness: "ilog2 8 = 4 \<and> 2 ^ (ilog2 8 - 1) \<le> unat (8 :: 32 word) \<and> unat (8 :: 32 word) < 2 ^ ilog2 8"
  using ilog2_bit_length [of 8] by (simp add: ilog2_def ilog2_step_def)

end
