(* ===== verification/Disassembler.thy ===== *)
theory Disassembler
  imports Mips_Interpreter
begin

text \<open>
  The disassembler of the tools (\<open>dump_ascii\<close> of \<open>bin/d.c\<close> with the names of \<open>bin/opstrings.c\<close> and the
  fields of \<open>bin/instr.h\<close>), which the interpreter of \<open>bin/execute.c\<close> uses for its traces and
  \<open>bin/disasm.c\<close> and \<open>bin/out.c\<close> for their listings. What it prints is a string.

  The lemmas show that the text determines what the interpreter does with the instruction, except
  for a few instructions whose operands are printed wrongly or not at all.
\<close>

unbundle bit_operations_syntax

section \<open>The disassembler\<close>

definition normalops :: "string list" where
  "normalops =
    [''special'', ''bcond'', ''j'', ''jal'', ''beq'', ''bne'', ''blez'', ''bgtz'', ''addi'', ''addiu'', ''slti'',
     ''sltiu'', ''andi'', ''ori'', ''xori'', ''lui'', ''cop0'', ''cop1'', ''cop2'', ''cop3'', ''024'', ''025'',
     ''026'', ''027'', ''030'', ''031'', ''032'', ''033'', ''034'', ''035'', ''036'', ''037'', ''lb'', ''lh'', ''lwl'',
     ''lw'', ''lbu'', ''lhu'', ''lwr'', ''047'', ''sb'', ''sh'', ''swl'', ''sw'', ''054'', ''055'', ''swr'', ''057'',
     ''lwc0'', ''lwc1'', ''lwc2'', ''lwc3'', ''064'', ''065'', ''066'', ''067'', ''swc0'', ''swc1'', ''swc2'',
     ''swc3'', ''074'', ''075'', ''076'', ''077'']"

definition specialops :: "string list" where
  "specialops =
    [''sll'', ''001'', ''srl'', ''sra'', ''sllv'', ''005'', ''srlv'', ''srav'', ''jr'', ''jalr'', ''012'', ''013'',
     ''syscall'', ''break'', ''016'', ''017'', ''mfhi'', ''mthi'', ''mflo'', ''mtlo'', ''024'', ''025'', ''026'',
     ''027'', ''mult'', ''multu'', ''div'', ''divu'', ''034'', ''035'', ''036'', ''037'', ''add'', ''addu'', ''sub'',
     ''subu'', ''and'', ''or'', ''xor'', ''nor'', ''050'', ''051'', ''slt'', ''sltu'', ''054'', ''055'', ''056'',
     ''057'', ''060'', ''061'', ''062'', ''063'', ''064'', ''065'', ''066'', ''067'', ''070'', ''071'', ''072'',
     ''073'', ''074'', ''075'', ''076'', ''077'']"

definition regstrings :: "string list" where
  "regstrings =
    [''0'', ''r1'', ''r2'', ''r3'', ''r4'', ''r5'', ''r6'', ''r7'', ''r8'', ''r9'', ''r10'', ''r11'', ''r12'', ''r13'',
     ''r14'', ''r15'', ''r16'', ''r17'', ''r18'', ''r19'', ''r20'', ''r21'', ''r22'', ''r23'', ''r24'', ''r25'',
     ''r26'', ''r27'', ''gp'', ''sp'', ''r30'', ''r31'']"

abbreviation R :: "nat \<Rightarrow> string" where "R i \<equiv> regstrings ! i"

text \<open>The formats \<open>%08x\<close> and \<open>%x\<close> of \<open>printf\<close>.\<close>

definition hex_digit :: "nat \<Rightarrow> char" where
  "hex_digit n = ''0123456789abcdef'' ! n"

definition hex8 :: "32 word \<Rightarrow> string" where
  "hex8 w = map (\<lambda>k. hex_digit (unat (drop_bit (4 * k) w AND 0xf))) [7, 6, 5, 4, 3, 2, 1, 0]"

definition hex :: "32 word \<Rightarrow> string" where
  "hex w = (let s = dropWhile (\<lambda>c. c = CHR ''0'') (hex8 w) in if s = [] then ''0'' else s)"

text \<open>The macros \<open>off16\<close>, \<open>off26\<close> and \<open>top4\<close> of \<open>bin/instr.h\<close>.\<close>

definition off16 :: "32 word \<Rightarrow> 32 word" where "off16 i = push_bit 2 (immed i)"
definition off26 :: "32 word \<Rightarrow> 32 word" where "off26 i = push_bit 2 (i AND 0x03ffffff)"
definition top4 :: "32 word \<Rightarrow> 32 word" where "top4 i = i AND 0xf0000000"

definition special_args :: "nat \<Rightarrow> 32 word \<Rightarrow> string" where
  "special_args opc i =
     (if opc \<in> {0, 2, 3} then R (f_rd i) @ '','' @ R (f_rt i) @ '',0x'' @ hex (of_nat (shamt i))
      else if opc \<in> {4, 6, 7} then R (f_rd i) @ '','' @ R (f_rt i) @ '','' @ R (f_rs i)
      else if opc \<in> {8, 9, 18, 19} then R (f_rs i)
      else if opc \<in> {12, 13} then []
      else if opc \<in> {16, 17} then R (f_rd i)
      else if opc \<in> {24, 25, 26, 27} then R (f_rs i) @ '','' @ R (f_rt i)
      else if opc \<in> {32, 33, 34, 35, 36, 37, 38, 39, 42, 43} then R (f_rd i) @ '','' @ R (f_rs i) @ '','' @ R (f_rt i)
      else [])"

definition bcond_name :: "nat \<Rightarrow> string" where
  "bcond_name r =
     (if r = 0 then ''bltz'' else if r = 1 then ''bgez'' else if r = 16 then ''bltzal'' else if r = 17 then ''bgezal'' else ''BCOND'')"

definition normal_args :: "nat \<Rightarrow> 32 word \<Rightarrow> 32 word \<Rightarrow> string" where
  "normal_args opc i xpc =
     (if opc \<in> {2, 3} then hex8 (top4 xpc OR off26 i)
      else if opc \<in> {4, 5} then R (f_rt i) @ '','' @ R (f_rs i) @ '','' @ hex8 (off16 i + xpc + 4)
      else if opc \<in> {8, 9, 10, 11, 12, 13, 14} then R (f_rt i) @ '','' @ R (f_rs i) @ '',0x'' @ hex (immed i)
      else if opc = 15 then R (f_rt i) @ '',0x'' @ hex (immed i)
      else if opc \<in> {16, 17, 18, 19} then []
      else if opc \<in> {32, 33, 34, 35, 36, 37, 38, 40, 41, 42, 43, 46, 48, 49, 50, 51, 56, 57, 58, 59} then
        R (f_rt i) @ '',0x'' @ hex (immed i) @ ''('' @ R (f_rs i) @ '')''
      else [])"

definition opcode_of :: "32 word \<Rightarrow> nat" where "opcode_of i = unat (drop_bit 26 i)"

abbreviation tab_char :: char where "tab_char \<equiv> CHR 0x09"

definition dump_ascii :: "bool \<Rightarrow> 32 word \<Rightarrow> 32 word \<Rightarrow> string" where
  "dump_ascii longdis i xpc =
     (if longdis then hex8 xpc @ '': '' @ hex8 i @ ''  '' else []) @ [tab_char] @
     (let opc = opcode_of i
      in if i = 0 then ''nop''
         else if opc = 0 then (let f = unat (i AND 0x3f) in specialops ! f @ [tab_char] @ special_args f i)
         else if opc = 1 then bcond_name (f_rt i) @ [tab_char] @ R (f_rs i) @ '','' @ hex8 (off16 i + xpc + 4)
         else normalops ! opc @ [tab_char] @ normal_args opc i xpc)"

section \<open>Numbers and fields in the text\<close>

lemma split_at: "c \<notin> set xs \<Longrightarrow> c \<notin> set xs' \<Longrightarrow> xs @ c # ys = xs' @ c # ys' \<longleftrightarrow> xs = xs' \<and> ys = ys'"
proof (induction xs arbitrary: xs')
  case Nil
  then show ?case by (cases xs') auto
next
  case (Cons x xs)
  then show ?case by (cases xs') auto
qed

lemma hex_digit_inj: "m < 16 \<Longrightarrow> n < 16 \<Longrightarrow> hex_digit m = hex_digit n \<longleftrightarrow> m = n"
  unfolding hex_digit_def by (subst nth_eq_iff_index_eq) simp_all

lemma nibble: "unat (drop_bit k w AND 0xf) < 16" for w :: "32 word"
  using and_mask_less' [of 4 "drop_bit k w"] by (simp add: mask_eq_exp_minus_1 word_less_nat_alt)

lemma hex8_inj: "hex8 v = hex8 w \<longleftrightarrow> v = w"
proof
  assume "hex8 v = hex8 w"
  then have n: "drop_bit (4 * k) v AND 0xf = drop_bit (4 * k) w AND 0xf" if "k \<in> set [7, 6, 5, 4, 3, 2, 1, 0]" for k
  proof -
    have "hex_digit (unat (drop_bit (4 * k) v AND 0xf)) = hex_digit (unat (drop_bit (4 * k) w AND 0xf))"
      using that \<open>hex8 v = hex8 w\<close> by (auto simp: hex8_def)
    then show ?thesis unfolding hex_digit_inj [OF nibble nibble] by (simp add: word_unat_eq_iff)
  qed
  show "v = w"
  proof (rule bit_word_eqI)
    fix p assume p: "p < LENGTH(32)"
    have m: "(0xf :: 32 word) = mask 4" by (simp add: mask_eq_exp_minus_1)
    have "p div 4 \<in> set [7, 6, 5, 4, 3, 2, 1, 0]" using p by auto
    from n [OF this] have "bit (drop_bit (4 * (p div 4)) v AND 0xf) (p mod 4) = bit (drop_bit (4 * (p div 4)) w AND 0xf) (p mod 4)" by simp
    moreover have "p mod 4 < 32" by (rule less_le_trans [of _ 4]) simp_all
    ultimately show "bit v p = bit w p" unfolding m by (simp add: bit_simps)
  qed
qed simp

lemma hex_inj: "hex v = hex w \<longleftrightarrow> v = w"
proof
  let ?z = "\<lambda>c. c = CHR ''0''"
  have split: "hex8 u = replicate (8 - length (dropWhile ?z (hex8 u))) (CHR ''0'') @ dropWhile ?z (hex8 u)" for u
  proof -
    have "takeWhile ?z (hex8 u) = replicate (length (takeWhile ?z (hex8 u))) (CHR ''0'')"
      by (rule replicate_eqI) (auto dest: set_takeWhileD)
    moreover have "length (takeWhile ?z (hex8 u)) = 8 - length (dropWhile ?z (hex8 u))"
      using arg_cong [OF takeWhile_dropWhile_id [of ?z "hex8 u"], of length] by (simp add: hex8_def)
    ultimately show ?thesis by (metis takeWhile_dropWhile_id)
  qed
  have z: "dropWhile ?z (hex8 u) \<noteq> ''0''" for u using hd_dropWhile [of ?z "hex8 u"] by (metis list.sel(1) list.distinct(1))
  assume "hex v = hex w"
  then have "dropWhile ?z (hex8 v) = dropWhile ?z (hex8 w)"
    using z [of v] z [of w] by (simp add: hex_def Let_def del: dropWhile_eq_Nil_conv split: if_splits)
  then have "hex8 v = hex8 w" using split by metis
  then show "v = w" by (simp add: hex8_inj)
qed simp

lemma reg_names: "r < 32 \<Longrightarrow> CHR '','' \<notin> set (R r) \<and> CHR ''('' \<notin> set (R r) \<and> CHR '')'' \<notin> set (R r)"
proof -
  have "list_all (\<lambda>s. CHR '','' \<notin> set s \<and> CHR ''('' \<notin> set s \<and> CHR '')'' \<notin> set s) regstrings" "length regstrings = 32"
    by (simp_all add: regstrings_def)
  then show "r < 32 \<Longrightarrow> ?thesis" by (simp add: list_all_length)
qed

lemma reg_inj: "p < 32 \<Longrightarrow> q < 32 \<Longrightarrow> R p = R q \<longleftrightarrow> p = q"
proof -
  have "distinct regstrings" "length regstrings = 32" by (simp_all add: regstrings_def)
  then show "p < 32 \<Longrightarrow> q < 32 \<Longrightarrow> ?thesis" by (simp add: nth_eq_iff_index_eq)
qed

lemma hex_bracket: "CHR ''('' \<notin> set (hex w)"
proof -
  define A where "A = set ''0123456789abcdef''"
  have "hex_digit (unat (drop_bit k w AND 0xf)) \<in> A" for k
    unfolding hex_digit_def A_def by (rule nth_mem) (use nibble [of k w] in simp)
  then have "set (hex8 w) \<subseteq> A" unfolding hex8_def set_map by (intro image_subsetI)
  then have "set (dropWhile (\<lambda>c. c = CHR ''0'') (hex8 w)) \<subseteq> A" by (meson set_dropWhileD subset_iff)
  moreover have "CHR ''('' \<notin> A" "CHR ''0'' \<in> A" by (simp_all add: A_def)
  ultimately show ?thesis by (auto simp: hex_def Let_def)
qed

lemma shamt_word: "(of_nat (shamt i) :: 32 word) = of_nat (shamt j) \<longleftrightarrow> shamt i = shamt j"
  by (simp add: shamt_def word_unat_eq_iff)

lemmas field_text = split_at [where ys = "_ :: string"] reg_names [OF field_range(1)] reg_names [OF field_range(2)] reg_names [OF field_range(3)]
  reg_inj [OF field_range(1) field_range(1)] reg_inj [OF field_range(2) field_range(2)] reg_inj [OF field_range(3) field_range(3)]
  hex8_inj hex_inj hex_bracket shamt_word

section \<open>What the text determines\<close>

text \<open>The operation of an instruction: its code, and the field that tells apart the special operations and the branches.\<close>

definition operation :: "32 word \<Rightarrow> nat \<times> nat" where
  "operation i = (let opc = opcode_of i in (opc, if opc = 0 then unat (i AND 0x3f) else if opc = 1 then f_rt i else 0))"

definition op_name :: "nat \<times> nat \<Rightarrow> string" where
  "op_name k = (if fst k = 0 then specialops ! snd k else if fst k = 1 then bcond_name (snd k) else normalops ! fst k)"

definition op_args :: "nat \<times> nat \<Rightarrow> 32 word \<Rightarrow> 32 word \<Rightarrow> string" where
  "op_args k i xpc =
     (if fst k = 0 then special_args (snd k) i
      else if fst k = 1 then R (f_rs i) @ '','' @ hex8 (off16 i + xpc + 4)
      else normal_args (fst k) i xpc)"

text \<open>The operations that are listed with the operands that they use.\<close>

definition special_listed :: "nat list" where
  "special_listed = [0, 2, 3] @ [4, 6, 7] @ [8, 19] @ [12, 13] @ [16] @ [24, 25, 26, 27] @ [32, 33, 34, 35, 36, 37, 38, 39, 42, 43]"

definition normal_listed :: "nat list" where
  "normal_listed = [2, 3] @ [4, 5] @ [8, 9, 10, 11, 12, 13, 14] @ [15] @
     [32, 33, 34, 35, 36, 37, 38, 40, 41, 42, 43, 46, 48, 49, 50, 51, 56, 57, 58, 59]"

definition listed_ops :: "(nat \<times> nat) list" where
  "listed_ops = map (\<lambda>f. (0, f)) special_listed @ map (\<lambda>r. (1, r)) [0, 1, 16, 17] @ map (\<lambda>opc. (opc, 0)) normal_listed"

definition listed :: "32 word \<Rightarrow> bool" where
  "listed i \<longleftrightarrow> i = 0 \<or> operation i \<in> set listed_ops"

lemma dump_parts: "i \<noteq> 0 \<Longrightarrow> dump_ascii False i xpc = tab_char # op_name (operation i) @ tab_char # op_args (operation i) i xpc"
  by (simp add: dump_ascii_def operation_def op_name_def op_args_def Let_def)

lemma names_distinct: "distinct (map op_name listed_ops)" "list_all (\<lambda>k. tab_char \<notin> set (op_name k)) listed_ops"
  by (code_simp, code_simp)

lemma same_text:
  assumes "dump_ascii False i xpc = dump_ascii False j xpc" "listed i" "listed j" "i \<noteq> j"
  shows "operation i \<in> set listed_ops" "operation i = operation j" "op_args (operation i) i xpc = op_args (operation i) j xpc"
proof -
  have z: "dump_ascii False 0 xpc = tab_char # ''nop''" by (simp add: dump_ascii_def)
  have t: "tab_char \<notin> set (op_name (operation k))" if "operation k \<in> set listed_ops" for k
    using names_distinct(2) that by (auto simp: list_all_iff)
  have "tab_char \<notin> set ''nop''" by simp
  then have n0: "i \<noteq> 0" "j \<noteq> 0" using assms(1,4) dump_parts [of i xpc] dump_parts [of j xpc] z by (auto simp: append_eq_Cons_conv Cons_eq_append_conv)
  with assms(2,3) have k: "operation i \<in> set listed_ops" "operation j \<in> set listed_ops" by (auto simp: listed_def)
  with assms(1) dump_parts n0 t have e: "op_name (operation i) = op_name (operation j)" "op_args (operation i) i xpc = op_args (operation j) j xpc"
    by (simp_all add: split_at)
  show o: "operation i = operation j"
    using names_distinct(1) k e(1) by (simp add: distinct_map inj_on_def)
  show "operation i \<in> set listed_ops" "op_args (operation i) i xpc = op_args (operation i) j xpc" using k(1) e(2) o by simp_all
qed

text \<open>Instructions whose operands are printed alike do the same.\<close>

lemma opcode_word: "unat (drop_bit 26 i AND 0x3f) = opcode_of i"
proof -
  have "drop_bit 26 i AND 0x3f = (drop_bit 26 i :: 32 word)"
  proof (rule bit_word_eqI)
    fix n assume "n < LENGTH(32)"
    have m: "(0x3f :: 32 word) = mask 6" by (simp add: mask_eq_exp_minus_1)
    show "bit (drop_bit 26 i AND 0x3f :: 32 word) n = bit (drop_bit 26 i) n"
      unfolding m by (auto simp: bit_simps dest: bit_imp_le_length)
  qed
  then show ?thesis by (simp add: opcode_of_def)
qed

lemma special_text:
  "f \<in> {0, 2, 3} \<Longrightarrow> special_args f i = R (f_rd i) @ '','' @ R (f_rt i) @ '',0x'' @ hex (of_nat (shamt i))"
  "f \<in> {4, 6, 7} \<Longrightarrow> special_args f i = R (f_rd i) @ '','' @ R (f_rt i) @ '','' @ R (f_rs i)"
  "f \<in> {8, 19} \<Longrightarrow> special_args f i = R (f_rs i)"
  "special_args 16 i = R (f_rd i)"
  "f \<in> {24, 25, 26, 27} \<Longrightarrow> special_args f i = R (f_rs i) @ '','' @ R (f_rt i)"
  "f \<in> {32, 33, 34, 35, 36, 37, 38, 39, 42, 43} \<Longrightarrow> special_args f i = R (f_rd i) @ '','' @ R (f_rs i) @ '','' @ R (f_rt i)"
  unfolding special_args_def by auto

lemma special_same:
  assumes "f \<in> set special_listed" "unat (i AND 0x3f) = f" "unat (j AND 0x3f) = f" "special_args f i = special_args f j"
  shows "exec_special unix i xpc st = exec_special unix j xpc st"
proof -
  consider "f \<in> {0, 2, 3}" | "f \<in> {4, 6, 7}" | "f \<in> {8, 19}" | "f \<in> {12, 13}" | "f \<in> {16}" | "f \<in> {24, 25, 26, 27}" |
    "f \<in> {32, 33, 34, 35, 36, 37, 38, 39, 42, 43}" using assms(1) unfolding special_listed_def set_append Un_iff list.set by blast
  then show ?thesis
  proof cases
    case 1
    then have "f_rd i = f_rd j \<and> f_rt i = f_rt j \<and> shamt i = shamt j" using assms(4) by (simp add: special_text field_text)
    then show ?thesis using 1 by (elim insertE emptyE) (simp_all add: exec_special_def assms(2,3))
  next
    case 2
    then have "f_rd i = f_rd j \<and> f_rt i = f_rt j \<and> f_rs i = f_rs j" using assms(4) by (simp add: special_text field_text)
    then show ?thesis using 2 by (elim insertE emptyE) (simp_all add: exec_special_def assms(2,3))
  next
    case 3
    then have "f_rs i = f_rs j" using assms(4) by (simp add: special_text field_text)
    then show ?thesis using 3 by (elim insertE emptyE) (simp_all add: exec_special_def assms(2,3))
  next
    case 4
    then show ?thesis by (elim insertE emptyE) (simp_all add: exec_special_def assms(2,3))
  next
    case 5
    then have "f_rd i = f_rd j" using assms(4) by (simp add: special_text field_text)
    then show ?thesis using 5 by (simp add: exec_special_def assms(2,3))
  next
    case 6
    then have "f_rs i = f_rs j \<and> f_rt i = f_rt j" using assms(4) by (simp add: special_text field_text)
    then show ?thesis using 6 by (elim insertE emptyE) (simp_all add: exec_special_def assms(2,3))
  next
    case 7
    then have "f_rd i = f_rd j \<and> f_rt i = f_rt j \<and> f_rs i = f_rs j" using assms(4) by (simp add: special_text field_text)
    moreover have "f \<noteq> 0" "f \<noteq> 2" "f \<noteq> 3" using 7 by auto
    ultimately show ?thesis by (simp add: exec_special_def assms(2,3) cong: if_cong)
  qed
qed

lemma jump_text: "top4 xpc OR off26 i = jump_target i xpc"
  by (simp add: top4_def off26_def jump_target_def)

lemma immed_high: "immed i = immed j \<Longrightarrow> push_bit 16 i = push_bit 16 j"
proof (rule bit_word_eqI)
  fix n assume e: "immed i = immed j" and n: "n < LENGTH(32)"
  have "bit i k = bit j k" if "k < 16" for k
    using arg_cong [OF e, of "\<lambda>w. bit w k"] that by (cases "k = 15") (auto simp: immed_bits)
  then show "bit (push_bit 16 i) n = bit (push_bit 16 j) n" using n by (auto simp: bit_simps)
qed

lemma memory_same:
  assumes "f_rt i = f_rt j" "f_rs i = f_rs j" "immed i = immed j"
  shows "exec_memory be opc i st = exec_memory be opc j st"
  unfolding exec_memory_def assms ..

lemma normal_same:
  assumes "opc \<in> set normal_listed" "opcode_of i = opc" "opcode_of j = opc" "normal_args opc i xpc = normal_args opc j xpc"
  shows "exec_op unix be i xpc st = exec_op unix be j xpc st"
proof -
  note o = opcode_word [of i, unfolded assms(2)] opcode_word [of j, unfolded assms(3)]
  consider "opc \<in> {2, 3}" | "opc \<in> {4, 5}" | "opc \<in> {8, 9, 10, 11, 12, 13, 14}" | "opc \<in> {15}" |
    "opc \<in> {32, 33, 34, 35, 36, 37, 38, 40, 41, 42, 43, 46, 48, 49, 50, 51, 56, 57, 58, 59}"
    using assms(1) unfolding normal_listed_def set_append Un_iff list.set by blast
  then show ?thesis
  proof cases
    case 1
    then have "jump_target i xpc = jump_target j xpc" using assms(4) by (auto simp: normal_args_def jump_text field_text)
    then show ?thesis using 1 by (elim insertE emptyE) (simp_all add: exec_op_def o)
  next
    case 2
    then have "f_rt i = f_rt j \<and> f_rs i = f_rs j \<and> push_bit 2 (immed i) = push_bit 2 (immed j)"
      using assms(4) by (auto simp: normal_args_def field_text off16_def)
    then show ?thesis using 2 by (elim insertE emptyE) (simp_all add: exec_op_def o branch_to_def)
  next
    case 3
    then have "f_rt i = f_rt j \<and> f_rs i = f_rs j \<and> immed i = immed j" using assms(4) by (auto simp: normal_args_def field_text)
    then show ?thesis using 3 by (elim insertE emptyE) (simp_all add: exec_op_def o)
  next
    case 4
    then have "f_rt i = f_rt j \<and> immed i = immed j" using assms(4) by (simp add: normal_args_def field_text)
    then show ?thesis using 4 immed_high [of i j] by (simp add: exec_op_def o)
  next
    case 5
    then have a: "normal_args opc k xpc = R (f_rt k) @ '',0x'' @ hex (immed k) @ ''('' @ R (f_rs k) @ '')''" for k
      unfolding normal_args_def by auto
    have "f_rt i = f_rt j \<and> f_rs i = f_rs j \<and> immed i = immed j" using assms(4) unfolding a by (simp add: field_text)
    then show ?thesis using 5 memory_same [of i j be opc st] by (elim insertE emptyE) (simp_all add: exec_op_def o)
  qed
qed

lemma operationD:
  "operation i = (0, f) \<Longrightarrow> opcode_of i = 0 \<and> unat (i AND 0x3f) = f"
  "operation i = (1, r) \<Longrightarrow> opcode_of i = 1 \<and> f_rt i = r"
  "operation i = (opc, x) \<Longrightarrow> opcode_of i = opc"
  by (simp_all add: operation_def Let_def split: if_splits)

lemma listed_cases:
  assumes "k \<in> set listed_ops"
  obtains f where "f \<in> set special_listed" "k = (0, f)" | r where "k = (1, r)" | opc where "opc \<in> set normal_listed" "k = (opc, 0)"
  using assms unfolding listed_ops_def set_append set_map Un_iff image_iff by blast

lemma bcond_same:
  assumes "opcode_of i = 1" "opcode_of j = 1" "f_rt i = f_rt j" "op_args (1, r) i xpc = op_args (1, r) j xpc"
  shows "exec_op unix be i xpc st = exec_op unix be j xpc st"
proof -
  have "f_rs i = f_rs j \<and> push_bit 2 (immed i) = push_bit 2 (immed j)" using assms(4) by (simp add: op_args_def field_text off16_def)
  then show ?thesis using assms(1-3) by (simp add: exec_op_def opcode_word exec_bcond_def branch_to_def Let_def cong: if_cong)
qed

text \<open>
  C36: The disassembly says what an instruction does. If the text printed for two instructions at an
  address is the same, the interpreter does the same with both in every state, as long as they are
  not among those that are listed without all their operands (JALR, MTHI, MFLO, BLEZ, BGTZ and the
  coprocessor and unused codes): these leave registers out or print the wrong one.
\<close>

theorem disassembly_faithful:
  assumes "dump_ascii False i xpc = dump_ascii False j xpc" "listed i" "listed j"
  shows "exec_op unix be i xpc st = exec_op unix be j xpc st"
proof (cases "i = j")
  case False
  note S = same_text [OF assms False]
  from S(1) show ?thesis
  proof (rule listed_cases)
    fix f assume f: "f \<in> set special_listed" "operation i = (0, f)"
    note i = operationD(1) [OF f(2)] and j = operationD(1) [OF S(2) [symmetric, unfolded f(2)]]
    have "special_args f i = special_args f j" using S(3) f(2) by (simp add: op_args_def)
    then show ?thesis using special_same [OF f(1)] i j by (simp add: exec_op_def opcode_word)
  next
    fix r assume r: "operation i = (1, r)"
    note i = operationD(2) [OF r] and j = operationD(2) [OF S(2) [symmetric, unfolded r]]
    show ?thesis by (rule bcond_same [of i j r]) (use i j S(3) r in simp_all)
  next
    fix opc assume o: "opc \<in> set normal_listed" "operation i = (opc, 0)"
    note i = operationD(3) [OF o(2)] and j = operationD(3) [OF S(2) [symmetric, unfolded o(2)]]
    have "0 \<notin> set normal_listed" "1 \<notin> set normal_listed" by (simp_all add: normal_listed_def)
    then have "opc \<noteq> 0" "opc \<noteq> 1" using o(1) by metis+
    then have "normal_args opc i xpc = normal_args opc j xpc" using S(3) o(2) by (simp add: op_args_def)
    then show ?thesis by (rule normal_same [OF o(1) i j])
  qed
qed simp

text \<open>Two instructions that differ in a field that addition does not use.\<close>

theorem disassembly_faithful_witness:
  "dump_ascii False 0x00221821 64 = dump_ascii False 0x00221861 64 \<and>
   exec_op (\<lambda>n a b c m. (0, m)) False 0x00221821 64 sample_interp = exec_op (\<lambda>n a b c m. (0, m)) False 0x00221861 64 sample_interp"
proof -
  have "listed 0x00221821" "listed 0x00221861" "dump_ascii False 0x00221821 64 = dump_ascii False 0x00221861 64" by code_simp+
  then show ?thesis using disassembly_faithful [of "0x00221821" 64 "0x00221861"] by blast
qed

text \<open>
  MFLO is listed with the wrong field: the text of \<open>mflo r3\<close> is that of \<open>mflo r4\<close>, and the interpreter
  sets register 3 with one and register 4 with the other.
\<close>

lemma mflo_text:
  "dump_ascii False 0x00001812 xpc = dump_ascii False 0x00002012 xpc"
  "exec_op unix be 0x00001812 xpc st = Inr (set_Reg 3 (LO st) st)" "exec_op unix be 0x00002012 xpc st = Inr (set_Reg 4 (LO st) st)"
  by (simp_all add: dump_ascii_def opcode_of_def special_args_def f_rs_def f_rd_def exec_op_def exec_special_def Let_def)

end
