(* ===== verification/Test_Programs.thy ===== *)
theory Test_Programs
  imports Program_Loading
begin

text \<open>
  The user programs of the directory \<open>test\<close>: \<open>sort.c\<close>, \<open>matmult.c\<close> and \<open>testfiles.c\<close> (\<open>halt.c\<close> calls
  \<open>Halt\<close> and nothing else). The arrays are lists with checked indices; the numbers stay far below
  the bounds of an \<open>int\<close>. \<open>testfiles.c\<close> runs on the model of the system calls, at the addresses that
  its string literals and its buffer have. The dimensions of the arrays are arguments, 1024 and 20
  in the programs.

  The lemmas give the values with which the programs exit and the files and the screen that
  they leave: \<open>sort.c\<close> does not sort, \<open>testfiles.c\<close> prints nothing, and programs with arrays as large
  as those of \<open>sort.c\<close> and \<open>matmult.c\<close> are refused by the loader.
\<close>

section \<open>The programs\<close>

text \<open>\<open>main\<close> of \<open>sort.c\<close> with its loops; the result is the argument of \<open>Exit\<close> and the array.\<close>

definition sort_init :: "int \<Rightarrow> int list \<Rightarrow> int list result" where
  "sort_init n = for_each [0..n - 1] (\<lambda>i A. array_set A i (n - i))"

definition sort_step :: "int \<Rightarrow> int list \<Rightarrow> int list result" where
  "sort_step j A =
     bind_result (array_get A j) (\<lambda>x.
     bind_result (array_get A (j + 1)) (\<lambda>y.
       if x > y then bind_result (array_set A j y) (\<lambda>A. array_set A (j + 1) x) else Inr A))"

definition sort_passes :: "int \<Rightarrow> int list \<Rightarrow> int list result" where
  "sort_passes n = for_each [0..n - 2] (\<lambda>i. for_each [i..n - 2 - i] sort_step)"

definition sort_main :: "int \<Rightarrow> (int \<times> int list) result" where
  "sort_main n =
     bind_result (sort_init n (replicate (nat n) 0)) (\<lambda>A.
     bind_result (sort_passes n A) (\<lambda>A.
     bind_result (array_get A 0) (\<lambda>x. Inr (x, A))))"

text \<open>\<open>main\<close> of \<open>matmult.c\<close>.\<close>

definition matrix_get :: "'a list list \<Rightarrow> int \<Rightarrow> int \<Rightarrow> 'a result" where
  "matrix_get m i j = bind_result (array_get m i) (\<lambda>r. array_get r j)"

definition matrix_set :: "'a list list \<Rightarrow> int \<Rightarrow> int \<Rightarrow> 'a \<Rightarrow> 'a list list result" where
  "matrix_set m i j v = bind_result (array_get m i) (\<lambda>r. bind_result (array_set r j v) (array_set m i))"

record matrices =
  matA :: "int list list"
  matB :: "int list list"
  matC :: "int list list"

definition matmult_init :: "int \<Rightarrow> matrices \<Rightarrow> matrices result" where
  "matmult_init Dim =
     for_each [0..Dim - 1] (\<lambda>i. for_each [0..Dim - 1] (\<lambda>j m.
       bind_result (matrix_set (matA m) i j i) (\<lambda>a.
       bind_result (matrix_set (matB m) i j j) (\<lambda>b.
       bind_result (matrix_set (matC m) i j 0) (\<lambda>c. Inr \<lparr>matA = a, matB = b, matC = c\<rparr>)))))"

definition matmult_loop :: "int \<Rightarrow> matrices \<Rightarrow> matrices result" where
  "matmult_loop Dim =
     for_each [0..Dim - 1] (\<lambda>i. for_each [0..Dim - 1] (\<lambda>j. for_each [0..Dim - 1] (\<lambda>k m.
       bind_result (matrix_get (matC m) i j) (\<lambda>c.
       bind_result (matrix_get (matA m) i k) (\<lambda>a.
       bind_result (matrix_get (matB m) k j) (\<lambda>b.
       bind_result (matrix_set (matC m) i j (c + a * b)) (\<lambda>C. Inr (m\<lparr>matC := C\<rparr>))))))))"

definition matmult_main :: "int \<Rightarrow> int result" where
  "matmult_main Dim =
     (let zero = replicate (nat Dim) (replicate (nat Dim) 0)
      in bind_result (matmult_init Dim \<lparr>matA = zero, matB = zero, matC = zero\<rparr>) (\<lambda>m.
         bind_result (matmult_loop Dim m) (\<lambda>m. matrix_get (matC m) (Dim - 1) (Dim - 1))))"

text \<open>\<open>main\<close> of \<open>testfiles.c\<close>.\<close>

definition testfiles_main :: "env \<Rightarrow> kern host \<Rightarrow> 32 word \<Rightarrow> 32 word \<Rightarrow> 32 word \<Rightarrow> sys \<Rightarrow> sys result" where
  "testfiles_main e h nameAddr textAddr bufAddr s =
     bind_result (Create_Syscall e h nameAddr 8 s) (\<lambda>s.
     bind_result (Open_Syscall e h nameAddr 8 s) (\<lambda>(fd, s).
     bind_result (Write_Syscall e h textAddr 16 fd s) (\<lambda>s.
     bind_result (Close_Syscall fd s) (\<lambda>s.
     bind_result (Open_Syscall e h nameAddr 8 s) (\<lambda>(fd, s).
     bind_result (Read_Syscall e h bufAddr 100 fd s) (\<lambda>(bytesread, s).
     bind_result (Write_Syscall e h bufAddr bytesread ConsoleOutput s) (\<lambda>s.
       Close_Syscall fd s)))))))"

section \<open>Arrays as functions\<close>

definition tab :: "nat \<Rightarrow> (nat \<Rightarrow> 'a) \<Rightarrow> 'a list" where
  "tab n f = map f [0..<n]"

lemma tab_array [simp]:
  "i < n \<Longrightarrow> array_get (tab n f) (int i) = Inr (f i)"
  "i < n \<Longrightarrow> array_set (tab n f) (int i) v = Inr (tab n (f(i := v)))"
  by (auto simp: tab_def array_get_def array_set_def intro!: nth_equalityI simp: nth_list_update)

lemma tab_get_Suc [simp]:
  "Suc i < n \<Longrightarrow> array_get (tab n f) (int i + 1) = Inr (f (Suc i))"
  "Suc i < n \<Longrightarrow> array_set (tab n f) (int i + 1) v = Inr (tab n (f(Suc i := v)))"
  using tab_array [of "Suc i"] by (simp_all add: add.commute)

definition tab2 :: "nat \<Rightarrow> (nat \<Rightarrow> nat \<Rightarrow> 'a) \<Rightarrow> 'a list list" where
  "tab2 n f = tab n (\<lambda>i. tab n (f i))"

lemma tab2_matrix [simp]:
  "i < n \<Longrightarrow> j < n \<Longrightarrow> matrix_get (tab2 n f) (int i) (int j) = Inr (f i j)"
  "i < n \<Longrightarrow> j < n \<Longrightarrow> matrix_set (tab2 n f) (int i) (int j) v = Inr (tab2 n (f(i := (f i)(j := v))))"
proof -
  assume ij: "i < n" "j < n"
  have "(\<lambda>i. tab n (f i))(i := tab n ((f i)(j := v))) = (\<lambda>k. tab n ((f(i := (f i)(j := v))) k))" by (auto simp: fun_eq_iff)
  then show "matrix_set (tab2 n f) (int i) (int j) v = Inr (tab2 n (f(i := (f i)(j := v))))"
    using ij by (simp add: matrix_set_def tab2_def)
qed (simp add: matrix_get_def tab2_def)

lemma tab2_cong: "(\<And>i j. i < n \<Longrightarrow> j < n \<Longrightarrow> f i j = g i j) \<Longrightarrow> tab2 n f = tab2 n g"
  by (simp add: tab2_def tab_def)

lemma tab2_replicate: "replicate n (replicate n c) = tab2 n (\<lambda>_ _. c)"
  by (simp add: tab2_def tab_def map_replicate_const)

section \<open>Sorting\<close>

text \<open>One comparison, and a pass that carries the first element of its range to the end of it.\<close>

definition bubble :: "nat \<Rightarrow> (nat \<Rightarrow> int) \<Rightarrow> nat \<Rightarrow> int" where
  "bubble j f = (if f j > f (Suc j) then f(j := f (Suc j), Suc j := f j) else f)"

lemma sort_step_tab: "Suc j < n \<Longrightarrow> sort_step (int j) (tab n f) = Inr (tab n (bubble j f))"
  by (simp add: sort_step_def bubble_def)

lemma bubble_up:
  assumes "\<And>k. i < k \<Longrightarrow> k \<le> i + d \<Longrightarrow> f k < f i"
  shows "fold bubble [i..<i + d] f = (\<lambda>k. if i \<le> k \<and> k < i + d then f (Suc k) else if k = i + d then f i else f k)"
  using assms
proof (induction d)
  case (Suc d)
  let ?g = "\<lambda>k. if i \<le> k \<and> k < i + d then f (Suc k) else if k = i + d then f i else f k"
  have "fold bubble [i..<i + Suc d] f = bubble (i + d) ?g" using Suc by simp
  also have "\<dots> = (\<lambda>k. if i \<le> k \<and> k < i + Suc d then f (Suc k) else if k = i + Suc d then f i else f k)"
    using Suc.prems [of "Suc (i + d)"] by (auto simp: bubble_def fun_eq_iff less_Suc_eq)
  finally show ?case .
qed auto

text \<open>The array after \<open>i\<close> passes: both ends are fixed, and what is between them is still in descending order.\<close>

definition after_passes :: "nat \<Rightarrow> nat \<Rightarrow> nat \<Rightarrow> int" where
  "after_passes n i k =
     (if k < i then int n - 1 - 2 * int k else if n - i \<le> k then int n - 2 * (int n - 1 - int k) else int n - int i - int k)"

lemma one_pass:
  assumes "2 * i + 2 \<le> n"
  shows "for_each [int i..int n - 2 - int i] sort_step (tab n (after_passes n i)) = Inr (tab n (after_passes n (Suc i)))"
proof -
  define d where "d = n - 1 - 2 * i"
  have d: "n = 2 * i + d + 1" "0 < d" using assms by (simp_all add: d_def)
  have e: "[int i..int n - 2 - int i] = map int [i..<i + d]" using upto_upt [of i "i + d"] d by (simp add: algebra_simps)
  have "for_each [int i..int n - 2 - int i] sort_step (tab n (after_passes n i)) = Inr (tab n (fold (\<lambda>j. bubble (nat j)) (map int [i..<i + d]) (after_passes n i)))"
    unfolding e by (rule for_each_fold [where S = "tab n"]) (use d in \<open>auto simp: sort_step_tab\<close>)
  also have "fold (\<lambda>j. bubble (nat j)) (map int [i..<i + d]) (after_passes n i) = fold bubble [i..<i + d] (after_passes n i)" by (simp add: fold_map comp_def)
  also have "\<dots> = (\<lambda>k. if i \<le> k \<and> k < i + d then after_passes n i (Suc k) else if k = i + d then after_passes n i i else after_passes n i k)"
    by (rule bubble_up) (use d in \<open>auto simp: after_passes_def\<close>)
  also have "\<dots> = after_passes n (Suc i)" using d by (auto simp: after_passes_def fun_eq_iff)
  finally show ?thesis .
qed

lemma passes:
  assumes "2 * i \<le> n"
  shows "for_each [0..int i - 1] (\<lambda>i. for_each [i..int n - 2 - i] sort_step) (tab n (after_passes n 0)) = Inr (tab n (after_passes n i))"
  using assms
proof (induction i)
  case (Suc i)
  have "[0..int i] = [0..int i - 1] @ [int i]" using upto_rec2 [of 0 "int i"] by simp
  then show ?case using Suc one_pass [of i n] by (simp add: for_each_append)
qed simp

lemma idle_passes:
  assumes "\<forall>i \<in> set is. n - 2 < 2 * i"
  shows "for_each is (\<lambda>i. for_each [i..n - 2 - i] sort_step) A = Inr A"
  using assms by (induction "is") auto

lemma sort_init_tab: "sort_init (int n) (replicate n 0) = Inr (tab n (after_passes n 0))"
proof -
  have "sort_init (int n) (replicate n 0) = Inr (map (\<lambda>i. int n - int i) [0..<n])"
    unfolding sort_init_def by (rule for_each_fill [where get = id and put = "\<lambda>r _. r", simplified]) simp_all
  then show ?thesis by (simp add: tab_def after_passes_def)
qed

lemma sort_result:
  assumes "0 < m"
  shows "sort_main (int (2 * m)) = Inr (int (2 * m) - 1, tab (2 * m) (after_passes (2 * m) m))"
proof -
  have "[0..int (2 * m) - 2] = [0..int m - 1] @ [int m..int (2 * m) - 2]" using upto_split1 [of 0 "int m" "int (2 * m) - 2"] assms by (cases "m = 1") simp_all
  then have "sort_passes (int (2 * m)) (tab (2 * m) (after_passes (2 * m) 0)) = Inr (tab (2 * m) (after_passes (2 * m) m))"
    using passes [of m "2 * m"] by (simp add: sort_passes_def for_each_append idle_passes)
  moreover have "array_get (tab (2 * m) (after_passes (2 * m) m)) 0 = Inr (int (2 * m) - 1)"
    using tab_array(1) [of 0 "2 * m" "after_passes (2 * m) m"] assms by (simp add: after_passes_def)
  ultimately show ?thesis using sort_init_tab [of "2 * m"] by (simp add: sort_main_def nat_mult_distrib)
qed

text \<open>
  C37: The program \<open>sort\<close> does not sort. Its inner loop starts at \<open>i\<close> where it should start at 0, so that
  every pass leaves one more element at the front untouched: the first half of the array ends
  as 1023, 1021, \<dots>, 1 and the second as 2, 4, \<dots>, 1024, and the program exits with 1023, where the
  comment expects the smallest element.
\<close>

theorem sort_does_not_sort:
  "\<exists>A. sort_main 1024 = Inr (1023, A) \<and> length A = 1024 \<and> (\<forall>k < 512. A ! k = 1023 - 2 * int k \<and> A ! (1023 - k) = 1024 - 2 * int k) \<and> \<not> sorted A"
proof -
  let ?A = "tab 1024 (after_passes 1024 512)"
  have k: "?A ! k = 1023 - 2 * int k \<and> ?A ! (1023 - k) = 1024 - 2 * int k" if "k < 512" for k
    using that by (auto simp: tab_def after_passes_def)
  have "\<not> sorted ?A"
  proof
    assume "sorted ?A"
    then have "?A ! 0 \<le> ?A ! 1" by (rule sorted_nth_mono) (simp_all add: tab_def)
    then show False using k [of 0] k [of 1] by simp
  qed
  then show ?thesis using sort_result [of 512] k by (intro exI [of _ ?A]) (simp add: tab_def)
qed

text \<open>The elements around the middle of the array, and the last one.\<close>

theorem sort_does_not_sort_witness:
  "\<exists>A. sort_main 1024 = Inr (1023, A) \<and> A ! 511 = 1 \<and> A ! 512 = 2 \<and> A ! 1023 = 1024"
proof -
  from sort_does_not_sort obtain A where
    A: "sort_main 1024 = Inr (1023, A)" "\<forall>k < 512. A ! k = 1023 - 2 * int k \<and> A ! (1023 - k) = 1024 - 2 * int k" by blast
  have "A ! 511 = 1" "A ! 512 = 2" "A ! 1023 = 1024"
    using A(2) [rule_format, of 511] A(2) [rule_format, of 0] by simp_all
  with A(1) show ?thesis by blast
qed

section \<open>Matrix multiplication\<close>

abbreviation mats :: "nat \<Rightarrow> (nat \<Rightarrow> nat \<Rightarrow> int) \<Rightarrow> (nat \<Rightarrow> nat \<Rightarrow> int) \<Rightarrow> (nat \<Rightarrow> nat \<Rightarrow> int) \<Rightarrow> matrices" where
  "mats n a b c \<equiv> \<lparr>matA = tab2 n a, matB = tab2 n b, matC = tab2 n c\<rparr>"

lemma inner_product:
  assumes "i < n" "j < n"
  shows "for_each [0..int n - 1] (\<lambda>k m.
       bind_result (matrix_get (matC m) (int i) (int j)) (\<lambda>c.
       bind_result (matrix_get (matA m) (int i) k) (\<lambda>a.
       bind_result (matrix_get (matB m) k (int j)) (\<lambda>b.
       bind_result (matrix_set (matC m) (int i) (int j) (c + a * b)) (\<lambda>C. Inr (m\<lparr>matC := C\<rparr>)))))) (mats n A B C) =
     Inr (mats n A B (C(i := (C i)(j := C i j + (\<Sum>k < n. A i k * B k j)))))"
proof -
  have "fold (\<lambda>k C. C(i := (C i)(j := C i j + A i k * B k j))) [0..<m] C = C(i := (C i)(j := C i j + (\<Sum>k < m. A i k * B k j)))" for m
    by (induction m) (auto simp: fun_eq_iff algebra_simps)
  then show ?thesis
    using for_each_upto [where S = "mats n A B" and g = "\<lambda>k C. C(i := (C i)(j := C i j + A i k * B k j))" and x = C and n = n] assms by simp
qed

lemma fold_row:
  "fold (\<lambda>j C. C(i := (C i)(j := C i j + P i j))) [0..<m] C = (\<lambda>a b. if a = i \<and> b < m then C a b + P a b else C a b)"
  for P :: "nat \<Rightarrow> nat \<Rightarrow> int"
  by (induction m) (auto simp: fun_eq_iff less_Suc_eq)

lemma fold_rows:
  "fold (\<lambda>i C a b. if a = i \<and> b < n then C a b + P a b else C a b) [0..<m] C = (\<lambda>a b. if a < m \<and> b < n then C a b + P a b else C a b)"
  for P :: "nat \<Rightarrow> nat \<Rightarrow> int"
  by (induction m) (auto simp: fun_eq_iff less_Suc_eq)

theorem matmult_product:
  "matmult_loop (int n) (mats n A B C) = Inr (mats n A B (\<lambda>i j. if i < n \<and> j < n then C i j + (\<Sum>k < n. A i k * B k j) else C i j))"
proof -
  let ?P = "\<lambda>i j. \<Sum>k < n. A i k * B k j"
  have row: "for_each [0..int n - 1] (\<lambda>j. for_each [0..int n - 1] (\<lambda>k m.
       bind_result (matrix_get (matC m) (int i) j) (\<lambda>c.
       bind_result (matrix_get (matA m) (int i) k) (\<lambda>a.
       bind_result (matrix_get (matB m) k j) (\<lambda>b.
       bind_result (matrix_set (matC m) (int i) j (c + a * b)) (\<lambda>C. Inr (m\<lparr>matC := C\<rparr>))))))) (mats n A B C) =
     Inr (mats n A B (\<lambda>a b. if a = i \<and> b < n then C a b + ?P a b else C a b))" if "i < n" for i C
    using for_each_upto [where S = "mats n A B" and g = "\<lambda>j C. C(i := (C i)(j := C i j + ?P i j))" and x = C and n = n, OF inner_product [OF that]]
    unfolding fold_row [where P = ?P] .
  show ?thesis unfolding matmult_loop_def
    using for_each_upto [where S = "mats n A B" and g = "\<lambda>i C a b. if a = i \<and> b < n then C a b + ?P a b else C a b" and x = C and n = n, OF row]
    unfolding fold_rows [where P = ?P] .
qed

definition assigned :: "(nat \<Rightarrow> nat \<Rightarrow> bool) \<Rightarrow> (nat \<Rightarrow> nat \<Rightarrow> int) \<Rightarrow> (nat \<Rightarrow> nat \<Rightarrow> int) \<Rightarrow> nat \<Rightarrow> nat \<Rightarrow> int" where
  "assigned D f g x y = (if D x y then f x y else g x y)"

lemma assigned_set: "f x y = v \<Longrightarrow> (assigned D f g)(x := (assigned D f g x)(y := v)) = assigned (\<lambda>a b. D a b \<or> a = x \<and> b = y) f g"
  by (auto simp: assigned_def fun_eq_iff)

lemma matmult_init_ok:
  "matmult_init (int n) (mats n a b c) = Inr (mats n (\<lambda>i _. int i) (\<lambda>_ j. int j) (\<lambda>_ _. 0))"
proof -
  let ?S = "\<lambda>D. mats n (assigned D (\<lambda>i _. int i) a) (assigned D (\<lambda>_ j. int j) b) (assigned D (\<lambda>_ _. 0) c)"
  have row: "for_each [0..int n - 1] (\<lambda>j m.
       bind_result (matrix_set (matA m) (int i) j (int i)) (\<lambda>a.
       bind_result (matrix_set (matB m) (int i) j j) (\<lambda>b.
       bind_result (matrix_set (matC m) (int i) j 0) (\<lambda>c. Inr \<lparr>matA = a, matB = b, matC = c\<rparr>)))) (?S D) =
     Inr (?S (fold (\<lambda>j D a b. D a b \<or> a = i \<and> b = j) [0..<n] D))" if "i < n" for i D
    by (rule for_each_upto [where S = ?S]) (use that in \<open>simp add: assigned_set\<close>)
  have "matmult_init (int n) (?S (\<lambda>_ _. False)) = Inr (?S (fold (\<lambda>i. fold (\<lambda>j D a b. D a b \<or> a = i \<and> b = j) [0..<n]) [0..<n] (\<lambda>_ _. False)))"
    unfolding matmult_init_def by (rule for_each_upto [where S = ?S]) (use row in simp)
  moreover have r: "fold (\<lambda>j D a b. D a b \<or> a = i \<and> b = j) [0..<m] D = (\<lambda>a b. D a b \<or> a = i \<and> b < m)" for i m :: nat and D
    by (induction m) (auto simp: fun_eq_iff less_Suc_eq)
  have "fold (\<lambda>i D a b. D a b \<or> a = i \<and> b < n) [0..<m] D = (\<lambda>a b. D a b \<or> a < m \<and> b < n)" for m :: nat and D
    by (induction m) (auto simp: fun_eq_iff less_Suc_eq)
  ultimately have "matmult_init (int n) (?S (\<lambda>_ _. False)) = Inr (?S (\<lambda>a b. a < n \<and> b < n))" unfolding r by simp
  moreover have "?S (\<lambda>_ _. False) = mats n a b c" by (simp add: assigned_def [abs_def])
  moreover have "?S (\<lambda>a b. a < n \<and> b < n) = mats n (\<lambda>i _. int i) (\<lambda>_ j. int j) (\<lambda>_ _. 0)"
    by (auto simp: assigned_def intro!: tab2_cong)
  ultimately show ?thesis by simp
qed

text \<open>
  The program \<open>matmult\<close> multiplies its matrices and exits with the last element of the product; for
  its dimension 20 this is 7220.
\<close>

theorem matmult_exit_value:
  assumes "0 < n"
  shows "matmult_main (int n) = Inr (int n * (int n - 1) ^ 2)"
proof -
  obtain m where m: "n = Suc m" using assms by (cases n) auto
  have "matrix_get (tab2 n f) (int n - 1) (int n - 1) = Inr (f m m)" for f :: "nat \<Rightarrow> nat \<Rightarrow> int"
    using tab2_matrix(1) [of m n m f] by (simp add: m)
  then show ?thesis unfolding matmult_main_def Let_def nat_int tab2_replicate
    by (simp add: matmult_init_ok matmult_product) (simp add: m power2_eq_square)
qed

theorem matmult_exit_value_witness: "matmult_main 20 = Inr 7220"
  using matmult_exit_value [of 20] by simp

section \<open>Files\<close>

abbreviation on_screen :: "sys \<Rightarrow> byte list" where "on_screen s \<equiv> screen (rest s)"

lemma put_table_screen [simp]: "on_screen (put_table t s) = on_screen s"
  by (simp add: put_table_def)

lemma copyin_screen:
  assumes "sys_good n s" "halting h" "env_ok e" "copyin (tries e) h va len s = Inr (r, bs, s')"
  shows "on_screen s' = on_screen s"
  using copyin_flat [of n s h "tries e" va len] assms touched_state(4)
  by (auto simp: sys_good_def env_ok_def split: if_splits)

lemma Create_screen:
  assumes "sys_good n s" "halting h" "env_ok e" "Create_Syscall e h va len s = Inr s'"
  shows "on_screen s' = on_screen s"
  using assms(4) copyin_screen [OF assms(1-3)]
  by (auto simp: Create_Syscall_def bind_result_eq_Inr split: if_splits prod.splits)

lemma Open_screen:
  assumes "sys_good n s" "halting h" "env_ok e" "Open_Syscall e h va len s = Inr (i, s')"
  shows "on_screen s' = on_screen s"
  using assms(4) copyin_screen [OF assms(1-3)]
  by (auto simp: Open_Syscall_def bind_result_eq_Inr Let_def split: if_splits prod.splits option.splits)

lemma Open_disk:
  assumes "sys_good n s" "halting h" "env_ok e" "0 \<le> len" "Open_Syscall e h va len s = Inr (i, s')"
  shows "same_disk (kdisk (rest s)) (kdisk (rest s')) \<and> fileSys (rest s') = fileSys (rest s)"
proof -
  have fl: "flat n (cpu s)" and fs: "fs_ok (fileSys (rest s)) (kdisk (rest s))" and u: "uninit_ok (heap e (clock s))"
    using assms(1,3) by (auto simp: sys_good_def env_ok_def kern_ok_def)
  have sp: "in_space n va len" using Open_Syscall_ok [OF assms(1-4), of va] assms(5) by (auto simp: Open_Syscall_def name_buffer_def new_char_def split: if_splits)
  with copyin_flat [OF fl assms(2), of "tries e" va len] assms(3) obtain s1 where
    s1: "copyin (tries e) h va len s = Inr (len, user_bytes s va len, s1)" "touched n (mainMemory (cpu s)) s s1" by (auto simp: env_ok_def)
  note T = touched_state [OF s1(2)] and nm = terminate_name [OF length_user_bytes [OF fl sp assms(4)]]
  have "is_name (c_name (user_bytes s va len))" by (simp add: readable_def)
  from Open_ok [OF fs u this] show ?thesis using assms(4,5) s1(1) T(4,5) nm
    by (auto simp: Open_Syscall_def bind_result_eq_Inr Let_def put_table_def split: if_splits prod.splits option.splits)
qed

lemma Write_screen:
  assumes "sys_good n s" "halting h" "env_ok e" "Write_Syscall e h va len i s = Inr s'" "i \<noteq> ConsoleOutput"
  shows "on_screen s' = on_screen s"
  using assms(4,5) copyin_screen [OF assms(1-3)]
  by (auto simp: Write_Syscall_def bind_result_eq_Inr Let_def split: if_splits prod.splits option.splits)

lemma Close_screen:
  assumes "Close_Syscall i s = Inr s'"
  shows "on_screen s' = on_screen s"
  using assms by (auto simp: Close_Syscall_def bind_result_eq_Inr split: prod.splits)

definition table_full :: "sys \<Rightarrow> bool" where
  "table_full s \<longleftrightarrow> dom (handles s) = {0..<MaxOpenFiles}"

lemma table_full_iff: "sys_good n s \<Longrightarrow> (\<exists>t. get_table s = Inr t \<and> dom (entries t) = {0..<tsize t}) \<longleftrightarrow> table_full s"
  by (erule kern_okD [OF sys_good_def [THEN iffD1, THEN conjunct2]]) (simp add: table_full_def)

lemma open_empty:
  assumes "sys_good n s" "halting h" "env_ok e" "in_space n nameAddr 8" "\<not> table_full s"
    "user_bytes s nameAddr 8 = nm" "user_files s (fkey (nm @ [0])) = Some F" "handles s 0 \<noteq> None" "handles s 1 \<noteq> None"
  obtains i s' where "Open_Syscall e h nameAddr 8 s = Inr (i, s')" "sys_good n s'" "i \<notin> {ConsoleInput, ConsoleOutput}" "handles s i = None"
    "handle_on s' i (fkey (nm @ [0])) 0" "user_files s' = user_files s" "mainMemory (cpu s') = mainMemory (cpu s)"
    "\<forall>j. j \<noteq> i \<longrightarrow> handles s' j = handles s j" "on_screen s' = on_screen s" "handles s' i \<noteq> None"
proof -
  from Open_Syscall_ok [OF assms(1-3), of 8 nameAddr] assms(4-7) table_full_iff [OF assms(1)] obtain i s' a where
    s': "Open_Syscall e h nameAddr 8 s = Inr (i, s')" "sys_good n s'" "mainMemory (cpu s') = mainMemory (cpu s)" "user_files s' = user_files s"
      "handles s i = None" "names (fileSys (rest s)) (kdisk (rest s)) (fkey (nm @ [0])) = Some a"
      "handles s' = (handles s)(i \<mapsto> Some \<lparr>hdr = the_header a (kdisk (rest s)), seekPosition = 0\<rparr>)"
    by (auto split: if_splits)
  show ?thesis
  proof (rule that [OF s'(1,2) _ s'(5) _ s'(4,3) _ Open_screen [OF assms(1-3) s'(1)]])
    show "i \<notin> {ConsoleInput, ConsoleOutput}" using assms(8,9) s'(5) by (auto simp: ConsoleInput_def ConsoleOutput_def)
    show "handle_on s' i (fkey (nm @ [0])) 0"
      using Open_disk [OF assms(1-3) _ s'(1)] s'(6,7) same_disk_cong [of "kdisk (rest s)" "kdisk (rest s')"] by (auto simp: handle_on_def)
  qed (use s' in auto)
qed

lemma table_not_full:
  assumes "sys_good n s" "handles s' = (handles s)(i := None)" "handles s i \<noteq> None"
  shows "\<not> table_full s'"
proof -
  from kern_okD [of s] assms(1) obtain t where t: "table_ok t" "handles s = entries t" "tsize t = MaxOpenFiles"
    by (auto simp: sys_good_def kern_ok_def handles_def)
  have "i \<in> {0..<MaxOpenFiles}" using entries_bounds [OF t(1)] assms(3) t(2,3) by auto
  then show ?thesis using assms(2) unfolding table_full_def by auto
qed

text \<open>
  C38: The program \<open>testfiles\<close> creates a file, writes to it, opens it again, reads it and prints what it
  has read. When there is no such file before, all the calls return, but nothing is printed: a
  file made by the system call Create has length 0 and does not grow. The new file is empty, and
  the program has no more handles than before.
\<close>

theorem testfiles_prints_nothing:
  assumes "sys_good n s" "halting h" "env_ok e" "in_space n nameAddr 8" "in_space n textAddr 16"
    "user_bytes s nameAddr 8 = nm" "room_for (c_name nm) 0 (fileSys (rest s)) (kdisk (rest s))"
    "handles s 0 \<noteq> None" "handles s 1 \<noteq> None" "\<not> table_full s"
  shows "\<exists>s'. testfiles_main e h nameAddr textAddr bufAddr s = Inr s' \<and> on_screen s' = on_screen s \<and>
     user_files s' = (user_files s)(fkey (c_name nm) \<mapsto> []) \<and> handles s' = handles s"
proof -
  let ?k = "fkey (c_name nm)"
  from Create_Syscall_ok [OF assms(1-3), of 8 nameAddr] assms(4,6,7) obtain s1 where
    1: "Create_Syscall e h nameAddr 8 s = Inr s1" "sys_good n s1" "mainMemory (cpu s1) = mainMemory (cpu s)" "handles s1 = handles s"
      "user_files s1 = (user_files s)(?k \<mapsto> [])" by auto
  note c1 = Create_screen [OF assms(1-3) 1(1)]
  have f1: "\<not> table_full s1" "user_files s1 ?k = Some []" "user_bytes s1 nameAddr 8 = nm" "handles s1 0 \<noteq> None" "handles s1 1 \<noteq> None"
    using 1 assms(6,8-10) by (simp_all add: table_full_def)
  from open_empty [OF 1(2) assms(2-4) f1(1,3,2,4,5)] obtain i s2 where
    2: "Open_Syscall e h nameAddr 8 s1 = Inr (i, s2)" "sys_good n s2" "i \<notin> {ConsoleInput, ConsoleOutput}" "handles s1 i = None"
    "handle_on s2 i ?k 0" "user_files s2 = user_files s1" "mainMemory (cpu s2) = mainMemory (cpu s1)"
    "\<forall>j. j \<noteq> i \<longrightarrow> handles s2 j = handles s1 j" "on_screen s2 = on_screen s1" "handles s2 i \<noteq> None" by metis
  from Write_Syscall_file [OF 2(2) assms(2,3) _ 2(3,5) _ assms(5), of "[]"] f1(2) 2(6) obtain s3 where
    3: "Write_Syscall e h textAddr 16 i s2 = Inr s3" "sys_good n s3" "mainMemory (cpu s3) = mainMemory (cpu s2)" "handle_on s3 i ?k 0"
      "\<forall>j. j \<noteq> i \<longrightarrow> handles s3 j = handles s2 j" "user_files s3 = user_files s2" by (auto simp: read_at_def fun_upd_idem)
  note c3 = Write_screen [OF 2(2) assms(2,3) 3(1)]
  from Close_Syscall_ok [OF 3(2), of i] obtain s4 where
    4: "Close_Syscall i s3 = Inr s4" "sys_good n s4" "cpu s4 = cpu s3" "user_files s4 = user_files s3" "handles s4 = (handles s3)(i := None)" by blast
  have h4: "handles s4 = handles s" using 4(5) 3(5) 2(4,8) 1(4) by (auto simp: fun_eq_iff)
  have f4: "\<not> table_full s4" "user_files s4 ?k = Some []" "user_bytes s4 nameAddr 8 = nm" "handles s4 0 \<noteq> None" "handles s4 1 \<noteq> None"
    using table_not_full [OF 3(2) 4(5)] 3(4) 4(3,4) 3(3,6) 2(6,7) f1 1(3) assms(6,8,9) h4 by (auto simp: handle_on_def)
  from open_empty [OF 4(2) assms(2-4) f4(1,3,2,4,5)] obtain j s5 where
    5: "Open_Syscall e h nameAddr 8 s4 = Inr (j, s5)" "sys_good n s5" "j \<notin> {ConsoleInput, ConsoleOutput}" "handles s4 j = None"
    "handle_on s5 j ?k 0" "user_files s5 = user_files s4" "\<forall>l. l \<noteq> j \<longrightarrow> handles s5 l = handles s4 l" "on_screen s5 = on_screen s4" by metis
  have "in_space n bufAddr 0" by (simp add: in_space_def)
  with Read_Syscall_file [OF 5(2) assms(2) _ 5(3,5), of 100 "[]" bufAddr e] f4(2) 5(6) obtain s6 where
    6: "Read_Syscall e h bufAddr 100 j s5 = Inr (0, s6)" "sys_good n s6" "\<forall>l. l \<noteq> j \<longrightarrow> handles s6 l = handles s5 l" "user_files s6 = user_files s5"
    by (auto simp: read_at_def)
  have c6: "on_screen s6 = on_screen s5" using 6(1) 5(3) by (auto simp: Read_Syscall_def bind_result_eq_Inr Let_def split: if_splits prod.splits option.splits)
  from Write_Syscall_console [OF 6(2) assms(2,3), of 0 bufAddr] obtain s7 where
    7: "Write_Syscall e h bufAddr 0 ConsoleOutput s6 = Inr s7" "sys_good n s7" "on_screen s7 = on_screen s6" "handles s7 = handles s6" "user_files s7 = user_files s6"
    by (auto simp: in_space_def read_at_def)
  from Close_Syscall_ok [OF 7(2), of j] obtain s8 where
    8: "Close_Syscall j s7 = Inr s8" "user_files s8 = user_files s7" "handles s8 = (handles s7)(j := None)" by blast
  have "handles s8 = handles s" using 8(3) 7(4) 6(3) 5(4,7) h4 by (auto simp: fun_eq_iff)
  moreover have "on_screen s8 = on_screen s"
    using Close_screen [OF 8(1)] 7(3) c6 5(8) Close_screen [OF 4(1)] c3 2(3,9) c1 by simp
  moreover have "testfiles_main e h nameAddr textAddr bufAddr s = Inr s8"
    using 1(1) 2(1) 3(1) 4(1) 5(1) 6(1) 7(1) 8(1) by (simp add: testfiles_main_def)
  ultimately show ?thesis using 8(2) 7(5) 6(4) 5(6) 4(4) 3(6) 2(6) 1(5) by auto
qed

text \<open>The program on a newly formatted disk, with the handles that a program starts with.\<close>

lemma fresh_state:
  "\<exists>s. sys_good 10 s \<and> cpu s = flat_machine (some_registers 0 0 0 0) \<and> handles s = [0 \<mapsto> None, 1 \<mapsto> None] \<and> user_files s = Map.empty \<and>
     on_screen s = [] \<and> room_for nm 0 (fileSys (rest s)) (kdisk (rest s))"
proof -
  from new_disk obtain d0 where d0: "idle_disk d0" by blast
  from format_ok [OF d0 zero_memory_ok] obtain fs d where f: "fs_ok fs d" "files fs d = Map.empty" "card (marked (the_map fs d)) = 5" by blast
  have e: "names fs d = Map.empty" using f(2) by (auto simp: files_def fun_eq_iff)
  have "int (card (free_bits (the_map fs d))) = NumSectors - 5"
    using card_free_bits [OF fs_headers(5) [OF f(1)]] f(3) by (simp add: numBits_map)
  then have rm: "room_for nm 0 fs d"
    unfolding room_for_def e by (simp add: fs_numbers divRoundUp_def SectorSize_def NumDirEntries_def)
  from Table_ctor_ok [of MaxOpenFiles "\<lambda>_. 0" "\<lambda>_. None :: OpenFile option"] obtain t0 :: "OpenFile Table" where
    t0: "table_ok t0" "tsize t0 = MaxOpenFiles" "entries t0 = Map.empty" by (auto simp: MaxOpenFiles_def)
  have D0: "dom (entries t0) = {0..<0}" "0 < tsize t0" by (simp_all add: t0 MaxOpenFiles_def)
  from Table_Put_next [OF t0(1) D0(1) order_refl D0(2), of None] obtain t1 where
    t1: "table_ok t1" "tsize t1 = tsize t0" "entries t1 = (entries t0)(0 \<mapsto> None)" "dom (entries t1) = {0..<0 + 1}" by blast
  have D1: "0 \<le> (0 + 1 :: int)" "0 + 1 < tsize t1" by (simp_all add: t0(2) t1(2) MaxOpenFiles_def)
  from Table_Put_next [OF t1(1,4) D1, of None] obtain t2 where
    t2: "table_ok t2" "tsize t2 = tsize t1" "entries t2 = (entries t1)(0 + 1 \<mapsto> None)" by blast
  let ?s = "\<lparr>cpu = flat_machine (some_registers 0 0 0 0), mode = SystemMode, clock = 0,
    rest = \<lparr>fileSys = fs, kdisk = d, space = Some \<lparr>fileTable = t2, spacePages = [], numPages = 10\<rparr>, screen = [], keyboard = []\<rparr>\<rparr>"
  have "sys_good 10 ?s" using f(1) t0 t1 t2 by (auto simp: sys_good_def kern_ok_def flat_machine_flat split: if_splits)
  then show ?thesis using f(2) t0(3) t1(3) t2(3) rm by (intro exI [of _ ?s]) (simp add: handles_def)
qed

theorem testfiles_prints_nothing_witness:
  "\<exists>s s'. testfiles_main sample_env (kernel_host 2 sample_env) 0 8 24 s = Inr s' \<and> on_screen s = [] \<and> on_screen s' = [] \<and>
     user_files s' = [fkey (c_name (replicate 8 65)) \<mapsto> []]"
proof -
  from fresh_state [of "c_name (replicate 8 65)"] obtain s where
    s: "sys_good 10 s" "cpu s = flat_machine (some_registers 0 0 0 0)" "handles s = [0 \<mapsto> None, 1 \<mapsto> None]" "user_files s = Map.empty"
      "on_screen s = []" "room_for (c_name (replicate 8 65)) 0 (fileSys (rest s)) (kdisk (rest s))" by blast
  have "user_bytes s 0 8 = replicate 8 65" using s(2) by (simp add: flat_machine_def read_at_def machine_consts)
  moreover have "5 \<in> {0..<MaxOpenFiles}" "5 \<notin> dom (handles s)" by (simp_all add: MaxOpenFiles_def s(3))
  then have "\<not> table_full s" unfolding table_full_def by blast
  moreover have "halting (kernel_host 2 sample_env)" using kernel_host_halting [of 1 sample_env] by (simp add: numeral_2_eq_2)
  moreover have "in_space 10 0 8" "in_space 10 8 16" by (simp_all add: in_space_def machine_consts)
  ultimately show ?thesis
    using testfiles_prints_nothing [OF s(1) _ sample_env_ok, of "kernel_host 2 sample_env" 0 8 "replicate 8 65" 24] s(3-6) by auto
qed

section \<open>Programs that do not fit\<close>

definition program_size :: "NoffHeader \<Rightarrow> nat" where
  "program_size H = unat (seg_size (code H)) + unat (seg_size (initData H)) + unat (seg_size (uninitData H))"

text \<open>
  C39: A program whose segments are larger than 24 pages, the 32 of the machine less 8 for the stack, is
  refused: the assertion of the constructor of the address space fails. The array of \<open>sort.c\<close> alone
  has 4096 bytes, all of the memory of the machine, and the matrices of \<open>matmult.c\<close> have 4800.
\<close>

theorem large_program_refused:
  assumes "header_ok (hdr f)" "idle_disk d" "file_bytes (hdr f) d = X" "40 \<le> length X" "noffMagic (noff_header X) = NOFFMAGIC"
    "24 * PageSize < program_size (noff_header X)" "program_size (noff_header X) < 2 ^ 31"
  shows "AddrSpace_ctor bo j f m d = Inl ASSERT_FAILED"
proof -
  let ?H = "noff_header X"
  let ?w = "pages_for (seg_size (code ?H) + seg_size (initData ?H) + seg_size (uninitData ?H))"
  have "unat (seg_size (code ?H) + seg_size (initData ?H) + seg_size (uninitData ?H)) = program_size ?H"
    using assms(7) unfolding program_size_def by (simp add: unat_word_ariths)
  then have q: "unat ?w = (program_size ?H + 127) div 128"
    using assms(7) by (subst pages_for_nat) simp_all
  have u: "unat (pages_for (of_nat UserStackSize)) = 8" by (subst pages_for_nat) (simp_all add: UserStackSize_def)
  have "24 < (program_size ?H + 127) div 128" "(program_size ?H + 127) div 128 < 2 ^ 25" using assms(6,7) by (auto simp: machine_consts)
  then have "\<not> ?w + pages_for (of_nat UserStackSize) \<le> of_nat NumPhysPages"
    by (simp add: word_le_nat_alt unat_word_ariths u q machine_consts)
  then have "load_image f ?H t m d1 = Inl ASSERT_FAILED" for t d1 by (simp add: load_image_def Let_def)
  then show ?thesis using AddrSpace_ctor_header [OF assms(1-5), of bo j m] by metis
qed

definition sort_program :: "byte list" where
  "sort_program = [0xad, 0xdf, 0xba, 0, 0, 0, 0, 0, 40, 0, 0, 0, 8, 0, 0, 0] @ replicate 20 0 @ [0, 0x10, 0, 0] @ replicate 8 0"

theorem large_program_refused_witness:
  "\<exists>f d. file_bytes (hdr f) d = sort_program \<and> 24 * PageSize < program_size (noff_header sort_program) \<and>
     (\<forall>m. AddrSpace_ctor False \<lparr>junk_words = (\<lambda>_. 1), junk_slots = (\<lambda>_. None), junk_header = (\<lambda>_. 1)\<rparr> f m d = Inl ASSERT_FAILED)"
proof -
  have l: "length sort_program = 48" by (simp add: sort_program_def)
  have z: "bytes_word (replicate 4 0) = 0" by (simp add: numeral_eq_Suc)
  have h: "noffMagic (noff_header sort_program) = NOFFMAGIC" "program_size (noff_header sort_program) = 4104"
    using z by (simp_all add: noff_header_def noff_of_bytes_def segment_at_def word_at_def host_word_def sort_program_def read_at_def
        NOFFMAGIC_def program_size_def)
  from disk_with [OF l] obtain fs d where fs: "fs_ok fs d" "files fs d (fkey [65, 0]) = Some sort_program" by blast
  then obtain a where a: "names fs d (fkey [65, 0]) = Some a" "file_bytes (the_header a d) d = sort_program" by (auto simp: files_def)
  have "header_ok (the_header a d)" "idle_disk d" using name_sector(2) [OF fs(1) a(1)] fs(1) by (simp_all add: good_head_def fs_ok_def)
  then show ?thesis using large_program_refused [of "\<lparr>hdr = the_header a d, seekPosition = 0\<rparr>" d sort_program] a(2) h l
    by (intro exI [of _ "\<lparr>hdr = the_header a d, seekPosition = 0\<rparr>"] exI [of _ d]) (simp add: machine_consts)
qed

end
