(* ===== verification/User_Switch.thy ===== *)
theory User_Switch
  imports Program_Loading
begin

text \<open>
  What a context switch does for user programs: \<open>Thread::SaveUserState\<close> and \<open>Thread::RestoreUserState\<close>
  of \<open>threads/thread.cc\<close>, and the parts of \<open>Scheduler::Run\<close> of \<open>threads/scheduler.cc\<close> in front of and
  behind \<open>SWITCH\<close> that call them, with \<open>AddrSpace::SaveState\<close> and \<open>RestoreState\<close>.

  The lemmas show that a program finds its registers and its page table again after any
  sequence of switches, whatever the programs in between do, and that it need not find its
  memory again: all address spaces start at frame 0.
\<close>

section \<open>Saving and restoring\<close>

record user_thread =
  userRegisters :: "32 word list"
  user_space :: "AddrSpace option"

definition SaveUserState :: "Machine \<Rightarrow> user_thread \<Rightarrow> user_thread result" where
  "SaveUserState m t =
     for_each [0..int NumTotalRegs - 1] (\<lambda>i t.
       bind_result (ReadRegister i m) (\<lambda>v.
       bind_result (array_set (userRegisters t) i v) (\<lambda>r. Inr (t\<lparr>userRegisters := r\<rparr>)))) t"

definition RestoreUserState :: "user_thread \<Rightarrow> Machine \<Rightarrow> Machine result" where
  "RestoreUserState t m =
     for_each [0..int NumTotalRegs - 1] (\<lambda>i m. bind_result (array_get (userRegisters t) i) (\<lambda>v. WriteRegister i v m)) m"

text \<open>\<open>AddrSpace::SaveState\<close> has an empty body.\<close>

definition SaveState :: "AddrSpace \<Rightarrow> Machine \<Rightarrow> AddrSpace" where
  "SaveState sp m = sp"

text \<open>The two blocks of \<open>Scheduler::Run\<close> for programs: in front of the switch and behind it.\<close>

definition switch_out :: "Machine \<Rightarrow> user_thread \<Rightarrow> user_thread result" where
  "switch_out m t =
     (case user_space t of
        Some sp \<Rightarrow> bind_result (SaveUserState m t) (\<lambda>t. Inr (t\<lparr>user_space := Some (SaveState sp m)\<rparr>))
      | None \<Rightarrow> Inr t)"

definition switch_in :: "user_thread \<Rightarrow> Machine \<Rightarrow> Machine result" where
  "switch_in t m =
     (case user_space t of
        Some sp \<Rightarrow> bind_result (RestoreUserState t m) (\<lambda>m. Inr (RestoreState sp m))
      | None \<Rightarrow> Inr m)"

text \<open>A switch from the thread \<open>old\<close> to the thread \<open>new\<close> among the threads \<open>ts\<close>.\<close>

definition user_switch :: "nat \<Rightarrow> nat \<Rightarrow> (nat \<Rightarrow> user_thread) \<Rightarrow> Machine \<Rightarrow> ((nat \<Rightarrow> user_thread) \<times> Machine) result" where
  "user_switch old new ts m =
     bind_result (switch_out m (ts old)) (\<lambda>t.
     let ts = ts(old := t)
     in bind_result (switch_in (ts new) m) (\<lambda>m. Inr (ts, m)))"

section \<open>A round trip\<close>

definition regs_ok :: "Machine \<Rightarrow> bool" where
  "regs_ok m \<longleftrightarrow> length (registers m) = NumTotalRegs"

definition saved_ok :: "user_thread \<Rightarrow> bool" where
  "saved_ok t \<longleftrightarrow> length (userRegisters t) = NumTotalRegs"

lemma SaveUserState_ok:
  assumes "regs_ok m" "saved_ok t"
  shows "SaveUserState m t = Inr (t\<lparr>userRegisters := registers m\<rparr>)"
proof -
  have "SaveUserState m t = Inr (t\<lparr>userRegisters := map (\<lambda>i. registers m ! nat (int i)) [0..<NumTotalRegs]\<rparr>)"
    unfolding SaveUserState_def
    by (rule for_each_fill [where get = userRegisters and put = "\<lambda>r t. t\<lparr>userRegisters := r\<rparr>"])
       (use assms in \<open>simp_all add: saved_ok_def regs_ok_def ReadRegister_def\<close>)
  moreover have "map (\<lambda>i. registers m ! nat (int i)) [0..<NumTotalRegs] = registers m"
    using map_nth [of "registers m"] assms(1) by (simp add: regs_ok_def)
  ultimately show ?thesis by simp
qed

lemma RestoreUserState_ok:
  assumes "regs_ok m" "saved_ok t"
  shows "RestoreUserState t m = Inr (m\<lparr>registers := userRegisters t\<rparr>)"
proof -
  have "RestoreUserState t m = Inr (m\<lparr>registers := map (\<lambda>i. userRegisters t ! nat (int i)) [0..<NumTotalRegs]\<rparr>)"
    unfolding RestoreUserState_def
    by (rule for_each_fill [where get = registers and put = "\<lambda>r m. m\<lparr>registers := r\<rparr>"])
       (use assms in \<open>simp_all add: saved_ok_def regs_ok_def WriteRegister_def\<close>)
  moreover have "map (\<lambda>i. userRegisters t ! nat (int i)) [0..<NumTotalRegs] = userRegisters t"
    using map_nth [of "userRegisters t"] assms(2) by (simp add: saved_ok_def)
  ultimately show ?thesis by simp
qed

section \<open>Sequences of switches\<close>

text \<open>
  A run of programs: the current thread computes (an arbitrary change of the machine that keeps
  the number of registers) or gives the processor to another one.
\<close>

datatype event = Compute "Machine \<Rightarrow> Machine" | Switch nat

fun run_events :: "event list \<Rightarrow> nat \<Rightarrow> (nat \<Rightarrow> user_thread) \<Rightarrow> Machine \<Rightarrow> (nat \<times> (nat \<Rightarrow> user_thread) \<times> Machine) result" where
  "run_events [] cur ts m = Inr (cur, ts, m)"
| "run_events (Compute f # es) cur ts m = run_events es cur ts (f m)"
| "run_events (Switch new # es) cur ts m = bind_result (user_switch cur new ts m) (\<lambda>(ts, m). run_events es new ts m)"

definition computes :: "event list \<Rightarrow> bool" where
  "computes es \<longleftrightarrow> (\<forall>f m. Compute f \<in> set es \<longrightarrow> regs_ok m \<longrightarrow> regs_ok (f m))"

definition not_to :: "nat \<Rightarrow> event list \<Rightarrow> bool" where
  "not_to a es \<longleftrightarrow> Switch a \<notin> set es"

lemma user_switch_ok:
  assumes "regs_ok m" "\<And>i. saved_ok (ts i)" "\<And>i. user_space (ts i) \<noteq> None"
  shows "\<exists>ts' m'. user_switch old new ts m = Inr (ts', m') \<and> ts' = ts(old := (ts old)\<lparr>userRegisters := registers m\<rparr>) \<and>
     m' = RestoreState (the (user_space (ts new))) (m\<lparr>registers := userRegisters (ts' new)\<rparr>)"
proof -
  obtain so sn where s: "user_space (ts old) = Some so" "user_space (ts new) = Some sn" using assms(3) by blast
  have o: "switch_out m (ts old) = Inr ((ts old)\<lparr>userRegisters := registers m\<rparr>)"
    using SaveUserState_ok [OF assms(1) assms(2) [of old]] s(1) by (cases "ts old") (simp add: switch_out_def SaveState_def)
  let ?ts = "ts(old := (ts old)\<lparr>userRegisters := registers m\<rparr>)"
  have "saved_ok (?ts new)" using assms(1,2) by (simp add: saved_ok_def regs_ok_def)
  moreover have "user_space (?ts new) = Some sn" using s by auto
  ultimately have "switch_in (?ts new) m = Inr (RestoreState sn (m\<lparr>registers := userRegisters (?ts new)\<rparr>))"
    using RestoreUserState_ok [OF assms(1)] by (simp add: switch_in_def)
  then show ?thesis using o s(2) by (simp add: user_switch_def Let_def)
qed

definition threads_ok :: "(nat \<Rightarrow> user_thread) \<Rightarrow> bool" where
  "threads_ok ts \<longleftrightarrow> (\<forall>i. saved_ok (ts i) \<and> user_space (ts i) \<noteq> None)"

lemma run_events_append:
  "run_events (es @ fs) cur ts m = bind_result (run_events es cur ts m) (\<lambda>(cur, ts, m). run_events fs cur ts m)"
proof (induction es arbitrary: cur ts m)
  case (Cons e es)
  then show ?case
  proof (cases e)
    case (Switch n)
    then show ?thesis using Cons.IH by (cases "user_switch cur n ts m") auto
  qed simp
qed simp

lemma switch_step:
  assumes "regs_ok m" "threads_ok ts"
  obtains ts' m' where "user_switch old new ts m = Inr (ts', m')" "regs_ok m'" "threads_ok ts'" "ts' = ts(old := (ts old)\<lparr>userRegisters := registers m\<rparr>)"
    "registers m' = userRegisters (ts' new)" "pageTable m' = Some (spacePages (the (user_space (ts new))))"
    "pageTableSize m' = numPages (the (user_space (ts new)))"
proof -
  from user_switch_ok [OF assms(1), of ts old new] assms(2) obtain ts' m' where u: "user_switch old new ts m = Inr (ts', m')"
    "ts' = ts(old := (ts old)\<lparr>userRegisters := registers m\<rparr>)" "m' = RestoreState (the (user_space (ts new))) (m\<lparr>registers := userRegisters (ts' new)\<rparr>)"
    unfolding threads_ok_def by blast
  have t: "threads_ok ts'" using assms by (auto simp: u(2) threads_ok_def saved_ok_def regs_ok_def)
  then have "regs_ok m'" by (simp add: u(3) RestoreState_def regs_ok_def threads_ok_def saved_ok_def)
  with that u t show thesis by (simp add: RestoreState_def)
qed

lemma run_keeps:
  assumes "regs_ok m" "threads_ok ts" "computes es" "not_to a es" "cur \<noteq> a"
  shows "\<exists>cur' ts' m'. run_events es cur ts m = Inr (cur', ts', m') \<and> cur' \<noteq> a \<and> ts' a = ts a \<and> regs_ok m' \<and> threads_ok ts'"
  using assms
proof (induction es cur ts m rule: run_events.induct)
  case (2 f es cur ts m)
  then show ?case by (auto simp: computes_def not_to_def)
next
  case (3 new es cur ts m)
  from switch_step [OF 3(2,3), of cur new] obtain ts' m' where u: "user_switch cur new ts m = Inr (ts', m')" "regs_ok m'" "threads_ok ts'"
    "ts' = ts(cur := (ts cur)\<lparr>userRegisters := registers m\<rparr>)" by metis
  have "computes es" "not_to a es" "new \<noteq> a" using 3(4,5) by (auto simp: computes_def not_to_def)
  note ih = 3(1) [OF u(1) refl u(2,3) this]
  have "ts' a = ts a" using u(4) 3(6) by simp
  with ih show ?case by (simp add: u(1))
qed simp

text \<open>
  C31: A program finds its state again. However many switches and computations of other programs lie
  between the moment a program gives the processor away and the moment it gets it back, it
  goes on with the registers it had, all 40 of them, and with the page table of its own
  address space.
\<close>

theorem user_state_preserved:
  assumes "regs_ok m" "threads_ok ts" "computes es" "not_to a es" "b \<noteq> a"
  shows "\<exists>ts' m'. run_events (Switch b # es @ [Switch a]) a ts m = Inr (a, ts', m') \<and> registers m' = registers m \<and>
     pageTable m' = Some (spacePages (the (user_space (ts a)))) \<and> pageTableSize m' = numPages (the (user_space (ts a)))"
proof -
  from switch_step [OF assms(1,2), of a b] obtain ts1 m1 where 1: "user_switch a b ts m = Inr (ts1, m1)" "regs_ok m1" "threads_ok ts1"
    "ts1 = ts(a := (ts a)\<lparr>userRegisters := registers m\<rparr>)" by metis
  from run_keeps [OF 1(2,3) assms(3-5)] obtain c ts2 m2 where 2: "run_events es b ts1 m1 = Inr (c, ts2, m2)" "c \<noteq> a" "ts2 a = ts1 a"
    "regs_ok m2" "threads_ok ts2" by blast
  from switch_step [OF 2(4,5), of c a] obtain ts3 m3 where 3: "user_switch c a ts2 m2 = Inr (ts3, m3)"
    "ts3 = ts2(c := (ts2 c)\<lparr>userRegisters := registers m2\<rparr>)" "registers m3 = userRegisters (ts3 a)"
    "pageTable m3 = Some (spacePages (the (user_space (ts2 a))))" "pageTableSize m3 = numPages (the (user_space (ts2 a)))" by metis
  show ?thesis using 1 2(1-3) 3 by (simp add: run_events_append)
qed

definition sample_user :: user_thread where
  "sample_user = \<lparr>userRegisters = replicate NumTotalRegs 0, user_space = Some \<lparr>fileTable = \<lparr>tmap = \<lparr>numBits = 0, numWords = 0, words = []\<rparr>, slots = [], tsize = 0\<rparr>,
     spacePages = map identity_entry [0..<9], numPages = 9\<rparr>\<rparr>"

definition sample_cpu :: Machine where
  "sample_cpu = \<lparr>mainMemory = replicate MemorySize 0, registers = replicate NumTotalRegs 7, tlb = None, pageTable = None, pageTableSize = 0,
     lastUsed = replicate NumPhysPages 0, singleStep = False\<rparr>"

theorem user_state_preserved_witness:
  "\<exists>ts' m'. run_events [Switch 2, Compute (set_reg 5 99), Switch 3, Switch 1] 1 (\<lambda>_. sample_user) sample_cpu = Inr (1, ts', m') \<and>
     registers m' = replicate NumTotalRegs 7"
proof -
  have "regs_ok sample_cpu" "threads_ok (\<lambda>_. sample_user)" "registers sample_cpu = replicate NumTotalRegs 7"
    by (simp_all add: regs_ok_def sample_cpu_def threads_ok_def saved_ok_def sample_user_def)
  moreover have "computes [Compute (set_reg 5 99), Switch 3]" "not_to 1 [Compute (set_reg 5 99), Switch 3]"
    by (simp_all add: computes_def not_to_def regs_ok_def)
  ultimately show ?thesis using user_state_preserved [of sample_cpu "\<lambda>_. sample_user" "[Compute (set_reg 5 99), Switch 3]" 1 2] by auto
qed

section \<open>All address spaces start at frame 0\<close>

lemma overlay_same:
  assumes "length mem = length mem'" "a < length mem" "mem ! a = mem' ! a"
  shows "overlay p bs mem ! a = overlay p bs mem' ! a \<and> length (overlay p bs mem) = length (overlay p bs mem') \<and> length mem \<le> length (overlay p bs mem)"
  using assms nth_write_at [of a mem p bs] nth_write_at [of a mem' p bs] by (auto simp: overlay_def)

lemma program_image_fixed:
  assumes "length mem = length mem'" "a < page_count (noff_header X) * PageSize" "page_count (noff_header X) * PageSize \<le> length mem"
  shows "program_image X mem ! a = program_image X mem' ! a"
proof -
  let ?z = "replicate (page_count (noff_header X) * PageSize) (0 :: byte)" and ?H = "noff_header X"
  let ?o1 = "overlay (unat (virtualAddr (code ?H))) (seg_bytes X (code ?H))"
  have z: "length (write_at 0 ?z mem) = length (write_at 0 ?z mem')" "a < length (write_at 0 ?z mem)" "write_at 0 ?z mem ! a = write_at 0 ?z mem' ! a"
    using assms nth_write_at [of a mem 0 ?z] nth_write_at [of a mem' 0 ?z] by simp_all
  note o1 = overlay_same [OF z, of "unat (virtualAddr (code ?H))" "seg_bytes X (code ?H)"]
  have "a < length (?o1 (write_at 0 ?z mem))" using o1 z(2) by linarith
  with o1 overlay_same [of "?o1 (write_at 0 ?z mem)" "?o1 (write_at 0 ?z mem')" a] show ?thesis unfolding program_image_def Let_def by blast
qed

text \<open>
  C32: Two programs at a time do not work. The loader gives every address space the frames from 0 on:
  the second program has the same frames as the first, and loading it replaces the contents of
  all of its frames, so that nothing of the first program is left in them.
\<close>

theorem programs_share_frames:
  assumes "header_ok (hdr f)" "header_ok (hdr g)" "idle_disk d" "file_bytes (hdr f) d = X" "file_bytes (hdr g) d = Y" "noff_ok X" "noff_ok Y"
    "length (mainMemory m) = MemorySize"
  shows "\<exists>sx m1 d1 sy m2 d2. AddrSpace_ctor bo j f m d = Inr (sx, m1, d1) \<and> AddrSpace_ctor bo j' g m1 d1 = Inr (sy, m2, d2) \<and>
     (\<forall>p < min (page_count (noff_header X)) (page_count (noff_header Y)). physicalPage (spacePages sx ! p) = physicalPage (spacePages sy ! p)) \<and>
     (\<forall>a < page_count (noff_header Y) * PageSize. mainMemory m2 ! a = program_image Y (replicate MemorySize 0) ! a)"
proof -
  from AddrSpace_ctor_ok [OF assms(1,3,4,6,8), of bo j] obtain sx d1 where
    x: "AddrSpace_ctor bo j f m d = Inr (sx, m\<lparr>mainMemory := program_image X (mainMemory m)\<rparr>, d1)" "same_disk d d1"
      "spacePages sx = map identity_entry [0..<page_count (noff_header X)]" "length (program_image X (mainMemory m)) = MemorySize" by blast
  let ?m1 = "m\<lparr>mainMemory := program_image X (mainMemory m)\<rparr>"
  have d1: "idle_disk d1" "file_bytes (hdr g) d1 = Y" using x(2) same_disk_cong(2) [OF x(2)] assms(5) by (simp_all add: same_disk_def)
  have "length (mainMemory ?m1) = MemorySize" using x(4) by simp
  from AddrSpace_ctor_ok [OF assms(2) d1 assms(7) this, of bo j'] obtain sy d2 where
    y: "AddrSpace_ctor bo j' g ?m1 d1 = Inr (sy, ?m1\<lparr>mainMemory := program_image Y (mainMemory ?m1)\<rparr>, d2)"
      "spacePages sy = map identity_entry [0..<page_count (noff_header Y)]" by blast
  have n: "page_count (noff_header Y) * PageSize \<le> MemorySize" using page_count_word(2) [OF assms(7)] by (simp add: machine_consts)
  have "program_image Y (program_image X (mainMemory m)) ! a = program_image Y (replicate MemorySize 0) ! a"
    if "a < page_count (noff_header Y) * PageSize" for a
    using program_image_fixed [OF _ that, of "program_image X (mainMemory m)" "replicate MemorySize 0"] x(4) n by simp
  then show ?thesis using x(1,3) y by (intro exI conjI) auto
qed

theorem programs_share_frames_witness:
  "\<exists>f d sx m1 d1 sy m2 d2. AddrSpace_ctor False \<lparr>junk_words = (\<lambda>_. 1), junk_slots = (\<lambda>_. None), junk_header = (\<lambda>_. 1)\<rparr> f sample_cpu d = Inr (sx, m1, d1) \<and>
     AddrSpace_ctor False \<lparr>junk_words = (\<lambda>_. 1), junk_slots = (\<lambda>_. None), junk_header = (\<lambda>_. 1)\<rparr> f m1 d1 = Inr (sy, m2, d2) \<and>
     physicalPage (spacePages sx ! 0) = physicalPage (spacePages sy ! 0)"
proof -
  from sample_disk obtain fs d where fs: "fs_ok fs d" "files fs d (fkey [65, 0]) = Some sample_program" by blast
  then obtain a where a: "names fs d (fkey [65, 0]) = Some a" "file_bytes (the_header a d) d = sample_program" by (auto simp: files_def)
  have h: "header_ok (the_header a d)" using name_sector(2) [OF fs(1) a(1)] by (simp add: good_head_def)
  have i: "idle_disk d" using fs(1) by (simp add: fs_ok_def)
  have m: "length (mainMemory sample_cpu) = MemorySize" by (simp add: sample_cpu_def)
  let ?f = "\<lparr>hdr = the_header a d, seekPosition = 0\<rparr>"
  have f: "header_ok (hdr ?f)" "file_bytes (hdr ?f) d = sample_program" using h a(2) by simp_all
  have "0 < min (page_count (noff_header sample_program)) (page_count (noff_header sample_program))" by (simp add: sample_program_ok)
  with programs_share_frames [OF f(1) f(1) i f(2) f(2) sample_program_ok(1) sample_program_ok(1) m, of False
      "\<lparr>junk_words = (\<lambda>_. 1), junk_slots = (\<lambda>_. None), junk_header = (\<lambda>_. 1)\<rparr>"
      "\<lparr>junk_words = (\<lambda>_. 1), junk_slots = (\<lambda>_. None), junk_header = (\<lambda>_. 1)\<rparr>"]
  show ?thesis by (elim exE conjE) (intro exI conjI, assumption+, blast)
qed

end
