(* ===== verification/Stack_Examples.thy ===== *)
theory Stack_Examples
  imports Linked_List
begin

text \<open>
  The stacks that the C++ tutorial of the repository builds (directory \<open>c++example\<close>): a stack in an
  array for any type of elements (\<open>templatestack.cc\<close>; \<open>stack.cc\<close> and the class \<open>ArrayStack\<close> of
  \<open>inheritstack.cc\<close> are the same code for \<open>int\<close>), a stack on a linked list (\<open>ListStack\<close> on
  \<open>list.cc\<close>), the abstract class with its virtual functions, and the self tests.

  The locale \<open>lifo\<close> is the contract of the abstract class: what \<open>Push\<close>, \<open>Pop\<close>, \<open>Full\<close> and \<open>Empty\<close>
  do to the sequence of values on the stack. It is interpreted on the array, on the list and on
  the objects of the class hierarchy; the lemmas on sequences of operations and on the self tests
  are proved in it once.
\<close>

section \<open>The stack in an array\<close>

record 'a ArrayStack =
  as_size :: int
  as_top :: int
  as_stack :: "'a list"

text \<open>\<open>junk\<close> is the memory that \<open>new T[size]\<close> returns.\<close>

definition ArrayStack_ctor :: "(nat \<Rightarrow> 'a) \<Rightarrow> int \<Rightarrow> 'a ArrayStack result" where
  "ArrayStack_ctor junk sz =
     bind_result (ASSERT (sz \<ge> 1)) (\<lambda>_. Inr \<lparr>as_size = sz, as_top = 0, as_stack = map junk [0..<nat sz]\<rparr>)"

definition ArrayStack_Full :: "'a ArrayStack \<Rightarrow> bool" where
  "ArrayStack_Full s \<longleftrightarrow> as_top s = as_size s"

definition ArrayStack_Empty :: "'a ArrayStack \<Rightarrow> bool" where
  "ArrayStack_Empty s \<longleftrightarrow> as_top s = 0"

definition ArrayStack_Push :: "'a \<Rightarrow> 'a ArrayStack \<Rightarrow> 'a ArrayStack result" where
  "ArrayStack_Push v s =
     bind_result (ASSERT (\<not> ArrayStack_Full s)) (\<lambda>_.
     bind_result (array_set (as_stack s) (as_top s) v) (\<lambda>a. Inr (s\<lparr>as_stack := a, as_top := as_top s + 1\<rparr>)))"

definition ArrayStack_Pop :: "'a ArrayStack \<Rightarrow> ('a \<times> 'a ArrayStack) result" where
  "ArrayStack_Pop s =
     bind_result (ASSERT (\<not> ArrayStack_Empty s)) (\<lambda>_.
     let s = s\<lparr>as_top := as_top s - 1\<rparr>
     in bind_result (array_get (as_stack s) (as_top s)) (\<lambda>v. Inr (v, s)))"

section \<open>The list of integers and the stack on it\<close>

text \<open>
  The cells and the pointer assignments are those of \<open>threads/list.cc\<close>, with a number in place of
  the pointer to the item; \<open>Remove\<close> asserts that the list is not empty.
\<close>

type_synonym IntList = "32 word List"

definition IntList_ctor :: IntList where
  "IntList_ctor = \<lparr>heap = (\<lambda>_. None), brk = 0, first_elt = None, last_elt = None\<rparr>"

definition IntList_Empty :: "IntList \<Rightarrow> bool" where
  "IntList_Empty l \<longleftrightarrow> first_elt l = None"

definition IntList_Prepend :: "32 word \<Rightarrow> IntList \<Rightarrow> IntList result" where
  "IntList_Prepend v l0 =
     (let (l, element) = new_ListElement (Some v) 0 l0
      in if IntList_Empty l then Inr (l\<lparr>first_elt := Some element, last_elt := Some element\<rparr>)
         else bind_result (set_next l (Some element) (first_elt l)) (\<lambda>l. Inr (l\<lparr>first_elt := Some element\<rparr>)))"

definition IntList_Remove :: "IntList \<Rightarrow> (32 word \<times> IntList) result" where
  "IntList_Remove l =
     bind_result (ASSERT (\<not> IntList_Empty l)) (\<lambda>_.
     bind_result (deref l (first_elt l)) (\<lambda>element.
       let l1 = (if first_elt l = last_elt l then l\<lparr>first_elt := None, last_elt := None\<rparr> else l\<lparr>first_elt := next_elt element\<rparr>);
           l2 = l1\<lparr>heap := (heap l1)(the (first_elt l) := None)\<rparr>
       in case item element of Some v \<Rightarrow> Inr (v, l2) | None \<Rightarrow> Inl UNDEFINED))"

text \<open>The loop of the destructor, with fuel.\<close>

fun IntList_dtor_loop :: "nat \<Rightarrow> IntList \<Rightarrow> IntList result" where
  "IntList_dtor_loop 0 l = Inl OUT_OF_FUEL"
| "IntList_dtor_loop (Suc n) l =
     (if \<not> IntList_Empty l then bind_result (IntList_Remove l) (\<lambda>(_, l). IntList_dtor_loop n l) else Inr l)"

definition ListStack_ctor :: IntList where "ListStack_ctor = IntList_ctor"

definition ListStack_Push :: "32 word \<Rightarrow> IntList \<Rightarrow> IntList result" where
  "ListStack_Push v s = IntList_Prepend v s"

definition ListStack_Empty :: "IntList \<Rightarrow> bool" where
  "ListStack_Empty s = IntList_Empty s"

definition ListStack_Pop :: "IntList \<Rightarrow> (32 word \<times> IntList) result" where
  "ListStack_Pop s = bind_result (ASSERT (\<not> ListStack_Empty s)) (\<lambda>_. IntList_Remove s)"

definition ListStack_Full :: "IntList \<Rightarrow> bool" where
  "ListStack_Full s = False"

section \<open>The abstract class\<close>

text \<open>An object of a class derived from \<open>Stack\<close>, and its virtual functions.\<close>

datatype Stack_object = ArrayObject "32 word ArrayStack" | ListObject IntList

fun Push :: "32 word \<Rightarrow> Stack_object \<Rightarrow> Stack_object result" where
  "Push v (ArrayObject s) = bind_result (ArrayStack_Push v s) (\<lambda>s. Inr (ArrayObject s))"
| "Push v (ListObject s) = bind_result (ListStack_Push v s) (\<lambda>s. Inr (ListObject s))"

fun Pop :: "Stack_object \<Rightarrow> (32 word \<times> Stack_object) result" where
  "Pop (ArrayObject s) = bind_result (ArrayStack_Pop s) (\<lambda>(v, s). Inr (v, ArrayObject s))"
| "Pop (ListObject s) = bind_result (ListStack_Pop s) (\<lambda>(v, s). Inr (v, ListObject s))"

fun Full :: "Stack_object \<Rightarrow> bool" where
  "Full (ArrayObject s) = ArrayStack_Full s"
| "Full (ListObject s) = ListStack_Full s"

fun Empty :: "Stack_object \<Rightarrow> bool" where
  "Empty (ArrayObject s) = ArrayStack_Empty s"
| "Empty (ListObject s) = ListStack_Empty s"

text \<open>What the self tests print.\<close>

datatype 'a line = pushing 'a | popping 'a

text \<open>
  The loops of the self tests, for any implementation: \<open>inc\<close> is the operator \<open>++\<close> of the type, and
  the loops that run until the stack is full or empty have fuel.
\<close>

fun pop_all :: "('s \<Rightarrow> bool) \<Rightarrow> ('s \<Rightarrow> ('a \<times> 's) result) \<Rightarrow> nat \<Rightarrow> 's \<Rightarrow> ('a line list \<times> 's) result" where
  "pop_all emp pop 0 s = Inl OUT_OF_FUEL"
| "pop_all emp pop (Suc n) s =
     (if emp s then Inr ([], s)
      else bind_result (pop s) (\<lambda>(v, s). bind_result (pop_all emp pop n s) (\<lambda>(ls, s). Inr (popping v # ls, s))))"

fun push_times :: "('s \<Rightarrow> bool) \<Rightarrow> ('a \<Rightarrow> 's \<Rightarrow> 's result) \<Rightarrow> ('a \<Rightarrow> 'a) \<Rightarrow> nat \<Rightarrow> 'a \<Rightarrow> 's \<Rightarrow> ('a line list \<times> 's) result" where
  "push_times full push inc 0 cnt s = Inr ([], s)"
| "push_times full push inc (Suc n) cnt s =
     bind_result (ASSERT (\<not> full s)) (\<lambda>_.
     bind_result (push cnt s) (\<lambda>s.
     bind_result (push_times full push inc n (inc cnt) s) (\<lambda>(ls, s). Inr (pushing cnt # ls, s))))"

fun push_until_full :: "('s \<Rightarrow> bool) \<Rightarrow> ('a \<Rightarrow> 's \<Rightarrow> 's result) \<Rightarrow> ('a \<Rightarrow> 'a) \<Rightarrow> nat \<Rightarrow> 'a \<Rightarrow> 's \<Rightarrow> ('a line list \<times> 's) result" where
  "push_until_full full push inc 0 cnt s = Inl OUT_OF_FUEL"
| "push_until_full full push inc (Suc n) cnt s =
     (if full s then Inr ([], s)
      else bind_result (push cnt s) (\<lambda>s.
           bind_result (push_until_full full push inc n (inc cnt) s) (\<lambda>(ls, s). Inr (pushing cnt # ls, s))))"

text \<open>\<open>Stack::SelfTest\<close> of \<open>inheritstack.cc\<close>, shared by the two implementations.\<close>

definition SelfTest :: "nat \<Rightarrow> nat \<Rightarrow> Stack_object \<Rightarrow> (32 word line list \<times> Stack_object) result" where
  "SelfTest fuel numToPush s =
     bind_result (push_times Full Push (\<lambda>c. c + 1) numToPush 17 s) (\<lambda>(ls, s).
     bind_result (pop_all Empty Pop fuel s) (\<lambda>(ls', s). Inr (ls @ ls', s)))"

text \<open>\<open>Stack<T>::SelfTest\<close> of \<open>templatestack.cc\<close>, and with 17 for \<open>start\<close> that of \<open>stack.cc\<close>.\<close>

definition Template_SelfTest :: "('a \<Rightarrow> 'a) \<Rightarrow> nat \<Rightarrow> 'a \<Rightarrow> 'a ArrayStack \<Rightarrow> ('a line list \<times> 'a ArrayStack) result" where
  "Template_SelfTest inc fuel start s =
     bind_result (push_until_full ArrayStack_Full ArrayStack_Push inc fuel start s) (\<lambda>(ls, s).
     bind_result (pop_all ArrayStack_Empty ArrayStack_Pop fuel s) (\<lambda>(ls', s). Inr (ls @ ls', s)))"

definition Stack_SelfTest :: "nat \<Rightarrow> 32 word ArrayStack \<Rightarrow> (32 word line list \<times> 32 word ArrayStack) result" where
  "Stack_SelfTest fuel s = Template_SelfTest (\<lambda>c. c + 1) fuel 17 s"

section \<open>The contract of a stack\<close>

datatype 'a stack_op = PUSH 'a | POP

text \<open>A sequence of calls, with the values that \<open>Pop\<close> has returned.\<close>

fun run_ops :: "('a \<Rightarrow> 's \<Rightarrow> 's result) \<Rightarrow> ('s \<Rightarrow> ('a \<times> 's) result) \<Rightarrow> 'a stack_op list \<Rightarrow> 's \<Rightarrow> ('a list \<times> 's) result" where
  "run_ops push pop [] s = Inr ([], s)"
| "run_ops push pop (PUSH v # os) s = bind_result (push v s) (run_ops push pop os)"
| "run_ops push pop (POP # os) s = bind_result (pop s) (\<lambda>(v, s). bind_result (run_ops push pop os s) (\<lambda>(vs, s). Inr (v # vs, s)))"

text \<open>The same on the sequence of values, whose first element is the top; an underflow aborts.\<close>

fun lifo_ops :: "'a stack_op list \<Rightarrow> 'a list \<Rightarrow> ('a list \<times> 'a list) result" where
  "lifo_ops [] xs = Inr ([], xs)"
| "lifo_ops (PUSH v # os) xs = lifo_ops os (v # xs)"
| "lifo_ops (POP # os) [] = Inl ASSERT_FAILED"
| "lifo_ops (POP # os) (x # xs) = bind_result (lifo_ops os xs) (\<lambda>(vs, ys). Inr (x # vs, ys))"

text \<open>The stack never holds more than \<open>c\<close> values.\<close>

fun within :: "nat \<Rightarrow> 'a stack_op list \<Rightarrow> nat \<Rightarrow> bool" where
  "within c [] n \<longleftrightarrow> True"
| "within c (PUSH v # os) n \<longleftrightarrow> n < c \<and> within c os (Suc n)"
| "within c (POP # os) n \<longleftrightarrow> within c os (n - 1)"

lemma map_iterate: "map (\<lambda>i. f ((inc ^^ i) c)) [0..<Suc n] = f c # map (\<lambda>i. f ((inc ^^ i) (inc c))) [0..<n]"
  by (simp add: map_upt_Suc funpow_swap1 del: upt_Suc)

locale lifo =
  fixes push :: "'a \<Rightarrow> 's \<Rightarrow> 's result"
    and pop :: "'s \<Rightarrow> ('a \<times> 's) result"
    and full :: "'s \<Rightarrow> bool"
    and emp :: "'s \<Rightarrow> bool"
    and cont :: "'s \<Rightarrow> 'a list"
    and inv :: "'s \<Rightarrow> bool"
    and cap :: nat
  assumes push_ok: "inv s \<Longrightarrow> \<not> full s \<Longrightarrow> \<exists>s'. push v s = Inr s' \<and> inv s' \<and> cont s' = v # cont s"
    and pop_ok: "inv s \<Longrightarrow> cont s = v # vs \<Longrightarrow> \<exists>s'. pop s = Inr (v, s') \<and> inv s' \<and> cont s' = vs"
    and pop_empty: "inv s \<Longrightarrow> cont s = [] \<Longrightarrow> pop s = Inl ASSERT_FAILED"
    and empty_iff: "inv s \<Longrightarrow> emp s \<longleftrightarrow> cont s = []"
    and room: "inv s \<Longrightarrow> length (cont s) < cap \<Longrightarrow> \<not> full s"
begin

lemma run_ok:
  assumes "inv s" "within cap os (length (cont s))"
  shows "case lifo_ops os (cont s) of Inl e \<Rightarrow> run_ops push pop os s = Inl e
    | Inr (vs, ys) \<Rightarrow> \<exists>s'. run_ops push pop os s = Inr (vs, s') \<and> inv s' \<and> cont s' = ys"
  using assms
proof (induction os arbitrary: s)
  case (Cons opn os)
  show ?case
  proof (cases opn)
    case (PUSH v)
    then have "\<not> full s" using room Cons.prems by simp
    from push_ok [OF Cons.prems(1) this, of v] obtain s' where "push v s = Inr s'" "inv s'" "cont s' = v # cont s" by blast
    then show ?thesis using Cons.IH [of s'] Cons.prems(2) PUSH by (auto split: sum.splits prod.splits)
  next
    case POP
    show ?thesis
    proof (cases "cont s")
      case Nil
      then show ?thesis using POP pop_empty [OF Cons.prems(1)] by simp
    next
      case c: (Cons v vs)
      from pop_ok [OF Cons.prems(1) c] obtain s' where s': "pop s = Inr (v, s')" "inv s'" "cont s' = vs" by blast
      then show ?thesis using Cons.IH [of s'] Cons.prems(2) POP c by (cases "lifo_ops os vs") (auto split: prod.splits)
    qed
  qed
qed simp

text \<open>Pushing a sequence of values and popping everything.\<close>

lemma push_times_ok:
  "inv s \<Longrightarrow> length (cont s) + n \<le> cap \<Longrightarrow>
   \<exists>s'. push_times full push inc n c s = Inr (map (\<lambda>i. pushing ((inc ^^ i) c)) [0..<n], s') \<and> inv s' \<and>
     cont s' = rev (map (\<lambda>i. (inc ^^ i) c) [0..<n]) @ cont s"
proof (induction n arbitrary: c s)
  case (Suc n)
  from Suc.prems have "\<not> full s" using room by simp
  with push_ok [OF Suc.prems(1) this, of c] obtain s1 where s1: "push c s = Inr s1" "inv s1" "cont s1 = c # cont s" by blast
  from Suc.IH [OF s1(2), of "inc c"] Suc.prems(2) s1(3) obtain s' where
    s': "push_times full push inc n (inc c) s1 = Inr (map (\<lambda>i. pushing ((inc ^^ i) (inc c))) [0..<n], s')" "inv s'"
      "cont s' = rev (map (\<lambda>i. (inc ^^ i) (inc c)) [0..<n]) @ cont s1" by auto
  show ?case using s1 s' \<open>\<not> full s\<close> unfolding map_iterate map_iterate [of "\<lambda>x. x"] by simp
qed simp

lemma pop_all_ok:
  "inv s \<Longrightarrow> length (cont s) < n \<Longrightarrow> \<exists>s'. pop_all emp pop n s = Inr (map popping (cont s), s') \<and> inv s' \<and> cont s' = []"
proof (induction n arbitrary: s)
  case (Suc n)
  show ?case
  proof (cases "cont s")
    case Nil
    then show ?thesis using Suc.prems(1) empty_iff by auto
  next
    case (Cons v vs)
    from pop_ok [OF Suc.prems(1) Cons] obtain s1 where s1: "pop s = Inr (v, s1)" "inv s1" "cont s1 = vs" by blast
    from Suc.IH [OF s1(2)] Suc.prems(2) Cons s1(3) obtain s' where "pop_all emp pop n s1 = Inr (map popping vs, s')" "inv s'" "cont s' = []" by auto
    then show ?thesis using s1(1) Cons Suc.prems(1) empty_iff by auto
  qed
qed simp

end

section \<open>The implementations meet the contract\<close>

definition array_cont :: "'a ArrayStack \<Rightarrow> 'a list" where
  "array_cont s = rev (take (nat (as_top s)) (as_stack s))"

definition array_inv :: "nat \<Rightarrow> 'a ArrayStack \<Rightarrow> bool" where
  "array_inv c s \<longleftrightarrow> as_size s = int c \<and> length (as_stack s) = c \<and> 0 \<le> as_top s \<and> as_top s \<le> int c"

lemma array_length: "array_inv c s \<Longrightarrow> length (array_cont s) = nat (as_top s)"
  by (auto simp: array_inv_def array_cont_def)

interpretation arr: lifo ArrayStack_Push ArrayStack_Pop ArrayStack_Full ArrayStack_Empty array_cont "array_inv c" c for c
proof (unfold_locales, goal_cases)
  case (1 s v)
  then have t: "as_top s < int (length (as_stack s))" "0 \<le> as_top s" by (auto simp: array_inv_def ArrayStack_Full_def)
  then have "nat (as_top s) < length (as_stack s)" by linarith
  then show ?case using 1 t by (auto simp: ArrayStack_Push_def array_inv_def array_cont_def nat_add_distrib take_Suc_conv_app_nth)
next
  case (2 s v vs)
  have n: "as_top s > 0" using array_length [OF 2(1)] 2 by (auto simp: array_inv_def)
  then have n': "nat (as_top s) = Suc (nat (as_top s - 1))" "nat (as_top s - 1) < length (as_stack s)" using 2(1) by (auto simp: array_inv_def)
  have "v = as_stack s ! nat (as_top s - 1)" "vs = rev (take (nat (as_top s - 1)) (as_stack s))"
    using 2(2) n'(2) unfolding array_cont_def n'(1) by (simp_all add: take_Suc_conv_app_nth)
  then show ?case using 2(1) n n'(2) by (auto simp: ArrayStack_Pop_def ArrayStack_Empty_def array_inv_def array_cont_def Let_def)
next
  case (3 s)
  then have "as_top s = 0" using array_length [OF 3(1)] by (auto simp: array_inv_def)
  then show ?case by (simp add: ArrayStack_Pop_def ArrayStack_Empty_def)
next
  case (4 s)
  then show ?case using array_length [OF 4] by (auto simp: ArrayStack_Empty_def array_inv_def)
next
  case (5 s)
  then show ?case using array_length [OF 5(1)] by (auto simp: ArrayStack_Full_def array_inv_def)
qed

lemma IntList_eq:
  "IntList_Empty l = IsEmpty l" "IntList_Prepend v l = Prepend (Some v) l"
  by (simp_all add: IntList_Empty_def IsEmpty_def IntList_Prepend_def Prepend_def)

lemma IntList_Remove_eq:
  "\<not> IsEmpty l \<Longrightarrow> SortedRemove l = Inr (Some v, k, l') \<Longrightarrow> IntList_Remove l = Inr (v, l')"
  by (auto simp: IntList_Remove_def IntList_eq SortedRemove_def Let_def result_simps)

definition list_cont :: "IntList \<Rightarrow> 32 word list" where
  "list_cont l = map snd (list_seq l)"

interpretation lst: lifo ListStack_Push ListStack_Pop ListStack_Full ListStack_Empty list_cont nonnull_list c for c
proof (unfold_locales, goal_cases)
  case (1 s v)
  then show ?case using plist.pre_ok [of s v] by (auto simp: ListStack_Push_def IntList_eq list_cont_def)
next
  case (2 s v vs)
  then obtain k ys where y: "list_seq s = (k, v) # ys" "vs = map snd ys" by (auto simp: list_cont_def)
  from plist.rem_first [OF 2(1) y(1)] obtain l' where l': "SortedRemove s = Inr (Some v, Some k, l')" "nonnull_list l'" "list_seq l' = ys" by blast
  have "\<not> IsEmpty s" using plist.emp_ok [OF 2(1)] y(1) by simp
  then show ?case using IntList_Remove_eq [OF _ l'(1)] l'(2,3) y(2) by (simp add: ListStack_Pop_def ListStack_Empty_def IntList_eq list_cont_def)
next
  case (3 s)
  then show ?case using plist.emp_ok [of s] by (simp add: ListStack_Pop_def ListStack_Empty_def IntList_eq list_cont_def)
next
  case (4 s)
  then show ?case using plist.emp_ok [of s] by (simp add: ListStack_Empty_def IntList_eq list_cont_def)
next
  case (5 s)
  show ?case by (simp add: ListStack_Full_def)
qed

fun obj_cont :: "Stack_object \<Rightarrow> 32 word list" where
  "obj_cont (ArrayObject s) = array_cont s"
| "obj_cont (ListObject s) = list_cont s"

fun obj_inv :: "nat \<Rightarrow> Stack_object \<Rightarrow> bool" where
  "obj_inv c (ArrayObject s) = array_inv c s"
| "obj_inv c (ListObject s) = nonnull_list s"

interpretation obj: lifo Push Pop Full Empty obj_cont "obj_inv c" c for c
proof (unfold_locales, goal_cases)
  case (1 s v)
  then show ?case using arr.push_ok [of c _ v] lst.push_ok [of _ v] by (cases s) force+
next
  case (2 s v vs)
  then show ?case using arr.pop_ok [of c _ v vs] lst.pop_ok [of _ v vs] by (cases s) force+
next
  case (3 s)
  then show ?case by (cases s) (auto dest: arr.pop_empty lst.pop_empty)
next
  case (4 s)
  then show ?case by (cases s) (auto simp: arr.empty_iff lst.empty_iff)
next
  case (5 s)
  then show ?case by (cases s) (auto dest: arr.room lst.room)
qed

section \<open>The self tests of the other files\<close>

lemma push_until_full_ok:
  assumes "array_inv c s" "c - length (array_cont s) < fuel"
  shows "\<exists>s'. push_until_full ArrayStack_Full ArrayStack_Push inc fuel v s =
      Inr (map (\<lambda>i. pushing ((inc ^^ i) v)) [0..<c - length (array_cont s)], s') \<and> array_inv c s' \<and>
    array_cont s' = rev (map (\<lambda>i. (inc ^^ i) v) [0..<c - length (array_cont s)]) @ array_cont s"
  using assms
proof (induction fuel arbitrary: v s)
  case (Suc fuel)
  show ?case
  proof (cases "ArrayStack_Full s")
    case True
    then have "c - length (array_cont s) = 0" using array_length [OF Suc.prems(1)] Suc.prems(1) by (simp add: ArrayStack_Full_def array_inv_def)
    then show ?thesis using True Suc.prems(1) by simp
  next
    case False
    from arr.push_ok [OF Suc.prems(1) False, of v] obtain s1 where
      s1: "ArrayStack_Push v s = Inr s1" "array_inv c s1" "array_cont s1 = v # array_cont s" by blast
    have "length (array_cont s) < c" using False array_length [OF Suc.prems(1)] Suc.prems(1) by (simp add: ArrayStack_Full_def array_inv_def nat_less_iff)
    then have k: "c - length (array_cont s) = Suc (c - length (array_cont s1))" using s1(3) by simp
    from Suc.IH [OF s1(2), of "inc v"] Suc.prems(2) k obtain s' where
      "push_until_full ArrayStack_Full ArrayStack_Push inc fuel (inc v) s1 = Inr (map (\<lambda>i. pushing ((inc ^^ i) (inc v))) [0..<c - length (array_cont s1)], s')"
      "array_inv c s'" "array_cont s' = rev (map (\<lambda>i. (inc ^^ i) (inc v)) [0..<c - length (array_cont s1)]) @ array_cont s1" by auto
    then show ?thesis using False s1 unfolding k map_iterate map_iterate [of "\<lambda>x. x"] by simp
  qed
qed simp

lemma template_self_test:
  assumes "array_inv c s" "array_cont s = []" "c < fuel"
  shows "\<exists>s'. Template_SelfTest inc fuel start s =
      Inr (map (\<lambda>i. pushing ((inc ^^ i) start)) [0..<c] @ map (\<lambda>i. popping ((inc ^^ i) start)) (rev [0..<c]), s') \<and> array_cont s' = []"
proof -
  from push_until_full_ok [OF assms(1), of fuel inc start] assms(2,3) obtain s1 where
    s1: "push_until_full ArrayStack_Full ArrayStack_Push inc fuel start s = Inr (map (\<lambda>i. pushing ((inc ^^ i) start)) [0..<c], s1)"
      "array_inv c s1" "array_cont s1 = rev (map (\<lambda>i. (inc ^^ i) start) [0..<c])" by auto
  from arr.pop_all_ok [OF s1(2), of fuel] s1(3) assms(3) obtain s' where
    "pop_all ArrayStack_Empty ArrayStack_Pop fuel s1 = Inr (map popping (array_cont s1), s')" "array_cont s' = []" by auto
  then show ?thesis using s1 by (simp add: Template_SelfTest_def rev_map comp_def)
qed

lemma IntList_dtor_ends: "nonnull_list l \<Longrightarrow> length (list_cont l) < n \<Longrightarrow> \<exists>l'. IntList_dtor_loop n l = Inr l' \<and> list_cont l' = []"
proof (induction n arbitrary: l)
  case (Suc n)
  show ?case
  proof (cases "list_cont l")
    case Nil
    then show ?thesis using lst.empty_iff [OF Suc.prems(1)] by (simp add: ListStack_Empty_def)
  next
    case (Cons v vs)
    have e: "\<not> IntList_Empty l" using lst.empty_iff [OF Suc.prems(1)] Cons by (simp add: ListStack_Empty_def)
    from lst.pop_ok [OF Suc.prems(1) Cons] e obtain l1 where "IntList_Remove l = Inr (v, l1)" "nonnull_list l1" "list_cont l1 = vs"
      by (auto simp: ListStack_Pop_def ListStack_Empty_def)
    then show ?thesis using Suc.IH [of l1] Suc.prems(2) Cons e by simp
  qed
qed simp

section \<open>Properties\<close>

lemma new_array: "1 \<le> sz \<Longrightarrow> \<exists>s. ArrayStack_ctor junk (int sz) = Inr s \<and> array_inv sz s \<and> array_cont s = []"
  by (simp add: ArrayStack_ctor_def array_inv_def array_cont_def)

lemma new_list: "nonnull_list ListStack_ctor" "list_cont ListStack_ctor = []"
proof -
  have "ListStack_ctor = List_ctor" by (simp add: ListStack_ctor_def IntList_ctor_def List_ctor_def)
  then show "nonnull_list ListStack_ctor" "list_cont ListStack_ctor = []" using plist.inv_mk plist.seq_mk by (simp_all add: list_cont_def)
qed

text \<open>
  C33: The two implementations of the abstract class are interchangeable: on any sequence of \<open>Push\<close> and
  \<open>Pop\<close> that never has more than \<open>sz\<close> values on the stack, a new \<open>ArrayStack\<close> of size \<open>sz\<close> and a new
  \<open>ListStack\<close> return the same values, those of a last-in-first-out sequence, and both abort when
  an empty stack is popped.
\<close>

theorem stacks_interchangeable:
  assumes "1 \<le> sz" "within sz os 0"
  shows "\<exists>s. ArrayStack_ctor junk (int sz) = Inr s \<and>
     map_sum id fst (run_ops Push Pop os (ArrayObject s)) = map_sum id fst (lifo_ops os []) \<and>
     map_sum id fst (run_ops Push Pop os (ListObject ListStack_ctor)) = map_sum id fst (lifo_ops os [])"
proof -
  from new_array [OF assms(1), of junk] obtain s where s: "ArrayStack_ctor junk (int sz) = Inr s" "array_inv sz s" "array_cont s = []" by blast
  have "map_sum id fst (run_ops Push Pop os x) = map_sum id fst (lifo_ops os [])" if "obj_inv sz x" "obj_cont x = []" for x
    using obj.run_ok [of sz x os] that assms(2) by (auto split: sum.splits prod.splits)
  then show ?thesis using s new_list by (intro exI [of _ s]) simp
qed

theorem stacks_interchangeable_witness:
  "\<exists>s. ArrayStack_ctor (\<lambda>_. 0) 2 = Inr s \<and>
     map_sum id fst (run_ops Push Pop [PUSH 1, PUSH 2, POP, POP] (ArrayObject s)) = Inr [2, 1]"
  using stacks_interchangeable [of 2 "[PUSH 1, PUSH 2, POP, POP]" "\<lambda>_. 0"] by auto

text \<open>
  The self test that the implementations share. It ends, prints the numbers from 17 on as they
  are pushed and then in the opposite order as they are popped, and leaves the stack empty.
\<close>

theorem self_test_output:
  assumes "obj_inv sz s" "obj_cont s = []" "n \<le> sz" "n < fuel"
  shows "\<exists>s'. SelfTest fuel n s = Inr (map (\<lambda>i. pushing (17 + of_nat i)) [0..<n] @ map (\<lambda>i. popping (17 + of_nat i)) (rev [0..<n]), s') \<and>
     obj_inv sz s' \<and> obj_cont s' = []"
proof -
  have p: "((\<lambda>c :: 32 word. c + 1) ^^ i) c = c + of_nat i" for i c by (induction i) simp_all
  from obj.push_times_ok [OF assms(1), of n "\<lambda>c. c + 1" 17] assms(2,3) obtain s1 where
    s1: "push_times Full Push (\<lambda>c. c + 1) n 17 s = Inr (map (\<lambda>i. pushing (17 + of_nat i)) [0..<n], s1)" "obj_inv sz s1"
      "obj_cont s1 = rev (map (\<lambda>i. 17 + of_nat i) [0..<n])" by (auto simp: p)
  from obj.pop_all_ok [OF s1(2), of fuel] assms(4) s1(3) obtain s' where
    "pop_all Empty Pop fuel s1 = Inr (map popping (obj_cont s1), s')" "obj_inv sz s'" "obj_cont s' = []" by auto
  then show ?thesis using s1 by (simp add: SelfTest_def rev_map comp_def)
qed

theorem self_test_output_witness:
  "\<exists>s'. SelfTest 11 10 (ListObject ListStack_ctor) =
     Inr (map (\<lambda>i. pushing (17 + of_nat i)) [0..<10] @ map (\<lambda>i. popping (17 + of_nat i)) (rev [0..<10]), s')"
  using self_test_output [of 10 "ListObject ListStack_ctor" 10 11] new_list by auto

end
