(* ===== verification/Synch_Disk.thy ===== *)
theory Synch_Disk
  imports Sector_Store Kernel_Properties
begin

text \<open>
  The driver of the disk (\<open>filesys/synchdisk.cc\<close>) on the kernel: \<open>ReadSector\<close> and \<open>WriteSector\<close> as the
  calls a thread makes, with the interrupt that wakes it up again. When no other thread is ready
  and no other device is active, they do what the theory \<open>Sector_Store\<close> says of them; the
  interpretation \<open>driver\<close> of its contract \<open>sector_store\<close> makes the lemmas on sequences of sectors
  hold on the kernel too.
\<close>

section \<open>The driver\<close>

text \<open>
  \<open>kernel_call\<close> is a call of the kernel by the current thread, up to its return to the body of the
  thread; \<open>n\<close> bounds the number of steps.
\<close>

fun resume :: "nat \<Rightarrow> host \<Rightarrow> tid \<Rightarrow> nachos \<Rightarrow> nachos result" where
  "resume 0 host t k = Inl OUT_OF_FUEL"
| "resume (Suc n) host t k =
     (if currentThread k = t \<and> in_body k then Inr k
      else bind_result (machine_step host (Kernel None) k) (resume n host t))"

definition kernel_call :: "nat \<Rightarrow> host \<Rightarrow> request \<Rightarrow> nachos \<Rightarrow> nachos result" where
  "kernel_call n host q k = bind_result (machine_step host (Kernel (Some q)) k) (resume n host (currentThread k))"

text \<open>\<open>garbage\<close> is the uninitialised owner of the lock, \<open>f\<close> the file of the disk on the host.\<close>

definition SynchDisk_ctor :: "sid \<Rightarrow> lid \<Rightarrow> tid option \<Rightarrow> UnixFile option \<Rightarrow> nachos \<Rightarrow> nachos result" where
  "SynchDisk_ctor s l garbage f k =
     bind_result (Disk_ctor f) (\<lambda>d.
       Inr (k\<lparr>semaphores := (semaphores k)(s := Semaphore_ctor 0), locks := (locks k)(l := Lock_ctor garbage),
              devs := (devs k)\<lparr>disk := d, sd_semaphore := s, sd_lock := l\<rparr>\<rparr>))"

definition SynchDisk_ReadSector :: "nat \<Rightarrow> host \<Rightarrow> int \<Rightarrow> nachos \<Rightarrow> (byte list \<times> nachos) result" where
  "SynchDisk_ReadSector n host sectorNumber k =
     bind_result (kernel_call n host (Do_Acquire (sd_lock (devs k))) k) (\<lambda>k.
     bind_result (ReadRequest sectorNumber k) (\<lambda>(data, k).
     bind_result (kernel_call n host (Do_P (sd_semaphore (devs k))) k) (\<lambda>k.
     bind_result (kernel_call n host (Do_Release (sd_lock (devs k))) k) (\<lambda>k. Inr (data, k)))))"

definition SynchDisk_WriteSector :: "nat \<Rightarrow> host \<Rightarrow> int \<Rightarrow> byte list \<Rightarrow> nachos \<Rightarrow> nachos result" where
  "SynchDisk_WriteSector n host sectorNumber data k =
     bind_result (kernel_call n host (Do_Acquire (sd_lock (devs k))) k) (\<lambda>k.
     bind_result (WriteRequest sectorNumber data k) (\<lambda>k.
     bind_result (kernel_call n host (Do_P (sd_semaphore (devs k))) k) (\<lambda>k.
       kernel_call n host (Do_Release (sd_lock (devs k))) k)))"

section \<open>A thread on its own\<close>

text \<open>
  The current thread is in its body, no other thread is ready, nothing is pending, and nobody uses
  the disk.
\<close>

definition alone :: "nachos \<Rightarrow> bool" where
  "alone k \<longleftrightarrow> level (intr k) = IntOn \<and> pending (intr k) = [] \<and> \<not> inHandler (intr k) \<and> \<not> yieldOnReturn (intr k) \<and>
     status (intr k) = SystemMode \<and> 0 \<le> totalTicks (stats k) \<and> readyList k = [] \<and> threadToBeDestroyed k = None \<and>
     (\<exists>th fs. threads k (currentThread k) = Some th \<and> tstatus th = RUNNING \<and> frames th = ThreadBody # fs \<and>
        stack th \<in> {None, Some STACK_FENCEPOST}) \<and>
     semaphores k (sd_semaphore (devs k)) = \<lparr>sem_value = 0, sem_queue = []\<rparr> \<and>
     \<not> acquired (locks k (sd_lock (devs k))) \<and> owner (locks k (sd_lock (devs k))) \<noteq> Some (currentThread k) \<and>
     lock_queue (locks k (sd_lock (devs k))) = [] \<and> idle_disk (disk (devs k))"

lemma Acquire_alone:
  assumes "alone k"
  shows "kernel_call (Suc n) host (Do_Acquire (sd_lock (devs k))) k =
    Inr (advance_clock (upd_lock (sd_lock (devs k)) (\<lambda>lk. lk\<lparr>owner := Some (currentThread k), acquired := True\<rparr>) k))"
  using assms
  by (auto simp: alone_def kernel_call_def kernel_eval)

text \<open>The same with a request under way, to be completed at time \<open>w\<close>.\<close>

definition requested :: "nachos \<Rightarrow> int \<Rightarrow> bool" where
  "requested k w \<longleftrightarrow> level (intr k) = IntOn \<and> pending (intr k) = [(w, \<lparr>handler = DiskDone, arg = 0, due = w, type = DiskInt\<rparr>)] \<and>
     \<not> inHandler (intr k) \<and> \<not> yieldOnReturn (intr k) \<and>
     status (intr k) = SystemMode \<and> 0 \<le> totalTicks (stats k) \<and> totalTicks (stats k) < w \<and> readyList k = [] \<and> threadToBeDestroyed k = None \<and>
     (\<exists>th fs. threads k (currentThread k) = Some th \<and> tstatus th = RUNNING \<and> frames th = ThreadBody # fs \<and>
        stack th \<in> {None, Some STACK_FENCEPOST}) \<and>
     semaphores k (sd_semaphore (devs k)) = \<lparr>sem_value = 0, sem_queue = []\<rparr>"

lemma P_requested:
  assumes "requested k w"
  shows "\<exists>st. kernel_call (Suc (Suc (Suc (Suc (Suc (Suc (Suc n))))))) host (Do_P (sd_semaphore (devs k))) k =
    Inr (k\<lparr>intr := (intr k)\<lparr>pending := []\<rparr>, stats := st, devs := (devs k)\<lparr>disk := (disk (devs k))\<lparr>active := False\<rparr>\<rparr>\<rparr>) \<and> 0 \<le> totalTicks st"
proof -
  obtain th fs where th: "threads k (currentThread k) = Some th" "tstatus th = RUNNING" "frames th = ThreadBody # fs"
        "stack th = None \<or> stack th = Some STACK_FENCEPOST" using assms by (auto simp: requested_def)
  obtain i st t ready dead ths sems lks cds rc dv where
    k: "k = \<lparr>intr = i, stats = st, currentThread = t, threadToBeDestroyed = dead, readyList = ready, threads = ths,
      semaphores = sems, locks = lks, conditions = cds, randCount = rc, devs = dv\<rparr>" by (cases k)
  obtain nm sk where th': "th = \<lparr>name = nm, stack = sk, tstatus = RUNNING, frames = ThreadBody # fs\<rparr>"
    using th by (cases th) auto
  have upd: "ths(t \<mapsto> th) = ths" "sems(sd_semaphore dv := \<lparr>sem_value = 0, sem_queue = []\<rparr>) = sems"
    using assms th(1) by (auto simp: requested_def k)
  have fence: "(case sk of None \<Rightarrow> Inr () | Some w \<Rightarrow> ASSERT (w = STACK_FENCEPOST)) = Inr ()"
    using th(4) by (auto simp: th' ASSERT_def)
  show ?thesis
    using assms th upd unfolding th'
    by (simp add: fence k requested_def kernel_call_def kernel_eval HandleInterrupt_def RequestDone_def fire_def cong: bind_weak let_weak)
qed

text \<open>The state behind \<open>Acquire\<close>.\<close>

definition locked :: "nachos \<Rightarrow> nachos" where
  "locked k = advance_clock (upd_lock (sd_lock (devs k)) (\<lambda>lk. lk\<lparr>owner := Some (currentThread k), acquired := True\<rparr>) k)"

text \<open>The state \<open>k'\<close> in which the request has left the disk \<open>d\<close>.\<close>

definition busy_with :: "nachos \<Rightarrow> Disk \<Rightarrow> nachos \<Rightarrow> bool" where
  "busy_with k d k' \<longleftrightarrow> (\<exists>w st. totalTicks st = now (locked k) \<and> totalTicks st < w \<and>
     k' = (locked k)\<lparr>intr := (intr k)\<lparr>pending := [(w, \<lparr>handler = DiskDone, arg = 0, due = w, type = DiskInt\<rparr>)]\<rparr>,
       stats := st, devs := (devs k)\<lparr>disk := d\<rparr>\<rparr>)"

lemma request_served:
  assumes a: "alone k" and b: "busy_with k d k'" and d: "disk_ok d"
  shows "\<exists>k''. bind_result (kernel_call (Suc (Suc (Suc (Suc (Suc (Suc (Suc n))))))) host (Do_P (sd_semaphore (devs k'))) k')
      (\<lambda>k. kernel_call (Suc (Suc (Suc (Suc (Suc (Suc (Suc n))))))) host (Do_Release (sd_lock (devs k))) k) = Inr k'' \<and>
    alone k'' \<and> currentThread k'' = currentThread k \<and> disk (devs k'') = d\<lparr>active := False\<rparr>"
proof -
  from b obtain w st where k': "totalTicks st = now (locked k)" "totalTicks st < w"
    "k' = (locked k)\<lparr>intr := (intr k)\<lparr>pending := [(w, \<lparr>handler = DiskDone, arg = 0, due = w, type = DiskInt\<rparr>)]\<rparr>,
       stats := st, devs := (devs k)\<lparr>disk := d\<rparr>\<rparr>" by (auto simp: busy_with_def)
  have "requested k' w" using a k' by (auto simp: alone_def requested_def locked_def advance_clock_def upd_lock_def tick_defs)
  from P_requested [OF this, of n host] obtain st' where
    p: "kernel_call (Suc (Suc (Suc (Suc (Suc (Suc (Suc n))))))) host (Do_P (sd_semaphore (devs k'))) k' =
      Inr (k'\<lparr>intr := (intr k')\<lparr>pending := []\<rparr>, stats := st', devs := (devs k')\<lparr>disk := (disk (devs k'))\<lparr>active := False\<rparr>\<rparr>\<rparr>)"
      "0 \<le> totalTicks st'" by blast
  have "disk_ok (d\<lparr>active := False\<rparr>)" using d by (simp add: disk_ok_def)
  then show ?thesis unfolding p(1) using a p(2)
    by (auto simp: alone_def k'(3) locked_def kernel_call_def kernel_eval idle_disk_def)
qed

lemma UpdateLast_eq: "\<exists>b. UpdateLast t s d = d\<lparr>lastSector := s, bufferInit := b\<rparr>"
proof -
  obtain seek rotate where "TimeToSeek t s d = (seek, rotate)" by force
  then have "UpdateLast t s d = d\<lparr>lastSector := s, bufferInit := if seek \<noteq> 0 then t + seek + rotate else bufferInit d\<rparr>"
    by (cases d) (simp add: UpdateLast_def)
  then show ?thesis by blast
qed

lemma locked_simps:
  assumes "alone k"
  shows "devs (locked k) = devs k" "intr (locked k) = intr k" "0 \<le> now (locked k)"
  using assms by (simp_all add: locked_def advance_clock_def upd_lock_def alone_def tick_defs)

text \<open>A request that has been started: the interrupt is scheduled, the disk is active.\<close>

lemma Schedule_busy:
  assumes "alone k" "valid_sector s" "totalTicks st = now (locked k)"
  shows "\<exists>b k'. Schedule DiskDone 0 (ComputeLatency (now (locked k)) s writing (disk (devs k))) DiskInt
      ((locked k)\<lparr>devs := (devs k)\<lparr>disk := UpdateLast (now (locked k)) s (d\<lparr>active := True\<rparr>)\<rparr>, stats := st\<rparr>) = Inr k' \<and>
    busy_with k (d\<lparr>active := True, lastSector := s, bufferInit := b\<rparr>) k'"
proof -
  let ?l = "ComputeLatency (now (locked k)) s writing (disk (devs k))"
  from UpdateLast_eq [of "now (locked k)" s "d\<lparr>active := True\<rparr>"] obtain b where
    b: "UpdateLast (now (locked k)) s (d\<lparr>active := True\<rparr>) = d\<lparr>active := True, lastSector := s, bufferInit := b\<rparr>" by auto
  note l = locked_simps [OF assms(1)]
  have "disk_ok (disk (devs k))" using assms(1) by (simp add: alone_def idle_disk_def)
  then have pos: "0 < ?l" using ComputeLatency_bounds(1) [OF l(3) assms(2), of "disk (devs k)" writing] by (simp add: tick_defs)
  moreover have "pending (intr k) = []" using assms(1) by (simp add: alone_def)
  ultimately have "Schedule DiskDone 0 ?l DiskInt ((locked k)\<lparr>devs := (devs k)\<lparr>disk := UpdateLast (now (locked k)) s (d\<lparr>active := True\<rparr>)\<rparr>, stats := st\<rparr>) =
    Inr ((locked k)\<lparr>intr := (intr k)\<lparr>pending := [(now (locked k) + ?l,
      \<lparr>handler = DiskDone, arg = 0, due = now (locked k) + ?l, type = DiskInt\<rparr>)]\<rparr>,
      stats := st, devs := (devs k)\<lparr>disk := d\<lparr>active := True, lastSector := s, bufferInit := b\<rparr>\<rparr>\<rparr>)"
    using assms(3) l(2) unfolding b by (cases "locked k") (simp add: Schedule_def ASSERT_def Let_def)
  moreover have "busy_with k (d\<lparr>active := True, lastSector := s, bufferInit := b\<rparr>)
    ((locked k)\<lparr>intr := (intr k)\<lparr>pending := [(now (locked k) + ?l,
      \<lparr>handler = DiskDone, arg = 0, due = now (locked k) + ?l, type = DiskInt\<rparr>)]\<rparr>,
      stats := st, devs := (devs k)\<lparr>disk := d\<lparr>active := True, lastSector := s, bufferInit := b\<rparr>\<rparr>\<rparr>)"
    unfolding busy_with_def using pos assms(3) by (intro exI [of _ "now (locked k) + ?l"] exI [of _ st]) simp
  ultimately show ?thesis by blast
qed

text \<open>Seven steps bring a thread back from \<open>P\<close>: it goes to sleep, the machine idles until the interrupt, and the thread is dispatched again.\<close>

abbreviation enough :: "nat \<Rightarrow> nat" where "enough n \<equiv> Suc (Suc (Suc (Suc (Suc (Suc (Suc n))))))"

lemma SynchDisk_ReadSector_ok:
  assumes "alone k" "valid_sector s"
  shows "\<exists>data d' b k'. SynchDisk_ReadSector (enough n) host s k = Inr (data, k') \<and> alone k' \<and> currentThread k' = currentThread k \<and>
    ReadSector s (disk (devs k)) = Inr (data, d') \<and> disk (devs k') = d'\<lparr>bufferInit := b\<rparr>"
proof -
  let ?d = "disk (devs k)"
  have d: "disk_ok ?d" "\<not> active ?d" using assms(1) by (auto simp: alone_def idle_disk_def)
  from transfer_in_ok [OF assms(2) d] obtain g where
    g: "transfer_in s ?d = Inr (sector_data s ?d, ?d\<lparr>fileno := g\<rparr>)" "contents g = contents (fileno ?d)" by blast
  let ?st = "(stats (locked k))\<lparr>numDiskReads := numDiskReads (stats (locked k)) + 1\<rparr>"
  from Schedule_busy [OF assms, of ?st False "?d\<lparr>fileno := g\<rparr>"] obtain b k2 where
    k2: "ReadRequest s (locked k) = Inr (sector_data s ?d, k2)"
      "busy_with k (?d\<lparr>fileno := g, active := True, lastSector := s, bufferInit := b\<rparr>) k2"
    using g(1) locked_simps [OF assms(1)] by (auto simp: ReadRequest_def Let_def)
  have ok: "disk_ok (?d\<lparr>fileno := g, active := True, lastSector := s, bufferInit := b\<rparr>)"
    using d(1) g(2) assms(2) by (simp add: disk_ok_def valid_sector_def)
  from request_served [OF assms(1) k2(2) ok, of n host] obtain k3 where
    k3: "bind_result (kernel_call (enough n) host (Do_P (sd_semaphore (devs k2))) k2)
        (\<lambda>k. kernel_call (enough n) host (Do_Release (sd_lock (devs k))) k) = Inr k3"
      "alone k3" "currentThread k3 = currentThread k" "disk (devs k3) = ?d\<lparr>fileno := g, lastSector := s, bufferInit := b, active := False\<rparr>"
    by auto
  have "disk (devs k3) = ?d\<lparr>fileno := g, lastSector := s\<rparr>\<lparr>bufferInit := b\<rparr>"
    unfolding k3(4) using d(2) by (cases ?d) simp
  moreover have "SynchDisk_ReadSector (enough n) host s k = Inr (sector_data s ?d, k3)"
    using Acquire_alone [OF assms(1), folded locked_def] k2(1) k3(1)
    by (auto simp: SynchDisk_ReadSector_def result_simps)
  moreover have "ReadSector s ?d = Inr (sector_data s ?d, ?d\<lparr>fileno := g, lastSector := s\<rparr>)"
    by (simp add: ReadSector_def g(1))
  ultimately show ?thesis using k3(2,3) by blast
qed

lemma SynchDisk_WriteSector_ok:
  assumes "alone k" "valid_sector s" "length data = SectorSize"
  shows "\<exists>d' b k'. SynchDisk_WriteSector (enough n) host s data k = Inr k' \<and> alone k' \<and> currentThread k' = currentThread k \<and>
    WriteSector s data (disk (devs k)) = Inr d' \<and> disk (devs k') = d'\<lparr>bufferInit := b\<rparr>"
proof -
  let ?d = "disk (devs k)"
  have d: "disk_ok ?d" "\<not> active ?d" using assms(1) by (auto simp: alone_def idle_disk_def)
  from transfer_out_ok [OF assms(2) d(2) assms(3)] obtain g where
    g: "transfer_out s data ?d = Inr (?d\<lparr>fileno := g\<rparr>)" "contents g = write_at (SectorSize * nat s + MagicSize) data (contents (fileno ?d))" by blast
  let ?st = "(stats (locked k))\<lparr>numDiskWrites := numDiskWrites (stats (locked k)) + 1\<rparr>"
  from Schedule_busy [OF assms(1,2), of ?st True "?d\<lparr>fileno := g\<rparr>"] obtain b k2 where
    k2: "WriteRequest s data (locked k) = Inr k2"
      "busy_with k (?d\<lparr>fileno := g, active := True, lastSector := s, bufferInit := b\<rparr>) k2"
    using g(1) locked_simps [OF assms(1)] by (auto simp: WriteRequest_def Let_def)
  have ok: "disk_ok (?d\<lparr>fileno := g, active := True, lastSector := s, bufferInit := b\<rparr>)"
    using write_sector(3) [OF assms(2) d(1) assms(3), of "?d\<lparr>fileno := g\<rparr>"] g(2) assms(2) by (simp add: disk_ok_def valid_sector_def)
  from request_served [OF assms(1) k2(2) ok, of n host] obtain k3 where
    k3: "bind_result (kernel_call (enough n) host (Do_P (sd_semaphore (devs k2))) k2)
        (\<lambda>k. kernel_call (enough n) host (Do_Release (sd_lock (devs k))) k) = Inr k3"
      "alone k3" "currentThread k3 = currentThread k" "disk (devs k3) = ?d\<lparr>fileno := g, lastSector := s, bufferInit := b, active := False\<rparr>"
    by auto
  have "disk (devs k3) = ?d\<lparr>fileno := g, lastSector := s\<rparr>\<lparr>bufferInit := b\<rparr>"
    unfolding k3(4) using d(2) by (cases ?d) simp
  moreover have "SynchDisk_WriteSector (enough n) host s data k = Inr k3"
    using Acquire_alone [OF assms(1), folded locked_def] k2(1) k3(1)
    by (auto simp: SynchDisk_WriteSector_def)
  moreover have "WriteSector s data ?d = Inr (?d\<lparr>fileno := g, lastSector := s\<rparr>)"
    by (simp add: WriteSector_def g(1))
  ultimately show ?thesis using k3(2,3) by blast
qed

section \<open>The contract of the file system\<close>

lemma enough_steps: "7 \<le> n \<Longrightarrow> \<exists>m. n = enough m"
  by (rule exI [of _ "n - 7"]) simp

interpretation driver: sector_store "SynchDisk_ReadSector (enough n) host" "SynchDisk_WriteSector (enough n) host"
  "\<lambda>s k. sector_data s (disk (devs k))" valid_sector alone for n host
proof
  fix k s assume a: "alone k" "valid_sector s"
  then have d: "idle_disk (disk (devs k))" by (simp add: alone_def)
  from SynchDisk_ReadSector_ok [OF a, of n host] obtain data d' b k' where
    r: "SynchDisk_ReadSector (enough n) host s k = Inr (data, k')" "alone k'"
      "ReadSector s (disk (devs k)) = Inr (data, d')" "disk (devs k') = d'\<lparr>bufferInit := b\<rparr>" by blast
  with store.rd_ok [OF d a(2)] show "\<exists>k'. SynchDisk_ReadSector (enough n) host s k = Inr (sector_data s (disk (devs k)), k') \<and> alone k' \<and>
      (\<forall>s'. sector_data s' (disk (devs k')) = sector_data s' (disk (devs k)))"
    by (auto simp: sector_data_def)
next
  fix k s and bs :: "byte list" assume a: "alone k" "valid_sector s" "length bs = SectorSize"
  then have d: "idle_disk (disk (devs k))" by (simp add: alone_def)
  from SynchDisk_WriteSector_ok [OF a, of n host] obtain d' b k' where
    r: "SynchDisk_WriteSector (enough n) host s bs k = Inr k'" "alone k'"
      "WriteSector s bs (disk (devs k)) = Inr d'" "disk (devs k') = d'\<lparr>bufferInit := b\<rparr>" by blast
  with store.wr_ok [OF d a(2,3)] show "\<exists>k'. SynchDisk_WriteSector (enough n) host s bs k = Inr k' \<and> alone k' \<and>
      sector_data s (disk (devs k')) = bs \<and>
      (\<forall>s'. valid_sector s' \<longrightarrow> s' \<noteq> s \<longrightarrow> sector_data s' (disk (devs k')) = sector_data s' (disk (devs k)))"
    by (auto simp: sector_data_def)
next
  fix k s assume "alone k" "valid_sector s"
  then show "length (sector_data s (disk (devs k))) = SectorSize" by (simp add: alone_def idle_disk_def)
qed

section \<open>Properties\<close>

text \<open>The main thread behind the start of the machine, with a new disk.\<close>

definition started :: nachos where
  "started = (case machine_step quiet (Kernel None) plain_boot of Inr k \<Rightarrow> k | Inl e \<Rightarrow> plain_boot)"

lemma disk_machine:
  obtains k where "SynchDisk_ctor 100 100 None None started = Inr k" "alone k"
proof -
  obtain d where d: "Disk_ctor None = Inr d" "idle_disk d" using Disk_ctor_new by (auto simp: idle_disk_def)
  have "\<exists>k. SynchDisk_ctor 100 100 None None started = Inr k \<and> alone k"
    using d(2) by (simp add: SynchDisk_ctor_def d(1) alone_def started_def kernel_eval)
  then show ?thesis using that by blast
qed

text \<open>
  C14: The driver of the disk implements the synchronous disk that the file system is built on. For a
  thread that is alone, \<open>ReadSector\<close> and \<open>WriteSector\<close> return after at most seven kernel steps in the
  wait for the interrupt, with the lock released and the disk idle again, and the data and the
  disk are those of the operations of \<open>Sector_Store\<close>, but for the state of the track buffer.
\<close>

theorem synch_disk_refines:
  assumes "alone k" "valid_sector s" "7 \<le> n"
  shows "(\<exists>data d' b k'. SynchDisk_ReadSector n host s k = Inr (data, k') \<and> alone k' \<and> currentThread k' = currentThread k \<and>
      ReadSector s (disk (devs k)) = Inr (data, d') \<and> disk (devs k') = d'\<lparr>bufferInit := b\<rparr>) \<and>
    (\<forall>data. length data = SectorSize \<longrightarrow>
      (\<exists>d' b k'. SynchDisk_WriteSector n host s data k = Inr k' \<and> alone k' \<and> currentThread k' = currentThread k \<and>
        WriteSector s data (disk (devs k)) = Inr d' \<and> disk (devs k') = d'\<lparr>bufferInit := b\<rparr>))"
proof -
  from enough_steps [OF assms(3)] obtain m where "n = enough m" by blast
  then show ?thesis using SynchDisk_ReadSector_ok [OF assms(1,2), of m host] SynchDisk_WriteSector_ok [OF assms(1,2), of _ m host]
    by blast
qed

theorem synch_disk_refines_witness:
  "\<exists>k k' d' b. SynchDisk_ctor 100 100 None None started = Inr k \<and>
     SynchDisk_WriteSector 7 quiet 3 (replicate 128 1) k = Inr k' \<and>
     WriteSector 3 (replicate 128 1) (disk (devs k)) = Inr d' \<and> disk (devs k') = d'\<lparr>bufferInit := b\<rparr>"
proof -
  obtain k where k: "SynchDisk_ctor 100 100 None None started = Inr k" "alone k" by (rule disk_machine)
  have s: "valid_sector 3" "length (replicate 128 (1 :: byte)) = SectorSize" by (simp_all add: valid_sector_def disk_consts)
  from synch_disk_refines [OF k(2) s(1), of 7 quiet] s(2) k(1) show ?thesis by blast
qed

text \<open>
  What a thread writes to a sequence of different sectors through the driver, it reads back from
  them, and all other sectors are as before.
\<close>

theorem driver_write_read:
  assumes "alone k" "\<forall>s \<in> set ss. valid_sector s" "distinct ss" "length bs = SectorSize * length ss" "7 \<le> n"
  shows "\<exists>k' k''. write_all (SynchDisk_WriteSector n host) ss bs k = Inr k' \<and> read_all (SynchDisk_ReadSector n host) ss k' = Inr (bs, k'') \<and>
    (\<forall>s. valid_sector s \<longrightarrow> s \<notin> set ss \<longrightarrow> sector_data s (disk (devs k'')) = sector_data s (disk (devs k)))"
proof -
  from enough_steps [OF assms(5)] obtain m where n: "n = enough m" by blast
  from driver.write_all_ok [OF assms(1-4), of m host] obtain k' where
    w: "write_all (SynchDisk_WriteSector n host) ss bs k = Inr k'" "alone k'"
      "concat (map (\<lambda>s. sector_data s (disk (devs k'))) ss) = bs"
      "\<forall>s'. valid_sector s' \<longrightarrow> s' \<notin> set ss \<longrightarrow> sector_data s' (disk (devs k')) = sector_data s' (disk (devs k))"
    unfolding n by blast
  with driver.read_all_ok [OF w(2) assms(2), of m host] show ?thesis unfolding n by auto
qed

theorem driver_write_read_witness:
  "\<exists>k k' k''. SynchDisk_ctor 100 100 None None started = Inr k \<and>
     write_all (SynchDisk_WriteSector 7 quiet) [3, 5] (replicate 256 1) k = Inr k' \<and>
     read_all (SynchDisk_ReadSector 7 quiet) [3, 5] k' = Inr (replicate 256 1, k'')"
proof -
  obtain k where k: "SynchDisk_ctor 100 100 None None started = Inr k" "alone k" by (rule disk_machine)
  have s: "\<forall>s \<in> set [3, 5]. valid_sector s" "distinct [3, 5 :: int]" "length (replicate 256 (1 :: byte)) = SectorSize * length [3, 5 :: int]"
    by (simp_all add: valid_sector_def disk_consts)
  from driver_write_read [OF k(2) s, of 7 quiet] k(1) show ?thesis by blast
qed

end
