(* ===== verification/Thread_Tests.thy ===== *)
theory Thread_Tests
  imports Kernel_Properties
begin

text \<open>
  The tests of \<open>threads/threadtest.cc\<close> as programs on the kernel: the ping-pong of \<open>ThreadTest\<close> and
  the five tests of \<open>TestSuite\<close> for locks, condition variables and semaphores. The procedures of
  the threads are straight-line code, loops with constant bounds unrolled; the loops that only
  pass time are left out. What a thread prints is recorded with the thread that prints it.
\<close>

section \<open>Programs\<close>

text \<open>A statement: a call of the kernel, \<open>printf\<close>, or \<open>t = new Thread(name); t->Fork(body, 0)\<close>.\<close>

text \<open>The formats of \<open>printf\<close> with their arguments; the name of the thread, which most begin with, is recorded anyway.\<close>

datatype message =
    Looped nat nat 
  | Starting_Test nat
  | Acquired_waiting_for_t3 lid
  | Trying_to_acquire lid
  | Acquired_working_in_CS lid
  | Working_in_CS
  | Trying_to_release lid
  | Acquired_signalling lid cid
  | Acquired_broadcasting lid cid
  | Acquired_waiting lid cid
  | Freed_from cid
  | Releasing lid

datatype stmt = Call request | Printf message | Start string "stmt list"

subsection \<open>The ping-pong\<close>

definition SimpleThread :: "nat \<Rightarrow> stmt list" where
  "SimpleThread which = concat (map (\<lambda>num. [Printf (Looped which num), Call Do_Yield]) [0..<5])"

definition ThreadTest :: "stmt list" where
  "ThreadTest = Start ''forked thread'' (SimpleThread 1) # SimpleThread 0"

subsection \<open>The test suite\<close>

text \<open>The objects of the tests, numbered.\<close>

definition t1_s1 :: sid where "t1_s1 = 0"
definition t1_s2 :: sid where "t1_s2 = 1"
definition t1_s3 :: sid where "t1_s3 = 2"
definition t1_done :: sid where "t1_done = 3"
definition t1_l1 :: lid where "t1_l1 = 0"

definition t1_t1 :: "stmt list" where
  "t1_t1 = [Call (Do_Acquire t1_l1), Call (Do_V t1_s1), Printf (Acquired_waiting_for_t3 t1_l1), Call (Do_P t1_s3),
     Printf Working_in_CS, Printf (Releasing t1_l1), Call (Do_Release t1_l1), Call (Do_V t1_done)]"

definition t1_t2 :: "stmt list" where
  "t1_t2 = [Call (Do_P t1_s1), Call (Do_V t1_s2), Printf (Trying_to_acquire t1_l1), Call (Do_Acquire t1_l1),
     Printf (Acquired_working_in_CS t1_l1), Printf (Releasing t1_l1), Call (Do_Release t1_l1), Call (Do_V t1_done)]"

definition t1_t3 :: "stmt list" where
  "t1_t3 = [Call (Do_P t1_s2), Call (Do_V t1_s3)] @
     concat (replicate 3 [Printf (Trying_to_release t1_l1), Call (Do_Release t1_l1)])"

definition t2_l1 :: lid where "t2_l1 = 1"
definition t2_c1 :: cid where "t2_c1 = 0"
definition t2_s1 :: sid where "t2_s1 = 4"
definition t2_done :: sid where "t2_done = 5"

definition t2_t1 :: "stmt list" where
  "t2_t1 = [Call (Do_Acquire t2_l1), Printf (Acquired_signalling t2_l1 t2_c1), Call (Do_Signal t2_c1 (Some t2_l1)),
     Printf (Releasing t2_l1), Call (Do_Release t2_l1), Call (Do_V t2_s1), Call (Do_V t2_done)]"

definition t2_t2 :: "stmt list" where
  "t2_t2 = [Call (Do_P t2_s1), Call (Do_Acquire t2_l1), Printf (Acquired_waiting t2_l1 t2_c1),
     Call (Do_Wait t2_c1 (Some t2_l1)), Printf (Releasing t2_l1), Call (Do_Release t2_l1)]"

definition t3_l1 :: lid where "t3_l1 = 2"
definition t3_c1 :: cid where "t3_c1 = 1"
definition t3_s1 :: sid where "t3_s1 = 6"
definition t3_done :: sid where "t3_done = 7"

definition t3_waiter :: "stmt list" where
  "t3_waiter = [Call (Do_Acquire t3_l1), Call (Do_V t3_s1), Printf (Acquired_waiting t3_l1 t3_c1),
     Call (Do_Wait t3_c1 (Some t3_l1)), Printf (Freed_from t3_c1), Call (Do_Release t3_l1), Call (Do_V t3_done)]"

definition t3_signaller :: "stmt list" where
  "t3_signaller = replicate 5 (Call (Do_P t3_s1)) @
     [Call (Do_Acquire t3_l1), Printf (Acquired_signalling t3_l1 t3_c1), Call (Do_Signal t3_c1 (Some t3_l1)),
      Printf (Releasing t3_l1), Call (Do_Release t3_l1), Call (Do_V t3_done)]"

definition t4_l1 :: lid where "t4_l1 = 3"
definition t4_c1 :: cid where "t4_c1 = 2"
definition t4_s1 :: sid where "t4_s1 = 8"
definition t4_done :: sid where "t4_done = 9"

definition t4_waiter :: "stmt list" where
  "t4_waiter = [Call (Do_Acquire t4_l1), Call (Do_V t4_s1), Printf (Acquired_waiting t4_l1 t4_c1),
     Call (Do_Wait t4_c1 (Some t4_l1)), Printf (Freed_from t4_c1), Call (Do_Release t4_l1), Call (Do_V t4_done)]"

definition t4_signaller :: "stmt list" where
  "t4_signaller = replicate 5 (Call (Do_P t4_s1)) @
     [Call (Do_Acquire t4_l1), Printf (Acquired_broadcasting t4_l1 t4_c1), Call (Do_Broadcast t4_c1 (Some t4_l1)),
      Printf (Releasing t4_l1), Call (Do_Release t4_l1), Call (Do_V t4_done)]"

definition t5_l1 :: lid where "t5_l1 = 4"
definition t5_l2 :: lid where "t5_l2 = 5"
definition t5_c1 :: cid where "t5_c1 = 3"
definition t5_s1 :: sid where "t5_s1 = 10"

definition t5_t1 :: "stmt list" where
  "t5_t1 = [Call (Do_Acquire t5_l1), Call (Do_V t5_s1), Printf (Acquired_waiting t5_l1 t5_c1),
     Call (Do_Wait t5_c1 (Some t5_l1)), Printf (Releasing t5_l1), Call (Do_Release t5_l1)]"

definition t5_t2 :: "stmt list" where
  "t5_t2 = [Call (Do_P t5_s1), Call (Do_Acquire t5_l1), Call (Do_Acquire t5_l2), Printf (Acquired_signalling t5_l2 t5_c1),
     Call (Do_Signal t5_c1 (Some t5_l2)), Printf (Releasing t5_l2), Call (Do_Release t5_l2), Printf (Releasing t5_l1),
     Call (Do_Release t5_l1)]"

text \<open>The names \<open>t3_waiter0\<close>, ... that \<open>sprintf\<close> makes.\<close>

definition waiter_name :: "nat \<Rightarrow> nat \<Rightarrow> string" where
  "waiter_name n i = ''t'' @ [char_of (48 + n)] @ ''_waiter'' @ [char_of (48 + i)]"

text \<open>The five parts of \<open>TestSuite\<close>, each up to the end of the test.\<close>

definition Test1 :: "stmt list" where
  "Test1 = [Printf (Starting_Test 1), Start ''t1_t1'' t1_t1, Start ''t1_t2'' t1_t2, Start ''t1_t3'' t1_t3] @
     replicate 2 (Call (Do_P t1_done))"

definition Test2 :: "stmt list" where
  "Test2 = [Printf (Starting_Test 2),
     Start ''t2_t1'' t2_t1, Start ''t2_t2'' t2_t2, Call (Do_P t2_done)]"

definition Test3 :: "stmt list" where
  "Test3 = Printf (Starting_Test 3) # map (\<lambda>i. Start (waiter_name 3 i) t3_waiter) [0..<5] @
     [Start ''t3_signaller'' t3_signaller] @ replicate 2 (Call (Do_P t3_done))"

definition Test4 :: "stmt list" where
  "Test4 = Printf (Starting_Test 4) # map (\<lambda>i. Start (waiter_name 4 i) t4_waiter) [0..<5] @
     [Start ''t4_signaller'' t4_signaller] @ replicate 6 (Call (Do_P t4_done))"

definition Test5 :: "stmt list" where
  "Test5 = [Printf (Starting_Test 5),
     Start ''t5_t1'' t5_t1, Start ''t5_t2'' t5_t2]"

definition TestSuite :: "stmt list" where
  "TestSuite = Test1 @ Test2 @ Test3 @ Test4 @ Test5"

section \<open>Running a program\<close>

record bench =
  krn :: nachos
  code_of :: "tid \<Rightarrow> stmt list option"
  printed :: "(tid \<times> message) list"

definition bench_step :: "host \<Rightarrow> tid \<Rightarrow> bench \<Rightarrow> bench result" where
  "bench_step host t b =
     (let me = currentThread (krn b) in
      if \<not> in_body (krn b)
      then bind_result (machine_step host (Kernel None) (krn b)) (\<lambda>k. Inr (b\<lparr>krn := k\<rparr>))
      else case code_of b me of
             Some (Printf m # rest) \<Rightarrow> Inr (b\<lparr>printed := printed b @ [(me, m)], code_of := (code_of b)(me \<mapsto> rest)\<rparr>)
           | Some (Call q # rest) \<Rightarrow>
               bind_result (machine_step host (Kernel (Some q)) (krn b)) (\<lambda>k.
                 Inr (b\<lparr>krn := k, code_of := (code_of b)(me \<mapsto> rest)\<rparr>))
           | Some (Start nm body # rest) \<Rightarrow>
               bind_result (machine_step host (Kernel (Some (Do_new_Thread t nm))) (krn b)) (\<lambda>k.
               bind_result (machine_step host (Kernel (Some (Do_Fork t))) k) (\<lambda>k.
                 Inr (b\<lparr>krn := k, code_of := (code_of b)(me \<mapsto> rest, t \<mapsto> body)\<rparr>)))
           | _ \<Rightarrow> bind_result (machine_step host (Kernel None) (krn b)) (\<lambda>k. Inr (b\<lparr>krn := k\<rparr>)))"

definition bench_ctor :: "stmt list \<Rightarrow> nachos \<Rightarrow> bench" where
  "bench_ctor body k = \<lparr>krn = k, code_of = [currentThread k \<mapsto> body], printed = []\<rparr>"

text \<open>A run with new threads numbered in the order in which they are made, until the machine halts.\<close>

fun bench_run :: "nat \<Rightarrow> host \<Rightarrow> tid \<Rightarrow> bench \<Rightarrow> (bench \<times> bool) result" where
  "bench_run 0 host t b = Inr (b, False)"
| "bench_run (Suc n) host t b =
     (case bench_step host t b of
        Inl HALTED \<Rightarrow> Inr (b, True)
      | Inl e \<Rightarrow> Inl e
      | Inr b' \<Rightarrow> bench_run n host (if threads (krn b') t = None then t else t + 1) b')"


lemma bench_run_numeral:
  "bench_run (numeral n) host t b =
     (case bench_step host t b of
        Inl HALTED \<Rightarrow> Inr (b, True)
      | Inl e \<Rightarrow> Inl e
      | Inr b' \<Rightarrow> bench_run (pred_numeral n) host (if threads (krn b') t = None then t else t + 1) b')"
  by (simp add: numeral_eq_Suc)

lemma replicate_numeral': "replicate (numeral k) x = x # replicate (pred_numeral k) x"
  by (simp add: numeral_eq_Suc)

lemmas bench_eval = kernel_eval bench_run_numeral bench_run.simps bench_step_def bench_ctor_def SimpleThread_def ThreadTest_def
  t1_s1_def t1_s2_def t1_s3_def t1_done_def t1_l1_def t1_t1_def t1_t2_def t1_t3_def Test1_def
  t2_l1_def t2_c1_def t2_s1_def t2_done_def t2_t1_def t2_t2_def Test2_def
  t3_l1_def t3_c1_def t3_s1_def t3_done_def t3_waiter_def t3_signaller_def Test3_def
  t4_l1_def t4_c1_def t4_s1_def t4_done_def t4_waiter_def t4_signaller_def Test4_def
  t5_l1_def t5_l2_def t5_c1_def t5_s1_def t5_t1_def t5_t2_def Test5_def replicate_numeral' upt_rec

text \<open>
  What a program prints, if it runs until the machine halts, on a machine without time slices.
  The main thread has number 0, the others are numbered from 10. 200 steps are more than any of
  the tests takes.
\<close>

definition outcome :: "stmt list \<Rightarrow> (tid \<times> message) list option" where
  "outcome body = (case bench_run 200 quiet 10 (bench_ctor body plain_boot) of
     Inr (b, halted) \<Rightarrow> if halted then Some (printed b) else None | Inl e \<Rightarrow> None)"

lemma ThreadTest_outcome: "outcome ThreadTest = Some (concat (map (\<lambda>i. [(0, Looped 0 i), (10, Looped 1 i)]) [0..<5]))"
  by (simp add: outcome_def bench_eval cong: bind_weak let_weak)

lemma Test1_outcome: "outcome Test1 = Some ([(0, Starting_Test 1), (10, Acquired_waiting_for_t3 t1_l1),
   (11, Trying_to_acquire t1_l1)] @ replicate 3 ((12, Trying_to_release t1_l1)) @
   [(10, Working_in_CS), (10, Releasing t1_l1),
    (11, Acquired_working_in_CS t1_l1), (11, Releasing t1_l1)])"
  by (simp add: outcome_def bench_eval cong: bind_weak let_weak)

lemma Test2_outcome: "outcome Test2 = Some [(0, Starting_Test 2),
   (10, Acquired_signalling t2_l1 t2_c1), (10, Releasing t2_l1),
   (11, Acquired_waiting t2_l1 t2_c1)]"
  by (simp add: outcome_def bench_eval cong: bind_weak let_weak)

lemma Test3_outcome: "outcome Test3 = Some ((0, Starting_Test 3) #
   map (\<lambda>i. (i, Acquired_waiting t3_l1 t3_c1)) [10, 11, 12, 13, 14] @
   [(15, Acquired_signalling t3_l1 t3_c1), (15, Releasing t3_l1), (10, Freed_from t3_c1)])"
  by (simp add: outcome_def bench_eval cong: bind_weak let_weak)

lemma Test4_outcome: "outcome Test4 = Some ((0, Starting_Test 4) #
   map (\<lambda>i. (i, Acquired_waiting t4_l1 t4_c1)) [10, 11, 12, 13, 14] @
   [(15, Acquired_broadcasting t4_l1 t4_c1), (15, Releasing t4_l1)] @
   map (\<lambda>i. (i, Freed_from t4_c1)) [10, 11, 12, 13, 14])"
  by (simp add: outcome_def bench_eval cong: bind_weak let_weak)

lemma Test5_outcome: "outcome Test5 = Some [(0, Starting_Test 5),
   (10, Acquired_waiting t5_l1 t5_c1), (11, Acquired_signalling t5_l2 t5_c1),
   (11, Releasing t5_l2), (11, Releasing t5_l1)]"
  by (simp add: outcome_def bench_eval cong: bind_weak let_weak)

text \<open>A machine with time slices, whose random numbers happen to be 84.\<close>

definition sliced :: host where
  "sliced = \<lparr>rand = (\<lambda>_. 84), typed = (\<lambda>_. None)\<rparr>"

definition sliced_boot :: nachos where
  "sliced_boot = (case machine_boot sliced True (\<lambda>_. 0) (\<lambda>_. None) (\<lambda>_. None) plain_devices of Inr k \<Rightarrow> k | Inl e \<Rightarrow> plain_boot)"

lemmas timer_eval = fire_def sliced_def plain_devices_def machine_boot_def Timer_ctor_def TimerExpired_def TimerInterruptHandler_def
  YieldOnReturn_def TimeOfNextInterrupt_def Random_def Schedule_def insert_behind_def signed_modulo_int_def signed_divide_int_def

lemma sliced_boot: "machine_boot sliced True (\<lambda>_. 0) (\<lambda>_. None) (\<lambda>_. None) plain_devices = Inr sliced_boot"
  by (simp add: sliced_boot_def kernel_eval timer_eval)

lemma sliced_Test1: "case bench_run 49 sliced 10 (bench_ctor Test1 sliced_boot) of Inl e \<Rightarrow> False
  | Inr (b, halted) \<Rightarrow> printed b = [(0, Starting_Test 1), (10, Acquired_waiting_for_t3 t1_l1),
   (11, Trying_to_acquire t1_l1)] @ replicate 3 ((12, Trying_to_release t1_l1)) @
   [(11, Acquired_working_in_CS t1_l1)]"
  by (simp add: bench_eval timer_eval sliced_boot_def cong: bind_weak let_weak)

section \<open>Properties\<close>


text \<open>
  With time slices the first test can fail: the thread that releases a lock it does not hold wakes
  the waiting thread, which is then in the critical section while the owner of the lock has not
  released it.
\<close>

theorem test1_fails_with_time_slices:
  "\<exists>n k b halted. machine_boot sliced True (\<lambda>_. 0) (\<lambda>_. None) (\<lambda>_. None) plain_devices = Inr k \<and>
     bench_run n sliced 10 (bench_ctor Test1 k) = Inr (b, halted) \<and>
     (10, Acquired_waiting_for_t3 t1_l1) \<in> set (printed b) \<and> (10, Releasing t1_l1) \<notin> set (printed b) \<and>
     (11, Acquired_working_in_CS t1_l1) \<in> set (printed b)"
proof -
  from sliced_Test1 obtain b halted where
    "bench_run 49 sliced 10 (bench_ctor Test1 sliced_boot) = Inr (b, halted)"
    "printed b = [(0, Starting_Test 1), (10, Acquired_waiting_for_t3 t1_l1), (11, Trying_to_acquire t1_l1)] @
       replicate 3 (12, Trying_to_release t1_l1) @ [(11, Acquired_working_in_CS t1_l1)]"
    by (auto split: sum.splits)
  with sliced_boot show ?thesis by (intro exI [of _ 49] exI [of _ sliced_boot] exI [of _ b] exI [of _ halted]) simp
qed

end
