(* ===== verification/Passport_Office.thy ===== *)
theory Passport_Office
  imports Synch
begin

text \<open>
  The passport office of \<open>threads/threadtest.cc\<close>: the four monitors with their lines, the
  customers, clerks, manager and senators, and the code each of their threads executes. The
  thread body is cut at its calls of the kernel: a \<^emph>\<open>segment\<close> is the code from the return of one
  call up to the next one, and a program point names the place between two segments. Nothing
  else runs during a segment, because a Nachos thread loses the CPU inside of kernel calls
  only. What the program prints is left out. The theory \<open>Office_Run\<close> lets the threads run on
  the kernel.
\<close>

section \<open>Arrays of counters and queues\<close>

text \<open>\<open>pop\<close> and \<open>front\<close> of an empty \<open>std::queue\<close> are undefined, as is an index out of range.\<close>

definition array_upd :: "'a list \<Rightarrow> int \<Rightarrow> ('a \<Rightarrow> 'a) \<Rightarrow> 'a list result" where
  "array_upd xs i f = bind_result (array_get xs i) (\<lambda>v. array_set xs i (f v))"

definition queue_push :: "'a list list \<Rightarrow> int \<Rightarrow> 'a \<Rightarrow> 'a list list result" where
  "queue_push qs i v = array_upd qs i (\<lambda>q. q @ [v])"

definition queue_pop :: "'a list list \<Rightarrow> int \<Rightarrow> 'a list list result" where
  "queue_pop qs i =
     bind_result (array_get qs i) (\<lambda>q. case q of [] \<Rightarrow> Inl UNDEFINED | _ # rest \<Rightarrow> array_set qs i rest)"

definition queue_front :: "'a list list \<Rightarrow> int \<Rightarrow> 'a result" where
  "queue_front qs i =
     bind_result (array_get qs i) (\<lambda>q. case q of [] \<Rightarrow> Inl UNDEFINED | x # _ \<Rightarrow> Inr x)"

section \<open>The monitors\<close>

text \<open>
  The locks and condition variables of the monitors are objects of the kernel; they are named
  by the desk they belong to and the number of the clerk.
\<close>

datatype desk = Application | Picture | Passport | Cash

primrec desk_no :: "desk \<Rightarrow> nat" where
  "desk_no Application = 0"
| "desk_no Picture = 1"
| "desk_no Passport = 2"
| "desk_no Cash = 3"

definition MonitorLock :: "desk \<Rightarrow> lid" where "MonitorLock d = desk_no d"
definition clerkLineLocks :: "desk \<Rightarrow> int \<Rightarrow> lid" where "clerkLineLocks d i = 4 + (4 * nat i + desk_no d)"
definition clerkLineCV :: "desk \<Rightarrow> int \<Rightarrow> cid" where "clerkLineCV d i = 2 * (4 * nat i + desk_no d)"
definition clerkBribeLineCV :: "desk \<Rightarrow> int \<Rightarrow> cid" where "clerkBribeLineCV d i = 2 * (4 * nat i + desk_no d) + 1"

text \<open>The part the four monitors have in common, and the four monitors.\<close>

record Monitor =
  numClerks :: int
  clerkLineCount :: "int list"
  clerkBribeLineCount :: "int list"
  clerkState :: "int list"
  clientSSNs :: "int list list"
  bribeClientSSNs :: "int list list"

type_synonym ApplicationMonitor = Monitor

record PictureMonitor = Monitor +
  picturesTaken :: "bool list"

record PassportMonitor = Monitor +
  clientReqs :: "bool list list"
  bribeClientReqs :: "bool list list"

record CashierMonitor = Monitor +
  customerCertifications :: "bool list list"
  bribeCustomerCertifications :: "bool list list"

text \<open>The array \<open>picturesTaken\<close> is not initialised; the queues are, one per customer.\<close>

definition ApplicationMonitor_ctor :: "nat \<Rightarrow> nat \<Rightarrow> ApplicationMonitor" where
  "ApplicationMonitor_ctor n customers =
     \<lparr>numClerks = int n, clerkLineCount = replicate n 0, clerkBribeLineCount = replicate n 0,
      clerkState = replicate n 0, clientSSNs = replicate customers [], bribeClientSSNs = replicate customers []\<rparr>"

definition PictureMonitor_ctor :: "(nat \<Rightarrow> bool) \<Rightarrow> nat \<Rightarrow> nat \<Rightarrow> PictureMonitor" where
  "PictureMonitor_ctor junk n customers =
     \<lparr>numClerks = int n, clerkLineCount = replicate n 0, clerkBribeLineCount = replicate n 0,
      clerkState = replicate n 0, clientSSNs = replicate customers [], bribeClientSSNs = replicate customers [],
      picturesTaken = map junk [0..<customers]\<rparr>"

definition PassportMonitor_ctor :: "nat \<Rightarrow> nat \<Rightarrow> PassportMonitor" where
  "PassportMonitor_ctor n customers =
     \<lparr>numClerks = int n, clerkLineCount = replicate n 0, clerkBribeLineCount = replicate n 0,
      clerkState = replicate n 0, clientSSNs = replicate customers [], bribeClientSSNs = replicate customers [],
      clientReqs = replicate customers [], bribeClientReqs = replicate customers []\<rparr>"

definition CashierMonitor_ctor :: "nat \<Rightarrow> nat \<Rightarrow> CashierMonitor" where
  "CashierMonitor_ctor n customers =
     \<lparr>numClerks = int n, clerkLineCount = replicate n 0, clerkBribeLineCount = replicate n 0,
      clerkState = replicate n 0, clientSSNs = replicate customers [], bribeClientSSNs = replicate customers [],
      customerCertifications = replicate customers [], bribeCustomerCertifications = replicate customers []\<rparr>"

text \<open>
  The search for the smallest line is the same code in the four monitors but for the index it
  starts with: -1, and 0 in the monitor of the cashiers.
\<close>

definition getSmallestLine :: "int \<Rightarrow> 'm Monitor_scheme \<Rightarrow> int result" where
  "getSmallestLine smallestIndex m =
     bind_result
       (for_each [0..numClerks m - 1]
          (\<lambda>i (smallest, smallestIndex). bind_result (array_get (clerkLineCount m) i) (\<lambda>c.
             Inr (if c < smallest then (c, i) else (smallest, smallestIndex))))
          (50, smallestIndex))
       (\<lambda>(_, smallestIndex). Inr smallestIndex)"

definition giveSSN :: "int \<Rightarrow> int \<Rightarrow> 'm Monitor_scheme \<Rightarrow> 'm Monitor_scheme result" where
  "giveSSN line ssn m = bind_result (queue_push (clientSSNs m) line ssn) (\<lambda>q. Inr (m\<lparr>clientSSNs := q\<rparr>))"

definition giveReqs :: "int \<Rightarrow> bool \<Rightarrow> PassportMonitor \<Rightarrow> PassportMonitor result" where
  "giveReqs line completed m = bind_result (queue_push (clientReqs m) line completed) (\<lambda>q. Inr (m\<lparr>clientReqs := q\<rparr>))"

definition giveCertification :: "int \<Rightarrow> bool \<Rightarrow> CashierMonitor \<Rightarrow> CashierMonitor result" where
  "giveCertification line certified m =
     bind_result (queue_push (customerCertifications m) line certified) (\<lambda>q. Inr (m\<lparr>customerCertifications := q\<rparr>))"

text \<open>The assignment \<open>clerkState[line] = s\<close>.\<close>

definition set_state :: "int \<Rightarrow> int \<Rightarrow> 'm Monitor_scheme \<Rightarrow> 'm Monitor_scheme result" where
  "set_state line s m = bind_result (array_set (clerkState m) line s) (\<lambda>st. Inr (m\<lparr>clerkState := st\<rparr>))"

text \<open>Getting in line at a busy clerk, and leaving the line: the lines of both kinds of customers.\<close>

definition get_in_line :: "bool \<Rightarrow> int \<Rightarrow> int \<Rightarrow> 'm Monitor_scheme \<Rightarrow> 'm Monitor_scheme result" where
  "get_in_line bribed line ssn m =
     (if bribed
      then bind_result (array_upd (clerkBribeLineCount m) line (\<lambda>c. c + 1)) (\<lambda>cs.
           bind_result (queue_push (bribeClientSSNs m) line ssn) (\<lambda>q.
             Inr (m\<lparr>clerkBribeLineCount := cs, bribeClientSSNs := q\<rparr>)))
      else bind_result (array_upd (clerkLineCount m) line (\<lambda>c. c + 1)) (\<lambda>cs.
             giveSSN line ssn (m\<lparr>clerkLineCount := cs\<rparr>)))"

definition leave_line :: "bool \<Rightarrow> int \<Rightarrow> 'm Monitor_scheme \<Rightarrow> 'm Monitor_scheme result" where
  "leave_line bribed line m =
     (if bribed
      then bind_result (array_upd (clerkBribeLineCount m) line (\<lambda>c. c - 1)) (\<lambda>cs.
           bind_result (queue_pop (bribeClientSSNs m) line) (\<lambda>q.
             Inr (m\<lparr>clerkBribeLineCount := cs, bribeClientSSNs := q\<rparr>)))
      else bind_result (array_upd (clerkLineCount m) line (\<lambda>c. c - 1)) (\<lambda>cs.
           bind_result (queue_pop (clientSSNs m) line) (\<lambda>q.
             Inr (m\<lparr>clerkLineCount := cs, clientSSNs := q\<rparr>))))"

section \<open>Customers, clerks, manager and senators\<close>

record Client =
  money :: int
  client_id :: int
  ssn :: int
  selfIndex :: int
  applicationAccepted :: bool
  pictureTaken :: bool
  bribed :: bool
  certified :: bool
  is_done :: bool

definition Client_ctor :: "int \<Rightarrow> int \<Rightarrow> Client" where
  "Client_ctor num startMoney =
     \<lparr>money = startMoney, client_id = num, ssn = num, selfIndex = num, applicationAccepted = False,
      pictureTaken = False, bribed = False, certified = False, is_done = False\<rparr>"

definition moveUpInLine :: "Client \<Rightarrow> Client" where
  "moveUpInLine c = (if money c \<ge> 600 then c\<lparr>money := money c - 500, bribed := True\<rparr> else c)"

text \<open>The four classes of clerks have the same fields.\<close>

record Clerk =
  ownState :: int
  lineCount :: int
  bribeLineCount :: int
  clerkMoney :: int
  myLine :: int

definition Clerk_ctor :: "int \<Rightarrow> Clerk" where
  "Clerk_ctor n = \<lparr>ownState = 0, lineCount = 0, bribeLineCount = 0, clerkMoney = 0, myLine = n\<rparr>"

record Manager =
  pClerkMoney :: int
  aClerkMoney :: int
  ppClerkMoney :: int
  cClerkMoney :: int
  totalMoney :: int

definition Manager_ctor :: Manager where
  "Manager_ctor = \<lparr>pClerkMoney = 0, aClerkMoney = 0, ppClerkMoney = 0, cClerkMoney = 0, totalMoney = 0\<rparr>"

record Senator =
  senator_money :: int
  senator_ssn :: int

definition Senator_ctor :: "int \<Rightarrow> int \<Rightarrow> Senator" where
  "Senator_ctor sn startMoney = \<lparr>senator_money = startMoney, senator_ssn = sn\<rparr>"

text \<open>
  The global variables. A customer or clerk object belongs to one thread and is named by it:
  the vectors of pointers are lists of threads. Only one manager is ever made.
\<close>

record office =
  AMonitor :: ApplicationMonitor
  PMonitor :: PictureMonitor
  PPMonitor :: PassportMonitor
  CMonitor :: CashierMonitor
  ssnCount :: int
  applicationClerkID :: int
  pictureClerkID :: int
  passportClerkID :: int
  senatorID :: int
  aClerks :: "tid list"
  pClerks :: "tid list"
  ppClerks :: "tid list"
  cClerks :: "tid list"
  customers :: "tid list"
  clients :: "tid \<Rightarrow> Client"
  clerks :: "tid \<Rightarrow> Clerk"
  the_manager :: Manager

definition clientStartMoney :: "int list" where "clientStartMoney = [100, 500, 1100, 1600]"

section \<open>The customers' thread\<close>

text \<open>
  How a segment ends: with a call of the kernel, without one, when the next segment follows at
  once, or with the end of the thread's procedure.
\<close>

datatype ending = Ask request | Go | Leave

text \<open>
  The program points of the functions \<open>join...Line\<close>, with the local variable \<open>myLine\<close>:
  \<^item> \<open>Begin\<close>: the call of the function;
  \<^item> \<open>Entered\<close>: the lock of the monitor has been acquired;
  \<^item> \<open>Called\<close>: the \<open>Wait\<close> for the clerk with the lock of the monitor is over;
  \<^item> \<open>Released\<close>: the lock of the monitor has been released;
  \<^item> \<open>Locked\<close>: the lock of the line has been acquired;
  \<^item> \<open>Signalled\<close>: the clerk has been signalled;
  \<^item> \<open>Served\<close>: the \<open>Wait\<close> for the clerk's work is over;
  \<^item> \<open>Yielding\<close>: in the loop of \<open>Yield\<close> calls, with the number of calls left;
  \<^item> \<open>Left\<close>: the clerk has been signalled that the customer leaves.
\<close>

datatype point = Begin | Entered | Called int | Released int | Locked int | Signalled int
  | Served int | Yielding int nat | Left int

text \<open>Calls that all four functions make; the third argument is what follows the call.\<close>

abbreviation signal_line :: "desk \<Rightarrow> int \<Rightarrow> ending" where
  "signal_line d l \<equiv> Ask (Do_Signal (clerkLineCV d l) (Some (clerkLineLocks d l)))"

abbreviation wait_line :: "desk \<Rightarrow> int \<Rightarrow> ending" where
  "wait_line d l \<equiv> Ask (Do_Wait (clerkLineCV d l) (Some (clerkLineLocks d l)))"

abbreviation wait_monitor :: "desk \<Rightarrow> int \<Rightarrow> ending" where
  "wait_monitor d l \<equiv> Ask (Do_Wait (clerkLineCV d l) (Some (MonitorLock d)))"

type_synonym client_segment = "(ending \<times> point option \<times> Client \<times> office) result"

definition joinApplicationLine :: "point \<Rightarrow> Client \<Rightarrow> office \<Rightarrow> client_segment" where
  "joinApplicationLine p c ofc =
     (let m = AMonitor ofc;
          proceed = (\<lambda>l m. bind_result (set_state l 1 m) (\<lambda>m.
             Inr (Ask (Do_Release (MonitorLock Application)), Some (Released l), c, ofc\<lparr>AMonitor := m\<rparr>)))
      in case p of
           Begin \<Rightarrow> Inr (Ask (Do_Acquire (MonitorLock Application)), Some Entered, c, ofc)
         | Entered \<Rightarrow>
             bind_result (getSmallestLine (- 1) m) (\<lambda>l.
             bind_result (array_get (clerkState m) l) (\<lambda>st.
               if st = 1
               then bind_result (get_in_line (bribed c) l (ssn c) m) (\<lambda>m.
                    Inr (wait_monitor Application l, Some (Called l), c, ofc\<lparr>AMonitor := m\<rparr>))
               else proceed l m))
         | Called l \<Rightarrow> proceed l m
         | Released l \<Rightarrow> Inr (Ask (Do_Acquire (clerkLineLocks Application l)), Some (Locked l), c, ofc)
         | Locked l \<Rightarrow> Inr (signal_line Application l, Some (Signalled l), c, ofc)
         | Signalled l \<Rightarrow> Inr (wait_line Application l, Some (Served l), c, ofc)
         | Served l \<Rightarrow>
             bind_result
               (if bribed c
                then bind_result (array_upd (clerkBribeLineCount m) l (\<lambda>n. n - 1)) (\<lambda>cs.
                     bind_result (queue_pop (clientSSNs m) l) (\<lambda>q.
                       Inr (m\<lparr>clerkBribeLineCount := cs, clientSSNs := q\<rparr>)))
                else leave_line False l m) (\<lambda>m.
             Inr (signal_line Application l, Some (Left l), c\<lparr>applicationAccepted := True\<rparr>, ofc\<lparr>AMonitor := m\<rparr>))
         | Left l \<Rightarrow> Inr (Ask (Do_Release (clerkLineLocks Application l)), None, c, ofc)
         | Yielding l n \<Rightarrow> Inl UNDEFINED)"

definition joinPictureLine :: "nat \<Rightarrow> point \<Rightarrow> Client \<Rightarrow> office \<Rightarrow> client_segment" where
  "joinPictureLine r p c ofc =
     (let m = PMonitor ofc;
          proceed = (\<lambda>l m. bind_result (set_state l 1 m) (\<lambda>m.
             Inr (Ask (Do_Release (MonitorLock Picture)), Some (Released l), c, ofc\<lparr>PMonitor := m\<rparr>)))
      in case p of
           Begin \<Rightarrow> Inr (Ask (Do_Acquire (MonitorLock Picture)), Some Entered, c, ofc)
         | Entered \<Rightarrow>
             bind_result (getSmallestLine (- 1) m) (\<lambda>l.
             bind_result (array_get (clerkState m) l) (\<lambda>st.
               if st = 1
               then bind_result (get_in_line (bribed c) l (ssn c) m) (\<lambda>m.
                    Inr (wait_monitor Picture l, Some (Called l), c, ofc\<lparr>PMonitor := m\<rparr>))
               else proceed l m))
         | Called l \<Rightarrow> proceed l m
         | Released l \<Rightarrow> Inr (Ask (Do_Acquire (clerkLineLocks Picture l)), Some (Locked l), c, ofc)
         | Locked l \<Rightarrow>
             bind_result (array_set (picturesTaken m) l False) (\<lambda>pt.
             Inr (signal_line Picture l, Some (Signalled l), c, ofc\<lparr>PMonitor := m\<lparr>picturesTaken := pt\<rparr>\<rparr>))
         | Signalled l \<Rightarrow> Inr (wait_line Picture l, Some (Served l), c, ofc)
         | Served l \<Rightarrow>
             if r mod 2 = 0
             then Inr (signal_line Picture l, Some (Signalled l), c, ofc)
             else
               bind_result (array_set (picturesTaken m) l True) (\<lambda>pt.
               bind_result (leave_line (bribed c) l (m\<lparr>picturesTaken := pt\<rparr>)) (\<lambda>m.
               Inr (signal_line Picture l, Some (Left l), c\<lparr>pictureTaken := True\<rparr>, ofc\<lparr>PMonitor := m\<rparr>)))
         | Left l \<Rightarrow> Inr (Ask (Do_Release (clerkLineLocks Picture l)), None, c, ofc)
         | Yielding l n \<Rightarrow> Inl UNDEFINED)"

definition joinPassportLine :: "nat \<Rightarrow> point \<Rightarrow> Client \<Rightarrow> office \<Rightarrow> client_segment" where
  "joinPassportLine r p c ofc =
     (let m = PPMonitor ofc;
          proceed = (\<lambda>l m. bind_result (set_state l 1 m) (\<lambda>m.
             Inr (Ask (Do_Release (MonitorLock Passport)), Some (Released l), c, ofc\<lparr>PPMonitor := m\<rparr>)));
          reqs = (applicationAccepted c \<and> pictureTaken c)
      in case p of
           Begin \<Rightarrow> Inr (Ask (Do_Acquire (MonitorLock Passport)), Some Entered, c, ofc)
         | Entered \<Rightarrow>
             bind_result (getSmallestLine (- 1) m) (\<lambda>l.
             bind_result (array_get (clerkState m) l) (\<lambda>st.
               if st = 1
               then bind_result (get_in_line (bribed c) l (ssn c) m) (\<lambda>m.
                    bind_result
                      (if bribed c
                       then bind_result (queue_push (bribeClientReqs m) l reqs) (\<lambda>q. Inr (m\<lparr>bribeClientReqs := q\<rparr>))
                       else giveReqs l reqs m) (\<lambda>m.
                    Inr (wait_monitor Passport l, Some (Called l), c, ofc\<lparr>PPMonitor := m\<rparr>)))
               else proceed l m))
         | Called l \<Rightarrow> proceed l m
         | Released l \<Rightarrow> Inr (Ask (Do_Acquire (clerkLineLocks Passport l)), Some (Locked l), c, ofc)
         | Locked l \<Rightarrow> Inr (signal_line Passport l, Some (Signalled l), c, ofc)
         | Signalled l \<Rightarrow> Inr (wait_line Passport l, Some (Served l), c, ofc)
         | Served l \<Rightarrow>
             bind_result (leave_line (bribed c) l m) (\<lambda>m.
             bind_result
               (if bribed c
                then bind_result (queue_pop (bribeClientReqs m) l) (\<lambda>q. Inr (m\<lparr>bribeClientReqs := q\<rparr>))
                else bind_result (queue_pop (clientReqs m) l) (\<lambda>q. Inr (m\<lparr>clientReqs := q\<rparr>))) (\<lambda>m.
             if reqs
             then Inr (signal_line Passport l, Some (Left l), c\<lparr>certified := True\<rparr>, ofc\<lparr>PPMonitor := m\<rparr>)
             else Inr (Go, Some (Yielding l (100 + r mod 999)), c, ofc\<lparr>PPMonitor := m\<rparr>)))
         | Yielding l n \<Rightarrow>
             (case n of 0 \<Rightarrow> Inr (signal_line Passport l, Some (Left l), c, ofc)
              | Suc n \<Rightarrow> Inr (Ask Do_Yield, Some (Yielding l n), c, ofc))
         | Left l \<Rightarrow> Inr (Ask (Do_Release (clerkLineLocks Passport l)), None, c, ofc))"

definition joinCashierLine :: "nat \<Rightarrow> point \<Rightarrow> Client \<Rightarrow> office \<Rightarrow> client_segment" where
  "joinCashierLine r p c ofc =
     (let m = CMonitor ofc;
          proceed = (\<lambda>l m. bind_result (set_state l 1 m) (\<lambda>m.
             Inr (Ask (Do_Release (MonitorLock Cash)), Some (Released l), c, ofc\<lparr>CMonitor := m\<rparr>)))
      in case p of
           Begin \<Rightarrow> Inr (Ask (Do_Acquire (MonitorLock Cash)), Some Entered, c, ofc)
         | Entered \<Rightarrow>
             bind_result (getSmallestLine 0 m) (\<lambda>l.
             bind_result (array_get (clerkState m) l) (\<lambda>st.
               if st = 1
               then bind_result (get_in_line (bribed c) l (ssn c) m) (\<lambda>m.
                    bind_result
                      (if bribed c
                       then bind_result (queue_push (bribeCustomerCertifications m) l (certified c))
                              (\<lambda>q. Inr (m\<lparr>bribeCustomerCertifications := q\<rparr>))
                       else giveCertification l (certified c) m) (\<lambda>m.
                    Inr (wait_monitor Cash l, Some (Called l), c, ofc\<lparr>CMonitor := m\<rparr>)))
               else proceed l m))
         | Called l \<Rightarrow> proceed l m
         | Released l \<Rightarrow> Inr (Ask (Do_Acquire (clerkLineLocks Cash l)), Some (Locked l), c, ofc)
         | Locked l \<Rightarrow> Inr (signal_line Cash l, Some (Signalled l), c, ofc)
         | Signalled l \<Rightarrow> Inr (wait_line Cash l, Some (Served l), c, ofc)
         | Served l \<Rightarrow>
             bind_result (leave_line (bribed c) l m) (\<lambda>m.
             bind_result
               (if bribed c
                then bind_result (queue_pop (bribeCustomerCertifications m) l)
                       (\<lambda>q. Inr (m\<lparr>bribeCustomerCertifications := q\<rparr>))
                else bind_result (queue_pop (customerCertifications m) l)
                       (\<lambda>q. Inr (m\<lparr>customerCertifications := q\<rparr>))) (\<lambda>m.
             if \<not> certified c
             then Inr (Go, Some (Yielding l (100 + r mod 901)), c, ofc\<lparr>CMonitor := m\<rparr>)
             else Inr (signal_line Cash l, Some (Left l), c\<lparr>is_done := True\<rparr>, ofc\<lparr>CMonitor := m\<rparr>)))
         | Yielding l n \<Rightarrow>
             (case n of 0 \<Rightarrow> Inr (signal_line Cash l, Some (Left l), c, ofc)
              | Suc n \<Rightarrow> Inr (Ask Do_Yield, Some (Yielding l n), c, ofc))
         | Left l \<Rightarrow> Inr (Ask (Do_Release (clerkLineLocks Cash l)), None, c, ofc))"

definition join_line :: "nat \<Rightarrow> desk \<Rightarrow> point \<Rightarrow> Client \<Rightarrow> office \<Rightarrow> client_segment" where
  "join_line r d p c ofc =
     (case d of Application \<Rightarrow> joinApplicationLine p c ofc | Picture \<Rightarrow> joinPictureLine r p c ofc
      | Passport \<Rightarrow> joinPassportLine r p c ofc | Cash \<Rightarrow> joinCashierLine r p c ofc)"

text \<open>
  The loop of the constructor of a customer: \<open>None\<close> is its head, where the customer chooses a
  line at random; \<open>Leave\<close> is the end of the loop.
\<close>

definition wanted :: "desk \<Rightarrow> Client \<Rightarrow> bool" where
  "wanted d c =
     (case d of Application \<Rightarrow> \<not> applicationAccepted c | Picture \<Rightarrow> \<not> pictureTaken c
      | Passport \<Rightarrow> \<not> certified c | Cash \<Rightarrow> True)"

definition Client_run ::
  "nat \<Rightarrow> (desk \<times> point) option \<Rightarrow> Client \<Rightarrow> office \<Rightarrow> (ending \<times> (desk \<times> point) option \<times> Client \<times> office) result" where
  "Client_run r p c ofc =
     (case p of
        None \<Rightarrow>
          if is_done c then Inr (Leave, None, c, ofc)
          else
            let d = [Application, Picture, Passport, Cash] ! (r mod 4)
            in if wanted d c then Inr (Go, Some (d, Begin), c, ofc) else Inr (Go, None, c, ofc)
      | Some (d, p) \<Rightarrow>
          bind_result (join_line r d p c ofc) (\<lambda>(e, p, c, ofc). Inr (e, map_option (Pair d) p, c, ofc)))"

section \<open>The search for a line\<close>

text \<open>What the loop of \<open>getSmallestLine\<close> has found behind the lines \<open>0, ..., n - 1\<close>.\<close>

definition found :: "int list \<Rightarrow> int \<Rightarrow> nat \<Rightarrow> int \<times> int \<Rightarrow> bool" where
  "found cs x n = (\<lambda>(s, i).
     if \<forall>j < n. 50 \<le> cs ! j then s = 50 \<and> i = x
     else \<exists>j < n. i = int j \<and> s = cs ! j \<and> s < 50 \<and> (\<forall>k < n. s \<le> cs ! k) \<and> (\<forall>k < j. s < cs ! k))"

lemma found_Suc:
  assumes "found cs x n (s, i)"
  shows "found cs x (Suc n) (if cs ! n < s then (cs ! n, int n) else (s, i))"
proof (cases "\<forall>j < n. 50 \<le> cs ! j")
  case True
  then show ?thesis using assms by (auto simp: found_def less_Suc_eq)
next
  case False
  then obtain j where j: "j < n" "i = int j" "s = cs ! j" "s < 50" "\<forall>k < n. s \<le> cs ! k" "\<forall>k < j. s < cs ! k"
    using assms by (auto simp: found_def split: if_splits)
  show ?thesis
  proof (cases "cs ! n < s")
    case True
    then show ?thesis using j by (fastforce simp: found_def less_Suc_eq)
  next
    case False
    then have "found cs x (Suc n) (s, i)" unfolding found_def using j
      by (auto simp: less_Suc_eq intro!: exI [of _ j] split: if_splits)
    then show ?thesis using False by simp
  qed
qed

lemma getSmallestLine_found:
  assumes "n \<le> length (clerkLineCount m)"
  shows "\<exists>p. for_each [0..int n - 1]
      (\<lambda>i (s, x). bind_result (array_get (clerkLineCount m) i) (\<lambda>c. Inr (if c < s then (c, i) else (s, x)))) (50, x) = Inr p
    \<and> found (clerkLineCount m) x n p"
  using assms
proof (induction n)
  case (Suc n)
  then obtain s i where "for_each [0..int n - 1]
      (\<lambda>i (s, x). bind_result (array_get (clerkLineCount m) i) (\<lambda>c. Inr (if c < s then (c, i) else (s, x)))) (50, x) = Inr (s, i)"
    and f: "found (clerkLineCount m) x n (s, i)" by auto
  moreover have "[0..int (Suc n) - 1] = [0..int n - 1] @ [int n]" by (simp add: upto_rec2)
  ultimately show ?case using found_Suc [OF f] Suc(2) by (simp add: for_each_append)
qed (simp add: found_def)

text \<open>
  \<open>getSmallestLine\<close> returns the first of the clerks whose line is shortest, provided that there
  is a line with fewer than 50 customers; otherwise it returns the index it starts with, -1 at
  the first three desks (which the caller uses as an index) and 0 at the cashiers.
\<close>

theorem smallest_line:
  assumes "numClerks m = int (length (clerkLineCount m))"
  shows "\<exists>i. getSmallestLine x m = Inr i \<and>
    (if \<forall>c \<in> set (clerkLineCount m). 50 \<le> c then i = x
     else 0 \<le> i \<and> i < numClerks m \<and> (\<forall>c \<in> set (clerkLineCount m). clerkLineCount m ! nat i \<le> c) \<and>
       (\<forall>j < nat i. clerkLineCount m ! nat i < clerkLineCount m ! j))"
proof -
  let ?n = "length (clerkLineCount m)"
  from getSmallestLine_found [OF order_refl, of m x] obtain s i where
    f: "for_each [0..int ?n - 1]
      (\<lambda>i (s, x). bind_result (array_get (clerkLineCount m) i) (\<lambda>c. Inr (if c < s then (c, i) else (s, x)))) (50, x) = Inr (s, i)"
      "found (clerkLineCount m) x ?n (s, i)" by auto
  then have "getSmallestLine x m = Inr i" using assms by (simp add: getSmallestLine_def)
  then show ?thesis using f(2) assms
    by (auto simp: found_def all_set_conv_all_nth split: if_splits)
qed

theorem smallest_line_witness:
  "\<exists>i. getSmallestLine (- 1) ((ApplicationMonitor_ctor 3 9)\<lparr>clerkLineCount := [4, 2, 2]\<rparr>) = Inr i \<and> i = 1"
proof -
  let ?m = "(ApplicationMonitor_ctor 3 9)\<lparr>clerkLineCount := [4, 2, 2]\<rparr>"
  have "numClerks ?m = int (length (clerkLineCount ?m))" by (simp add: ApplicationMonitor_ctor_def)
  from smallest_line [OF this, of "- 1"] obtain i where
    i: "getSmallestLine (- 1) ?m = Inr i" "0 \<le> i" "i < 3" "[4, 2, 2] ! nat i \<le> (2 :: int)"
    "\<forall>j < nat i. [4, 2, 2] ! nat i < ([4, 2, 2] :: int list) ! j"
    by (auto simp: ApplicationMonitor_ctor_def)
  have "i = 0 \<or> i = 1 \<or> i = 2" using i(2,3) by auto
  then have "i = 1" using i(4,5) by (auto dest: spec [of _ 1])
  with i(1) show ?thesis by simp
qed

end
