(* ===== verification/Office_Staff.thy ===== *)
theory Office_Staff
  imports Passport_Office
begin

text \<open>
  The staff of the passport office (\<open>threads/threadtest.cc\<close>): the \<open>run\<close> functions of the four
  classes of clerks, the manager, the procedures that the threads are forked with, and the
  set-up by \<open>Problem2\<close> with its menu.
\<close>

section \<open>The clerks\<close>

text \<open>
  The program points of the functions \<open>run\<close>:
  \<^item> \<open>Top\<close>: the head of the loop;
  \<^item> \<open>Looking\<close>: the lock of the monitor has been acquired;
  \<^item> \<open>BribeBeckoned\<close>, \<open>Beckoned\<close>: a customer of the bribe line or the regular line has been signalled;
  \<^item> \<open>OnBreak\<close>: behind the decision to take a break;
  \<^item> \<open>LineTaken\<close>: the lock of the line has been acquired;
  \<^item> \<open>Open_for\<close>: the lock of the monitor has been released;
  \<^item> \<open>Given\<close>: the \<open>Wait\<close> for the customer is over;
  \<^item> \<open>Work\<close>: in the loop of \<open>Yield\<close> calls, with the number of calls left;
  \<^item> \<open>Answered\<close>: the customer has been signalled that the work is done;
  \<^item> \<open>Finished\<close>: the \<open>Wait\<close> for the customer to leave is over.
\<close>

datatype clerk_point = Top | Looking | BribeBeckoned | Beckoned | OnBreak | LineTaken | Open_for
  | Given | Work nat | Answered | Finished

abbreviation beckon :: "desk \<Rightarrow> int \<Rightarrow> ending" where
  "beckon d l \<equiv> Ask (Do_Signal (clerkLineCV d l) (Some (MonitorLock d)))"

abbreviation beckon_bribe :: "desk \<Rightarrow> int \<Rightarrow> ending" where
  "beckon_bribe d l \<equiv> Ask (Do_Signal (clerkBribeLineCV d l) (Some (MonitorLock d)))"

abbreviation take_line :: "desk \<Rightarrow> int \<Rightarrow> ending" where
  "take_line d l \<equiv> Ask (Do_Acquire (clerkLineLocks d l))"

text \<open>The local variable \<open>bribed\<close> is carried along; the number is drawn by \<open>rand\<close>.\<close>

type_synonym clerk_segment = "(ending \<times> clerk_point \<times> bool \<times> office) result"

definition ApplicationClerk_run :: "nat \<Rightarrow> int \<Rightarrow> clerk_point \<Rightarrow> bool \<Rightarrow> office \<Rightarrow> clerk_segment" where
  "ApplicationClerk_run r l p b ofc =
     (let m = AMonitor ofc;
          busy = bind_result (set_state l 1 m) (\<lambda>m. Inr (take_line Application l, LineTaken, b, ofc\<lparr>AMonitor := m\<rparr>))
      in case p of
           Top \<Rightarrow> Inr (Ask (Do_Acquire (MonitorLock Application)), Looking, b, ofc)
         | Looking \<Rightarrow>
             bind_result (array_get (clerkBribeLineCount m) l) (\<lambda>bc.
               if bc > 0
               then bind_result (queue_front (bribeClientSSNs m) l) (\<lambda>_. Inr (beckon_bribe Application l, BribeBeckoned, b, ofc))
               else bind_result (array_get (clerkLineCount m) l) (\<lambda>c.
                 if c > 0
                 then bind_result (queue_front (clientSSNs m) l) (\<lambda>_. Inr (beckon Application l, Beckoned, b, ofc))
                 else bind_result (set_state l 2 m) (\<lambda>m. Inr (Go, OnBreak, b, ofc\<lparr>AMonitor := m\<rparr>))))
         | BribeBeckoned \<Rightarrow> busy
         | Beckoned \<Rightarrow> busy
         | OnBreak \<Rightarrow> Inr (take_line Application l, LineTaken, b, ofc)
         | LineTaken \<Rightarrow> Inr (Ask (Do_Release (MonitorLock Application)), Open_for, b, ofc)
         | Open_for \<Rightarrow> Inr (wait_line Application l, Given, b, ofc)
         | Given \<Rightarrow> Inr (Go, Work (20 + r mod 81), b, ofc)
         | Work n \<Rightarrow>
             (case n of 0 \<Rightarrow> Inr (signal_line Application l, Answered, b, ofc)
              | Suc n \<Rightarrow> Inr (Ask Do_Yield, Work n, b, ofc))
         | Answered \<Rightarrow> Inr (wait_line Application l, Finished, b, ofc)
         | Finished \<Rightarrow> Inr (Ask (Do_Release (clerkLineLocks Application l)), Top, b, ofc))"

definition PictureClerk_run :: "nat \<Rightarrow> int \<Rightarrow> clerk_point \<Rightarrow> bool \<Rightarrow> office \<Rightarrow> clerk_segment" where
  "PictureClerk_run r l p b ofc =
     (let m = PMonitor ofc;
          busy = bind_result (set_state l 1 m) (\<lambda>m. Inr (take_line Picture l, LineTaken, b, ofc\<lparr>PMonitor := m\<rparr>))
      in case p of
           Top \<Rightarrow> Inr (Ask (Do_Acquire (MonitorLock Picture)), Looking, b, ofc)
         | Looking \<Rightarrow>
             bind_result (array_get (clerkBribeLineCount m) l) (\<lambda>bc.
               if bc > 0
               then bind_result (queue_front (bribeClientSSNs m) l) (\<lambda>_. Inr (beckon_bribe Picture l, BribeBeckoned, b, ofc))
               else bind_result (array_get (clerkLineCount m) l) (\<lambda>c.
                 if c > 0
                 then bind_result (queue_front (clientSSNs m) l) (\<lambda>_. Inr (beckon Picture l, Beckoned, b, ofc))
                 else bind_result (set_state l 2 m) (\<lambda>m. Inr (wait_line Picture l, OnBreak, b, ofc\<lparr>PMonitor := m\<rparr>))))
         | BribeBeckoned \<Rightarrow> busy
         | Beckoned \<Rightarrow> busy
         | OnBreak \<Rightarrow> Inr (take_line Picture l, LineTaken, b, ofc)
         | LineTaken \<Rightarrow> Inr (Ask (Do_Release (MonitorLock Picture)), Open_for, b, ofc)
         | Open_for \<Rightarrow> Inr (wait_line Picture l, Given, b, ofc)
         | Given \<Rightarrow>
             bind_result (array_get (picturesTaken m) l) (\<lambda>taken.
               if \<not> taken then Inr (signal_line Picture l, Answered, b, ofc)
               else Inr (Go, Work (20 + r mod 81), b, ofc))
         | Answered \<Rightarrow> Inr (wait_line Picture l, Given, b, ofc)
         | Work n \<Rightarrow>
             (case n of 0 \<Rightarrow> Inr (Ask (Do_Release (clerkLineLocks Picture l)), Top, b, ofc)
              | Suc n \<Rightarrow> Inr (Ask Do_Yield, Work n, b, ofc))
         | Finished \<Rightarrow> Inl UNDEFINED)"

definition PassportClerk_run :: "nat \<Rightarrow> int \<Rightarrow> clerk_point \<Rightarrow> bool \<Rightarrow> office \<Rightarrow> clerk_segment" where
  "PassportClerk_run r l p b ofc =
     (let m = PPMonitor ofc;
          busy = bind_result (set_state l 1 m) (\<lambda>m. Inr (take_line Passport l, LineTaken, b, ofc\<lparr>PPMonitor := m\<rparr>))
      in case p of
           Top \<Rightarrow> Inr (Ask (Do_Acquire (MonitorLock Passport)), Looking, False, ofc)
         | Looking \<Rightarrow>
             bind_result (array_get (clerkBribeLineCount m) l) (\<lambda>bc.
               if bc > 0
               then bind_result (queue_front (bribeClientSSNs m) l) (\<lambda>_. Inr (beckon_bribe Passport l, BribeBeckoned, True, ofc))
               else bind_result (array_get (clerkLineCount m) l) (\<lambda>c.
                 if c > 0
                 then bind_result (queue_front (clientSSNs m) l) (\<lambda>_. Inr (beckon Passport l, Beckoned, False, ofc))
                 else bind_result (set_state l 2 m) (\<lambda>m. Inr (Go, OnBreak, b, ofc\<lparr>PPMonitor := m\<rparr>))))
         | BribeBeckoned \<Rightarrow> busy
         | Beckoned \<Rightarrow> busy
         | OnBreak \<Rightarrow> Inr (take_line Passport l, LineTaken, b, ofc)
         | LineTaken \<Rightarrow> Inr (Ask (Do_Release (MonitorLock Passport)), Open_for, b, ofc)
         | Open_for \<Rightarrow> Inr (wait_line Passport l, Given, b, ofc)
         | Given \<Rightarrow>
             bind_result (queue_front (clientReqs m) l) (\<lambda>req.
               if \<not> req \<and> \<not> b then Inr (signal_line Passport l, Answered, b, ofc)
               else bind_result (queue_front (bribeClientReqs m) l) (\<lambda>breq.
                 if \<not> breq \<and> b then Inr (signal_line Passport l, Answered, b, ofc)
                 else Inr (Go, Work (20 + r mod 81), b, ofc)))
         | Work n \<Rightarrow>
             (case n of 0 \<Rightarrow> Inr (signal_line Passport l, Answered, b, ofc)
              | Suc n \<Rightarrow> Inr (Ask Do_Yield, Work n, b, ofc))
         | Answered \<Rightarrow> Inr (wait_line Passport l, Finished, b, ofc)
         | Finished \<Rightarrow> Inr (Ask (Do_Release (clerkLineLocks Passport l)), Top, b, ofc))"

text \<open>
  The cashier looks at the regular line whether or not there is a bribed customer, and prints
  the front of the regular queue.
\<close>

definition Cashier_run :: "nat \<Rightarrow> int \<Rightarrow> clerk_point \<Rightarrow> bool \<Rightarrow> office \<Rightarrow> clerk_segment" where
  "Cashier_run r l p b ofc =
     (let m = CMonitor ofc;
          regular = (\<lambda>b m.
             bind_result (array_get (clerkLineCount m) l) (\<lambda>c.
               if c > 0
               then bind_result (queue_front (clientSSNs m) l) (\<lambda>_. Inr (beckon Cash l, Beckoned, False, ofc\<lparr>CMonitor := m\<rparr>))
               else bind_result (set_state l 2 m) (\<lambda>m. Inr (Go, OnBreak, b, ofc\<lparr>CMonitor := m\<rparr>))))
      in case p of
           Top \<Rightarrow> Inr (Ask (Do_Acquire (MonitorLock Cash)), Looking, False, ofc)
         | Looking \<Rightarrow>
             bind_result (array_get (clerkBribeLineCount m) l) (\<lambda>bc.
               if bc > 0
               then bind_result (queue_front (bribeClientSSNs m) l) (\<lambda>_. Inr (beckon_bribe Cash l, BribeBeckoned, True, ofc))
               else regular b m)
         | BribeBeckoned \<Rightarrow> bind_result (set_state l 1 m) (regular b)
         | Beckoned \<Rightarrow> bind_result (set_state l 1 m) (\<lambda>m. Inr (take_line Cash l, LineTaken, b, ofc\<lparr>CMonitor := m\<rparr>))
         | OnBreak \<Rightarrow> Inr (take_line Cash l, LineTaken, b, ofc)
         | LineTaken \<Rightarrow> Inr (Ask (Do_Release (MonitorLock Cash)), Open_for, b, ofc)
         | Open_for \<Rightarrow> Inr (wait_line Cash l, Given, b, ofc)
         | Given \<Rightarrow>
             bind_result (queue_front (clientSSNs m) l) (\<lambda>_.
             bind_result (queue_front (customerCertifications m) l) (\<lambda>cert.
               if cert \<and> \<not> b then Inr (Go, Work (20 + r mod 81), b, ofc)
               else bind_result (queue_front (bribeCustomerCertifications m) l) (\<lambda>bcert.
                 if bcert \<and> b then Inr (Go, Work (20 + r mod 81), b, ofc)
                 else Inr (signal_line Cash l, Answered, b, ofc))))
         | Work n \<Rightarrow>
             (case n of 0 \<Rightarrow> Inr (signal_line Cash l, Answered, b, ofc)
              | Suc n \<Rightarrow> Inr (Ask Do_Yield, Work n, b, ofc))
         | Answered \<Rightarrow> Inr (wait_line Cash l, Finished, b, ofc)
         | Finished \<Rightarrow> Inr (Ask (Do_Release (clerkLineLocks Cash l)), Top, b, ofc))"

definition clerk_run :: "desk \<Rightarrow> nat \<Rightarrow> int \<Rightarrow> clerk_point \<Rightarrow> bool \<Rightarrow> office \<Rightarrow> clerk_segment" where
  "clerk_run d =
     (case d of Application \<Rightarrow> ApplicationClerk_run | Picture \<Rightarrow> PictureClerk_run
      | Passport \<Rightarrow> PassportClerk_run | Cash \<Rightarrow> Cashier_run)"

section \<open>The manager\<close>

text \<open>
  \<open>Patrol d\<close> is in front of the \<open>Acquire\<close> for the desk \<open>d\<close> in \<open>wakeupClerks\<close>, \<open>Scan d i\<close> is the head
  of the loop over its clerks and \<open>Counting\<close> is the call of \<open>updateTotalMoney\<close>.
\<close>

datatype manager_point = Patrol desk | Scan desk int | Counting

fun next_desk :: "desk \<Rightarrow> manager_point" where
  "next_desk Application = Patrol Picture"
| "next_desk Picture = Patrol Passport"
| "next_desk Passport = Patrol Cash"
| "next_desk Cash = Counting"

definition wakeupClerk :: "desk \<Rightarrow> int \<Rightarrow> 'm Monitor_scheme \<Rightarrow> (ending \<times> manager_point) result" where
  "wakeupClerk d i m =
     (if i < numClerks m
      then bind_result (array_get (clerkLineCount m) i) (\<lambda>c.
           bind_result (array_get (clerkState m) i) (\<lambda>st.
             Inr (if c \<ge> 3 \<and> st = 2 then signal_line d i else Go, Scan d (i + 1))))
      else Inr (Ask (Do_Release (MonitorLock d)), next_desk d))"

definition wakeupClerks :: "desk \<Rightarrow> int \<Rightarrow> office \<Rightarrow> (ending \<times> manager_point) result" where
  "wakeupClerks d i ofc =
     (case d of Application \<Rightarrow> wakeupClerk d i (AMonitor ofc) | Picture \<Rightarrow> wakeupClerk d i (PMonitor ofc)
      | Passport \<Rightarrow> wakeupClerk d i (PPMonitor ofc) | Cash \<Rightarrow> wakeupClerk d i (CMonitor ofc))"

definition updateTotalMoney :: "office \<Rightarrow> Manager" where
  "updateTotalMoney ofc =
     (let count = (\<lambda>ts. sum_list (map (\<lambda>t. clerkMoney (clerks ofc t)) ts));
          a = count (aClerks ofc); p = count (pClerks ofc); pp = count (ppClerks ofc); c = count (cClerks ofc)
      in \<lparr>pClerkMoney = p, aClerkMoney = a, ppClerkMoney = pp, cClerkMoney = c, totalMoney = p + a + pp + c\<rparr>)"

definition Manager_run :: "manager_point \<Rightarrow> office \<Rightarrow> (ending \<times> manager_point \<times> office) result" where
  "Manager_run p ofc =
     (case p of
        Patrol d \<Rightarrow> Inr (Ask (Do_Acquire (MonitorLock d)), Scan d 0, ofc)
      | Scan d i \<Rightarrow> bind_result (wakeupClerks d i ofc) (\<lambda>(e, p). Inr (e, p, ofc))
      | Counting \<Rightarrow> Inr (Go, Patrol Application, ofc\<lparr>the_manager := updateTotalMoney ofc\<rparr>))"

section \<open>The threads\<close>

datatype role = Clerk_at desk | A_customer | A_manager | A_senator

text \<open>
  What a thread executes: nothing yet, the loops of \<open>Problem2\<close> with the threads that remain to
  be forked, the procedure it was forked with, or the functions above.
\<close>

datatype program = Unused | Problem2_loops "(string \<times> role) list" | Forked role
  | Customer "(desk \<times> point) option" | Staff desk clerk_point bool | Managing manager_point | Gone

text \<open>
  The procedures \<open>createApplicationClerk\<close>, ..., \<open>makeSenator\<close> up to the functions above. The
  constructor of an application clerk already calls \<open>run\<close>, which does not return: the code
  behind the constructor in \<open>createApplicationClerk\<close> is never reached.
\<close>

definition create :: "nat \<Rightarrow> role \<Rightarrow> tid \<Rightarrow> office \<Rightarrow> ending \<times> program \<times> office" where
  "create r role t ofc =
     (case role of
        Clerk_at Application \<Rightarrow>
          (Go, Staff Application Top False, ofc\<lparr>clerks := (clerks ofc)(t := Clerk_ctor (applicationClerkID ofc))\<rparr>)
      | Clerk_at Picture \<Rightarrow>
          (Go, Staff Picture Top False,
           ofc\<lparr>clerks := (clerks ofc)(t := Clerk_ctor (pictureClerkID ofc)),
               pictureClerkID := pictureClerkID ofc + 1, pClerks := pClerks ofc @ [t]\<rparr>)
      | Clerk_at Passport \<Rightarrow>
          (Go, Staff Passport Top False,
           ofc\<lparr>clerks := (clerks ofc)(t := Clerk_ctor (passportClerkID ofc)),
               passportClerkID := passportClerkID ofc + 1, ppClerks := ppClerks ofc @ [t]\<rparr>)
      | Clerk_at Cash \<Rightarrow>
          (Go, Staff Cash Top False,
           ofc\<lparr>clerks := (clerks ofc)(t := Clerk_ctor (int (length (cClerks ofc)))), cClerks := cClerks ofc @ [t]\<rparr>)
      | A_customer \<Rightarrow>
          (Go, Customer None,
           ofc\<lparr>ssnCount := ssnCount ofc + 1,
               clients := (clients ofc)(t := Client_ctor (ssnCount ofc + 1) (clientStartMoney ! (r mod 4)))\<rparr>)
      | A_manager \<Rightarrow> (Go, Managing (Patrol Application), ofc\<lparr>the_manager := Manager_ctor\<rparr>)
      | A_senator \<Rightarrow> (Leave, Gone, ofc\<lparr>senatorID := senatorID ofc + 1\<rparr>))"

text \<open>One segment of the thread \<open>t\<close>; a customer who is done is put on the list of customers.\<close>

definition segment :: "nat \<Rightarrow> tid \<Rightarrow> program \<Rightarrow> office \<Rightarrow> (ending \<times> program \<times> office) result" where
  "segment r t p ofc =
     (case p of
        Forked role \<Rightarrow> Inr (create r role t ofc)
      | Customer q \<Rightarrow>
          bind_result (Client_run r q (clients ofc t) ofc) (\<lambda>(e, q, c, ofc).
            let ofc = ofc\<lparr>clients := (clients ofc)(t := c)\<rparr>
            in Inr (if e = Leave then (Leave, Gone, ofc\<lparr>customers := customers ofc @ [t]\<rparr>) else (e, Customer q, ofc)))
      | Staff d q b \<Rightarrow>
          bind_result (clerk_run d r (myLine (clerks ofc t)) q b ofc) (\<lambda>(e, q, b, ofc). Inr (e, Staff d q b, ofc))
      | Managing q \<Rightarrow> bind_result (Manager_run q ofc) (\<lambda>(e, q, ofc). Inr (e, Managing q, ofc))
      | _ \<Rightarrow> Inr (Leave, Gone, ofc))"

section \<open>The menu and the set-up\<close>

text \<open>
  The numbers that the user enters: \<open>None\<close> is an input that is not a number. \<open>std::cin\<close> stays
  in its failed state behind it, so that every later question fails too, and the loop of the
  question never ends: that is the result \<open>None\<close>, as is the end of what the user types.
\<close>

fun ask :: "int \<Rightarrow> int option list \<Rightarrow> (nat \<times> int option list) option" where
  "ask hi [] = None"
| "ask hi (None # rest) = None"
| "ask hi (Some n # rest) = (if n \<ge> 1 \<and> n \<le> hi then Some (nat n, rest) else ask hi rest)"

record numbers =
  customer_thread_num :: nat
  applicationClerk_thread_num :: nat
  pictureClerk_thread_num :: nat
  passportClerk_thread_num :: nat
  cashier_thread_num :: nat
  senator_thread_num :: nat

definition menu :: "int option list \<Rightarrow> numbers option" where
  "menu inp =
     (case ask 50 inp of None \<Rightarrow> None | Some (cu, inp) \<Rightarrow>
     (case ask 5 inp of None \<Rightarrow> None | Some (a, inp) \<Rightarrow>
     (case ask 5 inp of None \<Rightarrow> None | Some (p, inp) \<Rightarrow>
     (case ask 5 inp of None \<Rightarrow> None | Some (pp, inp) \<Rightarrow>
     (case ask 5 inp of None \<Rightarrow> None | Some (ca, inp) \<Rightarrow>
     (case ask 10 inp of None \<Rightarrow> None | Some (s, inp) \<Rightarrow>
        Some \<lparr>customer_thread_num = cu, applicationClerk_thread_num = a, pictureClerk_thread_num = p,
              passportClerk_thread_num = pp, cashier_thread_num = ca, senator_thread_num = s\<rparr>))))))"

definition Problem2_threads :: "numbers \<Rightarrow> (string \<times> role) list" where
  "Problem2_threads n =
     replicate (applicationClerk_thread_num n) (''application clerk thread'', Clerk_at Application) @
     replicate (passportClerk_thread_num n) (''passport clerk thread'', Clerk_at Passport) @
     replicate (pictureClerk_thread_num n) (''picture clerk thread'', Clerk_at Picture) @
     replicate (cashier_thread_num n) (''cashier thread'', Clerk_at Cash) @
     [(''manager thread'', A_manager)] @
     replicate (senator_thread_num n) (''senator thread'', A_senator) @
     replicate (customer_thread_num n) (''customer thread'', A_customer)"

text \<open>The global variables when \<open>Problem2\<close> starts to fork threads; the objects are yet to be made.\<close>

definition Problem2_office :: "(nat \<Rightarrow> bool) \<Rightarrow> numbers \<Rightarrow> office" where
  "Problem2_office junk n =
     (let cu = customer_thread_num n in
      \<lparr>AMonitor = ApplicationMonitor_ctor (applicationClerk_thread_num n) cu,
       PMonitor = PictureMonitor_ctor junk (pictureClerk_thread_num n) cu,
       PPMonitor = PassportMonitor_ctor (passportClerk_thread_num n) cu,
       CMonitor = CashierMonitor_ctor (cashier_thread_num n) cu,
       ssnCount = - 1, applicationClerkID = 0, pictureClerkID = 0, passportClerkID = 0, senatorID = 0,
       aClerks = [], pClerks = [], ppClerks = [], cClerks = [], customers = [],
       clients = (\<lambda>_. Client_ctor 0 0), clerks = (\<lambda>_. Clerk_ctor 0), the_manager = Manager_ctor\<rparr>)"

section \<open>What the menu accepts\<close>

lemma ask_eq_Some:
  "ask hi inp = Some (n, rest) \<longleftrightarrow>
   (\<exists>pre. inp = map Some pre @ Some (int n) # rest \<and> (\<forall>x \<in> set pre. x < 1 \<or> hi < x) \<and> 1 \<le> int n \<and> int n \<le> hi)"
proof (induction hi inp rule: ask.induct)
  case (3 hi k inp)
  show ?case
  proof (cases "1 \<le> k \<and> k \<le> hi")
    case True
    then show ?thesis by (auto simp: Cons_eq_append_conv Cons_eq_map_conv map_eq_Cons_conv intro: exI [of _ "[]"])
  next
    case False
    then show ?thesis using 3 by (fastforce simp: Cons_eq_append_conv Cons_eq_map_conv map_eq_Cons_conv)
  qed
qed (auto simp: Cons_eq_append_conv Cons_eq_map_conv map_eq_Cons_conv)

text \<open>
  The menu lets the program start with the numbers the user entered, each the first in its
  range: 1 to 50 customers (the prompt says 20 to 50), 1 to 5 clerks of each kind and 1 to 10
  senators; \<open>Problem2\<close> then forks as many threads of each kind and one manager.
\<close>

theorem menu_numbers:
  assumes "menu inp = Some n"
  shows "customer_thread_num n \<in> {1..50} \<and> applicationClerk_thread_num n \<in> {1..5} \<and> pictureClerk_thread_num n \<in> {1..5} \<and>
    passportClerk_thread_num n \<in> {1..5} \<and> cashier_thread_num n \<in> {1..5} \<and> senator_thread_num n \<in> {1..10} \<and>
    count_list (map snd (Problem2_threads n)) A_customer = customer_thread_num n \<and>
    count_list (map snd (Problem2_threads n)) A_manager = 1 \<and>
    count_list (map snd (Problem2_threads n)) A_senator = senator_thread_num n \<and>
    (\<forall>d. count_list (map snd (Problem2_threads n)) (Clerk_at d) =
       (case d of Application \<Rightarrow> applicationClerk_thread_num n | Picture \<Rightarrow> pictureClerk_thread_num n
        | Passport \<Rightarrow> passportClerk_thread_num n | Cash \<Rightarrow> cashier_thread_num n))"
proof -
  have rep: "count_list (replicate k x) y = (if x = y then k else 0)" for k and x y :: role
    by (induction k) auto
  have app: "count_list (xs @ ys) y = count_list xs y + count_list ys y" for xs ys and y :: role by (induction xs) auto
  show ?thesis using assms
    by (auto simp: menu_def ask_eq_Some Problem2_threads_def rep app split: option.splits prod.splits desk.splits)
qed

theorem menu_numbers_witness:
  "\<exists>n. menu (map Some [60, 20, 1, 2, 3, 4, 11, 5]) = Some n \<and> customer_thread_num n = 20 \<and>
     count_list (map snd (Problem2_threads n)) A_senator = 5"
  using menu_numbers [of "map Some [60, 20, 1, 2, 3, 4, 11, 5]"] by (auto simp: menu_def)

end
