(* ===== verification/Office_Invariant.thy ===== *)
theory Office_Invariant
  imports Office_Staff
begin

text \<open>
  What every segment of a thread of the passport office keeps: the counters of the lines agree
  with the queues, nobody bribes anybody, a customer's papers are in order, and the clerks get no
  money. The theory \<open>Office_Run\<close> makes an invariant of it.
\<close>

section \<open>Calls of the kernel\<close>

text \<open>The segments make no threads.\<close>

fun plain :: "ending \<Rightarrow> bool" where
  "plain (Ask (Do_new_Thread t n)) = False"
| "plain (Ask (Do_Fork t)) = False"
| "plain _ = True"

lemma join_line_plain: "ensures (join_line r d p c ofc) (\<lambda>(e, p, c, ofc). plain e)"
  by (cases d; cases p)
    (simp_all add: join_line_def joinApplicationLine_def joinPictureLine_def joinPassportLine_def joinCashierLine_def
      Let_def split: nat.split)

lemma clerk_run_plain: "ensures (clerk_run d r l p b ofc) (\<lambda>(e, p, b, ofc). plain e)"
  by (cases d; cases p)
    (simp_all add: clerk_run_def ApplicationClerk_run_def PictureClerk_run_def PassportClerk_run_def Cashier_run_def
      Let_def split: nat.split)


lemma ensures_any:
  "(\<And>x. Q x) \<Longrightarrow> ensures (array_get xs i) Q" "(\<And>x. R x) \<Longrightarrow> ensures (array_set xs i v) R"
  "(\<And>x. S x) \<Longrightarrow> ensures (getSmallestLine i0 m) S" "(\<And>x. Q x) \<Longrightarrow> ensures (queue_front qs i) Q"
  by (simp_all add: ensures_def)

lemma Manager_run_plain: "ensures (Manager_run p ofc) (\<lambda>(e, p', ofc'). plain e)"
  by (auto simp: Manager_run_def wakeupClerks_def wakeupClerk_def intro!: ensures_any
      split: manager_point.splits desk.splits)

lemma segment_plain: "ensures (segment r t p ofc) (\<lambda>(e, p', ofc'). plain e)"
proof (cases p)
  case (Forked role)
  then show ?thesis by (auto simp: segment_def create_def split: role.splits desk.splits)
next
  case (Customer q)
  then show ?thesis
    by (auto simp: segment_def Client_run_def Let_def split: option.splits intro!: ensures_mono [OF join_line_plain])
next
  case (Staff d q b)
  then show ?thesis using clerk_run_plain [of d r "myLine (clerks ofc t)" q b ofc]
    by (auto simp: segment_def elim!: ensures_mono)
next
  case (Managing q)
  then show ?thesis using Manager_run_plain [of q ofc] by (auto simp: segment_def elim!: ensures_mono)
qed (simp_all add: segment_def)

section \<open>The lines\<close>

definition line_ok :: "'m Monitor_scheme \<Rightarrow> bool" where
  "line_ok m \<longleftrightarrow> (\<forall>c \<in> set (clerkBribeLineCount m). c = 0) \<and> (\<forall>q \<in> set (bribeClientSSNs m). q = []) \<and>
     (\<forall>i. i < length (clerkLineCount m) \<longrightarrow> i < length (clientSSNs m) \<longrightarrow>
        clerkLineCount m ! i = int (length (clientSSNs m ! i)))"

definition beside :: "'a list list \<Rightarrow> 'b list list \<Rightarrow> bool" where
  "beside qs qs' \<longleftrightarrow> length qs = length qs' \<and> (\<forall>i < length qs. length (qs ! i) = length (qs' ! i))"

definition lines_ok :: "office \<Rightarrow> bool" where
  "lines_ok ofc \<longleftrightarrow> line_ok (AMonitor ofc) \<and> line_ok (PMonitor ofc) \<and> line_ok (PPMonitor ofc) \<and> line_ok (CMonitor ofc) \<and>
     beside (clientSSNs (PPMonitor ofc)) (clientReqs (PPMonitor ofc)) \<and> (\<forall>q \<in> set (bribeClientReqs (PPMonitor ofc)). q = []) \<and>
     beside (clientSSNs (CMonitor ofc)) (customerCertifications (CMonitor ofc)) \<and>
     (\<forall>q \<in> set (bribeCustomerCertifications (CMonitor ofc)). q = [])"

text \<open>The two ways in which a regular line changes.\<close>

definition queued :: "int \<Rightarrow> 'a list list \<Rightarrow> 'a list list \<Rightarrow> bool" where
  "queued l qs qs' \<longleftrightarrow> 0 \<le> l \<and> l < int (length qs) \<and> (\<exists>v. qs' = qs[nat l := qs ! nat l @ [v]])"

definition dequeued :: "int \<Rightarrow> 'a list list \<Rightarrow> 'a list list \<Rightarrow> bool" where
  "dequeued l qs qs' \<longleftrightarrow> 0 \<le> l \<and> l < int (length qs) \<and> qs ! nat l \<noteq> [] \<and> qs' = qs[nat l := tl (qs ! nat l)]"

lemma beside_change:
  "beside qs ps \<Longrightarrow> queued l qs qs' \<Longrightarrow> queued l ps ps' \<Longrightarrow> beside qs' ps'"
  "beside qs ps \<Longrightarrow> dequeued l qs qs' \<Longrightarrow> dequeued l ps ps' \<Longrightarrow> beside qs' ps'"
  by (auto simp: beside_def queued_def dequeued_def nth_list_update)

lemma queue_ensures:
  "ensures (queue_push qs l v) (queued l qs)" "ensures (queue_pop qs l) (dequeued l qs)"
  by (auto simp: ensures_def queue_push_def queue_pop_def array_upd_def array_get_def array_set_def queued_def dequeued_def
      result_simps split: if_splits list.splits)

lemma set_state_ensures:
  "ensures (set_state l s m) (\<lambda>m'. \<exists>st. m' = m\<lparr>clerkState := st\<rparr>)"
  by (auto simp: set_state_def ensures_def result_simps)

lemma line_ok_state [simp]: "line_ok (m\<lparr>clerkState := st\<rparr>) = line_ok m"
  by (simp add: line_ok_def)

lemma array_upd_ensures:
  "ensures (array_upd xs l f) (\<lambda>ys. 0 \<le> l \<and> l < int (length xs) \<and> ys = xs[nat l := f (xs ! nat l)])"
  by (auto simp: ensures_def array_upd_def array_get_def array_set_def result_simps split: if_splits)

lemma get_in_line_ensures:
  assumes "line_ok m"
  shows "ensures (get_in_line False l s m) (\<lambda>m'. line_ok m' \<and> queued l (clientSSNs m) (clientSSNs m') \<and>
    Monitor.more m' = Monitor.more m)"
proof -
  have "line_ok (m\<lparr>clerkLineCount := cs, clientSSNs := qs\<rparr>)"
    if "0 \<le> l" "l < int (length (clerkLineCount m))" "cs = (clerkLineCount m)[nat l := clerkLineCount m ! nat l + 1]"
      "queued l (clientSSNs m) qs" for cs qs
    using assms that by (auto simp: line_ok_def queued_def nth_list_update)
  then show ?thesis
    by (auto simp: get_in_line_def giveSSN_def ensures_def result_simps dest!: ensuresD [OF array_upd_ensures] ensuresD [OF queue_ensures(1)])
qed

lemma leave_line_ensures:
  assumes "line_ok m"
  shows "ensures (leave_line False l m) (\<lambda>m'. line_ok m' \<and> dequeued l (clientSSNs m) (clientSSNs m') \<and>
    Monitor.more m' = Monitor.more m)"
proof -
  have "line_ok (m\<lparr>clerkLineCount := cs, clientSSNs := qs\<rparr>)"
    if "0 \<le> l" "l < int (length (clerkLineCount m))" "cs = (clerkLineCount m)[nat l := clerkLineCount m ! nat l - 1]"
      "dequeued l (clientSSNs m) qs" for cs qs
    using assms that by (auto simp: line_ok_def dequeued_def nth_list_update neq_Nil_conv)
  then show ?thesis
    by (auto simp: leave_line_def ensures_def result_simps dest!: ensuresD [OF array_upd_ensures] ensuresD [OF queue_ensures(2)])
qed


lemma more_reqs:
  assumes "Monitor.more m = Monitor.more (m' :: PassportMonitor)"
  shows "clientReqs m = clientReqs m'" "bribeClientReqs m = bribeClientReqs m'"
  using assms by (cases m; cases m'; simp)+

lemma more_certs:
  assumes "Monitor.more m = Monitor.more (m' :: CashierMonitor)"
  shows "customerCertifications m = customerCertifications m'"
    "bribeCustomerCertifications m = bribeCustomerCertifications m'"
  using assms by (cases m; cases m'; simp)+

section \<open>The people\<close>

definition client_ok :: "Client \<Rightarrow> bool" where
  "client_ok c \<longleftrightarrow> \<not> bribed c \<and> (is_done c \<longrightarrow> certified c) \<and> (certified c \<longrightarrow> applicationAccepted c \<and> pictureTaken c)"

definition forward :: "Client \<Rightarrow> Client \<Rightarrow> bool" where
  "forward c c' \<longleftrightarrow> money c' = money c \<and> ssn c' = ssn c \<and> client_id c' = client_id c \<and>
     (applicationAccepted c \<longrightarrow> applicationAccepted c') \<and> (pictureTaken c \<longrightarrow> pictureTaken c') \<and>
     (certified c \<longrightarrow> certified c') \<and> (is_done c \<longrightarrow> is_done c')"

definition same_people :: "office \<Rightarrow> office \<Rightarrow> bool" where
  "same_people o1 o2 \<longleftrightarrow> clients o2 = clients o1 \<and> clerks o2 = clerks o1 \<and> the_manager o2 = the_manager o1 \<and>
     customers o2 = customers o1 \<and> aClerks o2 = aClerks o1 \<and> applicationClerkID o2 = applicationClerkID o1"

text \<open>What a segment of a customer keeps.\<close>

definition client_post :: "Client \<Rightarrow> office \<Rightarrow> ending \<times> 'p \<times> Client \<times> office \<Rightarrow> bool" where
  "client_post c ofc = (\<lambda>(e, p, c', ofc'). plain e \<and> e \<noteq> Leave \<and> client_ok c' \<and> forward c c' \<and> lines_ok ofc' \<and> same_people ofc ofc')"

lemma proceed_ensures:
  "(\<And>st. R (m\<lparr>clerkState := st\<rparr>)) \<Longrightarrow> ensures (set_state l s m) R"
  by (rule ensures_mono [OF set_state_ensures]) auto

lemma client_changes:
  assumes "client_ok c"
  shows "\<not> bribed c" "client_ok (c\<lparr>applicationAccepted := True\<rparr>)" "client_ok (c\<lparr>pictureTaken := True\<rparr>)"
    "applicationAccepted c \<Longrightarrow> pictureTaken c \<Longrightarrow> client_ok (c\<lparr>certified := True\<rparr>)"
    "certified c \<Longrightarrow> client_ok (c\<lparr>is_done := True\<rparr>)"
  using assms by (auto simp: client_ok_def)

lemma forward_changes [simp]:
  "forward c c" "forward c (c\<lparr>applicationAccepted := True\<rparr>)" "forward c (c\<lparr>pictureTaken := True\<rparr>)"
  "forward c (c\<lparr>certified := True\<rparr>)" "forward c (c\<lparr>is_done := True\<rparr>)"
  by (simp_all add: forward_def)

lemma same_people_monitors [simp]:
  "same_people ofc ofc" "same_people ofc (ofc\<lparr>AMonitor := a\<rparr>)" "same_people ofc (ofc\<lparr>PMonitor := p\<rparr>)"
  "same_people ofc (ofc\<lparr>PPMonitor := pp\<rparr>)" "same_people ofc (ofc\<lparr>CMonitor := c\<rparr>)"
  by (simp_all add: same_people_def)

lemma line_ok_more [simp]:
  "line_ok (p\<lparr>picturesTaken := pt\<rparr>) = line_ok p" "line_ok (pp\<lparr>clientReqs := qs\<rparr>) = line_ok pp"
  "line_ok (c\<lparr>customerCertifications := qs\<rparr>) = line_ok c"
  by (simp_all add: line_ok_def)

lemmas in_office = ensures_any proceed_ensures ensures_mono [OF get_in_line_ensures] ensures_mono [OF leave_line_ensures]
  ensures_mono [OF queue_ensures(1)] ensures_mono [OF queue_ensures(2)]

lemma joinApplicationLine_ok:
  assumes "lines_ok ofc" "client_ok c"
  shows "ensures (joinApplicationLine p c ofc) (client_post c ofc)"
  using assms client_changes [OF assms(2)]
  by (cases p) (auto simp: joinApplicationLine_def Let_def client_post_def lines_ok_def intro!: in_office)

lemma joinPictureLine_ok:
  assumes "lines_ok ofc" "client_ok c"
  shows "ensures (joinPictureLine r p c ofc) (client_post c ofc)"
  using assms client_changes [OF assms(2)]
  by (cases p) (auto simp: joinPictureLine_def Let_def client_post_def lines_ok_def intro!: in_office)

lemma passport_lines:
  fixes m :: PassportMonitor
  assumes "line_ok m"
  shows "ensures (get_in_line False l s m) (\<lambda>m'. line_ok m' \<and> queued l (clientSSNs m) (clientSSNs m') \<and>
      clientReqs m' = clientReqs m \<and> bribeClientReqs m' = bribeClientReqs m)"
    and "ensures (leave_line False l m) (\<lambda>m'. line_ok m' \<and> dequeued l (clientSSNs m) (clientSSNs m') \<and>
      clientReqs m' = clientReqs m \<and> bribeClientReqs m' = bribeClientReqs m)"
  by (rule ensures_mono [OF get_in_line_ensures [OF assms]], use more_reqs in blast)
    (rule ensures_mono [OF leave_line_ensures [OF assms]], use more_reqs in blast)

lemma cashier_lines:
  fixes m :: CashierMonitor
  assumes "line_ok m"
  shows "ensures (get_in_line False l s m) (\<lambda>m'. line_ok m' \<and> queued l (clientSSNs m) (clientSSNs m') \<and>
      customerCertifications m' = customerCertifications m \<and> bribeCustomerCertifications m' = bribeCustomerCertifications m)"
    and "ensures (leave_line False l m) (\<lambda>m'. line_ok m' \<and> dequeued l (clientSSNs m) (clientSSNs m') \<and>
      customerCertifications m' = customerCertifications m \<and> bribeCustomerCertifications m' = bribeCustomerCertifications m)"
  by (rule ensures_mono [OF get_in_line_ensures [OF assms]], use more_certs in blast)
    (rule ensures_mono [OF leave_line_ensures [OF assms]], use more_certs in blast)

lemmas with_papers = ensures_any proceed_ensures ensures_mono [OF queue_ensures(1)] ensures_mono [OF queue_ensures(2)]

lemma joinPassportLine_ok:
  assumes "lines_ok ofc" "client_ok c"
  shows "ensures (joinPassportLine r p c ofc) (client_post c ofc)"
  using assms client_changes [OF assms(2)]
  by (cases p)
    (auto simp: joinPassportLine_def giveReqs_def Let_def client_post_def lines_ok_def
      intro!: with_papers ensures_mono [OF passport_lines(1)] ensures_mono [OF passport_lines(2)]
      intro: beside_change split: nat.splits)

lemma joinCashierLine_ok:
  assumes "lines_ok ofc" "client_ok c"
  shows "ensures (joinCashierLine r p c ofc) (client_post c ofc)"
  using assms client_changes [OF assms(2)]
  by (cases p)
    (auto simp: joinCashierLine_def giveCertification_def Let_def client_post_def lines_ok_def
      intro!: with_papers ensures_mono [OF cashier_lines(1)] ensures_mono [OF cashier_lines(2)]
      intro: beside_change split: nat.splits)

lemma join_line_ok:
  assumes "lines_ok ofc" "client_ok c"
  shows "ensures (join_line r d p c ofc) (client_post c ofc)"
  using joinApplicationLine_ok joinPictureLine_ok joinPassportLine_ok joinCashierLine_ok assms
  by (cases d) (simp_all add: join_line_def)

lemma clerk_run_ok:
  assumes "lines_ok ofc"
  shows "ensures (clerk_run d r l p b ofc) (\<lambda>(e, p', b', ofc'). plain e \<and> e \<noteq> Leave \<and> lines_ok ofc' \<and> same_people ofc ofc')"
  using assms
  by (cases d; cases p)
    (auto simp: clerk_run_def ApplicationClerk_run_def PictureClerk_run_def PassportClerk_run_def Cashier_run_def
      Let_def lines_ok_def intro!: ensures_any proceed_ensures split: nat.splits)

section \<open>The office\<close>

definition paid :: "office \<Rightarrow> bool" where
  "paid ofc \<longleftrightarrow> (\<forall>t. clerkMoney (clerks ofc t) = 0) \<and> the_manager ofc = Manager_ctor"

definition office_ok :: "office \<Rightarrow> (tid \<Rightarrow> program) \<Rightarrow> bool" where
  "office_ok ofc pr \<longleftrightarrow> lines_ok ofc \<and> (\<forall>t. client_ok (clients ofc t)) \<and> paid ofc \<and>
     aClerks ofc = [] \<and> applicationClerkID ofc = 0 \<and>
     (\<forall>t q b. pr t = Staff Application q b \<longrightarrow> myLine (clerks ofc t) = 0) \<and>
     (\<forall>t \<in> set (customers ofc). pr t = Gone \<and> is_done (clients ofc t))"

lemma updateTotalMoney_paid: "paid ofc \<Longrightarrow> updateTotalMoney ofc = Manager_ctor"
proof -
  assume "paid ofc"
  then have "sum_list (map (\<lambda>t. clerkMoney (clerks ofc t)) ts) = 0" for ts by (induction ts) (simp_all add: paid_def)
  then show ?thesis by (simp add: updateTotalMoney_def Manager_ctor_def)
qed

lemma lines_ok_people [simp]:
  "lines_ok (ofc\<lparr>clients := x\<rparr>) = lines_ok ofc" "lines_ok (ofc\<lparr>customers := ts\<rparr>) = lines_ok ofc"
  "lines_ok (ofc\<lparr>clerks := y\<rparr>) = lines_ok ofc" "lines_ok (ofc\<lparr>the_manager := z\<rparr>) = lines_ok ofc"
  by (simp_all add: lines_ok_def)

lemma client_ctor_ok [simp]: "client_ok (Client_ctor n m)"
  by (simp add: client_ok_def Client_ctor_def)

text \<open>What a segment of the thread \<open>t\<close> keeps; no other customer or clerk is touched.\<close>

definition segment_post :: "tid \<Rightarrow> office \<Rightarrow> (tid \<Rightarrow> program) \<Rightarrow> ending \<times> program \<times> office \<Rightarrow> bool" where
  "segment_post t ofc pr = (\<lambda>(e, p, ofc'). plain e \<and> office_ok ofc' (pr(t := p)) \<and>
     (\<forall>u. u \<noteq> t \<longrightarrow> clients ofc' u = clients ofc u) \<and>
     ((\<exists>q. pr t = Customer q) \<or> pr t = Gone \<longrightarrow>
        forward (clients ofc t) (clients ofc' t) \<and> ((\<exists>q. p = Customer q) \<or> p = Gone)))"

lemma create_ok:
  assumes "office_ok ofc pr" "pr t = Forked role"
  shows "segment_post t ofc pr (create r role t ofc)"
  using assms
  by (auto simp: segment_post_def create_def office_ok_def paid_def lines_ok_def Clerk_ctor_def split: role.splits desk.splits)

lemma Client_run_ok:
  assumes "office_ok ofc pr" "pr t = Customer q"
  shows "ensures (segment r t (Customer q) ofc) (segment_post t ofc pr)"
proof (cases q)
  case None
  have c: "t \<notin> set (customers ofc)" using assms by (auto simp: office_ok_def)
  show ?thesis using assms None c
    by (auto simp: segment_def Client_run_def segment_post_def office_ok_def paid_def Let_def)
next
  case (Some dp)
  obtain d p where dp: "dp = (d, p)" by (cases dp)
  have ok: "lines_ok ofc" "client_ok (clients ofc t)" using assms(1) by (auto simp: office_ok_def)
  have c: "t \<notin> set (customers ofc)" using assms by (auto simp: office_ok_def)
  have "segment_post t ofc pr (e, Customer (map_option (Pair d) p'), ofc'\<lparr>clients := (clients ofc')(t := c')\<rparr>)"
    if "client_post (clients ofc t) ofc (e, p', c', ofc')" for e p' c' ofc'
    using that assms c by (auto simp: segment_post_def client_post_def office_ok_def paid_def same_people_def)
  then show ?thesis using join_line_ok [OF ok, of r d p] Some dp
    by (auto simp: segment_def Client_run_def Let_def client_post_def elim!: ensures_mono)
qed

lemma Staff_run_ok:
  assumes "office_ok ofc pr" "pr t = Staff d q b"
  shows "ensures (segment r t (Staff d q b) ofc) (segment_post t ofc pr)"
proof -
  have ok: "lines_ok ofc" and c: "t \<notin> set (customers ofc)" using assms by (auto simp: office_ok_def)
  have "segment_post t ofc pr (e, Staff d q' b', ofc')"
    if "plain e" "lines_ok ofc'" "same_people ofc ofc'" for e q' b' ofc'
    using that assms c by (cases d) (auto simp: segment_post_def office_ok_def paid_def same_people_def)
  then show ?thesis using clerk_run_ok [OF ok, of d r "myLine (clerks ofc t)" q b]
    by (auto simp: segment_def elim!: ensures_mono)
qed

lemma Manager_run_same:
  assumes "paid ofc"
  shows "ensures (Manager_run q ofc) (\<lambda>(e, q', ofc'). plain e \<and> ofc' = ofc)"
proof (cases q)
  case Counting
  have "ofc\<lparr>the_manager := updateTotalMoney ofc\<rparr> = ofc"
    using updateTotalMoney_paid [OF assms] assms by (simp add: paid_def)
  with Counting show ?thesis by (simp add: Manager_run_def)
next
  case (Scan d i)
  then show ?thesis
    by (cases d) (auto simp: Manager_run_def wakeupClerks_def wakeupClerk_def intro!: ensures_any)
qed (simp add: Manager_run_def)

lemma Managing_run_ok:
  assumes "office_ok ofc pr" "pr t = Managing q"
  shows "ensures (segment r t (Managing q) ofc) (segment_post t ofc pr)"
proof -
  have "t \<notin> set (customers ofc)" "paid ofc" using assms by (auto simp: office_ok_def)
  moreover have "segment_post t ofc pr (e, Managing q', ofc)" if "plain e" for e q'
    using that assms by (auto simp: segment_post_def office_ok_def)
  ultimately show ?thesis using Manager_run_same [of ofc q]
    by (auto simp: segment_def elim!: ensures_mono)
qed

lemma segment_ok:
  assumes "office_ok ofc pr" "pr t = p"
  shows "ensures (segment r t p ofc) (segment_post t ofc pr)"
proof (cases p)
  case (Forked role)
  then show ?thesis using create_ok assms by (simp add: segment_def)
next
  case (Customer q)
  then show ?thesis using Client_run_ok assms by simp
next
  case (Staff d q b)
  then show ?thesis using Staff_run_ok assms by simp
next
  case (Managing q)
  then show ?thesis using Managing_run_ok assms by simp
qed (use assms in \<open>auto simp: segment_def segment_post_def office_ok_def\<close>)

section \<open>Undefined behaviour\<close>

text \<open>It is the only way in which a segment can fail.\<close>

lemma array_upd_err: "array_upd xs i f = Inl e \<Longrightarrow> e = UNDEFINED"
  by (auto simp: array_upd_def array_get_def array_set_def result_simps split: if_splits)

lemma queue_err:
  "queue_push qs i v = Inl e \<Longrightarrow> e = UNDEFINED"
  "queue_pop qs i = Inl e \<Longrightarrow> e = UNDEFINED"
  "queue_front qs i = Inl e \<Longrightarrow> e = UNDEFINED"
  by (auto simp: queue_push_def queue_pop_def queue_front_def array_get_def array_set_def result_simps
      dest: array_upd_err split: if_splits list.splits)

lemma monitor_err:
  "set_state l s m = Inl e \<Longrightarrow> e = UNDEFINED"
  "giveSSN l n m = Inl e \<Longrightarrow> e = UNDEFINED"
  "get_in_line b l n m = Inl e \<Longrightarrow> e = UNDEFINED"
  "leave_line b l m = Inl e \<Longrightarrow> e = UNDEFINED"
  "giveReqs l v pm = Inl e \<Longrightarrow> e = UNDEFINED"
  "giveCertification l v cm = Inl e \<Longrightarrow> e = UNDEFINED"
  by (auto simp: set_state_def giveSSN_def get_in_line_def leave_line_def giveReqs_def giveCertification_def
      array_set_def result_simps dest: array_upd_err queue_err split: if_splits)

lemma array_err: "array_get xs i = Inl e \<Longrightarrow> e = UNDEFINED" "array_set xs i v = Inl e \<Longrightarrow> e = UNDEFINED"
  by (auto simp: array_get_def array_set_def split: if_splits)

lemma for_each_err:
  "for_each is body s = Inl e \<Longrightarrow> (\<And>i s e. body i s = Inl e \<Longrightarrow> e = E) \<Longrightarrow> e = E"
  by (induction "is" arbitrary: s) (auto simp: result_simps)

lemma getSmallestLine_err: "getSmallestLine x m = Inl e \<Longrightarrow> e = UNDEFINED"
  by (auto simp: getSmallestLine_def result_simps split: prod.splits dest!: for_each_err [where E = UNDEFINED] array_err)

lemmas office_err = array_err array_upd_err queue_err monitor_err getSmallestLine_err

lemma join_line_err: "join_line r d p c ofc = Inl e \<Longrightarrow> e = UNDEFINED"
  by (cases d; cases p)
    (auto simp: join_line_def joinApplicationLine_def joinPictureLine_def joinPassportLine_def joinCashierLine_def
      Let_def result_simps dest: office_err split: if_splits nat.splits)

lemma clerk_run_err: "clerk_run d r l p b ofc = Inl e \<Longrightarrow> e = UNDEFINED"
  by (cases d; cases p)
    (auto simp: clerk_run_def ApplicationClerk_run_def PictureClerk_run_def PassportClerk_run_def Cashier_run_def
      Let_def result_simps dest: office_err split: if_splits nat.splits)

lemma Manager_run_err: "Manager_run p ofc = Inl e \<Longrightarrow> e = UNDEFINED"
  by (auto simp: Manager_run_def wakeupClerks_def wakeupClerk_def Let_def result_simps dest: office_err
      split: manager_point.splits desk.splits if_splits)

lemma segment_err: "segment r t p ofc = Inl e \<Longrightarrow> e = UNDEFINED"
  by (auto simp: segment_def Client_run_def Let_def result_simps dest: join_line_err clerk_run_err Manager_run_err
      split: program.splits option.splits if_splits)


end
