(* ===== verification/Office_Run.thy ===== *)
theory Office_Run
  imports Office_Invariant Kernel_Properties
begin

text \<open>
  The passport office on the Nachos kernel: the threads of \<open>Office_Staff\<close> make their calls to
  the kernel of \<open>Devices\<close>, which decides who runs. A step of the whole is one segment of the
  current thread with the kernel call it ends with, or one step of the kernel while the current
  thread is inside of the kernel.
\<close>

section \<open>Steps\<close>

record world =
  sys :: nachos
  shared :: office
  prog :: "tid \<Rightarrow> program"

abbreviation me :: "world \<Rightarrow> tid" where "me w \<equiv> currentThread (sys w)"

text \<open>How the end of a segment goes on in the kernel.\<close>

fun conclude :: "host \<Rightarrow> ending \<Rightarrow> nachos \<Rightarrow> nachos result" where
  "conclude host (Ask q) k = machine_step host (Kernel (Some q)) k"
| "conclude host Go k = Inr k"
| "conclude host Leave k = machine_step host (Kernel None) k"

text \<open>
  \<open>r\<close> is the number that \<open>rand\<close> returns if the segment calls it, \<open>t\<close> the object that \<open>new Thread\<close>
  returns if it makes one.
\<close>

definition office_step :: "host \<Rightarrow> nat \<Rightarrow> tid \<Rightarrow> world \<Rightarrow> world result" where
  "office_step host r t w =
     (if \<not> in_body (sys w)
      then bind_result (machine_step host (Kernel None) (sys w)) (\<lambda>k. Inr (w\<lparr>sys := k\<rparr>))
      else case prog w (me w) of
             Problem2_loops ((nm, role) # rest) \<Rightarrow>
               bind_result (machine_step host (Kernel (Some (Do_new_Thread t nm))) (sys w)) (\<lambda>k.
               bind_result (machine_step host (Kernel (Some (Do_Fork t))) k) (\<lambda>k.
                 Inr (w\<lparr>sys := k, prog := (prog w)(me w := Problem2_loops rest, t := Forked role)\<rparr>)))
           | p \<Rightarrow>
               bind_result (segment r (me w) p (shared w)) (\<lambda>(e, p, ofc).
               bind_result (conclude host e (sys w)) (\<lambda>k.
                 Inr \<lparr>sys = k, shared = ofc, prog = (prog w)(me w := p)\<rparr>)))"

text \<open>\<open>new\<close> returns an object that was never used before.\<close>

definition office_allowed :: "tid \<Rightarrow> world \<Rightarrow> bool" where
  "office_allowed t w \<longleftrightarrow> threads (sys w) t = None \<and> prog w t = Unused \<and> t \<noteq> me w"

text \<open>The office opens: the main thread has been through the menu of \<open>Problem2\<close>.\<close>

definition office_opens :: "(nat \<Rightarrow> bool) \<Rightarrow> numbers \<Rightarrow> nachos \<Rightarrow> world" where
  "office_opens junk n k =
     \<lparr>sys = k, shared = Problem2_office junk n,
      prog = (\<lambda>_. Unused)(currentThread k := Problem2_loops (Problem2_threads n))\<rparr>"

inductive office_reach :: "host \<Rightarrow> world \<Rightarrow> world \<Rightarrow> bool" for host w0 where
  office_open: "office_reach host w0 w0"
| office_next: "office_reach host w0 w \<Longrightarrow> office_allowed t w \<Longrightarrow> office_step host r t w = Inr w' \<Longrightarrow>
    office_reach host w0 w'"

section \<open>The office respects the kernel\<close>

lemma plain_allowed: "plain (Ask q) \<Longrightarrow> allowed (Some q) k"
  by (cases q) auto

text \<open>A step of the office by cases.\<close>

lemma office_step_cases:
  assumes "office_step host r t w = x"
  obtains (kernel) "\<not> in_body (sys w)" "x = bind_result (machine_step host (Kernel None) (sys w)) (\<lambda>k. Inr (w\<lparr>sys := k\<rparr>))"
  | (fork) nm role rest where "in_body (sys w)" "prog w (me w) = Problem2_loops ((nm, role) # rest)"
      "x = bind_result (machine_step host (Kernel (Some (Do_new_Thread t nm))) (sys w)) (\<lambda>k.
           bind_result (machine_step host (Kernel (Some (Do_Fork t))) k) (\<lambda>k.
           Inr (w\<lparr>sys := k, prog := (prog w)(me w := Problem2_loops rest, t := Forked role)\<rparr>)))"
  | (segment) "in_body (sys w)" "\<nexists>nm role rest. prog w (me w) = Problem2_loops ((nm, role) # rest)"
      "x = bind_result (segment r (me w) (prog w (me w)) (shared w)) (\<lambda>(e, p, ofc).
           bind_result (conclude host e (sys w)) (\<lambda>k.
           Inr \<lparr>sys = k, shared = ofc, prog = (prog w)(me w := p)\<rparr>))"
proof (cases "in_body (sys w)")
  case True
  show ?thesis
  proof (cases "\<exists>nm role rest. prog w (me w) = Problem2_loops ((nm, role) # rest)")
    case yes: True
    then show ?thesis using assms True fork by (auto simp: office_step_def)
  next
    case no: False
    then have "x = bind_result (segment r (me w) (prog w (me w)) (shared w)) (\<lambda>(e, p, ofc).
           bind_result (conclude host e (sys w)) (\<lambda>k. Inr \<lparr>sys = k, shared = ofc, prog = (prog w)(me w := p)\<rparr>))"
      using assms True by (auto simp: office_step_def split: program.splits list.splits)
    then show ?thesis using segment True no by blast
  qed
next
  case False
  then show ?thesis using assms kernel by (simp add: office_step_def)
qed

lemma new_Thread_step:
  assumes "in_body k" "threads k t = None"
  obtains k1 where "machine_step host (Kernel (Some (Do_new_Thread t nm))) k = Inr k1"
    "machine_allowed (Kernel (Some (Do_Fork t))) k1" "k1 = new_Thread t nm k"
  using assms
  by (auto simp: in_body_def step_def new_Thread_def status_of_def Thread_ctor_def split: list.splits)

lemma office_step_reach:
  assumes "office_allowed t w" "office_step host r t w = Inr w'" "machine_reachable host k0 (sys w)"
  shows "machine_reachable host k0 (sys w')"
  using assms(2)
proof (cases rule: office_step_cases)
  case kernel
  from kernel(2) [symmetric] have "machine_step host (Kernel None) (sys w) = Inr (sys w')"
    unfolding bind_result_eq_Inr by auto
  then show ?thesis by (intro machine_next [OF assms(3), of "Kernel None"]) simp_all
next
  case (fork nm role rest)
  from assms(1) have n: "threads (sys w) t = None" by (simp add: office_allowed_def)
  from new_Thread_step [OF fork(1) n, where host = host and nm = nm] obtain k1 where
    k1: "machine_step host (Kernel (Some (Do_new_Thread t nm))) (sys w) = Inr k1" "machine_allowed (Kernel (Some (Do_Fork t))) k1"
    by blast
  have "machine_reachable host k0 k1" using n by (intro machine_next [OF assms(3) _ k1(1)]) simp
  moreover have "machine_step host (Kernel (Some (Do_Fork t))) k1 = Inr (sys w')"
    using fork(3) [symmetric] unfolding k1(1) by (auto simp: result_simps)
  ultimately show ?thesis using k1(2) machine_next by blast
next
  case segment
  from segment(3) [symmetric] obtain e p ofc where e: "segment r (me w) (prog w (me w)) (shared w) = Inr (e, p, ofc)"
    "conclude host e (sys w) = Inr (sys w')"
    unfolding bind_result_eq_Inr by (auto simp: result_simps)
  show ?thesis
  proof (cases e)
    case (Ask q)
    then have "allowed (Some q) (sys w)" using ensuresD [OF segment_plain e(1)] plain_allowed by simp
    then show ?thesis using e(2) Ask by (intro machine_next [OF assms(3), of "Kernel (Some q)"]) simp_all
  next
    case Go
    then show ?thesis using e(2) assms(3) by simp
  next
    case Leave
    then show ?thesis using e(2) by (intro machine_next [OF assms(3), of "Kernel None"]) simp_all
  qed
qed

lemma office_reach_machine:
  "office_reach host w0 w \<Longrightarrow> machine_reachable host (sys w0) (sys w)"
  by (induction rule: office_reach.induct) (auto intro: machine_start office_step_reach)

text \<open>Every step goes on, halts the machine, or runs into undefined behaviour of the office's own code.\<close>

lemma office_step_ok:
  assumes "kernel_inv (sys w)" "office_allowed t w"
  shows "(\<exists>w'. office_step host r t w = Inr w') \<or> office_step host r t w = Inl HALTED \<or>
    in_body (sys w) \<and> office_step host r t w = Inl UNDEFINED \<and>
    segment r (me w) (prog w (me w)) (shared w) = Inl UNDEFINED"
  using refl [of "office_step host r t w"]
proof (cases rule: office_step_cases)
  case kernel
  then show ?thesis using machine_step_ok [OF assms(1), of "Kernel None" host] by auto
next
  case (fork nm role rest)
  from assms(2) have n: "threads (sys w) t = None" by (simp add: office_allowed_def)
  from new_Thread_step [OF fork(1) n, where host = host and nm = nm] obtain k1 where
    k1: "machine_step host (Kernel (Some (Do_new_Thread t nm))) (sys w) = Inr k1" "machine_allowed (Kernel (Some (Do_Fork t))) k1"
    by blast
  have "kernel_inv k1"
    using machine_step_ok [OF assms(1), of "Kernel (Some (Do_new_Thread t nm))" host] n by (simp add: k1(1) [unfolded machine_step.simps])
  from machine_step_ok [OF this k1(2), of host] show ?thesis unfolding fork(3) k1(1) by auto
next
  case segment
  show ?thesis
  proof (cases "segment r (me w) (prog w (me w)) (shared w)")
    case (Inl e)
    then show ?thesis using segment segment_err [OF Inl] by simp
  next
    case (Inr a)
    obtain e p ofc where a: "a = (e, p, ofc)" by (cases a)
    have "(\<exists>k. conclude host e (sys w) = Inr k) \<or> conclude host e (sys w) = Inl HALTED"
    proof (cases e)
      case (Ask q)
      then have "allowed (Some q) (sys w)" using ensuresD [OF segment_plain Inr] a plain_allowed by simp
      then show ?thesis using machine_step_ok [OF assms(1), of "Kernel (Some q)" host] Ask by auto
    next
      case Leave
      then show ?thesis using machine_step_ok [OF assms(1), of "Kernel None" host] by auto
    qed simp
    then show ?thesis using segment(3) Inr a by auto
  qed
qed

end
