(* ===== verification/Sync_Frame.thy ===== *)
theory Sync_Frame
  imports Devices
begin

text \<open>
  What leaves the locks and condition variables alone: the interrupt handlers of the machine and
  every part of the kernel but the routines of the locks and condition variables themselves. The
  contract \<open>sync_handlers\<close> says so of the handlers; its lemmas carry it over to the routines
  that let handlers run. The relation \<open>kept\<close> says that a held lock is still held and that nobody
  has left two queues.
\<close>

section \<open>Routines without handlers\<close>

definition sync_same :: "('h, 'd) kernel \<Rightarrow> ('h, 'd) kernel \<Rightarrow> bool" where
  "sync_same k k' \<longleftrightarrow> locks k' = locks k \<and> conditions k' = conditions k"

lemma sync_same_trans: "sync_same k k' \<Longrightarrow> sync_same k' k'' \<Longrightarrow> sync_same k k''"
  by (simp add: sync_same_def)

lemma sync_same_refl [simp]: "sync_same k k"
  by (simp add: sync_same_def)

lemma advance_clock_sync [simp]:
  "locks (advance_clock k) = locks k" "conditions (advance_clock k) = conditions k"
  by (simp_all add: advance_clock_def)

lemma ReadyToRun_sync: "ReadyToRun t k = Inr k' \<Longrightarrow> sync_same k k'"
  by (auto simp: ReadyToRun_def sync_same_def Let_def split: if_splits)

lemma Run_sync: "Run t k = Inr k' \<Longrightarrow> sync_same k k'"
  by (auto simp: Run_def sync_same_def result_simps split: if_splits)

lemma FindNextToRun_sync: "FindNextToRun k = (t, k') \<Longrightarrow> sync_same k k'"
  by (auto simp: FindNextToRun_def sync_same_def split: list.splits)

lemma Yield_sync: "Yield k = Inr k' \<Longrightarrow> sync_same k k'"
proof -
  assume a: "Yield k = Inr k'"
  obtain t k2 where f: "FindNextToRun (push (RestoreLevel (level (intr k))) (ChangeLevel IntOff k)) = (t, k2)"
    by (cases "FindNextToRun (push (RestoreLevel (level (intr k))) (ChangeLevel IntOff k))")
  have "sync_same k k2" using FindNextToRun_sync [OF f] by (simp add: sync_same_def)
  with a f show ?thesis
    by (cases t) (auto simp: Yield_def Let_def result_simps dest!: ReadyToRun_sync Run_sync intro: sync_same_trans)
qed

lemma Sleep_sync: "Sleep k = Inr k' \<Longrightarrow> sync_same k k'"
  by (auto simp: Sleep_def sync_same_def result_simps)

lemma Run_resume_sync: "Run_resume k = Inr k' \<Longrightarrow> sync_same k k'"
  by (auto simp: Run_resume_def delete_thread_def sync_same_def result_simps split: option.splits)

lemma Finish_sync: "Finish k = Inr k' \<Longrightarrow> sync_same k k'"
  by (auto simp: Finish_def Let_def sync_same_def dest!: Sleep_sync)

lemma Schedule_sync: "Schedule h a n ty k = Inr k' \<Longrightarrow> sync_same k k'"
  by (auto simp: Schedule_def Let_def sync_same_def result_simps)

section \<open>Locks that stay locked\<close>

definition kept :: "lid \<Rightarrow> cid \<Rightarrow> ('h, 'd) kernel \<Rightarrow> ('h, 'd) kernel \<Rightarrow> bool" where
  "kept m v k k' \<longleftrightarrow> acquired (locks k' m) = acquired (locks k m) \<and> owner (locks k' m) = owner (locks k m) \<and>
     set (lock_queue (locks k m)) \<subseteq> set (lock_queue (locks k' m)) \<and>
     set (waitQueue (conditions k v)) \<subseteq> set (waitQueue (conditions k' v))"

lemma kept_sync: "sync_same k k' \<Longrightarrow> kept m v k k'"
  by (simp add: kept_def sync_same_def)

lemma kept_trans: "kept m v k k' \<Longrightarrow> kept m v k' k'' \<Longrightarrow> kept m v k k''"
  by (auto simp: kept_def)

text \<open>A call that neither releases the lock \<open>m\<close> nor wakes a thread that waits on \<open>v\<close>.\<close>

fun harmless :: "lid \<Rightarrow> cid \<Rightarrow> request \<Rightarrow> bool" where
  "harmless m v (Do_Release l) \<longleftrightarrow> l \<noteq> m"
| "harmless m v (Do_Wait c l) \<longleftrightarrow> l \<noteq> Some m"
| "harmless m v (Do_Signal c l) \<longleftrightarrow> c \<noteq> v"
| "harmless m v (Do_Broadcast c l) \<longleftrightarrow> False"
| "harmless m v _ \<longleftrightarrow> True"

section \<open>Routines that let handlers run\<close>

locale sync_handlers =
  fixes call :: "('h, 'd) calls"
  assumes call_sync: "call h a k = Inr k' \<Longrightarrow> sync_same k k'"
begin

lemma fire_sync:
  assumes "fire call p k = Inr k'"
  shows "sync_same k k'"
proof -
  from assms obtain k2 where "call (handler p) (arg p) (upd_intr (\<lambda>i. i\<lparr>inHandler := True, status := SystemMode\<rparr>) k) = Inr k2"
    "locks k' = locks k2" "conditions k' = conditions k2"
    by (auto simp: fire_def Let_def result_simps)
  with call_sync show ?thesis by (fastforce simp: sync_same_def)
qed

lemma CheckIfDue_sync: "CheckIfDue call adv k = Inr (b, k') \<Longrightarrow> sync_same k k'"
  by (force simp: CheckIfDue_def Let_def result_simps sync_same_def dest!: fire_sync split: list.splits prod.splits if_splits)

lemma fire_due_loop_sync: "fire_due_loop n call k = Inr k' \<Longrightarrow> sync_same k k'"
proof (induction n arbitrary: k)
  case (Suc n)
  then show ?case
    by (auto simp: result_simps split: if_splits dest!: CheckIfDue_sync intro: sync_same_trans)
qed simp

lemma fire_due_sync: "fire_due call k = Inr k' \<Longrightarrow> sync_same k k'"
  unfolding fire_due_def by (rule fire_due_loop_sync)

lemma OneTick_sync:
  assumes "OneTick call k = Inr k'"
  shows "sync_same k k'"
proof -
  from assms obtain k2 where "fire_due call (ChangeLevel IntOff (advance_clock k)) = Inr k2" and
    "k' = ChangeLevel IntOn k2 \<or>
     Yield (push (TickDone (status (intr k)))
       (upd_intr (\<lambda>i. i\<lparr>yieldOnReturn := False, status := SystemMode\<rparr>) (ChangeLevel IntOn k2))) = Inr k'"
    by (auto simp: OneTick_def Let_def result_simps split: if_splits)
  then show ?thesis by (auto simp: sync_same_def dest!: fire_due_sync Yield_sync)
qed

lemma SetLevel_sync: "SetLevel call l k = Inr k' \<Longrightarrow> sync_same k k'"
  by (auto simp: SetLevel_def Let_def result_simps sync_same_def dest!: OneTick_sync split: if_splits)

lemma Idle_sync: "Idle call k = Inr k' \<Longrightarrow> sync_same k k'"
  by (fastforce simp: Idle_def Halt_def result_simps sync_same_def dest!: CheckIfDue_sync fire_due_sync split: if_splits)

lemma Sleep_round_sync:
  assumes "Sleep_round call k = Inr k'"
  shows "sync_same k k'"
proof -
  obtain t k2 where f: "FindNextToRun k = (t, k2)" by (cases "FindNextToRun k")
  with assms FindNextToRun_sync [OF f] show ?thesis
    by (cases t) (auto simp: Sleep_round_def sync_same_def dest!: Idle_sync Run_sync)
qed

lemma V_sync:
  assumes "V call s k = Inr k'"
  shows "sync_same k k'"
proof -
  from assms obtain k2 where
    "SetLevel call (level (intr k)) (upd_sem s (\<lambda>sem. sem\<lparr>sem_value := sem_value sem + 1\<rparr>) k2) = Inr k'" and
    "k2 = ChangeLevel IntOff k \<or>
     (\<exists>t rest. ReadyToRun t (upd_sem s (\<lambda>sem. sem\<lparr>sem_queue := rest\<rparr>) (ChangeLevel IntOff k)) = Inr k2)"
    by (auto simp: V_def Let_def result_simps split: list.splits)
  then show ?thesis by (auto simp: sync_same_def dest!: SetLevel_sync ReadyToRun_sync)
qed

lemma Fork_sync:
  assumes "Fork call t k = Inr k'"
  shows "sync_same k k'"
  using assms by (auto simp: Fork_def Let_def StackAllocate_def result_simps sync_same_def dest!: ReadyToRun_sync SetLevel_sync)

text \<open>A step that is no call of a lock or condition routine, nor the \<open>Acquire\<close> at the end of a \<open>Wait\<close>.\<close>

lemma exec_frame_sync:
  assumes "exec_frame call f k = Inr k'" "\<And>l. f \<noteq> Wait_Acquire l"
  shows "sync_same k k'"
  using assms
  by (cases f) (auto simp: exec_frame_def P_round_def sync_same_def split: if_splits
      dest!: Run_resume_sync SetLevel_sync Sleep_round_sync Finish_sync Sleep_sync)

lemma Acquire_kept:
  assumes "Acquire call l k = Inr k'" "acquired (locks k m)"
  shows "kept m v k k'"
  using assms by (fastforce simp: Acquire_def Let_def kept_def sync_same_def dest!: SetLevel_sync Sleep_sync split: if_splits)

lemma Acquire_queues:
  assumes "Acquire call m k = Inr k'" "acquired (locks k m)" "owner (locks k m) \<noteq> Some (currentThread k)"
  shows "currentThread k \<in> set (lock_queue (locks k' m))"
  using assms by (auto simp: Acquire_def Let_def isHeldByCurrentThread_def sync_same_def dest!: Sleep_sync)

lemma Release_kept:
  assumes "Release call l k = Inr k'" "l \<noteq> m"
  shows "kept m v k k'"
proof -
  define kk where "kk = (if isHeldByCurrentThread l (ChangeLevel IntOff k)
    then upd_lock l (\<lambda>lk. lk\<lparr>acquired := False, owner := None\<rparr>) (ChangeLevel IntOff k) else ChangeLevel IntOff k)"
  have same: "locks kk m = locks k m" "conditions kk = conditions k" using assms(2) by (simp_all add: kk_def)
  from assms(1) obtain k2 where s: "SetLevel call (level (intr k)) k2 = Inr k'" and
    "k2 = kk \<or> (\<exists>t rest. ReadyToRun t (upd_lock l (\<lambda>lk. lk\<lparr>lock_queue := rest\<rparr>) kk) = Inr k2)"
    unfolding Release_def Let_def kk_def [symmetric] by (auto simp: result_simps split: list.splits)
  then have "kept m v k k2" using assms(2) by (auto simp: kept_def sync_same_def same dest!: ReadyToRun_sync)
  then show ?thesis using SetLevel_sync [OF s] kept_sync kept_trans by blast
qed

lemma Wait_kept:
  assumes "Wait call c lk k = Inr k'" "lk \<noteq> Some m"
  shows "kept m v k k'"
proof (cases "\<exists>l k1 k2. lk = Some l \<and> Release call l (upd_cond c (\<lambda>cv. cv\<lparr>waitingLock := Some l\<rparr>) (ChangeLevel IntOff k)) = Inr k2 \<and>
    Sleep (push (Wait_Acquire l) (push (RestoreLevel (level (intr k)))
       (upd_cond c (\<lambda>cv. cv\<lparr>waitQueue := waitQueue cv @ [currentThread k2]\<rparr>) k2))) = Inr k'")
  case True
  then obtain l k2 where l: "lk = Some l" and
    r: "Release call l (upd_cond c (\<lambda>cv. cv\<lparr>waitingLock := Some l\<rparr>) (ChangeLevel IntOff k)) = Inr k2" and
    s: "Sleep (push (Wait_Acquire l) (push (RestoreLevel (level (intr k)))
       (upd_cond c (\<lambda>cv. cv\<lparr>waitQueue := waitQueue cv @ [currentThread k2]\<rparr>) k2))) = Inr k'" by blast
  have "kept m v k k2" using Release_kept [OF r, of m v] assms(2) l by (auto simp: kept_def split: if_splits)
  moreover have "kept m v k2 k'" using Sleep_sync [OF s] by (auto simp: kept_def sync_same_def)
  ultimately show ?thesis by (rule kept_trans)
next
  case False
  then have "SetLevel call (level (intr k)) (ChangeLevel IntOff k) = Inr k'"
    using assms(1) by (auto simp: Wait_def Let_def result_simps split: option.splits if_splits)
  then show ?thesis using SetLevel_sync by (fastforce simp: kept_def sync_same_def)
qed

lemma Signal_kept:
  assumes "Signal call c lk k = Inr k'" "c \<noteq> v"
  shows "kept m v k k'"
proof -
  from assms(1) obtain k2 where s: "SetLevel call (level (intr k)) k2 = Inr k'" and
    "k2 = ChangeLevel IntOff k \<or> (\<exists>t rest. ReadyToRun t (upd_cond c (\<lambda>cv. cv\<lparr>waitQueue := rest\<rparr>) (ChangeLevel IntOff k)) = Inr k2)"
    by (auto simp: Signal_def Let_def result_simps split: list.splits if_splits)
  then have "kept m v k k2" using assms(2) by (auto simp: kept_def sync_same_def dest!: ReadyToRun_sync)
  then show ?thesis using SetLevel_sync [OF s] kept_sync kept_trans by blast
qed

lemma perform_kept:
  assumes "perform call q k = Inr k'" "harmless m v q" "acquired (locks k m)"
  shows "kept m v k k'"
proof (cases q)
  case (Do_P s)
  then show ?thesis using assms by (auto simp: P_def Let_def kept_def)
next
  case (Do_new_Thread t n)
  then show ?thesis using assms by (auto simp: new_Thread_def kept_def)
qed (use assms in \<open>auto intro: kept_sync V_sync Yield_sync Fork_sync Acquire_kept Release_kept Wait_kept Signal_kept\<close>)

lemma exec_frame_kept:
  assumes "exec_frame call f k = Inr k'" "acquired (locks k m)"
  shows "kept m v k k'"
proof (cases "\<exists>l. f = Wait_Acquire l")
  case True
  then obtain l where "Acquire call l (pop k) = Inr k'" using assms(1) by (auto simp: exec_frame_def)
  from Acquire_kept [OF this, of m v] show ?thesis using assms(2) by (auto simp: kept_def)
next
  case False
  then show ?thesis using assms(1) exec_frame_sync kept_sync by blast
qed

end

section \<open>The machine's handlers\<close>

interpretation no_sync: sync_handlers no_calls
  by unfold_locales (simp add: no_calls_def)

lemma TimeOfNextInterrupt_sync: "TimeOfNextInterrupt host k = (t, k') \<Longrightarrow> sync_same k k'"
  by (auto simp: TimeOfNextInterrupt_def Random_def sync_same_def split: if_splits)

lemma TimerExpired_sync:
  assumes "TimerExpired host k = Inr k'"
  shows "sync_same k k'"
proof -
  obtain t k1 where t: "TimeOfNextInterrupt host k = (t, k1)" by (cases "TimeOfNextInterrupt host k")
  with assms TimeOfNextInterrupt_sync [OF t] show ?thesis
    by (auto simp: TimerExpired_def TimerInterruptHandler_def YieldOnReturn_def result_simps sync_same_def
        dest!: Schedule_sync split: if_splits)
qed

lemma CheckCharAvail_sync:
  assumes "CheckCharAvail host k = Inr k'"
  shows "sync_same k k'"
proof -
  from assms obtain k1 where s: "Schedule ConsoleReadPoll 0 ConsoleTime ConsoleReadInt k = Inr k1"
    unfolding CheckCharAvail_def bind_result_eq_Inr by blast
  have "sync_same k1 k'"
  proof (cases "incoming (console (devs k1)) = EOF_char")
    case False
    then show ?thesis using assms s by (simp add: CheckCharAvail_def)
  next
    case True
    then show ?thesis using assms s
      by (cases "typed host (polls (console (devs k1)))")
        (auto simp: CheckCharAvail_def Let_def sync_same_def dest: no_sync.V_sync)
  qed
  with Schedule_sync [OF s] show ?thesis by (rule sync_same_trans)
qed

interpretation dev_sync: sync_handlers "dev_call host" for host
proof
  fix h a and k k' :: nachos
  assume "dev_call host h a k = Inr k'"
  then show "sync_same k k'"
    by (cases h) (auto simp: HandleInterrupt_def RequestDone_def WriteDone_def sync_same_def
        dest!: TimerExpired_sync CheckCharAvail_sync no_sync.V_sync)
qed

end
