(* ===== verification/Office_Desk.thy ===== *)
theory Office_Desk
  imports Office_Run Sync_Frame
begin

text \<open>
  The deadlock at the picture desk of the passport office: a picture clerk who finds the line
  empty goes to sleep with the lock of the monitor held. The predicate \<open>stuck_desk\<close> describes
  the state in which nobody can get past the lock any more, and the lemmas show that no step of
  the office leads out of it.
\<close>

section \<open>The picture desk\<close>

text \<open>The threads that have asked for the lock of the picture monitor and have not left the desk.\<close>

definition at_picture :: "program \<Rightarrow> bool" where
  "at_picture p =
     (case p of Customer (Some (d, q)) \<Rightarrow> d = Picture \<and> q \<noteq> Begin | Staff d q b \<Rightarrow> d = Picture \<and> q \<noteq> Top
      | Managing (Scan d i) \<Rightarrow> d = Picture | _ \<Rightarrow> False)"

text \<open>
  The desk is stuck: the clerk \<open>c\<close> sleeps on the condition of the line \<open>l\<close> and holds the lock of the
  monitor; whoever else has come to the desk waits for the lock.
\<close>

definition stuck_desk :: "tid \<Rightarrow> int \<Rightarrow> world \<Rightarrow> bool" where
  "stuck_desk c l w \<longleftrightarrow> acquired (locks (sys w) (MonitorLock Picture)) \<and>
     owner (locks (sys w) (MonitorLock Picture)) = Some c \<and>
     c \<in> set (waitQueue (conditions (sys w) (clerkLineCV Picture l))) \<and>
     (\<forall>t. t \<noteq> c \<longrightarrow> at_picture (prog w t) \<longrightarrow> t \<in> set (lock_queue (locks (sys w) (MonitorLock Picture))))"

lemma desk_locks [simp]:
  "MonitorLock d = MonitorLock e \<longleftrightarrow> d = e" "clerkLineLocks d i \<noteq> MonitorLock e" "MonitorLock e \<noteq> clerkLineLocks d i"
  by (cases d; cases e; simp add: MonitorLock_def clerkLineLocks_def)+

lemma desk_conditions [simp]:
  "d \<noteq> e \<Longrightarrow> clerkLineCV d i \<noteq> clerkLineCV e j" "clerkBribeLineCV d i \<noteq> clerkLineCV e j"
proof -
  have no: "desk_no x < 4" "desk_no x = desk_no y \<longleftrightarrow> x = y" for x y by (cases x; cases y; simp)+
  have "x = y" if "2 * (4 * a + x) = 2 * (4 * b + y)" "x < 4" "y < 4" for a b x y :: nat using that by presburger
  from this [of "nat i" "desk_no d" "nat j" "desk_no e"] no
  show "d \<noteq> e \<Longrightarrow> clerkLineCV d i \<noteq> clerkLineCV e j" by (auto simp: clerkLineCV_def)
next
  show "clerkBribeLineCV d i \<noteq> clerkLineCV e j" unfolding clerkBribeLineCV_def clerkLineCV_def by presburger
qed

text \<open>A segment outside of the desk stays outside, or ends with asking for the lock of the monitor.\<close>

definition away :: "int \<Rightarrow> ending \<times> program \<Rightarrow> bool" where
  "away l = (\<lambda>(e, p). (\<forall>q. e = Ask q \<longrightarrow> harmless (MonitorLock Picture) (clerkLineCV Picture l) q) \<and>
     (at_picture p \<longrightarrow> e = Ask (Do_Acquire (MonitorLock Picture))))"

definition no_new_picture :: "office \<Rightarrow> office \<Rightarrow> bool" where
  "no_new_picture o1 o2 \<longleftrightarrow> (\<forall>t. pictureTaken (clients o2 t) \<longrightarrow> pictureTaken (clients o1 t))"

lemma join_line_away:
  assumes "d \<noteq> Picture \<or> q = Begin"
  shows "ensures (join_line r d q c ofc) (\<lambda>(e, q', c', ofc'). away l (e, Customer (map_option (Pair d) q')) \<and>
    pictureTaken c' = pictureTaken c \<and> clients ofc' = clients ofc)"
  using assms
  by (cases d; cases q)
    (simp_all add: join_line_def joinApplicationLine_def joinPictureLine_def joinPassportLine_def joinCashierLine_def Let_def
      away_def at_picture_def split: nat.splits)

lemma clerk_run_away:
  assumes "d \<noteq> Picture \<or> q = Top"
  shows "ensures (clerk_run d r i q b ofc) (\<lambda>(e, q', b', ofc'). away l (e, Staff d q' b') \<and> clients ofc' = clients ofc)"
  using assms
  by (cases d; cases q)
    (simp_all add: clerk_run_def ApplicationClerk_run_def PictureClerk_run_def PassportClerk_run_def Cashier_run_def
      Let_def away_def at_picture_def split: nat.splits)

lemma Manager_run_away:
  assumes "\<And>i. q \<noteq> Scan Picture i"
  shows "ensures (Manager_run q ofc) (\<lambda>(e, q', ofc'). away l (e, Managing q') \<and> clients ofc' = clients ofc)"
proof (cases q)
  case (Scan d i)
  then show ?thesis using assms
    by (cases d) (simp_all add: Manager_run_def wakeupClerks_def wakeupClerk_def away_def at_picture_def if_distrib [of Ask])
qed (simp_all add: Manager_run_def away_def at_picture_def split: desk.splits)

lemma segment_away:
  assumes "\<not> at_picture p"
  shows "ensures (segment r t p ofc) (\<lambda>(e, p', ofc'). away l (e, p') \<and> no_new_picture ofc ofc')"
proof (cases p)
  case (Forked role)
  then show ?thesis
    by (auto simp: segment_def create_def away_def at_picture_def no_new_picture_def Client_ctor_def split: role.splits desk.splits)
next
  case (Customer q)
  show ?thesis
  proof (cases q)
    case None
    then show ?thesis using Customer
      by (auto simp: segment_def Client_run_def Let_def away_def at_picture_def no_new_picture_def)
  next
    case (Some dp)
    obtain d q' where dp: "dp = (d, q')" by (cases dp)
    then have "d \<noteq> Picture \<or> q' = Begin" using assms Customer Some by (auto simp: at_picture_def)
    from join_line_away [OF this, of r "clients ofc t" ofc l] show ?thesis using Customer Some dp
      by (auto simp: segment_def Client_run_def Let_def no_new_picture_def away_def at_picture_def elim!: ensures_mono)
  qed
next
  case (Staff d q b)
  then have "d \<noteq> Picture \<or> q = Top" using assms by (auto simp: at_picture_def)
  from clerk_run_away [OF this, of r "myLine (clerks ofc t)" b ofc l] show ?thesis using Staff
    by (auto simp: segment_def no_new_picture_def elim!: ensures_mono)
next
  case (Managing q)
  then have "\<And>i. q \<noteq> Scan Picture i" using assms by (auto simp: at_picture_def)
  from Manager_run_away [OF this, of ofc l] show ?thesis using Managing
    by (auto simp: segment_def no_new_picture_def elim!: ensures_mono)
qed (auto simp: segment_def no_new_picture_def away_def at_picture_def)

section \<open>No step leads out of it\<close>

lemma in_body_not_queued:
  assumes "kernel_inv k" "in_body k"
  shows "currentThread k \<notin> set (queue k q)"
  using assms kinv_running(1) [of k q] by (auto simp: kernel_inv_def in_body_def split: list.splits)

lemma body_step:
  "in_body k \<Longrightarrow> machine_step host (Kernel (Some q)) k = perform (dev_call host) q k"
  by (auto simp: in_body_def step_def split: list.splits)

lemma kernel_step:
  "machine_step host (Kernel None) k = Inr k' \<Longrightarrow> \<exists>f. exec_frame (dev_call host) f k = Inr k'"
  by (auto simp: step_def split: list.splits frame.splits)

lemma at_picture_simps [simp]: "\<not> at_picture (Forked role)" "\<not> at_picture (Problem2_loops ts)"
  by (simp_all add: at_picture_def)

lemma stuck_desk_kept:
  assumes "stuck_desk c l w" "kept (MonitorLock Picture) (clerkLineCV Picture l) (sys w) k"
    and "\<And>t. t \<noteq> c \<Longrightarrow> at_picture (pr t) \<Longrightarrow> at_picture (prog w t) \<or> t \<in> set (lock_queue (locks k (MonitorLock Picture)))"
  shows "stuck_desk c l \<lparr>sys = k, shared = ofc, prog = pr\<rparr>"
  using assms by (auto simp: stuck_desk_def kept_def)

lemma stuck_segment:
  assumes inv: "kernel_inv (sys w)" and stuck: "stuck_desk c l w" and body: "in_body (sys w)"
    and seg: "segment r (me w) (prog w (me w)) (shared w) = Inr (e, p, ofc)" "conclude host e (sys w) = Inr k"
  shows "stuck_desk c l \<lparr>sys = k, shared = ofc, prog = (prog w)(me w := p)\<rparr> \<and> no_new_picture (shared w) ofc"
proof -
  have a: "acquired (locks (sys w) (MonitorLock Picture))" using stuck by (simp add: stuck_desk_def)
  have c: "me w \<noteq> c" using in_body_not_queued [OF inv body, of "CondQ (clerkLineCV Picture l)"] stuck
    by (auto simp: stuck_desk_def queue.simps)
  then have "\<not> at_picture (prog w (me w))"
    using in_body_not_queued [OF inv body, of "LockQ (MonitorLock Picture)"] stuck by (auto simp: stuck_desk_def queue.simps)
  from ensuresD [OF segment_away [OF this] seg(1)] have aw: "away l (e, p)" "no_new_picture (shared w) ofc" by auto
  have kept: "kept (MonitorLock Picture) (clerkLineCV Picture l) (sys w) k"
  proof (cases e)
    case (Ask q)
    then have "perform (dev_call host) q (sys w) = Inr k" using seg(2) body_step [OF body] by simp
    then show ?thesis using dev_sync.perform_kept a aw(1) Ask by (auto simp: away_def)
  next
    case Go
    then show ?thesis using seg(2) by (simp add: kept_def)
  next
    case Leave
    then show ?thesis using seg(2) kernel_step [of host "sys w" k] dev_sync.exec_frame_kept [OF _ a] by auto
  qed
  have "me w \<in> set (lock_queue (locks k (MonitorLock Picture)))" if "at_picture p"
  proof -
    have "Acquire (dev_call host) (MonitorLock Picture) (sys w) = Inr k"
      using that aw(1) seg(2) body_step [OF body] by (simp add: away_def)
    then show ?thesis by (rule dev_sync.Acquire_queues) (use a stuck c in \<open>auto simp: stuck_desk_def\<close>)
  qed
  then have "stuck_desk c l \<lparr>sys = k, shared = ofc, prog = (prog w)(me w := p)\<rparr>"
    by (intro stuck_desk_kept [OF stuck kept]) (auto split: if_splits)
  then show ?thesis using aw(2) by simp
qed

lemma stuck_step:
  assumes inv: "kernel_inv (sys w)" and stuck: "stuck_desk c l w"
    and t: "office_allowed t w" and step: "office_step host r t w = Inr w'"
  shows "stuck_desk c l w' \<and> no_new_picture (shared w) (shared w')"
  using step
proof (cases rule: office_step_cases)
  case kernel
  from kernel(2) [symmetric] obtain k where k: "machine_step host (Kernel None) (sys w) = Inr k" "w' = w\<lparr>sys := k\<rparr>"
    unfolding bind_result_eq_Inr by auto
  have "kept (MonitorLock Picture) (clerkLineCV Picture l) (sys w) k"
    using kernel_step [OF k(1)] dev_sync.exec_frame_kept stuck by (auto simp: stuck_desk_def)
  from stuck_desk_kept [OF stuck this, of "prog w" "shared w"] show ?thesis
    by (cases w) (simp add: k(2) no_new_picture_def)
next
  case (fork nm role rest)
  have n: "threads (sys w) t = None" using t by (simp add: office_allowed_def)
  from new_Thread_step [OF fork(1) n, where host = host and nm = nm] obtain k1 where
    k1: "machine_step host (Kernel (Some (Do_new_Thread t nm))) (sys w) = Inr k1" "k1 = new_Thread t nm (sys w)" by blast
  from fork(3) [symmetric] obtain k where k: "machine_step host (Kernel (Some (Do_Fork t))) k1 = Inr k"
    and w': "w' = w\<lparr>sys := k, prog := (prog w)(me w := Problem2_loops rest, t := Forked role)\<rparr>"
    unfolding k1(1) by (auto simp: result_simps)
  have body: "in_body k1" using fork(1) n by (auto simp: k1(2) in_body_def new_Thread_def frames_of_def split: option.splits)
  have "sync_same (sys w) k1" by (simp add: k1(2) new_Thread_def sync_same_def)
  moreover have "sync_same k1 k" using dev_sync.Fork_sync k body_step [OF body] by simp
  ultimately have "kept (MonitorLock Picture) (clerkLineCV Picture l) (sys w) k"
    using kept_sync sync_same_trans by blast
  then have "stuck_desk c l \<lparr>sys = k, shared = shared w, prog = (prog w)(me w := Problem2_loops rest, t := Forked role)\<rparr>"
    by (intro stuck_desk_kept [OF stuck]) (auto split: if_splits)
  then show ?thesis by (cases w) (simp add: w' no_new_picture_def)
next
  case segment
  from segment(3) [symmetric] obtain e p ofc k where
    "segment r (me w) (prog w (me w)) (shared w) = Inr (e, p, ofc)" "conclude host e (sys w) = Inr k"
    "w' = \<lparr>sys = k, shared = ofc, prog = (prog w)(me w := p)\<rparr>"
    unfolding bind_result_eq_Inr by (auto simp: result_simps)
  with stuck_segment [OF inv stuck segment(1)] show ?thesis by simp
qed

end
