(* ===== verification/Office_Properties.thy ===== *)
theory Office_Properties
  imports Office_Desk
begin

text \<open>
  The properties of the passport office of \<open>threads/threadtest.cc\<close> running on the kernel: what
  holds in every run, and what goes wrong.
\<close>

section \<open>The invariant of the office\<close>

lemma Problem2_office_ok: "office_ok (Problem2_office junk n) pr" if "\<And>t q b. pr t \<noteq> Staff Application q b"
proof -
  have "beside (replicate c []) (replicate c [])" for c by (simp add: beside_def)
  then show ?thesis using that
    by (auto simp: office_ok_def Problem2_office_def Let_def lines_ok_def line_ok_def paid_def Clerk_ctor_def
        ApplicationMonitor_ctor_def PictureMonitor_ctor_def PassportMonitor_ctor_def CashierMonitor_ctor_def)
qed

definition has_been_customer :: "program \<Rightarrow> bool" where
  "has_been_customer p \<longleftrightarrow> (\<exists>q. p = Customer q) \<or> p = Gone"

definition advanced :: "world \<Rightarrow> world \<Rightarrow> bool" where
  "advanced w w' \<longleftrightarrow> (\<forall>u. has_been_customer (prog w u) \<longrightarrow>
     forward (clients (shared w) u) (clients (shared w') u) \<and> has_been_customer (prog w' u))"

lemma advanced_trans: "advanced w w' \<Longrightarrow> advanced w' w'' \<Longrightarrow> advanced w w''"
  by (simp add: advanced_def forward_def)

lemma office_step_inv:
  assumes "office_ok (shared w) (prog w)" "office_allowed t w" "office_step host r t w = Inr w'"
  shows "office_ok (shared w') (prog w') \<and> advanced w w'"
  using assms(3)
proof (cases rule: office_step_cases)
  case kernel
  then show ?thesis using assms(1) by (auto simp: result_simps advanced_def eq_commute [of "Inr w'"])
next
  case (fork nm role rest)
  from fork(3) [symmetric] obtain k where
    w': "w' = w\<lparr>sys := k, prog := (prog w)(me w := Problem2_loops rest, t := Forked role)\<rparr>"
    by (auto simp: result_simps)
  have "prog w t = Unused" "t \<noteq> me w" using assms(2) by (auto simp: office_allowed_def)
  then show ?thesis using assms(1) fork(2) by (auto simp: w' office_ok_def advanced_def has_been_customer_def)
next
  case segment
  from segment(3) [symmetric] obtain e p ofc k where
    s: "segment r (me w) (prog w (me w)) (shared w) = Inr (e, p, ofc)" and
    w': "w' = \<lparr>sys = k, shared = ofc, prog = (prog w)(me w := p)\<rparr>"
    unfolding bind_result_eq_Inr by (auto simp: result_simps)
  from ensuresD [OF segment_ok [OF assms(1) refl] s] show ?thesis
    by (auto simp: w' segment_post_def advanced_def has_been_customer_def)
qed

lemma office_reach_inv:
  assumes "office_reach host w w'" "office_ok (shared w) (prog w)"
  shows "office_ok (shared w') (prog w') \<and> advanced w w'"
  using assms
proof (induction rule: office_reach.induct)
  case (office_next w' t r w'')
  then have "office_ok (shared w') (prog w')" by blast
  from office_step_inv [OF this office_next(2,3)] office_next.IH [OF office_next.prems] show ?case
    using advanced_trans by blast
qed (simp add: advanced_def)

lemma office_opens_ok: "office_ok (shared (office_opens junk n k0)) (prog (office_opens junk n k0))"
  using Problem2_office_ok by (simp add: office_opens_def)


section \<open>Sample runs\<close>

text \<open>A run with given choices of \<open>rand\<close> and \<open>new\<close>; it fails if the choices are not allowed.\<close>

fun office_run :: "host \<Rightarrow> (nat \<times> tid) list \<Rightarrow> world \<Rightarrow> world result" where
  "office_run host [] w = Inr w"
| "office_run host ((r, t) # as) w =
     (if office_allowed t w then bind_result (office_step host r t w) (office_run host as) else Inl ASSERT_FAILED)"

lemma office_run_reach:
  "office_run host as w = Inr w' \<Longrightarrow> office_reach host w0 w \<Longrightarrow> office_reach host w0 w'"
proof (induction host as w rule: office_run.induct)
  case (2 host r t as w)
  then show ?case by (auto simp: result_simps split: if_splits intro: office_next)
qed simp

lemma office_run_undefined:
  assumes "office_run host as w = Inl UNDEFINED" "office_reach host w0 w"
  shows "\<exists>w' r t. office_reach host w0 w' \<and> office_allowed t w' \<and> office_step host r t w' = Inl UNDEFINED"
  using assms
proof (induction host as w rule: office_run.induct)
  case (2 host r t as w)
  show ?case
  proof (cases "office_step host r t w")
    case (Inl e)
    then show ?thesis using 2(2,3) by (auto split: if_splits)
  next
    case (Inr w1)
    then show ?thesis using 2 by (auto split: if_splits intro: office_next)
  qed
qed simp

text \<open>One thread of each kind, a host without interrupts, and condition variables that start with NULL.\<close>

definition one_each :: numbers where
  "one_each = \<lparr>customer_thread_num = 1, applicationClerk_thread_num = 1, pictureClerk_thread_num = 1,
     passportClerk_thread_num = 1, cashier_thread_num = 1, senator_thread_num = 1\<rparr>"

definition small_office :: world where
  "small_office = office_opens (\<lambda>_. False) one_each plain_boot"

definition all_forked :: "nat \<Rightarrow> (nat \<times> tid) list" where
  "all_forked r = [(r, 1), (r, 1), (r, 2), (r, 3), (r, 4), (r, 5), (r, 6), (r, 7)]"

definition five :: "nat \<Rightarrow> (nat \<times> tid) list" where
  "five r = [(r, 8), (r, 8), (r, 8), (r, 8), (r, 8)]"

lemmas office_eval = office_run.simps office_step_def office_allowed_def conclude.simps small_office_def office_opens_def
  Problem2_office_def Problem2_threads_def one_each_def segment_def create_def clerk_run_def ApplicationClerk_run_def
  PictureClerk_run_def PassportClerk_run_def Cashier_run_def Manager_run_def wakeupClerks_def wakeupClerk_def next_desk.simps
  Client_run_def join_line_def joinPassportLine_def wanted_def set_state_def getSmallestLine_def array_get_def array_set_def
  queue_front_def ApplicationMonitor_ctor_def PictureMonitor_ctor_def PassportMonitor_ctor_def CashierMonitor_ctor_def
  Clerk_ctor_def Client_ctor_def MonitorLock_def clerkLineLocks_def clerkLineCV_def clerkBribeLineCV_def all_forked_def five_def

lemma picture_clerk_sleeps:
  "case office_run quiet (all_forked 0 @ five 0 @ five 0 @ five 0 @ five 0 @ [(0, 8), (0, 8), (0, 8)]) small_office of
     Inl e \<Rightarrow> False
   | Inr w \<Rightarrow> stuck_desk 3 0 w \<and> (\<forall>t. \<not> pictureTaken (clients (shared w) t))"
  by (simp add: kernel_eval office_eval stuck_desk_def at_picture_def cong: bind_weak let_weak)

lemma passport_clerk_reads:
  "office_run quiet (all_forked 2 @ five 2 @ five 2 @ five 2 @ five 2 @ five 2 @ five 2 @ five 2 @ five 2 @ five 2 @ five 2 @
     five 2 @ [(2, 8)]) small_office = Inl UNDEFINED"
  by (simp add: kernel_eval office_eval cong: bind_weak let_weak)

lemma small_office_boot:
  "machine_boot quiet False (\<lambda>_. 0) (\<lambda>_. None) (\<lambda>_. None) plain_devices = Inr plain_boot"
  by (rule plain_boot)

text \<open>The state of the small office in which the picture clerk sleeps.\<close>

lemma sleeping_office:
  obtains w where "office_reach quiet small_office w" "stuck_desk 3 0 w" "\<forall>t. \<not> pictureTaken (clients (shared w) t)"
proof (cases "office_run quiet (all_forked 0 @ five 0 @ five 0 @ five 0 @ five 0 @ [(0, 8), (0, 8), (0, 8)]) small_office")
  case (Inl e)
  then show ?thesis using picture_clerk_sleeps by simp
next
  case (Inr w)
  then show ?thesis using picture_clerk_sleeps office_run_reach [OF Inr office_open] that by simp
qed

section \<open>Properties\<close>







text \<open>
  Every application clerk serves line 0, however many there are: the constructor of an
  application clerk calls \<open>run\<close>, which never returns, so that the counter for the next clerk is
  not incremented and the clerk is not put on the list the manager looks at. No clerk ever gets
  money, and the manager counts 0.
\<close>

theorem application_clerks_share_line:
  assumes "office_reach host (office_opens junk n k0) w"
  shows "(prog w t = Staff Application q b \<longrightarrow> myLine (clerks (shared w) t) = 0) \<and> aClerks (shared w) = [] \<and>
    applicationClerkID (shared w) = 0 \<and> clerkMoney (clerks (shared w) t) = 0 \<and> totalMoney (the_manager (shared w)) = 0"
  using office_reach_inv [OF assms office_opens_ok] by (auto simp: office_ok_def paid_def Manager_ctor_def)

theorem application_clerks_share_line_witness:
  "\<exists>w. office_reach quiet small_office w \<and> stuck_desk 3 0 w \<and> aClerks (shared w) = []"
proof -
  obtain w where w: "office_reach quiet small_office w" "stuck_desk 3 0 w" using sleeping_office by blast
  with application_clerks_share_line [OF w(1) [unfolded small_office_def]] show ?thesis by blast
qed

text \<open>
  C7: The picture desk deadlocks. A picture clerk who finds the line empty waits on the condition of
  the line with the lock of the monitor held; once that has happened with nobody else at the
  desk, no run gets out of it: no picture is taken any more and no customer without a picture
  ever gets a passport.
\<close>

theorem picture_desk_deadlock:
  assumes "\<And>s. 0 \<le> values s" "machine_boot host ry values owners waiting d = Inr k0"
    and "office_reach host (office_opens junk n k0) w" "stuck_desk c l w" "office_reach host w w'"
  shows "stuck_desk c l w' \<and>
    (\<not> pictureTaken (clients (shared w) t) \<longrightarrow> \<not> pictureTaken (clients (shared w') t) \<and> \<not> is_done (clients (shared w') t))"
proof -
  have "machine_reachable host k0 (sys w)" using office_reach_machine [OF assms(3)] by (simp add: office_opens_def)
  then have inv: "machine_reachable host (sys w) k \<Longrightarrow> kernel_inv k" for k
    using started_inv [OF assms(1,2)] machine_reachable_inv by blast
  have "stuck_desk c l w' \<and> no_new_picture (shared w) (shared w')"
    using assms(5)
  proof (induction rule: office_reach.induct)
    case (office_next w1 t r w2)
    then show ?case using stuck_step [OF inv [OF office_reach_machine [OF office_next(1)]] _ office_next(2,3)]
      by (auto simp: no_new_picture_def)
  qed (simp add: assms(4) no_new_picture_def)
  moreover have "client_ok (clients (shared w') t)"
    using office_reach_inv [OF assms(5)] office_reach_inv [OF assms(3) office_opens_ok] by (simp add: office_ok_def)
  ultimately show ?thesis by (auto simp: no_new_picture_def client_ok_def)
qed

theorem picture_desk_deadlock_witness:
  "\<exists>w. office_reach quiet small_office w \<and> \<not> (\<exists>w' t. office_reach quiet w w' \<and> is_done (clients (shared w') t))"
proof -
  obtain w where w: "office_reach quiet small_office w" "stuck_desk 3 0 w" "\<forall>t. \<not> pictureTaken (clients (shared w) t)"
    by (rule sleeping_office)
  have "\<not> is_done (clients (shared w') t)" if "office_reach quiet w w'" for w' t
    using picture_desk_deadlock [OF _ small_office_boot w(1) [unfolded small_office_def] w(2) that] w(3) by blast
  with w(1) show ?thesis by blast
qed

text \<open>
  The smallest office, with one thread of each kind and no interrupts, has a run into undefined
  behaviour: a customer who finds a clerk that is not busy goes to the counter without getting in
  line, and the clerk then reads the front of an empty queue.
\<close>

theorem office_reads_empty_queue:
  "\<exists>w r t. office_reach quiet small_office w \<and> office_allowed t w \<and> office_step quiet r t w = Inl UNDEFINED"
  by (rule office_run_undefined [OF passport_clerk_reads office_open])

end
