(* ===== verification/Network.thy ===== *)
theory Network
  imports Open_File Complex_Main
begin

text \<open>
  The network device (\<open>machine/network.cc\<close>) and the format of its packets. A packet goes out
  as one datagram of \<open>MaxWireSize\<close> bytes: the packet header, the data, and whatever the rest of
  the buffer holds. The sockets of the host deliver datagrams in order, each once; a datagram for
  a socket that does not exist is refused. The interrupts the device schedules are events of the
  theory \<open>Post_Office\<close>.
\<close>

section \<open>Packets\<close>

record PacketHeader =
  pkt_to :: "32 word"
  pkt_from :: "32 word"
  pkt_length :: "32 word"

definition sizeof_PacketHeader :: nat where "sizeof_PacketHeader = 12"
definition MaxWireSize :: nat where "MaxWireSize = 64"
definition MaxPacketSize :: nat where "MaxPacketSize = MaxWireSize - sizeof_PacketHeader"

lemmas packet_sizes = sizeof_PacketHeader_def MaxWireSize_def MaxPacketSize_def

text \<open>The three words of a header in memory.\<close>

definition packet_bytes :: "PacketHeader \<Rightarrow> byte list" where
  "packet_bytes h = word_bytes (pkt_to h) @ word_bytes (pkt_from h) @ word_bytes (pkt_length h)"

definition bytes_packet :: "byte list \<Rightarrow> PacketHeader" where
  "bytes_packet bs = \<lparr>pkt_to = bytes_word bs, pkt_from = bytes_word (drop 4 bs), pkt_length = bytes_word (drop 8 bs)\<rparr>"

lemma packet_roundtrip: "bytes_packet (packet_bytes h @ bs) = h"
  using bytes_word_bytes [of "pkt_length h" bs] by (simp add: bytes_packet_def packet_bytes_def)

lemma length_packet_bytes [simp]: "length (packet_bytes h) = 12"
  by (simp add: packet_bytes_def)

section \<open>The device\<close>

record Network =
  ident :: "32 word"
  chanceToWork :: real
  sendBusy :: bool
  inHdr :: PacketHeader
  inbox :: "byte list"

text \<open>The rest of the header and the inbox are not initialised.\<close>

definition Network_ctor :: "PacketHeader \<Rightarrow> byte list \<Rightarrow> 32 word \<Rightarrow> real \<Rightarrow> Network" where
  "Network_ctor junk_hdr junk_box addr reliability =
     \<lparr>ident = addr, chanceToWork = (if reliability < 0 then 0 else if reliability > 1 then 1 else reliability),
      sendBusy = False, inHdr = junk_hdr\<lparr>pkt_length := 0\<rparr>, inbox = junk_box\<rparr>"

text \<open>
  A poll of the socket: \<open>True\<close> if a packet was read, for which the handler \<open>readAvail\<close> is called. The
  last component is what remains in the socket.
\<close>

definition CheckPktAvail :: "Network \<Rightarrow> byte list list \<Rightarrow> (bool \<times> Network \<times> byte list list) result" where
  "CheckPktAvail n sock =
     (if pkt_length (inHdr n) \<noteq> 0 then Inr (False, n, sock)
      else case sock of
             [] \<Rightarrow> Inr (False, n, sock)
           | buffer # rest \<Rightarrow>
               bind_result (ASSERT (length buffer = MaxWireSize)) (\<lambda>_.
               let h = bytes_packet buffer in
               bind_result (ASSERT (pkt_to h = ident n \<and> unat (pkt_length h) \<le> MaxPacketSize)) (\<lambda>_.
               bind_result (copy_out (int sizeof_PacketHeader) (int (unat (pkt_length h))) buffer) (\<lambda>bs.
               bind_result (copy_in 0 bs (inbox n)) (\<lambda>box.
                 Inr (True, n\<lparr>inHdr := h, inbox := box\<rparr>, rest))))))"

definition SendDone :: "Network \<Rightarrow> Network" where
  "SendDone n = n\<lparr>sendBusy := False\<rparr>"

text \<open>
  \<open>r\<close> is the number that \<open>Random\<close> returns and \<open>junk\<close> what the new buffer holds; \<open>None\<close> is a packet
  that gets lost, otherwise the datagram is given.
\<close>

definition Network_Send :: "nat \<Rightarrow> byte list \<Rightarrow> PacketHeader \<Rightarrow> byte list \<Rightarrow> Network \<Rightarrow> byte list option result" where
  "Network_Send r junk h data n =
     bind_result (ASSERT (\<not> sendBusy n \<and> pkt_length h > 0 \<and> unat (pkt_length h) \<le> MaxPacketSize \<and> pkt_from h = ident n)) (\<lambda>_.
       if real (r mod 100) \<ge> chanceToWork n * 100 then Inr None
       else
         bind_result (copy_in 0 (packet_bytes h) junk) (\<lambda>buffer.
         bind_result (copy_out 0 (int (unat (pkt_length h))) data) (\<lambda>bs.
         bind_result (copy_in (int sizeof_PacketHeader) bs buffer) (\<lambda>buffer. Inr (Some buffer)))))"

text \<open>The caller's buffer is returned with the data of the packet, if one is there.\<close>

definition Network_Receive :: "byte list \<Rightarrow> Network \<Rightarrow> (PacketHeader \<times> byte list \<times> Network) result" where
  "Network_Receive data n =
     (let h = inHdr n; n' = n\<lparr>inHdr := h\<lparr>pkt_length := 0\<rparr>\<rparr>
      in if pkt_length h \<noteq> 0
         then bind_result (copy_out 0 (int (unat (pkt_length h))) (inbox n)) (\<lambda>bs.
              bind_result (copy_in 0 bs data) (\<lambda>data. Inr (h, data, n')))
         else Inr (h, data, n'))"

text \<open>The datagrams of the host: \<open>None\<close> is a name that no socket has.\<close>

definition SendToSocket :: "byte list \<Rightarrow> byte list list option \<Rightarrow> bool \<times> byte list list option" where
  "SendToSocket buffer sock = (case sock of None \<Rightarrow> (False, None) | Some q \<Rightarrow> (True, Some (q @ [buffer])))"

section \<open>What is on the wire\<close>

definition payload :: "byte list \<Rightarrow> byte list" where
  "payload buffer = read_at 12 (unat (pkt_length (bytes_packet buffer))) buffer"

lemma Network_Send_ok:
  assumes "\<not> sendBusy n" "pkt_from h = ident n" "0 < pkt_length h" "unat (pkt_length h) \<le> MaxPacketSize"
    and "unat (pkt_length h) \<le> length data" "length junk = MaxWireSize"
  shows "\<exists>b. Network_Send r junk h data n = Inr b \<and>
    (case b of None \<Rightarrow> chanceToWork n * 100 \<le> real (r mod 100)
     | Some buffer \<Rightarrow> length buffer = MaxWireSize \<and> bytes_packet buffer = h \<and> payload buffer = take (unat (pkt_length h)) data)"
proof -
  let ?l = "unat (pkt_length h)"
  let ?b = "write_at 12 (take ?l data) (write_at 0 (packet_bytes h) junk)"
  have len: "length ?b = MaxWireSize" using assms(4-6) by (simp add: packet_sizes)
  have "?b = packet_bytes h @ take ?l data @ drop (12 + ?l) junk"
    using assms(4-6) by (simp add: write_at_def packet_sizes min_def add.commute)
  then have "bytes_packet ?b = h" by (simp add: packet_roundtrip)
  moreover from this have "payload ?b = take ?l data"
    using read_write_at [of 12 "take ?l data"] assms(5) by (simp add: payload_def min.absorb2)
  moreover have u: "uint (pkt_length h) \<le> int k" if "unat (pkt_length h) \<le> k" for k
    using that by (metis of_nat_le_iff uint_nat)
  ultimately show ?thesis using assms len u [OF assms(5)] u [OF assms(4)]
    by (auto simp: Network_Send_def ASSERT_def copy_in_def copy_out_def read_at_def packet_sizes)
qed

end
