(* ===== verification/Post_Office.thy ===== *)
theory Post_Office
  imports Network
begin

text \<open>
  The post office (\<open>network/post.cc\<close>) on machines connected by a network: mail is put into
  packets, sent, polled from the socket, and put into mailboxes by the postal worker. The steps of
  the machines are interleaved in any order. A machine has one thread that sends at a time; the
  lock \<open>sendLock\<close>, which guards the rest of a \<open>Send\<close> of one thread against other senders, is then
  never contended. A mailbox is the sequence of mails on its \<open>SynchList\<close>
  (\<open>threads/synchlist.cc\<close>): \<open>Append\<close> and \<open>Remove\<close> touch the list in one piece between two
  kernel calls, and \<open>Remove\<close> waits while it is empty.
\<close>

section \<open>Mail\<close>

record MailHeader =
  mail_to :: "32 word"
  mail_from :: "32 word"
  mail_length :: "32 word"

definition sizeof_MailHeader :: nat where "sizeof_MailHeader = 12"
definition MaxMailSize :: nat where "MaxMailSize = MaxPacketSize - sizeof_MailHeader"

lemmas mail_sizes = packet_sizes sizeof_MailHeader_def MaxMailSize_def

definition mail_bytes :: "MailHeader \<Rightarrow> byte list" where
  "mail_bytes h = word_bytes (mail_to h) @ word_bytes (mail_from h) @ word_bytes (mail_length h)"

definition bytes_mail :: "byte list \<Rightarrow> MailHeader" where
  "bytes_mail bs = \<lparr>mail_to = bytes_word bs, mail_from = bytes_word (drop 4 bs), mail_length = bytes_word (drop 8 bs)\<rparr>"

lemma mail_roundtrip: "bytes_mail (mail_bytes h @ bs) = h"
  using bytes_word_bytes [of "mail_length h" bs] by (simp add: bytes_mail_def mail_bytes_def)

lemma length_mail_bytes [simp]: "length (mail_bytes h) = 12"
  by (simp add: mail_bytes_def)

text \<open>Of the array \<open>data\<close>, the part that the header's length covers.\<close>

record Mail =
  pktHdr :: PacketHeader
  mailHdr :: MailHeader
  data :: "byte list"

definition Mail_ctor :: "PacketHeader \<Rightarrow> MailHeader \<Rightarrow> byte list \<Rightarrow> Mail result" where
  "Mail_ctor p m msgData =
     bind_result (ASSERT (unat (mail_length m) \<le> MaxMailSize)) (\<lambda>_.
     bind_result (copy_out 0 (int (unat (mail_length m))) msgData) (\<lambda>bs.
       Inr \<lparr>pktHdr = p, mailHdr = m, data = bs\<rparr>))"

section \<open>The post office\<close>

text \<open>\<open>worker_buffer\<close> is the buffer of \<open>PostalDelivery\<close>, \<open>sending\<close> says that a \<open>Send\<close> waits for \<open>messageSent\<close>.\<close>

record PostOffice =
  network :: Network
  netAddr :: "32 word"
  numBoxes :: int
  boxes :: "Mail list list"
  messageAvailable :: int
  messageSent :: int
  sending :: bool
  worker_buffer :: "byte list"

definition PostOffice_ctor :: "PacketHeader \<Rightarrow> byte list \<Rightarrow> byte list \<Rightarrow> 32 word \<Rightarrow> real \<Rightarrow> nat \<Rightarrow> PostOffice" where
  "PostOffice_ctor junk_hdr junk_box junk_buffer addr reliability nBoxes =
     \<lparr>network = Network_ctor junk_hdr junk_box addr reliability, netAddr = addr, numBoxes = int nBoxes,
      boxes = replicate nBoxes [], messageAvailable = 0, messageSent = 0, sending = False, worker_buffer = junk_buffer\<rparr>"

definition MailBox_Put :: "int \<Rightarrow> PacketHeader \<Rightarrow> MailHeader \<Rightarrow> byte list \<Rightarrow> PostOffice \<Rightarrow> PostOffice result" where
  "MailBox_Put box p m msgData po =
     bind_result (Mail_ctor p m msgData) (\<lambda>mail.
     bind_result (array_get (boxes po) box) (\<lambda>q.
     bind_result (array_set (boxes po) box (q @ [mail])) (\<lambda>bs. Inr (po\<lparr>boxes := bs\<rparr>))))"

text \<open>\<open>None\<close>: the caller waits for mail.\<close>

definition MailBox_Get :: "int \<Rightarrow> PostOffice \<Rightarrow> (Mail \<times> PostOffice) option result" where
  "MailBox_Get box po =
     bind_result (array_get (boxes po) box) (\<lambda>q.
       case q of
         [] \<Rightarrow> Inr None
       | mail # rest \<Rightarrow> bind_result (array_set (boxes po) box rest) (\<lambda>bs. Inr (Some (mail, po\<lparr>boxes := bs\<rparr>))))"

text \<open>One round of the loop of the postal worker behind \<open>messageAvailable->P()\<close>.\<close>

definition PostalDelivery_round :: "PostOffice \<Rightarrow> PostOffice result" where
  "PostalDelivery_round po =
     bind_result (Network_Receive (worker_buffer po) (network po)) (\<lambda>(p, buffer, n).
     let m = bytes_mail buffer in
     bind_result (ASSERT (0 \<le> sint (mail_to m) \<and> sint (mail_to m) < numBoxes po)) (\<lambda>_.
     bind_result (ASSERT (unat (mail_length m) \<le> MaxMailSize)) (\<lambda>_.
       MailBox_Put (sint (mail_to m)) p m (drop sizeof_MailHeader buffer) (po\<lparr>network := n, worker_buffer := buffer\<rparr>))))"

text \<open>
  \<open>PostOffice::Send\<close> up to \<open>messageSent->P()\<close>: what the network device makes of the packet, and the
  header that was filled in.
\<close>

definition Post_Send ::
  "nat \<Rightarrow> byte list \<Rightarrow> byte list \<Rightarrow> PacketHeader \<Rightarrow> MailHeader \<Rightarrow> byte list \<Rightarrow> PostOffice \<Rightarrow>
   (PacketHeader \<times> byte list option \<times> PostOffice) result" where
  "Post_Send r junk junk_wire p m msgData po =
     bind_result (ASSERT (unat (mail_length m) \<le> MaxMailSize)) (\<lambda>_.
     bind_result (ASSERT (0 \<le> sint (mail_to m) \<and> sint (mail_to m) < numBoxes po)) (\<lambda>_.
     let p = p\<lparr>pkt_from := netAddr po, pkt_length := mail_length m + of_nat sizeof_MailHeader\<rparr> in
     bind_result (copy_in 0 (mail_bytes m) junk) (\<lambda>buffer.
     bind_result (copy_out 0 (int (unat (mail_length m))) msgData) (\<lambda>bs.
     bind_result (copy_in (int sizeof_MailHeader) bs buffer) (\<lambda>buffer.
     bind_result (Network_Send r junk_wire p buffer (network po)) (\<lambda>out.
       Inr (p, out, po\<lparr>sending := True\<rparr>)))))))"

definition Post_Receive :: "int \<Rightarrow> PostOffice \<Rightarrow> (Mail \<times> PostOffice) option result" where
  "Post_Receive box po =
     bind_result (ASSERT (box \<ge> 0 \<and> box < numBoxes po)) (\<lambda>_.
     bind_result (MailBox_Get box po) (\<lambda>r.
       case r of
         None \<Rightarrow> Inr None
       | Some (mail, po) \<Rightarrow> bind_result (ASSERT (unat (mail_length (mailHdr mail)) \<le> MaxMailSize)) (\<lambda>_. Inr (Some (mail, po)))))"

text \<open>The two interrupt handlers are \<open>V\<close> operations.\<close>

definition IncomingPacket :: "PostOffice \<Rightarrow> PostOffice" where
  "IncomingPacket po = po\<lparr>messageAvailable := messageAvailable po + 1\<rparr>"

definition PacketSent :: "PostOffice \<Rightarrow> PostOffice" where
  "PacketSent po = po\<lparr>messageSent := messageSent po + 1\<rparr>"

section \<open>Machines on a network\<close>

text \<open>\<open>sends\<close> counts the interrupts \<open>NetworkSendDone\<close> that are scheduled.\<close>

record station =
  post :: PostOffice
  socket :: "byte list list"
  sends :: nat

datatype observation = Sent "32 word" PacketHeader MailHeader "byte list" bool bool | Got "32 word" int Mail

record internet =
  stations :: "32 word \<rightharpoonup> station"
  log :: "observation list"

datatype event = Ev_Send PacketHeader MailHeader "byte list" nat "byte list" "byte list"
  | Ev_SendDone | Ev_SendReturns | Ev_Poll | Ev_Deliver | Ev_Receive int

abbreviation put_station :: "32 word \<Rightarrow> station \<Rightarrow> internet \<Rightarrow> internet" where
  "put_station a s w \<equiv> w\<lparr>stations := (stations w)(a \<mapsto> s)\<rparr>"

text \<open>
  What happens at the machine \<open>a\<close>; an observation of a \<open>Send\<close> says whether the packet went onto the
  wire and what \<open>Send\<close> returns.
\<close>

definition net_step :: "32 word \<Rightarrow> event \<Rightarrow> internet \<Rightarrow> internet result" where
  "net_step a ev w =
     (case stations w a of
        None \<Rightarrow> Inr w
      | Some s \<Rightarrow>
          (case ev of
             Ev_Send p m msg r junk junk_wire \<Rightarrow>
               bind_result (Post_Send r junk junk_wire p m msg (post s)) (\<lambda>(p, out, po).
               let w1 = put_station a (s\<lparr>post := po, sends := sends s + 1\<rparr>) w;
                   text = take (unat (mail_length m)) msg
               in case out of
                    None \<Rightarrow> Inr (w1\<lparr>log := log w @ [Sent a p m text False True]\<rparr>)
                  | Some buffer \<Rightarrow>
                      (case stations w1 (pkt_to p) of
                         None \<Rightarrow> Inr (w1\<lparr>log := log w @ [Sent a p m text False (fst (SendToSocket buffer None))]\<rparr>)
                       | Some d \<Rightarrow>
                           let (ok, q) = SendToSocket buffer (Some (socket d))
                           in Inr (put_station (pkt_to p) (d\<lparr>socket := the q\<rparr>) w1\<lparr>log := log w @ [Sent a p m text True ok]\<rparr>)))
           | Ev_SendDone \<Rightarrow>
               Inr (put_station a (s\<lparr>sends := sends s - 1,
                      post := PacketSent ((post s)\<lparr>network := SendDone (network (post s))\<rparr>)\<rparr>) w)
           | Ev_SendReturns \<Rightarrow>
               Inr (put_station a (s\<lparr>post := (post s)\<lparr>messageSent := messageSent (post s) - 1, sending := False\<rparr>\<rparr>) w)
           | Ev_Poll \<Rightarrow>
               bind_result (CheckPktAvail (network (post s)) (socket s)) (\<lambda>(arrived, n, sock).
               let po = (post s)\<lparr>network := n\<rparr>
               in Inr (put_station a (s\<lparr>post := if arrived then IncomingPacket po else po, socket := sock\<rparr>) w))
           | Ev_Deliver \<Rightarrow>
               bind_result (PostalDelivery_round ((post s)\<lparr>messageAvailable := messageAvailable (post s) - 1\<rparr>)) (\<lambda>po.
                 Inr (put_station a (s\<lparr>post := po\<rparr>) w))
           | Ev_Receive box \<Rightarrow>
               bind_result (Post_Receive box (post s)) (\<lambda>r.
                 case r of
                   None \<Rightarrow> Inr w
                 | Some (mail, po) \<Rightarrow> Inr (put_station a (s\<lparr>post := po\<rparr>) w\<lparr>log := log w @ [Got a box mail]\<rparr>))))"

text \<open>
  When an event can happen, and what the callers have to observe: the message fits, the mailbox
  exists and the buffers have the sizes the code allocates.
\<close>

definition net_enabled :: "32 word \<Rightarrow> event \<Rightarrow> internet \<Rightarrow> bool" where
  "net_enabled a ev w =
     (case stations w a of
        None \<Rightarrow> False
      | Some s \<Rightarrow>
          (case ev of
             Ev_Send p m msg r junk junk_wire \<Rightarrow>
               \<not> sending (post s) \<and> unat (mail_length m) \<le> MaxMailSize \<and> unat (mail_length m) \<le> length msg \<and>
               0 \<le> sint (mail_to m) \<and> sint (mail_to m) < numBoxes (post s) \<and>
               length junk = MaxPacketSize \<and> length junk_wire = MaxWireSize
           | Ev_SendDone \<Rightarrow> sends s > 0
           | Ev_SendReturns \<Rightarrow> sending (post s) \<and> messageSent (post s) > 0
           | Ev_Poll \<Rightarrow> True
           | Ev_Deliver \<Rightarrow> messageAvailable (post s) > 0
           | Ev_Receive box \<Rightarrow> 0 \<le> box \<and> box < numBoxes (post s)))"

inductive net_reach :: "internet \<Rightarrow> internet \<Rightarrow> bool" for w0 where
  net_start: "net_reach w0 w0"
| net_next: "net_reach w0 w \<Longrightarrow> net_enabled a ev w \<Longrightarrow> net_step a ev w = Inr w' \<Longrightarrow> net_reach w0 w'"

text \<open>The machines when they start, with the same number of mailboxes each.\<close>

definition net_init :: "(32 word \<rightharpoonup> PacketHeader \<times> byte list \<times> byte list \<times> real) \<Rightarrow> nat \<Rightarrow> internet" where
  "net_init up nBoxes =
     \<lparr>stations = (\<lambda>a. map_option (\<lambda>(h, box, buf, rel).
        \<lparr>post = PostOffice_ctor h box buf a rel nBoxes, socket = [], sends = 0\<rparr>) (up a)), log = []\<rparr>"

end
