(* ===== verification/Post_Office_Properties.thy ===== *)
theory Post_Office_Properties
  imports Post_Office
begin

text \<open>
  What the post office promises: mail reaches the mailbox it was sent to, unchanged, once and in
  the order of sending, unless the network may lose packets or the destination does not exist, and
  no assertion of the device or of the post office fails.
\<close>

section \<open>Mail on its way\<close>

definition packet_ok :: "nat \<Rightarrow> PacketHeader \<Rightarrow> byte list \<Rightarrow> bool" where
  "packet_ok n h bs \<longleftrightarrow> length bs = unat (pkt_length h) \<and> unat (pkt_length h) = unat (mail_length (bytes_mail bs)) + 12 \<and>
     unat (mail_length (bytes_mail bs)) \<le> MaxMailSize \<and>
     0 \<le> sint (mail_to (bytes_mail bs)) \<and> sint (mail_to (bytes_mail bs)) < int n"

definition wire_ok :: "nat \<Rightarrow> 32 word \<Rightarrow> byte list \<Rightarrow> bool" where
  "wire_ok n b buffer \<longleftrightarrow> length buffer = MaxWireSize \<and> pkt_to (bytes_packet buffer) = b \<and>
     packet_ok n (bytes_packet buffer) (payload buffer)"

definition mail_of :: "PacketHeader \<Rightarrow> byte list \<Rightarrow> Mail" where
  "mail_of h bs = \<lparr>pktHdr = h, mailHdr = bytes_mail bs, data = drop 12 bs\<rparr>"

text \<open>The packet in the inbox of the device, if there is one.\<close>

definition inbox_mail :: "Network \<Rightarrow> Mail list" where
  "inbox_mail n = (if pkt_length (inHdr n) = 0 then [] else [mail_of (inHdr n) (take (unat (pkt_length (inHdr n))) (inbox n))])"

definition arriving :: "station \<Rightarrow> Mail list" where
  "arriving s = inbox_mail (network (post s)) @ map (\<lambda>b. mail_of (bytes_packet b) (payload b)) (socket s)"

definition mail_for :: "int \<Rightarrow> Mail list \<Rightarrow> Mail list" where
  "mail_for i ms = filter (\<lambda>m. sint (mail_to (mailHdr m)) = i) ms"

definition waiting :: "int \<Rightarrow> station \<Rightarrow> Mail list" where
  "waiting i s = boxes (post s) ! nat i @ mail_for i (arriving s)"

definition inbox_ok :: "nat \<Rightarrow> PostOffice \<Rightarrow> bool" where
  "inbox_ok n po \<longleftrightarrow> length (inbox (network po)) = MaxPacketSize \<and>
     (if pkt_length (inHdr (network po)) = 0 then messageAvailable po = 0
      else messageAvailable po = 1 \<and>
        packet_ok n (inHdr (network po)) (take (unat (pkt_length (inHdr (network po)))) (inbox (network po))))"

definition station_ok :: "nat \<Rightarrow> 32 word \<Rightarrow> station \<Rightarrow> bool" where
  "station_ok n b s \<longleftrightarrow> netAddr (post s) = b \<and> ident (network (post s)) = b \<and> \<not> sendBusy (network (post s)) \<and>
     numBoxes (post s) = int n \<and> length (boxes (post s)) = n \<and> length (worker_buffer (post s)) = MaxPacketSize \<and>
     (\<forall>q \<in> set (boxes (post s)). \<forall>mail \<in> set q. unat (mail_length (mailHdr mail)) \<le> MaxMailSize) \<and>
     inbox_ok n (post s) \<and> (\<forall>buffer \<in> set (socket s). wire_ok n b buffer)"

lemma uint_le: "unat x \<le> k \<Longrightarrow> uint x \<le> int k" for x :: "32 word"
  by (metis of_nat_le_iff uint_nat)

lemma Post_Send_ok:
  assumes s: "station_ok n b s" and m: "unat (mail_length m) \<le> MaxMailSize" "unat (mail_length m) \<le> length msg"
    "0 \<le> sint (mail_to m)" "sint (mail_to m) < numBoxes (post s)"
    and junk: "length junk = MaxPacketSize" "length junk_wire = MaxWireSize"
  obtains p' out where "Post_Send r junk junk_wire p m msg (post s) = Inr (p', out, (post s)\<lparr>sending := True\<rparr>)"
    "pkt_to p' = pkt_to p"
    "case out of None \<Rightarrow> chanceToWork (network (post s)) < 1
     | Some buffer \<Rightarrow> wire_ok n (pkt_to p) buffer \<and>
         mail_of (bytes_packet buffer) (payload buffer) = \<lparr>pktHdr = p', mailHdr = m, data = take (unat (mail_length m)) msg\<rparr>"
proof -
  let ?l = "unat (mail_length m)"
  define p' where "p' = p\<lparr>pkt_from := netAddr (post s), pkt_length := mail_length m + of_nat sizeof_MailHeader\<rparr>"
  define bs where "bs = mail_bytes m @ take ?l msg"
  define buf where "buf = write_at 12 (take ?l msg) (write_at 0 (mail_bytes m) junk)"
  have lb: "length bs = ?l + 12" using m by (simp add: bs_def)
  have "unat (mail_length m) + unat (12 :: 32 word) < 2 ^ 32" using m(1) by (simp add: mail_sizes)
  then have l: "unat (pkt_length p') = ?l + 12"
    using unat_add_lem [of "mail_length m" 12] by (simp add: p'_def mail_sizes)
  then have pos: "0 < pkt_length p'" by (simp add: word_gt_0 unat_eq_zero [symmetric])
  have buf: "length buf = MaxPacketSize" "take (?l + 12) buf = bs"
    using m junk(1) by (simp_all add: buf_def bs_def write_at_def mail_sizes min.absorb2)
  have len: "?l + 12 \<le> MaxPacketSize" using m(1) by (simp add: mail_sizes)
  from Network_Send_ok [of "network (post s)" p' buf junk_wire r] s pos l len buf(1) junk(2) obtain out where
    out: "Network_Send r junk_wire p' buf (network (post s)) = Inr out"
      "case out of None \<Rightarrow> chanceToWork (network (post s)) * 100 \<le> real (r mod 100)
       | Some buffer \<Rightarrow> length buffer = MaxWireSize \<and> bytes_packet buffer = p' \<and> payload buffer = bs"
    using buf(2) by (auto simp: station_ok_def p'_def split: option.splits)
  have "p\<lparr>pkt_from := netAddr (post s), pkt_length := mail_length m + 12\<rparr> = p'" by (simp add: p'_def mail_sizes)
  then have "Post_Send r junk junk_wire p m msg (post s) = Inr (p', out, (post s)\<lparr>sending := True\<rparr>)"
    using m junk(1) out(1) uint_le [OF m(1)] uint_le [OF m(2)]
    by (simp add: Post_Send_def Let_def ASSERT_def copy_in_def copy_out_def read_at_def mail_sizes flip: buf_def)
  moreover have "pkt_to p' = pkt_to p" by (simp add: p'_def)
  moreover have "case out of None \<Rightarrow> chanceToWork (network (post s)) < 1
     | Some buffer \<Rightarrow> wire_ok n (pkt_to p) buffer \<and>
         mail_of (bytes_packet buffer) (payload buffer) = \<lparr>pktHdr = p', mailHdr = m, data = take ?l msg\<rparr>"
  proof (cases out)
    case None
    have "real (r mod 100) < 100" by simp
    then show ?thesis using out(2) None by simp
  next
    case (Some buffer)
    have "bytes_mail bs = m" by (simp add: bs_def mail_roundtrip)
    then show ?thesis using out(2) Some s m lb l
      by (simp add: wire_ok_def packet_ok_def mail_of_def station_ok_def p'_def) (simp add: bs_def)
  qed
  ultimately show ?thesis using that by blast
qed


lemma bytes_word_append: "4 \<le> length bs \<Longrightarrow> bytes_word (bs @ xs) = bytes_word bs"
  by (cases bs rule: bytes_word.cases) auto

lemma bytes_mail_append: "12 \<le> length bs \<Longrightarrow> bytes_mail (bs @ xs) = bytes_mail bs"
  by (simp add: bytes_mail_def bytes_word_append)

lemma CheckPktAvail_ok:
  assumes s: "station_ok n b s"
  obtains arrived net sock po where "CheckPktAvail (network (post s)) (socket s) = Inr (arrived, net, sock)"
    "po = (let po = (post s)\<lparr>network := net\<rparr> in if arrived then IncomingPacket po else po)"
    "station_ok n b (s\<lparr>post := po, socket := sock\<rparr>)" "arriving (s\<lparr>post := po, socket := sock\<rparr>) = arriving s"
    "boxes po = boxes (post s)" "chanceToWork net = chanceToWork (network (post s))"
    "pkt_length (inHdr (network (post s))) = 0 \<Longrightarrow> sock = tl (socket s)"
proof (cases "pkt_length (inHdr (network (post s))) \<noteq> 0 \<or> socket s = []")
  case True
  then show ?thesis using s
    by (intro that [of False "network (post s)" "socket s" "post s"]) (auto simp: CheckPktAvail_def split: list.splits)
next
  case False
  then obtain buffer rest where sock: "socket s = buffer # rest" and e: "pkt_length (inHdr (network (post s))) = 0"
    by (cases "socket s") auto
  let ?h = "bytes_packet buffer" let ?l = "unat (pkt_length (bytes_packet buffer))"
  let ?box = "write_at 0 (payload buffer) (inbox (network (post s)))"
  have w: "wire_ok n b buffer" and box: "length (inbox (network (post s))) = MaxPacketSize"
    using s sock by (auto simp: station_ok_def inbox_ok_def)
  then have len: "length buffer = 64" "?l \<le> 52" "length (payload buffer) = ?l" "pkt_length ?h \<noteq> 0"
    by (auto simp: wire_ok_def packet_ok_def mail_sizes)
  have c: "CheckPktAvail (network (post s)) (socket s) =
      Inr (True, (network (post s))\<lparr>inHdr := ?h, inbox := ?box\<rparr>, rest)"
    using w box len e s uint_le [OF len(2)]
    by (simp add: CheckPktAvail_def sock ASSERT_def copy_out_def copy_in_def packet_sizes wire_ok_def station_ok_def
        Let_def payload_def)
  let ?po = "IncomingPacket ((post s)\<lparr>network := (network (post s))\<lparr>inHdr := ?h, inbox := ?box\<rparr>\<rparr>)"
  have t: "take ?l ?box = payload buffer" "length ?box = MaxPacketSize"
    using len box by (simp_all add: write_at_def packet_sizes)
  have ok: "station_ok n b (s\<lparr>post := ?po, socket := rest\<rparr>)"
    using s w t len e by (auto simp: station_ok_def inbox_ok_def IncomingPacket_def sock wire_ok_def)
  have ar: "arriving (s\<lparr>post := ?po, socket := rest\<rparr>) = arriving s"
    using t len e by (simp add: arriving_def inbox_mail_def IncomingPacket_def sock)
  show ?thesis by (rule that [OF c _ ok ar]) (simp_all add: IncomingPacket_def Let_def sock)
qed

lemma PostalDelivery_ok:
  assumes s: "station_ok n b s" and av: "0 < messageAvailable (post s)"
  obtains po where "PostalDelivery_round ((post s)\<lparr>messageAvailable := messageAvailable (post s) - 1\<rparr>) = Inr po"
    "station_ok n b (s\<lparr>post := po\<rparr>)" "\<And>i. 0 \<le> i \<Longrightarrow> i < int n \<Longrightarrow> waiting i (s\<lparr>post := po\<rparr>) = waiting i s"
    "chanceToWork (network po) = chanceToWork (network (post s))" "inbox_mail (network po) = []"
proof -
  let ?n = "network (post s)" let ?h = "inHdr (network (post s))"
  let ?l = "unat (pkt_length (inHdr (network (post s))))" let ?bs = "take (unat (pkt_length (inHdr (network (post s))))) (inbox (network (post s)))"
  let ?m = "bytes_mail ?bs" let ?i = "sint (mail_to (bytes_mail ?bs))"
  let ?buf = "write_at 0 ?bs (worker_buffer (post s))"
  from s av have nz: "pkt_length ?h \<noteq> 0" and one: "messageAvailable (post s) = 1" and pk: "packet_ok n ?h ?bs"
    and box: "length (inbox ?n) = 52" "length (worker_buffer (post s)) = 52" "length (boxes (post s)) = n" "numBoxes (post s) = int n"
    by (auto simp: station_ok_def inbox_ok_def packet_sizes split: if_splits)
  have l: "?l \<le> 52" "length ?bs = ?l" "?l = unat (mail_length ?m) + 12" "unat (mail_length ?m) \<le> 40" "0 \<le> ?i" "?i < int n"
    using pk box by (auto simp: packet_ok_def mail_sizes)
  have buf: "?buf = ?bs @ drop ?l (worker_buffer (post s))" using l(2) by (simp add: write_at_def)
  have bm: "bytes_mail ?buf = ?m" using l by (simp add: buf bytes_mail_append)
  define mail where "mail = mail_of ?h ?bs"
  have mail: "take (unat (mail_length ?m)) (drop 12 ?buf) = data mail" "mailHdr mail = ?m" "pktHdr mail = ?h"
    using l by (simp_all add: mail_def mail_of_def buf)
  define po where "po = (post s)\<lparr>messageAvailable := 0, network := ?n\<lparr>inHdr := ?h\<lparr>pkt_length := 0\<rparr>\<rparr>, worker_buffer := ?buf,
    boxes := (boxes (post s))[nat ?i := boxes (post s) ! nat ?i @ [mail]]\<rparr>"
  have "\<lparr>pktHdr = ?h, mailHdr = ?m, data = data mail\<rparr> = mail" using mail by simp
  then have r: "PostalDelivery_round ((post s)\<lparr>messageAvailable := messageAvailable (post s) - 1\<rparr>) = Inr po"
    using nz one box l uint_le [OF l(1)] uint_le [OF l(4)] mail(1)
    by (simp add: PostalDelivery_round_def Network_Receive_def Let_def copy_out_def copy_in_def read_at_def bm ASSERT_def mail_sizes
        MailBox_Put_def Mail_ctor_def po_def)
  have ok: "station_ok n b (s\<lparr>post := po\<rparr>)"
  proof -
    have "unat (mail_length (mailHdr x)) \<le> MaxMailSize"
      if "q \<in> set ((boxes (post s))[nat ?i := boxes (post s) ! nat ?i @ [mail]])" "x \<in> set q" for q x
    proof -
      have "q \<in> set (boxes (post s)) \<or> q = boxes (post s) ! nat ?i @ [mail]" using that(1) set_update_subset_insert by fast
      moreover have "boxes (post s) ! nat ?i \<in> set (boxes (post s))" using l box by auto
      ultimately show ?thesis using s that(2) l(4) mail(2) by (auto simp: station_ok_def mail_sizes)
    qed
    then show ?thesis using s box l by (auto simp: station_ok_def inbox_ok_def po_def packet_sizes)
  qed
  have "waiting i (s\<lparr>post := po\<rparr>) = waiting i s" if "0 \<le> i" "i < int n" for i
  proof -
    have "arriving s = mail # arriving (s\<lparr>post := po\<rparr>)" using nz by (simp add: arriving_def inbox_mail_def po_def mail_def)
    then show ?thesis using that l box mail(2) by (auto simp: waiting_def mail_for_def po_def nth_list_update)
  qed
  with r ok show ?thesis using that by (simp add: po_def inbox_mail_def)
qed

lemma station_ok_boxes:
  assumes "station_ok n b s" "\<forall>x \<in> set q. unat (mail_length (mailHdr x)) \<le> MaxMailSize"
  shows "station_ok n b (s\<lparr>post := (post s)\<lparr>boxes := (boxes (post s))[k := q]\<rparr>\<rparr>)"
proof -
  have "\<forall>x \<in> set q'. unat (mail_length (mailHdr x)) \<le> MaxMailSize" if "q' \<in> set ((boxes (post s))[k := q])" for q'
    using that assms set_update_subset_insert [of "boxes (post s)" k q] unfolding station_ok_def by blast
  then show ?thesis using assms(1) by (simp add: station_ok_def inbox_ok_def)
qed

lemma Post_Receive_ok:
  assumes s: "station_ok n b s" and box: "0 \<le> i" "i < int n"
  shows "Post_Receive i (post s) = Inr None \<and> boxes (post s) ! nat i = [] \<or>
    (\<exists>mail q po. Post_Receive i (post s) = Inr (Some (mail, po)) \<and> boxes (post s) ! nat i = mail # q \<and>
       po = (post s)\<lparr>boxes := (boxes (post s))[nat i := q]\<rparr> \<and> station_ok n b (s\<lparr>post := po\<rparr>))"
proof (cases "boxes (post s) ! nat i")
  case Nil
  then show ?thesis using s box by (simp add: Post_Receive_def MailBox_Get_def ASSERT_def station_ok_def)
next
  case (Cons mail q)
  have "boxes (post s) ! nat i \<in> set (boxes (post s))" using s box by (auto simp: station_ok_def)
  then have len: "unat (mail_length (mailHdr x)) \<le> MaxMailSize" if "x \<in> set (mail # q)" for x
    using s Cons that by (auto simp: station_ok_def)
  have "station_ok n b (s\<lparr>post := (post s)\<lparr>boxes := (boxes (post s))[nat i := q]\<rparr>\<rparr>)"
    using len by (intro station_ok_boxes [OF s]) simp
  then show ?thesis using s box Cons len [of mail]
    by (simp add: Post_Receive_def MailBox_Get_def ASSERT_def station_ok_def)
qed

section \<open>The invariant of the network\<close>

definition sent_of :: "32 word \<Rightarrow> int \<Rightarrow> observation \<Rightarrow> Mail list" where
  "sent_of b i ob = (case ob of
     Sent a p m msg on_wire ok \<Rightarrow>
       if on_wire \<and> pkt_to p = b \<and> sint (mail_to m) = i then [\<lparr>pktHdr = p, mailHdr = m, data = msg\<rparr>] else []
   | Got _ _ _ \<Rightarrow> [])"

definition got_of :: "32 word \<Rightarrow> int \<Rightarrow> observation \<Rightarrow> Mail list" where
  "got_of b i ob = (case ob of Sent a p m msg on_wire ok \<Rightarrow> [] | Got a box mail \<Rightarrow> if a = b \<and> box = i then [mail] else [])"

text \<open>The mails sent to and received from the mailbox \<open>i\<close> of the machine \<open>b\<close>.\<close>

definition transmitted :: "32 word \<Rightarrow> int \<Rightarrow> observation list \<Rightarrow> Mail list" where
  "transmitted b i obs = concat (map (sent_of b i) obs)"

definition received :: "32 word \<Rightarrow> int \<Rightarrow> observation list \<Rightarrow> Mail list" where
  "received b i obs = concat (map (got_of b i) obs)"

definition mail_ok :: "nat \<Rightarrow> internet \<Rightarrow> bool" where
  "mail_ok n w \<longleftrightarrow> (\<forall>b s. stations w b = Some s \<longrightarrow> station_ok n b s \<and>
     (\<forall>i. 0 \<le> i \<longrightarrow> i < int n \<longrightarrow> transmitted b i (log w) = received b i (log w) @ waiting i s))"

definition lossy :: "internet \<Rightarrow> 32 word \<Rightarrow> bool" where
  "lossy w a \<longleftrightarrow> (\<exists>s. stations w a = Some s \<and> chanceToWork (network (post s)) < 1)"

definition losses_ok :: "internet \<Rightarrow> bool" where
  "losses_ok w \<longleftrightarrow> (\<forall>a p m msg on_wire ok. Sent a p m msg on_wire ok \<in> set (log w) \<longrightarrow>
     (\<not> on_wire \<longrightarrow> lossy w a \<or> stations w (pkt_to p) = None) \<and> (\<not> ok \<longrightarrow> stations w (pkt_to p) = None))"

text \<open>Which machines there are, and how reliable their networks are, never changes.\<close>

definition same_net :: "internet \<Rightarrow> internet \<Rightarrow> bool" where
  "same_net w w' \<longleftrightarrow> (\<forall>a. (stations w' a = None) = (stations w a = None)) \<and> (\<forall>a. lossy w' a = lossy w a)"

lemma same_net_put:
  assumes "stations w a = Some s" "chanceToWork (network (post s')) = chanceToWork (network (post s))"
  shows "same_net w (put_station a s' w\<lparr>log := l\<rparr>)" "same_net w (put_station a s' w)"
  using assms by (auto simp: same_net_def lossy_def)

lemma mail_ok_put:
  assumes "mail_ok n w" "stations w a = Some s" "station_ok n a s'"
    and "\<And>i. 0 \<le> i \<Longrightarrow> i < int n \<Longrightarrow> waiting i s' = waiting i s"
  shows "mail_ok n (put_station a s' w)"
  using assms by (auto simp: mail_ok_def)

text \<open>An event at a machine leaves everything in order.\<close>

definition good_step :: "nat \<Rightarrow> internet \<Rightarrow> internet result \<Rightarrow> bool" where
  "good_step n w r \<longleftrightarrow> (\<exists>w'. r = Inr w' \<and> mail_ok n w' \<and> same_net w w' \<and> losses_ok w')"

lemma good_put:
  assumes "mail_ok n w" "losses_ok w" "stations w a = Some s" "station_ok n a s'"
    and "\<And>i. 0 \<le> i \<Longrightarrow> i < int n \<Longrightarrow> waiting i s' = waiting i s"
    and "chanceToWork (network (post s')) = chanceToWork (network (post s))"
  shows "good_step n w (Inr (put_station a s' w))"
  using mail_ok_put [OF assms(1,3,4,5)] same_net_put(2) [OF assms(3,6)] assms(2)
  by (auto simp: good_step_def losses_ok_def same_net_def)

lemma Poll_good:
  assumes "mail_ok n w" "losses_ok w" "stations w a = Some s"
  shows "good_step n w (net_step a Ev_Poll w)"
proof -
  have s: "station_ok n a s" using assms by (auto simp: mail_ok_def)
  obtain arrived net sock po where c: "CheckPktAvail (network (post s)) (socket s) = Inr (arrived, net, sock)"
    "po = (let po = (post s)\<lparr>network := net\<rparr> in if arrived then IncomingPacket po else po)"
    "station_ok n a (s\<lparr>post := po, socket := sock\<rparr>)" "arriving (s\<lparr>post := po, socket := sock\<rparr>) = arriving s"
    "boxes po = boxes (post s)" "chanceToWork net = chanceToWork (network (post s))"
    by (rule CheckPktAvail_ok [OF s])
  have "good_step n w (Inr (put_station a (s\<lparr>post := po, socket := sock\<rparr>) w))"
    by (rule good_put [OF assms c(3)]) (use c in \<open>auto simp: waiting_def Let_def IncomingPacket_def split: if_splits\<close>)
  then show ?thesis using assms(3) c(1,2) by (simp add: net_step_def Let_def)
qed

lemma Deliver_good:
  assumes "mail_ok n w" "losses_ok w" "stations w a = Some s" "0 < messageAvailable (post s)"
  shows "good_step n w (net_step a Ev_Deliver w)"
proof -
  have s: "station_ok n a s" using assms by (auto simp: mail_ok_def)
  obtain po where p: "PostalDelivery_round ((post s)\<lparr>messageAvailable := messageAvailable (post s) - 1\<rparr>) = Inr po"
    "station_ok n a (s\<lparr>post := po\<rparr>)" "\<And>i. 0 \<le> i \<Longrightarrow> i < int n \<Longrightarrow> waiting i (s\<lparr>post := po\<rparr>) = waiting i s"
    "chanceToWork (network po) = chanceToWork (network (post s))"
    by (rule PostalDelivery_ok [OF s assms(4)]) blast
  have "good_step n w (Inr (put_station a (s\<lparr>post := po\<rparr>) w))"
    by (rule good_put [OF assms(1-3) p(2,3)]) (use p in simp_all)
  then show ?thesis using assms(3) p(1) by (simp add: net_step_def)
qed

lemma Receive_good:
  assumes w: "mail_ok n w" "losses_ok w" "stations w a = Some s" and i: "0 \<le> i" "i < int n"
  shows "good_step n w (net_step a (Ev_Receive i) w)"
proof -
  have s: "station_ok n a s" using w by (auto simp: mail_ok_def)
  from Post_Receive_ok [OF this i] show ?thesis
  proof (elim disjE conjE exE)
    assume "Post_Receive i (post s) = Inr None"
    then show ?thesis using w by (simp add: net_step_def good_step_def same_net_def)
  next
    fix mail q po
    assume r: "Post_Receive i (post s) = Inr (Some (mail, po))" "boxes (post s) ! nat i = mail # q"
      "po = (post s)\<lparr>boxes := (boxes (post s))[nat i := q]\<rparr>" "station_ok n a (s\<lparr>post := po\<rparr>)"
    let ?w = "put_station a (s\<lparr>post := po\<rparr>) w\<lparr>log := log w @ [Got a i mail]\<rparr>"
    have len: "nat i < length (boxes (post s))" using s i by (auto simp: station_ok_def)
    have wt: "waiting j s = (if j = i then [mail] else []) @ waiting j (s\<lparr>post := po\<rparr>)" if "0 \<le> j" "j < int n" for j
      using r(2,3) len that i by (auto simp: waiting_def arriving_def nth_list_update)
    have "mail_ok n ?w"
      using w r(4) wt by (auto simp: mail_ok_def transmitted_def received_def sent_of_def got_of_def)
    moreover have "same_net w ?w" using r(3) by (intro same_net_put(1) [OF w(3)]) simp
    moreover have "losses_ok ?w" using w(2) calculation(2) by (auto simp: losses_ok_def same_net_def)
    ultimately show ?thesis using w(3) r(1) by (simp add: net_step_def good_step_def)
  qed
qed

section \<open>Sending\<close>

lemma station_ok_sending [simp]:
  "station_ok n b (s\<lparr>post := (post s)\<lparr>sending := x\<rparr>, sends := k\<rparr>) = station_ok n b s"
  "waiting i (s\<lparr>post := (post s)\<lparr>sending := x\<rparr>, sends := k\<rparr>) = waiting i s"
  by (simp_all add: station_ok_def inbox_ok_def waiting_def arriving_def)

lemma same_net_trans: "same_net w w1 \<Longrightarrow> same_net w1 w2 \<Longrightarrow> same_net w w2"
  by (simp add: same_net_def)

lemma log_lost:
  assumes "mail_ok n w" "same_net w0 w" "losses_ok w0" "log w = log w0"
    "\<not> ok \<or> \<not> on_wire \<Longrightarrow> (on_wire \<or> lossy w a \<or> stations w (pkt_to p) = None) \<and> (ok \<or> stations w (pkt_to p) = None)"
    "\<not> on_wire"
  shows "good_step n w0 (Inr (w\<lparr>log := log w @ [Sent a p m msg on_wire ok]\<rparr>))"
proof -
  let ?w = "w\<lparr>log := log w @ [Sent a p m msg on_wire ok]\<rparr>"
  have "mail_ok n ?w" using assms(1,6) by (auto simp: mail_ok_def transmitted_def received_def sent_of_def got_of_def)
  moreover have "same_net w0 ?w" using assms(2) by (simp add: same_net_def lossy_def)
  moreover have "losses_ok ?w" using assms(2-6) by (auto simp: losses_ok_def same_net_def lossy_def)
  ultimately show ?thesis by (auto simp: good_step_def)
qed

lemma log_sent:
  assumes w: "mail_ok n w" "same_net w0 w" "losses_ok w0" "log w = log w0" and d: "stations w (pkt_to p) = Some d"
    and b: "wire_ok n (pkt_to p) buffer" "mail_of (bytes_packet buffer) (payload buffer) = \<lparr>pktHdr = p, mailHdr = m, data = msg\<rparr>"
  shows "good_step n w0 (Inr (put_station (pkt_to p) (d\<lparr>socket := socket d @ [buffer]\<rparr>) w\<lparr>log := log w @ [Sent a p m msg True True]\<rparr>))"
proof -
  let ?d = "d\<lparr>socket := socket d @ [buffer]\<rparr>"
  let ?w = "put_station (pkt_to p) ?d w\<lparr>log := log w @ [Sent a p m msg True True]\<rparr>"
  have ok: "station_ok n (pkt_to p) d" using w(1) d by (auto simp: mail_ok_def)
  then have "station_ok n (pkt_to p) ?d" using b(1) by (auto simp: station_ok_def)
  moreover have "waiting i ?d = waiting i d @ (if sint (mail_to m) = i then [\<lparr>pktHdr = p, mailHdr = m, data = msg\<rparr>] else [])" for i
    using b(2) by (simp add: waiting_def arriving_def mail_for_def)
  ultimately have "mail_ok n ?w" using w(1) d
    by (auto simp: mail_ok_def transmitted_def received_def sent_of_def got_of_def)
  moreover have "same_net w0 ?w"
    by (rule same_net_trans [OF w(2) same_net_put(1) [OF d]]) simp
  moreover have "losses_ok ?w" using w(2-4) calculation(2) by (auto simp: losses_ok_def same_net_def)
  ultimately show ?thesis by (auto simp: good_step_def)
qed

lemma Send_good:
  assumes w: "mail_ok n w" "losses_ok w" "stations w a = Some s"
    and en: "net_enabled a (Ev_Send p m msg r junk junk_wire) w"
  shows "good_step n w (net_step a (Ev_Send p m msg r junk junk_wire) w)"
proof -
  have s: "station_ok n a s" using w by (auto simp: mail_ok_def)
  have e: "unat (mail_length m) \<le> MaxMailSize" "unat (mail_length m) \<le> length msg" "0 \<le> sint (mail_to m)"
    "sint (mail_to m) < numBoxes (post s)" "length junk = MaxPacketSize" "length junk_wire = MaxWireSize"
    using en w(3) by (auto simp: net_enabled_def)
  obtain p' out where o: "Post_Send r junk junk_wire p m msg (post s) = Inr (p', out, (post s)\<lparr>sending := True\<rparr>)"
    "pkt_to p' = pkt_to p"
    "case out of None \<Rightarrow> chanceToWork (network (post s)) < 1
     | Some buffer \<Rightarrow> wire_ok n (pkt_to p) buffer \<and>
         mail_of (bytes_packet buffer) (payload buffer) = \<lparr>pktHdr = p', mailHdr = m, data = take (unat (mail_length m)) msg\<rparr>"
    by (rule Post_Send_ok [OF s e])
  define w1 where "w1 = put_station a (s\<lparr>post := (post s)\<lparr>sending := True\<rparr>, sends := Suc (sends s)\<rparr>) w"
  have w1: "mail_ok n w1" "same_net w w1" "log w1 = log w"
    using mail_ok_put [OF w(1,3), of "s\<lparr>post := (post s)\<lparr>sending := True\<rparr>, sends := Suc (sends s)\<rparr>"] s w(3)
    by (auto simp: w1_def intro: same_net_put)
  have step: "net_step a (Ev_Send p m msg r junk junk_wire) w = (case out of
      None \<Rightarrow> Inr (w1\<lparr>log := log w1 @ [Sent a p' m (take (unat (mail_length m)) msg) False True]\<rparr>)
    | Some buffer \<Rightarrow>
        (case stations w1 (pkt_to p) of
           None \<Rightarrow> Inr (w1\<lparr>log := log w1 @ [Sent a p' m (take (unat (mail_length m)) msg) False False]\<rparr>)
         | Some d \<Rightarrow> Inr (put_station (pkt_to p') (d\<lparr>socket := socket d @ [buffer]\<rparr>) w1
             \<lparr>log := log w1 @ [Sent a p' m (take (unat (mail_length m)) msg) True True]\<rparr>)))"
    by (simp add: net_step_def w(3) o(1,2) w1_def Let_def SendToSocket_def split: option.split)
  have lossy: "lossy w1 a" if "out = None" using that o(3) by (simp add: lossy_def w1_def)
  show ?thesis
  proof (cases out)
    case None
    have "good_step n w (Inr (w1\<lparr>log := log w1 @ [Sent a p' m (take (unat (mail_length m)) msg) False True]\<rparr>))"
      by (rule log_lost [OF w1(1,2) w(2) w1(3)]) (use lossy None in auto)
    then show ?thesis using None by (simp add: step)
  next
    case (Some buffer)
    show ?thesis
    proof (cases "stations w1 (pkt_to p)")
      case None
      have "good_step n w (Inr (w1\<lparr>log := log w1 @ [Sent a p' m (take (unat (mail_length m)) msg) False False]\<rparr>))"
        by (rule log_lost [OF w1(1,2) w(2) w1(3)]) (use None o(2) in auto)
      then show ?thesis using Some None by (simp add: step)
    next
      case (Some d)
      have "good_step n w (Inr (put_station (pkt_to p') (d\<lparr>socket := socket d @ [buffer]\<rparr>) w1
          \<lparr>log := log w1 @ [Sent a p' m (take (unat (mail_length m)) msg) True True]\<rparr>))"
        by (rule log_sent [OF w1(1,2) w(2) w1(3)]) (use Some \<open>out = Some buffer\<close> o in auto)
      then show ?thesis using Some \<open>out = Some buffer\<close> by (simp add: step)
    qed
  qed
qed

lemma net_step_good:
  assumes w: "mail_ok n w" "losses_ok w" and en: "net_enabled a ev w"
  shows "good_step n w (net_step a ev w)"
proof -
  obtain s where s: "stations w a = Some s" using en by (auto simp: net_enabled_def split: option.splits)
  then have ok: "station_ok n a s" using w by (auto simp: mail_ok_def)
  show ?thesis
  proof (cases ev)
    case (Ev_Send p m msg r junk junk_wire)
    then show ?thesis using Send_good [OF w s] en by simp
  next
    case Ev_SendDone
    have "station_ok n a (s\<lparr>sends := sends s - 1, post := PacketSent ((post s)\<lparr>network := SendDone (network (post s))\<rparr>)\<rparr>)"
      using ok by (simp add: station_ok_def inbox_ok_def PacketSent_def SendDone_def)
    from good_put [OF w s this] show ?thesis using Ev_SendDone s
      by (simp add: net_step_def waiting_def arriving_def inbox_mail_def PacketSent_def SendDone_def)
  next
    case Ev_SendReturns
    have "station_ok n a (s\<lparr>post := (post s)\<lparr>messageSent := messageSent (post s) - 1, sending := False\<rparr>\<rparr>)"
      using ok by (simp add: station_ok_def inbox_ok_def)
    from good_put [OF w s this] show ?thesis using Ev_SendReturns s
      by (simp add: net_step_def waiting_def arriving_def)
  next
    case Ev_Poll
    then show ?thesis using Poll_good [OF w s] by simp
  next
    case Ev_Deliver
    then show ?thesis using Deliver_good [OF w s] en s by (simp add: net_enabled_def)
  next
    case (Ev_Receive i)
    then show ?thesis using Receive_good [OF w s, of i] en s ok by (simp add: net_enabled_def station_ok_def)
  qed
qed

lemma net_init_ok:
  assumes "\<And>a h box buf rel. up a = Some (h, box, buf, rel) \<Longrightarrow> length box = MaxPacketSize \<and> length buf = MaxPacketSize"
  shows "mail_ok n (net_init up n)" "losses_ok (net_init up n)"
  using assms
  by (auto simp: mail_ok_def losses_ok_def net_init_def station_ok_def inbox_ok_def PostOffice_ctor_def Network_ctor_def
      transmitted_def received_def waiting_def arriving_def inbox_mail_def mail_for_def)

lemma net_reach_ok:
  assumes "net_reach w0 w" "mail_ok n w0" "losses_ok w0"
  shows "mail_ok n w \<and> losses_ok w \<and> same_net w0 w"
  using assms
proof (induction rule: net_reach.induct)
  case (net_next w a ev w')
  then show ?case using net_step_good [of n w a ev] by (auto simp: good_step_def same_net_def)
qed (simp add: same_net_def)

section \<open>Everything sent can be received\<close>

definition load :: "int \<Rightarrow> station \<Rightarrow> nat" where
  "load i s = 3 * length (socket s) + 2 * length (inbox_mail (network (post s))) + length (boxes (post s) ! nat i)"

lemma load_0: "load i s = 0 \<Longrightarrow> waiting i s = []"
  by (simp add: load_def waiting_def arriving_def mail_for_def)

definition drains :: "event \<Rightarrow> 32 word \<Rightarrow> int \<Rightarrow> internet \<Rightarrow> station \<Rightarrow> bool" where
  "drains ev b i w s \<longleftrightarrow> (\<exists>w' s'. net_enabled b ev w \<and> net_step b ev w = Inr w' \<and> stations w' b = Some s' \<and>
     load i s' < load i s \<and> transmitted b i (log w') = transmitted b i (log w))"

lemma drains_put:
  assumes "net_enabled b ev w" "load i s' < load i s"
    and "net_step b ev w = Inr (put_station b s' w) \<or> (\<exists>m. net_step b ev w = Inr (put_station b s' w\<lparr>log := log w @ [Got b i m]\<rparr>))"
  shows "drains ev b i w s"
  using assms unfolding drains_def by (elim disjE exE) (force simp: transmitted_def sent_of_def)+

lemma Poll_drains:
  assumes w: "mail_ok n w" "stations w b = Some s" and e: "inbox_mail (network (post s)) = []" "socket s \<noteq> []"
  shows "drains Ev_Poll b i w s"
proof -
  have s: "station_ok n b s" using w by (auto simp: mail_ok_def)
  obtain arrived net sock po where c: "CheckPktAvail (network (post s)) (socket s) = Inr (arrived, net, sock)"
    "po = (let po = (post s)\<lparr>network := net\<rparr> in if arrived then IncomingPacket po else po)"
    "arriving (s\<lparr>post := po, socket := sock\<rparr>) = arriving s" "boxes po = boxes (post s)"
    "pkt_length (inHdr (network (post s))) = 0 \<Longrightarrow> sock = tl (socket s)"
    by (rule CheckPktAvail_ok [OF s]) blast
  have sock: "sock = tl (socket s)" using c(5) e(1) by (simp add: inbox_mail_def split: if_splits)
  have "length (arriving (s\<lparr>post := po, socket := sock\<rparr>)) = length (arriving s)" by (simp add: c(3))
  then have "load i (s\<lparr>post := po, socket := sock\<rparr>) < load i s" using e sock c(4)
    by (cases "socket s") (auto simp: load_def arriving_def)
  moreover have "net_step b Ev_Poll w = Inr (put_station b (s\<lparr>post := po, socket := sock\<rparr>) w)"
    using w(2) c(1,2) by (simp add: net_step_def Let_def)
  moreover have "net_enabled b Ev_Poll w" by (simp add: net_enabled_def w(2))
  ultimately show ?thesis using drains_put by blast
qed

lemma Deliver_drains:
  assumes w: "mail_ok n w" "stations w b = Some s" and e: "inbox_mail (network (post s)) \<noteq> []" and i: "0 \<le> i" "i < int n"
  shows "drains Ev_Deliver b i w s"
proof -
  have s: "station_ok n b s" using w by (auto simp: mail_ok_def)
  then have av: "0 < messageAvailable (post s)" using e by (auto simp: station_ok_def inbox_ok_def inbox_mail_def split: if_splits)
  obtain po where p: "PostalDelivery_round ((post s)\<lparr>messageAvailable := messageAvailable (post s) - 1\<rparr>) = Inr po"
    "waiting i (s\<lparr>post := po\<rparr>) = waiting i s" "inbox_mail (network po) = []"
    using PostalDelivery_ok [OF s av] i by metis
  have "length (mail_for i (inbox_mail (network (post s)))) \<le> length (inbox_mail (network (post s)))"
    by (simp add: mail_for_def)
  moreover have "length (inbox_mail (network (post s))) = 1" using e by (simp add: inbox_mail_def split: if_splits)
  moreover have "length (waiting i (s\<lparr>post := po\<rparr>)) = length (waiting i s)" by (simp add: p(2))
  ultimately have "load i (s\<lparr>post := po\<rparr>) < load i s" using p(3)
    by (simp add: load_def waiting_def arriving_def mail_for_def)
  moreover have "net_step b Ev_Deliver w = Inr (put_station b (s\<lparr>post := po\<rparr>) w)"
    using w(2) p(1) by (simp add: net_step_def)
  moreover have "net_enabled b Ev_Deliver w" using av by (simp add: net_enabled_def w(2))
  ultimately show ?thesis using drains_put by blast
qed

lemma Receive_drains:
  assumes w: "mail_ok n w" "stations w b = Some s" and e: "boxes (post s) ! nat i \<noteq> []" and i: "0 \<le> i" "i < int n"
  shows "drains (Ev_Receive i) b i w s"
proof -
  have s: "station_ok n b s" using w by (auto simp: mail_ok_def)
  then have len: "nat i < length (boxes (post s))" "i < numBoxes (post s)" using i by (auto simp: station_ok_def)
  from Post_Receive_ok [OF s i] e obtain mail q po where r: "Post_Receive i (post s) = Inr (Some (mail, po))"
    "boxes (post s) ! nat i = mail # q" "po = (post s)\<lparr>boxes := (boxes (post s))[nat i := q]\<rparr>"
    by auto
  have "load i (s\<lparr>post := po\<rparr>) < load i s" using r(2,3) len by (simp add: load_def)
  moreover have "net_step b (Ev_Receive i) w = Inr (put_station b (s\<lparr>post := po\<rparr>) w\<lparr>log := log w @ [Got b i mail]\<rparr>)"
    using w(2) r(1) by (simp add: net_step_def)
  moreover have "net_enabled b (Ev_Receive i) w" using i len by (simp add: net_enabled_def w(2))
  ultimately show ?thesis using drains_put by blast
qed

lemma net_reach_trans: "net_reach w1 w2 \<Longrightarrow> net_reach w0 w1 \<Longrightarrow> net_reach w0 w2"
  by (induction rule: net_reach.induct) (auto intro: net_reach.intros)

lemma mailbox_drains:
  assumes "mail_ok n w" "losses_ok w" "stations w b = Some s" "0 \<le> i" "i < int n"
  shows "\<exists>w'. net_reach w w' \<and> received b i (log w') = transmitted b i (log w)"
  using assms
proof (induction "load i s" arbitrary: w s rule: less_induct)
  case less
  show ?case
  proof (cases "load i s = 0")
    case True
    then have "received b i (log w) = transmitted b i (log w)" using less.prems load_0 [of i s] by (auto simp: mail_ok_def)
    then show ?thesis using net_start by blast
  next
    case False
    then have "inbox_mail (network (post s)) = [] \<and> socket s \<noteq> [] \<or> inbox_mail (network (post s)) \<noteq> [] \<or> boxes (post s) ! nat i \<noteq> []"
      by (auto simp: load_def)
    then have "\<exists>ev. drains ev b i w s"
      using Poll_drains [OF less.prems(1,3)] Deliver_drains [OF less.prems(1,3) _ less.prems(4,5)] Receive_drains [OF less.prems(1,3) _ less.prems(4,5)] by blast
    then obtain ev w' s' where st: "net_enabled b ev w" "net_step b ev w = Inr w'" "stations w' b = Some s'"
      "load i s' < load i s" "transmitted b i (log w') = transmitted b i (log w)"
      unfolding drains_def by blast
    have "mail_ok n w'" "losses_ok w'" using net_step_good [OF less.prems(1,2) st(1)] st(2) by (auto simp: good_step_def)
    from less.hyps [OF st(4) this st(3) less.prems(4,5)] obtain w'' where
      "net_reach w' w''" "received b i (log w'') = transmitted b i (log w')" by blast
    moreover have "net_reach w w'" using net_next [OF net_start st(1,2)] .
    ultimately show ?thesis using net_reach_trans st(5) by metis
  qed
qed

section \<open>Reachable states and sample runs\<close>

text \<open>The machines \<open>up\<close> have buffers of the sizes the classes declare.\<close>

definition buffers_ok :: "(32 word \<rightharpoonup> PacketHeader \<times> byte list \<times> byte list \<times> real) \<Rightarrow> bool" where
  "buffers_ok up \<longleftrightarrow> (\<forall>a h box buf rel. up a = Some (h, box, buf, rel) \<longrightarrow> length box = MaxPacketSize \<and> length buf = MaxPacketSize)"

lemma net_reach_init:
  assumes "net_reach (net_init up n) w" "buffers_ok up"
  shows "mail_ok n w" "losses_ok w" "same_net (net_init up n) w"
  using net_reach_ok [OF assms(1) net_init_ok [of up n]] assms(2) unfolding buffers_ok_def by blast+

lemma net_init_lossy: "lossy (net_init up n) a \<longleftrightarrow> (\<exists>h box buf rel. up a = Some (h, box, buf, rel) \<and> rel < 1)"
proof (cases "up a")
  case (Some u)
  then show ?thesis by (cases u) (simp add: lossy_def net_init_def PostOffice_ctor_def Network_ctor_def)
qed (simp add: lossy_def net_init_def)

fun net_run :: "(32 word \<times> event) list \<Rightarrow> internet \<Rightarrow> internet result" where
  "net_run [] w = Inr w"
| "net_run ((a, ev) # evs) w = bind_result (ASSERT (net_enabled a ev w)) (\<lambda>_. bind_result (net_step a ev w) (net_run evs))"

lemma net_run_reach: "net_run evs w = Inr w' \<Longrightarrow> net_reach w w'"
proof (induction evs arbitrary: w)
  case (Cons e evs)
  then obtain w1 where "net_enabled (fst e) (snd e) w" "net_step (fst e) (snd e) w = Inr w1" "net_run evs w1 = Inr w'"
    by (cases e) (auto simp: result_simps)
  then show ?case using Cons.IH net_reach_trans net_next [OF net_start] by metis
qed (simp add: net_start)

text \<open>Two machines with networks of the same reliability, and a letter of two bytes.\<close>

definition two_hosts :: "real \<Rightarrow> 32 word \<rightharpoonup> PacketHeader \<times> byte list \<times> byte list \<times> real" where
  "two_hosts rel = (\<lambda>a. if a = 1 \<or> a = 2
     then Some (\<lparr>pkt_to = 0, pkt_from = 0, pkt_length = 0\<rparr>, replicate 52 0, replicate 52 0, rel) else None)"

definition letter :: "32 word \<Rightarrow> event" where
  "letter b = Ev_Send \<lparr>pkt_to = b, pkt_from = 0, pkt_length = 0\<rparr> \<lparr>mail_to = 0, mail_from = 0, mail_length = 2\<rparr>
     [104, 105] 99 (replicate 52 0) (replicate 64 0)"

definition the_letter :: Mail where
  "the_letter = \<lparr>pktHdr = \<lparr>pkt_to = 2, pkt_from = 1, pkt_length = 14\<rparr>,
     mailHdr = \<lparr>mail_to = 0, mail_from = 0, mail_length = 2\<rparr>, data = [104, 105]\<rparr>"

definition mail_run :: "internet result" where
  "mail_run = net_run [(1, letter 2), (2, Ev_Poll), (2, Ev_Deliver), (2, Ev_Receive 0), (1, Ev_SendDone),
     (1, Ev_SendReturns), (1, letter 2)] (net_init (two_hosts 1) 1)"

lemma two_hosts_ok: "buffers_ok (two_hosts rel)"
  by (simp add: buffers_ok_def two_hosts_def packet_sizes)

lemma mail_run_eval: "case mail_run of Inl e \<Rightarrow> False
  | Inr w \<Rightarrow> stations w 2 \<noteq> None \<and> received 2 0 (log w) = [the_letter] \<and> transmitted 2 0 (log w) = [the_letter, the_letter] \<and>
      net_enabled 2 Ev_Poll w"
  by code_simp

lemma mail_run_state:
  obtains w s where "net_reach (net_init (two_hosts 1) 1) w" "stations w 2 = Some s" "received 2 0 (log w) = [the_letter]"
    "transmitted 2 0 (log w) = [the_letter, the_letter]" "net_enabled 2 Ev_Poll w"
proof -
  obtain w where w: "mail_run = Inr w" using mail_run_eval by (auto split: sum.splits)
  then have "net_reach (net_init (two_hosts 1) 1) w" using net_run_reach unfolding mail_run_def by blast
  moreover obtain s where "stations w 2 = Some s" using mail_run_eval unfolding w by auto
  moreover have "received 2 0 (log w) = [the_letter]" "transmitted 2 0 (log w) = [the_letter, the_letter]" "net_enabled 2 Ev_Poll w"
    using mail_run_eval unfolding w by simp_all
  ultimately show ?thesis using that by blast
qed

lemma lost_letter_eval: "case net_run [(1, letter 2)] (net_init (two_hosts (1 / 2)) 1) of Inl e \<Rightarrow> False
  | Inr w \<Rightarrow> Sent 1 (pktHdr the_letter) (mailHdr the_letter) [104, 105] False True \<in> set (log w)"
  by code_simp

section \<open>Properties of the post office\<close>

text \<open>
  C25: in every reachable state, the mail transmitted to a mailbox is the mail received from it
  followed by the mail on its way (in the mailbox, in the device, in the socket), in that order:
  nothing is lost, changed, repeated or reordered on the way; and the machine can always go on to a
  state in which all of it has been received.
\<close>

theorem mail_in_order:
  assumes "buffers_ok up" "net_reach (net_init up n) w" "stations w b = Some s" "0 \<le> i" "i < int n"
  shows "transmitted b i (log w) = received b i (log w) @ waiting i s \<and>
    (\<exists>w'. net_reach w w' \<and> received b i (log w') = transmitted b i (log w))"
  using net_reach_init [OF assms(2,1)] mailbox_drains [OF _ _ assms(3-5)] assms(3-5) by (auto simp: mail_ok_def)

theorem mail_in_order_witness:
  "\<exists>w s w'. net_reach (net_init (two_hosts 1) 1) w \<and> stations w 2 = Some s \<and> received 2 0 (log w) = [the_letter] \<and>
     waiting 0 s = [the_letter] \<and> net_reach w w' \<and> received 2 0 (log w') = [the_letter, the_letter]"
proof -
  obtain w s where w: "net_reach (net_init (two_hosts 1) 1) w" "stations w 2 = Some s" "received 2 0 (log w) = [the_letter]"
    "transmitted 2 0 (log w) = [the_letter, the_letter]" by (rule mail_run_state)
  from mail_in_order [OF two_hosts_ok w(1,2), of 0] w(3,4)
  have "waiting 0 s = [the_letter]" "\<exists>w'. net_reach w w' \<and> received 2 0 (log w') = [the_letter, the_letter]" by auto
  with w show ?thesis by blast
qed

text \<open>
  C26: a packet that \<open>Send\<close> was given does not go onto the wire only if the destination does not
  exist or the network of the sender is unreliable, and \<open>Send\<close> reports a failure only in the first case.
\<close>

theorem mail_lost_only_if_unreliable:
  assumes "buffers_ok up" "net_reach (net_init up n) w" "Sent a p m msg on_wire ok \<in> set (log w)"
  shows "(on_wire \<or> up (pkt_to p) = None \<or> (\<exists>h box buf rel. up a = Some (h, box, buf, rel) \<and> rel < 1)) \<and>
    (ok \<or> up (pkt_to p) = None)"
proof -
  note r = net_reach_init [OF assms(2,1)]
  have "stations w (pkt_to p) = None \<longleftrightarrow> up (pkt_to p) = None" "lossy w a \<longleftrightarrow> lossy (net_init up n) a"
    using r(3) by (auto simp: same_net_def net_init_def)
  moreover have "on_wire \<or> lossy w a \<or> stations w (pkt_to p) = None" "ok \<or> stations w (pkt_to p) = None"
    using r(2) assms(3) unfolding losses_ok_def by metis+
  ultimately show ?thesis unfolding net_init_lossy by metis
qed

theorem mail_lost_only_if_unreliable_witness:
  "\<exists>w. net_reach (net_init (two_hosts (1 / 2)) 1) w \<and>
     Sent 1 (pktHdr the_letter) (mailHdr the_letter) [104, 105] False True \<in> set (log w) \<and>
     (\<exists>h box buf rel. two_hosts (1 / 2) 1 = Some (h, box, buf, rel) \<and> rel < 1)"
proof -
  from lost_letter_eval obtain w where r: "net_run [(1, letter 2)] (net_init (two_hosts (1 / 2)) 1) = Inr w"
    and lost: "Sent 1 (pktHdr the_letter) (mailHdr the_letter) [104, 105] False True \<in> set (log w)"
    by (auto split: sum.splits)
  from mail_lost_only_if_unreliable [OF two_hosts_ok net_run_reach [OF r] lost] net_run_reach [OF r] lost
  show ?thesis by (auto simp: two_hosts_def the_letter_def)
qed

text \<open>
  on machines whose buffers have the declared sizes, every event that can happen is carried out:
  no \<open>ASSERT\<close> of the network device or of the post office fails and no copy leaves its buffer.
\<close>

theorem post_office_never_asserts:
  assumes "buffers_ok up" "net_reach (net_init up n) w" "net_enabled a ev w"
  shows "\<exists>w'. net_step a ev w = Inr w'"
  using net_step_good [OF net_reach_init(1,2) [OF assms(2,1)] assms(3)] by (auto simp: good_step_def)

theorem post_office_never_asserts_witness:
  "\<exists>w w'. net_reach (net_init (two_hosts 1) 1) w \<and> net_enabled 2 Ev_Poll w \<and> net_step 2 Ev_Poll w = Inr w'"
proof -
  obtain w where w: "net_reach (net_init (two_hosts 1) 1) w" "net_enabled 2 Ev_Poll w" by (rule mail_run_state)
  from post_office_never_asserts [OF two_hosts_ok w] w show ?thesis by blast
qed

end
