(* ===== verification/Mail_Test.thy ===== *)
theory Mail_Test
  imports Post_Office_Properties
begin

text \<open>
  The test of the network (\<open>MailTest\<close> of \<open>network/nettest.cc\<close>), which two machines run against each
  other: each sends a message to mailbox 0 of the other, acknowledges the message that it gets to
  the mailbox given in it, and halts when its own message has been acknowledged. The thread of a machine is
  cut at the calls at which it waits; the interrupts and the postal workers of all machines run in
  between, in any order. A machine that halts closes its socket.

  The lemmas show that the test cannot go wrong on a reliable network, in whatever order the
  machines run.
\<close>

section \<open>The test\<close>

text \<open>Where the thread is; a flag holds what \<open>Send\<close> will return, or whether the test got to its end.\<close>

datatype test_pc = First_Send | First_Wait bool | First_Receive | Ack_Send | Ack_Wait bool | Second_Receive | Halted bool

text \<open>The variables of \<open>MailTest\<close>, and what it has printed: a text, a machine and a mailbox.\<close>

record mail_test =
  t_pc :: test_pc
  outPktHdr :: PacketHeader
  outMailHdr :: MailHeader
  t_buffer :: "byte list"
  printed :: "(byte list \<times> 32 word \<times> 32 word) list"

record mail_world =
  net :: internet
  tests :: "32 word \<rightharpoonup> mail_test"

definition hello :: "byte list" where "hello = map of_char ''Hello there!'' @ [0]"
definition ack :: "byte list" where "ack = map of_char ''Got it!'' @ [0]"

text \<open>The start, with what the variables hold before they are set.\<close>

definition MailTest :: "PacketHeader \<Rightarrow> byte list \<Rightarrow> 32 word \<Rightarrow> mail_test" where
  "MailTest junk_hdr junk_buffer farAddr =
     \<lparr>t_pc = First_Send, outPktHdr = junk_hdr\<lparr>pkt_to := farAddr\<rparr>,
      outMailHdr = \<lparr>mail_to = 0, mail_from = 1, mail_length = of_nat (length hello)\<rparr>, t_buffer = junk_buffer, printed = []\<rparr>"

text \<open>The results of the calls of the post office are the last entries of the log.\<close>

definition Send_result :: "internet \<Rightarrow> bool" where
  "Send_result w = (case last (log w) of Sent a p m msg on_wire ok \<Rightarrow> ok | Got a box mail \<Rightarrow> False)"

definition Receive_result :: "internet \<Rightarrow> internet \<Rightarrow> Mail option" where
  "Receive_result w w' =
     (if length (log w') = length (log w) then None
      else case last (log w') of Sent a p m msg on_wire ok \<Rightarrow> None | Got a box mail \<Rightarrow> Some mail)"

text \<open>A call of \<open>Send\<close> up to where it waits, its return, and a call of \<open>Receive\<close>.\<close>

definition test_send :: "byte list \<Rightarrow> (bool \<Rightarrow> test_pc) \<Rightarrow> nat \<Rightarrow> byte list \<Rightarrow> byte list \<Rightarrow> 32 word \<Rightarrow> mail_test \<Rightarrow> mail_world \<Rightarrow> mail_world result" where
  "test_send msg pc r junk junk_wire a t x =
     bind_result (net_step a (Ev_Send (outPktHdr t) (outMailHdr t) msg r junk junk_wire) (net x)) (\<lambda>w.
       Inr \<lparr>net = w, tests = (tests x)(a \<mapsto> t\<lparr>t_pc := pc (Send_result w)\<rparr>)\<rparr>)"

text \<open>\<open>interrupt->Halt()\<close>, which deletes the post office and with it the socket.\<close>

definition test_halt :: "bool \<Rightarrow> 32 word \<Rightarrow> mail_test \<Rightarrow> internet \<Rightarrow> mail_world \<Rightarrow> mail_world" where
  "test_halt ok a t w x = \<lparr>net = w\<lparr>stations := (stations w)(a := None)\<rparr>, tests = (tests x)(a \<mapsto> t\<lparr>t_pc := Halted ok\<rparr>)\<rparr>"

definition test_return :: "bool \<Rightarrow> test_pc \<Rightarrow> 32 word \<Rightarrow> mail_test \<Rightarrow> mail_world \<Rightarrow> mail_world result" where
  "test_return success pc a t x =
     bind_result (net_step a Ev_SendReturns (net x)) (\<lambda>w.
       if \<not> success then Inr (test_halt False a t w x)
       else Inr \<lparr>net = w, tests = (tests x)(a \<mapsto> t\<lparr>t_pc := pc\<rparr>)\<rparr>)"

text \<open>\<open>printf\<close> shows the buffer up to the first zero.\<close>

definition test_receive :: "int \<Rightarrow> (Mail \<Rightarrow> mail_test \<Rightarrow> internet \<Rightarrow> mail_world) \<Rightarrow> 32 word \<Rightarrow> mail_test \<Rightarrow> mail_world \<Rightarrow> mail_world result" where
  "test_receive box rest a t x =
     bind_result (net_step a (Ev_Receive box) (net x)) (\<lambda>w.
       case Receive_result (net x) w of
         None \<Rightarrow> Inr x
       | Some mail \<Rightarrow>
           bind_result (copy_in 0 (data mail) (t_buffer t)) (\<lambda>buffer.
             Inr (rest mail (t\<lparr>t_buffer := buffer,
               printed := printed t @ [(takeWhile (\<lambda>c. c \<noteq> 0) buffer, pkt_from (pktHdr mail), mail_from (mailHdr mail))]\<rparr>) w)))"

definition mail_test_step :: "nat \<Rightarrow> byte list \<Rightarrow> byte list \<Rightarrow> 32 word \<Rightarrow> mail_test \<Rightarrow> mail_world \<Rightarrow> mail_world result" where
  "mail_test_step r junk junk_wire a t x =
     (case t_pc t of
        First_Send \<Rightarrow> test_send hello First_Wait r junk junk_wire a t x
      | First_Wait success \<Rightarrow> test_return success First_Receive a t x
      | First_Receive \<Rightarrow> test_receive 0 (\<lambda>mail t w. \<lparr>net = w, tests = (tests x)(a \<mapsto>
            t\<lparr>t_pc := Ack_Send, outPktHdr := (outPktHdr t)\<lparr>pkt_to := pkt_from (pktHdr mail)\<rparr>,
              outMailHdr := (outMailHdr t)\<lparr>mail_to := mail_from (mailHdr mail), mail_length := of_nat (length ack)\<rparr>\<rparr>)\<rparr>) a t x
      | Ack_Send \<Rightarrow> test_send ack Ack_Wait r junk junk_wire a t x
      | Ack_Wait success \<Rightarrow> test_return success Second_Receive a t x
      | Second_Receive \<Rightarrow> test_receive 1 (\<lambda>mail t w. test_halt True a t w x) a t x
      | Halted ok \<Rightarrow> Inr x)"

text \<open>The thread of the test, or a device or the postal worker of a machine.\<close>

datatype test_event = Run_test nat "byte list" "byte list" | Device event

fun test_step :: "32 word \<Rightarrow> test_event \<Rightarrow> mail_world \<Rightarrow> mail_world result" where
  "test_step a (Run_test r junk junk_wire) x = (case tests x a of None \<Rightarrow> Inr x | Some t \<Rightarrow> mail_test_step r junk junk_wire a t x)"
| "test_step a (Device ev) x = bind_result (net_step a ev (net x)) (\<lambda>w. Inr (x\<lparr>net := w\<rparr>))"

text \<open>A thread that waits for \<open>messageSent\<close> goes on when the interrupt has come.\<close>

fun test_enabled :: "32 word \<Rightarrow> test_event \<Rightarrow> mail_world \<Rightarrow> bool" where
  "test_enabled a (Run_test r junk junk_wire) x =
     (length junk = MaxPacketSize \<and> length junk_wire = MaxWireSize \<and>
      (case tests x a of
         None \<Rightarrow> False
       | Some t \<Rightarrow> (case t_pc t of
           First_Wait success \<Rightarrow> net_enabled a Ev_SendReturns (net x)
         | Ack_Wait success \<Rightarrow> net_enabled a Ev_SendReturns (net x)
         | Halted ok \<Rightarrow> False
         | _ \<Rightarrow> True)))"
| "test_enabled a (Device ev) x = (ev \<in> {Ev_SendDone, Ev_Poll, Ev_Deliver} \<and> net_enabled a ev (net x))"

inductive test_reach :: "mail_world \<Rightarrow> mail_world \<Rightarrow> bool" for x0 where
  test_start: "test_reach x0 x0"
| test_next: "test_reach x0 x \<Longrightarrow> test_enabled a ev x \<Longrightarrow> test_step a ev x = Inr x' \<Longrightarrow> test_reach x0 x'"

text \<open>The machines \<open>A\<close> and \<open>B\<close> run the test with each other; a post office has 10 mailboxes.\<close>

definition test_init ::
  "(32 word \<rightharpoonup> PacketHeader \<times> byte list \<times> byte list \<times> real) \<Rightarrow> PacketHeader \<Rightarrow> byte list \<Rightarrow> 32 word \<Rightarrow> 32 word \<Rightarrow> mail_world" where
  "test_init up junk_hdr junk_buffer A B =
     \<lparr>net = net_init up 10, tests = [A \<mapsto> MailTest junk_hdr junk_buffer B, B \<mapsto> MailTest junk_hdr junk_buffer A]\<rparr>"

section \<open>What the events do\<close>

text \<open>The part of a station that its sender uses.\<close>

definition send_state :: "station \<Rightarrow> bool \<times> nat \<times> int" where
  "send_state s = (sending (post s), sends s, messageSent (post s))"

definition view :: "internet \<Rightarrow> 32 word \<Rightarrow> (bool \<times> nat \<times> int) option" where
  "view w a = map_option send_state (stations w a)"

definition sender :: "observation \<Rightarrow> bool" where
  "sender ob = (case ob of Sent a p m msg on_wire ok \<Rightarrow> on_wire \<and> ok | Got a box mail \<Rightarrow> True)"

definition net_good :: "internet \<Rightarrow> bool" where
  "net_good w \<longleftrightarrow> mail_ok 10 w \<and> list_all sender (log w) \<and> (\<forall>a. \<not> lossy w a)"

lemma net_good_losses: "net_good w \<Longrightarrow> losses_ok w"
  by (force simp: net_good_def losses_ok_def list_all_iff sender_def)

text \<open>A network event that happens, with what it adds to the log and how it changes the view.\<close>

definition does :: "32 word \<Rightarrow> event \<Rightarrow> internet \<Rightarrow> internet \<Rightarrow> observation list \<Rightarrow> (32 word \<Rightarrow> (bool \<times> nat \<times> int) option) \<Rightarrow> bool" where
  "does a ev w w' l v \<longleftrightarrow> net_step a ev w = Inr w' \<and> net_good w' \<and> log w' = log w @ l \<and> view w' = v"

lemma doesI:
  assumes "net_good w" "net_enabled a ev w" "list_all sender l"
    and e: "\<And>w'. net_step a ev w = Inr w' \<Longrightarrow> log w' = log w @ l \<and> view w' = v"
  shows "\<exists>w'. does a ev w w' l v"
proof -
  have "good_step 10 w (net_step a ev w)" using net_step_good [of 10 w a ev] assms(1,2) net_good_losses by (auto simp: net_good_def)
  then show ?thesis using assms by (fastforce simp: does_def good_step_def net_good_def same_net_def)
qed

lemma view_put: "view (put_station a s w) = (view w)(a := Some (send_state s))" "view (w\<lparr>log := l\<rparr>) = view w"
  by (auto simp: view_def)

lemma quiet_device:
  assumes "net_good w" "ev = Ev_Poll \<or> ev = Ev_Deliver" "net_enabled a ev w"
  shows "\<exists>w'. does a ev w w' [] (view w)"
proof (rule doesI [OF assms(1,3)])
  obtain s where s: "stations w a = Some s" using assms(3) by (auto simp: net_enabled_def split: option.splits)
  then have v: "view w = (view w)(a := Some (send_state s))" by (auto simp: view_def)
  fix w' assume "net_step a ev w = Inr w'"
  then have "log w' = log w \<and> view w' = (view w)(a := Some (send_state s))" using s assms(2)
    by (auto simp: net_step_def result_simps Let_def IncomingPacket_def PostalDelivery_round_def MailBox_Put_def view_put send_state_def)
  with v show "log w' = log w @ [] \<and> view w' = view w" by simp
qed simp

lemma SendDone_does:
  assumes "net_good w" "view w a = Some (b, Suc k, i)"
  shows "\<exists>w'. does a Ev_SendDone w w' [] ((view w)(a := Some (b, k, i + 1)))"
proof -
  obtain s where s: "stations w a = Some s" "send_state s = (b, Suc k, i)" using assms(2) by (auto simp: view_def)
  then show ?thesis
    by (intro doesI [OF assms(1)]) (auto simp: net_enabled_def net_step_def view_put send_state_def PacketSent_def)
qed

lemma SendReturns_does:
  assumes "net_good w" "view w a = Some (True, k, i)" "0 < i"
  shows "\<exists>w'. does a Ev_SendReturns w w' [] ((view w)(a := Some (False, k, i - 1)))"
proof -
  obtain s where s: "stations w a = Some s" "send_state s = (True, k, i)" using assms(2) by (auto simp: view_def)
  then show ?thesis using assms(3)
    by (intro doesI [OF assms(1)]) (auto simp: net_enabled_def net_step_def view_put send_state_def)
qed

text \<open>A message for a machine that exists arrives in its socket; \<open>mail_from_to\<close> is what will be received.\<close>

definition mail_from_to :: "32 word \<Rightarrow> 32 word \<Rightarrow> MailHeader \<Rightarrow> byte list \<Rightarrow> Mail" where
  "mail_from_to a b m msg = \<lparr>pktHdr = \<lparr>pkt_to = b, pkt_from = a, pkt_length = mail_length m + 12\<rparr>, mailHdr = m, data = msg\<rparr>"

lemma Post_Send_header:
  "Post_Send r junk junk_wire p m msg po = Inr (p', out, po') \<Longrightarrow> p' = p\<lparr>pkt_from := netAddr po, pkt_length := mail_length m + 12\<rparr>"
  by (auto simp: Post_Send_def result_simps Let_def sizeof_MailHeader_def)

lemma Send_does:
  assumes w: "net_good w" "view w a = Some (False, k, i)" "view w (pkt_to p) \<noteq> None" "pkt_to p \<noteq> a"
    and m: "length msg \<le> 40" "unat (mail_length m) = length msg" "0 \<le> sint (mail_to m)" "sint (mail_to m) < 10"
    and junk: "length junk = MaxPacketSize" "length junk_wire = MaxWireSize"
  shows "\<exists>w'. does a (Ev_Send p m msg r junk junk_wire) w w'
     [Sent a (p\<lparr>pkt_from := a, pkt_length := mail_length m + 12\<rparr>) m msg True True] ((view w)(a := Some (True, Suc k, i)))"
proof (rule doesI [OF w(1)])
  obtain s d where s: "stations w a = Some s" "send_state s = (False, k, i)" and d: "stations w (pkt_to p) = Some d"
    using w(2,3) by (auto simp: view_def)
  have ok: "station_ok 10 a s" "\<not> lossy w a" using w(1) s(1) by (auto simp: net_good_def mail_ok_def)
  have n: "numBoxes (post s) = 10" "netAddr (post s) = a" using ok(1) by (simp_all add: station_ok_def)
  show "net_enabled a (Ev_Send p m msg r junk junk_wire) w"
    using s m junk n by (simp add: net_enabled_def send_state_def mail_sizes)
  fix w' assume step: "net_step a (Ev_Send p m msg r junk junk_wire) w = Inr w'"
  have "unat (mail_length m) \<le> MaxMailSize" "unat (mail_length m) \<le> length msg" "sint (mail_to m) < numBoxes (post s)"
    using m n by (simp_all add: mail_sizes)
  then obtain p' out where
    o: "Post_Send r junk junk_wire p m msg (post s) = Inr (p', out, (post s)\<lparr>sending := True\<rparr>)" "pkt_to p' = pkt_to p"
      "case out of None \<Rightarrow> chanceToWork (network (post s)) < 1
       | Some buffer \<Rightarrow> wire_ok 10 (pkt_to p) buffer \<and>
           mail_of (bytes_packet buffer) (payload buffer) = \<lparr>pktHdr = p', mailHdr = m, data = take (unat (mail_length m)) msg\<rparr>"
    by (rule Post_Send_ok [OF ok(1) _ _ m(3) _ junk])
  obtain buffer where b: "out = Some buffer" using o(3) ok(2) s(1) by (cases out) (simp_all add: lossy_def)
  let ?s = "s\<lparr>post := (post s)\<lparr>sending := True\<rparr>, sends := Suc k\<rparr>"
  have "w' = put_station (pkt_to p) (d\<lparr>socket := socket d @ [buffer]\<rparr>) (put_station a ?s w)\<lparr>log := log w @ [Sent a p' m msg True True]\<rparr>"
    using step s d o(1,2) b w(4) m(2) by (simp add: net_step_def Let_def SendToSocket_def send_state_def)
  moreover have "view (put_station (pkt_to p) (d\<lparr>socket := socket d @ [buffer]\<rparr>) (put_station a ?s w)) = (view w)(a := Some (True, Suc k, i))"
    using s d w(4) by (simp add: view_def send_state_def fun_eq_iff)
  ultimately show "log w' = log w @ [Sent a (p\<lparr>pkt_from := a, pkt_length := mail_length m + 12\<rparr>) m msg True True] \<and>
      view w' = (view w)(a := Some (True, Suc k, i))"
    using Post_Send_header [OF o(1)] n(2) by (simp add: view_put(2))
qed (simp add: sender_def)

text \<open>A mailbox gives what has been transmitted to it next, or nothing.\<close>

lemma Receive_does:
  assumes w: "net_good w" "view w a \<noteq> None" and i: "0 \<le> i" "i < 10"
  shows "net_step a (Ev_Receive i) w = Inr w \<and> (\<exists>s. stations w a = Some s \<and> boxes (post s) ! nat i = []) \<or>
     (\<exists>w' mail ms. does a (Ev_Receive i) w w' [Got a i mail] (view w) \<and> transmitted a i (log w) = received a i (log w) @ mail # ms)"
proof -
  obtain s where s: "stations w a = Some s" using w(2) by (auto simp: view_def)
  have ok: "station_ok 10 a s" "transmitted a i (log w) = received a i (log w) @ waiting i s"
    using w(1) s i by (auto simp: net_good_def mail_ok_def)
  have en: "net_enabled a (Ev_Receive i) w" using s i ok(1) by (simp add: net_enabled_def station_ok_def)
  have i': "i < int 10" using i by simp
  from Post_Receive_ok [OF ok(1) i(1) i'] show ?thesis
  proof (elim disjE conjE exE)
    assume "Post_Receive i (post s) = Inr None" "boxes (post s) ! nat i = []"
    then show ?thesis using s by (simp add: net_step_def)
  next
    fix mail q po
    assume r: "Post_Receive i (post s) = Inr (Some (mail, po))" "boxes (post s) ! nat i = mail # q" "po = (post s)\<lparr>boxes := (boxes (post s))[nat i := q]\<rparr>"
    have "view w = (view w)(a := Some (send_state s))" using s by (auto simp: view_def)
    then have "\<exists>w'. does a (Ev_Receive i) w w' [Got a i mail] (view w)"
      by (intro doesI [OF w(1) en]) (use s r(1,3) in \<open>auto simp: net_step_def view_put send_state_def sender_def\<close>)
    then show ?thesis using ok(2) r(2) by (auto simp: waiting_def)
  qed
qed

section \<open>The invariant of the test\<close>

fun rank :: "test_pc \<Rightarrow> nat" where
  "rank First_Send = 0"
| "rank (First_Wait _) = 1"
| "rank First_Receive = 2"
| "rank Ack_Send = 3"
| "rank (Ack_Wait _) = 4"
| "rank Second_Receive = 5"
| "rank (Halted _) = 6"

text \<open>No call of \<open>Send\<close> has failed.\<close>

fun sure :: "test_pc \<Rightarrow> bool" where
  "sure (First_Wait ok) = ok"
| "sure (Ack_Wait ok) = ok"
| "sure (Halted ok) = ok"
| "sure _ = True"

definition hello_hdr :: MailHeader where "hello_hdr = \<lparr>mail_to = 0, mail_from = 1, mail_length = 13\<rparr>"
definition ack_hdr :: MailHeader where "ack_hdr = \<lparr>mail_to = 1, mail_from = 1, mail_length = 8\<rparr>"

abbreviation greeting :: "32 word \<Rightarrow> 32 word \<Rightarrow> Mail" where "greeting a b \<equiv> mail_from_to a b hello_hdr hello"
abbreviation answer :: "32 word \<Rightarrow> 32 word \<Rightarrow> Mail" where "answer a b \<equiv> mail_from_to a b ack_hdr ack"

text \<open>What the test prints when it runs with the machine \<open>b\<close>.\<close>

definition expected :: "32 word \<Rightarrow> (byte list \<times> 32 word \<times> 32 word) list" where
  "expected b = [(map of_char ''Hello there!'', b, 1), (map of_char ''Got it!'', b, 1)]"

text \<open>The test \<open>t\<close> of the machine \<open>a\<close> with the machine \<open>b\<close>, the log \<open>l\<close> and the state \<open>v\<close> of the sender.\<close>

definition phase :: "32 word \<Rightarrow> 32 word \<Rightarrow> mail_test \<Rightarrow> observation list \<Rightarrow> (bool \<times> nat \<times> int) option \<Rightarrow> bool" where
  "phase a b t l v \<longleftrightarrow> (let k = rank (t_pc t) in
     sure (t_pc t) \<and> pkt_to (outPktHdr t) = b \<and> outMailHdr t = (if k < 3 then hello_hdr else ack_hdr) \<and> length (t_buffer t) = 40 \<and>
     printed t = take (if k < 3 then 0 else if k < 6 then 1 else 2) (expected b) \<and>
     transmitted b 0 l = (if k = 0 then [] else [greeting a b]) \<and> transmitted b 1 l = (if k < 4 then [] else [answer a b]) \<and>
     received a 0 l = (if k < 3 then [] else [greeting b a]) \<and> received a 1 l = (if k < 6 then [] else [answer b a]) \<and>
     (if k = 6 then v = None
      else if k = 1 \<or> k = 4 then v = Some (True, 1, 0) \<or> v = Some (True, 0, 1) else v = Some (False, 0, 0)))"

definition pair_ok :: "32 word \<Rightarrow> 32 word \<Rightarrow> mail_test \<Rightarrow> mail_test \<Rightarrow> internet \<Rightarrow> bool" where
  "pair_ok A B t u w \<longleftrightarrow> A \<noteq> B \<and> net_good w \<and> phase A B t (log w) (view w A) \<and> phase B A u (log w) (view w B) \<and>
     (rank (t_pc t) = 6 \<longrightarrow> 4 \<le> rank (t_pc u)) \<and> (rank (t_pc u) = 6 \<longrightarrow> 4 \<le> rank (t_pc t))"

definition test_inv :: "32 word \<Rightarrow> 32 word \<Rightarrow> mail_world \<Rightarrow> bool" where
  "test_inv A B x \<longleftrightarrow> (\<exists>t u. tests x = [A \<mapsto> t, B \<mapsto> u] \<and> pair_ok A B t u (net x))"

lemma pair_ok_sym: "pair_ok A B t u w \<Longrightarrow> pair_ok B A u t w"
  by (auto simp: pair_ok_def)

lemma test_inv_sym: "test_inv A B x \<Longrightarrow> test_inv B A x"
  unfolding test_inv_def by (metis fun_upd_twist pair_ok_def pair_ok_sym)

lemma log_snoc:
  "transmitted c i (l @ [Sent a p m msg True True]) =
     transmitted c i l @ (if pkt_to p = c \<and> sint (mail_to m) = i then [\<lparr>pktHdr = p, mailHdr = m, data = msg\<rparr>] else [])"
  "received c i (l @ [Sent a p m msg True True]) = received c i l"
  "transmitted c i (l @ [Got a j mail]) = transmitted c i l"
  "received c i (l @ [Got a j mail]) = received c i l @ (if a = c \<and> j = i then [mail] else [])"
  by (simp_all add: transmitted_def received_def sent_of_def got_of_def)

lemma phase_other: "phase b a u l v \<Longrightarrow> a \<noteq> b \<Longrightarrow> phase b a u (l @ [Got a i mail]) v"
  "phase b a u l v \<Longrightarrow> pkt_to p = b \<Longrightarrow> a \<noteq> b \<Longrightarrow> phase b a u (l @ [Sent a p m msg True True]) v"
  by (simp_all add: phase_def log_snoc)

lemma messages:
  "hello_hdr\<lparr>mail_to := 1, mail_length := of_nat (length ack)\<rparr> = ack_hdr" "length hello = 13" "length ack = 8"
  "takeWhile (\<lambda>c. c \<noteq> 0) (hello @ bs) = map of_char ''Hello there!''" "takeWhile (\<lambda>c. c \<noteq> 0) (ack @ bs) = map of_char ''Got it!''"
  by (simp_all add: hello_hdr_def ack_hdr_def hello_def ack_def)

text \<open>The three kinds of steps, for a test \<open>t\<close> of \<open>A\<close>. A step at which the test goes on increases its rank.\<close>

definition goes_on :: "32 word \<Rightarrow> 32 word \<Rightarrow> mail_test \<Rightarrow> mail_test \<Rightarrow> mail_world \<Rightarrow> mail_world result \<Rightarrow> bool" where
  "goes_on A B t u x r \<longleftrightarrow> (\<exists>w t'. r = Inr \<lparr>net = w, tests = (tests x)(A \<mapsto> t')\<rparr> \<and> pair_ok A B t' u w \<and> rank (t_pc t) < rank (t_pc t'))"

lemma send_goes_on:
  assumes x: "pair_ok A B t u (net x)" and t: "(t_pc t, msg, pc) \<in> {(First_Send, hello, First_Wait True), (Ack_Send, ack, Ack_Wait True)}"
    and junk: "length junk = MaxPacketSize" "length junk_wire = MaxWireSize"
  shows "goes_on A B t u x (mail_test_step r junk junk_wire A t x)"
proof -
  let ?m = "outMailHdr t"
  let ?p = "(outPktHdr t)\<lparr>pkt_from := A, pkt_length := mail_length ?m + 12\<rparr>"
  have v: "view (net x) A = Some (False, 0, 0)" and p: "pkt_to (outPktHdr t) = B" and g: "net_good (net x)" "A \<noteq> B"
    and m: "t_pc t = First_Send \<and> ?m = hello_hdr \<or> t_pc t = Ack_Send \<and> ?m = ack_hdr"
    using x t by (auto simp: pair_ok_def phase_def)
  have "rank (t_pc u) \<noteq> 6" using x t by (auto simp: pair_ok_def)
  then have d: "view (net x) B \<noteq> None" using x by (auto simp: pair_ok_def phase_def Let_def split: if_splits)
  have l: "length msg \<le> 40" "unat (mail_length ?m) = length msg" "0 \<le> sint (mail_to ?m)" "sint (mail_to ?m) < 10"
    using m t by (auto simp: messages hello_hdr_def ack_hdr_def)
  from Send_does [OF g(1) v _ _ l junk, of "outPktHdr t" r] d p g(2) obtain w' where
    w': "does A (Ev_Send (outPktHdr t) ?m msg r junk junk_wire) (net x) w' [Sent A ?p ?m msg True True] ((view (net x))(A := Some (True, 1, 0)))"
    by auto
  have e: "\<lparr>pktHdr = ?p, mailHdr = ?m, data = msg\<rparr> = mail_from_to A B ?m msg"
    using p by (cases "outPktHdr t") (simp add: mail_from_to_def)
  have "mail_test_step r junk junk_wire A t x = Inr \<lparr>net = w', tests = (tests x)(A \<mapsto> t\<lparr>t_pc := pc\<rparr>)\<rparr>"
    using w' t by (auto simp: mail_test_step_def test_send_def does_def Send_result_def)
  moreover have "phase B A u (log w') (view w' B)" "net_good w'"
    using x w' p g(2) by (simp_all add: pair_ok_def does_def phase_other)
  moreover have "phase A B (t\<lparr>t_pc := pc\<rparr>) (log w') (view w' A)"
    using m
  proof (elim disjE conjE)
    assume "t_pc t = First_Send" "?m = hello_hdr"
    then show ?thesis using x w' t p e by (simp add: pair_ok_def does_def phase_def log_snoc) (simp add: hello_hdr_def)
  next
    assume "t_pc t = Ack_Send" "?m = ack_hdr"
    then show ?thesis using x w' t p e by (simp add: pair_ok_def does_def phase_def log_snoc) (simp add: ack_hdr_def)
  qed
  ultimately show ?thesis using x t unfolding goes_on_def pair_ok_def by (intro exI [of _ w'] exI [of _ "t\<lparr>t_pc := pc\<rparr>"]) auto
qed

lemma return_goes_on:
  assumes x: "pair_ok A B t u (net x)" and t: "rank (t_pc t) = 1 \<or> rank (t_pc t) = 4" "view (net x) A = Some (True, k, i)" "0 < i"
  shows "goes_on A B t u x (mail_test_step r junk junk_wire A t x)"
proof -
  let ?pc = "if rank (t_pc t) = 1 then First_Receive else Second_Receive"
  have pc: "t_pc t = First_Wait True \<and> ?pc = First_Receive \<or> t_pc t = Ack_Wait True \<and> ?pc = Second_Receive"
    using x t(1) by (cases "t_pc t") (auto simp: pair_ok_def phase_def)
  have v: "view (net x) A = Some (True, 0, 1)" and g: "net_good (net x)" using x t by (auto simp: pair_ok_def phase_def Let_def)
  from SendReturns_does [OF g v] obtain w' where w': "does A Ev_SendReturns (net x) w' [] ((view (net x))(A := Some (False, 0, 0)))" by auto
  have "mail_test_step r junk junk_wire A t x = Inr \<lparr>net = w', tests = (tests x)(A \<mapsto> t\<lparr>t_pc := ?pc\<rparr>)\<rparr>"
    using w' pc by (auto simp: mail_test_step_def test_return_def does_def)
  moreover have "pair_ok A B (t\<lparr>t_pc := ?pc\<rparr>) u w'"
    using x w' pc by (auto simp: pair_ok_def does_def phase_def Let_def)
  ultimately show ?thesis using pc unfolding goes_on_def by fastforce
qed

lemma net_good_halt: "net_good w \<Longrightarrow> net_good (w\<lparr>stations := (stations w)(a := None)\<rparr>)" "view (w\<lparr>stations := (stations w)(a := None)\<rparr>) = (view w)(a := None)"
  by (auto simp: net_good_def mail_ok_def lossy_def view_def)

lemma receive_first:
  assumes x: "pair_ok A B t u (net x)" and t: "t_pc t = First_Receive"
  shows "mail_test_step r junk junk_wire A t x = Inr x \<and> (\<exists>s. stations (net x) A = Some s \<and> boxes (post s) ! 0 = []) \<or>
     goes_on A B t u x (mail_test_step r junk junk_wire A t x)"
proof -
  have v: "view (net x) A \<noteq> None" and g: "net_good (net x)" and l: "length (t_buffer t) = 40" using x t by (simp_all add: pair_ok_def phase_def)
  from Receive_does [OF g v, of 0, simplified] show ?thesis
  proof (elim disjE exE conjE)
    fix w' mail ms
    assume w': "does A (Ev_Receive 0) (net x) w' [Got A 0 mail] (view (net x))" and tr: "transmitted A 0 (log (net x)) = received A 0 (log (net x)) @ mail # ms"
    have mail: "mail = greeting B A" using x t tr by (auto simp: pair_ok_def phase_def Let_def split: if_splits)
    let ?b = "hello @ drop 13 (t_buffer t)"
    have b: "copy_in 0 (data mail) (t_buffer t) = Inr ?b" using l by (simp add: copy_in_def write_at_def messages mail mail_from_to_def)
    let ?t = "t\<lparr>t_buffer := ?b, printed := printed t @ [(map of_char ''Hello there!'', B, 1)], t_pc := Ack_Send,
      outPktHdr := (outPktHdr t)\<lparr>pkt_to := B\<rparr>, outMailHdr := ack_hdr\<rparr>"
    have "mail_test_step r junk junk_wire A t x = Inr \<lparr>net = w', tests = (tests x)(A \<mapsto> ?t)\<rparr>"
      using w' t b x by (simp add: mail_test_step_def test_receive_def does_def Receive_result_def messages mail mail_from_to_def pair_ok_def phase_def
          hello_hdr_def ack_hdr_def)
    moreover have "phase A B ?t (log w') (view w' A)"
      using x w' t l by (simp add: pair_ok_def does_def phase_def log_snoc mail messages expected_def)
    with x w' t have "pair_ok A B ?t u w'" by (simp add: pair_ok_def does_def phase_other)
    ultimately show ?thesis using t unfolding goes_on_def by fastforce
  qed (use t in \<open>auto simp: mail_test_step_def test_receive_def Receive_result_def\<close>)
qed

lemma receive_second:
  assumes x: "pair_ok A B t u (net x)" and t: "t_pc t = Second_Receive"
  shows "mail_test_step r junk junk_wire A t x = Inr x \<and> (\<exists>s. stations (net x) A = Some s \<and> boxes (post s) ! 1 = []) \<or>
     goes_on A B t u x (mail_test_step r junk junk_wire A t x)"
proof -
  have v: "view (net x) A \<noteq> None" and g: "net_good (net x)" and l: "length (t_buffer t) = 40" using x t by (simp_all add: pair_ok_def phase_def)
  from Receive_does [OF g v, of 1, simplified] show ?thesis
  proof (elim disjE exE conjE)
    fix w' mail ms
    assume w': "does A (Ev_Receive 1) (net x) w' [Got A 1 mail] (view (net x))" and tr: "transmitted A 1 (log (net x)) = received A 1 (log (net x)) @ mail # ms"
    have mail: "mail = answer B A" "4 \<le> rank (t_pc u)" using x t tr by (auto simp: pair_ok_def phase_def Let_def split: if_splits)
    let ?b = "ack @ drop 8 (t_buffer t)"
    have b: "copy_in 0 (data mail) (t_buffer t) = Inr ?b" using l by (simp add: copy_in_def write_at_def messages mail mail_from_to_def)
    let ?t = "t\<lparr>t_buffer := ?b, printed := printed t @ [(map of_char ''Got it!'', B, 1)], t_pc := Halted True\<rparr>"
    let ?w = "w'\<lparr>stations := (stations w')(A := None)\<rparr>"
    have "mail_test_step r junk junk_wire A t x = Inr \<lparr>net = ?w, tests = (tests x)(A \<mapsto> ?t)\<rparr>"
      using w' t b by (simp add: mail_test_step_def test_receive_def test_halt_def does_def Receive_result_def messages mail mail_from_to_def ack_hdr_def)
    moreover have "phase A B ?t (log ?w) (view ?w A)"
      using x w' t l by (simp add: pair_ok_def does_def phase_def log_snoc mail(1) messages expected_def net_good_halt)
    with x w' t mail(2) have "pair_ok A B ?t u ?w" by (auto simp: pair_ok_def does_def phase_other net_good_halt)
    ultimately show ?thesis using t unfolding goes_on_def by fastforce
  qed (use t in \<open>auto simp: mail_test_step_def test_receive_def Receive_result_def\<close>)
qed

text \<open>A device changes the state of a sender at most by the end of a transmission.\<close>

lemma device_keeps:
  assumes x: "pair_ok A B t u w" and ev: "ev \<in> {Ev_SendDone, Ev_Poll, Ev_Deliver}" "net_enabled c ev w"
  shows "\<exists>w'. net_step c ev w = Inr w' \<and> pair_ok A B t u w'"
proof (cases "ev = Ev_SendDone")
  case False
  have "net_good w" using x by (simp add: pair_ok_def)
  from quiet_device [OF this _ ev(2)] False ev(1) obtain w' where "does c ev w w' [] (view w)" by auto
  then show ?thesis using x by (auto simp: does_def pair_ok_def)
next
  case True
  have g: "net_good w" using x by (simp add: pair_ok_def)
  obtain b k i where v: "view w c = Some (b, Suc k, i)" using ev(2) True
    by (cases "stations w c") (auto simp: net_enabled_def view_def send_state_def gr0_conv_Suc)
  from SendDone_does [OF g this] obtain w' where w': "does c Ev_SendDone w w' [] ((view w)(c := Some (b, k, i + 1)))" by blast
  have p: "phase a a' t l (((view w)(c := Some (b, k, i + 1))) a)" if "phase a a' t l (view w a)" for a a' t l
    using that v by (auto simp: phase_def Let_def split: if_splits)
  show ?thesis using x w' p True by (auto simp: does_def pair_ok_def)
qed

lemma test_run_ok:
  assumes x: "pair_ok A B t u (net x)" "tests x A = Some t" and en: "test_enabled A (Run_test r junk junk_wire) x"
  shows "mail_test_step r junk junk_wire A t x = Inr x \<and>
       (\<exists>i s. (i = 0 \<and> t_pc t = First_Receive \<or> i = 1 \<and> t_pc t = Second_Receive) \<and> stations (net x) A = Some s \<and> boxes (post s) ! i = []) \<or>
     goes_on A B t u x (mail_test_step r junk junk_wire A t x)"
proof -
  have j: "length junk = MaxPacketSize" "length junk_wire = MaxWireSize" using en by simp_all
  have w: "\<exists>k i. view (net x) A = Some (True, k, i) \<and> 0 < i" if "net_enabled A Ev_SendReturns (net x)"
    using that by (auto simp: net_enabled_def view_def send_state_def split: option.splits)
  show ?thesis
  proof (cases "t_pc t")
    case First_Send
    then show ?thesis using send_goes_on [OF x(1) _ j] by simp
  next
    case Ack_Send
    then show ?thesis using send_goes_on [OF x(1) _ j] by simp
  next
    case (First_Wait ok)
    then show ?thesis using return_goes_on [OF x(1)] w x(2) en by auto
  next
    case (Ack_Wait ok)
    then show ?thesis using return_goes_on [OF x(1)] w x(2) en by auto
  next
    case First_Receive
    then show ?thesis using receive_first [OF x(1)] by blast
  next
    case Second_Receive
    then show ?thesis using receive_second [OF x(1)] by blast
  qed (use x(2) en in simp)
qed

lemma goes_on_inv:
  assumes "tests x = [A \<mapsto> t, B \<mapsto> u]" "goes_on A B t u x r"
  shows "\<exists>x' t'. r = Inr x' \<and> tests x' = [A \<mapsto> t', B \<mapsto> u] \<and> pair_ok A B t' u (net x') \<and> rank (t_pc t) < rank (t_pc t')"
proof -
  from assms(2) obtain w t' where w: "r = Inr \<lparr>net = w, tests = (tests x)(A \<mapsto> t')\<rparr>" "pair_ok A B t' u w" "rank (t_pc t) < rank (t_pc t')"
    unfolding goes_on_def by blast
  have "(tests x)(A \<mapsto> t') = [A \<mapsto> t', B \<mapsto> u]" using assms(1) w(2) by (auto simp: pair_ok_def)
  with w show ?thesis by auto
qed

lemma run_inv:
  assumes "test_inv A B x" "test_enabled A (Run_test r junk junk_wire) x"
  shows "\<exists>x'. test_step A (Run_test r junk junk_wire) x = Inr x' \<and> test_inv A B x'"
proof -
  from assms(1) obtain t u where x: "tests x = [A \<mapsto> t, B \<mapsto> u]" "pair_ok A B t u (net x)" by (auto simp: test_inv_def)
  then have t: "tests x A = Some t" by (simp add: pair_ok_def)
  from test_run_ok [OF x(2) t assms(2)] show ?thesis using assms(1) goes_on_inv [OF x(1)] t by (fastforce simp: test_inv_def)
qed

lemma test_step_ok:
  assumes "test_inv A B x" "test_enabled c ev x"
  shows "\<exists>x'. test_step c ev x = Inr x' \<and> test_inv A B x'"
proof (cases ev)
  case (Run_test r junk junk_wire)
  then have "tests x c \<noteq> None" using assms(2) by (auto split: option.splits)
  then have "c = A \<or> c = B" using assms(1) by (auto simp: test_inv_def split: if_splits)
  then show ?thesis using run_inv [of A B x] run_inv [of B A x] test_inv_sym assms Run_test by metis
next
  case (Device e)
  from assms(1) obtain t u where x: "tests x = [A \<mapsto> t, B \<mapsto> u]" "pair_ok A B t u (net x)" by (auto simp: test_inv_def)
  from device_keeps [OF x(2), of e c] assms(2) Device obtain w' where "net_step c e (net x) = Inr w'" "pair_ok A B t u w'" by auto
  then show ?thesis using x(1) Device by (auto simp: test_inv_def)
qed

lemma test_reach_inv: "test_reach x y \<Longrightarrow> test_inv A B x \<Longrightarrow> test_inv A B y"
  by (induction rule: test_reach.induct) (use test_step_ok in fastforce)+

text \<open>No machine loses packets.\<close>

definition reliable :: "(32 word \<rightharpoonup> PacketHeader \<times> byte list \<times> byte list \<times> real) \<Rightarrow> bool" where
  "reliable up \<longleftrightarrow> (\<forall>a h box buf rel. up a = Some (h, box, buf, rel) \<longrightarrow> 1 \<le> rel)"

lemma test_init_inv:
  assumes "A \<noteq> B" "buffers_ok up" "up A \<noteq> None" "up B \<noteq> None" "reliable up" "length junk_buffer = MaxMailSize"
  shows "test_inv A B (test_init up junk_hdr junk_buffer A B)"
proof -
  let ?x = "test_init up junk_hdr junk_buffer A B"
  have "mail_ok 10 (net_init up 10)" using net_init_ok(1) [of up 10] assms(2) unfolding buffers_ok_def by blast
  moreover have "\<not> lossy (net_init up 10) a" for a unfolding net_init_lossy using assms(5) by (fastforce simp: reliable_def)
  ultimately have g: "net_good (net_init up 10)" by (simp add: net_good_def net_init_def)
  have v: "view (net_init up 10) a = Some (False, 0, 0)" if "up a \<noteq> None" for a
    using that by (auto simp: view_def net_init_def send_state_def PostOffice_ctor_def)
  have "phase a b (MailTest junk_hdr junk_buffer b) (log (net_init up 10)) (view (net_init up 10) a)" if "up a \<noteq> None" for a b
    using v [OF that] assms(6)
    by (simp add: phase_def MailTest_def net_init_def transmitted_def received_def hello_hdr_def messages mail_sizes)
  then have "pair_ok A B (MailTest junk_hdr junk_buffer B) (MailTest junk_hdr junk_buffer A) (net_init up 10)"
    using assms(1,3,4) g by (simp add: pair_ok_def) (simp add: MailTest_def)
  then show ?thesis unfolding test_inv_def test_init_def by auto
qed

section \<open>The test comes to its end\<close>

lemma test_reach_trans: "test_reach y z \<Longrightarrow> test_reach x y \<Longrightarrow> test_reach x z"
  by (induction rule: test_reach.induct) (auto intro: test_reach.intros)

lemma test_reach_step: "test_enabled a ev x \<Longrightarrow> test_step a ev x = Inr x' \<Longrightarrow> test_reach x x'"
  using test_next [OF test_start] .

text \<open>A test that waits for a mail that has been sent.\<close>

definition due :: "nat \<Rightarrow> mail_test \<Rightarrow> mail_test \<Rightarrow> bool" where
  "due i t u \<longleftrightarrow> i = 0 \<and> t_pc t = First_Receive \<and> 1 \<le> rank (t_pc u) \<or> i = 1 \<and> t_pc t = Second_Receive \<and> 4 \<le> rank (t_pc u)"

lemma due_waiting:
  assumes "pair_ok A B t u w" "due i t u" "stations w A = Some s"
  shows "waiting (int i) s \<noteq> []" "mail_ok 10 w" "int i < int 10"
proof -
  show "mail_ok 10 w" "int i < int 10" using assms(1,2) by (auto simp: pair_ok_def net_good_def due_def)
  then have "transmitted A (int i) (log w) = received A (int i) (log w) @ waiting (int i) s" using assms(3) by (simp add: mail_ok_def)
  then show "waiting (int i) s \<noteq> []" using assms(1,2) by (auto simp: pair_ok_def phase_def due_def)
qed

lemma mail_arrives:
  assumes "pair_ok A B t u (net x)" "due i t u" "stations (net x) A = Some s"
  shows "\<exists>x' s'. test_reach x x' \<and> tests x' = tests x \<and> pair_ok A B t u (net x') \<and> stations (net x') A = Some s' \<and> boxes (post s') ! i \<noteq> []"
  using assms
proof (induction "load (int i) s" arbitrary: x s rule: less_induct)
  case less
  show ?case
  proof (cases "boxes (post s) ! i = []")
    case True
    note W = due_waiting [OF less.prems]
    have "arriving s \<noteq> []" using W(1) True by (auto simp: waiting_def mail_for_def)
    then have "drains Ev_Poll A (int i) (net x) s \<or> drains Ev_Deliver A (int i) (net x) s"
      using Poll_drains [OF W(2) less.prems(3)] Deliver_drains [OF W(2) less.prems(3) _ _ W(3)] by (auto simp: arriving_def)
    then obtain ev w' s' where ev: "ev \<in> {Ev_SendDone, Ev_Poll, Ev_Deliver}" "net_enabled A ev (net x)" "net_step A ev (net x) = Inr w'"
      "stations w' A = Some s'" "load (int i) s' < load (int i) s" unfolding drains_def by blast
    have p: "pair_ok A B t u w'" using device_keeps [OF less.prems(1) ev(1,2)] ev(3) by simp
    from less.hyps [of s' "x\<lparr>net := w'\<rparr>"] ev(4,5) p less.prems(2) obtain x' s'' where
      x': "test_reach (x\<lparr>net := w'\<rparr>) x'" "tests x' = tests x" "pair_ok A B t u (net x')" "stations (net x') A = Some s''" "boxes (post s'') ! i \<noteq> []" by auto
    have "test_reach x (x\<lparr>net := w'\<rparr>)" by (rule test_reach_step [of A "Device ev"]) (use ev in simp_all)
    then show ?thesis using x' test_reach_trans by blast
  qed (use less.prems test_start in blast)
qed

text \<open>The test that is behind, or one of two that are at the same place, can go on.\<close>

lemma run_progress:
  assumes x: "tests x = [A \<mapsto> t, B \<mapsto> u]" "pair_ok A B t u (net x)" and en: "test_enabled A (Run_test 0 (replicate 52 0) (replicate 64 0)) x"
    and m: "\<And>i s. due i t u \<Longrightarrow> stations (net x) A = Some s \<Longrightarrow> boxes (post s) ! i \<noteq> []" and le: "rank (t_pc t) \<le> rank (t_pc u)"
  shows "\<exists>x' t'. test_reach x x' \<and> tests x' = [A \<mapsto> t', B \<mapsto> u] \<and> pair_ok A B t' u (net x') \<and> rank (t_pc t) < rank (t_pc t')"
proof -
  have t: "tests x A = Some t" using x by (simp add: pair_ok_def)
  have "goes_on A B t u x (mail_test_step 0 (replicate 52 0) (replicate 64 0) A t x)"
    using test_run_ok [OF x(2) t en] m le by (auto simp: due_def)
  from goes_on_inv [OF x(1) this] obtain x' t' where
    x': "mail_test_step 0 (replicate 52 0) (replicate 64 0) A t x = Inr x'" "tests x' = [A \<mapsto> t', B \<mapsto> u]" "pair_ok A B t' u (net x')"
      "rank (t_pc t) < rank (t_pc t')" by blast
  have "test_reach x x'" by (rule test_reach_step [OF en]) (use t x'(1) in simp)
  with x' show ?thesis by blast
qed

lemma can_go_on:
  assumes x: "tests x = [A \<mapsto> t, B \<mapsto> u]" "pair_ok A B t u (net x)" and le: "rank (t_pc t) \<le> rank (t_pc u)" "rank (t_pc t) < 6"
  shows "\<exists>x' t'. test_reach x x' \<and> tests x' = [A \<mapsto> t', B \<mapsto> u] \<and> pair_ok A B t' u (net x') \<and> rank (t_pc t) < rank (t_pc t')"
proof -
  have t: "tests x A = Some t" using x by (simp add: pair_ok_def)
  have l: "length (replicate 52 (0 :: byte)) = MaxPacketSize" "length (replicate 64 (0 :: byte)) = MaxWireSize" by (simp_all add: packet_sizes)
  consider (send) "t_pc t = First_Send \<or> t_pc t = Ack_Send" | (wait) "rank (t_pc t) = 1 \<or> rank (t_pc t) = 4" | (receive) i where "due i t u"
    using le by (cases "t_pc t") (auto simp: due_def)
  then show ?thesis
  proof cases
    case send
    then show ?thesis by (intro run_progress [OF x]) (use t l le in \<open>auto simp: due_def\<close>)
  next
    case wait
    have "\<exists>x1. test_reach x x1 \<and> tests x1 = tests x \<and> pair_ok A B t u (net x1) \<and> view (net x1) A = Some (True, 0, 1)"
    proof (cases "view (net x) A = Some (True, 0, 1)")
      case False
      then have v: "view (net x) A = Some (True, Suc 0, 0)" and g: "net_good (net x)" using x(2) wait by (auto simp: pair_ok_def phase_def Let_def)
      from SendDone_does [OF g v] obtain w' where w': "net_step A Ev_SendDone (net x) = Inr w'" "view w' A = Some (True, 0, 1)" by (auto simp: does_def)
      have en: "net_enabled A Ev_SendDone (net x)" using v by (auto simp: net_enabled_def view_def send_state_def)
      have "test_reach x (x\<lparr>net := w'\<rparr>)" by (rule test_reach_step [of A "Device Ev_SendDone"]) (use w'(1) en in simp_all)
      moreover have "pair_ok A B t u w'" using device_keeps [OF x(2) _ en] w'(1) by simp
      ultimately show ?thesis using w'(2) by (intro exI [of _ "x\<lparr>net := w'\<rparr>"]) simp
    qed (use x test_start in blast)
    then obtain x1 where x1: "test_reach x x1" "tests x1 = tests x" "pair_ok A B t u (net x1)" "view (net x1) A = Some (True, 0, 1)" by blast
    have "net_enabled A Ev_SendReturns (net x1)" using x1(4) by (auto simp: net_enabled_def view_def send_state_def)
    then have "test_enabled A (Run_test 0 (replicate 52 0) (replicate 64 0)) x1"
      using t x1(2) l wait by (cases "t_pc t") auto
    from run_progress [OF _ x1(3) this _ le(1)] x1(1,2) x(1) wait show ?thesis
      using test_reach_trans by (fastforce simp: due_def)
  next
    case receive
    then obtain s where s: "stations (net x) A = Some s" using x(2) by (cases "stations (net x) A") (auto simp: pair_ok_def phase_def due_def view_def)
    from mail_arrives [OF x(2) receive s] obtain x1 s1 where
      x1: "test_reach x x1" "tests x1 = tests x" "pair_ok A B t u (net x1)" "stations (net x1) A = Some s1" "boxes (post s1) ! i \<noteq> []" by blast
    have "test_enabled A (Run_test 0 (replicate 52 0) (replicate 64 0)) x1" using t x1(2) l receive by (auto simp: due_def)
    from run_progress [OF _ x1(3) this _ le(1)] x1 x(1) receive show ?thesis
      using test_reach_trans by (fastforce simp: due_def)
  qed
qed

lemma both_halt:
  assumes "tests x = [A \<mapsto> t, B \<mapsto> u]" "pair_ok A B t u (net x)"
  shows "\<exists>x' t' u'. test_reach x x' \<and> tests x' = [A \<mapsto> t', B \<mapsto> u'] \<and> pair_ok A B t' u' (net x') \<and> rank (t_pc t') = 6 \<and> rank (t_pc u') = 6"
  using assms
proof (induction "12 - rank (t_pc t) - rank (t_pc u)" arbitrary: x t u rule: less_induct)
  case less
  have r: "rank p \<le> 6" for p by (cases p) simp_all
  have "A \<noteq> B" using less.prems(2) by (simp add: pair_ok_def)
  then have sw: "tests x = [B \<mapsto> u, A \<mapsto> t]" using less.prems(1) by auto
  consider "rank (t_pc t) = 6 \<and> rank (t_pc u) = 6" | "rank (t_pc t) \<le> rank (t_pc u)" "rank (t_pc t) < 6" | "rank (t_pc u) \<le> rank (t_pc t)" "rank (t_pc u) < 6"
    using r [of "t_pc t"] r [of "t_pc u"] by linarith
  then show ?case
  proof cases
    case 1
    then show ?thesis using less.prems test_start by blast
  next
    case 2
    from can_go_on [OF less.prems 2] obtain x' t' where
      x': "test_reach x x'" "tests x' = [A \<mapsto> t', B \<mapsto> u]" "pair_ok A B t' u (net x')" "rank (t_pc t) < rank (t_pc t')" by blast
    have "12 - rank (t_pc t') - rank (t_pc u) < 12 - rank (t_pc t) - rank (t_pc u)" using x'(4) r [of "t_pc t'"] r [of "t_pc u"] by linarith
    from less.hyps [OF this x'(2,3)] x'(1) test_reach_trans show ?thesis by blast
  next
    case 3
    from can_go_on [OF sw pair_ok_sym [OF less.prems(2)] 3] obtain x' u' where
      x': "test_reach x x'" "tests x' = [B \<mapsto> u', A \<mapsto> t]" "pair_ok B A u' t (net x')" "rank (t_pc u) < rank (t_pc u')" by blast
    have "12 - rank (t_pc t) - rank (t_pc u') < 12 - rank (t_pc t) - rank (t_pc u)" using x'(4) r [of "t_pc u'"] r [of "t_pc t"] by linarith
    moreover have "tests x' = [A \<mapsto> t, B \<mapsto> u']" using x'(2) \<open>A \<noteq> B\<close> by auto
    ultimately show ?thesis using less.hyps [OF _ _ pair_ok_sym [OF x'(3)]] x'(1) test_reach_trans by blast
  qed
qed

lemma halted_test:
  assumes "phase a b t l v" "rank (t_pc t) = 6"
  shows "t_pc t = Halted True \<and> printed t = expected b"
proof -
  have "t_pc t = Halted True" using assms by (cases "t_pc t") (simp_all add: phase_def)
  then show ?thesis using assms by (simp add: phase_def expected_def)
qed

text \<open>
  C40: The network test cannot go wrong on a reliable network. Two machines that run \<open>MailTest\<close> with each
  other may be interleaved with each other, with their interrupts and their postal workers in any
  way: no assertion fails, no call of \<open>Send\<close> reports a failure although a machine closes its socket as soon as it
  is done, a machine never prints anything but the two lines expected of it, in their order; and from every
  reachable state both can still come to their end, where each has printed the greeting and the
  acknowledgement of the other.
\<close>

theorem mail_test_succeeds:
  assumes "A \<noteq> B" "buffers_ok up" "up A \<noteq> None" "up B \<noteq> None" "reliable up"
    "length junk_buffer = MaxMailSize" "test_reach (test_init up junk_hdr junk_buffer A B) x"
  shows "(\<forall>a ev. test_enabled a ev x \<longrightarrow> (\<exists>x'. test_step a ev x = Inr x')) \<and>
     (\<exists>t u. tests x A = Some t \<and> tests x B = Some u \<and> t_pc t \<noteq> Halted False \<and> t_pc u \<noteq> Halted False \<and>
        (\<exists>i j. printed t = take i (expected B) \<and> printed u = take j (expected A))) \<and>
     (\<exists>x' t u. test_reach x x' \<and> tests x' A = Some t \<and> tests x' B = Some u \<and> t_pc t = Halted True \<and> t_pc u = Halted True \<and>
        printed t = expected B \<and> printed u = expected A)"
proof -
  have i: "test_inv A B x" using test_reach_inv [OF assms(7) test_init_inv [OF assms(1-6)]] .
  then obtain t u where x: "tests x = [A \<mapsto> t, B \<mapsto> u]" "pair_ok A B t u (net x)" by (auto simp: test_inv_def)
  have P: "phase A B t (log (net x)) (view (net x) A)" "phase B A u (log (net x)) (view (net x) B)" using x(2) by (simp_all add: pair_ok_def)
  from both_halt [OF x] obtain x' t' u' where
    h: "test_reach x x'" "tests x' = [A \<mapsto> t', B \<mapsto> u']" "pair_ok A B t' u' (net x')" "rank (t_pc t') = 6" "rank (t_pc u') = 6" by blast
  have Q: "phase A B t' (log (net x')) (view (net x') A)" "phase B A u' (log (net x')) (view (net x') B)" using h(3) by (simp_all add: pair_ok_def)
  have "\<exists>i. printed t = take i (expected B)" "\<exists>j. printed u = take j (expected A)" "t_pc t \<noteq> Halted False" "t_pc u \<noteq> Halted False"
    using P unfolding phase_def Let_def by (blast, blast, auto)
  moreover have "tests x A = Some t" "tests x B = Some u" "tests x' A = Some t'" "tests x' B = Some u'" using x(1) h(2) assms(1) by simp_all
  ultimately show ?thesis using test_step_ok [OF i] h(1) halted_test [OF Q(1) h(4)] halted_test [OF Q(2) h(5)] by blast
qed

theorem mail_test_succeeds_witness:
  "\<exists>x' t u. test_reach (test_init (two_hosts 1) \<lparr>pkt_to = 0, pkt_from = 0, pkt_length = 0\<rparr> (replicate 40 0) 1 2) x' \<and>
     tests x' 1 = Some t \<and> tests x' 2 = Some u \<and> printed t = expected 2 \<and> printed u = expected 1"
proof -
  have "(1 :: 32 word) \<noteq> 2" "two_hosts 1 1 \<noteq> None" "two_hosts 1 2 \<noteq> None" "length (replicate 40 (0 :: byte)) = MaxMailSize"
    by (simp_all add: two_hosts_def mail_sizes)
  note h = this
  have "reliable (two_hosts 1)" by (simp add: reliable_def two_hosts_def)
  from mail_test_succeeds [OF h(1) two_hosts_ok h(2,3) this h(4) test_start] show ?thesis by blast
qed

text \<open>
  On a network that loses packets the test may hang: when both greetings are lost, the machines wait
  for each other and no event changes anything any more.
\<close>

definition lossy_run :: "mail_world result" where
  "lossy_run = (let e = \<lambda>r. Run_test r (replicate 52 0) (replicate 64 0);
     x0 = test_init (two_hosts (1 / 2)) \<lparr>pkt_to = 0, pkt_from = 0, pkt_length = 0\<rparr> (replicate 40 0) 1 2
   in fold (\<lambda>(a, ev) r. bind_result r (\<lambda>x. bind_result (ASSERT (test_enabled a ev x)) (\<lambda>_. test_step a ev x)))
        [(1, e 99), (2, e 99), (1, Device Ev_SendDone), (2, Device Ev_SendDone), (1, e 0), (2, e 0)] (Inr x0))"

lemma mail_test_may_hang:
  "case lossy_run of Inl e \<Rightarrow> False
   | Inr x \<Rightarrow> list_all (\<lambda>a. (case tests x a of None \<Rightarrow> False | Some t \<Rightarrow> t_pc t = First_Receive) \<and>
       list_all (\<lambda>ev. test_enabled a ev x \<longrightarrow> (case test_step a ev x of Inl e \<Rightarrow> False
          | Inr x' \<Rightarrow> log (net x') = log (net x) \<and> tests x' 1 = tests x 1 \<and> tests x' 2 = tests x 2))
         [Run_test 0 (replicate 52 0) (replicate 64 0), Device Ev_SendDone, Device Ev_Poll, Device Ev_Deliver]) [1, 2]"
  by code_simp

end
